(* ===== verification/Kaapi_Prelude.thy ===== *)
theory Kaapi_Prelude
  imports Main "HOL-Library.Word"
begin

text \<open>
  Shared vocabulary of the development: the machine integers of the C code, the error codes of
  \<^verbatim>\<open>errno.h\<close> the runtime returns, the compiler builtins it uses on words, and the generic
  facts about bits, words and lists on which the component theories rest.  Three collections
  gather the facts the proofs share: \<open>bitmem\<close> for membership in a set of bits,
  \<open>heap_upd\<close> for reads over updates of a store of structures, and \<open>kaapi_inv\<close> for
  preservation of invariants.
\<close>

unbundle bit_operations_syntax

named_theorems bitmem
named_theorems heap_upd
named_theorems kaapi_inv

type_synonym uint8 = "8 word"
type_synonym uint32 = "32 word"
type_synonym uint64 = "64 word"

text \<open>The values of \<^verbatim>\<open>errno.h\<close> which the modelled functions return; \<open>OK\<close> is the
  C value 0.\<close>

datatype errno = OK | EBUSY | EINVAL | ESRCH | ERANGE | ENOENT | EPERM | EACCES | ECHILD | EWOULDBLOCK | EINTR | ENOEXEC | EOTHER

section \<open>Words as sets of bits\<close>

definition bits_of :: "'a::len word \<Rightarrow> nat set" where
  "bits_of w = {n. bit w n}"

lemma mem_bits_of [bitmem]: "n \<in> bits_of w \<longleftrightarrow> bit w n"
  by (simp add: bits_of_def)

lemma bits_of_less: "bits_of (w :: 'a::len word) \<subseteq> {..<LENGTH('a)}"
  by (auto simp: bits_of_def dest: bit_imp_le_length)

lemma finite_bits_of [simp]: "finite (bits_of w)"
  using bits_of_less finite_subset by blast

lemma bits_of_inject: "bits_of v = bits_of w \<longleftrightarrow> v = w"
  by (auto simp: bits_of_def set_eq_iff intro: bit_eqI)

lemma bits_of_empty: "bits_of w = {} \<longleftrightarrow> w = 0"
  using bits_of_inject [of w 0] by (simp add: bits_of_def)

text \<open>\<^verbatim>\<open>(1 << i)\<close>, the mask of one bit, and \<^verbatim>\<open>(1 << i) - 1\<close>, the mask of the bits below
  \<open>i\<close>.\<close>

lemma bit_shl1 [bitmem]: "bit (2 ^ i :: 'a::len word) n \<longleftrightarrow> n = i \<and> n < LENGTH('a)"
  by (auto simp: bit_simps)

lemma bit_low_mask [bitmem]: "bit (2 ^ i - 1 :: 'a::len word) n \<longleftrightarrow> n < i \<and> n < LENGTH('a)"
proof -
  have "2 ^ i - 1 = (mask i :: 'a word)"
    by (simp add: mask_eq_exp_minus_1)
  then show ?thesis by (auto simp: bit_mask_iff)
qed

lemmas word_bit_simps = bit_or_iff bit_and_iff bit_not_iff bit_xor_iff

text \<open>\<^verbatim>\<open>(w & (1 << i)) != 0\<close>, the C test of one bit.\<close>

lemma and_shl1_nonzero [bitmem]: "(w AND 2 ^ i) \<noteq> 0 \<longleftrightarrow> bit w i"
  for w :: "'a::len word"
proof -
  have "bits_of (w AND 2 ^ i) = (if bit w i then {i} else {})"
    by (auto simp: bits_of_def word_bit_simps bitmem dest: bit_imp_le_length)
  then show ?thesis by (metis bits_of_empty insert_not_empty)
qed

section \<open>Compiler builtins\<close>

text \<open>\<^verbatim>\<open>__builtin_ffs\<close> and \<^verbatim>\<open>__builtin_ffsl\<close>: one plus the index of the least significant 1-bit, or 0;
  \<^verbatim>\<open>__builtin_popcount\<close> and \<^verbatim>\<open>__builtin_popcountl\<close>: the number of 1-bits.\<close>

definition builtin_ffs :: "'a::len word \<Rightarrow> nat" where
  "builtin_ffs w = (case find (bit w) [0..<LENGTH('a)] of None \<Rightarrow> 0 | Some n \<Rightarrow> Suc n)"

definition builtin_popcount :: "'a::len word \<Rightarrow> nat" where
  "builtin_popcount w = length (filter (bit w) [0..<LENGTH('a)])"

lemma builtin_ffs_eq_0 [simp]: "builtin_ffs w = 0 \<longleftrightarrow> w = 0"
proof -
  have "builtin_ffs w = 0 \<longleftrightarrow> (\<forall>n. \<not> bit w n)"
    by (auto simp: builtin_ffs_def find_None_iff find_Some_iff split: option.splits
        dest: bit_imp_le_length)
  then show ?thesis by (auto simp: bits_of_empty [symmetric] bits_of_def)
qed

lemma builtin_ffs_gt_0 [simp]: "0 < builtin_ffs w \<longleftrightarrow> w \<noteq> 0"
  by (metis builtin_ffs_eq_0 gr0I less_numeral_extra(3))

lemma builtin_ffs_SucD:
  "builtin_ffs w = Suc n \<Longrightarrow> bit w n \<and> (\<forall>m < n. \<not> bit w m)"
  by (auto simp: builtin_ffs_def find_Some_iff split: option.splits)

lemma builtin_ffs_pos:
  "w \<noteq> 0 \<Longrightarrow> \<exists>n. builtin_ffs w = Suc n \<and> bit w n \<and> (\<forall>m < n. \<not> bit w m)"
  using builtin_ffs_SucD [of w] builtin_ffs_eq_0 [of w] by (metis not0_implies_Suc)

lemma bit_builtin_ffs [simp]: "bit w (builtin_ffs w - Suc 0) \<longleftrightarrow> w \<noteq> 0"
  using builtin_ffs_pos [of w] by (cases "w = 0") auto

lemma add_builtin_ffs: "w \<noteq> 0 \<Longrightarrow> c + (builtin_ffs w - Suc 0) = c + builtin_ffs w - Suc 0"
  using builtin_ffs_gt_0 [of w] by linarith

lemma builtin_ffs_le: "builtin_ffs (w :: 'a::len word) \<le> LENGTH('a)"
  by (auto simp: builtin_ffs_def find_Some_iff split: option.splits)

lemma builtin_ffs_less: "builtin_ffs (w :: 'a::len word) - 1 < LENGTH('a)"
  using builtin_ffs_le [of w] len_gt_0 [where 'a = 'a] by linarith

lemma bit32_less: "bit (w :: uint32) n \<Longrightarrow> n < 32"
  using bit_imp_le_length [of w n] by simp

lemma bit64_less: "bit (w :: uint64) n \<Longrightarrow> n < 64"
  using bit_imp_le_length [of w n] by simp

lemma builtin_ffs64_less: "builtin_ffs (w :: uint64) - Suc 0 < 64"
  using builtin_ffs_less [of w] by simp

lemma builtin_ffs64_not_ge: "\<not> 64 \<le> builtin_ffs (w :: uint64) - Suc 0"
  using builtin_ffs_less [of w] by simp

lemma builtin_popcount_card: "builtin_popcount w = card (bits_of w)"
proof -
  have "set (filter (bit w) [0..<LENGTH('a)]) = bits_of (w :: 'a word)"
    by (auto simp: bits_of_def dest: bit_imp_le_length)
  then show ?thesis
    by (metis builtin_popcount_def distinct_card distinct_filter distinct_upt)
qed

section \<open>Arrays of 64-bit words as one set of bits\<close>

text \<open>A wide bitmap is an array of 64-bit words: bit \<open>n\<close> of the whole is bit \<open>n mod 64\<close> of
  word \<open>n div 64\<close>.\<close>

primrec words_bits :: "uint64 list \<Rightarrow> nat set" where
  "words_bits [] = {}"
| "words_bits (w # ws) = bits_of w \<union> (\<lambda>n. n + 64) ` words_bits ws"

lemma mem_words_bits_Nil [bitmem]: "n \<notin> words_bits []"
  by simp

lemma mem_words_bits_Cons [bitmem]:
  "n \<in> words_bits (w # ws) \<longleftrightarrow> (n < 64 \<and> bit w n) \<or> (64 \<le> n \<and> n - 64 \<in> words_bits ws)"
  using bits_of_less [of w] by (force simp: bits_of_def image_iff)

lemma words_bits_less: "words_bits ws \<subseteq> {..<64 * length ws}"
  by (induction ws) (auto dest: subsetD [OF bits_of_less])

lemma finite_words_bits [simp]: "finite (words_bits ws)"
  by (induction ws) auto

lemma words_bits_empty: "words_bits ws = {} \<longleftrightarrow> (\<forall>w \<in> set ws. w = 0)"
  by (induction ws) (auto simp: bits_of_empty)

lemma words_bits_inject:
  "length vs = length ws \<Longrightarrow> words_bits vs = words_bits ws \<longleftrightarrow> vs = ws"
proof (induction vs ws rule: list_induct2)
  case (Cons v vs w ws)
  have "v = w \<and> vs = ws" if eq: "words_bits (v # vs) = words_bits (w # ws)"
  proof -
    have "bit v n = bit w n" for n
      using eq mem_words_bits_Cons [of n v vs] mem_words_bits_Cons [of n w ws]
        bit_imp_le_length [of v n] bit_imp_le_length [of w n] by auto
    moreover have "n \<in> words_bits vs \<longleftrightarrow> n \<in> words_bits ws" for n
      using eq mem_words_bits_Cons [of "n + 64" v vs] mem_words_bits_Cons [of "n + 64" w ws]
      by simp
    ultimately show ?thesis using Cons.IH by (metis bit_eqI subset_antisym subset_iff)
  qed
  then show ?case by auto
qed simp

lemma card_words_bits: "card (words_bits ws) = sum_list (map builtin_popcount ws)"
proof (induction ws)
  case (Cons w ws)
  have "bits_of w \<inter> (\<lambda>n. n + 64) ` words_bits ws = {}"
    using bits_of_less [of w] by auto
  then show ?case
    using Cons.IH by (simp add: card_Un_disjoint card_image builtin_popcount_card)
qed simp

text \<open>One word of the array changes: the effect on the set as a whole.\<close>

lemma words_bits_put:
  "k < length ws \<Longrightarrow> i < 64 \<Longrightarrow> words_bits (ws[k := ws ! k OR 2 ^ i]) = insert (64 * k + i) (words_bits ws)"
proof (induction ws arbitrary: k)
  case (Cons w ws)
  have "bits_of (w OR 2 ^ i) = insert i (bits_of w)"
    using Cons.prems by (auto simp: bitmem word_bit_simps)
  then show ?case using Cons by (cases k) (auto simp: image_insert)
qed simp

lemma words_bits_unset:
  "k < length ws \<Longrightarrow> i < 64 \<Longrightarrow>
   words_bits (ws[k := ws ! k AND NOT (2 ^ i)]) = words_bits ws - {64 * k + i}"
proof (induction ws arbitrary: k)
  case (Cons w ws)
  have eq: "bits_of (w AND NOT (2 ^ i)) = bits_of w - {i}"
    by (auto simp: bitmem word_bit_simps dest: bit64_less)
  show ?case
  proof (cases k)
    case 0
    have "i \<notin> (\<lambda>n. n + 64) ` words_bits ws" using Cons.prems by auto
    then show ?thesis using 0 eq by auto
  next
    case (Suc j)
    have "64 * k + i \<notin> bits_of w" using Suc bits_of_less [of w] by auto
    then show ?thesis using Cons Suc by (auto simp: image_iff)
  qed
qed simp

lemma words_bits_get:
  "k < length ws \<Longrightarrow> i < 64 \<Longrightarrow> 64 * k + i \<in> words_bits ws \<longleftrightarrow> bit (ws ! k) i"
proof (induction ws arbitrary: k)
  case (Cons w ws)
  then show ?case
    by (cases k) (auto simp: mem_words_bits_Cons simp del: words_bits.simps)
qed simp

lemma words_bits_or:
  "length vs = length ws \<Longrightarrow> words_bits (map2 (OR) vs ws) = words_bits vs \<union> words_bits ws"
  by (induction vs ws rule: list_induct2) (auto simp: bits_of_def word_bit_simps)

lemma words_bits_and:
  "length vs = length ws \<Longrightarrow> words_bits (map2 (AND) vs ws) = words_bits vs \<inter> words_bits ws"
proof (induction vs ws rule: list_induct2)
  case (Cons v vs w ws)
  show ?case
  proof (rule set_eqI)
    fix n
    show "n \<in> words_bits (map2 (AND) (v # vs) (w # ws)) \<longleftrightarrow> n \<in> words_bits (v # vs) \<inter> words_bits (w # ws)"
      using Cons.IH
      by (cases "n < 64") (simp_all add: mem_words_bits_Cons word_bit_simps del: words_bits.simps)
  qed
qed simp

lemma words_bits_neg: "words_bits (map NOT ws) = {..<64 * length ws} - words_bits ws"
proof (induction ws)
  case (Cons w ws)
  show ?case
  proof (rule set_eqI)
    fix n
    have IH: "n - 64 \<in> words_bits (map NOT ws) \<longleftrightarrow> n - 64 < 64 * length ws \<and> n - 64 \<notin> words_bits ws"
      unfolding Cons.IH by simp
    show "n \<in> words_bits (map NOT (w # ws)) \<longleftrightarrow> n \<in> {..<64 * length (w # ws)} - words_bits (w # ws)"
    proof (cases "n < 64")
      case True
      then show ?thesis by (simp add: mem_words_bits_Cons word_bit_simps del: words_bits.simps)
    next
      case False
      then show ?thesis
        using IH by (simp add: mem_words_bits_Cons less_diff_conv2 add.commute del: words_bits.simps)
    qed
  qed
qed simp

lemma words_bits_low:
  "i < 64 \<Longrightarrow> words_bits (replicate k (- 1) @ (2 ^ i - 1) # replicate m 0) = {..<64 * k + i}"
proof (induction k)
  case 0
  have "words_bits (replicate m 0) = {}" by (simp add: words_bits_empty)
  then show ?case using 0 by (auto simp: bitmem)
next
  case (Suc k)
  have "bits_of (- 1 :: uint64) = {..<64}" by (auto simp: bits_of_def)
  moreover have "(\<lambda>n. n + 64) ` {..<64 * k + i} = {64..<64 * Suc k + i}"
    by (simp add: lessThan_atLeast0 image_add_atLeastLessThan' algebra_simps)
  ultimately show ?case using Suc by auto
qed

lemma words_bits_full: "words_bits (replicate k (- 1)) = {..<64 * k}"
proof (cases k)
  case (Suc m)
  then show ?thesis
    using words_bits_neg [of "replicate k 0"] words_bits_empty [of "replicate k 0"] by simp
qed simp

lemma replicate_small [simp]:
  "replicate 2 x = [x, x]" "replicate 3 x = [x, x, x]" "replicate 4 x = [x, x, x, x]"
  by (simp_all add: numeral_eq_Suc)

lemma nat_less_small:
  "(k::nat) < 2 \<longleftrightarrow> k = 0 \<or> k = 1" "k < 3 \<longleftrightarrow> k = 0 \<or> k = 1 \<or> k = 2"
  "k < 4 \<longleftrightarrow> k = 0 \<or> k = 1 \<or> k = 2 \<or> k = 3"
  by auto

text \<open>The same facts for a bit number \<open>n\<close> of the whole array that falls in word \<open>k\<close>.\<close>

lemma words_bits_put_at:
  "64 * k \<le> n \<Longrightarrow> n < 64 * k + 64 \<Longrightarrow> k < length ws \<Longrightarrow>
   words_bits (ws[k := ws ! k OR 2 ^ (n - 64 * k)]) = insert n (words_bits ws)"
  using words_bits_put [of k ws "n - 64 * k"] by simp

lemma words_bits_unset_at:
  "64 * k \<le> n \<Longrightarrow> n < 64 * k + 64 \<Longrightarrow> k < length ws \<Longrightarrow>
   words_bits (ws[k := ws ! k AND NOT (2 ^ (n - 64 * k))]) = words_bits ws - {n}"
  using words_bits_unset [of k ws "n - 64 * k"] by simp

lemma words_bits_get_at:
  "64 * k \<le> n \<Longrightarrow> n < 64 * k + 64 \<Longrightarrow> k < length ws \<Longrightarrow>
   n \<in> words_bits ws \<longleftrightarrow> bit (ws ! k) (n - 64 * k)"
  using words_bits_get [of k ws "n - 64 * k"] by simp

lemma words_bits_low_at:
  "64 * k \<le> n \<Longrightarrow> n < 64 * k + 64 \<Longrightarrow>
   words_bits (replicate k (- 1) @ (2 ^ (n - 64 * k) - 1) # replicate m 0) = {..<n}"
  using words_bits_low [of "n - 64 * k" k m] by simp

lemma words_bits_unset_ffs:
  "k < length ws \<Longrightarrow> ws ! k \<noteq> 0 \<Longrightarrow>
   words_bits (ws[k := ws ! k AND NOT (2 ^ (builtin_ffs (ws ! k) - 1))]) =
   words_bits ws - {64 * k + builtin_ffs (ws ! k) - 1}"
  using words_bits_unset [of k ws "builtin_ffs (ws ! k) - 1"] builtin_ffs64_less [of "ws ! k"]
  by (simp add: add_builtin_ffs)

section \<open>The first element of a set of bits\<close>

text \<open>What a \<^verbatim>\<open>ffs\<close>-like function promises: \<open>is_ffs A r\<close> holds when \<open>r\<close> is 0 and the set is empty, or
  \<open>r\<close> is one more than its least element.\<close>

definition is_ffs :: "nat set \<Rightarrow> nat \<Rightarrow> bool" where
  "is_ffs A r \<longleftrightarrow> (if A = {} then r = 0 else r = Suc (Min A))"

lemma is_ffsI_Suc: "finite A \<Longrightarrow> n \<in> A \<Longrightarrow> (\<And>m. m < n \<Longrightarrow> m \<notin> A) \<Longrightarrow> is_ffs A (Suc n)"
  unfolding is_ffs_def
  by (metis Min_eqI empty_iff linorder_not_less)

lemma is_ffs_builtin: "is_ffs (bits_of w) (builtin_ffs w)"
proof (cases "w = 0")
  case True
  then show ?thesis by (simp add: is_ffs_def bits_of_def)
next
  case False
  then show ?thesis
    using builtin_ffs_pos [of w] by (auto intro!: is_ffsI_Suc simp: mem_bits_of)
qed

lemma is_ffs_words_Cons:
  "w \<noteq> 0 \<Longrightarrow> is_ffs (words_bits (w # ws)) (builtin_ffs w)"
proof -
  assume "w \<noteq> 0"
  then obtain n where n: "builtin_ffs w = Suc n" "bit w n" "\<forall>m<n. \<not> bit w m"
    using builtin_ffs_pos by blast
  have "n < 64" using n(2) bit_imp_le_length by fastforce
  then show ?thesis using n by (auto intro!: is_ffsI_Suc simp: mem_words_bits_Cons
        simp del: words_bits.simps)
qed

lemma is_ffs_words_shift:
  "is_ffs (words_bits ws) r \<Longrightarrow> is_ffs (words_bits (0 # ws)) (if r = 0 then 0 else 64 + r)"
proof -
  assume r: "is_ffs (words_bits ws) r"
  have eq: "words_bits (0 # ws) = (\<lambda>n. n + 64) ` words_bits ws"
    by (simp add: bits_of_def)
  show ?thesis
  proof (cases "words_bits ws = {}")
    case True then show ?thesis using r eq by (simp add: is_ffs_def)
  next
    case False
    have "Min ((\<lambda>n. n + 64) ` words_bits ws) = Min (words_bits ws) + 64"
      using False by (intro Min_eqI) auto
    then show ?thesis using r eq False by (simp add: is_ffs_def)
  qed
qed

lemma is_ffs_0: "is_ffs A 0 \<longleftrightarrow> A = {}"
  by (auto simp: is_ffs_def)

lemma is_ffs_bits0: "is_ffs (bits_of 0) 0"
  by (simp add: is_ffs_0 bits_of_def)

lemma is_ffs_words0 [simp]: "\<forall>w \<in> set ws. w = 0 \<Longrightarrow> is_ffs (words_bits ws) 0"
  by (simp add: is_ffs_0 words_bits_empty)

lemma is_ffs_word1: "w \<noteq> 0 \<Longrightarrow> is_ffs (words_bits (0 # w # ws)) (64 + builtin_ffs w)"
  using is_ffs_words_shift [OF is_ffs_words_Cons [of w ws]] by simp

lemma is_ffs_word2: "w \<noteq> 0 \<Longrightarrow> is_ffs (words_bits (0 # 0 # w # ws)) (128 + builtin_ffs w)"
  using is_ffs_words_shift [OF is_ffs_word1 [of w ws]] by (simp add: add.assoc [symmetric])

lemma is_ffs_word3: "w \<noteq> 0 \<Longrightarrow> is_ffs (words_bits (0 # 0 # 0 # w # ws)) (192 + builtin_ffs w)"
  using is_ffs_words_shift [OF is_ffs_word2 [of w ws]] by (simp add: add.assoc [symmetric])

lemmas is_ffs_words = is_ffs_words_Cons is_ffs_word1 is_ffs_word2 is_ffs_word3

lemma is_ffs_unique: "is_ffs A r \<Longrightarrow> is_ffs A s \<Longrightarrow> r = s"
  by (auto simp: is_ffs_def split: if_splits)

lemma is_ffs_mem: "finite A \<Longrightarrow> is_ffs A (Suc n) \<Longrightarrow> n \<in> A"
  by (auto simp: is_ffs_def split: if_splits)

end
