(* ===== verification/Bitmap_Spec.thy ===== *)
theory Bitmap_Spec
  imports Kaapi_Prelude
begin

text \<open>
  The contract of the processor bitmaps of \<^verbatim>\<open>src/machine/mt/kaapi_mt_bitmap.h\<close>.  The header holds one
  family of functions per width (32, 64, 128, 192 and 256 bits), selected by
  \<^verbatim>\<open>KAAPI_MAX_PROCESSOR_SUFFIX\<close>, and the runtime calls them by their common name.  The locales below
  state what the callers rely on, over the set of bit numbers a bitmap stands for: \<open>bitmap_value\<close>
  for the plain values (\<^verbatim>\<open>kaapi_bitmap_value_t\<close>), \<open>bitmap_value_unset\<close> with the operation that
  clears one bit, and \<open>bitmap_atomic\<close> for the bitmaps shared between threads
  (\<^verbatim>\<open>kaapi_bitmap_t\<close>), whose operations are single atomic accesses to a word.  The theories
  \<open>Bitmap_Word\<close> and \<open>Bitmap_Wide\<close> interpret them on the functions of each width.
\<close>

section \<open>Plain bitmap values\<close>

locale bitmap_value =
  fixes width :: nat
    and bits :: "'v \<Rightarrow> nat set"
    and clear :: "'v \<Rightarrow> 'v"
    and full :: "'v \<Rightarrow> 'v"
    and is_zero :: "'v \<Rightarrow> bool"
    and count :: "'v \<Rightarrow> nat"
    and put :: "'v \<Rightarrow> nat \<Rightarrow> 'v"
    and get :: "'v \<Rightarrow> nat \<Rightarrow> bool"
    and copy :: "'v \<Rightarrow> 'v \<Rightarrow> 'v"
    and neg :: "'v \<Rightarrow> 'v \<Rightarrow> 'v"
    and bor :: "'v \<Rightarrow> 'v \<Rightarrow> 'v"
    and band :: "'v \<Rightarrow> 'v \<Rightarrow> 'v"
    and first_zero :: "'v \<Rightarrow> nat \<times> 'v"
    and first1 :: "'v \<Rightarrow> nat"
    and low :: "'v \<Rightarrow> nat \<Rightarrow> 'v"
  assumes bits_width: "bits v \<subseteq> {..<width}"
    and bits_clear: "bits (clear v) = {}"
    and bits_full: "bits (full v) = {..<width}"
    and is_zero_iff: "is_zero v \<longleftrightarrow> bits v = {}"
    and count_card: "count v = card (bits v)"
    and bits_put: "i < width \<Longrightarrow> bits (put v i) = insert i (bits v)"
    and get_iff: "i < width \<Longrightarrow> get v i \<longleftrightarrow> i \<in> bits v"
    and bits_copy: "bits (copy u v) = bits v"
    and bits_neg: "bits (neg u v) = {..<width} - bits v"
    and bits_bor: "bits (bor u v) = bits u \<union> bits v"
    and bits_band: "bits (band u v) = bits u \<inter> bits v"
    and first_zero_ffs: "is_ffs (bits v) (fst (first_zero v))"
    and first_zero_bits: "bits (snd (first_zero v)) = bits v - {fst (first_zero v) - 1}"
    and first1_ffs: "is_ffs (bits v) (first1 v)"
    and bits_low: "i \<le> width \<Longrightarrow> bits (low v i) = {..<i}"
begin

lemma finite_bits: "finite (bits v)"
  using bits_width finite_subset by blast

lemma count_width: "count v \<le> width"
  using card_mono [OF finite_lessThan bits_width [of v]] by (simp add: count_card)

lemma first_zero_Suc:
  assumes "first_zero v = (Suc n, v')"
  shows "n \<in> bits v" and "n = Min (bits v)" and "bits v' = bits v - {n}"
  using first_zero_ffs [of v] first_zero_bits [of v] assms is_ffs_mem [OF finite_bits]
  by (auto simp: is_ffs_def split: if_splits)

lemma first_zero_0: "first_zero v = (0, v') \<Longrightarrow> bits v = {} \<and> bits v' = {}"
  using first_zero_ffs [of v] first_zero_bits [of v] by (auto simp: is_ffs_0)

lemma first_zero_count: "fst (first_zero v) = Suc n \<Longrightarrow> count v = Suc (count (snd (first_zero v)))"
  using first_zero_Suc [of v n "snd (first_zero v)"] finite_bits [of v]
  by (metis card_Suc_Diff1 count_card prod.collapse)

lemmas value_simps = bits_clear bits_full is_zero_iff count_card bits_put get_iff bits_copy
  bits_neg bits_bor bits_band bits_low

end

locale bitmap_value_unset = bitmap_value +
  fixes unset :: "'v \<Rightarrow> nat \<Rightarrow> 'v"
  assumes bits_unset: "i < width \<Longrightarrow> bits (unset v i) = bits v - {i}"
begin

lemma unset_put: "i < width \<Longrightarrow> bits (unset (put v i) i) = bits v - {i}"
  by (simp add: bits_unset bits_put)

lemma get_unset: "i < width \<Longrightarrow> j < width \<Longrightarrow> get (unset v i) j \<longleftrightarrow> j \<noteq> i \<and> get v j"
  by (auto simp: bits_unset get_iff)

end

section \<open>Bitmaps shared between threads\<close>

locale bitmap_atomic =
  fixes width :: nat
    and abits :: "'a \<Rightarrow> nat set"
    and vbits :: "'v \<Rightarrow> nat set"
    and aclear :: "'a \<Rightarrow> 'a"
    and aempty :: "'a \<Rightarrow> bool"
    and ainit :: "'a \<Rightarrow> 'v \<Rightarrow> int \<times> 'a"
    and swap0 :: "'a \<Rightarrow> 'v \<Rightarrow> 'a \<times> 'v"
    and or0 :: "'a \<Rightarrow> 'v \<Rightarrow> 'a \<times> 'v"
    and fand :: "'v \<Rightarrow> 'a \<Rightarrow> 'v \<Rightarrow> 'v \<times> 'a"
    and aput :: "'a \<Rightarrow> nat \<Rightarrow> int \<times> 'a"
    and aget :: "'a \<Rightarrow> nat \<Rightarrow> bool"
    and aunset :: "'a \<Rightarrow> nat \<Rightarrow> int \<times> 'a"
    and afirst1 :: "'a \<Rightarrow> nat"
    and afirst_zero :: "'a \<Rightarrow> nat \<times> 'a"
  assumes abits_width: "abits b \<subseteq> {..<width}"
    and abits_clear: "abits (aclear b) = {}"
    and aempty_iff: "aempty b \<longleftrightarrow> abits b = {}"
    and abits_init: "abits (snd (ainit b v)) = vbits v"
    and swap0_bits: "abits (fst (swap0 b v)) = {} \<and> vbits (snd (swap0 b v)) = abits b"
    and or0_bits: "abits (fst (or0 b v)) = {} \<and> vbits (snd (or0 b v)) = vbits v \<union> abits b"
    and fand_bits: "vbits (fst (fand u b v)) = abits b \<and> abits (snd (fand u b v)) = abits b \<inter> vbits v"
    and abits_put: "i < width \<Longrightarrow> abits (snd (aput b i)) = insert i (abits b)"
    and aget_iff: "i < width \<Longrightarrow> aget b i \<longleftrightarrow> i \<in> abits b"
    and abits_unset: "i < width \<Longrightarrow> abits (snd (aunset b i)) = abits b - {i}"
    and aunset_ret: "i < width \<Longrightarrow> fst (aunset b i) = (if i \<in> abits b then 0 else - 1)"
    and afirst1_ffs: "is_ffs (abits b) (afirst1 b)"
    and afirst_zero_ffs: "is_ffs (abits b) (fst (afirst_zero b))"
    and afirst_zero_bits: "abits (snd (afirst_zero b)) = abits b - {fst (afirst_zero b) - 1}"
begin

lemma finite_abits: "finite (abits b)"
  using abits_width finite_subset by blast

text \<open>Of two threads that unset the same bit, with no thread setting it in between, only the first
  succeeds.\<close>

lemma unset_once:
  "i < width \<Longrightarrow> fst (aunset (snd (aunset b i)) i) = - 1"
  by (simp add: aunset_ret abits_unset)

lemma unset_other:
  "i < width \<Longrightarrow> j < width \<Longrightarrow> i \<noteq> j \<Longrightarrow> fst (aunset (snd (aunset b i)) j) = fst (aunset b j)"
  by (simp add: aunset_ret abits_unset)

text \<open>A swap with zero moves every pending bit to the captured value: none is lost and none stays.\<close>

lemma swap0_partition:
  "vbits (snd (swap0 b v)) \<union> abits (fst (swap0 b v)) = abits b"
  "vbits (snd (swap0 b v)) \<inter> abits (fst (swap0 b v)) = {}"
  using swap0_bits by auto

end

section \<open>Enumerating a bitmap\<close>

text \<open>The loop \<^verbatim>\<open>while ((i = kaapi_bitmap_value_first1_and_zero(&b)) != 0)\<close> of
  \<^verbatim>\<open>kaapi_memory_taskdescr.c\<close> and \<^verbatim>\<open>kaapic_work.c\<close>: the list of the values \<open>i - 1\<close> its body sees,
  with a fuel that bounds the number of turns.\<close>

fun bitmap_loop :: "('v \<Rightarrow> nat \<times> 'v) \<Rightarrow> nat \<Rightarrow> 'v \<Rightarrow> nat list option" where
  "bitmap_loop f 0 v = None"
| "bitmap_loop f (Suc fuel) v =
     (case f v of (r, v') \<Rightarrow>
        if r = 0 then Some [] else map_option ((#) (r - 1)) (bitmap_loop f fuel v'))"

context bitmap_value begin

text \<open>One turn of the loop per bit, in increasing order, and then the loop ends.\<close>

lemma bitmap_loop_sorted:
  "card (bits v) < fuel \<Longrightarrow> bitmap_loop first_zero fuel v = Some (sorted_list_of_set (bits v))"
proof (induction fuel arbitrary: v)
  case (Suc fuel)
  obtain r v' where f: "first_zero v = (r, v')" by fastforce
  show ?case
  proof (cases r)
    case 0
    then show ?thesis using first_zero_0 [of v v'] f by simp
  next
    case (Suc n)
    have n: "n \<in> bits v" "n = Min (bits v)" "bits v' = bits v - {n}"
      using first_zero_Suc f Suc by auto
    have "card (bits v') < fuel"
      using Suc.prems n(1,3) finite_bits [of v] by (metis card_Suc_Diff1 not_less_eq)
    then have "bitmap_loop first_zero fuel v' = Some (sorted_list_of_set (bits v - {n}))"
      using Suc.IH n(3) by simp
    moreover have "sorted_list_of_set (bits v) = n # sorted_list_of_set (bits v - {n})"
      using n(1,2) finite_bits [of v] sorted_list_of_set_nonempty by blast
    ultimately show ?thesis using f Suc by simp
  qed
qed simp

lemma bitmap_loop_width:
  "bitmap_loop first_zero (Suc width) v = Some (sorted_list_of_set (bits v))"
  by (rule bitmap_loop_sorted) (use count_width [of v] in \<open>simp add: count_card\<close>)

end

end
