(* ===== verification/Bitmap_Word.thy ===== *)
theory Bitmap_Word
  imports Bitmap_Spec
begin

text \<open>
  The one-word bitmaps of \<^verbatim>\<open>src/machine/mt/kaapi_mt_bitmap.h\<close>, for 32 and for 64 processors: every function of
  the header as a definition over a record of the struct's word, and the proofs that they meet the
  contract of \<open>Bitmap_Spec\<close>.  A C function that writes through its pointer returns the new
  structure; one that also returns a C value returns the pair.  \<^verbatim>\<open>kaapi_assert_debug\<close> compiles to
  nothing outside debug builds, so the range of an index is a hypothesis of the lemmas, not a
  branch of the definitions.
\<close>

section \<open>The 32-bit bitmap\<close>

record kaapi_bitmap32 =
  proc32 :: uint32

record kaapi_bitmap_value32 =
  vproc32 :: uint32

subsection \<open>Plain values\<close>

definition kaapi_bitmap_value_clear_32 :: "kaapi_bitmap_value32 \<Rightarrow> kaapi_bitmap_value32" where
  "kaapi_bitmap_value_clear_32 b = b\<lparr>vproc32 := 0\<rparr>"

definition kaapi_bitmap_value_full_32 :: "kaapi_bitmap_value32 \<Rightarrow> kaapi_bitmap_value32" where
  "kaapi_bitmap_value_full_32 b = b\<lparr>vproc32 := NOT 0\<rparr>"

definition kaapi_bitmap_value_empty_32 :: "kaapi_bitmap_value32 \<Rightarrow> bool" where
  "kaapi_bitmap_value_empty_32 b = (vproc32 b = 0)"

definition kaapi_bitmap_value_count_32 :: "kaapi_bitmap_value32 \<Rightarrow> nat" where
  "kaapi_bitmap_value_count_32 b = builtin_popcount (vproc32 b)"

definition kaapi_bitmap_value_set_32 :: "kaapi_bitmap_value32 \<Rightarrow> nat \<Rightarrow> kaapi_bitmap_value32" where
  "kaapi_bitmap_value_set_32 b i = b\<lparr>vproc32 := vproc32 b OR push_bit i 1\<rparr>"

definition kaapi_bitmap_value_get_32 :: "kaapi_bitmap_value32 \<Rightarrow> nat \<Rightarrow> bool" where
  "kaapi_bitmap_value_get_32 b i = ((vproc32 b AND push_bit i 1) \<noteq> 0)"

definition kaapi_bitmap_value_unset_32 :: "kaapi_bitmap_value32 \<Rightarrow> nat \<Rightarrow> kaapi_bitmap_value32" where
  "kaapi_bitmap_value_unset_32 b i = b\<lparr>vproc32 := vproc32 b AND NOT (push_bit i 1)\<rparr>"

definition kaapi_bitmap_value_copy_32 :: "kaapi_bitmap_value32 \<Rightarrow> kaapi_bitmap_value32 \<Rightarrow> kaapi_bitmap_value32" where
  "kaapi_bitmap_value_copy_32 retval b = retval\<lparr>vproc32 := vproc32 b\<rparr>"

definition kaapi_bitmap_value_neg_32 :: "kaapi_bitmap_value32 \<Rightarrow> kaapi_bitmap_value32 \<Rightarrow> kaapi_bitmap_value32" where
  "kaapi_bitmap_value_neg_32 fu bar = fu\<lparr>vproc32 := NOT (vproc32 bar)\<rparr>"

definition kaapi_bitmap_value_or_32 :: "kaapi_bitmap_value32 \<Rightarrow> kaapi_bitmap_value32 \<Rightarrow> kaapi_bitmap_value32" where
  "kaapi_bitmap_value_or_32 fu bar = fu\<lparr>vproc32 := vproc32 fu OR vproc32 bar\<rparr>"

definition kaapi_bitmap_value_and_32 :: "kaapi_bitmap_value32 \<Rightarrow> kaapi_bitmap_value32 \<Rightarrow> kaapi_bitmap_value32" where
  "kaapi_bitmap_value_and_32 fu bar = fu\<lparr>vproc32 := vproc32 fu AND vproc32 bar\<rparr>"

definition kaapi_bitmap_value_first1_and_zero_32 :: "kaapi_bitmap_value32 \<Rightarrow> nat \<times> kaapi_bitmap_value32" where
  "kaapi_bitmap_value_first1_and_zero_32 b =
     (let fb = builtin_ffs (vproc32 b)
      in if fb = 0 then (0, b)
         else (fb, b\<lparr>vproc32 := vproc32 b AND NOT (push_bit (fb - 1) 1)\<rparr>))"

definition kaapi_bitmap_value_first1_32 :: "kaapi_bitmap_value32 \<Rightarrow> nat" where
  "kaapi_bitmap_value_first1_32 b = builtin_ffs (vproc32 b)"

definition kaapi_bitmap_value_set_low_bits_32 :: "kaapi_bitmap_value32 \<Rightarrow> nat \<Rightarrow> kaapi_bitmap_value32" where
  "kaapi_bitmap_value_set_low_bits_32 b i =
     (if i = 32 then b\<lparr>vproc32 := NOT 0\<rparr>
      else b\<lparr>vproc32 := push_bit i 1 - 1\<rparr>)"

subsection \<open>Shared bitmaps\<close>

text \<open>A fetch-and-and returns the old word beside the new structure.\<close>

definition kaapi_bitmap_clear_32 :: "kaapi_bitmap32 \<Rightarrow> kaapi_bitmap32" where
  "kaapi_bitmap_clear_32 b = b\<lparr>proc32 := 0\<rparr>"

definition kaapi_bitmap_empty_32 :: "kaapi_bitmap32 \<Rightarrow> bool" where
  "kaapi_bitmap_empty_32 b = (proc32 b = 0)"

definition kaapi_bitmap_init_32 :: "kaapi_bitmap32 \<Rightarrow> kaapi_bitmap_value32 \<Rightarrow> int \<times> kaapi_bitmap32" where
  "kaapi_bitmap_init_32 b v = (0, b\<lparr>proc32 := vproc32 v\<rparr>)"

definition kaapi_bitmap_swap0_32 :: "kaapi_bitmap32 \<Rightarrow> kaapi_bitmap_value32 \<Rightarrow> kaapi_bitmap32 \<times> kaapi_bitmap_value32" where
  "kaapi_bitmap_swap0_32 b v =
     (let x = proc32 b in (b\<lparr>proc32 := proc32 b AND 0\<rparr>, v\<lparr>vproc32 := x\<rparr>))"

definition kaapi_bitmap_or0_32 :: "kaapi_bitmap32 \<Rightarrow> kaapi_bitmap_value32 \<Rightarrow> kaapi_bitmap32 \<times> kaapi_bitmap_value32" where
  "kaapi_bitmap_or0_32 b v =
     (let x = proc32 b in (b\<lparr>proc32 := proc32 b AND 0\<rparr>, v\<lparr>vproc32 := vproc32 v OR x\<rparr>))"

definition kaapi_bitmap_and_32 :: "kaapi_bitmap_value32 \<Rightarrow> kaapi_bitmap32 \<Rightarrow> kaapi_bitmap_value32 \<Rightarrow> kaapi_bitmap_value32 \<times> kaapi_bitmap32" where
  "kaapi_bitmap_and_32 fu b v =
     (let x = proc32 b in (fu\<lparr>vproc32 := x\<rparr>, b\<lparr>proc32 := proc32 b AND vproc32 v\<rparr>))"

definition kaapi_bitmap_set_32 :: "kaapi_bitmap32 \<Rightarrow> nat \<Rightarrow> int \<times> kaapi_bitmap32" where
  "kaapi_bitmap_set_32 b i = (0, b\<lparr>proc32 := proc32 b OR push_bit i 1\<rparr>)"

definition kaapi_bitmap_get_32 :: "kaapi_bitmap32 \<Rightarrow> nat \<Rightarrow> bool" where
  "kaapi_bitmap_get_32 b i = kaapi_bitmap_value_get_32 \<lparr>vproc32 = proc32 b\<rparr> i"

definition kaapi_bitmap_unset_32 :: "kaapi_bitmap32 \<Rightarrow> nat \<Rightarrow> int \<times> kaapi_bitmap32" where
  "kaapi_bitmap_unset_32 b i =
     (let x = proc32 b; b' = b\<lparr>proc32 := proc32 b AND NOT (push_bit i 1)\<rparr>
      in if (x AND push_bit i 1) \<noteq> 0 then (0, b') else (- 1, b'))"

definition kaapi_bitmap_count_32 :: "kaapi_bitmap32 \<Rightarrow> nat" where
  "kaapi_bitmap_count_32 b = builtin_popcount (proc32 b)"

text \<open>The word is read, then unset: \<open>env\<close> is what the other threads do to the bitmap in between.\<close>

definition kaapi_bitmap_first1_and_zero_32 :: "(kaapi_bitmap32 \<Rightarrow> kaapi_bitmap32) \<Rightarrow> kaapi_bitmap32 \<Rightarrow> nat \<times> kaapi_bitmap32" where
  "kaapi_bitmap_first1_and_zero_32 env b =
     (let fb = builtin_ffs (proc32 b)
      in if fb = 0 then (0, b)
         else (case kaapi_bitmap_unset_32 (env b) (fb - 1) of
                 (r, b') \<Rightarrow> if r = 0 then (fb, b') else (0, b')))"

definition kaapi_bitmap_first1_32 :: "kaapi_bitmap32 \<Rightarrow> nat" where
  "kaapi_bitmap_first1_32 b = builtin_ffs (proc32 b)"

definition kaapi_bitmap_set_low_bits_32 :: "kaapi_bitmap32 \<Rightarrow> nat \<Rightarrow> kaapi_bitmap32" where
  "kaapi_bitmap_set_low_bits_32 b i = b\<lparr>proc32 := push_bit i 1 - 1\<rparr>"

subsection \<open>The 32-bit functions meet the contract\<close>

definition bits32 :: "kaapi_bitmap_value32 \<Rightarrow> nat set" where
  "bits32 v = bits_of (vproc32 v)"

definition abits32 :: "kaapi_bitmap32 \<Rightarrow> nat set" where
  "abits32 b = bits_of (proc32 b)"

lemmas value32_defs = bits32_def
  kaapi_bitmap_value_clear_32_def kaapi_bitmap_value_full_32_def
  kaapi_bitmap_value_empty_32_def kaapi_bitmap_value_count_32_def kaapi_bitmap_value_set_32_def
  kaapi_bitmap_value_get_32_def kaapi_bitmap_value_copy_32_def kaapi_bitmap_value_neg_32_def
  kaapi_bitmap_value_or_32_def kaapi_bitmap_value_and_32_def
  kaapi_bitmap_value_first1_and_zero_32_def kaapi_bitmap_value_first1_32_def
  kaapi_bitmap_value_set_low_bits_32_def kaapi_bitmap_value_unset_32_def

lemmas atomic32_defs = bits32_def abits32_def
  kaapi_bitmap_clear_32_def kaapi_bitmap_empty_32_def kaapi_bitmap_init_32_def
  kaapi_bitmap_swap0_32_def kaapi_bitmap_or0_32_def kaapi_bitmap_and_32_def
  kaapi_bitmap_set_32_def kaapi_bitmap_get_32_def kaapi_bitmap_unset_32_def
  kaapi_bitmap_first1_32_def kaapi_bitmap_first1_and_zero_32_def kaapi_bitmap_value_get_32_def

interpretation bv32: bitmap_value_unset 32 bits32
  kaapi_bitmap_value_clear_32 kaapi_bitmap_value_full_32 kaapi_bitmap_value_empty_32
  kaapi_bitmap_value_count_32 kaapi_bitmap_value_set_32 kaapi_bitmap_value_get_32
  kaapi_bitmap_value_copy_32 kaapi_bitmap_value_neg_32 kaapi_bitmap_value_or_32
  kaapi_bitmap_value_and_32 kaapi_bitmap_value_first1_and_zero_32 kaapi_bitmap_value_first1_32
  kaapi_bitmap_value_set_low_bits_32 kaapi_bitmap_value_unset_32
  by unfold_locales
    (auto simp: value32_defs bitmem word_bit_simps is_ffs_builtin is_ffs_bits0
        builtin_popcount_card bits_of_empty Let_def split: if_splits dest: bit32_less)

interpretation ba32: bitmap_atomic 32 abits32 bits32
  kaapi_bitmap_clear_32 kaapi_bitmap_empty_32 kaapi_bitmap_init_32 kaapi_bitmap_swap0_32
  kaapi_bitmap_or0_32 kaapi_bitmap_and_32 kaapi_bitmap_set_32 kaapi_bitmap_get_32
  kaapi_bitmap_unset_32 kaapi_bitmap_first1_32
  "kaapi_bitmap_first1_and_zero_32 (\<lambda>b. b)"
  by unfold_locales
    (auto simp: atomic32_defs bitmem word_bit_simps is_ffs_builtin is_ffs_bits0
        builtin_popcount_card bits_of_empty Let_def split: if_splits dest: bit32_less)

section \<open>The 64-bit bitmap\<close>

record kaapi_bitmap64 =
  proc64 :: uint64

record kaapi_bitmap_value64 =
  vproc64 :: uint64

subsection \<open>Plain values\<close>

definition kaapi_bitmap_value_clear_64 :: "kaapi_bitmap_value64 \<Rightarrow> kaapi_bitmap_value64" where
  "kaapi_bitmap_value_clear_64 b = b\<lparr>vproc64 := 0\<rparr>"

definition kaapi_bitmap_value_full_64 :: "kaapi_bitmap_value64 \<Rightarrow> kaapi_bitmap_value64" where
  "kaapi_bitmap_value_full_64 b = b\<lparr>vproc64 := NOT 0\<rparr>"

definition kaapi_bitmap_value_empty_64 :: "kaapi_bitmap_value64 \<Rightarrow> bool" where
  "kaapi_bitmap_value_empty_64 b = (vproc64 b = 0)"

definition kaapi_bitmap_value_count_64 :: "kaapi_bitmap_value64 \<Rightarrow> nat" where
  "kaapi_bitmap_value_count_64 b = builtin_popcount (vproc64 b)"

definition kaapi_bitmap_value_set_64 :: "kaapi_bitmap_value64 \<Rightarrow> nat \<Rightarrow> kaapi_bitmap_value64" where
  "kaapi_bitmap_value_set_64 b i = b\<lparr>vproc64 := vproc64 b OR push_bit i 1\<rparr>"

definition kaapi_bitmap_value_get_64 :: "kaapi_bitmap_value64 \<Rightarrow> nat \<Rightarrow> bool" where
  "kaapi_bitmap_value_get_64 b i = ((vproc64 b AND push_bit i 1) \<noteq> 0)"

definition kaapi_bitmap_value_unset_64 :: "kaapi_bitmap_value64 \<Rightarrow> nat \<Rightarrow> kaapi_bitmap_value64" where
  "kaapi_bitmap_value_unset_64 b i = b\<lparr>vproc64 := vproc64 b AND NOT (push_bit i 1)\<rparr>"

definition kaapi_bitmap_value_copy_64 :: "kaapi_bitmap_value64 \<Rightarrow> kaapi_bitmap_value64 \<Rightarrow> kaapi_bitmap_value64" where
  "kaapi_bitmap_value_copy_64 retval b = retval\<lparr>vproc64 := vproc64 b\<rparr>"

definition kaapi_bitmap_value_neg_64 :: "kaapi_bitmap_value64 \<Rightarrow> kaapi_bitmap_value64 \<Rightarrow> kaapi_bitmap_value64" where
  "kaapi_bitmap_value_neg_64 fu bar = fu\<lparr>vproc64 := NOT (vproc64 bar)\<rparr>"

definition kaapi_bitmap_value_or_64 :: "kaapi_bitmap_value64 \<Rightarrow> kaapi_bitmap_value64 \<Rightarrow> kaapi_bitmap_value64" where
  "kaapi_bitmap_value_or_64 fu bar = fu\<lparr>vproc64 := vproc64 fu OR vproc64 bar\<rparr>"

definition kaapi_bitmap_value_and_64 :: "kaapi_bitmap_value64 \<Rightarrow> kaapi_bitmap_value64 \<Rightarrow> kaapi_bitmap_value64" where
  "kaapi_bitmap_value_and_64 fu bar = fu\<lparr>vproc64 := vproc64 fu AND vproc64 bar\<rparr>"

definition kaapi_bitmap_value_first1_and_zero_64 :: "kaapi_bitmap_value64 \<Rightarrow> nat \<times> kaapi_bitmap_value64" where
  "kaapi_bitmap_value_first1_and_zero_64 b =
     (let fb = builtin_ffs (vproc64 b)
      in if fb = 0 then (0, b)
         else (fb, b\<lparr>vproc64 := vproc64 b AND NOT (push_bit (fb - 1) 1)\<rparr>))"

definition kaapi_bitmap_value_first1_64 :: "kaapi_bitmap_value64 \<Rightarrow> nat" where
  "kaapi_bitmap_value_first1_64 b = builtin_ffs (vproc64 b)"

definition kaapi_bitmap_value_set_low_bits_64 :: "kaapi_bitmap_value64 \<Rightarrow> nat \<Rightarrow> kaapi_bitmap_value64" where
  "kaapi_bitmap_value_set_low_bits_64 b i =
     (if i = 64 then b\<lparr>vproc64 := NOT 0\<rparr>
      else b\<lparr>vproc64 := push_bit i 1 - 1\<rparr>)"

subsection \<open>Shared bitmaps\<close>

text \<open>A fetch-and-and returns the old word beside the new structure.\<close>

definition kaapi_bitmap_clear_64 :: "kaapi_bitmap64 \<Rightarrow> kaapi_bitmap64" where
  "kaapi_bitmap_clear_64 b = b\<lparr>proc64 := 0\<rparr>"

definition kaapi_bitmap_empty_64 :: "kaapi_bitmap64 \<Rightarrow> bool" where
  "kaapi_bitmap_empty_64 b = (proc64 b = 0)"

definition kaapi_bitmap_init_64 :: "kaapi_bitmap64 \<Rightarrow> kaapi_bitmap_value64 \<Rightarrow> int \<times> kaapi_bitmap64" where
  "kaapi_bitmap_init_64 b v = (0, b\<lparr>proc64 := vproc64 v\<rparr>)"

definition kaapi_bitmap_copy_64 :: "kaapi_bitmap_value64 \<Rightarrow> kaapi_bitmap64 \<Rightarrow> kaapi_bitmap_value64" where
  "kaapi_bitmap_copy_64 retval b = retval\<lparr>vproc64 := proc64 b\<rparr>"

definition kaapi_bitmap_swap0_64 :: "kaapi_bitmap64 \<Rightarrow> kaapi_bitmap_value64 \<Rightarrow> kaapi_bitmap64 \<times> kaapi_bitmap_value64" where
  "kaapi_bitmap_swap0_64 b v =
     (let x = proc64 b in (b\<lparr>proc64 := proc64 b AND 0\<rparr>, v\<lparr>vproc64 := x\<rparr>))"

definition kaapi_bitmap_or0_64 :: "kaapi_bitmap64 \<Rightarrow> kaapi_bitmap_value64 \<Rightarrow> kaapi_bitmap64 \<times> kaapi_bitmap_value64" where
  "kaapi_bitmap_or0_64 b v =
     (let x = proc64 b in (b\<lparr>proc64 := proc64 b AND 0\<rparr>, v\<lparr>vproc64 := vproc64 v OR x\<rparr>))"

definition kaapi_bitmap_and_64 :: "kaapi_bitmap_value64 \<Rightarrow> kaapi_bitmap64 \<Rightarrow> kaapi_bitmap_value64 \<Rightarrow> kaapi_bitmap_value64 \<times> kaapi_bitmap64" where
  "kaapi_bitmap_and_64 fu b v =
     (let x = proc64 b in (fu\<lparr>vproc64 := x\<rparr>, b\<lparr>proc64 := proc64 b AND vproc64 v\<rparr>))"

definition kaapi_bitmap_set_64 :: "kaapi_bitmap64 \<Rightarrow> nat \<Rightarrow> int \<times> kaapi_bitmap64" where
  "kaapi_bitmap_set_64 b i = (1, b\<lparr>proc64 := proc64 b OR push_bit i 1\<rparr>)"

definition kaapi_bitmap_fetch_and_set_64 :: "kaapi_bitmap64 \<Rightarrow> nat \<Rightarrow> bool \<times> kaapi_bitmap64" where
  "kaapi_bitmap_fetch_and_set_64 b i =
     (let x = proc64 b in ((x AND push_bit i 1) \<noteq> 0, b\<lparr>proc64 := proc64 b OR push_bit i 1\<rparr>))"

definition kaapi_bitmap_full_except_64 :: "kaapi_bitmap64 \<Rightarrow> nat \<Rightarrow> kaapi_bitmap64" where
  "kaapi_bitmap_full_except_64 b i = b\<lparr>proc64 := NOT (push_bit i 1)\<rparr>"

definition kaapi_bitmap_get_64 :: "kaapi_bitmap64 \<Rightarrow> nat \<Rightarrow> bool" where
  "kaapi_bitmap_get_64 b i = kaapi_bitmap_value_get_64 \<lparr>vproc64 = proc64 b\<rparr> i"

definition kaapi_bitmap_unset_64 :: "kaapi_bitmap64 \<Rightarrow> nat \<Rightarrow> int \<times> kaapi_bitmap64" where
  "kaapi_bitmap_unset_64 b i =
     (let x = proc64 b; b' = b\<lparr>proc64 := proc64 b AND NOT (push_bit i 1)\<rparr>
      in if (x AND push_bit i 1) \<noteq> 0 then (0, b') else (- 1, b'))"

definition kaapi_bitmap_count_64 :: "kaapi_bitmap64 \<Rightarrow> nat" where
  "kaapi_bitmap_count_64 b = builtin_popcount (proc64 b)"

text \<open>The word is read, then unset: \<open>env\<close> is what the other threads do to the bitmap in between.\<close>

definition kaapi_bitmap_first1_and_zero_64 :: "(kaapi_bitmap64 \<Rightarrow> kaapi_bitmap64) \<Rightarrow> kaapi_bitmap64 \<Rightarrow> nat \<times> kaapi_bitmap64" where
  "kaapi_bitmap_first1_and_zero_64 env b =
     (let fb = builtin_ffs (proc64 b)
      in if fb = 0 then (0, b)
         else (case kaapi_bitmap_unset_64 (env b) (fb - 1) of
                 (r, b') \<Rightarrow> if r = 0 then (fb, b') else (0, b')))"

definition kaapi_bitmap_first1_64 :: "kaapi_bitmap64 \<Rightarrow> nat" where
  "kaapi_bitmap_first1_64 b = builtin_ffs (proc64 b)"

definition kaapi_bitmap_set_low_bits_64 :: "kaapi_bitmap64 \<Rightarrow> nat \<Rightarrow> kaapi_bitmap64" where
  "kaapi_bitmap_set_low_bits_64 b i = b\<lparr>proc64 := push_bit i 1 - 1\<rparr>"

subsection \<open>The 64-bit functions meet the contract\<close>

definition bits64 :: "kaapi_bitmap_value64 \<Rightarrow> nat set" where
  "bits64 v = bits_of (vproc64 v)"

definition abits64 :: "kaapi_bitmap64 \<Rightarrow> nat set" where
  "abits64 b = bits_of (proc64 b)"

lemmas value64_defs = bits64_def
  kaapi_bitmap_value_clear_64_def kaapi_bitmap_value_full_64_def
  kaapi_bitmap_value_empty_64_def kaapi_bitmap_value_count_64_def kaapi_bitmap_value_set_64_def
  kaapi_bitmap_value_get_64_def kaapi_bitmap_value_copy_64_def kaapi_bitmap_value_neg_64_def
  kaapi_bitmap_value_or_64_def kaapi_bitmap_value_and_64_def
  kaapi_bitmap_value_first1_and_zero_64_def kaapi_bitmap_value_first1_64_def
  kaapi_bitmap_value_set_low_bits_64_def kaapi_bitmap_value_unset_64_def

lemmas atomic64_defs = bits64_def abits64_def
  kaapi_bitmap_clear_64_def kaapi_bitmap_empty_64_def kaapi_bitmap_init_64_def
  kaapi_bitmap_swap0_64_def kaapi_bitmap_or0_64_def kaapi_bitmap_and_64_def
  kaapi_bitmap_set_64_def kaapi_bitmap_get_64_def kaapi_bitmap_unset_64_def
  kaapi_bitmap_first1_64_def kaapi_bitmap_first1_and_zero_64_def kaapi_bitmap_value_get_64_def

interpretation bv64: bitmap_value_unset 64 bits64
  kaapi_bitmap_value_clear_64 kaapi_bitmap_value_full_64 kaapi_bitmap_value_empty_64
  kaapi_bitmap_value_count_64 kaapi_bitmap_value_set_64 kaapi_bitmap_value_get_64
  kaapi_bitmap_value_copy_64 kaapi_bitmap_value_neg_64 kaapi_bitmap_value_or_64
  kaapi_bitmap_value_and_64 kaapi_bitmap_value_first1_and_zero_64 kaapi_bitmap_value_first1_64
  kaapi_bitmap_value_set_low_bits_64 kaapi_bitmap_value_unset_64
  by unfold_locales
    (auto simp: value64_defs bitmem word_bit_simps is_ffs_builtin is_ffs_bits0
        builtin_popcount_card bits_of_empty Let_def split: if_splits dest: bit64_less)

interpretation ba64: bitmap_atomic 64 abits64 bits64
  kaapi_bitmap_clear_64 kaapi_bitmap_empty_64 kaapi_bitmap_init_64 kaapi_bitmap_swap0_64
  kaapi_bitmap_or0_64 kaapi_bitmap_and_64 kaapi_bitmap_set_64 kaapi_bitmap_get_64
  kaapi_bitmap_unset_64 kaapi_bitmap_first1_64
  "kaapi_bitmap_first1_and_zero_64 (\<lambda>b. b)"
  by unfold_locales
    (auto simp: atomic64_defs bitmem word_bit_simps is_ffs_builtin is_ffs_bits0
        builtin_popcount_card bits_of_empty Let_def split: if_splits dest: bit64_less)

end
