(* ===== verification/Bitmap128.thy ===== *)
theory Bitmap128
  imports Bitmap_Word
begin

text \<open>
  The bitmaps of two 64-bit words of \<^verbatim>\<open>src/machine/mt/kaapi_mt_bitmap.h\<close>, for 128 processors, and the proofs that
  they meet the contract of \<open>Bitmap_Spec\<close>.
\<close>

section \<open>The 128-bit bitmap\<close>

record kaapi_bitmap128 =
  proc128_0 :: uint64
  proc128_1 :: uint64

record kaapi_bitmap_value128 =
  vproc128_0 :: uint64
  vproc128_1 :: uint64

subsection \<open>Plain values\<close>

definition kaapi_bitmap_value_clear_128 :: "kaapi_bitmap_value128 \<Rightarrow> kaapi_bitmap_value128" where
  "kaapi_bitmap_value_clear_128 b = b\<lparr>vproc128_0 := 0, vproc128_1 := 0\<rparr>"

definition kaapi_bitmap_value_full_128 :: "kaapi_bitmap_value128 \<Rightarrow> kaapi_bitmap_value128" where
  "kaapi_bitmap_value_full_128 b = b\<lparr>vproc128_0 := NOT 0, vproc128_1 := NOT 0\<rparr>"

definition kaapi_bitmap_value_count_128 :: "kaapi_bitmap_value128 \<Rightarrow> nat" where
  "kaapi_bitmap_value_count_128 b =
     builtin_popcount (vproc128_0 b) + builtin_popcount (vproc128_1 b)"

definition kaapi_bitmap_value_empty_128 :: "kaapi_bitmap_value128 \<Rightarrow> bool" where
  "kaapi_bitmap_value_empty_128 b \<longleftrightarrow> vproc128_0 b = 0 \<and> vproc128_1 b = 0"

definition kaapi_bitmap_value_set_128 :: "kaapi_bitmap_value128 \<Rightarrow> nat \<Rightarrow> kaapi_bitmap_value128" where
  "kaapi_bitmap_value_set_128 b i =
     (if i < 64 then b\<lparr>vproc128_0 := vproc128_0 b OR push_bit i 1\<rparr>
      else b\<lparr>vproc128_1 := vproc128_1 b OR push_bit (i - 64) 1\<rparr>)"

definition kaapi_bitmap_value_get_128 :: "kaapi_bitmap_value128 \<Rightarrow> nat \<Rightarrow> bool" where
  "kaapi_bitmap_value_get_128 b i =
     (if i < 64 then (vproc128_0 b AND push_bit i 1) \<noteq> 0
      else (vproc128_1 b AND push_bit (i - 64) 1) \<noteq> 0)"

definition kaapi_bitmap_value_unset_128 :: "kaapi_bitmap_value128 \<Rightarrow> nat \<Rightarrow> kaapi_bitmap_value128" where
  "kaapi_bitmap_value_unset_128 b i =
     (if i < 64 then b\<lparr>vproc128_0 := vproc128_0 b AND NOT (push_bit i 1)\<rparr>
      else b\<lparr>vproc128_1 := vproc128_1 b AND NOT (push_bit (i - 64) 1)\<rparr>)"

definition kaapi_bitmap_value_copy_128 :: "kaapi_bitmap_value128 \<Rightarrow> kaapi_bitmap_value128 \<Rightarrow> kaapi_bitmap_value128" where
  "kaapi_bitmap_value_copy_128 retval b =
     retval\<lparr>vproc128_0 := vproc128_0 b, vproc128_1 := vproc128_1 b\<rparr>"

definition kaapi_bitmap_value_neg_128 :: "kaapi_bitmap_value128 \<Rightarrow> kaapi_bitmap_value128 \<Rightarrow> kaapi_bitmap_value128" where
  "kaapi_bitmap_value_neg_128 fu bar =
     fu\<lparr>vproc128_0 := NOT (vproc128_0 bar), vproc128_1 := NOT (vproc128_1 bar)\<rparr>"

definition kaapi_bitmap_value_or_128 :: "kaapi_bitmap_value128 \<Rightarrow> kaapi_bitmap_value128 \<Rightarrow> kaapi_bitmap_value128" where
  "kaapi_bitmap_value_or_128 fu bar =
     fu\<lparr>vproc128_0 := vproc128_0 fu OR vproc128_0 bar, vproc128_1 := vproc128_1 fu OR vproc128_1 bar\<rparr>"

definition kaapi_bitmap_value_and_128 :: "kaapi_bitmap_value128 \<Rightarrow> kaapi_bitmap_value128 \<Rightarrow> kaapi_bitmap_value128" where
  "kaapi_bitmap_value_and_128 fu bar =
     fu\<lparr>vproc128_0 := vproc128_0 fu AND vproc128_0 bar, vproc128_1 := vproc128_1 fu AND vproc128_1 bar\<rparr>"

definition kaapi_bitmap_value_first1_and_zero_128 :: "kaapi_bitmap_value128 \<Rightarrow> nat \<times> kaapi_bitmap_value128" where
  "kaapi_bitmap_value_first1_and_zero_128 b =
     (let fb = builtin_ffs (vproc128_0 b)
      in if fb \<noteq> 0 then (fb, b\<lparr>vproc128_0 := vproc128_0 b AND NOT (push_bit (fb - 1) 1)\<rparr>)
      else let fb = builtin_ffs (vproc128_1 b)
      in if fb \<noteq> 0 then (64 + fb, b\<lparr>vproc128_1 := vproc128_1 b AND NOT (push_bit (fb - 1) 1)\<rparr>)
      else (0, b))"

definition kaapi_bitmap_value_first1_128 :: "kaapi_bitmap_value128 \<Rightarrow> nat" where
  "kaapi_bitmap_value_first1_128 b =
     (if vproc128_0 b \<noteq> 0 then builtin_ffs (vproc128_0 b)
      else if vproc128_1 b \<noteq> 0 then 64 + builtin_ffs (vproc128_1 b)
      else 0)"

definition kaapi_bitmap_value_set_low_bits_128 :: "kaapi_bitmap_value128 \<Rightarrow> nat \<Rightarrow> kaapi_bitmap_value128" where
  "kaapi_bitmap_value_set_low_bits_128 b i =
     (if i < 64 then b\<lparr>vproc128_0 := push_bit i 1 - 1, vproc128_1 := 0\<rparr>
      else if i = 128 then b\<lparr>vproc128_0 := NOT 0, vproc128_1 := NOT 0\<rparr>
      else b\<lparr>vproc128_0 := NOT 0, vproc128_1 := push_bit (i - 64) 1 - 1\<rparr>)"

subsection \<open>Shared bitmaps\<close>

definition kaapi_bitmap_clear_128 :: "kaapi_bitmap128 \<Rightarrow> kaapi_bitmap128" where
  "kaapi_bitmap_clear_128 b = b\<lparr>proc128_0 := 0, proc128_1 := 0\<rparr>"

definition kaapi_bitmap_empty_128 :: "kaapi_bitmap128 \<Rightarrow> bool" where
  "kaapi_bitmap_empty_128 b \<longleftrightarrow> proc128_0 b = 0 \<and> proc128_1 b = 0"

definition kaapi_bitmap_init_128 :: "kaapi_bitmap128 \<Rightarrow> kaapi_bitmap_value128 \<Rightarrow> int \<times> kaapi_bitmap128" where
  "kaapi_bitmap_init_128 b v =
     (0, b\<lparr>proc128_0 := vproc128_0 v, proc128_1 := vproc128_1 v\<rparr>)"

definition kaapi_bitmap_swap0_128 :: "kaapi_bitmap128 \<Rightarrow> kaapi_bitmap_value128 \<Rightarrow> kaapi_bitmap128 \<times> kaapi_bitmap_value128" where
  "kaapi_bitmap_swap0_128 b v =
     (b\<lparr>proc128_0 := proc128_0 b AND 0, proc128_1 := proc128_1 b AND 0\<rparr>,
      v\<lparr>vproc128_0 := proc128_0 b, vproc128_1 := proc128_1 b\<rparr>)"

definition kaapi_bitmap_or0_128 :: "kaapi_bitmap128 \<Rightarrow> kaapi_bitmap_value128 \<Rightarrow> kaapi_bitmap128 \<times> kaapi_bitmap_value128" where
  "kaapi_bitmap_or0_128 b v =
     (b\<lparr>proc128_0 := proc128_0 b AND 0, proc128_1 := proc128_1 b AND 0\<rparr>,
      v\<lparr>vproc128_0 := vproc128_0 v OR proc128_0 b, vproc128_1 := vproc128_1 v OR proc128_1 b\<rparr>)"

definition kaapi_bitmap_and_128 :: "kaapi_bitmap_value128 \<Rightarrow> kaapi_bitmap128 \<Rightarrow> kaapi_bitmap_value128 \<Rightarrow> kaapi_bitmap_value128 \<times> kaapi_bitmap128" where
  "kaapi_bitmap_and_128 fu b v =
     (fu\<lparr>vproc128_0 := proc128_0 b, vproc128_1 := proc128_1 b\<rparr>,
      b\<lparr>proc128_0 := proc128_0 b AND vproc128_0 v, proc128_1 := proc128_1 b AND vproc128_1 v\<rparr>)"

definition kaapi_bitmap_set_128 :: "kaapi_bitmap128 \<Rightarrow> nat \<Rightarrow> int \<times> kaapi_bitmap128" where
  "kaapi_bitmap_set_128 b i =
     (1, if i < 64 then b\<lparr>proc128_0 := proc128_0 b OR push_bit i 1\<rparr>
      else b\<lparr>proc128_1 := proc128_1 b OR push_bit (i - 64) 1\<rparr>)"

definition kaapi_bitmap_get_128 :: "kaapi_bitmap128 \<Rightarrow> nat \<Rightarrow> bool" where
  "kaapi_bitmap_get_128 b i =
     kaapi_bitmap_value_get_128 \<lparr>vproc128_0 = proc128_0 b, vproc128_1 = proc128_1 b\<rparr> i"

definition kaapi_bitmap_unset_128 :: "kaapi_bitmap128 \<Rightarrow> nat \<Rightarrow> int \<times> kaapi_bitmap128" where
  "kaapi_bitmap_unset_128 b i =
     (if i < 64 then (if (proc128_0 b AND push_bit i 1) \<noteq> 0 then 0 else - 1,
         b\<lparr>proc128_0 := proc128_0 b AND NOT (push_bit i 1)\<rparr>)
      else (if (proc128_1 b AND push_bit (i - 64) 1) \<noteq> 0 then 0 else - 1,
         b\<lparr>proc128_1 := proc128_1 b AND NOT (push_bit (i - 64) 1)\<rparr>))"

definition kaapi_bitmap_count_128 :: "kaapi_bitmap128 \<Rightarrow> nat" where
  "kaapi_bitmap_count_128 b =
     builtin_popcount (proc128_0 b) + builtin_popcount (proc128_1 b)"

definition kaapi_bitmap_first1_128 :: "kaapi_bitmap128 \<Rightarrow> nat" where
  "kaapi_bitmap_first1_128 b =
     (if proc128_0 b \<noteq> 0 then builtin_ffs (proc128_0 b)
      else if proc128_1 b \<noteq> 0 then 64 + builtin_ffs (proc128_1 b)
      else 0)"

text \<open>\<^verbatim>\<open>kaapi_bitmap_unset_64((kaapi_bitmap64_t*)&b->proc128[k], i)\<close>: the 128-bit bitmap as an array of
  64-bit ones.\<close>

definition unset_word_128 :: "kaapi_bitmap128 \<Rightarrow> nat \<Rightarrow> nat \<Rightarrow> int \<times> kaapi_bitmap128" where
  "unset_word_128 b k i =
     (if k = 0 then (case kaapi_bitmap_unset_64 \<lparr>proc64 = proc128_0 b\<rparr> i of
               (r, w) \<Rightarrow> (r, b\<lparr>proc128_0 := proc64 w\<rparr>))
      else (case kaapi_bitmap_unset_64 \<lparr>proc64 = proc128_1 b\<rparr> i of
               (r, w) \<Rightarrow> (r, b\<lparr>proc128_1 := proc64 w\<rparr>)))"

text \<open>Every access to a word is one atomic step: \<open>env k\<close> is what the other threads do to the bitmap
  before the \<open>k\<close>-th access that follows the first read.\<close>

definition kaapi_bitmap_first1_and_zero_128 :: "(nat \<Rightarrow> kaapi_bitmap128 \<Rightarrow> kaapi_bitmap128) \<Rightarrow> kaapi_bitmap128 \<Rightarrow> nat \<times> kaapi_bitmap128" where
  "kaapi_bitmap_first1_and_zero_128 env b =
     (let fb = builtin_ffs (proc128_0 b)
      in if fb \<noteq> 0 then
           (case unset_word_128 (env 0 b) 0 (fb - 1) of
              (r, b') \<Rightarrow> if r = 0 then (fb, b') else (0, b'))
         else (let b = env 0 b
      in let fb = builtin_ffs (proc128_1 b)
      in if fb \<noteq> 0 then
           (case unset_word_128 (env 1 b) 1 (fb - 1) of
              (r, b') \<Rightarrow> if r = 0 then (64 + fb, b') else (0, b'))
         else (0, b)))"

text \<open>For \<open>i < 64\<close> the code leaves word 1 as it is.\<close>

definition kaapi_bitmap_set_low_bits_128 :: "kaapi_bitmap128 \<Rightarrow> nat \<Rightarrow> kaapi_bitmap128" where
  "kaapi_bitmap_set_low_bits_128 b i =
     (if i < 64 then b\<lparr>proc128_0 := push_bit i 1 - 1\<rparr>
      else b\<lparr>proc128_0 := NOT 0, proc128_1 := push_bit (i - 64) 1 - 1\<rparr>)"

subsection \<open>The 128-bit functions meet the contract\<close>

definition bits128 :: "kaapi_bitmap_value128 \<Rightarrow> nat set" where
  "bits128 v = words_bits [vproc128_0 v, vproc128_1 v]"

definition abits128 :: "kaapi_bitmap128 \<Rightarrow> nat set" where
  "abits128 b = words_bits [proc128_0 b, proc128_1 b]"

lemma value128_simple:
  "bits128 v \<subseteq> {..<128}"
  "bits128 (kaapi_bitmap_value_clear_128 v) = {}"
  "bits128 (kaapi_bitmap_value_full_128 v) = {..<128}"
  "kaapi_bitmap_value_empty_128 v \<longleftrightarrow> bits128 v = {}"
  "kaapi_bitmap_value_count_128 v = card (bits128 v)"
  "bits128 (kaapi_bitmap_value_copy_128 u v) = bits128 v"
  "bits128 (kaapi_bitmap_value_neg_128 u v) = {..<128} - bits128 v"
  "bits128 (kaapi_bitmap_value_or_128 u v) = bits128 u \<union> bits128 v"
  "bits128 (kaapi_bitmap_value_and_128 u v) = bits128 u \<inter> bits128 v"
  using words_bits_less [of "[vproc128_0 v, vproc128_1 v]"]
    words_bits_full [of 2] words_bits_neg [of "[vproc128_0 v, vproc128_1 v]"]
  by (simp_all add: bits128_def words_bits_empty card_words_bits
      kaapi_bitmap_value_clear_128_def kaapi_bitmap_value_full_128_def
      kaapi_bitmap_value_empty_128_def kaapi_bitmap_value_count_128_def
      kaapi_bitmap_value_copy_128_def kaapi_bitmap_value_neg_128_def
      kaapi_bitmap_value_or_128_def kaapi_bitmap_value_and_128_def
      flip: words_bits_or words_bits_and del: words_bits.simps)

lemma bits128_set:
  "i < 128 \<Longrightarrow> bits128 (kaapi_bitmap_value_set_128 b i) = insert i (bits128 b)"
  using words_bits_put_at [of 0 i "[vproc128_0 b, vproc128_1 b]"]
    words_bits_put_at [of 1 i "[vproc128_0 b, vproc128_1 b]"]
  by (simp add: bits128_def kaapi_bitmap_value_set_128_def del: words_bits.simps)

lemma bits128_get:
  "i < 128 \<Longrightarrow> kaapi_bitmap_value_get_128 b i \<longleftrightarrow> i \<in> bits128 b"
  using words_bits_get_at [of 0 i "[vproc128_0 b, vproc128_1 b]"]
    words_bits_get_at [of 1 i "[vproc128_0 b, vproc128_1 b]"]
  by (simp add: bits128_def kaapi_bitmap_value_get_128_def bitmem del: words_bits.simps mem_words_bits_Cons)

lemma bits128_unset:
  "i < 128 \<Longrightarrow> bits128 (kaapi_bitmap_value_unset_128 b i) = bits128 b - {i}"
  using words_bits_unset_at [of 0 i "[vproc128_0 b, vproc128_1 b]"]
    words_bits_unset_at [of 1 i "[vproc128_0 b, vproc128_1 b]"]
  by (simp add: bits128_def kaapi_bitmap_value_unset_128_def del: words_bits.simps)

lemma bits128_first1_and_zero:
  "bits128 (snd (kaapi_bitmap_value_first1_and_zero_128 b)) = bits128 b - {fst (kaapi_bitmap_value_first1_and_zero_128 b) - 1}"
  using words_bits_unset_ffs [of 0 "[vproc128_0 b, vproc128_1 b]"]
    words_bits_unset_ffs [of 1 "[vproc128_0 b, vproc128_1 b]"]
    words_bits_empty [of "[vproc128_0 b, vproc128_1 b]"]
  by (cases "vproc128_0 b = 0"; cases "vproc128_1 b = 0";
      simp add: bits128_def kaapi_bitmap_value_first1_and_zero_128_def Let_def
        del: words_bits.simps)

lemma bits128_ffs:
  "is_ffs (bits128 b) (fst (kaapi_bitmap_value_first1_and_zero_128 b))"
  "is_ffs (bits128 b) (kaapi_bitmap_value_first1_128 b)"
  by (simp_all add: bits128_def kaapi_bitmap_value_first1_and_zero_128_def kaapi_bitmap_value_first1_128_def
      Let_def is_ffs_words del: words_bits.simps)

lemma bits128_low:
  "i \<le> 128 \<Longrightarrow> bits128 (kaapi_bitmap_value_set_low_bits_128 b i) = {..<i}"
  using words_bits_low_at [of 0 i 1]
    words_bits_low_at [of 1 i 0] words_bits_full [of 2]
  by (simp add: bits128_def kaapi_bitmap_value_set_low_bits_128_def del: words_bits.simps)

interpretation bv128: bitmap_value_unset 128 bits128
  kaapi_bitmap_value_clear_128 kaapi_bitmap_value_full_128 kaapi_bitmap_value_empty_128
  kaapi_bitmap_value_count_128 kaapi_bitmap_value_set_128 kaapi_bitmap_value_get_128
  kaapi_bitmap_value_copy_128 kaapi_bitmap_value_neg_128 kaapi_bitmap_value_or_128
  kaapi_bitmap_value_and_128 kaapi_bitmap_value_first1_and_zero_128
  kaapi_bitmap_value_first1_128 kaapi_bitmap_value_set_low_bits_128
  kaapi_bitmap_value_unset_128
  by unfold_locales
    (simp_all add: value128_simple bits128_set bits128_get bits128_unset bits128_first1_and_zero bits128_ffs bits128_low
      del: One_nat_def)

lemma atomic128_simple:
  "abits128 b \<subseteq> {..<128}"
  "abits128 (kaapi_bitmap_clear_128 b) = {}"
  "kaapi_bitmap_empty_128 b \<longleftrightarrow> abits128 b = {}"
  "abits128 (snd (kaapi_bitmap_init_128 b v)) = bits128 v"
  "abits128 (fst (kaapi_bitmap_swap0_128 b v)) = {} \<and> bits128 (snd (kaapi_bitmap_swap0_128 b v)) = abits128 b"
  "abits128 (fst (kaapi_bitmap_or0_128 b v)) = {} \<and> bits128 (snd (kaapi_bitmap_or0_128 b v)) = bits128 v \<union> abits128 b"
  "bits128 (fst (kaapi_bitmap_and_128 u b v)) = abits128 b \<and>
   abits128 (snd (kaapi_bitmap_and_128 u b v)) = abits128 b \<inter> bits128 v"
  using words_bits_less [of "[proc128_0 b, proc128_1 b]"]
  by (simp_all add: bits128_def abits128_def words_bits_empty
      kaapi_bitmap_clear_128_def kaapi_bitmap_empty_128_def kaapi_bitmap_init_128_def
      kaapi_bitmap_swap0_128_def kaapi_bitmap_or0_128_def kaapi_bitmap_and_128_def
      flip: words_bits_or words_bits_and del: words_bits.simps)

lemma abits128_set:
  "i < 128 \<Longrightarrow> abits128 (snd (kaapi_bitmap_set_128 b i)) = insert i (abits128 b)"
  using words_bits_put_at [of 0 i "[proc128_0 b, proc128_1 b]"]
    words_bits_put_at [of 1 i "[proc128_0 b, proc128_1 b]"]
  by (simp add: abits128_def kaapi_bitmap_set_128_def del: words_bits.simps)

lemma abits128_get:
  "i < 128 \<Longrightarrow> kaapi_bitmap_get_128 b i \<longleftrightarrow> i \<in> abits128 b"
  by (simp add: kaapi_bitmap_get_128_def bits128_get) (simp add: bits128_def abits128_def)

lemma abits128_unset:
  "i < 128 \<Longrightarrow> abits128 (snd (kaapi_bitmap_unset_128 b i)) = abits128 b - {i}"
  using words_bits_unset_at [of 0 i "[proc128_0 b, proc128_1 b]"]
    words_bits_unset_at [of 1 i "[proc128_0 b, proc128_1 b]"]
  by (simp add: abits128_def kaapi_bitmap_unset_128_def del: words_bits.simps)

lemma kaapi_bitmap_unset_128_ret:
  "i < 128 \<Longrightarrow> fst (kaapi_bitmap_unset_128 b i) = (if i \<in> abits128 b then 0 else - 1)"
  using words_bits_get_at [of 0 i "[proc128_0 b, proc128_1 b]"]
    words_bits_get_at [of 1 i "[proc128_0 b, proc128_1 b]"]
  by (simp add: abits128_def kaapi_bitmap_unset_128_def bitmem del: words_bits.simps mem_words_bits_Cons)

lemma kaapi_bitmap_first1_128_ffs: "is_ffs (abits128 b) (kaapi_bitmap_first1_128 b)"
  by (simp add: abits128_def kaapi_bitmap_first1_128_def is_ffs_words del: words_bits.simps)

lemma unset_word_128:
  assumes "k < 2" and "i < 64"
  shows "abits128 (snd (unset_word_128 b k i)) = abits128 b - {64 * k + i}"
    and "fst (unset_word_128 b k i) = (if 64 * k + i \<in> abits128 b then 0 else - 1)"
proof -
  have k: "k = 0 \<or> k = 1"
    using assms(1) by linarith
  show "abits128 (snd (unset_word_128 b k i)) = abits128 b - {64 * k + i}"
    using k words_bits_unset [of k "[proc128_0 b, proc128_1 b]" i] assms(2)
    by (elim disjE; simp add: abits128_def unset_word_128_def kaapi_bitmap_unset_64_def Let_def
        del: words_bits.simps)
  show "fst (unset_word_128 b k i) = (if 64 * k + i \<in> abits128 b then 0 else - 1)"
    using k words_bits_get [of k "[proc128_0 b, proc128_1 b]" i] assms(2)
    by (elim disjE; simp add: abits128_def unset_word_128_def kaapi_bitmap_unset_64_def Let_def bitmem
        del: words_bits.simps mem_words_bits_Cons)
qed

text \<open>Whatever the other threads do between the accesses, a call that returns \<open>n + 1\<close> has cleared bit \<open>n\<close>
  in the state \<open>c\<close> its fetch-and-and found, where the bit was set, and nothing else; one that returns
  0 has changed nothing after the last interference.\<close>

lemma unset_word_128_claim:
  "(case unset_word_128 c k (builtin_ffs (w :: uint64) - 1) of
     (r, b') \<Rightarrow> if r = 0 then (t, b') else (0, b')) = (Suc m, b') \<Longrightarrow>
   k < 2 \<Longrightarrow> w \<noteq> 0 \<Longrightarrow> t = 64 * k + builtin_ffs w \<Longrightarrow> \<exists>c. m \<in> abits128 c \<and> abits128 b' = abits128 c - {m}"
  using unset_word_128 [of k "builtin_ffs w - 1" c] builtin_ffs64_less [of w] builtin_ffs_gt_0 [of w]
  by (auto simp: add_builtin_ffs split: prod.splits if_splits intro!: exI [of _ c])

lemma kaapi_bitmap_first1_and_zero_128_claim:
  "kaapi_bitmap_first1_and_zero_128 env b = (Suc m, b') \<Longrightarrow>
   \<exists>c. m \<in> abits128 c \<and> abits128 b' = abits128 c - {m}"
  using unset_word_128_claim [where c = "env 0 b" and k = 0 and w = "proc128_0 b"
      and t = "builtin_ffs (proc128_0 b)" and m = m and b' = b']
    unset_word_128_claim [where c = "env 1 (env 0 b)" and k = 1 and w = "proc128_1 (env 0 b)"
      and t = "64 + builtin_ffs (proc128_1 (env 0 b))" and m = m and b' = b']
  unfolding kaapi_bitmap_first1_and_zero_128_def Let_def
  by (simp split: if_splits)

lemma kaapi_bitmap_first1_and_zero_128_alone_ffs:
  "is_ffs (abits128 b) (fst (kaapi_bitmap_first1_and_zero_128 (\<lambda>_ b. b) b))"
  by (simp add: abits128_def kaapi_bitmap_first1_and_zero_128_def unset_word_128_def
      kaapi_bitmap_unset_64_def Let_def bitmem is_ffs_words del: words_bits.simps mem_words_bits_Cons)

lemma kaapi_bitmap_first1_and_zero_128_alone:
  "abits128 (snd (kaapi_bitmap_first1_and_zero_128 (\<lambda>_ b. b) b)) =
   abits128 b - {fst (kaapi_bitmap_first1_and_zero_128 (\<lambda>_ b. b) b) - 1}"
  using words_bits_unset_ffs [of 0 "[proc128_0 b, proc128_1 b]"]
    words_bits_unset_ffs [of 1 "[proc128_0 b, proc128_1 b]"]
    words_bits_empty [of "[proc128_0 b, proc128_1 b]"]
  by (cases "proc128_0 b = 0"; cases "proc128_1 b = 0";
      simp add: abits128_def kaapi_bitmap_first1_and_zero_128_def unset_word_128_def
        kaapi_bitmap_unset_64_def Let_def bitmem del: words_bits.simps mem_words_bits_Cons)

interpretation ba128: bitmap_atomic 128 abits128 bits128
  kaapi_bitmap_clear_128 kaapi_bitmap_empty_128 kaapi_bitmap_init_128 kaapi_bitmap_swap0_128
  kaapi_bitmap_or0_128 kaapi_bitmap_and_128 kaapi_bitmap_set_128 kaapi_bitmap_get_128
  kaapi_bitmap_unset_128 kaapi_bitmap_first1_128
  "kaapi_bitmap_first1_and_zero_128 (\<lambda>_ b. b)"
  by unfold_locales
    (simp_all add: atomic128_simple abits128_set abits128_get abits128_unset kaapi_bitmap_unset_128_ret
      kaapi_bitmap_first1_128_ffs kaapi_bitmap_first1_and_zero_128_alone
      kaapi_bitmap_first1_and_zero_128_alone_ffs del: One_nat_def)

end
