(* ===== verification/Bitmap192.thy ===== *)
theory Bitmap192
  imports Bitmap_Word
begin

text \<open>
  The bitmaps of three 64-bit words of \<^verbatim>\<open>src/machine/mt/kaapi_mt_bitmap.h\<close>, for 192 processors, and the proofs that
  they meet the contract of \<open>Bitmap_Spec\<close>.
\<close>

section \<open>The 192-bit bitmap\<close>

record kaapi_bitmap192 =
  proc192_0 :: uint64
  proc192_1 :: uint64
  proc192_2 :: uint64

record kaapi_bitmap_value192 =
  vproc192_0 :: uint64
  vproc192_1 :: uint64
  vproc192_2 :: uint64

subsection \<open>Plain values\<close>

definition kaapi_bitmap_value_clear_192 :: "kaapi_bitmap_value192 \<Rightarrow> kaapi_bitmap_value192" where
  "kaapi_bitmap_value_clear_192 b = b\<lparr>vproc192_0 := 0,
       vproc192_1 := 0,
       vproc192_2 := 0\<rparr>"

definition kaapi_bitmap_value_full_192 :: "kaapi_bitmap_value192 \<Rightarrow> kaapi_bitmap_value192" where
  "kaapi_bitmap_value_full_192 b = b\<lparr>vproc192_0 := NOT 0,
       vproc192_1 := NOT 0,
       vproc192_2 := NOT 0\<rparr>"

definition kaapi_bitmap_value_count_192 :: "kaapi_bitmap_value192 \<Rightarrow> nat" where
  "kaapi_bitmap_value_count_192 b =
     builtin_popcount (vproc192_0 b) + builtin_popcount (vproc192_1 b) + builtin_popcount (vproc192_2 b)"

definition kaapi_bitmap_value_empty_192 :: "kaapi_bitmap_value192 \<Rightarrow> bool" where
  "kaapi_bitmap_value_empty_192 b \<longleftrightarrow> vproc192_0 b = 0 \<and> vproc192_1 b = 0 \<and> vproc192_2 b = 0"

definition kaapi_bitmap_value_set_192 :: "kaapi_bitmap_value192 \<Rightarrow> nat \<Rightarrow> kaapi_bitmap_value192" where
  "kaapi_bitmap_value_set_192 b i =
     (if i < 64 then b\<lparr>vproc192_0 := vproc192_0 b OR push_bit i 1\<rparr>
      else if i < 128 then b\<lparr>vproc192_1 := vproc192_1 b OR push_bit (i - 64) 1\<rparr>
      else b\<lparr>vproc192_2 := vproc192_2 b OR push_bit (i - 128) 1\<rparr>)"

definition kaapi_bitmap_value_get_192 :: "kaapi_bitmap_value192 \<Rightarrow> nat \<Rightarrow> bool" where
  "kaapi_bitmap_value_get_192 b i =
     (if i < 64 then (vproc192_0 b AND push_bit i 1) \<noteq> 0
      else if i < 128 then (vproc192_1 b AND push_bit (i - 64) 1) \<noteq> 0
      else (vproc192_2 b AND push_bit (i - 128) 1) \<noteq> 0)"

text \<open>For \<open>i\<close> from 128 on the code clears a bit of word 1, not of word 2.\<close>

definition kaapi_bitmap_value_unset_192 :: "kaapi_bitmap_value192 \<Rightarrow> nat \<Rightarrow> kaapi_bitmap_value192" where
  "kaapi_bitmap_value_unset_192 b i =
     (if i < 64 then b\<lparr>vproc192_0 := vproc192_0 b AND NOT (push_bit i 1)\<rparr>
      else if i < 128 then b\<lparr>vproc192_1 := vproc192_1 b AND NOT (push_bit (i - 64) 1)\<rparr>
      else b\<lparr>vproc192_1 := vproc192_1 b AND NOT (push_bit (i - 128) 1)\<rparr>)"

definition kaapi_bitmap_value_copy_192 :: "kaapi_bitmap_value192 \<Rightarrow> kaapi_bitmap_value192 \<Rightarrow> kaapi_bitmap_value192" where
  "kaapi_bitmap_value_copy_192 retval b =
     retval\<lparr>vproc192_0 := vproc192_0 b,
       vproc192_1 := vproc192_1 b,
       vproc192_2 := vproc192_2 b\<rparr>"

definition kaapi_bitmap_value_neg_192 :: "kaapi_bitmap_value192 \<Rightarrow> kaapi_bitmap_value192 \<Rightarrow> kaapi_bitmap_value192" where
  "kaapi_bitmap_value_neg_192 fu bar =
     fu\<lparr>vproc192_0 := NOT (vproc192_0 bar),
       vproc192_1 := NOT (vproc192_1 bar),
       vproc192_2 := NOT (vproc192_2 bar)\<rparr>"

definition kaapi_bitmap_value_or_192 :: "kaapi_bitmap_value192 \<Rightarrow> kaapi_bitmap_value192 \<Rightarrow> kaapi_bitmap_value192" where
  "kaapi_bitmap_value_or_192 fu bar =
     fu\<lparr>vproc192_0 := vproc192_0 fu OR vproc192_0 bar,
       vproc192_1 := vproc192_1 fu OR vproc192_1 bar,
       vproc192_2 := vproc192_2 fu OR vproc192_2 bar\<rparr>"

definition kaapi_bitmap_value_and_192 :: "kaapi_bitmap_value192 \<Rightarrow> kaapi_bitmap_value192 \<Rightarrow> kaapi_bitmap_value192" where
  "kaapi_bitmap_value_and_192 fu bar =
     fu\<lparr>vproc192_0 := vproc192_0 fu AND vproc192_0 bar,
       vproc192_1 := vproc192_1 fu AND vproc192_1 bar,
       vproc192_2 := vproc192_2 fu AND vproc192_2 bar\<rparr>"

definition kaapi_bitmap_value_first1_and_zero_192 :: "kaapi_bitmap_value192 \<Rightarrow> nat \<times> kaapi_bitmap_value192" where
  "kaapi_bitmap_value_first1_and_zero_192 b =
     (let fb = builtin_ffs (vproc192_0 b)
      in if fb \<noteq> 0 then (fb, b\<lparr>vproc192_0 := vproc192_0 b AND NOT (push_bit (fb - 1) 1)\<rparr>)
      else let fb = builtin_ffs (vproc192_1 b)
      in if fb \<noteq> 0 then (64 + fb, b\<lparr>vproc192_1 := vproc192_1 b AND NOT (push_bit (fb - 1) 1)\<rparr>)
      else let fb = builtin_ffs (vproc192_2 b)
      in if fb \<noteq> 0 then (128 + fb, b\<lparr>vproc192_2 := vproc192_2 b AND NOT (push_bit (fb - 1) 1)\<rparr>)
      else (0, b))"

definition kaapi_bitmap_value_first1_192 :: "kaapi_bitmap_value192 \<Rightarrow> nat" where
  "kaapi_bitmap_value_first1_192 b =
     (if vproc192_0 b \<noteq> 0 then builtin_ffs (vproc192_0 b)
      else if vproc192_1 b \<noteq> 0 then 64 + builtin_ffs (vproc192_1 b)
      else if vproc192_2 b \<noteq> 0 then 128 + builtin_ffs (vproc192_2 b)
      else 0)"

definition kaapi_bitmap_value_set_low_bits_192 :: "kaapi_bitmap_value192 \<Rightarrow> nat \<Rightarrow> kaapi_bitmap_value192" where
  "kaapi_bitmap_value_set_low_bits_192 b i =
     (if i < 64 then b\<lparr>vproc192_0 := push_bit i 1 - 1,
       vproc192_1 := 0,
       vproc192_2 := 0\<rparr>
      else if i < 128 then b\<lparr>vproc192_0 := NOT 0,
       vproc192_1 := push_bit (i - 64) 1 - 1,
       vproc192_2 := 0\<rparr>
      else if i = 192 then b\<lparr>vproc192_0 := NOT 0,
       vproc192_1 := NOT 0,
       vproc192_2 := NOT 0\<rparr>
      else b\<lparr>vproc192_0 := NOT 0,
       vproc192_1 := NOT 0,
       vproc192_2 := push_bit (i - 128) 1 - 1\<rparr>)"

subsection \<open>Shared bitmaps\<close>

definition kaapi_bitmap_clear_192 :: "kaapi_bitmap192 \<Rightarrow> kaapi_bitmap192" where
  "kaapi_bitmap_clear_192 b = b\<lparr>proc192_0 := 0,
       proc192_1 := 0,
       proc192_2 := 0\<rparr>"

definition kaapi_bitmap_empty_192 :: "kaapi_bitmap192 \<Rightarrow> bool" where
  "kaapi_bitmap_empty_192 b \<longleftrightarrow> proc192_0 b = 0 \<and> proc192_1 b = 0 \<and> proc192_2 b = 0"

definition kaapi_bitmap_init_192 :: "kaapi_bitmap192 \<Rightarrow> kaapi_bitmap_value192 \<Rightarrow> int \<times> kaapi_bitmap192" where
  "kaapi_bitmap_init_192 b v =
     (0, b\<lparr>proc192_0 := vproc192_0 v,
       proc192_1 := vproc192_1 v,
       proc192_2 := vproc192_2 v\<rparr>)"

definition kaapi_bitmap_swap0_192 :: "kaapi_bitmap192 \<Rightarrow> kaapi_bitmap_value192 \<Rightarrow> kaapi_bitmap192 \<times> kaapi_bitmap_value192" where
  "kaapi_bitmap_swap0_192 b v =
     (b\<lparr>proc192_0 := proc192_0 b AND 0,
       proc192_1 := proc192_1 b AND 0,
       proc192_2 := proc192_2 b AND 0\<rparr>,
      v\<lparr>vproc192_0 := proc192_0 b,
       vproc192_1 := proc192_1 b,
       vproc192_2 := proc192_2 b\<rparr>)"

definition kaapi_bitmap_or0_192 :: "kaapi_bitmap192 \<Rightarrow> kaapi_bitmap_value192 \<Rightarrow> kaapi_bitmap192 \<times> kaapi_bitmap_value192" where
  "kaapi_bitmap_or0_192 b v =
     (b\<lparr>proc192_0 := proc192_0 b AND 0,
       proc192_1 := proc192_1 b AND 0,
       proc192_2 := proc192_2 b AND 0\<rparr>,
      v\<lparr>vproc192_0 := vproc192_0 v OR proc192_0 b,
       vproc192_1 := vproc192_1 v OR proc192_1 b,
       vproc192_2 := vproc192_2 v OR proc192_2 b\<rparr>)"

definition kaapi_bitmap_and_192 :: "kaapi_bitmap_value192 \<Rightarrow> kaapi_bitmap192 \<Rightarrow> kaapi_bitmap_value192 \<Rightarrow> kaapi_bitmap_value192 \<times> kaapi_bitmap192" where
  "kaapi_bitmap_and_192 fu b v =
     (fu\<lparr>vproc192_0 := proc192_0 b,
       vproc192_1 := proc192_1 b,
       vproc192_2 := proc192_2 b\<rparr>,
      b\<lparr>proc192_0 := proc192_0 b AND vproc192_0 v,
       proc192_1 := proc192_1 b AND vproc192_1 v,
       proc192_2 := proc192_2 b AND vproc192_2 v\<rparr>)"

definition kaapi_bitmap_set_192 :: "kaapi_bitmap192 \<Rightarrow> nat \<Rightarrow> int \<times> kaapi_bitmap192" where
  "kaapi_bitmap_set_192 b i =
     (1, if i < 64 then b\<lparr>proc192_0 := proc192_0 b OR push_bit i 1\<rparr>
      else if i < 128 then b\<lparr>proc192_1 := proc192_1 b OR push_bit (i - 64) 1\<rparr>
      else b\<lparr>proc192_2 := proc192_2 b OR push_bit (i - 128) 1\<rparr>)"

definition kaapi_bitmap_get_192 :: "kaapi_bitmap192 \<Rightarrow> nat \<Rightarrow> bool" where
  "kaapi_bitmap_get_192 b i =
     kaapi_bitmap_value_get_192 \<lparr>vproc192_0 = proc192_0 b, vproc192_1 = proc192_1 b, vproc192_2 = proc192_2 b\<rparr> i"

definition kaapi_bitmap_unset_192 :: "kaapi_bitmap192 \<Rightarrow> nat \<Rightarrow> int \<times> kaapi_bitmap192" where
  "kaapi_bitmap_unset_192 b i =
     (if i < 64 then (if (proc192_0 b AND push_bit i 1) \<noteq> 0 then 0 else - 1,
         b\<lparr>proc192_0 := proc192_0 b AND NOT (push_bit i 1)\<rparr>)
      else if i < 128 then (if (proc192_1 b AND push_bit (i - 64) 1) \<noteq> 0 then 0 else - 1,
         b\<lparr>proc192_1 := proc192_1 b AND NOT (push_bit (i - 64) 1)\<rparr>)
      else (if (proc192_2 b AND push_bit (i - 128) 1) \<noteq> 0 then 0 else - 1,
         b\<lparr>proc192_2 := proc192_2 b AND NOT (push_bit (i - 128) 1)\<rparr>))"

definition kaapi_bitmap_count_192 :: "kaapi_bitmap192 \<Rightarrow> nat" where
  "kaapi_bitmap_count_192 b =
     builtin_popcount (proc192_0 b) + builtin_popcount (proc192_1 b) + builtin_popcount (proc192_2 b)"

definition kaapi_bitmap_first1_192 :: "kaapi_bitmap192 \<Rightarrow> nat" where
  "kaapi_bitmap_first1_192 b =
     (if proc192_0 b \<noteq> 0 then builtin_ffs (proc192_0 b)
      else if proc192_1 b \<noteq> 0 then 64 + builtin_ffs (proc192_1 b)
      else if proc192_2 b \<noteq> 0 then 128 + builtin_ffs (proc192_2 b)
      else 0)"

text \<open>\<^verbatim>\<open>kaapi_bitmap_unset_64((kaapi_bitmap64_t*)&b->proc192[k], i)\<close>: the 192-bit bitmap as an array of
  64-bit ones.\<close>

definition unset_word_192 :: "kaapi_bitmap192 \<Rightarrow> nat \<Rightarrow> nat \<Rightarrow> int \<times> kaapi_bitmap192" where
  "unset_word_192 b k i =
     (if k = 0 then (case kaapi_bitmap_unset_64 \<lparr>proc64 = proc192_0 b\<rparr> i of
               (r, w) \<Rightarrow> (r, b\<lparr>proc192_0 := proc64 w\<rparr>))
      else if k = 1 then (case kaapi_bitmap_unset_64 \<lparr>proc64 = proc192_1 b\<rparr> i of
               (r, w) \<Rightarrow> (r, b\<lparr>proc192_1 := proc64 w\<rparr>))
      else (case kaapi_bitmap_unset_64 \<lparr>proc64 = proc192_2 b\<rparr> i of
               (r, w) \<Rightarrow> (r, b\<lparr>proc192_2 := proc64 w\<rparr>)))"

text \<open>Every access to a word is one atomic step: \<open>env k\<close> is what the other threads do to the bitmap
  before the \<open>k\<close>-th access that follows the first read.\<close>

definition kaapi_bitmap_first1_and_zero_192 :: "(nat \<Rightarrow> kaapi_bitmap192 \<Rightarrow> kaapi_bitmap192) \<Rightarrow> kaapi_bitmap192 \<Rightarrow> nat \<times> kaapi_bitmap192" where
  "kaapi_bitmap_first1_and_zero_192 env b =
     (let fb = builtin_ffs (proc192_0 b)
      in if fb \<noteq> 0 then
           (case unset_word_192 (env 0 b) 0 (fb - 1) of
              (r, b') \<Rightarrow> if r = 0 then (fb, b') else (0, b'))
         else (let b = env 0 b
      in let fb = builtin_ffs (proc192_1 b)
      in if fb \<noteq> 0 then
           (case unset_word_192 (env 1 b) 1 (fb - 1) of
              (r, b') \<Rightarrow> if r = 0 then (64 + fb, b') else (0, b'))
         else (let b = env 1 b
      in let fb = builtin_ffs (proc192_2 b)
      in if fb \<noteq> 0 then
           (case unset_word_192 (env 2 b) 2 (fb - 1) of
              (r, b') \<Rightarrow> if r = 0 then (128 + fb, b') else (0, b'))
         else (0, b))))"

definition kaapi_bitmap_set_low_bits_192 :: "kaapi_bitmap192 \<Rightarrow> nat \<Rightarrow> kaapi_bitmap192" where
  "kaapi_bitmap_set_low_bits_192 b i =
     (if i < 64 then b\<lparr>proc192_0 := push_bit i 1 - 1,
       proc192_1 := 0,
       proc192_2 := 0\<rparr>
      else if i < 128 then b\<lparr>proc192_0 := NOT 0,
       proc192_1 := push_bit (i - 64) 1 - 1,
       proc192_2 := 0\<rparr>
      else b\<lparr>proc192_0 := NOT 0,
       proc192_1 := NOT 0,
       proc192_2 := push_bit (i - 128) 1 - 1\<rparr>)"

subsection \<open>The 192-bit functions meet the contract\<close>

definition bits192 :: "kaapi_bitmap_value192 \<Rightarrow> nat set" where
  "bits192 v = words_bits [vproc192_0 v, vproc192_1 v, vproc192_2 v]"

definition abits192 :: "kaapi_bitmap192 \<Rightarrow> nat set" where
  "abits192 b = words_bits [proc192_0 b, proc192_1 b, proc192_2 b]"

lemma value192_simple:
  "bits192 v \<subseteq> {..<192}"
  "bits192 (kaapi_bitmap_value_clear_192 v) = {}"
  "bits192 (kaapi_bitmap_value_full_192 v) = {..<192}"
  "kaapi_bitmap_value_empty_192 v \<longleftrightarrow> bits192 v = {}"
  "kaapi_bitmap_value_count_192 v = card (bits192 v)"
  "bits192 (kaapi_bitmap_value_copy_192 u v) = bits192 v"
  "bits192 (kaapi_bitmap_value_neg_192 u v) = {..<192} - bits192 v"
  "bits192 (kaapi_bitmap_value_or_192 u v) = bits192 u \<union> bits192 v"
  "bits192 (kaapi_bitmap_value_and_192 u v) = bits192 u \<inter> bits192 v"
  using words_bits_less [of "[vproc192_0 v, vproc192_1 v, vproc192_2 v]"]
    words_bits_full [of 3] words_bits_neg [of "[vproc192_0 v, vproc192_1 v, vproc192_2 v]"]
  by (simp_all add: bits192_def words_bits_empty card_words_bits
      kaapi_bitmap_value_clear_192_def kaapi_bitmap_value_full_192_def
      kaapi_bitmap_value_empty_192_def kaapi_bitmap_value_count_192_def
      kaapi_bitmap_value_copy_192_def kaapi_bitmap_value_neg_192_def
      kaapi_bitmap_value_or_192_def kaapi_bitmap_value_and_192_def
      flip: words_bits_or words_bits_and del: words_bits.simps)

lemma bits192_set:
  "i < 192 \<Longrightarrow> bits192 (kaapi_bitmap_value_set_192 b i) = insert i (bits192 b)"
  using words_bits_put_at [of 0 i "[vproc192_0 b, vproc192_1 b, vproc192_2 b]"]
    words_bits_put_at [of 1 i "[vproc192_0 b, vproc192_1 b, vproc192_2 b]"]
    words_bits_put_at [of 2 i "[vproc192_0 b, vproc192_1 b, vproc192_2 b]"]
  by (simp add: bits192_def kaapi_bitmap_value_set_192_def del: words_bits.simps)

lemma bits192_get:
  "i < 192 \<Longrightarrow> kaapi_bitmap_value_get_192 b i \<longleftrightarrow> i \<in> bits192 b"
  using words_bits_get_at [of 0 i "[vproc192_0 b, vproc192_1 b, vproc192_2 b]"]
    words_bits_get_at [of 1 i "[vproc192_0 b, vproc192_1 b, vproc192_2 b]"]
    words_bits_get_at [of 2 i "[vproc192_0 b, vproc192_1 b, vproc192_2 b]"]
  by (simp add: bits192_def kaapi_bitmap_value_get_192_def bitmem del: words_bits.simps mem_words_bits_Cons)

lemma bits192_first1_and_zero:
  "bits192 (snd (kaapi_bitmap_value_first1_and_zero_192 b)) = bits192 b - {fst (kaapi_bitmap_value_first1_and_zero_192 b) - 1}"
  using words_bits_unset_ffs [of 0 "[vproc192_0 b, vproc192_1 b, vproc192_2 b]"]
    words_bits_unset_ffs [of 1 "[vproc192_0 b, vproc192_1 b, vproc192_2 b]"]
    words_bits_unset_ffs [of 2 "[vproc192_0 b, vproc192_1 b, vproc192_2 b]"]
    words_bits_empty [of "[vproc192_0 b, vproc192_1 b, vproc192_2 b]"]
  by (cases "vproc192_0 b = 0"; cases "vproc192_1 b = 0"; cases "vproc192_2 b = 0";
      simp add: bits192_def kaapi_bitmap_value_first1_and_zero_192_def Let_def
        del: words_bits.simps)

lemma bits192_ffs:
  "is_ffs (bits192 b) (fst (kaapi_bitmap_value_first1_and_zero_192 b))"
  "is_ffs (bits192 b) (kaapi_bitmap_value_first1_192 b)"
  by (simp_all add: bits192_def kaapi_bitmap_value_first1_and_zero_192_def kaapi_bitmap_value_first1_192_def
      Let_def is_ffs_words del: words_bits.simps)

lemma bits192_low:
  "i \<le> 192 \<Longrightarrow> bits192 (kaapi_bitmap_value_set_low_bits_192 b i) = {..<i}"
  using words_bits_low_at [of 0 i 2]
    words_bits_low_at [of 1 i 1]
    words_bits_low_at [of 2 i 0] words_bits_full [of 3]
  by (simp add: bits192_def kaapi_bitmap_value_set_low_bits_192_def del: words_bits.simps)

interpretation bv192: bitmap_value 192 bits192
  kaapi_bitmap_value_clear_192 kaapi_bitmap_value_full_192 kaapi_bitmap_value_empty_192
  kaapi_bitmap_value_count_192 kaapi_bitmap_value_set_192 kaapi_bitmap_value_get_192
  kaapi_bitmap_value_copy_192 kaapi_bitmap_value_neg_192 kaapi_bitmap_value_or_192
  kaapi_bitmap_value_and_192 kaapi_bitmap_value_first1_and_zero_192
  kaapi_bitmap_value_first1_192 kaapi_bitmap_value_set_low_bits_192
  by unfold_locales
    (simp_all add: value192_simple bits192_set bits192_get bits192_first1_and_zero bits192_ffs bits192_low
      del: One_nat_def)

lemma atomic192_simple:
  "abits192 b \<subseteq> {..<192}"
  "abits192 (kaapi_bitmap_clear_192 b) = {}"
  "kaapi_bitmap_empty_192 b \<longleftrightarrow> abits192 b = {}"
  "abits192 (snd (kaapi_bitmap_init_192 b v)) = bits192 v"
  "abits192 (fst (kaapi_bitmap_swap0_192 b v)) = {} \<and> bits192 (snd (kaapi_bitmap_swap0_192 b v)) = abits192 b"
  "abits192 (fst (kaapi_bitmap_or0_192 b v)) = {} \<and> bits192 (snd (kaapi_bitmap_or0_192 b v)) = bits192 v \<union> abits192 b"
  "bits192 (fst (kaapi_bitmap_and_192 u b v)) = abits192 b \<and>
   abits192 (snd (kaapi_bitmap_and_192 u b v)) = abits192 b \<inter> bits192 v"
  using words_bits_less [of "[proc192_0 b, proc192_1 b, proc192_2 b]"]
  by (simp_all add: bits192_def abits192_def words_bits_empty
      kaapi_bitmap_clear_192_def kaapi_bitmap_empty_192_def kaapi_bitmap_init_192_def
      kaapi_bitmap_swap0_192_def kaapi_bitmap_or0_192_def kaapi_bitmap_and_192_def
      flip: words_bits_or words_bits_and del: words_bits.simps)

lemma abits192_set:
  "i < 192 \<Longrightarrow> abits192 (snd (kaapi_bitmap_set_192 b i)) = insert i (abits192 b)"
  using words_bits_put_at [of 0 i "[proc192_0 b, proc192_1 b, proc192_2 b]"]
    words_bits_put_at [of 1 i "[proc192_0 b, proc192_1 b, proc192_2 b]"]
    words_bits_put_at [of 2 i "[proc192_0 b, proc192_1 b, proc192_2 b]"]
  by (simp add: abits192_def kaapi_bitmap_set_192_def del: words_bits.simps)

lemma abits192_get:
  "i < 192 \<Longrightarrow> kaapi_bitmap_get_192 b i \<longleftrightarrow> i \<in> abits192 b"
  by (simp add: kaapi_bitmap_get_192_def bits192_get) (simp add: bits192_def abits192_def)

lemma abits192_unset:
  "i < 192 \<Longrightarrow> abits192 (snd (kaapi_bitmap_unset_192 b i)) = abits192 b - {i}"
  using words_bits_unset_at [of 0 i "[proc192_0 b, proc192_1 b, proc192_2 b]"]
    words_bits_unset_at [of 1 i "[proc192_0 b, proc192_1 b, proc192_2 b]"]
    words_bits_unset_at [of 2 i "[proc192_0 b, proc192_1 b, proc192_2 b]"]
  by (simp add: abits192_def kaapi_bitmap_unset_192_def del: words_bits.simps)

lemma kaapi_bitmap_unset_192_ret:
  "i < 192 \<Longrightarrow> fst (kaapi_bitmap_unset_192 b i) = (if i \<in> abits192 b then 0 else - 1)"
  using words_bits_get_at [of 0 i "[proc192_0 b, proc192_1 b, proc192_2 b]"]
    words_bits_get_at [of 1 i "[proc192_0 b, proc192_1 b, proc192_2 b]"]
    words_bits_get_at [of 2 i "[proc192_0 b, proc192_1 b, proc192_2 b]"]
  by (simp add: abits192_def kaapi_bitmap_unset_192_def bitmem del: words_bits.simps mem_words_bits_Cons)

lemma kaapi_bitmap_first1_192_ffs: "is_ffs (abits192 b) (kaapi_bitmap_first1_192 b)"
  by (simp add: abits192_def kaapi_bitmap_first1_192_def is_ffs_words del: words_bits.simps)

lemma unset_word_192:
  assumes "k < 3" and "i < 64"
  shows "abits192 (snd (unset_word_192 b k i)) = abits192 b - {64 * k + i}"
    and "fst (unset_word_192 b k i) = (if 64 * k + i \<in> abits192 b then 0 else - 1)"
proof -
  have k: "k = 0 \<or> k = 1 \<or> k = 2"
    using assms(1) by linarith
  show "abits192 (snd (unset_word_192 b k i)) = abits192 b - {64 * k + i}"
    using k words_bits_unset [of k "[proc192_0 b, proc192_1 b, proc192_2 b]" i] assms(2)
    by (elim disjE; simp add: abits192_def unset_word_192_def kaapi_bitmap_unset_64_def Let_def
        del: words_bits.simps)
  show "fst (unset_word_192 b k i) = (if 64 * k + i \<in> abits192 b then 0 else - 1)"
    using k words_bits_get [of k "[proc192_0 b, proc192_1 b, proc192_2 b]" i] assms(2)
    by (elim disjE; simp add: abits192_def unset_word_192_def kaapi_bitmap_unset_64_def Let_def bitmem
        del: words_bits.simps mem_words_bits_Cons)
qed

text \<open>Whatever the other threads do between the accesses, a call that returns \<open>n + 1\<close> has cleared bit \<open>n\<close>
  in the state \<open>c\<close> its fetch-and-and found, where the bit was set, and nothing else; one that returns
  0 has changed nothing after the last interference.\<close>

lemma unset_word_192_claim:
  "(case unset_word_192 c k (builtin_ffs (w :: uint64) - 1) of
     (r, b') \<Rightarrow> if r = 0 then (t, b') else (0, b')) = (Suc m, b') \<Longrightarrow>
   k < 3 \<Longrightarrow> w \<noteq> 0 \<Longrightarrow> t = 64 * k + builtin_ffs w \<Longrightarrow> \<exists>c. m \<in> abits192 c \<and> abits192 b' = abits192 c - {m}"
  using unset_word_192 [of k "builtin_ffs w - 1" c] builtin_ffs64_less [of w] builtin_ffs_gt_0 [of w]
  by (auto simp: add_builtin_ffs split: prod.splits if_splits intro!: exI [of _ c])

lemma kaapi_bitmap_first1_and_zero_192_claim:
  "kaapi_bitmap_first1_and_zero_192 env b = (Suc m, b') \<Longrightarrow>
   \<exists>c. m \<in> abits192 c \<and> abits192 b' = abits192 c - {m}"
  using unset_word_192_claim [where c = "env 0 b" and k = 0 and w = "proc192_0 b"
      and t = "builtin_ffs (proc192_0 b)" and m = m and b' = b']
    unset_word_192_claim [where c = "env 1 (env 0 b)" and k = 1 and w = "proc192_1 (env 0 b)"
      and t = "64 + builtin_ffs (proc192_1 (env 0 b))" and m = m and b' = b']
    unset_word_192_claim [where c = "env 2 (env 1 (env 0 b))" and k = 2 and w = "proc192_2 (env 1 (env 0 b))"
      and t = "128 + builtin_ffs (proc192_2 (env 1 (env 0 b)))" and m = m and b' = b']
  unfolding kaapi_bitmap_first1_and_zero_192_def Let_def
  by (simp split: if_splits)

lemma kaapi_bitmap_first1_and_zero_192_alone_ffs:
  "is_ffs (abits192 b) (fst (kaapi_bitmap_first1_and_zero_192 (\<lambda>_ b. b) b))"
  by (simp add: abits192_def kaapi_bitmap_first1_and_zero_192_def unset_word_192_def
      kaapi_bitmap_unset_64_def Let_def bitmem is_ffs_words del: words_bits.simps mem_words_bits_Cons)

lemma kaapi_bitmap_first1_and_zero_192_alone:
  "abits192 (snd (kaapi_bitmap_first1_and_zero_192 (\<lambda>_ b. b) b)) =
   abits192 b - {fst (kaapi_bitmap_first1_and_zero_192 (\<lambda>_ b. b) b) - 1}"
  using words_bits_unset_ffs [of 0 "[proc192_0 b, proc192_1 b, proc192_2 b]"]
    words_bits_unset_ffs [of 1 "[proc192_0 b, proc192_1 b, proc192_2 b]"]
    words_bits_unset_ffs [of 2 "[proc192_0 b, proc192_1 b, proc192_2 b]"]
    words_bits_empty [of "[proc192_0 b, proc192_1 b, proc192_2 b]"]
  by (cases "proc192_0 b = 0"; cases "proc192_1 b = 0"; cases "proc192_2 b = 0";
      simp add: abits192_def kaapi_bitmap_first1_and_zero_192_def unset_word_192_def
        kaapi_bitmap_unset_64_def Let_def bitmem del: words_bits.simps mem_words_bits_Cons)

interpretation ba192: bitmap_atomic 192 abits192 bits192
  kaapi_bitmap_clear_192 kaapi_bitmap_empty_192 kaapi_bitmap_init_192 kaapi_bitmap_swap0_192
  kaapi_bitmap_or0_192 kaapi_bitmap_and_192 kaapi_bitmap_set_192 kaapi_bitmap_get_192
  kaapi_bitmap_unset_192 kaapi_bitmap_first1_192
  "kaapi_bitmap_first1_and_zero_192 (\<lambda>_ b. b)"
  by unfold_locales
    (simp_all add: atomic192_simple abits192_set abits192_get abits192_unset kaapi_bitmap_unset_192_ret
      kaapi_bitmap_first1_192_ffs kaapi_bitmap_first1_and_zero_192_alone
      kaapi_bitmap_first1_and_zero_192_alone_ffs del: One_nat_def)

end
