(* ===== verification/Bitmap256.thy ===== *)
theory Bitmap256
  imports Bitmap_Word
begin

text \<open>
  The bitmaps of four 64-bit words of \<^verbatim>\<open>src/machine/mt/kaapi_mt_bitmap.h\<close>, for 256 processors, and the proofs that
  they meet the contract of \<open>Bitmap_Spec\<close>.
\<close>

section \<open>The 256-bit bitmap\<close>

record kaapi_bitmap256 =
  proc256_0 :: uint64
  proc256_1 :: uint64
  proc256_2 :: uint64
  proc256_3 :: uint64

record kaapi_bitmap_value256 =
  vproc256_0 :: uint64
  vproc256_1 :: uint64
  vproc256_2 :: uint64
  vproc256_3 :: uint64

subsection \<open>Plain values\<close>

definition kaapi_bitmap_value_clear_256 :: "kaapi_bitmap_value256 \<Rightarrow> kaapi_bitmap_value256" where
  "kaapi_bitmap_value_clear_256 b = b\<lparr>vproc256_0 := 0,
       vproc256_1 := 0,
       vproc256_2 := 0,
       vproc256_3 := 0\<rparr>"

definition kaapi_bitmap_value_full_256 :: "kaapi_bitmap_value256 \<Rightarrow> kaapi_bitmap_value256" where
  "kaapi_bitmap_value_full_256 b = b\<lparr>vproc256_0 := NOT 0,
       vproc256_1 := NOT 0,
       vproc256_2 := NOT 0,
       vproc256_3 := NOT 0\<rparr>"

definition kaapi_bitmap_value_count_256 :: "kaapi_bitmap_value256 \<Rightarrow> nat" where
  "kaapi_bitmap_value_count_256 b =
     builtin_popcount (vproc256_0 b) + builtin_popcount (vproc256_1 b) + builtin_popcount (vproc256_2 b) + builtin_popcount (vproc256_3 b)"

definition kaapi_bitmap_value_empty_256 :: "kaapi_bitmap_value256 \<Rightarrow> bool" where
  "kaapi_bitmap_value_empty_256 b \<longleftrightarrow> vproc256_0 b = 0 \<and> vproc256_1 b = 0 \<and> vproc256_2 b = 0 \<and> vproc256_3 b = 0"

definition kaapi_bitmap_value_set_256 :: "kaapi_bitmap_value256 \<Rightarrow> nat \<Rightarrow> kaapi_bitmap_value256" where
  "kaapi_bitmap_value_set_256 b i =
     (if i < 64 then b\<lparr>vproc256_0 := vproc256_0 b OR push_bit i 1\<rparr>
      else if i < 128 then b\<lparr>vproc256_1 := vproc256_1 b OR push_bit (i - 64) 1\<rparr>
      else if i < 192 then b\<lparr>vproc256_2 := vproc256_2 b OR push_bit (i - 128) 1\<rparr>
      else b\<lparr>vproc256_3 := vproc256_3 b OR push_bit (i - 192) 1\<rparr>)"

definition kaapi_bitmap_value_get_256 :: "kaapi_bitmap_value256 \<Rightarrow> nat \<Rightarrow> bool" where
  "kaapi_bitmap_value_get_256 b i =
     (if i < 64 then (vproc256_0 b AND push_bit i 1) \<noteq> 0
      else if i < 128 then (vproc256_1 b AND push_bit (i - 64) 1) \<noteq> 0
      else if i < 192 then (vproc256_2 b AND push_bit (i - 128) 1) \<noteq> 0
      else (vproc256_3 b AND push_bit (i - 192) 1) \<noteq> 0)"

definition kaapi_bitmap_value_unset_256 :: "kaapi_bitmap_value256 \<Rightarrow> nat \<Rightarrow> kaapi_bitmap_value256" where
  "kaapi_bitmap_value_unset_256 b i =
     (if i < 64 then b\<lparr>vproc256_0 := vproc256_0 b AND NOT (push_bit i 1)\<rparr>
      else if i < 128 then b\<lparr>vproc256_1 := vproc256_1 b AND NOT (push_bit (i - 64) 1)\<rparr>
      else if i < 192 then b\<lparr>vproc256_2 := vproc256_2 b AND NOT (push_bit (i - 128) 1)\<rparr>
      else b\<lparr>vproc256_3 := vproc256_3 b AND NOT (push_bit (i - 192) 1)\<rparr>)"

definition kaapi_bitmap_value_copy_256 :: "kaapi_bitmap_value256 \<Rightarrow> kaapi_bitmap_value256 \<Rightarrow> kaapi_bitmap_value256" where
  "kaapi_bitmap_value_copy_256 retval b =
     retval\<lparr>vproc256_0 := vproc256_0 b,
       vproc256_1 := vproc256_1 b,
       vproc256_2 := vproc256_2 b,
       vproc256_3 := vproc256_3 b\<rparr>"

definition kaapi_bitmap_value_neg_256 :: "kaapi_bitmap_value256 \<Rightarrow> kaapi_bitmap_value256 \<Rightarrow> kaapi_bitmap_value256" where
  "kaapi_bitmap_value_neg_256 fu bar =
     fu\<lparr>vproc256_0 := NOT (vproc256_0 bar),
       vproc256_1 := NOT (vproc256_1 bar),
       vproc256_2 := NOT (vproc256_2 bar),
       vproc256_3 := NOT (vproc256_3 bar)\<rparr>"

definition kaapi_bitmap_value_or_256 :: "kaapi_bitmap_value256 \<Rightarrow> kaapi_bitmap_value256 \<Rightarrow> kaapi_bitmap_value256" where
  "kaapi_bitmap_value_or_256 fu bar =
     fu\<lparr>vproc256_0 := vproc256_0 fu OR vproc256_0 bar,
       vproc256_1 := vproc256_1 fu OR vproc256_1 bar,
       vproc256_2 := vproc256_2 fu OR vproc256_2 bar,
       vproc256_3 := vproc256_3 fu OR vproc256_3 bar\<rparr>"

definition kaapi_bitmap_value_and_256 :: "kaapi_bitmap_value256 \<Rightarrow> kaapi_bitmap_value256 \<Rightarrow> kaapi_bitmap_value256" where
  "kaapi_bitmap_value_and_256 fu bar =
     fu\<lparr>vproc256_0 := vproc256_0 fu AND vproc256_0 bar,
       vproc256_1 := vproc256_1 fu AND vproc256_1 bar,
       vproc256_2 := vproc256_2 fu AND vproc256_2 bar,
       vproc256_3 := vproc256_3 fu AND vproc256_3 bar\<rparr>"

definition kaapi_bitmap_value_first1_and_zero_256 :: "kaapi_bitmap_value256 \<Rightarrow> nat \<times> kaapi_bitmap_value256" where
  "kaapi_bitmap_value_first1_and_zero_256 b =
     (let fb = builtin_ffs (vproc256_0 b)
      in if fb \<noteq> 0 then (fb, b\<lparr>vproc256_0 := vproc256_0 b AND NOT (push_bit (fb - 1) 1)\<rparr>)
      else let fb = builtin_ffs (vproc256_1 b)
      in if fb \<noteq> 0 then (64 + fb, b\<lparr>vproc256_1 := vproc256_1 b AND NOT (push_bit (fb - 1) 1)\<rparr>)
      else let fb = builtin_ffs (vproc256_2 b)
      in if fb \<noteq> 0 then (128 + fb, b\<lparr>vproc256_2 := vproc256_2 b AND NOT (push_bit (fb - 1) 1)\<rparr>)
      else let fb = builtin_ffs (vproc256_3 b)
      in if fb \<noteq> 0 then (192 + fb, b\<lparr>vproc256_3 := vproc256_3 b AND NOT (push_bit (fb - 1) 1)\<rparr>)
      else (0, b))"

definition kaapi_bitmap_value_first1_256 :: "kaapi_bitmap_value256 \<Rightarrow> nat" where
  "kaapi_bitmap_value_first1_256 b =
     (if vproc256_0 b \<noteq> 0 then builtin_ffs (vproc256_0 b)
      else if vproc256_1 b \<noteq> 0 then 64 + builtin_ffs (vproc256_1 b)
      else if vproc256_2 b \<noteq> 0 then 128 + builtin_ffs (vproc256_2 b)
      else if vproc256_3 b \<noteq> 0 then 192 + builtin_ffs (vproc256_3 b)
      else 0)"

definition kaapi_bitmap_value_set_low_bits_256 :: "kaapi_bitmap_value256 \<Rightarrow> nat \<Rightarrow> kaapi_bitmap_value256" where
  "kaapi_bitmap_value_set_low_bits_256 b i =
     (if i < 64 then b\<lparr>vproc256_0 := push_bit i 1 - 1,
       vproc256_1 := 0,
       vproc256_2 := 0,
       vproc256_3 := 0\<rparr>
      else if i < 128 then b\<lparr>vproc256_0 := NOT 0,
       vproc256_1 := push_bit (i - 64) 1 - 1,
       vproc256_2 := 0,
       vproc256_3 := 0\<rparr>
      else if i < 192 then b\<lparr>vproc256_0 := NOT 0,
       vproc256_1 := NOT 0,
       vproc256_2 := push_bit (i - 128) 1 - 1,
       vproc256_3 := 0\<rparr>
      else if i = 256 then b\<lparr>vproc256_0 := NOT 0,
       vproc256_1 := NOT 0,
       vproc256_2 := NOT 0,
       vproc256_3 := NOT 0\<rparr>
      else b\<lparr>vproc256_0 := NOT 0,
       vproc256_1 := NOT 0,
       vproc256_2 := NOT 0,
       vproc256_3 := push_bit (i - 192) 1 - 1\<rparr>)"

subsection \<open>Shared bitmaps\<close>

definition kaapi_bitmap_clear_256 :: "kaapi_bitmap256 \<Rightarrow> kaapi_bitmap256" where
  "kaapi_bitmap_clear_256 b = b\<lparr>proc256_0 := 0,
       proc256_1 := 0,
       proc256_2 := 0,
       proc256_3 := 0\<rparr>"

definition kaapi_bitmap_empty_256 :: "kaapi_bitmap256 \<Rightarrow> bool" where
  "kaapi_bitmap_empty_256 b \<longleftrightarrow> proc256_0 b = 0 \<and> proc256_1 b = 0 \<and> proc256_2 b = 0 \<and> proc256_3 b = 0"

definition kaapi_bitmap_init_256 :: "kaapi_bitmap256 \<Rightarrow> kaapi_bitmap_value256 \<Rightarrow> int \<times> kaapi_bitmap256" where
  "kaapi_bitmap_init_256 b v =
     (0, b\<lparr>proc256_0 := vproc256_0 v,
       proc256_1 := vproc256_1 v,
       proc256_2 := vproc256_2 v,
       proc256_3 := vproc256_3 v\<rparr>)"

definition kaapi_bitmap_swap0_256 :: "kaapi_bitmap256 \<Rightarrow> kaapi_bitmap_value256 \<Rightarrow> kaapi_bitmap256 \<times> kaapi_bitmap_value256" where
  "kaapi_bitmap_swap0_256 b v =
     (b\<lparr>proc256_0 := proc256_0 b AND 0,
       proc256_1 := proc256_1 b AND 0,
       proc256_2 := proc256_2 b AND 0,
       proc256_3 := proc256_3 b AND 0\<rparr>,
      v\<lparr>vproc256_0 := proc256_0 b,
       vproc256_1 := proc256_1 b,
       vproc256_2 := proc256_2 b,
       vproc256_3 := proc256_3 b\<rparr>)"

definition kaapi_bitmap_or0_256 :: "kaapi_bitmap256 \<Rightarrow> kaapi_bitmap_value256 \<Rightarrow> kaapi_bitmap256 \<times> kaapi_bitmap_value256" where
  "kaapi_bitmap_or0_256 b v =
     (b\<lparr>proc256_0 := proc256_0 b AND 0,
       proc256_1 := proc256_1 b AND 0,
       proc256_2 := proc256_2 b AND 0,
       proc256_3 := proc256_3 b AND 0\<rparr>,
      v\<lparr>vproc256_0 := vproc256_0 v OR proc256_0 b,
       vproc256_1 := vproc256_1 v OR proc256_1 b,
       vproc256_2 := vproc256_2 v OR proc256_2 b,
       vproc256_3 := vproc256_3 v OR proc256_3 b\<rparr>)"

definition kaapi_bitmap_and_256 :: "kaapi_bitmap_value256 \<Rightarrow> kaapi_bitmap256 \<Rightarrow> kaapi_bitmap_value256 \<Rightarrow> kaapi_bitmap_value256 \<times> kaapi_bitmap256" where
  "kaapi_bitmap_and_256 fu b v =
     (fu\<lparr>vproc256_0 := proc256_0 b,
       vproc256_1 := proc256_1 b,
       vproc256_2 := proc256_2 b,
       vproc256_3 := proc256_3 b\<rparr>,
      b\<lparr>proc256_0 := proc256_0 b AND vproc256_0 v,
       proc256_1 := proc256_1 b AND vproc256_1 v,
       proc256_2 := proc256_2 b AND vproc256_2 v,
       proc256_3 := proc256_3 b AND vproc256_3 v\<rparr>)"

definition kaapi_bitmap_set_256 :: "kaapi_bitmap256 \<Rightarrow> nat \<Rightarrow> int \<times> kaapi_bitmap256" where
  "kaapi_bitmap_set_256 b i =
     (1, if i < 64 then b\<lparr>proc256_0 := proc256_0 b OR push_bit i 1\<rparr>
      else if i < 128 then b\<lparr>proc256_1 := proc256_1 b OR push_bit (i - 64) 1\<rparr>
      else if i < 192 then b\<lparr>proc256_2 := proc256_2 b OR push_bit (i - 128) 1\<rparr>
      else b\<lparr>proc256_3 := proc256_3 b OR push_bit (i - 192) 1\<rparr>)"

definition kaapi_bitmap_get_256 :: "kaapi_bitmap256 \<Rightarrow> nat \<Rightarrow> bool" where
  "kaapi_bitmap_get_256 b i =
     kaapi_bitmap_value_get_256 \<lparr>vproc256_0 = proc256_0 b, vproc256_1 = proc256_1 b, vproc256_2 = proc256_2 b, vproc256_3 = proc256_3 b\<rparr> i"

definition kaapi_bitmap_unset_256 :: "kaapi_bitmap256 \<Rightarrow> nat \<Rightarrow> int \<times> kaapi_bitmap256" where
  "kaapi_bitmap_unset_256 b i =
     (if i < 64 then (if (proc256_0 b AND push_bit i 1) \<noteq> 0 then 0 else - 1,
         b\<lparr>proc256_0 := proc256_0 b AND NOT (push_bit i 1)\<rparr>)
      else if i < 128 then (if (proc256_1 b AND push_bit (i - 64) 1) \<noteq> 0 then 0 else - 1,
         b\<lparr>proc256_1 := proc256_1 b AND NOT (push_bit (i - 64) 1)\<rparr>)
      else if i < 192 then (if (proc256_2 b AND push_bit (i - 128) 1) \<noteq> 0 then 0 else - 1,
         b\<lparr>proc256_2 := proc256_2 b AND NOT (push_bit (i - 128) 1)\<rparr>)
      else (if (proc256_3 b AND push_bit (i - 192) 1) \<noteq> 0 then 0 else - 1,
         b\<lparr>proc256_3 := proc256_3 b AND NOT (push_bit (i - 192) 1)\<rparr>))"

text \<open>The code adds up the first three words only.\<close>

definition kaapi_bitmap_count_256 :: "kaapi_bitmap256 \<Rightarrow> nat" where
  "kaapi_bitmap_count_256 b =
     builtin_popcount (proc256_0 b) + builtin_popcount (proc256_1 b) + builtin_popcount (proc256_2 b)"

definition kaapi_bitmap_first1_256 :: "kaapi_bitmap256 \<Rightarrow> nat" where
  "kaapi_bitmap_first1_256 b =
     (if proc256_0 b \<noteq> 0 then builtin_ffs (proc256_0 b)
      else if proc256_1 b \<noteq> 0 then 64 + builtin_ffs (proc256_1 b)
      else if proc256_2 b \<noteq> 0 then 128 + builtin_ffs (proc256_2 b)
      else if proc256_3 b \<noteq> 0 then 192 + builtin_ffs (proc256_3 b)
      else 0)"

text \<open>\<^verbatim>\<open>kaapi_bitmap_unset_64((kaapi_bitmap64_t*)&b->proc256[k], i)\<close>: the 256-bit bitmap as an array of
  64-bit ones.\<close>

definition unset_word_256 :: "kaapi_bitmap256 \<Rightarrow> nat \<Rightarrow> nat \<Rightarrow> int \<times> kaapi_bitmap256" where
  "unset_word_256 b k i =
     (if k = 0 then (case kaapi_bitmap_unset_64 \<lparr>proc64 = proc256_0 b\<rparr> i of
               (r, w) \<Rightarrow> (r, b\<lparr>proc256_0 := proc64 w\<rparr>))
      else if k = 1 then (case kaapi_bitmap_unset_64 \<lparr>proc64 = proc256_1 b\<rparr> i of
               (r, w) \<Rightarrow> (r, b\<lparr>proc256_1 := proc64 w\<rparr>))
      else if k = 2 then (case kaapi_bitmap_unset_64 \<lparr>proc64 = proc256_2 b\<rparr> i of
               (r, w) \<Rightarrow> (r, b\<lparr>proc256_2 := proc64 w\<rparr>))
      else (case kaapi_bitmap_unset_64 \<lparr>proc64 = proc256_3 b\<rparr> i of
               (r, w) \<Rightarrow> (r, b\<lparr>proc256_3 := proc64 w\<rparr>)))"

text \<open>Every access to a word is one atomic step: \<open>env k\<close> is what the other threads do to the bitmap
  before the \<open>k\<close>-th access that follows the first read.\<close>

text \<open>The test of the last word; the code also reaches it when unsetting a bit of word 2 fails.\<close>

definition first1_and_zero_last_256 :: "(nat \<Rightarrow> kaapi_bitmap256 \<Rightarrow> kaapi_bitmap256) \<Rightarrow> kaapi_bitmap256 \<Rightarrow> nat \<times> kaapi_bitmap256" where
  "first1_and_zero_last_256 env b =
     (let fb = builtin_ffs (proc256_3 b)
      in if fb \<noteq> 0 then
           (case unset_word_256 (env 4 b) 3 (fb - 1) of
              (r, b') \<Rightarrow> if r = 0 then (192 + fb, b') else (0, b'))
         else (0, b))"

definition kaapi_bitmap_first1_and_zero_256 :: "(nat \<Rightarrow> kaapi_bitmap256 \<Rightarrow> kaapi_bitmap256) \<Rightarrow> kaapi_bitmap256 \<Rightarrow> nat \<times> kaapi_bitmap256" where
  "kaapi_bitmap_first1_and_zero_256 env b =
     (let fb = builtin_ffs (proc256_0 b)
      in if fb \<noteq> 0 then
           (case unset_word_256 (env 0 b) 0 (fb - 1) of
              (r, b') \<Rightarrow> if r = 0 then (fb, b') else (0, b'))
         else (let b = env 0 b
      in let fb = builtin_ffs (proc256_1 b)
      in if fb \<noteq> 0 then
           (case unset_word_256 (env 1 b) 1 (fb - 1) of
              (r, b') \<Rightarrow> if r = 0 then (64 + fb, b') else (0, b'))
         else (let b = env 1 b
      in let fb = builtin_ffs (proc256_2 b)
      in if fb \<noteq> 0 then
           (case unset_word_256 (env 2 b) 2 (fb - 1) of
              (r, b') \<Rightarrow> if r = 0 then (128 + fb, b') else first1_and_zero_last_256 env (env 3 b'))
         else first1_and_zero_last_256 env (env 2 b))))"

definition kaapi_bitmap_set_low_bits_256 :: "kaapi_bitmap256 \<Rightarrow> nat \<Rightarrow> kaapi_bitmap256" where
  "kaapi_bitmap_set_low_bits_256 b i =
     (if i < 64 then b\<lparr>proc256_0 := push_bit i 1 - 1,
       proc256_1 := 0,
       proc256_2 := 0,
       proc256_3 := 0\<rparr>
      else if i < 128 then b\<lparr>proc256_0 := NOT 0,
       proc256_1 := push_bit (i - 64) 1 - 1,
       proc256_2 := 0,
       proc256_3 := 0\<rparr>
      else if i < 192 then b\<lparr>proc256_0 := NOT 0,
       proc256_1 := NOT 0,
       proc256_2 := push_bit (i - 128) 1 - 1,
       proc256_3 := 0\<rparr>
      else b\<lparr>proc256_0 := NOT 0,
       proc256_1 := NOT 0,
       proc256_2 := NOT 0,
       proc256_3 := push_bit (i - 192) 1 - 1\<rparr>)"

subsection \<open>The 256-bit functions meet the contract\<close>

definition bits256 :: "kaapi_bitmap_value256 \<Rightarrow> nat set" where
  "bits256 v = words_bits [vproc256_0 v, vproc256_1 v, vproc256_2 v, vproc256_3 v]"

definition abits256 :: "kaapi_bitmap256 \<Rightarrow> nat set" where
  "abits256 b = words_bits [proc256_0 b, proc256_1 b, proc256_2 b, proc256_3 b]"

lemma value256_simple:
  "bits256 v \<subseteq> {..<256}"
  "bits256 (kaapi_bitmap_value_clear_256 v) = {}"
  "bits256 (kaapi_bitmap_value_full_256 v) = {..<256}"
  "kaapi_bitmap_value_empty_256 v \<longleftrightarrow> bits256 v = {}"
  "kaapi_bitmap_value_count_256 v = card (bits256 v)"
  "bits256 (kaapi_bitmap_value_copy_256 u v) = bits256 v"
  "bits256 (kaapi_bitmap_value_neg_256 u v) = {..<256} - bits256 v"
  "bits256 (kaapi_bitmap_value_or_256 u v) = bits256 u \<union> bits256 v"
  "bits256 (kaapi_bitmap_value_and_256 u v) = bits256 u \<inter> bits256 v"
  using words_bits_less [of "[vproc256_0 v, vproc256_1 v, vproc256_2 v, vproc256_3 v]"]
    words_bits_full [of 4] words_bits_neg [of "[vproc256_0 v, vproc256_1 v, vproc256_2 v, vproc256_3 v]"]
  by (simp_all add: bits256_def words_bits_empty card_words_bits
      kaapi_bitmap_value_clear_256_def kaapi_bitmap_value_full_256_def
      kaapi_bitmap_value_empty_256_def kaapi_bitmap_value_count_256_def
      kaapi_bitmap_value_copy_256_def kaapi_bitmap_value_neg_256_def
      kaapi_bitmap_value_or_256_def kaapi_bitmap_value_and_256_def
      flip: words_bits_or words_bits_and del: words_bits.simps)

lemma bits256_set:
  "i < 256 \<Longrightarrow> bits256 (kaapi_bitmap_value_set_256 b i) = insert i (bits256 b)"
  using words_bits_put_at [of 0 i "[vproc256_0 b, vproc256_1 b, vproc256_2 b, vproc256_3 b]"]
    words_bits_put_at [of 1 i "[vproc256_0 b, vproc256_1 b, vproc256_2 b, vproc256_3 b]"]
    words_bits_put_at [of 2 i "[vproc256_0 b, vproc256_1 b, vproc256_2 b, vproc256_3 b]"]
    words_bits_put_at [of 3 i "[vproc256_0 b, vproc256_1 b, vproc256_2 b, vproc256_3 b]"]
  by (simp add: bits256_def kaapi_bitmap_value_set_256_def del: words_bits.simps)

lemma bits256_get:
  "i < 256 \<Longrightarrow> kaapi_bitmap_value_get_256 b i \<longleftrightarrow> i \<in> bits256 b"
  using words_bits_get_at [of 0 i "[vproc256_0 b, vproc256_1 b, vproc256_2 b, vproc256_3 b]"]
    words_bits_get_at [of 1 i "[vproc256_0 b, vproc256_1 b, vproc256_2 b, vproc256_3 b]"]
    words_bits_get_at [of 2 i "[vproc256_0 b, vproc256_1 b, vproc256_2 b, vproc256_3 b]"]
    words_bits_get_at [of 3 i "[vproc256_0 b, vproc256_1 b, vproc256_2 b, vproc256_3 b]"]
  by (simp add: bits256_def kaapi_bitmap_value_get_256_def bitmem del: words_bits.simps mem_words_bits_Cons)

lemma bits256_unset:
  "i < 256 \<Longrightarrow> bits256 (kaapi_bitmap_value_unset_256 b i) = bits256 b - {i}"
  using words_bits_unset_at [of 0 i "[vproc256_0 b, vproc256_1 b, vproc256_2 b, vproc256_3 b]"]
    words_bits_unset_at [of 1 i "[vproc256_0 b, vproc256_1 b, vproc256_2 b, vproc256_3 b]"]
    words_bits_unset_at [of 2 i "[vproc256_0 b, vproc256_1 b, vproc256_2 b, vproc256_3 b]"]
    words_bits_unset_at [of 3 i "[vproc256_0 b, vproc256_1 b, vproc256_2 b, vproc256_3 b]"]
  by (simp add: bits256_def kaapi_bitmap_value_unset_256_def del: words_bits.simps)

lemma bits256_first1_and_zero:
  "bits256 (snd (kaapi_bitmap_value_first1_and_zero_256 b)) = bits256 b - {fst (kaapi_bitmap_value_first1_and_zero_256 b) - 1}"
  using words_bits_unset_ffs [of 0 "[vproc256_0 b, vproc256_1 b, vproc256_2 b, vproc256_3 b]"]
    words_bits_unset_ffs [of 1 "[vproc256_0 b, vproc256_1 b, vproc256_2 b, vproc256_3 b]"]
    words_bits_unset_ffs [of 2 "[vproc256_0 b, vproc256_1 b, vproc256_2 b, vproc256_3 b]"]
    words_bits_unset_ffs [of 3 "[vproc256_0 b, vproc256_1 b, vproc256_2 b, vproc256_3 b]"]
    words_bits_empty [of "[vproc256_0 b, vproc256_1 b, vproc256_2 b, vproc256_3 b]"]
  by (cases "vproc256_0 b = 0"; cases "vproc256_1 b = 0"; cases "vproc256_2 b = 0"; cases "vproc256_3 b = 0";
      simp add: bits256_def kaapi_bitmap_value_first1_and_zero_256_def Let_def
        del: words_bits.simps)

lemma bits256_ffs:
  "is_ffs (bits256 b) (fst (kaapi_bitmap_value_first1_and_zero_256 b))"
  "is_ffs (bits256 b) (kaapi_bitmap_value_first1_256 b)"
  by (simp_all add: bits256_def kaapi_bitmap_value_first1_and_zero_256_def kaapi_bitmap_value_first1_256_def
      Let_def is_ffs_words del: words_bits.simps)

lemma bits256_low:
  "i \<le> 256 \<Longrightarrow> bits256 (kaapi_bitmap_value_set_low_bits_256 b i) = {..<i}"
  using words_bits_low_at [of 0 i 3]
    words_bits_low_at [of 1 i 2]
    words_bits_low_at [of 2 i 1]
    words_bits_low_at [of 3 i 0] words_bits_full [of 4]
  by (simp add: bits256_def kaapi_bitmap_value_set_low_bits_256_def del: words_bits.simps)

interpretation bv256: bitmap_value_unset 256 bits256
  kaapi_bitmap_value_clear_256 kaapi_bitmap_value_full_256 kaapi_bitmap_value_empty_256
  kaapi_bitmap_value_count_256 kaapi_bitmap_value_set_256 kaapi_bitmap_value_get_256
  kaapi_bitmap_value_copy_256 kaapi_bitmap_value_neg_256 kaapi_bitmap_value_or_256
  kaapi_bitmap_value_and_256 kaapi_bitmap_value_first1_and_zero_256
  kaapi_bitmap_value_first1_256 kaapi_bitmap_value_set_low_bits_256
  kaapi_bitmap_value_unset_256
  by unfold_locales
    (simp_all add: value256_simple bits256_set bits256_get bits256_unset bits256_first1_and_zero bits256_ffs bits256_low
      del: One_nat_def)

lemma atomic256_simple:
  "abits256 b \<subseteq> {..<256}"
  "abits256 (kaapi_bitmap_clear_256 b) = {}"
  "kaapi_bitmap_empty_256 b \<longleftrightarrow> abits256 b = {}"
  "abits256 (snd (kaapi_bitmap_init_256 b v)) = bits256 v"
  "abits256 (fst (kaapi_bitmap_swap0_256 b v)) = {} \<and> bits256 (snd (kaapi_bitmap_swap0_256 b v)) = abits256 b"
  "abits256 (fst (kaapi_bitmap_or0_256 b v)) = {} \<and> bits256 (snd (kaapi_bitmap_or0_256 b v)) = bits256 v \<union> abits256 b"
  "bits256 (fst (kaapi_bitmap_and_256 u b v)) = abits256 b \<and>
   abits256 (snd (kaapi_bitmap_and_256 u b v)) = abits256 b \<inter> bits256 v"
  using words_bits_less [of "[proc256_0 b, proc256_1 b, proc256_2 b, proc256_3 b]"]
  by (simp_all add: bits256_def abits256_def words_bits_empty
      kaapi_bitmap_clear_256_def kaapi_bitmap_empty_256_def kaapi_bitmap_init_256_def
      kaapi_bitmap_swap0_256_def kaapi_bitmap_or0_256_def kaapi_bitmap_and_256_def
      flip: words_bits_or words_bits_and del: words_bits.simps)

lemma abits256_set:
  "i < 256 \<Longrightarrow> abits256 (snd (kaapi_bitmap_set_256 b i)) = insert i (abits256 b)"
  using words_bits_put_at [of 0 i "[proc256_0 b, proc256_1 b, proc256_2 b, proc256_3 b]"]
    words_bits_put_at [of 1 i "[proc256_0 b, proc256_1 b, proc256_2 b, proc256_3 b]"]
    words_bits_put_at [of 2 i "[proc256_0 b, proc256_1 b, proc256_2 b, proc256_3 b]"]
    words_bits_put_at [of 3 i "[proc256_0 b, proc256_1 b, proc256_2 b, proc256_3 b]"]
  by (simp add: abits256_def kaapi_bitmap_set_256_def del: words_bits.simps)

lemma abits256_get:
  "i < 256 \<Longrightarrow> kaapi_bitmap_get_256 b i \<longleftrightarrow> i \<in> abits256 b"
  by (simp add: kaapi_bitmap_get_256_def bits256_get) (simp add: bits256_def abits256_def)

lemma abits256_unset:
  "i < 256 \<Longrightarrow> abits256 (snd (kaapi_bitmap_unset_256 b i)) = abits256 b - {i}"
  using words_bits_unset_at [of 0 i "[proc256_0 b, proc256_1 b, proc256_2 b, proc256_3 b]"]
    words_bits_unset_at [of 1 i "[proc256_0 b, proc256_1 b, proc256_2 b, proc256_3 b]"]
    words_bits_unset_at [of 2 i "[proc256_0 b, proc256_1 b, proc256_2 b, proc256_3 b]"]
    words_bits_unset_at [of 3 i "[proc256_0 b, proc256_1 b, proc256_2 b, proc256_3 b]"]
  by (simp add: abits256_def kaapi_bitmap_unset_256_def del: words_bits.simps)

lemma kaapi_bitmap_unset_256_ret:
  "i < 256 \<Longrightarrow> fst (kaapi_bitmap_unset_256 b i) = (if i \<in> abits256 b then 0 else - 1)"
  using words_bits_get_at [of 0 i "[proc256_0 b, proc256_1 b, proc256_2 b, proc256_3 b]"]
    words_bits_get_at [of 1 i "[proc256_0 b, proc256_1 b, proc256_2 b, proc256_3 b]"]
    words_bits_get_at [of 2 i "[proc256_0 b, proc256_1 b, proc256_2 b, proc256_3 b]"]
    words_bits_get_at [of 3 i "[proc256_0 b, proc256_1 b, proc256_2 b, proc256_3 b]"]
  by (simp add: abits256_def kaapi_bitmap_unset_256_def bitmem del: words_bits.simps mem_words_bits_Cons)

lemma kaapi_bitmap_first1_256_ffs: "is_ffs (abits256 b) (kaapi_bitmap_first1_256 b)"
  by (simp add: abits256_def kaapi_bitmap_first1_256_def is_ffs_words del: words_bits.simps)

lemma unset_word_256:
  assumes "k < 4" and "i < 64"
  shows "abits256 (snd (unset_word_256 b k i)) = abits256 b - {64 * k + i}"
    and "fst (unset_word_256 b k i) = (if 64 * k + i \<in> abits256 b then 0 else - 1)"
proof -
  have k: "k = 0 \<or> k = 1 \<or> k = 2 \<or> k = 3"
    using assms(1) by linarith
  show "abits256 (snd (unset_word_256 b k i)) = abits256 b - {64 * k + i}"
    using k words_bits_unset [of k "[proc256_0 b, proc256_1 b, proc256_2 b, proc256_3 b]" i] assms(2)
    by (elim disjE; simp add: abits256_def unset_word_256_def kaapi_bitmap_unset_64_def Let_def
        del: words_bits.simps)
  show "fst (unset_word_256 b k i) = (if 64 * k + i \<in> abits256 b then 0 else - 1)"
    using k words_bits_get [of k "[proc256_0 b, proc256_1 b, proc256_2 b, proc256_3 b]" i] assms(2)
    by (elim disjE; simp add: abits256_def unset_word_256_def kaapi_bitmap_unset_64_def Let_def bitmem
        del: words_bits.simps mem_words_bits_Cons)
qed

text \<open>Whatever the other threads do between the accesses, a call that returns \<open>n + 1\<close> has cleared bit \<open>n\<close>
  in the state \<open>c\<close> its fetch-and-and found, where the bit was set, and nothing else; one that returns
  0 has changed nothing after the last interference.\<close>

lemma unset_word_256_claim:
  "(case unset_word_256 c k (builtin_ffs (w :: uint64) - 1) of
     (r, b') \<Rightarrow> if r = 0 then (t, b') else (0, b')) = (Suc m, b') \<Longrightarrow>
   k < 4 \<Longrightarrow> w \<noteq> 0 \<Longrightarrow> t = 64 * k + builtin_ffs w \<Longrightarrow> \<exists>c. m \<in> abits256 c \<and> abits256 b' = abits256 c - {m}"
  using unset_word_256 [of k "builtin_ffs w - 1" c] builtin_ffs64_less [of w] builtin_ffs_gt_0 [of w]
  by (auto simp: add_builtin_ffs split: prod.splits if_splits intro!: exI [of _ c])

lemma first1_and_zero_last_256_claim:
  "first1_and_zero_last_256 env b = (Suc m, b') \<Longrightarrow>
   \<exists>c. m \<in> abits256 c \<and> abits256 b' = abits256 c - {m}"
  using unset_word_256_claim [where c = "env 4 b" and k = 3 and w = "proc256_3 b"
      and t = "192 + builtin_ffs (proc256_3 b)" and m = m and b' = b']
  by (simp add: first1_and_zero_last_256_def Let_def split: if_splits)

lemma unset_word_256_claim_last:
  "(case unset_word_256 c 2 (builtin_ffs (w :: uint64) - 1) of
     (r, b') \<Rightarrow> if r = 0 then (128 + builtin_ffs w, b')
               else first1_and_zero_last_256 env (env 3 b')) = (Suc m, b') \<Longrightarrow>
   w \<noteq> 0 \<Longrightarrow> \<exists>c. m \<in> abits256 c \<and> abits256 b' = abits256 c - {m}"
  using unset_word_256_claim [where c = c and k = 2 and w = w and t = "128 + builtin_ffs w"
      and m = m and b' = b']
  by (auto split: prod.splits if_splits dest: first1_and_zero_last_256_claim)

lemma kaapi_bitmap_first1_and_zero_256_claim:
  "kaapi_bitmap_first1_and_zero_256 env b = (Suc m, b') \<Longrightarrow>
   \<exists>c. m \<in> abits256 c \<and> abits256 b' = abits256 c - {m}"
  using unset_word_256_claim [where c = "env 0 b" and k = 0 and w = "proc256_0 b"
      and t = "builtin_ffs (proc256_0 b)" and m = m and b' = b']
    unset_word_256_claim [where c = "env 1 (env 0 b)" and k = 1 and w = "proc256_1 (env 0 b)"
      and t = "64 + builtin_ffs (proc256_1 (env 0 b))" and m = m and b' = b']
    unset_word_256_claim_last [where c = "env 2 (env 1 (env 0 b))" and w = "proc256_2 (env 1 (env 0 b))"
      and env = env and m = m and b' = b']
    first1_and_zero_last_256_claim [where env = env and b = "env 2 (env 1 (env 0 b))" and m = m and b' = b']
  unfolding kaapi_bitmap_first1_and_zero_256_def Let_def
  by (simp split: if_splits)

lemma kaapi_bitmap_first1_and_zero_256_alone_ffs:
  "is_ffs (abits256 b) (fst (kaapi_bitmap_first1_and_zero_256 (\<lambda>_ b. b) b))"
  by (simp add: abits256_def kaapi_bitmap_first1_and_zero_256_def first1_and_zero_last_256_def unset_word_256_def
      kaapi_bitmap_unset_64_def Let_def bitmem is_ffs_words del: words_bits.simps mem_words_bits_Cons)

lemma kaapi_bitmap_first1_and_zero_256_alone:
  "abits256 (snd (kaapi_bitmap_first1_and_zero_256 (\<lambda>_ b. b) b)) =
   abits256 b - {fst (kaapi_bitmap_first1_and_zero_256 (\<lambda>_ b. b) b) - 1}"
  using words_bits_unset_ffs [of 0 "[proc256_0 b, proc256_1 b, proc256_2 b, proc256_3 b]"]
    words_bits_unset_ffs [of 1 "[proc256_0 b, proc256_1 b, proc256_2 b, proc256_3 b]"]
    words_bits_unset_ffs [of 2 "[proc256_0 b, proc256_1 b, proc256_2 b, proc256_3 b]"]
    words_bits_unset_ffs [of 3 "[proc256_0 b, proc256_1 b, proc256_2 b, proc256_3 b]"]
    words_bits_empty [of "[proc256_0 b, proc256_1 b, proc256_2 b, proc256_3 b]"]
  by (cases "proc256_0 b = 0"; cases "proc256_1 b = 0"; cases "proc256_2 b = 0"; cases "proc256_3 b = 0";
      simp add: abits256_def kaapi_bitmap_first1_and_zero_256_def first1_and_zero_last_256_def unset_word_256_def
        kaapi_bitmap_unset_64_def Let_def bitmem del: words_bits.simps mem_words_bits_Cons)

interpretation ba256: bitmap_atomic 256 abits256 bits256
  kaapi_bitmap_clear_256 kaapi_bitmap_empty_256 kaapi_bitmap_init_256 kaapi_bitmap_swap0_256
  kaapi_bitmap_or0_256 kaapi_bitmap_and_256 kaapi_bitmap_set_256 kaapi_bitmap_get_256
  kaapi_bitmap_unset_256 kaapi_bitmap_first1_256
  "kaapi_bitmap_first1_and_zero_256 (\<lambda>_ b. b)"
  by unfold_locales
    (simp_all add: atomic256_simple abits256_set abits256_get abits256_unset kaapi_bitmap_unset_256_ret
      kaapi_bitmap_first1_256_ffs kaapi_bitmap_first1_and_zero_256_alone
      kaapi_bitmap_first1_and_zero_256_alone_ffs del: One_nat_def)

end
