(* ===== verification/Bitmap_Props.thy ===== *)
theory Bitmap_Props
  imports Bitmap128 Bitmap192 Bitmap256
begin

text \<open>
  What the bitmap functions of \<^verbatim>\<open>src/machine/mt/kaapi_mt_bitmap.h\<close> promise to the rest of the runtime,
  read off the interpretations of the contract: the 256-bit operations are the operations on sets of
  processor numbers, the scanning loop enumerates a set in order, a bit is claimed by one thread at
  most; and what the three functions do that fall outside the contract.
\<close>

section \<open>The operations as operations on sets\<close>

lemma words4:
  "words_bits [a, b, c, d] = words_bits [a, b, c] \<union> {n. 192 \<le> n \<and> n < 256 \<and> bit d (n - 192)}"
proof (rule set_eqI)
  fix n
  show "n \<in> words_bits [a, b, c, d] \<longleftrightarrow> n \<in> words_bits [a, b, c] \<union> {n. 192 \<le> n \<and> n < 256 \<and> bit d (n - 192)}"
    using less_diff_conv2 [of 64 n 64] less_diff_conv2 [of 128 n 64] less_diff_conv2 [of 192 n 64]
    by (simp add: mem_words_bits_Cons mem_words_bits_Nil del: words_bits.simps) (auto; linarith)
qed

text \<open>C37: on the 256-processor build every operation on a plain bitmap value is the set operation it is
  named after, for all bit numbers below 256 (up to 256 for the number of low bits): clear, full, empty, count, set, get,
  unset, copy, neg, or, and, \<^verbatim>\<open>set_low_bits\<close>; first1 gives the least member plus one, or 0 for the empty set,
  and \<^verbatim>\<open>first1_and_zero\<close> gives the same and removes that member.\<close>

theorem bitmap_value_256_is_set:
  assumes "i < 256" and "k \<le> 256"
  shows "bits256 (kaapi_bitmap_value_clear_256 v) = {}
    \<and> bits256 (kaapi_bitmap_value_full_256 v) = {..<256}
    \<and> (kaapi_bitmap_value_empty_256 v \<longleftrightarrow> bits256 v = {})
    \<and> kaapi_bitmap_value_count_256 v = card (bits256 v)
    \<and> bits256 (kaapi_bitmap_value_set_256 v i) = insert i (bits256 v)
    \<and> (kaapi_bitmap_value_get_256 v i \<longleftrightarrow> i \<in> bits256 v)
    \<and> bits256 (kaapi_bitmap_value_unset_256 v i) = bits256 v - {i}
    \<and> bits256 (kaapi_bitmap_value_copy_256 u v) = bits256 v
    \<and> bits256 (kaapi_bitmap_value_neg_256 u v) = {..<256} - bits256 v
    \<and> bits256 (kaapi_bitmap_value_or_256 u v) = bits256 u \<union> bits256 v
    \<and> bits256 (kaapi_bitmap_value_and_256 u v) = bits256 u \<inter> bits256 v
    \<and> bits256 (kaapi_bitmap_value_set_low_bits_256 v k) = {..<k}
    \<and> kaapi_bitmap_value_first1_256 v = (if bits256 v = {} then 0 else Suc (Min (bits256 v)))
    \<and> fst (kaapi_bitmap_value_first1_and_zero_256 v) = (if bits256 v = {} then 0 else Suc (Min (bits256 v)))
    \<and> bits256 (snd (kaapi_bitmap_value_first1_and_zero_256 v)) = (if bits256 v = {} then {} else bits256 v - {Min (bits256 v)})"
proof -
  note f = bv256.first1_ffs [of v] bv256.first_zero_ffs [of v] bv256.first_zero_bits [of v]
  show ?thesis using assms f bv256.value_simps bv256.bits_unset by (auto simp: is_ffs_def)
qed

theorem bitmap_value_256_is_set_witness:
  "bits256 (kaapi_bitmap_value_set_256 \<lparr>vproc256_0 = 1, vproc256_1 = 0, vproc256_2 = 0, vproc256_3 = 0\<rparr> 200) =
   insert 200 (bits256 \<lparr>vproc256_0 = 1, vproc256_1 = 0, vproc256_2 = 0, vproc256_3 = 0\<rparr>)"
  using bitmap_value_256_is_set [of 200 256 "\<lparr>vproc256_0 = 1, vproc256_1 = 0, vproc256_2 = 0, vproc256_3 = 0\<rparr>"]
  by simp

text \<open>The loop \<^verbatim>\<open>while ((i = kaapi_bitmap_value_first1_and_zero(&b)) != 0)\<close> over a bitmap of 256 bits ends
  after at most 256 turns, and its body sees each set bit exactly once, in increasing order.\<close>

theorem first1_and_zero_256_enumerates:
  "bitmap_loop kaapi_bitmap_value_first1_and_zero_256 257 v = Some (sorted_list_of_set (bits256 v))"
  using bv256.bitmap_loop_width [of v] by simp

section \<open>Claiming a bit of a shared bitmap\<close>

text \<open>Whatever the other threads do to a shared 256-bit bitmap between the atomic accesses of
  \<^verbatim>\<open>kaapi_bitmap_first1_and_zero_256\<close>, a call that returns \<open>m + 1\<close> has found bit \<open>m\<close> set in the state
  of its fetch-and-and, and has cleared that bit and no other one: two calls never claim the same bit.\<close>

theorem first1_and_zero_256_claims_set_bit:
  assumes "kaapi_bitmap_first1_and_zero_256 env b = (Suc m, b')"
  shows "\<exists>c. m \<in> abits256 c \<and> abits256 b' = abits256 c - {m}"
  using kaapi_bitmap_first1_and_zero_256_claim assms .

theorem first1_and_zero_256_claims_set_bit_witness:
  "\<exists>c. 64 \<in> abits256 c \<and>
     abits256 (snd (kaapi_bitmap_first1_and_zero_256
       (\<lambda>k b. b\<lparr>proc256_2 := 5\<rparr>) \<lparr>proc256_0 = 0, proc256_1 = 1, proc256_2 = 0, proc256_3 = 0\<rparr>)) = abits256 c - {64}"
proof -
  have f: "builtin_ffs (1 :: uint64) = Suc 0" "builtin_ffs (0 :: uint64) = 0" by code_simp+
  have "kaapi_bitmap_first1_and_zero_256 (\<lambda>k b. b\<lparr>proc256_2 := 5\<rparr>)
      \<lparr>proc256_0 = 0, proc256_1 = 1, proc256_2 = 0, proc256_3 = 0\<rparr> =
      (Suc 64, \<lparr>proc256_0 = 0, proc256_1 = 0, proc256_2 = 5, proc256_3 = 0\<rparr>)"
    by (simp add: kaapi_bitmap_first1_and_zero_256_def unset_word_256_def kaapi_bitmap_unset_64_def f Let_def)
  from first1_and_zero_256_claims_set_bit [OF this] this show ?thesis by simp
qed

section \<open>Functions outside the contract\<close>

text \<open>What \<^verbatim>\<open>kaapi_bitmap_value_unset_192\<close> does to the set: below 128 it removes bit \<open>i\<close>; from 128 on it
  removes bit \<open>i - 64\<close> and leaves bit \<open>i\<close> as it was.\<close>

theorem unset_192_removes:
  assumes "i < 192"
  shows "bits192 (kaapi_bitmap_value_unset_192 b i) = bits192 b - {if i < 128 then i else i - 64}"
  using words_bits_unset_at [of 0 i "[vproc192_0 b, vproc192_1 b, vproc192_2 b]"]
    words_bits_unset_at [of 1 i "[vproc192_0 b, vproc192_1 b, vproc192_2 b]"]
    words_bits_unset [of 1 "[vproc192_0 b, vproc192_1 b, vproc192_2 b]" "i - 128"] assms
  by (simp add: bits192_def kaapi_bitmap_value_unset_192_def del: words_bits.simps)

theorem unset_192_removes_witness:
  "130 \<in> bits192 (kaapi_bitmap_value_unset_192 \<lparr>vproc192_0 = 0, vproc192_1 = 4, vproc192_2 = 4\<rparr> 130)"
proof -
  have "130 \<in> bits192 \<lparr>vproc192_0 = 0, vproc192_1 = 4, vproc192_2 = 4\<rparr>"
    by (simp add: bits192_def mem_words_bits_Cons bit_numeral_rec del: words_bits.simps)
  then show ?thesis using unset_192_removes [of 130] by simp
qed

text \<open>\<^verbatim>\<open>kaapi_bitmap_count_256\<close> counts the set bits below 192 only.\<close>

theorem count_256_counts:
  "kaapi_bitmap_count_256 b = card (abits256 b \<inter> {..<192})"
proof -
  have "abits256 b \<inter> {..<192} = words_bits [proc256_0 b, proc256_1 b, proc256_2 b]"
    using words_bits_less [of "[proc256_0 b, proc256_1 b, proc256_2 b]"]
    by (auto simp: abits256_def words4 simp del: words_bits.simps)
  then show ?thesis by (simp add: card_words_bits kaapi_bitmap_count_256_def del: words_bits.simps)
qed

text \<open>\<^verbatim>\<open>kaapi_bitmap_set_low_bits_128\<close> with \<open>i\<close> below 64 keeps the old bits from 64 on, so its result is
  the set of the numbers below \<open>i\<close> only when the upper word was clear; the 256-bit one always is.\<close>

theorem set_low_bits_shared:
  assumes "i < 64"
  shows "abits128 (kaapi_bitmap_set_low_bits_128 b i) = {..<i} \<union> (abits128 b - {..<64})
    \<and> abits256 (kaapi_bitmap_set_low_bits_256 c i) = {..<i}"
proof
  have "n \<in> abits128 (kaapi_bitmap_set_low_bits_128 b i) \<longleftrightarrow> n \<in> {..<i} \<union> (abits128 b - {..<64})" for n
    using assms by (cases "n < 64")
      (simp_all add: abits128_def kaapi_bitmap_set_low_bits_128_def mem_words_bits_Cons bit_low_mask
        del: words_bits.simps)
  then show "abits128 (kaapi_bitmap_set_low_bits_128 b i) = {..<i} \<union> (abits128 b - {..<64})" by blast
  show "abits256 (kaapi_bitmap_set_low_bits_256 c i) = {..<i}"
    using words_bits_low_at [of 0 i 3] assms
    by (simp add: abits256_def kaapi_bitmap_set_low_bits_256_def del: words_bits.simps)
qed

theorem set_low_bits_shared_witness:
  "abits128 (kaapi_bitmap_set_low_bits_128 \<lparr>proc128_0 = 0, proc128_1 = 1\<rparr> 2) =
     {..<2} \<union> (abits128 \<lparr>proc128_0 = 0, proc128_1 = 1\<rparr> - {..<64})"
  using set_low_bits_shared [of 2 "\<lparr>proc128_0 = 0, proc128_1 = 1\<rparr>"] by simp

end
