(* ===== verification/Request_Iterator.thy ===== *)
theory Request_Iterator
  imports Bitmap128 Bitmap192 Bitmap256
begin

text \<open>
  The iterator over posted steal requests, \<^verbatim>\<open>kaapi_listrequest_iterator_t\<close> of
  \<^verbatim>\<open>src/machine/mt/kaapi_mt_machine.h\<close>, in the variant compiled by default
  (\<^verbatim>\<open>KAAPI_USE_LRI_WITH_SNAPSHOT\<close>): a thief posts its request by setting the bit of its number in the
  victim's \<^verbatim>\<open>kaapi_listrequest_t\<close>; a combiner captures the whole bitmap at once and then
  answers the captured requests one by one.  The C functions call the bitmap operations by the name
  which the build maps to one width; here the operations are arguments, and the lemmas are proved in
  the contract of \<open>Bitmap_Spec\<close> and instantiated at the end.  A pointer into
  \<^verbatim>\<open>kaapi_global_requests_list\<close> is the request's number, and the null pointer is \<open>None\<close>.
\<close>

section \<open>State and operations\<close>

record 'v kaapi_listrequest_iterator =
  lri_bitmap :: 'v
  lri_idcurr :: int

definition request_ptr :: "int \<Rightarrow> nat option" where
  "request_ptr idcurr = (if idcurr = - 1 then None else Some (nat idcurr))"

definition kaapi_listrequest_iterator_empty ::
  "('v \<Rightarrow> bool) \<Rightarrow> 'v kaapi_listrequest_iterator \<Rightarrow> bool" where
  "kaapi_listrequest_iterator_empty is_zero lrrange \<longleftrightarrow>
     is_zero (lri_bitmap lrrange) \<and> lri_idcurr lrrange = - 1"

definition kaapi_listrequest_iterator_unset_at ::
  "('v \<Rightarrow> nat \<Rightarrow> 'v) \<Rightarrow> ('v \<Rightarrow> nat \<times> 'v) \<Rightarrow> 'v kaapi_listrequest_iterator \<Rightarrow> nat \<Rightarrow>
   'v kaapi_listrequest_iterator" where
  "kaapi_listrequest_iterator_unset_at unset first_zero lrrange pos =
     (let b = unset (lri_bitmap lrrange) pos
      in if lri_idcurr lrrange = int pos
         then (case first_zero b of (r, b') \<Rightarrow> lrrange\<lparr>lri_bitmap := b', lri_idcurr := int r - 1\<rparr>)
         else lrrange\<lparr>lri_bitmap := b\<rparr>)"

definition kaapi_listrequest_iterator_count ::
  "('v \<Rightarrow> nat) \<Rightarrow> 'v kaapi_listrequest_iterator \<Rightarrow> nat" where
  "kaapi_listrequest_iterator_count count lrrange =
     count (lri_bitmap lrrange) + (if lri_idcurr lrrange = - 1 then 0 else 1)"

text \<open>\<^verbatim>\<open>retval\<close> is a local variable which the C code never initialises: \<open>garbage\<close> is the value its
  memory happens to hold.\<close>

definition kaapi_listrequest_iterator_bitmap ::
  "('v \<Rightarrow> nat \<Rightarrow> 'v) \<Rightarrow> ('v \<Rightarrow> 'v \<Rightarrow> 'v) \<Rightarrow> 'v \<Rightarrow> 'v kaapi_listrequest_iterator \<Rightarrow> 'v" where
  "kaapi_listrequest_iterator_bitmap put bor garbage lrrange =
     (let retval = put garbage (if lri_idcurr lrrange = - 1 then 0 else nat (lri_idcurr lrrange))
      in bor retval (lri_bitmap lrrange))"

definition kaapi_listrequest_iterator_get ::
  "'v kaapi_listrequest_iterator \<Rightarrow> nat option" where
  "kaapi_listrequest_iterator_get lrrange = request_ptr (lri_idcurr lrrange)"

definition kaapi_listrequest_iterator_getkid_andnext ::
  "('v \<Rightarrow> nat \<Rightarrow> 'v) \<Rightarrow> ('v \<Rightarrow> nat \<times> 'v) \<Rightarrow> 'v kaapi_listrequest_iterator \<Rightarrow> nat \<Rightarrow>
   nat \<times> 'v kaapi_listrequest_iterator" where
  "kaapi_listrequest_iterator_getkid_andnext unset first_zero lrrange kid =
     (if int kid = lri_idcurr lrrange
      then (case first_zero (lri_bitmap lrrange) of
              (r, b') \<Rightarrow> (kid, lrrange\<lparr>lri_bitmap := b', lri_idcurr := int r - 1\<rparr>))
      else (kid, lrrange\<lparr>lri_bitmap := unset (lri_bitmap lrrange) kid\<rparr>))"

definition kaapi_listrequest_iterator_next ::
  "('v \<Rightarrow> nat \<times> 'v) \<Rightarrow> 'v kaapi_listrequest_iterator \<Rightarrow> nat option \<times> 'v kaapi_listrequest_iterator" where
  "kaapi_listrequest_iterator_next first_zero lrrange =
     (case first_zero (lri_bitmap lrrange) of
        (r, b') \<Rightarrow> (request_ptr (int r - 1),
                    lrrange\<lparr>lri_bitmap := b', lri_idcurr := int r - 1\<rparr>))"

text \<open>Capturing the requests: the shared bitmap is swapped with 0, and the iterator stands on the first
  request.\<close>

definition kaapi_listrequest_iterator_init ::
  "('a \<Rightarrow> 'v \<Rightarrow> 'a \<times> 'v) \<Rightarrow> ('v \<Rightarrow> nat \<times> 'v) \<Rightarrow> 'a \<Rightarrow> 'v kaapi_listrequest_iterator \<Rightarrow>
   'a \<times> 'v kaapi_listrequest_iterator" where
  "kaapi_listrequest_iterator_init swap0 first_zero lrequests lrrange =
     (let lrrange = lrrange\<lparr>lri_idcurr := - 1\<rparr>
      in case swap0 lrequests (lri_bitmap lrrange) of
           (lrequests', b) \<Rightarrow>
             (lrequests', snd (kaapi_listrequest_iterator_next first_zero (lrrange\<lparr>lri_bitmap := b\<rparr>))))"

definition kaapi_listrequest_iterator_prepare ::
  "('v \<Rightarrow> 'v) \<Rightarrow> 'v kaapi_listrequest_iterator \<Rightarrow> 'v kaapi_listrequest_iterator" where
  "kaapi_listrequest_iterator_prepare clear lrrange =
     (let lrrange = lrrange\<lparr>lri_idcurr := - 1\<rparr>
      in lrrange\<lparr>lri_bitmap := clear (lri_bitmap lrrange)\<rparr>)"

text \<open>The combiner's loop over a captured range (\<^verbatim>\<open>kaapi_sched_stealprocessor.c\<close> and its callees): take the
  current request, move on, until the range is empty.\<close>

fun serve_requests ::
  "('v \<Rightarrow> nat \<times> 'v) \<Rightarrow> nat \<Rightarrow> 'v kaapi_listrequest_iterator \<Rightarrow> nat list option" where
  "serve_requests first_zero 0 lri = None"
| "serve_requests first_zero (Suc fuel) lri =
     (case kaapi_listrequest_iterator_get lri of
        None \<Rightarrow> Some []
      | Some r \<Rightarrow> map_option ((#) r)
          (serve_requests first_zero fuel (snd (kaapi_listrequest_iterator_next first_zero lri))))"

section \<open>What the iterator promises\<close>

text \<open>The requests still to serve, and the invariant of an iterator: its current request is not also in
  its bitmap, and when there is no current request the bitmap is empty.\<close>

definition lri_pending :: "('v \<Rightarrow> nat set) \<Rightarrow> 'v kaapi_listrequest_iterator \<Rightarrow> nat set" where
  "lri_pending bits lri =
     (if lri_idcurr lri = - 1 then {} else {nat (lri_idcurr lri)}) \<union> bits (lri_bitmap lri)"

definition lri_inv :: "('v \<Rightarrow> nat set) \<Rightarrow> 'v kaapi_listrequest_iterator \<Rightarrow> bool" where
  "lri_inv bits lri \<longleftrightarrow>
     (if lri_idcurr lri = - 1 then bits (lri_bitmap lri) = {}
      else 0 \<le> lri_idcurr lri \<and> (\<forall>n \<in> bits (lri_bitmap lri). nat (lri_idcurr lri) < n))"

context bitmap_value_unset begin

lemma lri_step:
  assumes "first_zero b = (r, b')"
  shows "lri_inv bits (lri\<lparr>lri_bitmap := b', lri_idcurr := int r - 1\<rparr>)"
    and "lri_pending bits (lri\<lparr>lri_bitmap := b', lri_idcurr := int r - 1\<rparr>) = bits b"
    and "request_ptr (int r - 1) = (if bits b = {} then None else Some (Min (bits b)))"
proof -
  consider (none) "r = 0" "bits b = {}" "bits b' = {}"
    | (one) n where "r = Suc n" "n \<in> bits b" "n = Min (bits b)" "bits b' = bits b - {n}"
    using assms first_zero_0 [of b b'] first_zero_Suc [of b _ b'] by (cases r) auto
  then have "lri_inv bits (lri\<lparr>lri_bitmap := b', lri_idcurr := int r - 1\<rparr>) \<and>
    lri_pending bits (lri\<lparr>lri_bitmap := b', lri_idcurr := int r - 1\<rparr>) = bits b \<and>
    request_ptr (int r - 1) = (if bits b = {} then None else Some (Min (bits b)))"
  proof cases
    case none
    then show ?thesis by (simp add: lri_inv_def lri_pending_def request_ptr_def)
  next
    case one
    have "n < m" if "m \<in> bits b" "m \<noteq> n" for m
      using Min_le [OF finite_bits that(1)] one(3) that(2) by simp
    moreover have "insert n (bits b) = bits b" using one(2) by blast
    moreover have "bits b \<noteq> {}" using one(2) by blast
    ultimately show ?thesis
      using one(1,4) one(3) [symmetric] by (simp add: lri_inv_def lri_pending_def request_ptr_def)
  qed
  then show "lri_inv bits (lri\<lparr>lri_bitmap := b', lri_idcurr := int r - 1\<rparr>)"
    and "lri_pending bits (lri\<lparr>lri_bitmap := b', lri_idcurr := int r - 1\<rparr>) = bits b"
    and "request_ptr (int r - 1) = (if bits b = {} then None else Some (Min (bits b)))"
    by simp_all
qed

lemma lri_next_inv [kaapi_inv]:
  "lri_inv bits (snd (kaapi_listrequest_iterator_next first_zero lri))"
  by (auto simp: kaapi_listrequest_iterator_next_def split: prod.splits intro: lri_step)

lemma lri_next_pending:
  "lri_pending bits (snd (kaapi_listrequest_iterator_next first_zero lri)) = bits (lri_bitmap lri)"
  by (auto simp: kaapi_listrequest_iterator_next_def lri_step(2) split: prod.splits)

lemma lri_count:
  "lri_inv bits lri \<Longrightarrow>
   kaapi_listrequest_iterator_count count lri = card (lri_pending bits lri)"
proof (cases "lri_idcurr lri = - 1")
  case True
  then show ?thesis
    by (simp add: kaapi_listrequest_iterator_count_def lri_pending_def count_card)
next
  case False
  assume "lri_inv bits lri"
  then have "nat (lri_idcurr lri) \<notin> bits (lri_bitmap lri)"
    using False by (auto simp: lri_inv_def)
  then show ?thesis
    using False finite_bits [of "lri_bitmap lri"]
    by (simp add: kaapi_listrequest_iterator_count_def lri_pending_def count_card)
qed

lemma lri_empty:
  "kaapi_listrequest_iterator_empty is_zero lri \<longleftrightarrow> lri_pending bits lri = {}"
  by (auto simp: kaapi_listrequest_iterator_empty_def lri_pending_def is_zero_iff)

lemma lri_unset_at_pending:
  assumes "lri_inv bits lri" and "pos < width"
  shows "lri_pending bits (kaapi_listrequest_iterator_unset_at unset first_zero lri pos) =
    lri_pending bits lri - {pos}"
proof (cases "lri_idcurr lri = int pos")
  case True
  obtain r b' where f: "first_zero (unset (lri_bitmap lri) pos) = (r, b')" by fastforce
  have "pos \<notin> bits (lri_bitmap lri)" using assms(1) True by (auto simp: lri_inv_def)
  then show ?thesis
    using True lri_step(2) [OF f, of lri] assms(2) f
    by (simp add: kaapi_listrequest_iterator_unset_at_def Let_def bits_unset)
      (simp add: lri_pending_def)
next
  case False
  then have "lri_idcurr lri \<noteq> - 1 \<Longrightarrow> nat (lri_idcurr lri) \<noteq> pos"
    using assms(1) by (auto simp: lri_inv_def)
  then show ?thesis
    using False bits_unset [OF assms(2)]
    by (auto simp: kaapi_listrequest_iterator_unset_at_def Let_def lri_pending_def)
qed

lemma lri_unset_at_inv [kaapi_inv]:
  assumes "lri_inv bits lri" and "pos < width"
  shows "lri_inv bits (kaapi_listrequest_iterator_unset_at unset first_zero lri pos)"
proof -
  obtain r b' where f: "first_zero (unset (lri_bitmap lri) pos) = (r, b')" by fastforce
  have "lri_inv bits (lri\<lparr>lri_bitmap := unset (lri_bitmap lri) pos\<rparr>)"
    using assms(1) bits_unset [OF assms(2)] by (simp add: lri_inv_def split: if_splits)
  then show ?thesis
    using lri_step(1) [OF f, of lri] f by (simp add: kaapi_listrequest_iterator_unset_at_def Let_def)
qed

lemma lri_getkid_pending:
  assumes "lri_inv bits lri" and "kid < width"
  shows "lri_pending bits (snd (kaapi_listrequest_iterator_getkid_andnext unset first_zero lri kid)) =
    lri_pending bits lri - {kid}"
proof (cases "int kid = lri_idcurr lri")
  case True
  obtain r b' where f: "first_zero (lri_bitmap lri) = (r, b')" by fastforce
  have "kid \<notin> bits (lri_bitmap lri)" using assms(1) True by (auto simp: lri_inv_def)
  then show ?thesis
    using True [symmetric] lri_step(2) [OF f, of lri] f
    by (simp add: kaapi_listrequest_iterator_getkid_andnext_def) (simp add: lri_pending_def)
next
  case False
  then have "lri_idcurr lri \<noteq> - 1 \<Longrightarrow> nat (lri_idcurr lri) \<noteq> kid"
    using assms(1) by (auto simp: lri_inv_def)
  then show ?thesis
    using False bits_unset [OF assms(2)]
    by (auto simp: kaapi_listrequest_iterator_getkid_andnext_def lri_pending_def)
qed

lemma serve_requests_sorted:
  "lri_inv bits lri \<Longrightarrow> card (lri_pending bits lri) < fuel \<Longrightarrow>
   serve_requests first_zero fuel lri = Some (sorted_list_of_set (lri_pending bits lri))"
proof (induction fuel arbitrary: lri)
  case (Suc fuel)
  let ?B = "bits (lri_bitmap lri)" and ?lri = "snd (kaapi_listrequest_iterator_next first_zero lri)"
  show ?case
  proof (cases "lri_idcurr lri = - 1")
    case True
    then show ?thesis
      using Suc.prems
      by (simp add: kaapi_listrequest_iterator_get_def request_ptr_def lri_pending_def lri_inv_def)
  next
    case False
    define c where "c = nat (lri_idcurr lri)"
    have c: "\<forall>n \<in> ?B. c < n" using Suc.prems False by (simp add: lri_inv_def c_def)
    have P: "lri_pending bits lri = insert c ?B" using False by (simp add: lri_pending_def c_def)
    have "card (lri_pending bits ?lri) < fuel"
      using Suc.prems(2) P c finite_bits [of "lri_bitmap lri"]
      by (auto simp: lri_next_pending card_insert_if)
    then have "serve_requests first_zero fuel ?lri = Some (sorted_list_of_set ?B)"
      using Suc.IH [OF lri_next_inv] by (simp add: lri_next_pending)
    moreover have "sorted_list_of_set (insert c ?B) = c # sorted_list_of_set ?B"
    proof -
      have "Min (insert c ?B) = c" using c finite_bits by (intro Min_eqI) (auto simp: less_imp_le)
      moreover have "insert c ?B - {c} = ?B" using c by auto
      ultimately show ?thesis
        using sorted_list_of_set_nonempty [of "insert c ?B"] finite_bits [of "lri_bitmap lri"] by simp
    qed
    ultimately show ?thesis
      using False P by (simp add: kaapi_listrequest_iterator_get_def request_ptr_def c_def)
  qed
qed simp

end

section \<open>The 256-processor build\<close>

type_synonym request_range = "kaapi_bitmap_value256 kaapi_listrequest_iterator"

definition lri_empty256 :: "request_range \<Rightarrow> bool" where
  "lri_empty256 lri = kaapi_listrequest_iterator_empty kaapi_bitmap_value_empty_256 lri"

definition lri_next256 :: "request_range \<Rightarrow> request_range" where
  "lri_next256 lri = snd (kaapi_listrequest_iterator_next kaapi_bitmap_value_first1_and_zero_256 lri)"

section \<open>Properties\<close>

text \<open>C34: \<^verbatim>\<open>kaapi_listrequest_iterator_init\<close> empties the shared bitmap of posted requests, and the combiner's loop over
  the iterator then serves exactly the requests that were posted, each once, in increasing order.\<close>

theorem iterator_serves_posted_requests:
  "case kaapi_listrequest_iterator_init kaapi_bitmap_swap0_256 kaapi_bitmap_value_first1_and_zero_256 lrequests lri of
     (lrequests', lri') \<Rightarrow>
       abits256 lrequests' = {}
     \<and> kaapi_listrequest_iterator_count kaapi_bitmap_value_count_256 lri' = card (abits256 lrequests)
     \<and> serve_requests kaapi_bitmap_value_first1_and_zero_256 257 lri' = Some (sorted_list_of_set (abits256 lrequests))"
proof -
  let ?i = "kaapi_listrequest_iterator_init kaapi_bitmap_swap0_256 kaapi_bitmap_value_first1_and_zero_256 lrequests lri"
  let ?P = "lri_pending bits256 (snd ?i)"
  have e: "abits256 (fst ?i) = {}"
    by (simp add: kaapi_listrequest_iterator_init_def Let_def ba256.swap0_bits split: prod.split)
      (metis ba256.swap0_bits fst_conv)
  have p: "?P = abits256 lrequests"
    by (simp add: kaapi_listrequest_iterator_init_def Let_def bv256.lri_next_pending split: prod.split)
      (metis ba256.swap0_bits snd_conv)
  have i: "lri_inv bits256 (snd ?i)"
    by (simp add: kaapi_listrequest_iterator_init_def Let_def bv256.lri_next_inv split: prod.split)
  have "card ?P < 257"
    using card_mono [OF finite_lessThan ba256.abits_width [of lrequests]] p by simp
  then show ?thesis
    using e p bv256.lri_count [OF i] bv256.serve_requests_sorted [OF i] by (simp add: case_prod_unfold)
qed

text \<open>The bitmap that \<^verbatim>\<open>kaapi_listrequest_iterator_bitmap\<close> returns is not the set of pending requests: it also
  holds whatever bits its uninitialised local variable had, and bit 0 when the range is empty.\<close>

theorem iterator_bitmap_returns:
  assumes "- 1 \<le> lri_idcurr lri" and "lri_idcurr lri < 256"
  shows "bits256 (kaapi_listrequest_iterator_bitmap kaapi_bitmap_value_set_256 kaapi_bitmap_value_or_256 garbage lri)
    = bits256 garbage \<union> lri_pending bits256 lri \<union> (if lri_idcurr lri = - 1 then {0} else {})"
proof (cases "lri_idcurr lri = - 1")
  case True
  then show ?thesis
    by (simp add: kaapi_listrequest_iterator_bitmap_def Let_def lri_pending_def
        bv256.bits_bor bv256.bits_put)
next
  case False
  then have "nat (lri_idcurr lri) < 256" using assms by linarith
  then show ?thesis using False
    by (simp add: kaapi_listrequest_iterator_bitmap_def Let_def lri_pending_def
        bv256.bits_bor bv256.bits_put)
qed

theorem iterator_bitmap_returns_witness:
  "0 \<in> bits256 (kaapi_listrequest_iterator_bitmap kaapi_bitmap_value_set_256 kaapi_bitmap_value_or_256
      \<lparr>vproc256_0 = 0, vproc256_1 = 0, vproc256_2 = 0, vproc256_3 = 0\<rparr>
      \<lparr>lri_bitmap = \<lparr>vproc256_0 = 0, vproc256_1 = 0, vproc256_2 = 0, vproc256_3 = 0\<rparr>, lri_idcurr = - 1\<rparr>)"
  using iterator_bitmap_returns [of "\<lparr>lri_bitmap = \<lparr>vproc256_0 = 0, vproc256_1 = 0, vproc256_2 = 0, vproc256_3 = 0\<rparr>,
      lri_idcurr = - 1\<rparr>"]
  by simp

end
