(* ===== verification/Cpuset.thy ===== *)
theory Cpuset
  imports Bitmap256
begin

text \<open>
  The public processor set \<^verbatim>\<open>kaapi_cpuset_t\<close> of \<^verbatim>\<open>src/kaapi_cpuset.h\<close> with its two out-of-line functions
  (\<^verbatim>\<open>src/misc/kaapi_cpuset2str.c\<close>, \<^verbatim>\<open>src/misc/kaapi_cpuset_firstone.c\<close>).  It is an array of four 64-bit words
  that is cast to \<^verbatim>\<open>kaapi_bitmap_value_t\<close> where the runtime wants a bitmap; the cast is modelled for
  the build with 256 processors, where the two structures have the same layout.
\<close>

section \<open>State and operations\<close>

record kaapi_cpuset =
  cpu64_0 :: uint64
  cpu64_1 :: uint64
  cpu64_2 :: uint64
  cpu64_3 :: uint64

definition kaapi_cpuset_clear :: "kaapi_cpuset \<Rightarrow> kaapi_cpuset" where
  "kaapi_cpuset_clear affinity =
     affinity\<lparr>cpu64_0 := 0, cpu64_1 := 0, cpu64_2 := 0, cpu64_3 := 0\<rparr>"

definition kaapi_cpuset_full :: "kaapi_cpuset \<Rightarrow> kaapi_cpuset" where
  "kaapi_cpuset_full affinity =
     affinity\<lparr>cpu64_0 := NOT 0, cpu64_1 := NOT 0, cpu64_2 := NOT 0, cpu64_3 := NOT 0\<rparr>"

definition kaapi_cpuset_intersect :: "kaapi_cpuset \<Rightarrow> kaapi_cpuset \<Rightarrow> bool" where
  "kaapi_cpuset_intersect s1 s2 \<longleftrightarrow>
     (cpu64_0 s1 AND cpu64_0 s2) \<noteq> 0 \<or> (cpu64_1 s1 AND cpu64_1 s2) \<noteq> 0 \<or>
     (cpu64_2 s1 AND cpu64_2 s2) \<noteq> 0 \<or> (cpu64_3 s1 AND cpu64_3 s2) \<noteq> 0"

definition kaapi_cpuset_empty :: "kaapi_cpuset \<Rightarrow> bool" where
  "kaapi_cpuset_empty affinity \<longleftrightarrow>
     cpu64_0 affinity = 0 \<and> cpu64_1 affinity = 0 \<and> cpu64_2 affinity = 0 \<and> cpu64_3 affinity = 0"

definition kaapi_cpuset_set :: "kaapi_cpuset \<Rightarrow> nat \<Rightarrow> kaapi_cpuset" where
  "kaapi_cpuset_set affinity i =
     (if i < 64 then affinity\<lparr>cpu64_0 := cpu64_0 affinity OR push_bit i 1\<rparr>
      else if i < 128 then affinity\<lparr>cpu64_1 := cpu64_1 affinity OR push_bit (i - 64) 1\<rparr>
      else if i < 192 then affinity\<lparr>cpu64_2 := cpu64_2 affinity OR push_bit (i - 128) 1\<rparr>
      else affinity\<lparr>cpu64_3 := cpu64_3 affinity OR push_bit (i - 192) 1\<rparr>)"

definition kaapi_cpuset_copy :: "kaapi_cpuset \<Rightarrow> kaapi_cpuset \<Rightarrow> kaapi_cpuset" where
  "kaapi_cpuset_copy dest src =
     dest\<lparr>cpu64_0 := cpu64_0 src, cpu64_1 := cpu64_1 src,
          cpu64_2 := cpu64_2 src, cpu64_3 := cpu64_3 src\<rparr>"

definition kaapi_cpuset_has :: "kaapi_cpuset \<Rightarrow> nat \<Rightarrow> bool" where
  "kaapi_cpuset_has affinity i =
     (if i < 64 then (cpu64_0 affinity AND push_bit i 1) \<noteq> 0
      else if i < 128 then (cpu64_1 affinity AND push_bit (i - 64) 1) \<noteq> 0
      else if i < 192 then (cpu64_2 affinity AND push_bit (i - 128) 1) \<noteq> 0
      else (cpu64_3 affinity AND push_bit (i - 192) 1) \<noteq> 0)"

definition kaapi_cpuset_and :: "kaapi_cpuset \<Rightarrow> kaapi_cpuset \<Rightarrow> kaapi_cpuset" where
  "kaapi_cpuset_and dest msk =
     dest\<lparr>cpu64_0 := cpu64_0 dest AND cpu64_0 msk, cpu64_1 := cpu64_1 dest AND cpu64_1 msk,
          cpu64_2 := cpu64_2 dest AND cpu64_2 msk, cpu64_3 := cpu64_3 dest AND cpu64_3 msk\<rparr>"

definition kaapi_cpuset_or :: "kaapi_cpuset \<Rightarrow> kaapi_cpuset \<Rightarrow> kaapi_cpuset" where
  "kaapi_cpuset_or dest msk =
     dest\<lparr>cpu64_0 := cpu64_0 dest OR cpu64_0 msk, cpu64_1 := cpu64_1 dest OR cpu64_1 msk,
          cpu64_2 := cpu64_2 dest OR cpu64_2 msk, cpu64_3 := cpu64_3 dest OR cpu64_3 msk\<rparr>"

text \<open>The comment above the function says \<^verbatim>\<open>*dest &= ~mask\<close>; the code is an exclusive or.\<close>

definition kaapi_cpuset_notand :: "kaapi_cpuset \<Rightarrow> kaapi_cpuset \<Rightarrow> kaapi_cpuset" where
  "kaapi_cpuset_notand dest msk =
     dest\<lparr>cpu64_0 := cpu64_0 dest XOR cpu64_0 msk, cpu64_1 := cpu64_1 dest XOR cpu64_1 msk,
          cpu64_2 := cpu64_2 dest XOR cpu64_2 msk, cpu64_3 := cpu64_3 dest XOR cpu64_3 msk\<rparr>"

text \<open>\<^verbatim>\<open>(kaapi_bitmap_value_t*)cpuset\<close>, and back after the write through the pointer.\<close>

definition cpuset_to_bitmap :: "kaapi_cpuset \<Rightarrow> kaapi_bitmap_value256" where
  "cpuset_to_bitmap c =
     \<lparr>vproc256_0 = cpu64_0 c, vproc256_1 = cpu64_1 c, vproc256_2 = cpu64_2 c, vproc256_3 = cpu64_3 c\<rparr>"

definition bitmap_to_cpuset :: "kaapi_bitmap_value256 \<Rightarrow> kaapi_cpuset" where
  "bitmap_to_cpuset b =
     \<lparr>cpu64_0 = vproc256_0 b, cpu64_1 = vproc256_1 b, cpu64_2 = vproc256_2 b, cpu64_3 = vproc256_3 b\<rparr>"

definition kaapi_cpuset_firstone_zero :: "kaapi_cpuset \<Rightarrow> int \<times> kaapi_cpuset" where
  "kaapi_cpuset_firstone_zero cpuset =
     (case kaapi_bitmap_value_first1_and_zero_256 (cpuset_to_bitmap cpuset) of
        (r, bm) \<Rightarrow> (int r - 1, bitmap_to_cpuset bm))"

text \<open>The text form, highest processor first.  \<^verbatim>\<open>kaapi_assert(nproc < 128)\<close> stops the program: \<open>None\<close>.\<close>

definition kaapi_cpuset2string :: "nat \<Rightarrow> kaapi_cpuset \<Rightarrow> string option" where
  "kaapi_cpuset2string nproc cupset =
     (if nproc < 128
      then Some (map (\<lambda>i. if kaapi_cpuset_has cupset (nproc - i - 1) then CHR ''1'' else CHR ''0'')
                     [0..<nproc])
      else None)"

section \<open>Processor sets as sets of processor numbers\<close>

definition cpus :: "kaapi_cpuset \<Rightarrow> nat set" where
  "cpus c = words_bits [cpu64_0 c, cpu64_1 c, cpu64_2 c, cpu64_3 c]"

lemma cpus_bitmap: "bits256 (cpuset_to_bitmap c) = cpus c" "cpus (bitmap_to_cpuset b) = bits256 b"
  by (simp_all add: cpus_def bits256_def cpuset_to_bitmap_def bitmap_to_cpuset_def)

text \<open>The functions that have a twin among the 256-bit bitmaps are that twin on the cast structure.\<close>

lemma cpuset_twins:
  "cpuset_to_bitmap (kaapi_cpuset_set c i) = kaapi_bitmap_value_set_256 (cpuset_to_bitmap c) i"
  "kaapi_cpuset_has c i = kaapi_bitmap_value_get_256 (cpuset_to_bitmap c) i"
  "cpuset_to_bitmap (kaapi_cpuset_and c d) =
   kaapi_bitmap_value_and_256 (cpuset_to_bitmap c) (cpuset_to_bitmap d)"
  "cpuset_to_bitmap (kaapi_cpuset_or c d) =
   kaapi_bitmap_value_or_256 (cpuset_to_bitmap c) (cpuset_to_bitmap d)"
  "cpuset_to_bitmap (kaapi_cpuset_full c) = kaapi_bitmap_value_full_256 (cpuset_to_bitmap c)"
  "cpuset_to_bitmap (kaapi_cpuset_clear c) = kaapi_bitmap_value_clear_256 (cpuset_to_bitmap c)"
  "kaapi_cpuset_empty c = kaapi_bitmap_value_empty_256 (cpuset_to_bitmap c)"
  by (simp_all add: cpuset_to_bitmap_def kaapi_cpuset_set_def kaapi_bitmap_value_set_256_def
      kaapi_cpuset_has_def kaapi_bitmap_value_get_256_def kaapi_cpuset_and_def
      kaapi_bitmap_value_and_256_def kaapi_cpuset_or_def kaapi_bitmap_value_or_256_def
      kaapi_cpuset_full_def kaapi_bitmap_value_full_256_def kaapi_cpuset_clear_def
      kaapi_bitmap_value_clear_256_def kaapi_cpuset_empty_def kaapi_bitmap_value_empty_256_def)

lemma cpuset_sets:
  "i < 256 \<Longrightarrow> cpus (kaapi_cpuset_set c i) = insert i (cpus c)"
  "i < 256 \<Longrightarrow> kaapi_cpuset_has c i \<longleftrightarrow> i \<in> cpus c"
  "cpus (kaapi_cpuset_and c d) = cpus c \<inter> cpus d"
  "cpus (kaapi_cpuset_or c d) = cpus c \<union> cpus d"
  "cpus (kaapi_cpuset_full c) = {..<256}"
  "cpus (kaapi_cpuset_clear c) = {}"
  "kaapi_cpuset_empty c \<longleftrightarrow> cpus c = {}"
  using bv256.value_simps
  by (simp_all add: cpuset_twins cpus_bitmap flip: cpus_bitmap(1))

lemma cpus_copy: "cpus (kaapi_cpuset_copy c d) = cpus d"
  by (simp add: cpus_def kaapi_cpuset_copy_def)

lemma cpus_intersect: "kaapi_cpuset_intersect c d \<longleftrightarrow> cpus c \<inter> cpus d \<noteq> {}"
proof -
  have "cpus c \<inter> cpus d = {} \<longleftrightarrow> kaapi_cpuset_empty (kaapi_cpuset_and c d)"
    by (simp add: cpuset_sets)
  then show ?thesis
    by (auto simp: kaapi_cpuset_empty_def kaapi_cpuset_and_def kaapi_cpuset_intersect_def)
qed

lemma words_bits_xor:
  "length vs = length ws \<Longrightarrow>
   words_bits (map2 (XOR) vs ws) = (words_bits vs - words_bits ws) \<union> (words_bits ws - words_bits vs)"
proof (induction vs ws rule: list_induct2)
  case (Cons v vs w ws)
  show ?case
  proof (rule set_eqI)
    fix n
    have IH: "n - 64 \<in> words_bits (map2 (XOR) vs ws) \<longleftrightarrow>
        (n - 64 \<in> words_bits vs) \<noteq> (n - 64 \<in> words_bits ws)"
      by (simp only: Cons.IH Un_iff Diff_iff) blast
    show "n \<in> words_bits (map2 (XOR) (v # vs) (w # ws)) \<longleftrightarrow>
      n \<in> (words_bits (v # vs) - words_bits (w # ws)) \<union> (words_bits (w # ws) - words_bits (v # vs))"
    proof (cases "n < 64")
      case True
      then show ?thesis by (simp add: mem_words_bits_Cons word_bit_simps del: words_bits.simps) blast
    next
      case False
      then show ?thesis using IH by (simp add: mem_words_bits_Cons del: words_bits.simps) blast
    qed
  qed
qed simp

lemma cpus_notand: "cpus (kaapi_cpuset_notand c d) = (cpus c - cpus d) \<union> (cpus d - cpus c)"
  by (simp add: cpus_def kaapi_cpuset_notand_def del: words_bits.simps flip: words_bits_xor)

lemma firstone_zero_cases:
  assumes "kaapi_cpuset_firstone_zero c = (r, c')"
  shows "(r = - 1 \<and> cpus c = {} \<and> cpus c' = {}) \<or>
   (\<exists>n. r = int n \<and> n \<in> cpus c \<and> n = Min (cpus c) \<and> cpus c' = cpus c - {n})"
proof -
  obtain q b where f: "kaapi_bitmap_value_first1_and_zero_256 (cpuset_to_bitmap c) = (q, b)"
    by fastforce
  then have rc: "r = int q - 1" "cpus c' = bits256 b"
    using assms by (simp_all add: kaapi_cpuset_firstone_zero_def flip: cpus_bitmap(2))
  show ?thesis
  proof (cases q)
    case 0
    then show ?thesis using bv256.first_zero_0 [of "cpuset_to_bitmap c" b] f rc by (simp add: cpus_bitmap)
  next
    case (Suc n)
    then show ?thesis
      using bv256.first_zero_Suc [of "cpuset_to_bitmap c" n b] f rc by (simp add: cpus_bitmap)
  qed
qed

section \<open>Reading the text form back\<close>

definition cpus_of_string :: "string \<Rightarrow> nat set" where
  "cpus_of_string s = {i. i < length s \<and> s ! (length s - 1 - i) = CHR ''1''}"

lemma cpuset2string_length: "kaapi_cpuset2string nproc c = Some s \<Longrightarrow> length s = nproc"
  by (auto simp: kaapi_cpuset2string_def split: if_splits)

lemma cpuset2string_read:
  assumes "kaapi_cpuset2string nproc c = Some s"
  shows "cpus_of_string s = cpus c \<inter> {..<nproc}"
proof -
  have n: "nproc < 128" and len: "length s = nproc"
    using assms cpuset2string_length by (auto simp: kaapi_cpuset2string_def split: if_splits)
  have "s ! (nproc - 1 - i) = (if kaapi_cpuset_has c i then CHR ''1'' else CHR ''0'')" if "i < nproc" for i
    using assms n that by (auto simp: kaapi_cpuset2string_def)
  then show ?thesis
    using n by (auto simp: cpus_of_string_def len cpuset_sets split: if_splits)
qed

section \<open>Properties\<close>

text \<open>C40: when a text is returned (\<open>nproc\<close> is below 128), it has one character per processor below \<open>nproc\<close> and gives,
  read from its last character on, exactly the processors of the set below \<open>nproc\<close>; members of the set from
  \<open>nproc\<close> on are not in the text.\<close>

theorem cpuset_text_roundtrip:
  assumes "kaapi_cpuset2string nproc c = Some s"
  shows "length s = nproc \<and> cpus_of_string s = cpus c \<inter> {..<nproc}"
  using cpuset2string_length [OF assms] cpuset2string_read [OF assms] by simp

theorem cpuset_text_roundtrip_witness:
  "cpus_of_string ''101'' = cpus \<lparr>cpu64_0 = 5, cpu64_1 = 0, cpu64_2 = 0, cpu64_3 = 0\<rparr> \<inter> {..<3}"
proof -
  have "kaapi_cpuset2string 3 \<lparr>cpu64_0 = 5, cpu64_1 = 0, cpu64_2 = 0, cpu64_3 = 0\<rparr> = Some ''101''"
    by code_simp
  from cpuset_text_roundtrip [OF this] show ?thesis by simp
qed

text \<open>\<^verbatim>\<open>kaapi_cpuset_firstone_zero\<close> returns -1 on an empty set, and otherwise the smallest processor of the set,
  which is the one it removes.\<close>

theorem cpuset_firstone_zero_smallest:
  "case kaapi_cpuset_firstone_zero c of
     (r, c') \<Rightarrow> (if cpus c = {} then r = - 1 else r = int (Min (cpus c))) \<and> cpus c' = cpus c - {nat r}"
proof -
  obtain r c' where f: "kaapi_cpuset_firstone_zero c = (r, c')" by fastforce
  from firstone_zero_cases [OF f] show ?thesis
  proof (elim disjE exE conjE)
    assume "r = - 1" "cpus c = {}" "cpus c' = {}"
    then show ?thesis using f by simp
  next
    fix n
    assume "r = int n" "n \<in> cpus c" "n = Min (cpus c)" "cpus c' = cpus c - {n}"
    then show ?thesis using f by (cases "cpus c = {}") simp_all
  qed
qed

text \<open>\<^verbatim>\<open>kaapi_cpuset_notand\<close> computes the symmetric difference; it is the difference its comment announces
  only when the mask is included in the set.\<close>

theorem cpuset_notand_is_difference_iff:
  "cpus (kaapi_cpuset_notand c d) = cpus c - cpus d \<longleftrightarrow> cpus d \<subseteq> cpus c"
  by (auto simp: cpus_notand)

end
