(* ===== verification/Workqueue.thy ===== *)
theory Workqueue
  imports Kaapi_Prelude "HOL-Library.Multiset"
begin

text \<open>
  The adaptive work queue \<^verbatim>\<open>kaapi_workqueue_t\<close> of \<^verbatim>\<open>src/kaapi.h\<close> and \<^verbatim>\<open>src/misc/kaapi_wq_*.c\<close>: an interval
  of loop indices from whose front the owner pops and from whose back thieves steal.  The two bounds
  share their storage between a signed (\<^verbatim>\<open>rep.li\<close>) and an unsigned (\<^verbatim>\<open>rep.ull\<close>) view; both views are
  modelled on the same 64-bit words, the signed one with the signed order of words.  A signed
  overflow, undefined in C, wraps here; the laws below are stated for calls that do not overflow.
  This theory holds the functions as one thread runs them; their interleaving is in
  \<open>The_Protocol\<close>.
\<close>

section \<open>Intervals\<close>

lemma ivl_split: "a \<le> b \<Longrightarrow> b \<le> c \<Longrightarrow> mset_set {a..<c} = mset_set {a..<b} + mset_set {b..<c}"
  for a b c :: int
  using mset_set_Union [of "{a..<b}" "{b..<c}"] ivl_disj_un_two(3) [of a b c]
  by auto

lemma upto_split: "a \<le> b \<Longrightarrow> b \<le> c \<Longrightarrow> [a..c - 1] = [a..b - 1] @ [b..c - 1]" for a b c :: int
  using upto_split1 [of a b "c - 1"] by (cases "b = c") auto

section \<open>State and operations\<close>

record kaapi_workqueue =
  rep_end :: uint64
  rep_beg :: uint64
  wq_lock :: "nat option"

type_synonym wq_range = "uint64 \<times> uint64"

subsection \<open>Initialisation\<close>

text \<open>A lock is named by a number; \<open>None\<close> is the null pointer.  \<open>kproc_lock\<close> is \<^verbatim>\<open>&kproc->lock\<close> of the
  current processor, and \<open>all_kprocessors\<close> lists the locks of \<^verbatim>\<open>kaapi_all_kprocessors\<close>.\<close>

definition kaapi_workqueue_init ::
  "nat \<Rightarrow> kaapi_workqueue \<Rightarrow> uint64 \<Rightarrow> uint64 \<Rightarrow> errno \<times> kaapi_workqueue" where
  "kaapi_workqueue_init kproc_lock kwq b e =
     (OK, kwq\<lparr>rep_beg := b, rep_end := e, wq_lock := Some kproc_lock\<rparr>)"

definition kaapi_workqueue_init_ull ::
  "nat \<Rightarrow> kaapi_workqueue \<Rightarrow> uint64 \<Rightarrow> uint64 \<Rightarrow> errno \<times> kaapi_workqueue" where
  "kaapi_workqueue_init_ull kproc_lock kwq b e =
     (OK, kwq\<lparr>rep_beg := b, rep_end := e, wq_lock := Some kproc_lock\<rparr>)"

definition kaapi_workqueue_init_with_lock ::
  "kaapi_workqueue \<Rightarrow> uint64 \<Rightarrow> uint64 \<Rightarrow> nat option \<Rightarrow> errno \<times> kaapi_workqueue" where
  "kaapi_workqueue_init_with_lock kwq b e thelock =
     (OK, kwq\<lparr>rep_beg := b, rep_end := e, wq_lock := thelock\<rparr>)"

definition kaapi_workqueue_init_with_lock_ull ::
  "kaapi_workqueue \<Rightarrow> uint64 \<Rightarrow> uint64 \<Rightarrow> nat option \<Rightarrow> errno \<times> kaapi_workqueue" where
  "kaapi_workqueue_init_with_lock_ull kwq b e thelock =
     (OK, kwq\<lparr>rep_beg := b, rep_end := e, wq_lock := thelock\<rparr>)"

definition kaapi_workqueue_init_with_kproc ::
  "nat list \<Rightarrow> kaapi_workqueue \<Rightarrow> uint64 \<Rightarrow> uint64 \<Rightarrow> nat \<Rightarrow> errno \<times> kaapi_workqueue" where
  "kaapi_workqueue_init_with_kproc all_kprocessors kwq b e ident =
     (OK, kwq\<lparr>rep_beg := b, rep_end := e, wq_lock := Some (all_kprocessors ! ident)\<rparr>)"

definition kaapi_workqueue_init_with_kproc_ull ::
  "nat list \<Rightarrow> kaapi_workqueue \<Rightarrow> uint64 \<Rightarrow> uint64 \<Rightarrow> nat \<Rightarrow> errno \<times> kaapi_workqueue" where
  "kaapi_workqueue_init_with_kproc_ull all_kprocessors kwq b e ident =
     (OK, kwq\<lparr>rep_beg := b, rep_end := e, wq_lock := Some (all_kprocessors ! ident)\<rparr>)"

definition kaapi_workqueue_reset ::
  "kaapi_workqueue \<Rightarrow> uint64 \<Rightarrow> uint64 \<Rightarrow> errno \<times> kaapi_workqueue" where
  "kaapi_workqueue_reset kwq b e = (OK, kwq\<lparr>rep_beg := b, rep_end := e\<rparr>)"

definition kaapi_workqueue_reset_ull ::
  "kaapi_workqueue \<Rightarrow> uint64 \<Rightarrow> uint64 \<Rightarrow> errno \<times> kaapi_workqueue" where
  "kaapi_workqueue_reset_ull kwq b e = (OK, kwq\<lparr>rep_beg := b, rep_end := e\<rparr>)"

text \<open>The deprecated \<^verbatim>\<open>kaapi_workqueue_set\<close> aborts the program whatever its arguments: \<open>None\<close>.\<close>

definition kaapi_workqueue_set ::
  "kaapi_workqueue \<Rightarrow> uint64 \<Rightarrow> uint64 \<Rightarrow> (errno \<times> kaapi_workqueue) option" where
  "kaapi_workqueue_set kwq b e = None"

subsection \<open>Observers\<close>

definition kaapi_workqueue_range_begin :: "kaapi_workqueue \<Rightarrow> uint64" where
  "kaapi_workqueue_range_begin kwq = rep_beg kwq"

definition kaapi_workqueue_range_begin_ull :: "kaapi_workqueue \<Rightarrow> uint64" where
  "kaapi_workqueue_range_begin_ull kwq = rep_beg kwq"

definition kaapi_workqueue_range_end :: "kaapi_workqueue \<Rightarrow> uint64" where
  "kaapi_workqueue_range_end kwq = rep_end kwq"

definition kaapi_workqueue_range_end_ull :: "kaapi_workqueue \<Rightarrow> uint64" where
  "kaapi_workqueue_range_end_ull kwq = rep_end kwq"

definition kaapi_workqueue_size :: "kaapi_workqueue \<Rightarrow> uint64" where
  "kaapi_workqueue_size kwq =
     (let sz = rep_end kwq - rep_beg kwq in if sz <s 0 then 0 else sz)"

definition kaapi_workqueue_size_ull :: "kaapi_workqueue \<Rightarrow> uint64" where
  "kaapi_workqueue_size_ull kwq =
     (let b = rep_beg kwq; e = rep_end kwq in if e \<le> b then 0 else e - b)"

definition kaapi_workqueue_isempty :: "kaapi_workqueue \<Rightarrow> bool" where
  "kaapi_workqueue_isempty kwq \<longleftrightarrow> (let sz = rep_end kwq - rep_beg kwq in sz \<le>s 0)"

definition kaapi_workqueue_isempty_ull :: "kaapi_workqueue \<Rightarrow> bool" where
  "kaapi_workqueue_isempty_ull kwq \<longleftrightarrow>
     (let b = rep_beg kwq; e = rep_end kwq in if e \<le> b then True else False)"

subsection \<open>Pushing\<close>

definition kaapi_workqueue_push :: "kaapi_workqueue \<Rightarrow> uint64 \<Rightarrow> errno \<times> kaapi_workqueue" where
  "kaapi_workqueue_push kwq newbeg =
     (if newbeg <s rep_beg kwq then (OK, kwq\<lparr>rep_beg := newbeg\<rparr>) else (EINVAL, kwq))"

definition kaapi_workqueue_push_ull :: "kaapi_workqueue \<Rightarrow> uint64 \<Rightarrow> errno \<times> kaapi_workqueue" where
  "kaapi_workqueue_push_ull kwq newbeg =
     (if newbeg < rep_beg kwq then (OK, kwq\<lparr>rep_beg := newbeg\<rparr>) else (EINVAL, kwq))"

definition kaapi_workqueue_rpush :: "kaapi_workqueue \<Rightarrow> uint64 \<Rightarrow> errno \<times> kaapi_workqueue" where
  "kaapi_workqueue_rpush kwq newend =
     (if rep_end kwq <s newend then (OK, kwq\<lparr>rep_end := newend\<rparr>) else (EINVAL, kwq))"

definition kaapi_workqueue_rpush_ull :: "kaapi_workqueue \<Rightarrow> uint64 \<Rightarrow> errno \<times> kaapi_workqueue" where
  "kaapi_workqueue_rpush_ull kwq newend =
     (if rep_end kwq < newend then (OK, kwq\<lparr>rep_end := newend\<rparr>) else (EINVAL, kwq))"

subsection \<open>Popping and stealing\<close>

text \<open>An \<open>Inr\<close> result is the range the function stores through \<^verbatim>\<open>beg\<close> and \<^verbatim>\<open>end\<close> before it returns 0.\<close>

definition kaapi_workqueue_slowpop ::
  "kaapi_workqueue \<Rightarrow> uint64 \<Rightarrow> (errno + wq_range) \<times> kaapi_workqueue" where
  "kaapi_workqueue_slowpop kwq max_size =
     (if wq_lock kwq = None then (Inl ESRCH, kwq)
      else let loc_beg = rep_beg kwq; sz = rep_end kwq - loc_beg
           in if sz = 0 then (Inl EBUSY, kwq)
              else let sz = (if max_size <s sz then max_size else sz);
                       loc_beg = loc_beg + sz
                   in (Inr (loc_beg - sz, loc_beg), kwq\<lparr>rep_beg := loc_beg\<rparr>))"

definition kaapi_workqueue_slowpop_ull ::
  "kaapi_workqueue \<Rightarrow> uint64 \<Rightarrow> (errno + wq_range) \<times> kaapi_workqueue" where
  "kaapi_workqueue_slowpop_ull kwq max_size =
     (if wq_lock kwq = None then (Inl ESRCH, kwq)
      else let loc_beg = rep_beg kwq; loc_end = rep_end kwq
           in if loc_end \<le> loc_beg then (Inl EBUSY, kwq)
              else let sz = loc_end - loc_beg;
                       sz = (if sz > max_size then max_size else sz);
                       loc_beg = loc_beg + sz
                   in (Inr (loc_beg - sz, loc_beg), kwq\<lparr>rep_beg := loc_beg\<rparr>))"

definition kaapi_workqueue_pop ::
  "kaapi_workqueue \<Rightarrow> uint64 \<Rightarrow> (errno + wq_range) \<times> kaapi_workqueue" where
  "kaapi_workqueue_pop kwq max_size =
     (let loc_beg = rep_beg kwq;
          loc_init = loc_beg;
          loc_beg = loc_beg + max_size;
          kwq = kwq\<lparr>rep_beg := loc_beg\<rparr>
      in if loc_beg <s rep_end kwq then (Inr (loc_beg - max_size, loc_beg), kwq)
         else kaapi_workqueue_slowpop (kwq\<lparr>rep_beg := loc_init\<rparr>) max_size)"

definition kaapi_workqueue_pop_ull ::
  "kaapi_workqueue \<Rightarrow> uint64 \<Rightarrow> (errno + wq_range) \<times> kaapi_workqueue" where
  "kaapi_workqueue_pop_ull kwq max_size =
     (let loc_beg = rep_beg kwq;
          loc_init = loc_beg;
          loc_beg = loc_beg + max_size;
          kwq = kwq\<lparr>rep_beg := loc_beg\<rparr>
      in if loc_beg < rep_end kwq then (Inr (loc_beg - max_size, loc_beg), kwq)
         else kaapi_workqueue_slowpop_ull (kwq\<lparr>rep_beg := loc_init\<rparr>) max_size)"

definition kaapi_workqueue_steal ::
  "kaapi_workqueue \<Rightarrow> uint64 \<Rightarrow> (errno + wq_range) \<times> kaapi_workqueue" where
  "kaapi_workqueue_steal kwq sz =
     (let loc_end = rep_end kwq;
          loc_init = loc_end;
          loc_end = loc_end - sz;
          kwq = kwq\<lparr>rep_end := loc_end\<rparr>
      in if loc_end <s rep_beg kwq then (Inl ERANGE, kwq\<lparr>rep_end := loc_init\<rparr>)
         else (Inr (loc_end, loc_end + sz), kwq))"

definition kaapi_workqueue_steal_ull ::
  "kaapi_workqueue \<Rightarrow> uint64 \<Rightarrow> (errno + wq_range) \<times> kaapi_workqueue" where
  "kaapi_workqueue_steal_ull kwq sz =
     (let loc_end = rep_end kwq
      in if loc_end < sz then (Inl ERANGE, kwq)
         else let loc_init = loc_end;
                  loc_end = loc_end - sz;
                  kwq = kwq\<lparr>rep_end := loc_end\<rparr>
              in if loc_end < rep_beg kwq then (Inl ERANGE, kwq\<lparr>rep_end := loc_init\<rparr>)
                 else (Inr (loc_end, loc_end + sz), kwq))"

section \<open>What the owner and the thieves rely on\<close>

text \<open>\<open>lo\<close> and \<open>hi\<close> are the bounds as integers and \<open>val\<close> the value of an argument; \<open>bot\<close> and \<open>top\<close> bound what
  the C type of the bounds can hold; \<open>ready\<close> says that the queue is a range and has its lock.\<close>

locale interval_queue =
  fixes val :: "uint64 \<Rightarrow> int"
    and bot :: int
    and top :: int
    and lo :: "'q \<Rightarrow> int"
    and hi :: "'q \<Rightarrow> int"
    and ready :: "'q \<Rightarrow> bool"
    and pop :: "'q \<Rightarrow> uint64 \<Rightarrow> (errno + wq_range) \<times> 'q"
    and steal :: "'q \<Rightarrow> uint64 \<Rightarrow> (errno + wq_range) \<times> 'q"
    and push :: "'q \<Rightarrow> uint64 \<Rightarrow> errno \<times> 'q"
    and rpush :: "'q \<Rightarrow> uint64 \<Rightarrow> errno \<times> 'q"
    and isempty :: "'q \<Rightarrow> bool"
  assumes ready_le: "ready q \<Longrightarrow> lo q \<le> hi q"
    and isempty_iff: "ready q \<Longrightarrow> hi q - lo q < top \<Longrightarrow> isempty q \<longleftrightarrow> lo q = hi q"
    and pop_empty: "ready q \<Longrightarrow> 0 < val n \<Longrightarrow> lo q + val n < top \<Longrightarrow> hi q - lo q < top \<Longrightarrow> lo q = hi q \<Longrightarrow>
      pop q n = (Inl EBUSY, q)"
    and pop_some: "ready q \<Longrightarrow> 0 < val n \<Longrightarrow> lo q + val n < top \<Longrightarrow> hi q - lo q < top \<Longrightarrow> lo q < hi q \<Longrightarrow>
      \<exists>b e q'. pop q n = (Inr (b, e), q') \<and> ready q' \<and> val b = lo q \<and> val e = min (lo q + val n) (hi q)
        \<and> lo q' = val e \<and> hi q' = hi q"
    and steal_fail: "ready q \<Longrightarrow> 0 < val n \<Longrightarrow> bot \<le> hi q - val n \<Longrightarrow> hi q - val n < lo q \<Longrightarrow>
      steal q n = (Inl ERANGE, q)"
    and steal_some: "ready q \<Longrightarrow> 0 < val n \<Longrightarrow> bot \<le> hi q - val n \<Longrightarrow> lo q \<le> hi q - val n \<Longrightarrow>
      \<exists>b e q'. steal q n = (Inr (b, e), q') \<and> ready q' \<and> val b = hi q - val n \<and> val e = hi q
        \<and> lo q' = lo q \<and> hi q' = val b"
    and push_some: "ready q \<Longrightarrow> val n < lo q \<Longrightarrow>
      \<exists>q'. push q n = (OK, q') \<and> ready q' \<and> lo q' = val n \<and> hi q' = hi q"
    and push_fail: "ready q \<Longrightarrow> lo q \<le> val n \<Longrightarrow> push q n = (EINVAL, q)"
    and rpush_some: "ready q \<Longrightarrow> hi q < val n \<Longrightarrow>
      \<exists>q'. rpush q n = (OK, q') \<and> ready q' \<and> lo q' = lo q \<and> hi q' = val n"
    and rpush_fail: "ready q \<Longrightarrow> val n \<le> hi q \<Longrightarrow> rpush q n = (EINVAL, q)"

lemma sint_add_fits:
  "- (2 ^ 63) \<le> sint a + sint b \<Longrightarrow> sint a + sint b < 2 ^ 63 \<Longrightarrow> sint (a + b) = sint a + sint (b :: uint64)"
  by (simp add: sint_word_ariths(1) signed_take_bit_int_eq_self)

lemma sint_diff_fits:
  "- (2 ^ 63) \<le> sint a - sint b \<Longrightarrow> sint a - sint b < 2 ^ 63 \<Longrightarrow> sint (a - b) = sint a - sint (b :: uint64)"
  by (simp add: sint_word_ariths(2) signed_take_bit_int_eq_self)

lemma uint_add_fits: "uint a + uint b < 2 ^ 64 \<Longrightarrow> uint (a + b) = uint a + uint (b :: uint64)"
  by (simp add: uint_word_ariths(1) take_bit_int_eq_self)

lemma uint_diff_fits: "uint b \<le> uint a \<Longrightarrow> uint (a - b) = uint a - uint (b :: uint64)"
  using uint_sub_lem by blast

lemma sint64_bounds: "- (2 ^ 63) \<le> sint (a :: uint64)" "sint (a :: uint64) < 2 ^ 63"
  using sint_ge [of a] sint_lt [of a] by simp_all

definition li_lo :: "kaapi_workqueue \<Rightarrow> int" where "li_lo kwq = sint (rep_beg kwq)"
definition li_hi :: "kaapi_workqueue \<Rightarrow> int" where "li_hi kwq = sint (rep_end kwq)"
definition ull_lo :: "kaapi_workqueue \<Rightarrow> int" where "ull_lo kwq = uint (rep_beg kwq)"
definition ull_hi :: "kaapi_workqueue \<Rightarrow> int" where "ull_hi kwq = uint (rep_end kwq)"

definition li_ready :: "kaapi_workqueue \<Rightarrow> bool" where
  "li_ready kwq \<longleftrightarrow> li_lo kwq \<le> li_hi kwq \<and> wq_lock kwq \<noteq> None"

definition ull_ready :: "kaapi_workqueue \<Rightarrow> bool" where
  "ull_ready kwq \<longleftrightarrow> ull_lo kwq \<le> ull_hi kwq \<and> wq_lock kwq \<noteq> None"

lemmas li_defs = li_lo_def li_hi_def li_ready_def word_sless_alt word_sle_eq Let_def
lemmas ull_defs = ull_lo_def ull_hi_def ull_ready_def word_less_def word_le_def Let_def

subsection \<open>The signed queue meets the contract\<close>

lemma li_pop_fast:
  assumes "li_ready q" "0 < sint n" "li_lo q + sint n < 2 ^ 63" "li_lo q + sint n < li_hi q"
  shows "kaapi_workqueue_pop q n = (Inr (rep_beg q, rep_beg q + n), q\<lparr>rep_beg := rep_beg q + n\<rparr>)"
    and "sint (rep_beg q + n) = li_lo q + sint n"
proof -
  show s: "sint (rep_beg q + n) = li_lo q + sint n"
    using assms(2,3) sint64_bounds [of "rep_beg q"] by (simp add: li_lo_def sint_add_fits)
  show "kaapi_workqueue_pop q n = (Inr (rep_beg q, rep_beg q + n), q\<lparr>rep_beg := rep_beg q + n\<rparr>)"
    using s assms(4) by (simp add: kaapi_workqueue_pop_def li_defs)
qed

lemma li_pop_slow:
  assumes "0 < sint n" "li_lo q + sint n < 2 ^ 63" "\<not> li_lo q + sint n < li_hi q"
  shows "kaapi_workqueue_pop q n = kaapi_workqueue_slowpop q n"
proof -
  have s: "sint (rep_beg q + n) = li_lo q + sint n"
    using assms(1,2) sint64_bounds [of "rep_beg q"] by (simp add: li_lo_def sint_add_fits)
  then show ?thesis
    using assms(3) by (simp add: kaapi_workqueue_pop_def li_defs)
qed

lemma li_slowpop_empty:
  "li_ready q \<Longrightarrow> li_lo q = li_hi q \<Longrightarrow> kaapi_workqueue_slowpop q n = (Inl EBUSY, q)"
  by (auto simp: kaapi_workqueue_slowpop_def li_defs dest: sym intro: signed_word_eqI)

lemma li_slowpop_rest:
  assumes "li_ready q" "li_lo q < li_hi q" "li_hi q - li_lo q \<le> sint n" "li_hi q - li_lo q < 2 ^ 63"
  shows "kaapi_workqueue_slowpop q n = (Inr (rep_beg q, rep_end q), q\<lparr>rep_beg := rep_end q\<rparr>)"
proof -
  have "sint (rep_end q - rep_beg q) = li_hi q - li_lo q"
    using assms(2,4) by (simp add: li_lo_def li_hi_def sint_diff_fits)
  then show ?thesis
    using assms by (auto simp: kaapi_workqueue_slowpop_def li_defs)
qed

lemma li_pop_empty:
  "li_ready q \<Longrightarrow> 0 < sint n \<Longrightarrow> li_lo q + sint n < 2 ^ 63 \<Longrightarrow> li_lo q = li_hi q \<Longrightarrow>
   kaapi_workqueue_pop q n = (Inl EBUSY, q)"
  by (simp add: li_pop_slow li_slowpop_empty)

lemma li_pop_some:
  assumes "li_ready q" "0 < sint n" "li_lo q + sint n < 2 ^ 63" "li_hi q - li_lo q < 2 ^ 63" "li_lo q < li_hi q"
  shows "\<exists>b e q'. kaapi_workqueue_pop q n = (Inr (b, e), q') \<and> li_ready q' \<and> sint b = li_lo q \<and>
    sint e = min (li_lo q + sint n) (li_hi q) \<and> li_lo q' = sint e \<and> li_hi q' = li_hi q"
proof (cases "li_lo q + sint n < li_hi q")
  case True
  then show ?thesis
    using assms(1) li_pop_fast [OF assms(1-3) True] by (simp add: li_ready_def) (simp add: li_lo_def li_hi_def)
next
  case False
  have "kaapi_workqueue_pop q n = (Inr (rep_beg q, rep_end q), q\<lparr>rep_beg := rep_end q\<rparr>)"
    using li_pop_slow [OF assms(2,3) False] li_slowpop_rest [OF assms(1,5) _ assms(4)] False by simp
  then show ?thesis
    using assms(1) False by (simp add: li_ready_def) (simp add: li_lo_def li_hi_def)
qed

lemma li_steal:
  assumes "0 < sint n" "- (2 ^ 63) \<le> li_hi q - sint n"
  shows "kaapi_workqueue_steal q n =
      (if li_hi q - sint n < li_lo q then (Inl ERANGE, q)
       else (Inr (rep_end q - n, rep_end q), q\<lparr>rep_end := rep_end q - n\<rparr>))"
    and "sint (rep_end q - n) = li_hi q - sint n"
proof -
  show s: "sint (rep_end q - n) = li_hi q - sint n"
    using assms sint64_bounds [of "rep_end q"] by (simp add: li_hi_def sint_diff_fits)
  show "kaapi_workqueue_steal q n =
      (if li_hi q - sint n < li_lo q then (Inl ERANGE, q)
       else (Inr (rep_end q - n, rep_end q), q\<lparr>rep_end := rep_end q - n\<rparr>))"
    using s by (simp add: kaapi_workqueue_steal_def li_defs)
qed

lemma li_isempty:
  assumes "li_ready q" "li_hi q - li_lo q < 2 ^ 63"
  shows "kaapi_workqueue_isempty q \<longleftrightarrow> li_lo q = li_hi q"
proof -
  have "sint (rep_end q - rep_beg q) = li_hi q - li_lo q"
    using assms by (simp add: li_lo_def li_hi_def li_ready_def sint_diff_fits)
  then show ?thesis using assms(1) by (auto simp: kaapi_workqueue_isempty_def li_defs)
qed

interpretation li: interval_queue sint "- (2 ^ 63)" "2 ^ 63" li_lo li_hi li_ready
  kaapi_workqueue_pop kaapi_workqueue_steal kaapi_workqueue_push kaapi_workqueue_rpush
  kaapi_workqueue_isempty
proof unfold_locales
  fix q and n :: uint64
  assume r: "li_ready q"
  show "0 < sint n \<Longrightarrow> - (2 ^ 63) \<le> li_hi q - sint n \<Longrightarrow> li_lo q \<le> li_hi q - sint n \<Longrightarrow>
    \<exists>b e q'. kaapi_workqueue_steal q n = (Inr (b, e), q') \<and> li_ready q' \<and> sint b = li_hi q - sint n \<and>
      sint e = li_hi q \<and> li_lo q' = li_lo q \<and> li_hi q' = sint b"
    using r li_steal(2) [of n q]
    by (simp add: li_steal(1) li_ready_def) (simp add: li_lo_def li_hi_def)
  show "0 < sint n \<Longrightarrow> li_lo q + sint n < 2 ^ 63 \<Longrightarrow> li_hi q - li_lo q < 2 ^ 63 \<Longrightarrow> li_lo q < li_hi q \<Longrightarrow>
    \<exists>b e q'. kaapi_workqueue_pop q n = (Inr (b, e), q') \<and> li_ready q' \<and> sint b = li_lo q \<and>
      sint e = min (li_lo q + sint n) (li_hi q) \<and> li_lo q' = sint e \<and> li_hi q' = li_hi q"
    using r by (rule li_pop_some)
qed (auto simp: li_ready_def li_pop_empty li_steal(1) li_isempty
      kaapi_workqueue_push_def kaapi_workqueue_rpush_def word_sless_alt li_lo_def li_hi_def)

subsection \<open>The unsigned queue meets the contract\<close>

lemma ull_add:
  "ull_lo q + uint n < 2 ^ 64 \<Longrightarrow> uint (rep_beg q + n) = ull_lo q + uint n"
  by (simp add: ull_lo_def uint_add_fits)

lemma ull_pop_cases:
  assumes "ull_ready q" "ull_lo q + uint n < 2 ^ 64"
  shows "kaapi_workqueue_pop_ull q n =
    (if ull_lo q + uint n < ull_hi q then (Inr (rep_beg q, rep_beg q + n), q\<lparr>rep_beg := rep_beg q + n\<rparr>)
     else if ull_lo q = ull_hi q then (Inl EBUSY, q)
     else (Inr (rep_beg q, rep_end q), q\<lparr>rep_beg := rep_end q\<rparr>))"
proof -
  have d: "uint (rep_end q - rep_beg q) = ull_hi q - ull_lo q"
    using assms(1) by (simp add: ull_ready_def ull_lo_def ull_hi_def uint_diff_fits)
  have a: "uint (rep_beg q + n) = ull_lo q + uint n" using assms(2) by (rule ull_add)
  show ?thesis
    using assms(1) a d
    by (auto simp: kaapi_workqueue_pop_ull_def kaapi_workqueue_slowpop_ull_def ull_defs)
qed

lemma ull_steal:
  "kaapi_workqueue_steal_ull q n =
    (if ull_hi q - uint n < ull_lo q then (Inl ERANGE, q)
     else (Inr (rep_end q - n, rep_end q), q\<lparr>rep_end := rep_end q - n\<rparr>))"
proof (cases "uint n \<le> ull_hi q")
  case True
  then have "uint (rep_end q - n) = ull_hi q - uint n"
    by (simp add: ull_hi_def uint_diff_fits)
  then show ?thesis using True by (simp add: kaapi_workqueue_steal_ull_def ull_defs)
next
  case False
  then have "uint (rep_end q) - uint n < uint (rep_beg q)"
    using uint_ge_0 [of "rep_beg q"] unfolding ull_hi_def by linarith
  then show ?thesis using False by (simp add: kaapi_workqueue_steal_ull_def ull_defs)
qed

lemma ull_pop_some:
  assumes "ull_ready q" "0 < uint n" "ull_lo q + uint n < 2 ^ 64" "ull_lo q < ull_hi q"
  shows "\<exists>b e q'. kaapi_workqueue_pop_ull q n = (Inr (b, e), q') \<and> ull_ready q' \<and> uint b = ull_lo q \<and>
    uint e = min (ull_lo q + uint n) (ull_hi q) \<and> ull_lo q' = uint e \<and> ull_hi q' = ull_hi q"
  using assms(1,4) ull_pop_cases [OF assms(1,3)] ull_add [OF assms(3)]
  by (simp add: ull_ready_def) (simp add: ull_lo_def ull_hi_def)

lemma ull_steal_some:
  assumes "ull_ready q" "ull_lo q \<le> ull_hi q - uint n"
  shows "\<exists>b e q'. kaapi_workqueue_steal_ull q n = (Inr (b, e), q') \<and> ull_ready q' \<and> uint b = ull_hi q - uint n \<and>
    uint e = ull_hi q \<and> ull_lo q' = ull_lo q \<and> ull_hi q' = uint b"
proof -
  have "0 \<le> ull_lo q" by (simp add: ull_lo_def)
  then have "uint (rep_end q - n) = ull_hi q - uint n"
    using assms(2) by (simp add: ull_hi_def uint_diff_fits)
  then show ?thesis
    using assms by (simp add: ull_steal ull_ready_def) (simp add: ull_lo_def ull_hi_def)
qed

interpretation ull: interval_queue uint "- (2 ^ 64)" "2 ^ 64" ull_lo ull_hi ull_ready
  kaapi_workqueue_pop_ull kaapi_workqueue_steal_ull kaapi_workqueue_push_ull kaapi_workqueue_rpush_ull
  kaapi_workqueue_isempty_ull
proof unfold_locales
  fix q and n :: uint64
  assume r: "ull_ready q"
  show "ull_lo q \<le> ull_hi q - uint n \<Longrightarrow>
    \<exists>b e q'. kaapi_workqueue_steal_ull q n = (Inr (b, e), q') \<and> ull_ready q' \<and>
      uint b = ull_hi q - uint n \<and> uint e = ull_hi q \<and> ull_lo q' = ull_lo q \<and> ull_hi q' = uint b"
    using r by (rule ull_steal_some)
  show "0 < uint n \<Longrightarrow> ull_lo q + uint n < 2 ^ 64 \<Longrightarrow> ull_lo q < ull_hi q \<Longrightarrow>
    \<exists>b e q'. kaapi_workqueue_pop_ull q n = (Inr (b, e), q') \<and> ull_ready q' \<and> uint b = ull_lo q \<and>
      uint e = min (ull_lo q + uint n) (ull_hi q) \<and> ull_lo q' = uint e \<and> ull_hi q' = ull_hi q"
    using r by (rule ull_pop_some)
qed (auto simp: ull_ready_def ull_pop_cases ull_steal kaapi_workqueue_isempty_ull_def
      kaapi_workqueue_push_ull_def kaapi_workqueue_rpush_ull_def word_less_def word_le_def ull_lo_def ull_hi_def)

section \<open>Sequences of pops and steals\<close>

datatype wq_op = WPop uint64 | WSteal uint64

primrec op_size :: "wq_op \<Rightarrow> uint64" where
  "op_size (WPop n) = n"
| "op_size (WSteal n) = n"

primrec wq_step ::
  "('q \<Rightarrow> uint64 \<Rightarrow> (errno + wq_range) \<times> 'q) \<Rightarrow> ('q \<Rightarrow> uint64 \<Rightarrow> (errno + wq_range) \<times> 'q) \<Rightarrow>
   wq_op \<Rightarrow> 'q \<Rightarrow> (errno + wq_range) \<times> 'q" where
  "wq_step pop steal (WPop n) q = pop q n"
| "wq_step pop steal (WSteal n) q = steal q n"

primrec wq_run ::
  "('q \<Rightarrow> uint64 \<Rightarrow> (errno + wq_range) \<times> 'q) \<Rightarrow> ('q \<Rightarrow> uint64 \<Rightarrow> (errno + wq_range) \<times> 'q) \<Rightarrow>
   wq_op list \<Rightarrow> 'q \<Rightarrow> wq_range list \<times> 'q" where
  "wq_run pop steal [] q = ([], q)"
| "wq_run pop steal (c # cs) q =
     (case wq_step pop steal c q of (r, q') \<Rightarrow>
      case wq_run pop steal cs q' of (rs, q'') \<Rightarrow>
        (case r of Inl _ \<Rightarrow> rs | Inr rg \<Rightarrow> rg # rs, q''))"

text \<open>The loop \<^verbatim>\<open>while (kaapi_workqueue_pop(wq, &i, &j, n) == 0)\<close> of a worker that is alone on its queue.\<close>

fun wq_drain ::
  "('q \<Rightarrow> uint64 \<Rightarrow> (errno + wq_range) \<times> 'q) \<Rightarrow> uint64 \<Rightarrow> nat \<Rightarrow> 'q \<Rightarrow> wq_range list option" where
  "wq_drain pop n 0 q = None"
| "wq_drain pop n (Suc fuel) q =
     (case pop q n of (Inl _, q') \<Rightarrow> Some []
      | (Inr rg, q') \<Rightarrow> map_option ((#) rg) (wq_drain pop n fuel q'))"

definition range_list :: "(uint64 \<Rightarrow> int) \<Rightarrow> wq_range \<Rightarrow> int list" where
  "range_list val rg = [val (fst rg)..val (snd rg) - 1]"

definition range_mset :: "(uint64 \<Rightarrow> int) \<Rightarrow> wq_range \<Rightarrow> int multiset" where
  "range_mset val rg = mset_set {val (fst rg)..<val (snd rg)}"

text \<open>A size whose use on a queue with bounds \<open>l\<close> and \<open>h\<close> cannot leave the type of the bounds.\<close>

definition wq_fits :: "int \<Rightarrow> int \<Rightarrow> int \<Rightarrow> int \<Rightarrow> int \<Rightarrow> bool" where
  "wq_fits imin imax l h n \<longleftrightarrow> 0 < n \<and> h + n < imax \<and> imin \<le> l - n \<and> h - l < imax"

context interval_queue begin

lemma step_partition:
  assumes "ready q" "wq_fits bot top (lo q) (hi q) (val (op_size c))" "wq_step pop steal c q = (r, q')"
  shows "ready q' \<and> lo q \<le> lo q' \<and> hi q' \<le> hi q \<and>
    mset_set {lo q..<hi q} =
      (case r of Inl _ \<Rightarrow> {#} | Inr rg \<Rightarrow> range_mset val rg) + mset_set {lo q'..<hi q'}"
proof -
  have le: "lo q \<le> hi q" and n: "0 < val (op_size c)" "lo q + val (op_size c) < top"
    "bot \<le> hi q - val (op_size c)" "hi q - lo q < top"
    using assms(1,2) ready_le [of q] by (auto simp: wq_fits_def)
  show ?thesis
  proof (cases c)
    case (WPop n)
    note n = n [unfolded WPop op_size.simps]
    show ?thesis
    proof (cases "lo q = hi q")
      case True
      then show ?thesis using pop_empty [OF assms(1) n(1,2,4)] assms WPop by auto
    next
      case False
      then obtain b e q2 where p: "pop q n = (Inr (b, e), q2)" "ready q2" "val b = lo q"
        "val e = min (lo q + val n) (hi q)" "lo q2 = val e" "hi q2 = hi q"
        using pop_some [OF assms(1) n(1,2,4)] le by fastforce
      moreover have "mset_set {lo q..<hi q} = mset_set {lo q..<val e} + mset_set {val e..<hi q}"
        using p(4) n(1) le by (intro ivl_split) auto
      ultimately show ?thesis using assms(3) WPop n(1) le by (auto simp: range_mset_def)
    qed
  next
    case (WSteal n)
    note n = n [unfolded WSteal op_size.simps]
    show ?thesis
    proof (cases "hi q - val n < lo q")
      case True
      then show ?thesis using steal_fail [OF assms(1) n(1,3)] assms WSteal by auto
    next
      case False
      then obtain b e q2 where p: "steal q n = (Inr (b, e), q2)" "ready q2" "val b = hi q - val n"
        "val e = hi q" "lo q2 = lo q" "hi q2 = val b"
        using steal_some [OF assms(1) n(1,3)] by fastforce
      moreover have "mset_set {lo q..<hi q} = mset_set {lo q..<val b} + mset_set {val b..<hi q}"
        using p(3) n(1) False by (intro ivl_split) auto
      ultimately show ?thesis using assms(3) WSteal n(1) by (auto simp: range_mset_def)
    qed
  qed
qed

text \<open>Every index of the queue is handed out at most once, and what is not handed out is still there.\<close>

lemma run_partition:
  "ready q \<Longrightarrow> (\<forall>c \<in> set cs. wq_fits bot top (lo q) (hi q) (val (op_size c))) \<Longrightarrow> wq_run pop steal cs q = (rs, q') \<Longrightarrow>
   ready q' \<and>
   mset_set {lo q..<hi q} = sum_list (map (range_mset val) rs) + mset_set {lo q'..<hi q'}"
proof (induction cs arbitrary: q rs)
  case (Cons c cs)
  obtain r q1 where s: "wq_step pop steal c q = (r, q1)" by fastforce
  obtain rs2 where t: "wq_run pop steal cs q1 = (rs2, q')" using Cons.prems(3) s
    by (auto split: prod.splits)
  have p: "ready q1" "lo q \<le> lo q1" "hi q1 \<le> hi q"
    "mset_set {lo q..<hi q} =
      (case r of Inl _ \<Rightarrow> {#} | Inr rg \<Rightarrow> range_mset val rg) + mset_set {lo q1..<hi q1}"
    using step_partition [OF Cons.prems(1) _ s] Cons.prems(2) by auto
  have "\<forall>c \<in> set cs. wq_fits bot top (lo q1) (hi q1) (val (op_size c))"
    using Cons.prems(2) p(2,3) by (auto simp: wq_fits_def)
  then show ?case
    using Cons.IH [OF p(1) _ t] p(4) Cons.prems(3) s t by (auto split: sum.splits)
qed simp

text \<open>A worker alone on its queue sees the whole range, in order and once, and then stops.\<close>

lemma drain_all:
  "ready q \<Longrightarrow> wq_fits bot top (lo q) (hi q) (val n) \<Longrightarrow> nat (hi q - lo q) < fuel \<Longrightarrow>
   \<exists>rs. wq_drain pop n fuel q = Some rs \<and> concat (map (range_list val) rs) = [lo q..hi q - 1]"
proof (induction fuel arbitrary: q)
  case (Suc fuel)
  have le: "lo q \<le> hi q" and n: "0 < val n" "lo q + val n < top" "hi q - lo q < top"
    using Suc.prems(1,2) ready_le [of q] by (auto simp: wq_fits_def)
  show ?case
  proof (cases "lo q = hi q")
    case True
    then show ?thesis using pop_empty [OF Suc.prems(1) n] by simp
  next
    case False
    then obtain b e q2 where p: "pop q n = (Inr (b, e), q2)" "ready q2" "val b = lo q"
      "val e = min (lo q + val n) (hi q)" "lo q2 = val e" "hi q2 = hi q"
      using pop_some [OF Suc.prems(1) n] le by fastforce
    have e: "lo q < val e" "val e \<le> hi q" using p(4) n(1) False le by auto
    have "wq_fits bot top (lo q2) (hi q2) (val n)" using Suc.prems(2) e p(5,6) by (simp add: wq_fits_def)
    moreover have "nat (hi q2 - lo q2) < fuel" using Suc.prems(3) e p(5,6) by linarith
    ultimately obtain rs where "wq_drain pop n fuel q2 = Some rs"
      "concat (map (range_list val) rs) = [val e..hi q - 1]"
      using Suc.IH [OF p(2)] p(5,6) by auto
    then show ?thesis
      using p(1,3) upto_split [of "lo q" "val e" "hi q"] e range_list_def [of val "(b, e)"] by simp
  qed
qed simp

end

section \<open>Properties\<close>

text \<open>C32: a sequence of pops and steals on a signed queue, whose sizes are positive and do not overflow
  the bounds, hands out pairwise disjoint pieces of the initial range: together with what is left in
  the queue they make up exactly the initial indices, each once.\<close>

theorem workqueue_hands_out_each_index_once:
  assumes "li_ready q"
    and "\<forall>c \<in> set cs. wq_fits (- (2 ^ 63)) (2 ^ 63) (li_lo q) (li_hi q) (sint (op_size c))"
    and "wq_run kaapi_workqueue_pop kaapi_workqueue_steal cs q = (rs, q')"
  shows "mset_set {li_lo q..<li_hi q} = sum_list (map (range_mset sint) rs) + mset_set {li_lo q'..<li_hi q'}"
  using li.run_partition [OF assms] by simp

theorem workqueue_hands_out_each_index_once_witness:
  "\<exists>rs q'. wq_run kaapi_workqueue_pop kaapi_workqueue_steal [WPop 3, WSteal 4, WPop 5]
      \<lparr>rep_end = 10, rep_beg = 0, wq_lock = Some 1\<rparr> = (rs, q') \<and>
    mset_set {0..<10} = sum_list (map (range_mset sint) rs) + mset_set {li_lo q'..<li_hi q'}"
proof -
  let ?q = "\<lparr>rep_end = 10, rep_beg = 0, wq_lock = Some (1::nat)\<rparr>"
  obtain rs q' where r: "wq_run kaapi_workqueue_pop kaapi_workqueue_steal [WPop 3, WSteal 4, WPop 5] ?q = (rs, q')"
    by fastforce
  have q: "li_ready ?q" "li_lo ?q = 0" "li_hi ?q = 10"
    by (simp_all add: li_ready_def li_lo_def li_hi_def)
  have "\<forall>c \<in> set [WPop 3, WSteal 4, WPop 5]. wq_fits (- (2 ^ 63)) (2 ^ 63) (li_lo ?q) (li_hi ?q) (sint (op_size c))"
    by (simp add: wq_fits_def li_lo_def li_hi_def)
  from workqueue_hands_out_each_index_once [OF q(1) this r] show ?thesis using r q by auto
qed

text \<open>The loop that pops \<open>n\<close> indices at a time from an unsigned queue, alone on it, ends, and the ranges
  it sees are the whole initial range in order, each index once.\<close>

theorem workqueue_ull_drain:
  assumes "ull_ready q" and "wq_fits (- (2 ^ 64)) (2 ^ 64) (ull_lo q) (ull_hi q) (uint n)" and "nat (ull_hi q - ull_lo q) < fuel"
  shows "\<exists>rs. wq_drain kaapi_workqueue_pop_ull n fuel q = Some rs \<and>
    concat (map (range_list uint) rs) = [ull_lo q..ull_hi q - 1]"
  using ull.drain_all [OF assms] .

theorem workqueue_ull_drain_witness:
  "\<exists>rs. wq_drain kaapi_workqueue_pop_ull 3 9 \<lparr>rep_end = 10, rep_beg = 2, wq_lock = Some 1\<rparr> = Some rs \<and>
    concat (map (range_list uint) rs) = [2..9]"
  using workqueue_ull_drain [of "\<lparr>rep_end = 10, rep_beg = 2, wq_lock = Some 1\<rparr>" 3 9]
  by (simp add: ull_ready_def wq_fits_def ull_lo_def ull_hi_def)

text \<open>When \<open>beg + max_size\<close> exceeds the unsigned type, \<^verbatim>\<open>kaapi_workqueue_pop_ull\<close> takes the wrapped sum for a
  bound below \<open>end\<close>: it returns 0 with an end before the beginning, and moves the queue's begin down.\<close>

theorem workqueue_pop_ull_wraps:
  assumes "ull_ready q" and "2 ^ 64 \<le> ull_lo q + uint n"
  shows "kaapi_workqueue_pop_ull q n = (Inr (rep_beg q, rep_beg q + n), q\<lparr>rep_beg := rep_beg q + n\<rparr>)
    \<and> uint (rep_beg q + n) = ull_lo q + uint n - 2 ^ 64 \<and> rep_beg q + n < rep_beg q"
proof -
  have "uint n < 2 ^ 64" "ull_lo q < 2 ^ 64"
    using uint_bounded [of n] uint_bounded [of "rep_beg q"] by (simp_all add: ull_lo_def)
  then have "(ull_lo q + uint n) mod 2 ^ 64 = ull_lo q + uint n - 2 ^ 64"
    using assms(2) mod_pos_pos_trivial [of "ull_lo q + uint n - 2 ^ 64" "2 ^ 64"] by simp
  then have s: "uint (rep_beg q + n) = ull_lo q + uint n - 2 ^ 64"
    by (simp add: uint_word_ariths(1) ull_lo_def)
  then have lt: "rep_beg q + n < rep_beg q"
    using \<open>uint n < 2 ^ 64\<close> by (simp add: word_less_def ull_lo_def)
  then have "rep_beg q + n < rep_end q"
    using assms(1) by (simp add: ull_defs)
  then have "kaapi_workqueue_pop_ull q n = (Inr (rep_beg q, rep_beg q + n), q\<lparr>rep_beg := rep_beg q + n\<rparr>)"
    by (simp add: kaapi_workqueue_pop_ull_def Let_def)
  then show ?thesis using s lt by blast
qed

theorem workqueue_pop_ull_wraps_witness:
  "kaapi_workqueue_pop_ull \<lparr>rep_end = 20, rep_beg = 10, wq_lock = Some 1\<rparr> (- 5) =
   (Inr (10, 5), \<lparr>rep_end = 20, rep_beg = 5, wq_lock = Some 1\<rparr>)"
  using workqueue_pop_ull_wraps [of "\<lparr>rep_end = 20, rep_beg = 10, wq_lock = Some 1\<rparr>" "- 5"]
  by (simp add: ull_ready_def ull_lo_def ull_hi_def)

end
