(* ===== verification/The_Protocol.thy ===== *)
theory The_Protocol
  imports Workqueue
begin

text \<open>
  The work queue of \<open>Workqueue\<close> under concurrency: the owner pops and pushes without a lock, thieves
  steal under the lock of the queue, and the two sides meet in the manner of Dijkstra's protocol,
  where each side first publishes its new bound, then passes \<^verbatim>\<open>kaapi_mem_barrier\<close> and then reads
  the bound of the other.  The memory is the x86-TSO machine for which the code has its barriers: a
  store waits in the store buffer of its thread and reaches the memory later, in order; a thread reads its own
  buffered stores; \<^verbatim>\<open>mfence\<close> and the locked instructions wait until the buffer is empty.  Every
  access to \<^verbatim>\<open>rep.li.beg\<close> and \<^verbatim>\<open>rep.li.end\<close> is a step of its own.  The bounds are integers (an
  overflow of \<^verbatim>\<open>long\<close> is undefined in C).  The lock is the one of \<open>Spinlock\<close>: taken with an empty
  buffer, released after a barrier.
\<close>

section \<open>State\<close>

text \<open>Where the owner is in \<^verbatim>\<open>kaapi_workqueue_pop\<close>, \<^verbatim>\<open>_slowpop\<close> or \<^verbatim>\<open>_push\<close>, with the local variables it still
  needs (the requested size, then \<^verbatim>\<open>loc_init\<close>), and a thief in \<^verbatim>\<open>kaapi_workqueue_steal\<close>.\<close>

datatype owner_pc =
    OIdle
  | OWrite int int
  | OFence int int
  | ORead int int
  | OConflict int int
  | OLock int
  | OSlow int
  | OSlowEnd int int
  | OSlowWrite int int
  | OUnlock
  | OPush int int

datatype thief_pc = TOut | TIn | TWrite int int | TFence int int | TRead int int | TRollback int int

datatype holder = Owner | Thief nat

text \<open>\<open>pushed\<close> and \<open>taken\<close> are histories: the indices put into the queue, and those returned by pops and
  steals.\<close>

record tso_state =
  mbeg :: int
  mend :: int
  obuf :: "int list"
  tbuf :: "nat \<Rightarrow> int list"
  lockh :: "holder option"
  opc :: owner_pc
  tpc :: "nat \<Rightarrow> thief_pc"
  pushed :: "int multiset"
  taken :: "int multiset"

text \<open>What a thread reads at its own bound: its last buffered store, or the memory.\<close>

definition beg_view :: "tso_state \<Rightarrow> int" where
  "beg_view s = last (mbeg s # obuf s)"

definition end_view :: "nat \<Rightarrow> tso_state \<Rightarrow> int" where
  "end_view t s = last (mend s # tbuf s t)"

definition the_start :: "int \<Rightarrow> int \<Rightarrow> tso_state" where
  "the_start b e = \<lparr>mbeg = b, mend = e, obuf = [], tbuf = (\<lambda>_. []), lockh = None, opc = OIdle,
     tpc = (\<lambda>_. TOut), pushed = mset_set {b..<e}, taken = {#}\<rparr>"

section \<open>Steps\<close>

inductive pop_step :: "tso_state \<Rightarrow> tso_state \<Rightarrow> bool" where
  pop_call: "opc s = OIdle \<Longrightarrow> 0 < m \<Longrightarrow> pop_step s (s\<lparr>opc := OWrite m (beg_view s)\<rparr>)"
| pop_write: "opc s = OWrite m b \<Longrightarrow> pop_step s (s\<lparr>obuf := obuf s @ [b + m], opc := OFence m b\<rparr>)"
| pop_fence: "opc s = OFence m b \<Longrightarrow> obuf s = [] \<Longrightarrow> pop_step s (s\<lparr>opc := ORead m b\<rparr>)"
| pop_take: "opc s = ORead m b \<Longrightarrow> b + m < mend s \<Longrightarrow>
    pop_step s (s\<lparr>opc := OIdle, taken := taken s + mset_set {b..<b + m}\<rparr>)"
| pop_conflict: "opc s = ORead m b \<Longrightarrow> \<not> b + m < mend s \<Longrightarrow> pop_step s (s\<lparr>opc := OConflict m b\<rparr>)"
| pop_restore: "opc s = OConflict m b \<Longrightarrow> pop_step s (s\<lparr>obuf := obuf s @ [b], opc := OLock m\<rparr>)"

inductive slowpop_step :: "tso_state \<Rightarrow> tso_state \<Rightarrow> bool" where
  slow_lock: "opc s = OLock m \<Longrightarrow> obuf s = [] \<Longrightarrow> lockh s = None \<Longrightarrow>
    slowpop_step s (s\<lparr>lockh := Some Owner, opc := OSlow m\<rparr>)"
| slow_beg: "opc s = OSlow m \<Longrightarrow> slowpop_step s (s\<lparr>opc := OSlowEnd m (beg_view s)\<rparr>)"
| slow_empty: "opc s = OSlowEnd m b \<Longrightarrow> mend s - b = 0 \<Longrightarrow> slowpop_step s (s\<lparr>opc := OUnlock\<rparr>)"
| slow_size: "opc s = OSlowEnd m b \<Longrightarrow> mend s - b \<noteq> 0 \<Longrightarrow>
    slowpop_step s (s\<lparr>opc := OSlowWrite b (if mend s - b > m then m else mend s - b)\<rparr>)"
| slow_write: "opc s = OSlowWrite b k \<Longrightarrow>
    slowpop_step s (s\<lparr>obuf := obuf s @ [b + k], opc := OUnlock, taken := taken s + mset_set {b..<b + k}\<rparr>)"
| slow_unlock: "opc s = OUnlock \<Longrightarrow> obuf s = [] \<Longrightarrow>
    slowpop_step s (s\<lparr>lockh := None, opc := OIdle\<rparr>)"

inductive push_step :: "tso_state \<Rightarrow> tso_state \<Rightarrow> bool" where
  push_call: "opc s = OIdle \<Longrightarrow> newbeg < beg_view s \<Longrightarrow> push_step s (s\<lparr>opc := OPush newbeg (beg_view s)\<rparr>)"
| push_write: "opc s = OPush newbeg b \<Longrightarrow> obuf s = [] \<Longrightarrow>
    push_step s (s\<lparr>obuf := obuf s @ [newbeg], opc := OIdle, pushed := pushed s + mset_set {newbeg..<b}\<rparr>)"

inductive thief_step :: "nat \<Rightarrow> tso_state \<Rightarrow> tso_state \<Rightarrow> bool" for t where
  thief_lock: "tpc s t = TOut \<Longrightarrow> tbuf s t = [] \<Longrightarrow> lockh s = None \<Longrightarrow>
    thief_step t s (s\<lparr>lockh := Some (Thief t), tpc := (tpc s)(t := TIn)\<rparr>)"
| thief_call: "tpc s t = TIn \<Longrightarrow> 0 < n \<Longrightarrow>
    thief_step t s (s\<lparr>tpc := (tpc s)(t := TWrite n (end_view t s))\<rparr>)"
| thief_write: "tpc s t = TWrite n e \<Longrightarrow>
    thief_step t s (s\<lparr>tbuf := (tbuf s)(t := tbuf s t @ [e - n]), tpc := (tpc s)(t := TFence n e)\<rparr>)"
| thief_fence: "tpc s t = TFence n e \<Longrightarrow> tbuf s t = [] \<Longrightarrow>
    thief_step t s (s\<lparr>tpc := (tpc s)(t := TRead n e)\<rparr>)"
| thief_fail: "tpc s t = TRead n e \<Longrightarrow> e - n < mbeg s \<Longrightarrow>
    thief_step t s (s\<lparr>tpc := (tpc s)(t := TRollback n e)\<rparr>)"
| thief_rollback: "tpc s t = TRollback n e \<Longrightarrow>
    thief_step t s (s\<lparr>tbuf := (tbuf s)(t := tbuf s t @ [e]), tpc := (tpc s)(t := TIn)\<rparr>)"
| thief_take: "tpc s t = TRead n e \<Longrightarrow> \<not> e - n < mbeg s \<Longrightarrow>
    thief_step t s (s\<lparr>tpc := (tpc s)(t := TIn), taken := taken s + mset_set {e - n..<e}\<rparr>)"
| thief_unlock: "tpc s t = TIn \<Longrightarrow> tbuf s t = [] \<Longrightarrow>
    thief_step t s (s\<lparr>lockh := None, tpc := (tpc s)(t := TOut)\<rparr>)"

text \<open>The oldest store of a buffer reaches the memory.\<close>

inductive flush_step :: "tso_state \<Rightarrow> tso_state \<Rightarrow> bool" where
  flush_owner: "obuf s = x # xs \<Longrightarrow> flush_step s (s\<lparr>mbeg := x, obuf := xs\<rparr>)"
| flush_thief: "tbuf s t = x # xs \<Longrightarrow> flush_step s (s\<lparr>mend := x, tbuf := (tbuf s)(t := xs)\<rparr>)"

inductive the_step :: "tso_state \<Rightarrow> tso_state \<Rightarrow> bool" where
  the_pop: "pop_step s s' \<Longrightarrow> the_step s s'"
| the_slow: "slowpop_step s s' \<Longrightarrow> the_step s s'"
| the_push: "push_step s s' \<Longrightarrow> the_step s s'"
| the_thief: "thief_step t s s' \<Longrightarrow> the_step s s'"
| the_flush: "flush_step s s' \<Longrightarrow> the_step s s'"

inductive the_reachable :: "int \<Rightarrow> int \<Rightarrow> tso_state \<Rightarrow> bool" for b e where
  the_init: "the_reachable b e (the_start b e)"
| the_next: "the_reachable b e s \<Longrightarrow> the_step s s' \<Longrightarrow> the_reachable b e s'"

section \<open>The invariant\<close>

text \<open>The bounds of what is still in the queue: a bound that was moved on trial counts at its old value
  until the check decides.\<close>

definition rb :: "tso_state \<Rightarrow> int" where
  "rb s = (case opc s of OFence m b \<Rightarrow> b | ORead m b \<Rightarrow> b | OConflict m b \<Rightarrow> b | _ \<Rightarrow> beg_view s)"

definition re :: "tso_state \<Rightarrow> int" where
  "re s = (case lockh s of
       Some (Thief t) \<Rightarrow> (case tpc s t of TFence n e \<Rightarrow> e | TRead n e \<Rightarrow> e | TRollback n e \<Rightarrow> e
                          | _ \<Rightarrow> end_view t s)
     | _ \<Rightarrow> mend s)"

primrec owner_ok :: "owner_pc \<Rightarrow> tso_state \<Rightarrow> bool" where
  "owner_ok OIdle s \<longleftrightarrow> True"
| "owner_ok (OWrite m b) s \<longleftrightarrow> 0 < m \<and> beg_view s = b"
| "owner_ok (OFence m b) s \<longleftrightarrow> 0 < m \<and> beg_view s = b + m"
| "owner_ok (ORead m b) s \<longleftrightarrow> 0 < m \<and> obuf s = [] \<and> mbeg s = b + m"
| "owner_ok (OConflict m b) s \<longleftrightarrow> 0 < m \<and> obuf s = [] \<and> mbeg s = b + m"
| "owner_ok (OLock m) s \<longleftrightarrow> 0 < m"
| "owner_ok (OSlow m) s \<longleftrightarrow> 0 < m \<and> obuf s = []"
| "owner_ok (OSlowEnd m b) s \<longleftrightarrow> 0 < m \<and> obuf s = [] \<and> mbeg s = b"
| "owner_ok (OSlowWrite b k) s \<longleftrightarrow> 0 < k \<and> obuf s = [] \<and> mbeg s = b \<and> b + k \<le> mend s"
| "owner_ok OUnlock s \<longleftrightarrow> True"
| "owner_ok (OPush n b) s \<longleftrightarrow> n < b \<and> beg_view s = b"

primrec owner_locks :: "owner_pc \<Rightarrow> bool" where
  "owner_locks OIdle = False"
| "owner_locks (OWrite m b) = False"
| "owner_locks (OFence m b) = False"
| "owner_locks (ORead m b) = False"
| "owner_locks (OConflict m b) = False"
| "owner_locks (OLock m) = False"
| "owner_locks (OSlow m) = True"
| "owner_locks (OSlowEnd m b) = True"
| "owner_locks (OSlowWrite b k) = True"
| "owner_locks OUnlock = True"
| "owner_locks (OPush n b) = False"

primrec thief_ok :: "thief_pc \<Rightarrow> nat \<Rightarrow> tso_state \<Rightarrow> bool" where
  "thief_ok TOut t s \<longleftrightarrow> tbuf s t = []"
| "thief_ok TIn t s \<longleftrightarrow> True"
| "thief_ok (TWrite n e) t s \<longleftrightarrow> 0 < n \<and> end_view t s = e"
| "thief_ok (TFence n e) t s \<longleftrightarrow> 0 < n \<and> end_view t s = e - n"
| "thief_ok (TRead n e) t s \<longleftrightarrow> 0 < n \<and> tbuf s t = [] \<and> mend s = e - n"
| "thief_ok (TRollback n e) t s \<longleftrightarrow> 0 < n \<and> tbuf s t = [] \<and> mend s = e - n"

definition the_inv :: "tso_state \<Rightarrow> bool" where
  "the_inv s \<longleftrightarrow>
     owner_ok (opc s) s
   \<and> (\<forall>t. thief_ok (tpc s t) t s)
   \<and> (lockh s = Some Owner \<longleftrightarrow> owner_locks (opc s))
   \<and> (\<forall>t. tpc s t \<noteq> TOut \<longleftrightarrow> lockh s = Some (Thief t))
   \<and> (lockh s \<noteq> Some Owner \<longrightarrow> (\<forall>x \<in> set (mbeg s # obuf s). rb s \<le> x))
   \<and> (\<forall>t. lockh s = Some (Thief t) \<longrightarrow> (\<forall>x \<in> set (mend s # tbuf s t). x \<le> re s))
   \<and> rb s \<le> re s
   \<and> taken s + mset_set {rb s..<re s} = pushed s"


text \<open>Which fields each part of the invariant depends on.\<close>

lemma re_frame [heap_upd]:
  "re (s\<lparr>opc := x\<rparr>) = re s" "re (s\<lparr>obuf := y\<rparr>) = re s" "re (s\<lparr>mbeg := z\<rparr>) = re s"
  "re (s\<lparr>taken := m\<rparr>) = re s" "re (s\<lparr>pushed := m\<rparr>) = re s"
  by (simp_all add: re_def end_view_def split: option.split holder.split thief_pc.split)

lemma beg_view_frame [heap_upd]:
  "beg_view (s\<lparr>opc := p\<rparr>) = beg_view s" "beg_view (s\<lparr>taken := m\<rparr>) = beg_view s"
  "beg_view (s\<lparr>pushed := m\<rparr>) = beg_view s" "beg_view (s\<lparr>lockh := l\<rparr>) = beg_view s"
  "beg_view (s\<lparr>tpc := tp\<rparr>) = beg_view s" "beg_view (s\<lparr>mend := z\<rparr>) = beg_view s"
  "beg_view (s\<lparr>tbuf := tb\<rparr>) = beg_view s"
  "beg_view (s\<lparr>obuf := buf @ [x]\<rparr>) = x" "beg_view (s\<lparr>obuf := [x]\<rparr>) = x"
  "obuf s = x # xs \<Longrightarrow> beg_view (s\<lparr>mbeg := x, obuf := xs\<rparr>) = beg_view s"
  by (simp_all add: beg_view_def)

lemma rb_frame [heap_upd]:
  "rb (s\<lparr>taken := m\<rparr>) = rb s" "rb (s\<lparr>pushed := m\<rparr>) = rb s" "rb (s\<lparr>lockh := l\<rparr>) = rb s"
  "rb (s\<lparr>tpc := tp\<rparr>) = rb s" "rb (s\<lparr>mend := z\<rparr>) = rb s" "rb (s\<lparr>tbuf := tb\<rparr>) = rb s"
  by (simp_all add: rb_def beg_view_frame split: owner_pc.split)

lemma end_view_frame [heap_upd]:
  "end_view t (s\<lparr>opc := p\<rparr>) = end_view t s" "end_view t (s\<lparr>taken := m\<rparr>) = end_view t s"
  "end_view t (s\<lparr>pushed := m\<rparr>) = end_view t s" "end_view t (s\<lparr>lockh := l\<rparr>) = end_view t s"
  "end_view t (s\<lparr>tpc := tp\<rparr>) = end_view t s" "end_view t (s\<lparr>mbeg := z\<rparr>) = end_view t s"
  "end_view t (s\<lparr>obuf := ob\<rparr>) = end_view t s"
  "end_view t (s\<lparr>tbuf := (tbuf s)(t := buf @ [x])\<rparr>) = x"
  "tbuf s t = x # xs \<Longrightarrow> end_view t (s\<lparr>mend := x, tbuf := (tbuf s)(t := xs)\<rparr>) = end_view t s"
  by (simp_all add: end_view_def)

lemma thief_ok_frame [heap_upd]:
  "thief_ok p t (s\<lparr>opc := x\<rparr>) = thief_ok p t s" "thief_ok p t (s\<lparr>obuf := y\<rparr>) = thief_ok p t s"
  "thief_ok p t (s\<lparr>mbeg := z\<rparr>) = thief_ok p t s" "thief_ok p t (s\<lparr>taken := m\<rparr>) = thief_ok p t s"
  "thief_ok p t (s\<lparr>pushed := m\<rparr>) = thief_ok p t s" "thief_ok p t (s\<lparr>lockh := l\<rparr>) = thief_ok p t s"
  "thief_ok p t (s\<lparr>tpc := tp\<rparr>) = thief_ok p t s"
  by (cases p; simp add: end_view_frame)+

lemma owner_ok_frame [heap_upd]:
  "owner_ok p (s\<lparr>opc := x\<rparr>) = owner_ok p s" "owner_ok p (s\<lparr>taken := m\<rparr>) = owner_ok p s"
  "owner_ok p (s\<lparr>pushed := m\<rparr>) = owner_ok p s" "owner_ok p (s\<lparr>lockh := l\<rparr>) = owner_ok p s"
  "owner_ok p (s\<lparr>tpc := tp\<rparr>) = owner_ok p s" "owner_ok p (s\<lparr>tbuf := tb\<rparr>) = owner_ok p s"
  "\<not> owner_locks p \<Longrightarrow> owner_ok p (s\<lparr>mend := z\<rparr>) = owner_ok p s"
  by (cases p; simp add: beg_view_frame)+

lemma the_inv_start: "b \<le> e \<Longrightarrow> the_inv (the_start b e)"
  by (simp add: the_inv_def rb_def re_def beg_view_def the_start_def)

lemma mend_le_re: "the_inv s \<Longrightarrow> mend s \<le> re s"
  by (auto simp: the_inv_def re_def split: option.splits holder.splits)

subsection \<open>Steps of the owner\<close>

lemma pop_inv [kaapi_inv]: "pop_step s s' \<Longrightarrow> the_inv s \<Longrightarrow> the_inv s'"
proof (induction rule: pop_step.induct)
  case (pop_fence s m b)
  then show ?case by (clarsimp simp: the_inv_def rb_def heap_upd) (simp add: beg_view_def)
next
  case (pop_take s m b)
  have "0 < m" using pop_take by (simp add: the_inv_def)
  moreover have le: "b + m \<le> re s" using pop_take mend_le_re [of s] by linarith
  ultimately have "mset_set {b..<re s} = mset_set {b..<b + m} + mset_set {b + m..<re s}"
    by (intro ivl_split) auto
  with le show ?case using pop_take
    by (clarsimp simp: the_inv_def rb_def heap_upd) (simp add: beg_view_def add.assoc)
qed (clarsimp simp: the_inv_def rb_def heap_upd)+

lemma push_inv [kaapi_inv]: "push_step s s' \<Longrightarrow> the_inv s \<Longrightarrow> the_inv s'"
proof (induction rule: push_step.induct)
  case (push_write s n b)
  have "b \<le> re s" "n < b" using push_write by (auto simp: the_inv_def rb_def)
  then have "mset_set {n..<re s} = mset_set {n..<b} + mset_set {b..<re s}" by (intro ivl_split) auto
  then show ?case
    using push_write by (clarsimp simp: the_inv_def rb_def heap_upd)
qed (clarsimp simp: the_inv_def rb_def heap_upd)

lemma slowpop_inv [kaapi_inv]: "slowpop_step s s' \<Longrightarrow> the_inv s \<Longrightarrow> the_inv s'"
proof (induction rule: slowpop_step.induct)
  case (slow_write s b k)
  then have "mset_set {b..<mend s} = mset_set {b..<b + k} + mset_set {b + k..<mend s}"
    by (intro ivl_split) (auto simp: the_inv_def)
  then show ?case using slow_write by (clarsimp simp: the_inv_def rb_def re_def heap_upd) (simp add: beg_view_def add.assoc)
next
  case (slow_lock s m)
  then show ?case by (clarsimp simp: the_inv_def rb_def re_def heap_upd) 
next
  case (slow_beg s m)
  then show ?case by (clarsimp simp: the_inv_def rb_def re_def heap_upd) (simp add: beg_view_def)
next
  case (slow_empty s m b)
  then show ?case by (clarsimp simp: the_inv_def rb_def re_def heap_upd)
next
  case (slow_size s m b)
  then show ?case by (clarsimp simp: the_inv_def rb_def re_def heap_upd) (simp add: beg_view_def)
next
  case (slow_unlock s)
  then show ?case by (clarsimp simp: the_inv_def rb_def re_def heap_upd) (simp add: beg_view_def)
qed

subsection \<open>Steps of a thief\<close>

text \<open>A thief that is in its critical section holds the lock, so the other ones are outside, with empty
  buffers.\<close>

lemma thief_holds:
  assumes "the_inv s" "tpc s t \<noteq> TOut"
  shows "lockh s = Some (Thief t)" and "u \<noteq> t \<Longrightarrow> tpc s u = TOut" and "u \<noteq> t \<Longrightarrow> tbuf s u = []"
proof -
  show l: "lockh s = Some (Thief t)" using assms by (simp add: the_inv_def)
  show o: "tpc s u = TOut" if "u \<noteq> t" for u using assms(1) l that by (auto simp: the_inv_def)
  show "tbuf s u = []" if "u \<noteq> t" using assms(1) o [OF that] that by (auto simp: the_inv_def dest: spec [of _ u])
qed

text \<open>The invariant, seen from the thief that holds the lock.\<close>

lemma the_inv_thief:
  "lockh s = Some (Thief t) \<Longrightarrow>
   the_inv s \<longleftrightarrow> owner_ok (opc s) s \<and> \<not> owner_locks (opc s) \<and> tpc s t \<noteq> TOut \<and> thief_ok (tpc s t) t s
     \<and> (\<forall>u. u \<noteq> t \<longrightarrow> tpc s u = TOut \<and> tbuf s u = [])
     \<and> (\<forall>x \<in> set (mbeg s # obuf s). rb s \<le> x)
     \<and> (\<forall>x \<in> set (mend s # tbuf s t). x \<le> re s)
     \<and> rb s \<le> re s \<and> taken s + mset_set {rb s..<re s} = pushed s"
  by (auto simp: the_inv_def) (metis thief_ok.simps(1))+

lemma thief_inv [kaapi_inv]: "thief_step t s s' \<Longrightarrow> the_inv s \<Longrightarrow> the_inv s'"
proof (induction rule: thief_step.induct)
  case (thief_lock s)
  then show ?case by (auto simp: the_inv_def rb_frame re_def heap_upd end_view_def)
next
  case (thief_call s n)
  note l = thief_holds(1) [of s t]
  show ?case using thief_call l by (clarsimp simp: the_inv_thief re_def heap_upd)
next
  case (thief_write s n e)
  note l = thief_holds(1) [of s t]
  show ?case using thief_write l by (clarsimp simp: the_inv_thief re_def heap_upd)
next
  case (thief_fence s n e)
  note l = thief_holds(1) [of s t]
  show ?case using thief_fence l by (clarsimp simp: the_inv_thief re_def heap_upd end_view_def)
next
  case (thief_fail s n e)
  note l = thief_holds(1) [of s t]
  show ?case using thief_fail l by (clarsimp simp: the_inv_thief re_def heap_upd)
next
  case (thief_rollback s n e)
  note l = thief_holds(1) [of s t]
  show ?case using thief_rollback l by (clarsimp simp: the_inv_thief re_def heap_upd end_view_def)
next
  case (thief_take s n e)
  have l: "lockh s = Some (Thief t)" using thief_holds(1) [of s t] thief_take by simp
  then have r: "re s = e" and le: "rb s \<le> e - n" and n: "0 < n"
    using thief_take by (simp_all add: the_inv_thief re_def)
  then have "mset_set {rb s..<e} = mset_set {rb s..<e - n} + mset_set {e - n..<e}"
    by (intro ivl_split) auto
  then show ?case using thief_take l r le n
    by (clarsimp simp: the_inv_thief re_def heap_upd) (simp add: end_view_def ac_simps)
next
  case (thief_unlock s)
  have l: "lockh s = Some (Thief t)" using thief_holds(1) [of s t] thief_unlock by simp
  then have "re s = mend s" "\<forall>u. tbuf s u = []"
    using thief_unlock by (auto simp: re_def end_view_def the_inv_thief)
  then show ?case using thief_unlock l
    by (auto simp: the_inv_thief) (auto simp: the_inv_def re_def rb_frame heap_upd)
qed

subsection \<open>Stores that reach the memory\<close>

lemma flush_inv [kaapi_inv]: "flush_step s s' \<Longrightarrow> the_inv s \<Longrightarrow> the_inv s'"
proof (induction rule: flush_step.induct)
  case (flush_owner s x xs)
  have "rb (s\<lparr>mbeg := x, obuf := xs\<rparr>) = rb s"
    using flush_owner by (simp add: rb_def heap_upd split: owner_pc.split)
  moreover have "owner_ok (opc s) (s\<lparr>mbeg := x, obuf := xs\<rparr>)"
    using flush_owner by (cases "opc s") (simp_all add: the_inv_def heap_upd)
  ultimately show ?case using flush_owner by (simp add: the_inv_def heap_upd)
next
  case (flush_thief s t x xs)
  let ?s = "s\<lparr>mend := x, tbuf := (tbuf s)(t := xs)\<rparr>"
  have "thief_ok (tpc s t) t s" using flush_thief by (simp add: the_inv_def)
  then have l: "lockh s = Some (Thief t)"
    using flush_thief by (cases "tpc s t = TOut") (simp_all add: thief_holds(1))
  have "re ?s = re s"
    using flush_thief l by (simp add: re_def heap_upd split: thief_pc.split)
  moreover have "thief_ok (tpc s t) t ?s"
    using flush_thief l by (cases "tpc s t") (simp_all add: the_inv_thief heap_upd)
  moreover have "owner_ok (opc s) ?s"
    using flush_thief l by (simp add: the_inv_thief heap_upd owner_ok_frame)
  ultimately show ?case using flush_thief l by (simp add: the_inv_thief heap_upd)
qed

lemma the_step_inv: "the_step s s' \<Longrightarrow> the_inv s \<Longrightarrow> the_inv s'"
  by (induction rule: the_step.induct) (auto intro: kaapi_inv)

lemma the_reachable_inv: "the_reachable b e s \<Longrightarrow> b \<le> e \<Longrightarrow> the_inv s"
  by (induction rule: the_reachable.induct) (auto intro: the_inv_start the_step_inv)

section \<open>Properties\<close>

text \<open>C2: on the x86-TSO memory, however the pops and pushes of the owner, the steals of any number of
  thieves and the draining of their store buffers interleave, the indices that were handed out
  and those still in the queue are together exactly the indices that were put in, each once.\<close>

theorem the_protocol_no_loss_no_duplicate:
  assumes "the_reachable b e s" and "b \<le> e"
  shows "rb s \<le> re s \<and> taken s + mset_set {rb s..<re s} = pushed s"
  using the_reachable_inv [OF assms] by (simp add: the_inv_def)

theorem the_protocol_no_loss_no_duplicate_witness:
  "the_reachable 0 5 ((the_start 0 5)\<lparr>obuf := [2], opc := OFence 2 0\<rparr>) \<and>
   taken ((the_start 0 5)\<lparr>obuf := [2], opc := OFence 2 0\<rparr>) +
     mset_set {rb ((the_start 0 5)\<lparr>obuf := [2], opc := OFence 2 0\<rparr>)..<
               re ((the_start 0 5)\<lparr>obuf := [2], opc := OFence 2 0\<rparr>)} = mset_set {0..<5}"
proof -
  have "the_reachable 0 5 ((the_start 0 5)\<lparr>opc := OWrite 2 0\<rparr>)"
    using the_next [OF the_init the_pop [OF pop_call [of "the_start 0 5" 2]]]
    by (simp add: the_start_def beg_view_def)
  from the_next [OF this the_pop [OF pop_write [of _ 2 0]]]
  have r: "the_reachable 0 5 ((the_start 0 5)\<lparr>obuf := [2], opc := OFence 2 0\<rparr>)"
    by (simp add: the_start_def)
  have "pushed ((the_start 0 5)\<lparr>obuf := [2], opc := OFence 2 0\<rparr>) = mset_set {0..<5}"
    by (simp add: the_start_def)
  moreover have "(0 :: int) \<le> 5" by simp
  ultimately show ?thesis using r the_protocol_no_loss_no_duplicate [OF r] by presburger
qed

text \<open>C33: \<^verbatim>\<open>kaapi_workqueue_slowpop\<close> answers \<^verbatim>\<open>EBUSY\<close> only when every index that was ever put into the queue
  has been handed out: no work is left behind by an owner that stops on \<^verbatim>\<open>EBUSY\<close>.\<close>

theorem slowpop_empty_means_all_taken:
  assumes "the_reachable b e s" and "b \<le> e" and "opc s = OSlowEnd m l" and "mend s - l = 0"
  shows "taken s = pushed s"
proof -
  have i: "the_inv s" using the_reachable_inv [OF assms(1,2)] .
  then have "lockh s = Some Owner" "rb s = l" using assms(3) by (simp_all add: the_inv_def rb_def beg_view_def)
  then show ?thesis using i assms(4) by (simp add: the_inv_def re_def)
qed

theorem slowpop_empty_means_all_taken_witness:
  "taken ((the_start 0 0)\<lparr>lockh := Some Owner, opc := OSlowEnd 1 0\<rparr>) =
   pushed ((the_start 0 0)\<lparr>lockh := Some Owner, opc := OSlowEnd 1 0\<rparr>)"
proof -
  let ?s = "the_start 0 0"
  note d = the_start_def beg_view_def
  have "the_reachable 0 0 (?s\<lparr>opc := OWrite 1 0\<rparr>)"
    using the_next [OF the_init the_pop [OF pop_call [of ?s 1]]] by (simp add: d)
  from the_next [OF this the_pop [OF pop_write [of _ 1 0]]]
  have "the_reachable 0 0 (?s\<lparr>obuf := [1], opc := OFence 1 0\<rparr>)" by (simp add: d)
  from the_next [OF this the_flush [OF flush_owner [of _ 1 "[]"]]]
  have "the_reachable 0 0 (?s\<lparr>mbeg := 1, opc := OFence 1 0\<rparr>)" by (simp add: d)
  from the_next [OF this the_pop [OF pop_fence [of _ 1 0]]]
  have "the_reachable 0 0 (?s\<lparr>mbeg := 1, opc := ORead 1 0\<rparr>)" by (simp add: d)
  from the_next [OF this the_pop [OF pop_conflict [of _ 1 0]]]
  have "the_reachable 0 0 (?s\<lparr>mbeg := 1, opc := OConflict 1 0\<rparr>)" by (simp add: d)
  from the_next [OF this the_pop [OF pop_restore [of _ 1 0]]]
  have "the_reachable 0 0 (?s\<lparr>mbeg := 1, obuf := [0], opc := OLock 1\<rparr>)" by (simp add: d)
  from the_next [OF this the_flush [OF flush_owner [of _ 0 "[]"]]]
  have "the_reachable 0 0 (?s\<lparr>opc := OLock 1\<rparr>)" by (simp add: d)
  from the_next [OF this the_slow [OF slow_lock [of _ 1]]]
  have "the_reachable 0 0 (?s\<lparr>lockh := Some Owner, opc := OSlow 1\<rparr>)" by (simp add: d)
  from the_next [OF this the_slow [OF slow_beg [of _ 1]]]
  have "the_reachable 0 0 (?s\<lparr>lockh := Some Owner, opc := OSlowEnd 1 0\<rparr>)" by (simp add: d)
  from slowpop_empty_means_all_taken [OF this, of 1 0] show ?thesis by (simp add: d)
qed

text \<open>The owner never gets stuck in an operation: in every reachable state where it is inside one, it
  can take a step or one of its stores can drain, unless it waits for the lock that a thief holds.\<close>

theorem owner_can_proceed:
  assumes "the_reachable b e s" and "b \<le> e" and "opc s \<noteq> OIdle"
  shows "(\<exists>s'. pop_step s s' \<or> slowpop_step s s' \<or> push_step s s' \<or> flush_step s s')
    \<or> (\<exists>m t. opc s = OLock m \<and> lockh s = Some (Thief t))"
proof (cases "obuf s")
  case (Cons x xs)
  then show ?thesis using flush_owner by blast
next
  case Nil
  have i: "the_inv s" using the_reachable_inv [OF assms(1,2)] .
  show ?thesis
  proof (cases "opc s")
    case OIdle
    then show ?thesis using assms(3) by simp
  next
    case (OWrite m l)
    from pop_write [OF this] show ?thesis by blast
  next
    case (OFence m l)
    from pop_fence [OF this Nil] show ?thesis by blast
  next
    case (ORead m l)
    from pop_take [OF this] pop_conflict [OF this] show ?thesis by blast
  next
    case (OConflict m l)
    from pop_restore [OF this] show ?thesis by blast
  next
    case (OLock m)
    then have "lockh s \<noteq> Some Owner" using i by (simp add: the_inv_def)
    then consider "lockh s = None" | t where "lockh s = Some (Thief t)"
      using holder.exhaust by (cases "lockh s") metis+
    then show ?thesis using slow_lock [OF OLock Nil] OLock by cases blast+
  next
    case (OSlow m)
    from slow_beg [OF this] show ?thesis by blast
  next
    case (OSlowEnd m l)
    from slow_empty [OF this] slow_size [OF this] show ?thesis by blast
  next
    case (OSlowWrite l k)
    from slow_write [OF this] show ?thesis by blast
  next
    case OUnlock
    from slow_unlock [OF this Nil] show ?thesis by blast
  next
    case (OPush n l)
    from push_write [OF this Nil] show ?thesis by blast
  qed
qed

theorem owner_can_proceed_witness:
  "\<exists>s'. pop_step ((the_start 0 5)\<lparr>opc := OWrite 2 0\<rparr>) s' \<or> slowpop_step ((the_start 0 5)\<lparr>opc := OWrite 2 0\<rparr>) s' \<or>
     push_step ((the_start 0 5)\<lparr>opc := OWrite 2 0\<rparr>) s' \<or> flush_step ((the_start 0 5)\<lparr>opc := OWrite 2 0\<rparr>) s'"
proof -
  have "the_reachable 0 5 ((the_start 0 5)\<lparr>opc := OWrite 2 0\<rparr>)"
    using the_next [OF the_init the_pop [OF pop_call [of "the_start 0 5" 2]]]
    by (simp add: the_start_def beg_view_def)
  from owner_can_proceed [OF this] show ?thesis by simp
qed

end
