(* ===== verification/Spinlock.thy ===== *)
theory Spinlock
  imports Kaapi_Prelude
begin

text \<open>
  The scheduler lock of \<^verbatim>\<open>src/kaapi_atomic.h\<close> in its default form (\<^verbatim>\<open>KAAPI_SCHED_LOCK_CAS\<close> not defined),
  which is the x86 spin lock of the paper its comment cites: the counter is 1 when the lock is free;
  a thread takes it by an atomic decrement that gives 0; a failed attempt leaves the
  counter below 0; the release writes 1 after a barrier.  The threads interleave at every access to
  the counter.  The store of a release sits in the buffer of its thread (\<open>LRelease\<close>) until it
  reaches the memory; a locked decrement of the same thread waits for that.
\<close>

section \<open>State and sequential operations\<close>

record kaapi_lock =
  lk_counter :: "32 word"
  lk_sync :: "32 word"

definition kaapi_atomic_initlock :: "kaapi_lock \<Rightarrow> int \<times> kaapi_lock" where
  "kaapi_atomic_initlock lock = (0, lock\<lparr>lk_sync := 0, lk_counter := 1\<rparr>)"

definition kaapi_atomic_trylock :: "kaapi_lock \<Rightarrow> bool \<times> kaapi_lock" where
  "kaapi_atomic_trylock lock =
     (if lk_counter lock = 1
      then (let lock = lock\<lparr>lk_counter := lk_counter lock - 1\<rparr> in (lk_counter lock = 0, lock))
      else (False, lock))"

definition kaapi_atomic_unlock :: "kaapi_lock \<Rightarrow> int \<times> kaapi_lock" where
  "kaapi_atomic_unlock lock =
     (let lock = (if lk_sync lock \<noteq> 0 then lock\<lparr>lk_sync := 0\<rparr> else lock)
      in (0, lock\<lparr>lk_counter := 1\<rparr>))"

definition kaapi_atomic_assertlocked :: "kaapi_lock \<Rightarrow> bool" where
  "kaapi_atomic_assertlocked lock \<longleftrightarrow> lk_counter lock \<le>s 0"

section \<open>Interleaved threads\<close>

datatype lock_pc = LOut | LAcquire | LSpin | LTry | LIn | LRelease | LWait

text \<open>The ghost field \<open>decs\<close> collects the decrements since the lock was last free: by which thread, and
  whether in \<^verbatim>\<open>trylock\<close>.\<close>

record spin_state =
  lk :: kaapi_lock
  lpc :: "nat \<Rightarrow> lock_pc"
  decs :: "(nat \<times> bool) set"

definition spin_start :: spin_state where
  "spin_start = \<lparr>lk = snd (kaapi_atomic_initlock \<lparr>lk_counter = 0, lk_sync = 0\<rparr>), lpc = (\<lambda>_. LOut), decs = {}\<rparr>"

text \<open>One atomic decrement, with the continuation for each result.\<close>

definition spin_decr :: "nat \<Rightarrow> bool \<Rightarrow> lock_pc \<Rightarrow> spin_state \<Rightarrow> spin_state" where
  "spin_decr t trylk failed s =
     (let c = lk_counter (lk s) - 1
      in s\<lparr>lk := (lk s)\<lparr>lk_counter := c\<rparr>, lpc := (lpc s)(t := if c = 0 then LIn else failed),
           decs := insert (t, trylk) (decs s)\<rparr>)"

inductive lock_step :: "nat \<Rightarrow> spin_state \<Rightarrow> spin_state \<Rightarrow> bool" for t where
  lock_call: "lpc s t = LOut \<Longrightarrow> lock_step t s (s\<lparr>lpc := (lpc s)(t := LAcquire)\<rparr>)"
| lock_acquire: "lpc s t = LAcquire \<Longrightarrow> lock_step t s (spin_decr t False LSpin s)"
| lock_spin: "lpc s t = LSpin \<Longrightarrow> lk_counter (lk s) \<le>s 0 \<Longrightarrow> lock_step t s s"
| lock_again: "lpc s t = LSpin \<Longrightarrow> \<not> lk_counter (lk s) \<le>s 0 \<Longrightarrow> lock_step t s (s\<lparr>lpc := (lpc s)(t := LAcquire)\<rparr>)"

inductive trylock_step :: "nat \<Rightarrow> spin_state \<Rightarrow> spin_state \<Rightarrow> bool" for t where
  try_read: "lpc s t = LOut \<Longrightarrow> lk_counter (lk s) = 1 \<Longrightarrow> trylock_step t s (s\<lparr>lpc := (lpc s)(t := LTry)\<rparr>)"
| try_busy: "lpc s t = LOut \<Longrightarrow> lk_counter (lk s) \<noteq> 1 \<Longrightarrow> trylock_step t s s"
| try_decr: "lpc s t = LTry \<Longrightarrow> trylock_step t s (spin_decr t True LOut s)"

inductive unlock_step :: "nat \<Rightarrow> spin_state \<Rightarrow> spin_state \<Rightarrow> bool" for t where
  unlock_call: "lpc s t = LIn \<Longrightarrow>
    unlock_step t s (s\<lparr>lk := (lk s)\<lparr>lk_sync := if lk_sync (lk s) \<noteq> 0 then 0 else lk_sync (lk s)\<rparr>,
                       lpc := (lpc s)(t := LRelease)\<rparr>)"
| unlock_store: "lpc s t = LRelease \<Longrightarrow>
    unlock_step t s (s\<lparr>lk := (lk s)\<lparr>lk_counter := 1\<rparr>, lpc := (lpc s)(t := LOut), decs := {}\<rparr>)"

inductive waitlock_step :: "nat \<Rightarrow> spin_state \<Rightarrow> spin_state \<Rightarrow> bool" for t where
  wait_call: "lpc s t = LOut \<Longrightarrow>
    waitlock_step t s (s\<lparr>lk := (lk s)\<lparr>lk_sync := 1\<rparr>, lpc := (lpc s)(t := LWait)\<rparr>)"
| wait_spin: "lpc s t = LWait \<Longrightarrow> lk_sync (lk s) \<noteq> 0 \<and> lk_counter (lk s) \<le>s 0 \<Longrightarrow> waitlock_step t s s"
| wait_done: "lpc s t = LWait \<Longrightarrow> \<not> (lk_sync (lk s) \<noteq> 0 \<and> lk_counter (lk s) \<le>s 0) \<Longrightarrow>
    waitlock_step t s (s\<lparr>lpc := (lpc s)(t := LOut)\<rparr>)"

inductive spin_reachable :: "nat \<Rightarrow> spin_state \<Rightarrow> bool" for n where
  spin_init: "spin_reachable n spin_start"
| spin_lock: "spin_reachable n s \<Longrightarrow> t < n \<Longrightarrow> lock_step t s s' \<Longrightarrow> spin_reachable n s'"
| spin_try: "spin_reachable n s \<Longrightarrow> t < n \<Longrightarrow> trylock_step t s s' \<Longrightarrow> spin_reachable n s'"
| spin_unlock: "spin_reachable n s \<Longrightarrow> t < n \<Longrightarrow> unlock_step t s s' \<Longrightarrow> spin_reachable n s'"
| spin_wait: "spin_reachable n s \<Longrightarrow> t < n \<Longrightarrow> waitlock_step t s s' \<Longrightarrow> spin_reachable n s'"

section \<open>The invariant\<close>

definition holds :: "lock_pc \<Rightarrow> bool" where
  "holds p \<longleftrightarrow> p = LIn \<or> p = LRelease"

text \<open>The counter is one less per decrement; a thread decrements at most once in \<^verbatim>\<open>lock\<close> and once in
  \<^verbatim>\<open>trylock\<close> before the lock is free again, so the counter stays in its type for fewer than \<open>2 ^ 30\<close> threads.\<close>

definition spin_inv :: "nat \<Rightarrow> spin_state \<Rightarrow> bool" where
  "spin_inv n s \<longleftrightarrow>
     decs s \<subseteq> {..<n} \<times> UNIV
   \<and> lk_counter (lk s) = word_of_int (1 - int (card (decs s)))
   \<and> (\<forall>t. (t, False) \<in> decs s \<longrightarrow> lpc s t = LSpin \<or> holds (lpc s t))
   \<and> (\<forall>t. (t, True) \<in> decs s \<longrightarrow> lpc s t \<noteq> LTry)
   \<and> (decs s = {} \<longrightarrow> (\<forall>t. \<not> holds (lpc s t)))
   \<and> (decs s \<noteq> {} \<longrightarrow> (\<exists>h. holds (lpc s h) \<and> (\<forall>t. holds (lpc s t) \<longrightarrow> t = h)))"

lemma decs_card: "D \<subseteq> {..<n} \<times> (UNIV :: bool set) \<Longrightarrow> finite D \<and> card D \<le> 2 * n"
proof -
  assume D: "D \<subseteq> {..<n} \<times> (UNIV :: bool set)"
  have f: "finite ({..<n} \<times> (UNIV :: bool set))" by simp
  have "card ({..<n} \<times> (UNIV :: bool set)) = 2 * n" by simp
  then show ?thesis using D f card_mono [OF f D] finite_subset by metis
qed

lemma sint32_word_of_int:
  "- (2 ^ 31) \<le> k \<Longrightarrow> k < 2 ^ 31 \<Longrightarrow> sint (word_of_int k :: 32 word) = k"
  by (simp add: signed_of_int signed_take_bit_int_eq_self)

lemma spin_counter:
  assumes "spin_inv n s" and "n < 2 ^ 30"
  shows "sint (lk_counter (lk s)) = 1 - int (card (decs s))"
proof -
  have D: "decs s \<subseteq> {..<n} \<times> UNIV" and c: "lk_counter (lk s) = word_of_int (1 - int (card (decs s)))"
    using assms(1) unfolding spin_inv_def by blast+
  have "card (decs s) \<le> 2 * n" using decs_card [OF D] by simp
  then have "- (2 ^ 31) \<le> 1 - int (card (decs s))" "1 - int (card (decs s)) < 2 ^ 31"
    using assms(2) by auto
  then show ?thesis unfolding c by (rule sint32_word_of_int)
qed

lemma spin_counter_le: "spin_inv n s \<Longrightarrow> n < 2 ^ 30 \<Longrightarrow> lk_counter (lk s) \<le>s 0 \<longleftrightarrow> decs s \<noteq> {}"
  using spin_counter [of n s] decs_card [of "decs s" n]
  by (auto simp: word_sle_eq spin_inv_def card_gt_0_iff Suc_le_eq)

lemma sint_one32: "sint (1 :: 32 word) = 1"
  by simp

lemma spin_counter_eq:
  assumes "spin_inv n s" and "n < 2 ^ 30"
  shows "lk_counter (lk s) = 1 \<longleftrightarrow> decs s = {}"
proof -
  have "lk_counter (lk s) = 1 \<longleftrightarrow> sint (lk_counter (lk s)) = 1"
    by (metis signed_word_eqI sint_one32)
  then show ?thesis
    using spin_counter [OF assms] decs_card [of "decs s" n] assms(1) by (simp add: spin_inv_def)
qed

text \<open>A decrement by a thread that is about to make one.\<close>

lemma spin_decr_inv:
  assumes i: "spin_inv n s" and n: "n < 2 ^ 30" and t: "t < n"
    and pc: "lpc s t = (if trylk then LTry else LAcquire)" and f: "failed = (if trylk then LOut else LSpin)"
  shows "spin_inv n (spin_decr t trylk failed s)"
proof -
  let ?D = "decs s"
  have D: "?D \<subseteq> {..<n} \<times> UNIV" and c: "lk_counter (lk s) = word_of_int (1 - int (card ?D))"
    and F: "\<forall>t. (t, False) \<in> ?D \<longrightarrow> lpc s t = LSpin \<or> holds (lpc s t)"
    and T: "\<forall>t. (t, True) \<in> ?D \<longrightarrow> lpc s t \<noteq> LTry"
    and E: "?D = {} \<longrightarrow> (\<forall>t. \<not> holds (lpc s t))"
    and H: "?D \<noteq> {} \<longrightarrow> (\<exists>h. holds (lpc s h) \<and> (\<forall>t. holds (lpc s t) \<longrightarrow> t = h))"
    using i unfolding spin_inv_def by blast+
  have nh: "\<not> holds (lpc s t)" using pc by (simp add: holds_def)
  have new: "(t, trylk) \<notin> ?D" using F T pc nh by (cases trylk) force+
  have fin: "finite ?D" using decs_card [OF D] by simp
  have c': "lk_counter (lk s) - 1 = word_of_int (1 - int (card (insert (t, trylk) ?D)))"
    using c new fin by simp
  have z: "lk_counter (lk s) - 1 = 0 \<longleftrightarrow> ?D = {}"
    using spin_counter_eq [OF i n] by simp
  have D': "insert (t, trylk) ?D \<subseteq> {..<n} \<times> UNIV" using D t by simp
  show ?thesis
  proof (cases "?D = {}")
    case True
    then show ?thesis using c' z D' E
      by (simp add: spin_inv_def spin_decr_def holds_def Let_def)
  next
    case False
    then obtain h where h: "holds (lpc s h)" "\<forall>u. holds (lpc s u) \<longrightarrow> u = h" using H by blast
    have "h \<noteq> t" using h(1) nh by blast
    then have "\<exists>h. holds (((lpc s)(t := failed)) h) \<and> (\<forall>u. holds (((lpc s)(t := failed)) u) \<longrightarrow> u = h)"
      using h f by (intro exI [of _ h]) (auto simp: holds_def)
    moreover have "\<forall>u. (u, False) \<in> insert (t, trylk) ?D \<longrightarrow>
        ((lpc s)(t := failed)) u = LSpin \<or> holds (((lpc s)(t := failed)) u)"
      using F f pc nh by (auto simp: holds_def)
    moreover have "\<forall>u. (u, True) \<in> insert (t, trylk) ?D \<longrightarrow> ((lpc s)(t := failed)) u \<noteq> LTry"
      using T f by auto
    ultimately show ?thesis using c' z D' False
      by (simp add: spin_inv_def spin_decr_def Let_def del: fun_upd_apply)
  qed
qed

lemma spin_not_dec:
  "spin_inv n s \<Longrightarrow> lpc s t \<noteq> LSpin \<Longrightarrow> \<not> holds (lpc s t) \<Longrightarrow> (t, False) \<notin> decs s"
  unfolding spin_inv_def by blast

text \<open>A step that only moves a thread between places where it neither holds the lock nor has a decrement to
  account for.\<close>

lemma spin_move_inv:
  assumes "spin_inv n s" "\<not> holds (lpc s t)" "\<not> holds p"
    "(t, False) \<in> decs s \<Longrightarrow> p = LSpin" "(t, True) \<in> decs s \<Longrightarrow> p \<noteq> LTry"
  shows "spin_inv n (s\<lparr>lpc := (lpc s)(t := p)\<rparr>)"
  using assms unfolding spin_inv_def by (simp add: holds_def) metis

lemma spin_inv_sync: "spin_inv n s \<Longrightarrow> spin_inv n (s\<lparr>lk := (lk s)\<lparr>lk_sync := v\<rparr>\<rparr>)"
  by (simp add: spin_inv_def)

lemma lock_step_inv [kaapi_inv]:
  "lock_step t s s' \<Longrightarrow> spin_inv n s \<Longrightarrow> n < 2 ^ 30 \<Longrightarrow> t < n \<Longrightarrow> spin_inv n s'"
proof (induction rule: lock_step.induct)
  case (lock_call s)
  have "(t, False) \<notin> decs s" using lock_call by (intro spin_not_dec [of n]) (auto simp: holds_def)
  then show ?case using lock_call by (intro spin_move_inv) (auto simp: holds_def)
next
  case (lock_acquire s)
  then show ?case by (intro spin_decr_inv) auto
next
  case (lock_again s)
  then have "decs s = {}" using spin_counter_le by blast
  then show ?case using lock_again by (intro spin_move_inv) (auto simp: holds_def)
qed

lemma trylock_step_inv [kaapi_inv]:
  "trylock_step t s s' \<Longrightarrow> spin_inv n s \<Longrightarrow> n < 2 ^ 30 \<Longrightarrow> t < n \<Longrightarrow> spin_inv n s'"
proof (induction rule: trylock_step.induct)
  case (try_read s)
  then have "decs s = {}" using spin_counter_eq by blast
  then show ?case using try_read by (intro spin_move_inv) (auto simp: holds_def)
next
  case (try_decr s)
  then show ?case by (intro spin_decr_inv) auto
qed

lemma waitlock_step_inv [kaapi_inv]:
  "waitlock_step t s s' \<Longrightarrow> spin_inv n s \<Longrightarrow> spin_inv n s'"
proof (induction rule: waitlock_step.induct)
  case (wait_call s)
  let ?s = "s\<lparr>lk := (lk s)\<lparr>lk_sync := 1\<rparr>\<rparr>"
  have i: "spin_inv n ?s" using wait_call(2) by (rule spin_inv_sync)
  have "(t, False) \<notin> decs s" using wait_call by (intro spin_not_dec [of n]) (auto simp: holds_def)
  then have "spin_inv n (?s\<lparr>lpc := (lpc ?s)(t := LWait)\<rparr>)"
    using wait_call by (intro spin_move_inv [OF i]) (auto simp: holds_def)
  then show ?case by simp
next
  case (wait_done s)
  have "(t, False) \<notin> decs s" using wait_done by (intro spin_not_dec [of n]) (auto simp: holds_def)
  then show ?case using wait_done by (intro spin_move_inv) (auto simp: holds_def)
qed

lemma unlock_step_inv [kaapi_inv]:
  "unlock_step t s s' \<Longrightarrow> spin_inv n s \<Longrightarrow> spin_inv n s'"
proof (induction rule: unlock_step.induct)
  case (unlock_call s)
  have "holds (((lpc s)(t := LRelease)) u) \<longleftrightarrow> holds (lpc s u)" for u
    using unlock_call by (simp add: holds_def)
  moreover have "((lpc s)(t := LRelease)) u = LSpin \<longleftrightarrow> lpc s u = LSpin"
    "((lpc s)(t := LRelease)) u = LTry \<longleftrightarrow> lpc s u = LTry" for u
    using unlock_call by auto
  ultimately show ?case using unlock_call by (simp add: spin_inv_def del: fun_upd_apply)
next
  case (unlock_store s)
  then have "holds (lpc s t)" by (simp add: holds_def)
  then have "\<forall>u. u \<noteq> t \<longrightarrow> \<not> holds (lpc s u)"
    using unlock_store unfolding spin_inv_def by metis
  then show ?case by (simp add: spin_inv_def holds_def)
qed

lemma spin_inv_start: "spin_inv n spin_start"
  by (simp add: spin_inv_def spin_start_def holds_def kaapi_atomic_initlock_def)

lemma spin_reachable_inv: "spin_reachable n s \<Longrightarrow> n < 2 ^ 30 \<Longrightarrow> spin_inv n s"
  by (induction rule: spin_reachable.induct)
    (auto intro: kaapi_inv spin_inv_start)

section \<open>Properties\<close>

text \<open>C35: however fewer than \<open>2 ^ 30\<close> threads interleave their calls of \<^verbatim>\<open>lock\<close>, \<^verbatim>\<open>trylock\<close>, \<^verbatim>\<open>unlock\<close> and
  \<^verbatim>\<open>waitlock\<close>, at most one of them holds the lock, \<^verbatim>\<open>kaapi_atomic_assertlocked\<close> tells whether one does, and the
  32-bit counter never wraps.\<close>

theorem spinlock_mutual_exclusion:
  assumes "spin_reachable n s" and "n < 2 ^ 30"
  shows "(\<forall>t u. holds (lpc s t) \<and> holds (lpc s u) \<longrightarrow> t = u)
    \<and> (kaapi_atomic_assertlocked (lk s) \<longleftrightarrow> (\<exists>t. holds (lpc s t)))
    \<and> 1 - 2 * int n \<le> sint (lk_counter (lk s)) \<and> sint (lk_counter (lk s)) \<le> 1"
proof -
  have i: "spin_inv n s" using spin_reachable_inv [OF assms] .
  have "card (decs s) \<le> 2 * n" using decs_card [of "decs s" n] i by (simp add: spin_inv_def)
  moreover have "decs s \<noteq> {} \<longleftrightarrow> (\<exists>t. holds (lpc s t))" using i unfolding spin_inv_def by metis
  moreover have "holds (lpc s t) \<and> holds (lpc s u) \<longrightarrow> t = u" for t u
    using i unfolding spin_inv_def by metis
  ultimately show ?thesis
    using spin_counter [OF i assms(2)] spin_counter_le [OF i assms(2)]
    by (simp add: kaapi_atomic_assertlocked_def)
qed

theorem spinlock_mutual_exclusion_witness:
  "kaapi_atomic_assertlocked (lk (spin_decr 0 False LSpin (spin_start\<lparr>lpc := (\<lambda>_. LOut)(0 := LAcquire)\<rparr>))) \<longleftrightarrow>
   (\<exists>t. holds (lpc (spin_decr 0 False LSpin (spin_start\<lparr>lpc := (\<lambda>_. LOut)(0 := LAcquire)\<rparr>)) t))"
proof -
  let ?s = "spin_start\<lparr>lpc := (\<lambda>_. LOut)(0 := LAcquire)\<rparr>"
  have "spin_reachable 2 ?s"
    using spin_lock [OF spin_init [of 2] _ lock_call [of spin_start 0]] by (simp add: spin_start_def)
  then have "spin_reachable 2 (spin_decr 0 False LSpin ?s)"
    by (rule spin_lock [OF _ _ lock_acquire]) simp_all
  from spinlock_mutual_exclusion [OF this] show ?thesis by simp
qed

text \<open>The lock is never lost: in a reachable state in which no thread holds it, every spinning thread can leave
  its loop, and whichever thread makes the next attempt in \<^verbatim>\<open>lock\<close> gets it.\<close>

theorem spinlock_available:
  assumes "spin_reachable n s" and "n < 2 ^ 30" and "\<forall>u. \<not> holds (lpc s u)"
  shows "(lpc s t = LSpin \<longrightarrow> lock_step t s (s\<lparr>lpc := (lpc s)(t := LAcquire)\<rparr>))
    \<and> (lpc s t = LAcquire \<longrightarrow> (\<forall>s'. lock_step t s s' \<longrightarrow> lpc s' t = LIn))
    \<and> fst (kaapi_atomic_trylock (lk s))"
proof -
  have i: "spin_inv n s" using spin_reachable_inv [OF assms(1,2)] .
  then have d: "decs s = {}" using assms(3) unfolding spin_inv_def by blast
  then have "lk_counter (lk s) = 1" "\<not> lk_counter (lk s) \<le>s 0"
    using spin_counter_eq [OF i assms(2)] spin_counter_le [OF i assms(2)] by blast+
  moreover have "lpc s' t = LIn" if "lpc s t = LAcquire" "lock_step t s s'" for s'
    using that(2,1) \<open>lk_counter (lk s) = 1\<close> by cases (auto simp: spin_decr_def Let_def)
  ultimately show ?thesis by (auto intro: lock_again simp: kaapi_atomic_trylock_def)
qed

theorem spinlock_available_witness:
  "fst (kaapi_atomic_trylock (lk spin_start))"
  using spinlock_available [OF spin_init [of 2], of 0] by (simp add: spin_start_def holds_def)

end
