(* ===== verification/Ready_Tasklist.thy ===== *)
theory Ready_Tasklist
  imports Kaapi_Prelude "HOL-Library.Monad_Syntax" "HOL-Library.Multiset"
begin

text \<open>
  The queue of ready task descriptors: \<^verbatim>\<open>tasklist/kaapi_readytasklist*.[ch]\<close> and the choice of the descriptor to steal
  in \<^verbatim>\<open>affinity/kaapi_affinity_steal.c\<close>.  A queue is an array of doubly linked lists, one per priority, whose links are the
  \<^verbatim>\<open>next\<close> and \<^verbatim>\<open>prev\<close> fields of the descriptors; the owner works at the head, thieves and remote pushes at the tail.
  Every operation runs under the lock of its list, so the model is sequential; a descriptor is its number.
\<close>

section \<open>Descriptors and queues\<close>

text \<open>What the queue reads of a descriptor: the mask of architectures of its task, whether the task's body is
  \<^verbatim>\<open>kaapi_staticschedtask_body\<close>, the entry points of its format (\<open>None\<close> without format, entry point 0 when there is none
  for the architecture), the entry points of the format of the wrapped body when its format is that of static scheduling,
  its priority and date.\<close>

record ready_attr =
  ra_arch :: uint8
  ra_staticsched :: bool
  ra_fmt :: "(nat \<Rightarrow> nat) option"
  ra_sub_fmt :: "(nat \<Rightarrow> nat) option"
  ra_priority :: nat
  ra_date :: nat

record kaapi_onereadytasklist =
  ortl_head :: "nat option"
  ortl_tail :: "nat option"
  ortl_size :: int

text \<open>The links of all descriptors and one queue: \<^verbatim>\<open>prl\<close> has \<^verbatim>\<open>KAAPI_TASKLIST_NUM_PRIORITY\<close> lists.\<close>

record kaapi_readytasklist =
  lnext :: "nat \<Rightarrow> nat option"
  lprev :: "nat \<Rightarrow> nat option"
  prl :: "nat \<Rightarrow> kaapi_onereadytasklist"
  cnt_tasks :: int

definition KAAPI_TASKLIST_NUM_PRIORITY :: nat where "KAAPI_TASKLIST_NUM_PRIORITY = 8"

definition kaapi_onereadytasklist_isempty :: "kaapi_onereadytasklist \<Rightarrow> bool" where
  "kaapi_onereadytasklist_isempty ortl \<longleftrightarrow> ortl_size ortl = 0"

definition kaapi_onereadytasklist_size :: "kaapi_onereadytasklist \<Rightarrow> int" where
  "kaapi_onereadytasklist_size ortl = ortl_size ortl"

definition kaapi_readytasklist_isempty :: "kaapi_readytasklist \<Rightarrow> bool" where
  "kaapi_readytasklist_isempty rtl \<longleftrightarrow> cnt_tasks rtl = 0"

definition kaapi_readytasklist_workload :: "kaapi_readytasklist \<Rightarrow> int" where
  "kaapi_readytasklist_workload rtl = cnt_tasks rtl"

definition kaapi_onereadytasklist_init :: "kaapi_onereadytasklist \<Rightarrow> kaapi_onereadytasklist" where
  "kaapi_onereadytasklist_init ortl = ortl\<lparr>ortl_size := 0, ortl_head := None, ortl_tail := None\<rparr>"

definition kaapi_readytasklist_init :: "kaapi_readytasklist \<Rightarrow> kaapi_readytasklist" where
  "kaapi_readytasklist_init rtl =
     rtl\<lparr>prl := (\<lambda>i. if i < KAAPI_TASKLIST_NUM_PRIORITY then kaapi_onereadytasklist_init (prl rtl i) else prl rtl i),
         cnt_tasks := 0\<rparr>"

definition kaapi_onereadytasklist_destroy :: "kaapi_onereadytasklist \<Rightarrow> kaapi_onereadytasklist" where
  "kaapi_onereadytasklist_destroy ortl = ortl\<lparr>ortl_size := 0, ortl_head := None, ortl_tail := None\<rparr>"

definition kaapi_readytasklist_destroy :: "kaapi_readytasklist \<Rightarrow> kaapi_readytasklist" where
  "kaapi_readytasklist_destroy rtl =
     rtl\<lparr>prl := (\<lambda>i. if i < KAAPI_TASKLIST_NUM_PRIORITY then kaapi_onereadytasklist_destroy (prl rtl i) else prl rtl i)\<rparr>"

section \<open>Insertion\<close>

text \<open>A store through a pointer, which nothing reads when it is null.\<close>

definition set_prev :: "nat \<Rightarrow> nat option \<Rightarrow> kaapi_readytasklist \<Rightarrow> kaapi_readytasklist" where
  "set_prev x v rtl = rtl\<lparr>lprev := (lprev rtl)(x := v)\<rparr>"

definition set_next :: "nat \<Rightarrow> nat option \<Rightarrow> kaapi_readytasklist \<Rightarrow> kaapi_readytasklist" where
  "set_next x v rtl = rtl\<lparr>lnext := (lnext rtl)(x := v)\<rparr>"

definition set_ortl :: "nat \<Rightarrow> (kaapi_onereadytasklist \<Rightarrow> kaapi_onereadytasklist) \<Rightarrow> kaapi_readytasklist \<Rightarrow> kaapi_readytasklist" where
  "set_ortl i f rtl = rtl\<lparr>prl := (prl rtl)(i := f (prl rtl i))\<rparr>"

definition kaapi_onereadytasklist_push :: "nat \<Rightarrow> nat \<Rightarrow> kaapi_readytasklist \<Rightarrow> kaapi_readytasklist" where
  "kaapi_onereadytasklist_push i td rtl =
     (let rtl = set_prev td None (set_next td None rtl);
          rtl = set_next td (ortl_head (prl rtl i)) rtl;
          rtl = (case ortl_head (prl rtl i) of
                   Some h \<Rightarrow> set_prev h (Some td) rtl
                 | None \<Rightarrow> set_ortl i (\<lambda>q. q\<lparr>ortl_tail := Some td\<rparr>) rtl)
      in set_ortl i (\<lambda>q. q\<lparr>ortl_head := Some td, ortl_size := ortl_size q + 1\<rparr>) rtl)"

text \<open>\<open>None\<close>: the priority is not an index of the array, which the code asserts in debug builds only.\<close>

definition kaapi_readylist_push ::
  "(nat \<Rightarrow> ready_attr) \<Rightarrow> kaapi_readytasklist \<Rightarrow> nat \<Rightarrow> (nat \<times> kaapi_readytasklist) option" where
  "kaapi_readylist_push attr rtl td =
     (let prio = ra_priority (attr td)
      in if prio < KAAPI_TASKLIST_NUM_PRIORITY then
           (let rtl = kaapi_onereadytasklist_push prio td rtl in Some (prio, rtl\<lparr>cnt_tasks := cnt_tasks rtl + 1\<rparr>))
         else None)"

definition kaapi_onereadytasklist_remote_push :: "nat \<Rightarrow> nat \<Rightarrow> kaapi_readytasklist \<Rightarrow> kaapi_readytasklist" where
  "kaapi_onereadytasklist_remote_push i td rtl =
     (let rtl = set_prev td None (set_next td None rtl);
          rtl = set_prev td (ortl_tail (prl rtl i)) rtl;
          rtl = (case ortl_tail (prl rtl i) of
                   Some t \<Rightarrow> set_next t (Some td) rtl
                 | None \<Rightarrow> set_ortl i (\<lambda>q. q\<lparr>ortl_head := Some td\<rparr>) rtl)
      in set_ortl i (\<lambda>q. q\<lparr>ortl_tail := Some td, ortl_size := ortl_size q + 1\<rparr>) rtl)"

definition kaapi_readylist_remote_push ::
  "(nat \<Rightarrow> ready_attr) \<Rightarrow> kaapi_readytasklist \<Rightarrow> nat \<Rightarrow> (nat \<times> kaapi_readytasklist) option" where
  "kaapi_readylist_remote_push attr rtl td =
     (let prio = ra_priority (attr td)
      in if prio < KAAPI_TASKLIST_NUM_PRIORITY then
           (let rtl = kaapi_onereadytasklist_remote_push prio td rtl in Some (prio, rtl\<lparr>cnt_tasks := cnt_tasks rtl + 1\<rparr>))
         else None)"

section \<open>Removal\<close>

definition kaapi_task_has_arch :: "ready_attr \<Rightarrow> nat \<Rightarrow> bool" where
  "kaapi_task_has_arch a arch \<longleftrightarrow> ra_arch a = 0 \<or> (ra_arch a AND push_bit arch 1) \<noteq> 0"

text \<open>The body for an architecture, of a descriptor that has a format.\<close>

definition kaapi_get_task_body_by_arch :: "ready_attr \<Rightarrow> nat \<Rightarrow> nat" where
  "kaapi_get_task_body_by_arch a arch =
     (case ra_sub_fmt a of
        Some entrypoint \<Rightarrow> entrypoint arch
      | None \<Rightarrow> (case ra_fmt a of None \<Rightarrow> 0 | Some entrypoint \<Rightarrow> entrypoint arch))"

text \<open>The walk along the links up to a descriptor that satisfies \<open>P\<close> or the null pointer.\<close>

partial_function (option) link_walk :: "(nat \<Rightarrow> nat option) \<Rightarrow> (nat \<Rightarrow> bool) \<Rightarrow> nat option \<Rightarrow> nat option option" where
  "link_walk link P p =
     (case p of None \<Rightarrow> Some None | Some x \<Rightarrow> if P x then Some (Some x) else link_walk link P (link x))"

definition pop_runs :: "nat \<Rightarrow> ready_attr \<Rightarrow> bool" where
  "pop_runs arch a \<longleftrightarrow>
     \<not> (\<not> kaapi_task_has_arch a arch \<or> (ra_fmt a \<noteq> None \<and> kaapi_get_task_body_by_arch a arch = 0))"

text \<open>The statements that unlink a descriptor, the same in pop and steal.\<close>

definition unlink_cur :: "nat \<Rightarrow> nat \<Rightarrow> kaapi_readytasklist \<Rightarrow> kaapi_readytasklist" where
  "unlink_cur i cur rtl =
     (let rtl = (case lprev rtl cur of
                   Some p \<Rightarrow> set_next p (lnext rtl cur) rtl
                 | None \<Rightarrow> set_ortl i (\<lambda>q. q\<lparr>ortl_head := lnext rtl cur\<rparr>) rtl);
          rtl = (case lnext rtl cur of
                   Some n \<Rightarrow> set_prev n (lprev rtl cur) rtl
                 | None \<Rightarrow> set_ortl i (\<lambda>q. q\<lparr>ortl_tail := lprev rtl cur\<rparr>) rtl);
          rtl = set_ortl i (\<lambda>q. q\<lparr>ortl_size := ortl_size q - 1\<rparr>) rtl
      in set_next cur None (set_prev cur None rtl))"

text \<open>\<open>None\<close> is a walk that does not end.\<close>

definition kaapi_onereadytasklist_pop ::
  "(nat \<Rightarrow> ready_attr) \<Rightarrow> nat \<Rightarrow> nat \<Rightarrow> kaapi_readytasklist \<Rightarrow> ((errno + nat) \<times> kaapi_readytasklist) option" where
  "kaapi_onereadytasklist_pop attr arch i rtl =
     (if kaapi_onereadytasklist_isempty (prl rtl i) then Some (Inl EBUSY, rtl)
      else do { cur \<leftarrow> link_walk (lnext rtl) (\<lambda>x. pop_runs arch (attr x)) (ortl_head (prl rtl i));
                Some (case cur of None \<Rightarrow> (Inl EBUSY, rtl) | Some x \<Rightarrow> (Inr x, unlink_cur i x rtl)) })"

text \<open>\<^verbatim>\<open>min_prio\<close>, \<^verbatim>\<open>max_prio\<close> and the increment, for a GPU and for another processor.\<close>

definition kaapi_readylist_get_priority_range :: "bool \<Rightarrow> int \<times> int \<times> int" where
  "kaapi_readylist_get_priority_range cuda = (if cuda then (7 + 1, 0, 1) else (0 - 1, 7, - 1))"

partial_function (option) pop_loop ::
  "(nat \<Rightarrow> ready_attr) \<Rightarrow> nat \<Rightarrow> int \<Rightarrow> int \<Rightarrow> int \<Rightarrow> kaapi_readytasklist \<Rightarrow> ((errno + nat) \<times> kaapi_readytasklist) option" where
  "pop_loop attr arch min_prio inc_prio prio rtl =
     (if prio = min_prio then Some (Inl EBUSY, rtl)
      else Option.bind (kaapi_onereadytasklist_pop attr arch (nat prio) rtl) (\<lambda>(r, rtl).
        case r of
          Inr td \<Rightarrow> Some (Inr td, rtl\<lparr>cnt_tasks := cnt_tasks rtl - 1\<rparr>)
        | Inl err \<Rightarrow> if err \<noteq> EBUSY then Some (Inl err, rtl)
                     else pop_loop attr arch min_prio inc_prio (prio + inc_prio) rtl))"

text \<open>The code 1 that the two functions return on an empty queue is the number of \<^verbatim>\<open>EPERM\<close>.\<close>

definition kaapi_readylist_pop ::
  "(nat \<Rightarrow> ready_attr) \<Rightarrow> bool \<Rightarrow> nat \<Rightarrow> kaapi_readytasklist \<Rightarrow> ((errno + nat) \<times> kaapi_readytasklist) option" where
  "kaapi_readylist_pop attr cuda arch rtl =
     (if cnt_tasks rtl = 0 then Some (Inl EPERM, rtl)
      else case kaapi_readylist_get_priority_range cuda of
             (min_prio, max_prio, inc_prio) \<Rightarrow> pop_loop attr arch min_prio inc_prio max_prio rtl)"

subsection \<open>The choice of the descriptor to steal\<close>

text \<open>The four policies get the tail of a list and walk along \<^verbatim>\<open>prev\<close>.\<close>

type_synonym steal_choice = "(nat \<Rightarrow> nat option) \<Rightarrow> nat option \<Rightarrow> nat option option"

definition steal_runs :: "nat \<Rightarrow> ready_attr \<Rightarrow> bool" where
  "steal_runs arch a \<longleftrightarrow>
     \<not> (\<not> ra_staticsched a \<and>
        (\<not> kaapi_task_has_arch a arch \<or> (ra_fmt a \<noteq> None \<and> kaapi_get_task_body_by_arch a arch = 0)))"

definition kaapi_steal_by_affinity_first :: "(nat \<Rightarrow> ready_attr) \<Rightarrow> nat \<Rightarrow> steal_choice" where
  "kaapi_steal_by_affinity_first attr arch prev td = link_walk prev (\<lambda>x. steal_runs arch (attr x)) td"

text \<open>The loops that keep a best candidate \<open>best\<close>.\<close>

partial_function (option) best_walk ::
  "(nat \<Rightarrow> nat option) \<Rightarrow> ('b \<Rightarrow> nat \<Rightarrow> 'b) \<Rightarrow> nat option \<Rightarrow> 'b \<Rightarrow> 'b option" where
  "best_walk prev upd td best =
     (case td of None \<Rightarrow> Some best | Some x \<Rightarrow> best_walk prev upd (prev x) (upd best x))"

definition kaapi_steal_by_affinity_maxctpath :: "(nat \<Rightarrow> ready_attr) \<Rightarrow> nat \<Rightarrow> steal_choice" where
  "kaapi_steal_by_affinity_maxctpath attr arch prev td =
     do { td_max_date \<leftarrow> kaapi_steal_by_affinity_first attr arch prev td;
          (case td_max_date of
             None \<Rightarrow> Some None
           | Some m \<Rightarrow> map_option Some (best_walk prev
               (\<lambda>best x. if (ra_fmt (attr x) = None \<or>
                            (kaapi_task_has_arch (attr x) arch \<and> kaapi_get_task_body_by_arch (attr x) arch \<noteq> 0))
                          \<and> ra_date (attr x) > ra_date (attr best) then x else best) td m)) }"

text \<open>\<open>hit\<close> is \<^verbatim>\<open>kaapi_data_get_affinity_hit_size\<close>, the bytes of the task's data that the thief has.\<close>

definition kaapi_steal_by_affinity_maxhit :: "(nat \<Rightarrow> nat) \<Rightarrow> (nat \<Rightarrow> ready_attr) \<Rightarrow> nat \<Rightarrow> steal_choice" where
  "kaapi_steal_by_affinity_maxhit hit attr arch prev td =
     map_option snd (best_walk prev
       (\<lambda>(hitmax, tdhitmax) x.
          if ra_fmt (attr x) = None then
            (if tdhitmax = None then (0, Some x) else (hitmax, tdhitmax))
          else if kaapi_task_has_arch (attr x) arch \<and> kaapi_get_task_body_by_arch (attr x) arch \<noteq> 0 then
            (if tdhitmax = None then (hit x, Some x)
             else if hit x > hitmax then (hit x, Some x) else (hitmax, tdhitmax))
          else (hitmax, tdhitmax)) td (0, None))"

text \<open>\<open>valid_writer\<close> is \<^verbatim>\<open>kaapi_memory_taskdescr_has_valid_writer\<close>.\<close>

definition kaapi_steal_by_affinity_writer :: "(nat \<Rightarrow> bool) \<Rightarrow> (nat \<Rightarrow> ready_attr) \<Rightarrow> nat \<Rightarrow> steal_choice" where
  "kaapi_steal_by_affinity_writer valid_writer attr arch prev td =
     do { td_cur \<leftarrow> kaapi_steal_by_affinity_first attr arch prev td;
          (case td_cur of
             None \<Rightarrow> Some None
           | Some c \<Rightarrow>
               do { w \<leftarrow> link_walk prev (\<lambda>x. ra_fmt (attr x) \<noteq> None \<and> kaapi_task_has_arch (attr x) arch \<and>
                           kaapi_get_task_body_by_arch (attr x) arch \<noteq> 0 \<and> valid_writer x) td;
                    Some (case w of None \<Rightarrow> Some c | Some x \<Rightarrow> Some x) }) }"

definition kaapi_onereadytasklist_steal ::
  "steal_choice \<Rightarrow> nat \<Rightarrow> kaapi_readytasklist \<Rightarrow> ((errno + nat) \<times> kaapi_readytasklist) option" where
  "kaapi_onereadytasklist_steal steal_by_affinity i rtl =
     (if kaapi_onereadytasklist_isempty (prl rtl i) then Some (Inl EBUSY, rtl)
      else do { cur \<leftarrow> steal_by_affinity (lprev rtl) (ortl_tail (prl rtl i));
                Some (case cur of None \<Rightarrow> (Inl EBUSY, rtl) | Some x \<Rightarrow> (Inr x, unlink_cur i x rtl)) })"

partial_function (option) steal_loop ::
  "steal_choice \<Rightarrow> int \<Rightarrow> int \<Rightarrow> int \<Rightarrow> kaapi_readytasklist \<Rightarrow> ((errno + nat) \<times> kaapi_readytasklist) option" where
  "steal_loop steal_by_affinity min_prio inc_prio prio rtl =
     (if prio = min_prio then Some (Inl EPERM, rtl)
      else Option.bind (kaapi_onereadytasklist_steal steal_by_affinity (nat prio) rtl) (\<lambda>(r, rtl).
        case r of
          Inr td \<Rightarrow> Some (Inr td, rtl\<lparr>cnt_tasks := cnt_tasks rtl - 1\<rparr>)
        | Inl err \<Rightarrow> steal_loop steal_by_affinity min_prio inc_prio (prio + inc_prio) rtl))"

definition kaapi_readylist_steal ::
  "steal_choice \<Rightarrow> bool \<Rightarrow> kaapi_readytasklist \<Rightarrow> ((errno + nat) \<times> kaapi_readytasklist) option" where
  "kaapi_readylist_steal steal_by_affinity cuda rtl =
     (if cnt_tasks rtl = 0 then Some (Inl EPERM, rtl)
      else case kaapi_readylist_get_priority_range cuda of
             (min_prio, max_prio, inc_prio) \<Rightarrow> steal_loop steal_by_affinity min_prio inc_prio max_prio rtl)"

section \<open>Lists in the links\<close>

fun link_path :: "(nat \<Rightarrow> nat option) \<Rightarrow> nat option \<Rightarrow> nat list \<Rightarrow> nat option \<Rightarrow> bool" where
  "link_path n p [] q \<longleftrightarrow> p = q"
| "link_path n p (x # xs) q \<longleftrightarrow> p = Some x \<and> link_path n (n x) xs q"

lemma link_path_append: "link_path n p (xs @ ys) q \<longleftrightarrow> (\<exists>r. link_path n p xs r \<and> link_path n r ys q)"
  by (induction xs arbitrary: p) auto

lemma link_path_frame: "\<forall>x \<in> set xs. n' x = n x \<Longrightarrow> link_path n' p xs q = link_path n p xs q"
  by (induction xs arbitrary: p) auto

lemma link_path_upd: "x \<notin> set xs \<Longrightarrow> link_path (n(x := v)) p xs q = link_path n p xs q"
  by (rule link_path_frame) auto

lemma link_path_redirect:
  "link_path n p (xs @ [a]) q \<Longrightarrow> a \<notin> set xs \<Longrightarrow> link_path (n(a := r)) p (xs @ [a]) r"
  by (auto simp: link_path_append link_path_upd)

lemma link_path_start: "link_path n p xs None \<Longrightarrow> p = (case xs of [] \<Rightarrow> None | x # _ \<Rightarrow> Some x)"
  by (cases xs) auto

lemma link_walk_path: "link_path n p xs None \<Longrightarrow> link_walk n P p = Some (find P xs)"
  by (induction xs arbitrary: p) (auto simp: link_walk.simps)

lemma best_walk_path: "link_path n p xs None \<Longrightarrow> best_walk n upd p b = Some (foldl upd b xs)"
  by (induction xs arbitrary: p b) (auto simp: best_walk.simps)

text \<open>One direction of unlinking \<open>x\<close>: the link of the descriptor before it, or the end of the list, goes to its
  successor.  The other direction is the same fact on the reversed list.\<close>

lemma unlink_path:
  assumes n: "link_path n h (as @ x # bs) None" and p: "link_path p t (rev (as @ x # bs)) None"
    and d: "distinct (as @ x # bs)"
  shows "link_path (case p x of Some a \<Rightarrow> n(a := n x) | None \<Rightarrow> n) (case p x of Some a \<Rightarrow> h | None \<Rightarrow> n x) (as @ bs) None"
proof -
  have px: "link_path p (p x) (rev as) None" using p by (auto simp: link_path_append)
  have nx: "link_path n h as (Some x)" "link_path n (n x) bs None" using n by (auto simp: link_path_append)
  show ?thesis
  proof (cases as rule: rev_cases)
    case Nil
    then show ?thesis using px nx by simp
  next
    case (snoc as' a)
    then have pa: "p x = Some a" using px by simp
    have a: "a \<notin> set as'" "a \<notin> set bs" using d snoc by auto
    have "link_path (n(a := n x)) h as (n x)" using link_path_redirect [of n h as' a "Some x"] nx(1) snoc a(1) by simp
    moreover have "link_path (n(a := n x)) (n x) bs None" using nx(2) a(2) by (simp add: link_path_upd)
    ultimately show ?thesis using pa by (auto simp: link_path_append)
  qed
qed

section \<open>The invariant of a queue\<close>

text \<open>List \<open>i\<close> of the queue holds \<open>xss ! i\<close>, from head to tail.\<close>

definition dll :: "(nat \<Rightarrow> nat option) \<Rightarrow> (nat \<Rightarrow> nat option) \<Rightarrow> kaapi_onereadytasklist \<Rightarrow> nat list \<Rightarrow> bool" where
  "dll n p q xs \<longleftrightarrow> link_path n (ortl_head q) xs None \<and> link_path p (ortl_tail q) (rev xs) None
     \<and> ortl_size q = int (length xs)"

definition rtl_holds :: "kaapi_readytasklist \<Rightarrow> nat list list \<Rightarrow> bool" where
  "rtl_holds rtl xss \<longleftrightarrow> length xss = KAAPI_TASKLIST_NUM_PRIORITY \<and> distinct (concat xss)
     \<and> (\<forall>i < KAAPI_TASKLIST_NUM_PRIORITY. dll (lnext rtl) (lprev rtl) (prl rtl i) (xss ! i))
     \<and> cnt_tasks rtl = int (length (concat xss))"

lemma dll_frame:
  "\<forall>x \<in> set xs. n' x = n x \<and> p' x = p x \<Longrightarrow> dll n' p' q xs = dll n p q xs"
  using link_path_frame [of xs n' n] link_path_frame [of "rev xs" p' p] by (simp add: dll_def)

lemma concat_at:
  assumes "i < length xss"
  obtains A B where "concat xss = A @ xss ! i @ B" "\<And>ys. concat (xss[i := ys]) = A @ ys @ B"
    "\<And>j. j < length xss \<Longrightarrow> j \<noteq> i \<Longrightarrow> set (xss ! j) \<subseteq> set A \<union> set B"
proof -
  let ?A = "concat (take i xss)" and ?B = "concat (drop (Suc i) xss)"
  have "concat xss = ?A @ xss ! i @ ?B"
    using assms by (metis append.assoc append_Cons concat.simps(2) concat_append id_take_nth_drop)
  moreover have "concat (xss[i := ys]) = ?A @ ys @ ?B" for ys
    using assms by (simp add: upd_conv_take_nth_drop)
  moreover have "set (xss ! j) \<subseteq> set ?A \<union> set ?B" if "j < length xss" "j \<noteq> i" for j
  proof (cases "j < i")
    case True
    then have "xss ! j \<in> set (take i xss)" using that assms by (auto simp: in_set_conv_nth intro: exI [of _ j])
    then show ?thesis by auto
  next
    case False
    then have "drop (Suc i) xss ! (j - Suc i) = xss ! j" "j - Suc i < length (drop (Suc i) xss)" using that by auto
    then have "xss ! j \<in> set (drop (Suc i) xss)" by (metis nth_mem)
    then show ?thesis by auto
  qed
  ultimately show thesis using that by blast
qed

text \<open>An operation on list \<open>i\<close> that leaves the links of the other lists alone.\<close>

lemma rtl_holds_update:
  assumes h: "rtl_holds rtl xss" and i: "i < KAAPI_TASKLIST_NUM_PRIORITY"
    and d: "dll (lnext rtl') (lprev rtl') (prl rtl' i) ys"
    and q: "\<forall>j. j \<noteq> i \<longrightarrow> prl rtl' j = prl rtl j"
    and l: "\<forall>x. x \<notin> insert td (set (xss ! i)) \<longrightarrow> lnext rtl' x = lnext rtl x \<and> lprev rtl' x = lprev rtl x"
    and s: "set ys \<subseteq> insert td (set (xss ! i))" "distinct ys"
    and t: "td \<in> set (xss ! i) \<or> td \<notin> set (concat xss)"
    and c: "cnt_tasks rtl' = cnt_tasks rtl + int (length ys) - int (length (xss ! i))"
  shows "rtl_holds rtl' (xss[i := ys])"
proof -
  have len: "length xss = KAAPI_TASKLIST_NUM_PRIORITY" and dis: "distinct (concat xss)"
    and all: "\<forall>i < KAAPI_TASKLIST_NUM_PRIORITY. dll (lnext rtl) (lprev rtl) (prl rtl i) (xss ! i)"
    and cnt: "cnt_tasks rtl = int (length (concat xss))"
    using h by (auto simp: rtl_holds_def)
  obtain A B where ab: "concat xss = A @ xss ! i @ B" "\<And>ys. concat (xss[i := ys]) = A @ ys @ B"
    "\<And>j. j < length xss \<Longrightarrow> j \<noteq> i \<Longrightarrow> set (xss ! j) \<subseteq> set A \<union> set B"
    using concat_at [of i xss] i len by metis
  have out: "x \<notin> insert td (set (xss ! i))" if "x \<in> set A \<union> set B" for x
    using that dis t ab(1) by auto
  have "dll (lnext rtl') (lprev rtl') (prl rtl' j) (xss[i := ys] ! j)" if j: "j < KAAPI_TASKLIST_NUM_PRIORITY" for j
  proof (cases "j = i")
    case True
    then show ?thesis using d i len by simp
  next
    case False
    then have "set (xss ! j) \<subseteq> set A \<union> set B" using ab(3) j len by simp
    then have "\<forall>x \<in> set (xss ! j). lnext rtl' x = lnext rtl x \<and> lprev rtl' x = lprev rtl x" using out l by blast
    then have "dll (lnext rtl') (lprev rtl') (prl rtl j) (xss ! j)" using all j dll_frame by blast
    then show ?thesis using False q by simp
  qed
  moreover have "distinct (concat (xss[i := ys]))"
    using dis s out unfolding ab(1,2) by auto
  moreover have "cnt_tasks rtl' = int (length (concat (xss[i := ys])))"
    using c cnt unfolding ab(1,2) by simp
  ultimately show ?thesis using len by (simp add: rtl_holds_def)
qed

lemmas link_sets = set_prev_def set_next_def set_ortl_def

lemma rtl_holds_list:
  "rtl_holds rtl xss \<Longrightarrow> i < KAAPI_TASKLIST_NUM_PRIORITY \<Longrightarrow>
   dll (lnext rtl) (lprev rtl) (prl rtl i) (xss ! i) \<and> distinct (xss ! i)"
proof -
  assume h: "rtl_holds rtl xss" and i: "i < KAAPI_TASKLIST_NUM_PRIORITY"
  then have "xss ! i \<in> set xss" by (simp add: rtl_holds_def)
  then show ?thesis using h i by (auto simp: rtl_holds_def distinct_concat_iff)
qed

lemma push_holds:
  assumes h: "rtl_holds rtl xss" and new: "td \<notin> set (concat xss)" and i: "i < KAAPI_TASKLIST_NUM_PRIORITY"
    and r: "rtl' = kaapi_onereadytasklist_push i td rtl" and r': "rtl'' = rtl'\<lparr>cnt_tasks := cnt_tasks rtl' + 1\<rparr>"
  shows "rtl_holds rtl'' (xss[i := td # xss ! i])"
proof -
  let ?xs = "xss ! i" and ?q = "prl rtl i"
  have dl: "dll (lnext rtl) (lprev rtl) ?q ?xs" and di: "distinct ?xs" using rtl_holds_list [OF h i] by auto
  have nin: "td \<notin> set ?xs" using new i h by (auto simp: rtl_holds_def)
  have hd: "ortl_head ?q = (case ?xs of [] \<Rightarrow> None | x # _ \<Rightarrow> Some x)"
    using link_path_start dl unfolding dll_def by blast
  have F: "lnext rtl'' = (lnext rtl)(td := ortl_head ?q)"
    "lprev rtl'' = (case ortl_head ?q of Some h \<Rightarrow> ((lprev rtl)(td := None))(h := Some td) | None \<Rightarrow> (lprev rtl)(td := None))"
    "prl rtl'' = (prl rtl)(i := ?q\<lparr>ortl_head := Some td, ortl_size := ortl_size ?q + 1,
        ortl_tail := (if ortl_head ?q = None then Some td else ortl_tail ?q)\<rparr>)"
    "cnt_tasks rtl'' = cnt_tasks rtl + 1"
    by (auto simp: r r' kaapi_onereadytasklist_push_def Let_def link_sets fun_upd_def split: option.split)
  have "dll (lnext rtl'') (lprev rtl'') (prl rtl'' i) (td # ?xs)"
  proof (cases ?xs)
    case Nil
    then show ?thesis using dl hd by (auto simp: dll_def F)
  next
    case (Cons x ys)
    have x: "x \<noteq> td" "x \<notin> set ys" "td \<notin> set ys" using nin di Cons by auto
    have "link_path (lnext rtl'') (Some td) (td # ?xs) None"
      using dl nin by (simp add: dll_def F(1) link_path_upd)
    moreover have "link_path (lprev rtl'') (ortl_tail ?q) (rev ?xs @ [td]) None"
    proof -
      have "link_path ((lprev rtl)(td := None)) (ortl_tail ?q) (rev ys @ [x]) None"
        using dl Cons x by (simp add: dll_def link_path_upd)
      then have "link_path (((lprev rtl)(td := None))(x := Some td)) (ortl_tail ?q) (rev ys @ [x]) (Some td)"
        by (rule link_path_redirect) (use x in simp)
      then show ?thesis using x hd Cons by (auto simp: F(2) link_path_append)
    qed
    ultimately show ?thesis using dl hd Cons by (simp add: dll_def F(3))
  qed
  then show ?thesis
  proof (rule rtl_holds_update [OF h i, where td = td])
    show "\<forall>x. x \<notin> insert td (set ?xs) \<longrightarrow> lnext rtl'' x = lnext rtl x \<and> lprev rtl'' x = lprev rtl x"
      by (auto simp: F(1,2) hd split: list.split)
  qed (use nin di new F(3,4) in auto)
qed

lemma remote_push_holds:
  assumes h: "rtl_holds rtl xss" and new: "td \<notin> set (concat xss)" and i: "i < KAAPI_TASKLIST_NUM_PRIORITY"
    and r: "rtl' = kaapi_onereadytasklist_remote_push i td rtl" and r': "rtl'' = rtl'\<lparr>cnt_tasks := cnt_tasks rtl' + 1\<rparr>"
  shows "rtl_holds rtl'' (xss[i := xss ! i @ [td]])"
proof -
  let ?xs = "xss ! i" and ?q = "prl rtl i"
  have dl: "dll (lnext rtl) (lprev rtl) ?q ?xs" and di: "distinct ?xs" using rtl_holds_list [OF h i] by auto
  have nin: "td \<notin> set ?xs" using new i h by (auto simp: rtl_holds_def)
  have tl: "ortl_tail ?q = (case rev ?xs of [] \<Rightarrow> None | x # _ \<Rightarrow> Some x)"
    using link_path_start dl unfolding dll_def by blast
  have F: "lprev rtl'' = (lprev rtl)(td := ortl_tail ?q)"
    "lnext rtl'' = (case ortl_tail ?q of Some t \<Rightarrow> ((lnext rtl)(td := None))(t := Some td) | None \<Rightarrow> (lnext rtl)(td := None))"
    "prl rtl'' = (prl rtl)(i := ?q\<lparr>ortl_tail := Some td, ortl_size := ortl_size ?q + 1,
        ortl_head := (if ortl_tail ?q = None then Some td else ortl_head ?q)\<rparr>)"
    "cnt_tasks rtl'' = cnt_tasks rtl + 1"
    by (auto simp: r r' kaapi_onereadytasklist_remote_push_def Let_def link_sets fun_upd_def split: option.split)
  have "dll (lnext rtl'') (lprev rtl'') (prl rtl'' i) (?xs @ [td])"
  proof (cases ?xs rule: rev_cases)
    case Nil
    then show ?thesis using dl tl by (auto simp: dll_def F)
  next
    case (snoc ys x)
    have x: "x \<noteq> td" "x \<notin> set ys" "td \<notin> set ys" using nin di snoc by auto
    have "link_path (lprev rtl'') (Some td) (td # rev ?xs) None"
      using dl nin by (simp add: dll_def F(1) link_path_upd)
    moreover have "link_path (lnext rtl'') (ortl_head ?q) (?xs @ [td]) None"
    proof -
      have "link_path ((lnext rtl)(td := None)) (ortl_head ?q) (ys @ [x]) None"
        using dl snoc x by (simp add: dll_def link_path_upd)
      then have "link_path (((lnext rtl)(td := None))(x := Some td)) (ortl_head ?q) (ys @ [x]) (Some td)"
        by (rule link_path_redirect) (use x in simp)
      then show ?thesis using x tl snoc by (auto simp: F(2) link_path_append)
    qed
    ultimately show ?thesis using dl tl snoc by (simp add: dll_def F(3))
  qed
  then show ?thesis
  proof (rule rtl_holds_update [OF h i, where td = td])
    show "\<forall>x. x \<notin> insert td (set ?xs) \<longrightarrow> lnext rtl'' x = lnext rtl x \<and> lprev rtl'' x = lprev rtl x"
      using tl by (cases ?xs rule: rev_cases) (auto simp: F(1,2))
  qed (use nin di new F(3,4) in auto)
qed

lemma unlink_holds:
  assumes h: "rtl_holds rtl xss" and i: "i < KAAPI_TASKLIST_NUM_PRIORITY" and x: "xss ! i = as @ x # bs"
    and r: "rtl' = unlink_cur i x rtl" and r': "rtl'' = rtl'\<lparr>cnt_tasks := cnt_tasks rtl' - 1\<rparr>"
  shows "rtl_holds rtl'' (xss[i := as @ bs])"
proof -
  let ?q = "prl rtl i" and ?n = "lnext rtl" and ?p = "lprev rtl"
  have dl: "link_path ?n (ortl_head ?q) (as @ x # bs) None" "link_path ?p (ortl_tail ?q) (rev (as @ x # bs)) None"
    "ortl_size ?q = int (length (as @ x # bs))" and di: "distinct (as @ x # bs)"
    using rtl_holds_list [OF h i] x by (auto simp: dll_def)
  have px: "link_path ?p (?p x) (rev as) None" and nx: "link_path ?n (?n x) bs None"
    using dl(1,2) by (auto simp: link_path_append)
  have pn: "?p x = (case rev as of [] \<Rightarrow> None | a # _ \<Rightarrow> Some a)" "?n x = (case bs of [] \<Rightarrow> None | b # _ \<Rightarrow> Some b)"
    using link_path_start [OF px] link_path_start [OF nx] by simp_all
  have ne: "?p x \<noteq> Some x" "?n x \<noteq> Some x" using pn di by (auto split: list.splits dest: arg_cong [of _ _ rev])
  have F: "lnext rtl'' = (case ?p x of Some a \<Rightarrow> ?n(a := ?n x) | None \<Rightarrow> ?n)(x := None)"
    "lprev rtl'' = (case ?n x of Some b \<Rightarrow> ?p(b := ?p x) | None \<Rightarrow> ?p)(x := None)"
    "prl rtl'' = (prl rtl)(i := ?q\<lparr>ortl_head := (case ?p x of Some a \<Rightarrow> ortl_head ?q | None \<Rightarrow> ?n x),
        ortl_tail := (case ?n x of Some b \<Rightarrow> ortl_tail ?q | None \<Rightarrow> ?p x), ortl_size := ortl_size ?q - 1\<rparr>)"
    "cnt_tasks rtl'' = cnt_tasks rtl - 1"
    using ne by (auto simp: r r' unlink_cur_def Let_def link_sets fun_upd_def split: option.split)
  have "x \<notin> set (as @ bs)" using di by auto
  moreover have "link_path (case ?p x of Some a \<Rightarrow> ?n(a := ?n x) | None \<Rightarrow> ?n)
      (case ?p x of Some a \<Rightarrow> ortl_head ?q | None \<Rightarrow> ?n x) (as @ bs) None"
    by (rule unlink_path [OF dl(1,2) di])
  moreover have "link_path (case ?n x of Some b \<Rightarrow> ?p(b := ?p x) | None \<Rightarrow> ?p)
      (case ?n x of Some b \<Rightarrow> ortl_tail ?q | None \<Rightarrow> ?p x) (rev bs @ rev as) None"
    by (rule unlink_path [where t = "ortl_head ?q"]) (use dl di in auto)
  ultimately have "dll (lnext rtl'') (lprev rtl'') (prl rtl'' i) (as @ bs)"
    using dl(3) by (simp add: dll_def F link_path_upd)
  then show ?thesis
  proof (rule rtl_holds_update [OF h i, where td = x])
    show "\<forall>y. y \<notin> insert x (set (xss ! i)) \<longrightarrow> lnext rtl'' y = ?n y \<and> lprev rtl'' y = ?p y"
      using pn by (auto simp: F(1,2) x split: option.split list.splits dest: arg_cong [of _ _ rev])
  qed (use di x F(3,4) in auto)
qed

section \<open>Pop and steal\<close>

text \<open>The first descriptor that a search of single lists finds, in the order of the priorities of the processor.\<close>

fun find_prio :: "(nat list \<Rightarrow> nat option) \<Rightarrow> nat list list \<Rightarrow> nat list \<Rightarrow> (nat \<times> nat) option" where
  "find_prio f xss [] = None"
| "find_prio f xss (i # is) = (case f (xss ! i) of Some x \<Rightarrow> Some (i, x) | None \<Rightarrow> find_prio f xss is)"

definition prios :: "bool \<Rightarrow> nat list" where
  "prios cuda = (if cuda then [0, 1, 2, 3, 4, 5, 6, 7] else [7, 6, 5, 4, 3, 2, 1, 0])"

lemma prios_all: "set (prios cuda) = {..<KAAPI_TASKLIST_NUM_PRIORITY}"
  by (auto simp: prios_def KAAPI_TASKLIST_NUM_PRIORITY_def)

lemma find_prio_Some:
  "find_prio f xss is = Some (i, x) \<Longrightarrow> i \<in> set is \<and> f (xss ! i) = Some x"
  by (induction "is") (auto split: option.splits)

lemma find_prio_None: "find_prio f xss is = None \<longleftrightarrow> (\<forall>i \<in> set is. f (xss ! i) = None)"
  by (induction "is") (auto split: option.splits)

text \<open>The priorities that a loop from \<open>prio\<close> visits.\<close>

fun visits :: "int \<Rightarrow> int \<Rightarrow> nat list \<Rightarrow> int \<Rightarrow> bool" where
  "visits m inc [] prio \<longleftrightarrow> prio = m"
| "visits m inc (i # is) prio \<longleftrightarrow> prio \<noteq> m \<and> prio = int i \<and> visits m inc is (prio + inc)"

lemma range_visits:
  "kaapi_readylist_get_priority_range cuda = (m, mx, inc) \<Longrightarrow> visits m inc (prios cuda) mx"
  by (auto simp: kaapi_readylist_get_priority_range_def prios_def split: if_splits)

definition removed :: "kaapi_readytasklist \<Rightarrow> nat \<times> nat \<Rightarrow> kaapi_readytasklist" where
  "removed rtl ix = (case ix of (i, x) \<Rightarrow>
     (let rtl = unlink_cur i x rtl in rtl\<lparr>cnt_tasks := cnt_tasks rtl - 1\<rparr>))"

lemma removed_holds:
  assumes "rtl_holds rtl xss" "i < KAAPI_TASKLIST_NUM_PRIORITY" "x \<in> set (xss ! i)"
  shows "rtl_holds (removed rtl (i, x)) (xss[i := remove1 x (xss ! i)])"
proof -
  obtain as bs where s: "xss ! i = as @ x # bs" using assms(3) by (meson split_list)
  have "distinct (xss ! i)" using rtl_holds_list [OF assms(1,2)] by simp
  then have "remove1 x (xss ! i) = as @ bs" using s by (simp add: remove1_append)
  then show ?thesis
    using unlink_holds [OF assms(1,2) s refl refl] by (simp add: removed_def Let_def)
qed

lemma onepop_spec:
  assumes h: "rtl_holds rtl xss" and i: "i < KAAPI_TASKLIST_NUM_PRIORITY"
  shows "kaapi_onereadytasklist_pop attr arch i rtl =
    Some (case find (\<lambda>x. pop_runs arch (attr x)) (xss ! i) of
            None \<Rightarrow> (Inl EBUSY, rtl) | Some x \<Rightarrow> (Inr x, unlink_cur i x rtl))"
proof -
  have "dll (lnext rtl) (lprev rtl) (prl rtl i) (xss ! i)" using rtl_holds_list [OF h i] by simp
  then show ?thesis
    using link_walk_path [of "lnext rtl" "ortl_head (prl rtl i)" "xss ! i" "\<lambda>x. pop_runs arch (attr x)"]
    by (auto simp: kaapi_onereadytasklist_pop_def kaapi_onereadytasklist_isempty_def dll_def)
qed

lemma pop_loop_spec:
  assumes h: "rtl_holds rtl xss"
  shows "visits m inc is prio \<Longrightarrow> set is \<subseteq> {..<KAAPI_TASKLIST_NUM_PRIORITY} \<Longrightarrow>
    pop_loop attr arch m inc prio rtl =
      Some (case find_prio (find (\<lambda>x. pop_runs arch (attr x))) xss is of
              None \<Rightarrow> (Inl EBUSY, rtl) | Some (i, x) \<Rightarrow> (Inr x, removed rtl (i, x)))"
proof (induction "is" arbitrary: prio)
  case Nil
  then show ?case by (simp add: pop_loop.simps)
next
  case (Cons i "is")
  then have "i < KAAPI_TASKLIST_NUM_PRIORITY" "nat prio = i" "prio \<noteq> m" by auto
  then show ?case
    using Cons.IH [of "prio + inc"] Cons.prems onepop_spec [OF h, of i attr arch]
    unfolding pop_loop.simps [of attr arch m inc prio] by (auto simp: removed_def Let_def split: option.splits)
qed

theorem readylist_pop_spec:
  assumes h: "rtl_holds rtl xss"
  shows "kaapi_readylist_pop attr cuda arch rtl =
    Some (if concat xss = [] then (Inl EPERM, rtl)
          else case find_prio (find (\<lambda>x. pop_runs arch (attr x))) xss (prios cuda) of
                 None \<Rightarrow> (Inl EBUSY, rtl) | Some (i, x) \<Rightarrow> (Inr x, removed rtl (i, x)))"
proof -
  have "cnt_tasks rtl = 0 \<longleftrightarrow> concat xss = []" using h by (auto simp: rtl_holds_def)
  then show ?thesis
    using pop_loop_spec [OF h range_visits] prios_all [of cuda]
    by (auto simp: kaapi_readylist_pop_def split: prod.split)
qed

text \<open>A policy walks the list from its tail and chooses one of its descriptors, or none.\<close>

locale steal_policy =
  fixes sel :: steal_choice
    and choice :: "nat list \<Rightarrow> nat option"
  assumes sel_spec: "link_path p t (rev xs) None \<Longrightarrow> sel p t = Some (choice xs)"
    and choice_in: "choice xs = Some x \<Longrightarrow> x \<in> set xs"
begin

lemma choice_Nil: "choice [] = None"
  using choice_in [of "[]"] by (cases "choice []") auto

lemma onesteal_spec:
  assumes h: "rtl_holds rtl xss" and i: "i < KAAPI_TASKLIST_NUM_PRIORITY"
  shows "kaapi_onereadytasklist_steal sel i rtl =
    Some (case choice (xss ! i) of None \<Rightarrow> (Inl EBUSY, rtl) | Some x \<Rightarrow> (Inr x, unlink_cur i x rtl))"
proof -
  have "dll (lnext rtl) (lprev rtl) (prl rtl i) (xss ! i)" using rtl_holds_list [OF h i] by simp
  then show ?thesis
    using sel_spec [of "lprev rtl" "ortl_tail (prl rtl i)" "xss ! i"] choice_Nil
    by (auto simp: kaapi_onereadytasklist_steal_def kaapi_onereadytasklist_isempty_def dll_def)
qed

lemma steal_loop_spec:
  assumes h: "rtl_holds rtl xss"
  shows "visits m inc is prio \<Longrightarrow> set is \<subseteq> {..<KAAPI_TASKLIST_NUM_PRIORITY} \<Longrightarrow>
    steal_loop sel m inc prio rtl =
      Some (case find_prio choice xss is of None \<Rightarrow> (Inl EPERM, rtl) | Some (i, x) \<Rightarrow> (Inr x, removed rtl (i, x)))"
proof (induction "is" arbitrary: prio)
  case Nil
  then show ?case by (simp add: steal_loop.simps)
next
  case (Cons i "is")
  then have "i < KAAPI_TASKLIST_NUM_PRIORITY" "nat prio = i" "prio \<noteq> m" by auto
  then show ?case
    using Cons.IH [of "prio + inc"] Cons.prems onesteal_spec [OF h, of i]
    unfolding steal_loop.simps [of sel m inc prio] by (auto simp: removed_def Let_def split: option.splits)
qed

lemma steal_spec:
  assumes h: "rtl_holds rtl xss"
  shows "kaapi_readylist_steal sel cuda rtl =
    Some (case find_prio choice xss (prios cuda) of
            None \<Rightarrow> (Inl EPERM, rtl) | Some (i, x) \<Rightarrow> (Inr x, removed rtl (i, x)))"
proof -
  have "find_prio choice xss (prios cuda) = None" if "concat xss = []"
  proof -
    have "xss ! i = []" if "i < KAAPI_TASKLIST_NUM_PRIORITY" for i
      using that \<open>concat xss = []\<close> h by (auto simp: rtl_holds_def)
    then show ?thesis using choice_Nil prios_all [of cuda] by (auto simp: find_prio_None)
  qed
  moreover have "cnt_tasks rtl = 0 \<longleftrightarrow> concat xss = []" using h by (auto simp: rtl_holds_def)
  ultimately show ?thesis
    using steal_loop_spec [OF h range_visits] prios_all [of cuda]
    by (auto simp: kaapi_readylist_steal_def split: prod.split)
qed

text \<open>What a thief gets is out of the queue, and nothing else is.\<close>

lemma steal_takes_one:
  assumes h: "rtl_holds rtl xss" and r: "kaapi_readylist_steal sel cuda rtl = Some (res, rtl')"
  shows "(case res of
      Inl e \<Rightarrow> rtl' = rtl
    | Inr x \<Rightarrow> \<exists>i. i < KAAPI_TASKLIST_NUM_PRIORITY \<and> choice (xss ! i) = Some x
        \<and> rtl_holds rtl' (xss[i := remove1 x (xss ! i)]))"
proof (cases "find_prio choice xss (prios cuda)")
  case None
  then show ?thesis using r steal_spec [OF h, of cuda] by auto
next
  case (Some ix)
  obtain i x where ix: "ix = (i, x)" by fastforce
  then have "i < KAAPI_TASKLIST_NUM_PRIORITY" "choice (xss ! i) = Some x"
    using find_prio_Some [of choice xss "prios cuda" i x] Some prios_all [of cuda] by auto
  moreover from this have "rtl_holds (removed rtl (i, x)) (xss[i := remove1 x (xss ! i)])"
    using removed_holds [OF h] choice_in by blast
  ultimately show ?thesis using r steal_spec [OF h, of cuda] Some ix by (auto intro: exI [of _ i])
qed

end

text \<open>The four policies of the repository.\<close>

definition maxct_upd :: "(nat \<Rightarrow> ready_attr) \<Rightarrow> nat \<Rightarrow> nat \<Rightarrow> nat \<Rightarrow> nat" where
  "maxct_upd attr arch best x =
     (if (ra_fmt (attr x) = None \<or>
          (kaapi_task_has_arch (attr x) arch \<and> kaapi_get_task_body_by_arch (attr x) arch \<noteq> 0))
        \<and> ra_date (attr x) > ra_date (attr best) then x else best)"

definition maxct_choice :: "(nat \<Rightarrow> ready_attr) \<Rightarrow> nat \<Rightarrow> nat list \<Rightarrow> nat option" where
  "maxct_choice attr arch xs =
     map_option (\<lambda>m. foldl (maxct_upd attr arch) m (rev xs)) (find (\<lambda>x. steal_runs arch (attr x)) (rev xs))"

definition maxhit_upd :: "(nat \<Rightarrow> nat) \<Rightarrow> (nat \<Rightarrow> ready_attr) \<Rightarrow> nat \<Rightarrow> nat \<times> nat option \<Rightarrow> nat \<Rightarrow> nat \<times> nat option" where
  "maxhit_upd hit attr arch = (\<lambda>(hitmax, tdhitmax) x.
          if ra_fmt (attr x) = None then
            (if tdhitmax = None then (0, Some x) else (hitmax, tdhitmax))
          else if kaapi_task_has_arch (attr x) arch \<and> kaapi_get_task_body_by_arch (attr x) arch \<noteq> 0 then
            (if tdhitmax = None then (hit x, Some x)
             else if hit x > hitmax then (hit x, Some x) else (hitmax, tdhitmax))
          else (hitmax, tdhitmax))"

definition writer_choice :: "(nat \<Rightarrow> bool) \<Rightarrow> (nat \<Rightarrow> ready_attr) \<Rightarrow> nat \<Rightarrow> nat list \<Rightarrow> nat option" where
  "writer_choice valid_writer attr arch xs =
     (case find (\<lambda>x. steal_runs arch (attr x)) (rev xs) of
        None \<Rightarrow> None
      | Some c \<Rightarrow>
          (case find (\<lambda>x. ra_fmt (attr x) \<noteq> None \<and> kaapi_task_has_arch (attr x) arch \<and>
                  kaapi_get_task_body_by_arch (attr x) arch \<noteq> 0 \<and> valid_writer x) (rev xs) of
             None \<Rightarrow> Some c | Some x \<Rightarrow> Some x))"

lemma foldl_pick: "(\<And>b x. f b x \<in> {b, x}) \<Longrightarrow> foldl f b xs \<in> insert b (set xs)"
proof (induction xs arbitrary: b)
  case (Cons x xs)
  have "foldl f (f b x) xs \<in> insert (f b x) (set xs)" using Cons by blast
  then show ?case using Cons.prems [of b x] by auto
qed simp

lemma find_in_set: "find P xs = Some x \<Longrightarrow> x \<in> set xs \<and> P x"
  by (auto simp: find_Some_iff)

interpretation sfirst: steal_policy "kaapi_steal_by_affinity_first attr arch"
    "\<lambda>xs. find (\<lambda>x. steal_runs arch (attr x)) (rev xs)" for attr arch
  by unfold_locales (auto simp: kaapi_steal_by_affinity_first_def link_walk_path dest: find_in_set)

interpretation smaxct: steal_policy "kaapi_steal_by_affinity_maxctpath attr arch" "maxct_choice attr arch" for attr arch
proof
  fix p t xs
  assume l: "link_path p t (rev xs) None"
  then show "kaapi_steal_by_affinity_maxctpath attr arch p t = Some (maxct_choice attr arch xs)"
    by (simp add: kaapi_steal_by_affinity_maxctpath_def kaapi_steal_by_affinity_first_def link_walk_path best_walk_path
        maxct_choice_def maxct_upd_def [abs_def] split: option.split)
next
  fix xs x
  assume c: "maxct_choice attr arch xs = Some x"
  then obtain m where m: "find (\<lambda>x. steal_runs arch (attr x)) (rev xs) = Some m" "x = foldl (maxct_upd attr arch) m (rev xs)"
    by (auto simp: maxct_choice_def)
  have "foldl (maxct_upd attr arch) m (rev xs) \<in> insert m (set (rev xs))"
    by (rule foldl_pick) (simp add: maxct_upd_def)
  then show "x \<in> set xs" using m find_in_set [OF m(1)] by auto
qed

interpretation smaxhit: steal_policy "kaapi_steal_by_affinity_maxhit hit attr arch"
    "\<lambda>xs. snd (foldl (maxhit_upd hit attr arch) (0, None) (rev xs))" for hit attr arch
proof
  fix p t xs
  assume "link_path p t (rev xs) None"
  then show "kaapi_steal_by_affinity_maxhit hit attr arch p t = Some (snd (foldl (maxhit_upd hit attr arch) (0, None) (rev xs)))"
    by (simp add: kaapi_steal_by_affinity_maxhit_def best_walk_path maxhit_upd_def)
next
  fix xs x
  have "snd (foldl (maxhit_upd hit attr arch) (h, b) ys) \<in> insert b (Some ` set ys)" for h b ys
  proof (induction ys arbitrary: h b)
    case (Cons y ys)
    have "snd (maxhit_upd hit attr arch (h, b) y) \<in> {b, Some y}" by (simp add: maxhit_upd_def)
    then show ?case
      using Cons [of "fst (maxhit_upd hit attr arch (h, b) y)" "snd (maxhit_upd hit attr arch (h, b) y)"] by auto
  qed simp
  then show "snd (foldl (maxhit_upd hit attr arch) (0, None) (rev xs)) = Some x \<Longrightarrow> x \<in> set xs"
    by (metis (no_types, lifting) image_iff insertE option.distinct(1) option.inject set_rev)
qed

interpretation swriter: steal_policy "kaapi_steal_by_affinity_writer valid_writer attr arch"
    "writer_choice valid_writer attr arch" for valid_writer attr arch
  by unfold_locales
    (auto simp: kaapi_steal_by_affinity_writer_def kaapi_steal_by_affinity_first_def link_walk_path writer_choice_def
      dest: find_in_set split: option.splits)

section \<open>Properties\<close>

text \<open>A push puts the descriptor at the head of the list of its priority, a remote push at its tail; all lists stay
  well-formed doubly linked lists, and no other list changes.\<close>

theorem readylist_push_ends:
  assumes "rtl_holds rtl xss" and "td \<notin> set (concat xss)" and "ra_priority (attr td) < KAAPI_TASKLIST_NUM_PRIORITY"
  shows "let i = ra_priority (attr td) in
    (\<exists>rtl'. kaapi_readylist_push attr rtl td = Some (i, rtl') \<and> rtl_holds rtl' (xss[i := td # xss ! i]))
    \<and> (\<exists>rtl'. kaapi_readylist_remote_push attr rtl td = Some (i, rtl') \<and> rtl_holds rtl' (xss[i := xss ! i @ [td]]))"
  using push_holds [OF assms refl refl] remote_push_holds [OF assms refl refl] assms(3)
  by (simp add: kaapi_readylist_push_def kaapi_readylist_remote_push_def Let_def)

lemma find_split:
  "find P xs = Some x \<Longrightarrow> \<exists>as bs. xs = as @ x # bs \<and> P x \<and> (\<forall>y \<in> set as. \<not> P y)"
  by (induction xs) (auto split: if_splits intro: exI [of _ "[]"] exI [of _ "_ # _"], metis append_Cons set_ConsD)

lemma find_prio_first:
  "find_prio f xss is = Some (i, x) \<Longrightarrow> \<exists>as bs. is = as @ i # bs \<and> (\<forall>j \<in> set as. f (xss ! j) = None)"
proof (induction "is")
  case (Cons k ks)
  show ?case
  proof (cases "f (xss ! k)")
    case None
    then obtain as bs where "ks = as @ i # bs" "\<forall>j \<in> set as. f (xss ! j) = None" using Cons by auto
    then show ?thesis using None by (intro exI [of _ "k # as"] exI [of _ bs]) simp
  next
    case (Some y)
    then show ?thesis using Cons.prems by (intro exI [of _ "[]"] exI [of _ ks]) simp
  qed
qed simp

lemma prios_above: "prios False = as @ i # bs \<Longrightarrow> i < j \<Longrightarrow> j < KAAPI_TASKLIST_NUM_PRIORITY \<Longrightarrow> j \<in> set as"
  by (auto simp: prios_def KAAPI_TASKLIST_NUM_PRIORITY_def append_eq_Cons_conv Cons_eq_append_conv)

text \<open>C31: a pop on a processor that is not a GPU returns, and takes the descriptor nearest to the head that the processor can run
  out of the list of the greatest priority that has one; it fails, and changes nothing, only when the queue has none.\<close>

theorem readylist_pop_highest:
  assumes "rtl_holds rtl xss"
  shows "\<exists>res rtl'. kaapi_readylist_pop attr False arch rtl = Some (res, rtl') \<and>
    (case res of
       Inl e \<Rightarrow> rtl' = rtl \<and> (\<forall>y \<in> set (concat xss). \<not> pop_runs arch (attr y))
     | Inr x \<Rightarrow> \<exists>i as bs. i < KAAPI_TASKLIST_NUM_PRIORITY \<and> xss ! i = as @ x # bs \<and> pop_runs arch (attr x)
         \<and> (\<forall>y \<in> set as. \<not> pop_runs arch (attr y))
         \<and> (\<forall>j < KAAPI_TASKLIST_NUM_PRIORITY. i < j \<longrightarrow> (\<forall>y \<in> set (xss ! j). \<not> pop_runs arch (attr y)))
         \<and> rtl_holds rtl' (xss[i := as @ bs]))"
proof -
  let ?P = "\<lambda>x. pop_runs arch (attr x)"
  note spec = readylist_pop_spec [OF assms, of attr False arch]
  have len: "length xss = KAAPI_TASKLIST_NUM_PRIORITY" using assms by (simp add: rtl_holds_def)
  show ?thesis
  proof (cases "find_prio (find ?P) xss (prios False)")
    case None
    then have "\<forall>i < KAAPI_TASKLIST_NUM_PRIORITY. \<forall>y \<in> set (xss ! i). \<not> ?P y"
      using prios_all [of False] by (auto simp: find_prio_None find_None_iff)
    then have "\<forall>y \<in> set (concat xss). \<not> ?P y" using len by (metis UN_E in_set_conv_nth set_concat)
    then show ?thesis using spec None by auto
  next
    case (Some ix)
    obtain i x where ix: "ix = (i, x)" by fastforce
    have i: "i < KAAPI_TASKLIST_NUM_PRIORITY" "find ?P (xss ! i) = Some x"
      using find_prio_Some [of "find ?P" xss "prios False" i x] Some ix prios_all [of False] by auto
    obtain ks ls where kl: "prios False = ks @ i # ls" "\<forall>j \<in> set ks. find ?P (xss ! j) = None"
      using find_prio_first [of "find ?P" xss "prios False" i x] Some ix by auto
    obtain as bs where s: "xss ! i = as @ x # bs" "?P x" "\<forall>y \<in> set as. \<not> ?P y" using find_split [OF i(2)] by blast
    have "\<forall>j < KAAPI_TASKLIST_NUM_PRIORITY. i < j \<longrightarrow> (\<forall>y \<in> set (xss ! j). \<not> ?P y)"
      using kl prios_above [OF kl(1)] by (auto simp: find_None_iff)
    moreover have "rtl_holds (removed rtl (i, x)) (xss[i := as @ bs])"
      using unlink_holds [OF assms i(1) s(1) refl refl] by (simp add: removed_def Let_def)
    moreover have "concat xss \<noteq> []" using s(1) i(1) len by (metis append_is_Nil_conv concat_eq_Nil_conv list.distinct(1) nth_mem)
    ultimately show ?thesis using spec Some ix i(1) s by auto
  qed
qed

text \<open>A steal with the policy \<^verbatim>\<open>maxctpath\<close> returns; the descriptor it takes has the greatest date among those of its
  list that the thief can run, it is out of the queue afterwards, and nothing else has changed.\<close>

theorem readylist_steal_maxctpath:
  assumes "rtl_holds rtl xss"
  shows "\<exists>res rtl'. kaapi_readylist_steal (kaapi_steal_by_affinity_maxctpath attr arch) cuda rtl = Some (res, rtl') \<and>
    (case res of
       Inl e \<Rightarrow> rtl' = rtl \<and> (\<forall>y \<in> set (concat xss). \<not> steal_runs arch (attr y))
     | Inr x \<Rightarrow> \<exists>i < KAAPI_TASKLIST_NUM_PRIORITY. x \<in> set (xss ! i)
         \<and> (\<forall>y \<in> set (xss ! i). pop_runs arch (attr y) \<longrightarrow> ra_date (attr y) \<le> ra_date (attr x))
         \<and> rtl_holds rtl' (xss[i := remove1 x (xss ! i)]))"
proof -
  let ?sel = "kaapi_steal_by_affinity_maxctpath attr arch" and ?S = "\<lambda>x. steal_runs arch (attr x)"
  have len: "length xss = KAAPI_TASKLIST_NUM_PRIORITY" using assms by (simp add: rtl_holds_def)
  obtain res rtl' where r: "kaapi_readylist_steal ?sel cuda rtl = Some (res, rtl')"
    using smaxct.steal_spec [OF assms, of attr arch cuda] by (metis surj_pair)
  have none: "\<forall>y \<in> set (concat xss). \<not> ?S y" if "res = Inl e" for e
  proof -
    have "find_prio (maxct_choice attr arch) xss (prios cuda) = None"
      using r that smaxct.steal_spec [OF assms, of attr arch cuda] by (auto split: option.splits)
    then have "\<forall>i < KAAPI_TASKLIST_NUM_PRIORITY. \<forall>y \<in> set (xss ! i). \<not> ?S y"
      using prios_all [of cuda] by (auto simp: find_prio_None find_None_iff maxct_choice_def)
    then show ?thesis using len by (metis UN_E in_set_conv_nth set_concat)
  qed
  have fold: "ra_date (attr b) \<le> ra_date (attr (foldl (maxct_upd attr arch) b ys)) \<and>
      (\<forall>y \<in> set ys. pop_runs arch (attr y) \<longrightarrow> ra_date (attr y) \<le> ra_date (attr (foldl (maxct_upd attr arch) b ys)))" for b ys
  proof (induction ys arbitrary: b)
    case (Cons y ys)
    have "ra_date (attr b) \<le> ra_date (attr (maxct_upd attr arch b y))"
      "pop_runs arch (attr y) \<Longrightarrow> ra_date (attr y) \<le> ra_date (attr (maxct_upd attr arch b y))"
      by (auto simp: maxct_upd_def pop_runs_def)
    then show ?case using Cons.IH [of "maxct_upd attr arch b y"] by (auto intro: order_trans)
  qed simp
  have best: "\<forall>y \<in> set xs. pop_runs arch (attr y) \<longrightarrow> ra_date (attr y) \<le> ra_date (attr x)"
    if "maxct_choice attr arch xs = Some x" for xs x
    using that fold [of _ "rev xs"] by (auto simp: maxct_choice_def)
  show ?thesis
    using r smaxct.steal_takes_one [OF assms r] none best smaxct.choice_in
    by (cases res) (simp_all, meson)
qed

section \<open>Witnesses\<close>

definition sample_attr :: "nat \<Rightarrow> ready_attr" where
  "sample_attr x = \<lparr>ra_arch = 0, ra_staticsched = False, ra_fmt = None, ra_sub_fmt = None, ra_priority = x mod 2, ra_date = x\<rparr>"

definition empty_rtl :: kaapi_readytasklist where
  "empty_rtl = kaapi_readytasklist_init \<lparr>lnext = (\<lambda>_. None), lprev = (\<lambda>_. None),
     prl = (\<lambda>_. \<lparr>ortl_head = Some 9, ortl_tail = None, ortl_size = 3\<rparr>), cnt_tasks = 5\<rparr>"

lemma empty_rtl_holds: "rtl_holds empty_rtl (replicate KAAPI_TASKLIST_NUM_PRIORITY [])"
  by (simp add: rtl_holds_def empty_rtl_def kaapi_readytasklist_init_def kaapi_onereadytasklist_init_def dll_def)

definition sample_lists :: "nat list list" where
  "sample_lists = [[], [5, 3], [], [], [], [], [], []]"

definition sample_rtl :: kaapi_readytasklist where
  "sample_rtl = foldl (\<lambda>rtl td. snd (the (kaapi_readylist_push sample_attr rtl td))) empty_rtl [3, 5]"

lemma sample_rtl_holds: "rtl_holds sample_rtl sample_lists"
proof -
  have p: "ra_priority (sample_attr 3) = 1" "ra_priority (sample_attr 5) = 1" by (simp_all add: sample_attr_def)
  have e: "replicate KAAPI_TASKLIST_NUM_PRIORITY ([] :: nat list) = [[], [], [], [], [], [], [], []]"
    by (simp add: KAAPI_TASKLIST_NUM_PRIORITY_def numeral_eq_Suc)
  let ?r = "\<lambda>td rtl. snd (the (kaapi_readylist_push sample_attr rtl td))"
  have 1: "rtl_holds (?r 3 empty_rtl) [[], [3], [], [], [], [], [], []]"
    using push_holds [OF empty_rtl_holds [unfolded e] _ _ refl refl, of 3 1] p
    by (simp add: kaapi_readylist_push_def Let_def KAAPI_TASKLIST_NUM_PRIORITY_def)
  have "rtl_holds (?r 5 (?r 3 empty_rtl)) [[], [5, 3], [], [], [], [], [], []]"
    using push_holds [OF 1 _ _ refl refl, of 5 1] p
    by (simp add: kaapi_readylist_push_def Let_def KAAPI_TASKLIST_NUM_PRIORITY_def)
  then show ?thesis by (simp add: sample_rtl_def sample_lists_def)
qed

theorem readylist_push_ends_witness:
  "\<exists>rtl'. kaapi_readylist_push sample_attr sample_rtl 7 = Some (1, rtl')
     \<and> rtl_holds rtl' [[], [7, 5, 3], [], [], [], [], [], []]"
proof -
  have "ra_priority (sample_attr 7) = 1" by (simp add: sample_attr_def)
  then show ?thesis
    using readylist_push_ends [OF sample_rtl_holds, of 7 sample_attr]
    by (simp add: sample_lists_def KAAPI_TASKLIST_NUM_PRIORITY_def Let_def)
qed

theorem readylist_pop_highest_witness:
  "\<exists>rtl'. kaapi_readylist_pop sample_attr False 0 sample_rtl = Some (Inr 5, rtl')"
proof -
  have runs: "pop_runs 0 (sample_attr y)" for y by (simp add: pop_runs_def kaapi_task_has_arch_def sample_attr_def)
  obtain res rtl' where r: "kaapi_readylist_pop sample_attr False 0 sample_rtl = Some (res, rtl')"
    "case res of Inl e \<Rightarrow> rtl' = sample_rtl \<and> (\<forall>y \<in> set (concat sample_lists). \<not> pop_runs 0 (sample_attr y))
     | Inr x \<Rightarrow> \<exists>i as bs. i < KAAPI_TASKLIST_NUM_PRIORITY \<and> sample_lists ! i = as @ x # bs
         \<and> pop_runs 0 (sample_attr x) \<and> (\<forall>y \<in> set as. \<not> pop_runs 0 (sample_attr y))
         \<and> (\<forall>j < KAAPI_TASKLIST_NUM_PRIORITY. i < j \<longrightarrow> (\<forall>y \<in> set (sample_lists ! j). \<not> pop_runs 0 (sample_attr y)))
         \<and> rtl_holds rtl' (sample_lists[i := as @ bs])"
    using readylist_pop_highest [OF sample_rtl_holds, of sample_attr 0] by (elim exE conjE) (rule that; assumption)
  show ?thesis
  proof (cases res)
    case (Inl e)
    then have "\<not> pop_runs 0 (sample_attr 5)" using r(2) by (simp add: sample_lists_def)
    then show ?thesis using runs by blast
  next
    case (Inr x)
    then obtain i as bs where i: "i < 8" "sample_lists ! i = as @ x # bs" "as = []"
      using r(2) runs by (auto simp: KAAPI_TASKLIST_NUM_PRIORITY_def)
    then have "x = 5" by (auto simp: sample_lists_def nth_Cons less_Suc_eq_0_disj split: nat.splits if_splits)
    then show ?thesis using r(1) Inr by simp
  qed
qed

theorem readylist_steal_maxctpath_witness:
  "\<exists>res rtl'. kaapi_readylist_steal (kaapi_steal_by_affinity_maxctpath sample_attr 0) False sample_rtl = Some (res, rtl')"
  using readylist_steal_maxctpath [OF sample_rtl_holds, of sample_attr 0 False] by blast

end
