(* ===== verification/Ready_Pools.thy ===== *)
theory Ready_Pools
  imports Ready_Tasklist
begin

text \<open>
  The queues of ready descriptors of a running frame and the routing of a descriptor that becomes ready:
  \<^verbatim>\<open>kaapi_readytasklist_pushready_td\<close> of \<^verbatim>\<open>kaapi_tasklist.h\<close> and \<^verbatim>\<open>affinity/kaapi_affinity_push.c\<close>.  Every task list has a
  queue, and every processor has two, \<^verbatim>\<open>rtl\<close> and \<^verbatim>\<open>rtl_remote\<close>.  All queues thread their lists through the same
  fields \<^verbatim>\<open>next\<close> and \<^verbatim>\<open>prev\<close> of the descriptors, so an operation on one is correct because a descriptor is in at
  most one of them.
\<close>

section \<open>The queues\<close>

datatype qname = QTasklist nat | QRtl nat | QRemote nat

text \<open>The links of the descriptors, and the lists and the counter of each queue.\<close>

record ready_pools =
  pl_next :: "nat \<Rightarrow> nat option"
  pl_prev :: "nat \<Rightarrow> nat option"
  pl_lists :: "qname \<Rightarrow> nat \<Rightarrow> kaapi_onereadytasklist"
  pl_cnt :: "qname \<Rightarrow> int"

definition queue_of :: "qname \<Rightarrow> ready_pools \<Rightarrow> kaapi_readytasklist" where
  "queue_of q p = \<lparr>lnext = pl_next p, lprev = pl_prev p, prl = pl_lists p q, cnt_tasks = pl_cnt p q\<rparr>"

definition store_queue :: "qname \<Rightarrow> kaapi_readytasklist \<Rightarrow> ready_pools \<Rightarrow> ready_pools" where
  "store_queue q rtl p =
     p\<lparr>pl_next := lnext rtl, pl_prev := lprev rtl, pl_lists := (pl_lists p)(q := prl rtl), pl_cnt := (pl_cnt p)(q := cnt_tasks rtl)\<rparr>"

definition on_queue :: "qname \<Rightarrow> (kaapi_readytasklist \<Rightarrow> ('a \<times> kaapi_readytasklist) option) \<Rightarrow> ready_pools \<Rightarrow> ('a \<times> ready_pools) option" where
  "on_queue q f p = (case f (queue_of q p) of None \<Rightarrow> None | Some (r, rtl) \<Rightarrow> Some (r, store_queue q rtl p))"

section \<open>The queue of a ready descriptor\<close>

definition KAAPI_PROC_TYPE_CUDA :: nat where "KAAPI_PROC_TYPE_CUDA = 2"

text \<open>The machine and the descriptors as the routing sees them: the type of a processor, the site and the task list of a
  descriptor, the entry points with handles, and \<^verbatim>\<open>kaapi_default_param.push_by_affinity\<close>.\<close>

record route_env =
  re_attr :: "nat \<Rightarrow> ready_attr"
  re_type :: "nat \<Rightarrow> nat"
  re_site :: "nat \<Rightarrow> nat"
  re_tasklist :: "nat \<Rightarrow> nat"
  re_bodywh :: "nat \<Rightarrow> nat \<Rightarrow> nat"
  re_affinity :: "nat \<Rightarrow> nat \<Rightarrow> nat"

definition kaapi_readytasklist_pushready_td :: "route_env \<Rightarrow> nat \<Rightarrow> qname \<Rightarrow> nat \<Rightarrow> ready_pools \<Rightarrow> (nat \<times> ready_pools) option" where
  "kaapi_readytasklist_pushready_td env curr_kproc rtl td p =
     (let push = (\<lambda>q. on_queue q (\<lambda>r. kaapi_readylist_push (re_attr env) r td) p);
          remote_push = (\<lambda>q. on_queue q (\<lambda>r. kaapi_readylist_remote_push (re_attr env) r td) p);
          proc_type = re_type env curr_kproc;
          local_push = (if ra_priority (re_attr env td) = 7 \<and> curr_kproc \<noteq> 0 then remote_push rtl else push rtl)
      in if ra_fmt (re_attr env td) = None then push rtl
         else if re_site env td \<noteq> 0 then
           (let kid = re_site env td - 1 in if kid \<noteq> curr_kproc then remote_push (QRemote kid) else push rtl)
         else if proc_type = KAAPI_PROC_TYPE_CUDA then
           (if re_bodywh env td proc_type = 0 \<or> \<not> kaapi_task_has_arch (re_attr env td) proc_type
            then push (QTasklist (re_tasklist env td))
            else (let kproc_remote = re_affinity env curr_kproc td
                  in if kproc_remote \<noteq> curr_kproc then remote_push (QRemote kproc_remote) else local_push))
         else local_push)"

text \<open>The four choices of a processor; those by locality and by writer ask the memory of the runtime.\<close>

definition kaapi_push_by_affinity_default :: "nat \<Rightarrow> nat \<Rightarrow> nat" where
  "kaapi_push_by_affinity_default kproc td = kproc"

definition kaapi_push_by_affinity_locality :: "(nat \<Rightarrow> nat \<Rightarrow> nat) \<Rightarrow> (nat \<Rightarrow> ready_attr) \<Rightarrow> nat \<Rightarrow> nat \<Rightarrow> nat" where
  "kaapi_push_by_affinity_locality find_reduce_transfer attr kproc td =
     (if ra_fmt (attr td) = None then kproc else find_reduce_transfer kproc td)"

definition kaapi_push_by_affinity_writer :: "(nat \<Rightarrow> nat \<Rightarrow> nat) \<Rightarrow> (nat \<Rightarrow> ready_attr) \<Rightarrow> nat \<Rightarrow> nat \<Rightarrow> nat" where
  "kaapi_push_by_affinity_writer find_valid_wr attr kproc td =
     (if ra_fmt (attr td) = None then kproc else find_valid_wr kproc td)"

text \<open>The random choice redraws while it gets processor 0; \<open>rand_r\<close> gives a number and the next seed, the first seed is
  \<^verbatim>\<open>rand()\<close> when it is 0.\<close>

partial_function (option) redo_select :: "(nat \<Rightarrow> nat \<times> nat) \<Rightarrow> nat \<Rightarrow> nat \<Rightarrow> (nat \<times> nat) option" where
  "redo_select rand_r nbproc seed =
     (case rand_r seed of (r, seed) \<Rightarrow>
        if r mod nbproc = 0 then redo_select rand_r nbproc seed else Some (r mod nbproc, seed))"

definition kaapi_push_by_affinity_rand ::
  "(nat \<Rightarrow> nat \<times> nat) \<Rightarrow> nat \<Rightarrow> nat \<Rightarrow> (nat \<Rightarrow> ready_attr) \<Rightarrow> nat \<Rightarrow> nat \<Rightarrow> nat \<Rightarrow> (nat \<times> nat) option" where
  "kaapi_push_by_affinity_rand rand_r rand nbproc attr kproc td seed =
     (if ra_fmt (attr td) = None then Some (kproc, seed)
      else redo_select rand_r nbproc (if seed = 0 then rand else seed))"

text \<open>Pop by a processor, and steal by a thief, from a named queue.\<close>

definition pool_pop :: "route_env \<Rightarrow> nat \<Rightarrow> qname \<Rightarrow> ready_pools \<Rightarrow> ((errno + nat) \<times> ready_pools) option" where
  "pool_pop env kid q =
     on_queue q (kaapi_readylist_pop (re_attr env) (re_type env kid = KAAPI_PROC_TYPE_CUDA) (re_type env kid))"

definition pool_steal :: "(nat \<Rightarrow> nat \<Rightarrow> steal_choice) \<Rightarrow> route_env \<Rightarrow> nat \<Rightarrow> nat \<Rightarrow> qname \<Rightarrow> ready_pools \<Rightarrow> ((errno + nat) \<times> ready_pools) option" where
  "pool_steal steal_by_affinity env kid thiefprocessor q =
     on_queue q (kaapi_readylist_steal (steal_by_affinity thiefprocessor (re_type env thiefprocessor)) (re_type env kid = KAAPI_PROC_TYPE_CUDA))"

definition pool_isempty :: "qname \<Rightarrow> ready_pools \<Rightarrow> bool" where
  "pool_isempty q p \<longleftrightarrow> kaapi_readytasklist_isempty (queue_of q p)"

definition pool_init :: "qname \<Rightarrow> ready_pools \<Rightarrow> ready_pools" where
  "pool_init q p = store_queue q (kaapi_readytasklist_init (queue_of q p)) p"

section \<open>Correctness\<close>

text \<open>The queues in use: those of the first \<open>n\<close> task lists and of all processors.\<close>

fun live :: "nat \<Rightarrow> qname \<Rightarrow> bool" where
  "live n (QTasklist k) \<longleftrightarrow> k < n"
| "live n (QRtl k) \<longleftrightarrow> True"
| "live n (QRemote k) \<longleftrightarrow> True"

text \<open>Queue \<open>q\<close> holds the set \<open>C q\<close>, empty when it is not in use, and no descriptor is in two queues.\<close>

definition pools_lists :: "nat \<Rightarrow> ready_pools \<Rightarrow> (qname \<Rightarrow> nat list list) \<Rightarrow> bool" where
  "pools_lists n p X \<longleftrightarrow> (\<forall>q. if live n q then rtl_holds (queue_of q p) (X q) else X q = [])
     \<and> (\<forall>q q'. q \<noteq> q' \<longrightarrow> set (concat (X q)) \<inter> set (concat (X q')) = {})"

definition pools_hold :: "nat \<Rightarrow> ready_pools \<Rightarrow> (qname \<Rightarrow> nat set) \<Rightarrow> bool" where
  "pools_hold n p C \<longleftrightarrow> (\<exists>X. pools_lists n p X \<and> (\<forall>q. C q = set (concat (X q))))"

lemma in_lists: "rtl_holds rtl xss \<Longrightarrow> i < KAAPI_TASKLIST_NUM_PRIORITY \<Longrightarrow> x \<in> set (xss ! i) \<Longrightarrow> x \<in> set (concat xss)"
proof -
  assume "rtl_holds rtl xss" "i < KAAPI_TASKLIST_NUM_PRIORITY" "x \<in> set (xss ! i)"
  then have "xss ! i \<in> set xss" "x \<in> set (xss ! i)" by (simp_all add: rtl_holds_def)
  then show ?thesis by auto
qed

lemma rtl_holds_frame:
  assumes "rtl_holds rtl xss" and "\<forall>y \<in> set (concat xss). lnext rtl' y = lnext rtl y \<and> lprev rtl' y = lprev rtl y"
    and "prl rtl' = prl rtl" and "cnt_tasks rtl' = cnt_tasks rtl"
  shows "rtl_holds rtl' xss"
proof -
  have "dll (lnext rtl') (lprev rtl') (prl rtl i) (xss ! i)" if i: "i < KAAPI_TASKLIST_NUM_PRIORITY" for i
  proof -
    have "\<forall>y \<in> set (xss ! i). lnext rtl' y = lnext rtl y \<and> lprev rtl' y = lprev rtl y"
      using in_lists [OF assms(1) i] assms(2) by blast
    then show ?thesis using dll_frame rtl_holds_list [OF assms(1) i] by blast
  qed
  then show ?thesis using assms by (simp add: rtl_holds_def)
qed

text \<open>An operation on one queue touches only the links of its own descriptors and of the one it inserts.\<close>

definition links_kept :: "nat set \<Rightarrow> kaapi_readytasklist \<Rightarrow> kaapi_readytasklist \<Rightarrow> bool" where
  "links_kept U rtl rtl' \<longleftrightarrow> (\<forall>y. y \<notin> U \<longrightarrow> lnext rtl' y = lnext rtl y \<and> lprev rtl' y = lprev rtl y)"

lemma dll_ends:
  assumes "dll n p q xs"
  shows "ortl_head q = Some h \<Longrightarrow> h \<in> set xs" "ortl_tail q = Some t \<Longrightarrow> t \<in> set xs"
  using assms link_path_start [of n "ortl_head q" xs] link_path_start [of p "ortl_tail q" "rev xs"]
  by (auto simp: dll_def split: list.splits)

lemma dll_neighbours:
  assumes "dll n p q xs" and "x \<in> set xs"
  shows "n x = Some y \<Longrightarrow> y \<in> set xs" "p x = Some y \<Longrightarrow> y \<in> set xs"
proof -
  obtain as bs where xs: "xs = as @ x # bs" using assms(2) by (meson split_list)
  have "link_path n (n x) bs None" "link_path p (p x) (rev as) None"
    using assms(1) by (auto simp: dll_def xs link_path_append)
  then have "n x = (case bs of [] \<Rightarrow> None | b # _ \<Rightarrow> Some b)" "p x = (case rev as of [] \<Rightarrow> None | a # _ \<Rightarrow> Some a)"
    using link_path_start by blast+
  then show "n x = Some y \<Longrightarrow> y \<in> set xs" "p x = Some y \<Longrightarrow> y \<in> set xs"
    by (auto simp: xs split: list.splits)
qed

lemma push_links:
  assumes h: "rtl_holds rtl xss" and i: "i < KAAPI_TASKLIST_NUM_PRIORITY"
  shows "links_kept (insert td (set (concat xss))) rtl (kaapi_onereadytasklist_push i td rtl)"
    and "links_kept (insert td (set (concat xss))) rtl (kaapi_onereadytasklist_remote_push i td rtl)"
proof -
  have d: "dll (lnext rtl) (lprev rtl) (prl rtl i) (xss ! i)" using rtl_holds_list [OF h i] by simp
  note e = dll_ends [OF d, THEN in_lists [OF h i]]
  show "links_kept (insert td (set (concat xss))) rtl (kaapi_onereadytasklist_push i td rtl)"
    using e(1) by (auto simp: links_kept_def kaapi_onereadytasklist_push_def Let_def link_sets simp del: set_concat split: option.split)
  show "links_kept (insert td (set (concat xss))) rtl (kaapi_onereadytasklist_remote_push i td rtl)"
    using e(2) by (auto simp: links_kept_def kaapi_onereadytasklist_remote_push_def Let_def link_sets simp del: set_concat split: option.split)
qed

lemma removed_links:
  assumes h: "rtl_holds rtl xss" and i: "i < KAAPI_TASKLIST_NUM_PRIORITY" and x: "x \<in> set (xss ! i)"
  shows "links_kept (set (concat xss)) rtl (removed rtl (i, x))"
proof -
  have d: "dll (lnext rtl) (lprev rtl) (prl rtl i) (xss ! i)" using rtl_holds_list [OF h i] by simp
  note e = dll_neighbours [OF d x, THEN in_lists [OF h i]] in_lists [OF h i x]
  show ?thesis
    using e by (auto simp: links_kept_def removed_def unlink_cur_def Let_def link_sets simp del: set_concat split: option.split)
qed

lemma queue_of_store: "queue_of q' (store_queue q rtl p) =
    (if q' = q then rtl else (queue_of q' p)\<lparr>lnext := lnext rtl, lprev := lprev rtl\<rparr>)"
  by (simp add: queue_of_def store_queue_def)

lemma store_queue_holds:
  assumes X: "pools_lists n p X" and q: "live n q" and h: "rtl_holds rtl xss" and l: "links_kept U (queue_of q p) rtl"
    and U: "U \<subseteq> insert td (set (concat (X q)))" and td: "td \<in> set (concat (X q)) \<or> (\<forall>q'. td \<notin> set (concat (X q')))"
    and xss: "set (concat xss) \<subseteq> insert td (set (concat (X q)))"
  shows "pools_lists n (store_queue q rtl p) (X(q := xss))"
proof -
  have dis: "set (concat (X q')) \<inter> insert td (set (concat (X q))) = {}" if "q' \<noteq> q" for q'
    using X td that unfolding pools_lists_def by blast
  have "rtl_holds (queue_of q' (store_queue q rtl p)) (X q')" if "q' \<noteq> q" "live n q'" for q'
  proof (rule rtl_holds_frame)
    show "rtl_holds (queue_of q' p) (X q')" using X that by (auto simp: pools_lists_def)
    have "y \<notin> U" if "y \<in> set (concat (X q'))" for y using dis [OF \<open>q' \<noteq> q\<close>] U that by blast
    then show "\<forall>y \<in> set (concat (X q')). lnext (queue_of q' (store_queue q rtl p)) y = lnext (queue_of q' p) y \<and>
        lprev (queue_of q' (store_queue q rtl p)) y = lprev (queue_of q' p) y"
      using l \<open>q' \<noteq> q\<close> by (simp add: queue_of_store links_kept_def) (simp add: queue_of_def)
  qed (use \<open>q' \<noteq> q\<close> in \<open>simp_all add: queue_of_store\<close>)
  moreover have "set (concat ((X(q := xss)) q1)) \<inter> set (concat ((X(q := xss)) q2)) = {}" if "q1 \<noteq> q2" for q1 q2
    using X dis xss that unfolding pools_lists_def by (cases "q1 = q"; cases "q2 = q") (simp_all del: set_concat, blast+)
  moreover have "X q' = []" if "\<not> live n q'" for q' using X that by (auto simp: pools_lists_def)
  ultimately show ?thesis using h q unfolding pools_lists_def by (auto simp: queue_of_store simp del: set_concat)
qed

lemma set_concat_update:
  assumes "distinct (concat xss)" and "i < length xss"
  shows "set (concat (xss[i := ys])) = set (concat xss) - set (xss ! i) \<union> set ys"
proof -
  obtain A B where ab: "concat xss = A @ xss ! i @ B" "\<And>ys. concat (xss[i := ys]) = A @ ys @ B"
    using concat_at [OF assms(2)] by metis
  then show ?thesis using assms(1) by (auto simp del: set_concat)
qed

lemma push_contents:
  assumes h: "rtl_holds rtl xss" and td: "td \<notin> set (concat xss)" and pr: "ra_priority (attr td) < KAAPI_TASKLIST_NUM_PRIORITY"
  shows "\<exists>rtl' ys. kaapi_readylist_push attr rtl td = Some (ra_priority (attr td), rtl') \<and> rtl_holds rtl' ys
      \<and> set (concat ys) = insert td (set (concat xss)) \<and> links_kept (insert td (set (concat xss))) rtl rtl'"
    and "\<exists>rtl' ys. kaapi_readylist_remote_push attr rtl td = Some (ra_priority (attr td), rtl') \<and> rtl_holds rtl' ys
      \<and> set (concat ys) = insert td (set (concat xss)) \<and> links_kept (insert td (set (concat xss))) rtl rtl'"
proof -
  let ?i = "ra_priority (attr td)"
  have len: "?i < length xss" "distinct (concat xss)" using h pr by (simp_all add: rtl_holds_def)
  have sub: "set (xss ! ?i) \<subseteq> set (concat xss)" using in_lists [OF h pr] by blast
  have s: "set (concat (xss[?i := td # xss ! ?i])) = insert td (set (concat xss))"
    "set (concat (xss[?i := xss ! ?i @ [td]])) = insert td (set (concat xss))"
    using set_concat_update [OF len(2,1)] sub by (auto simp del: set_concat)
  show "\<exists>rtl' ys. kaapi_readylist_push attr rtl td = Some (?i, rtl') \<and> rtl_holds rtl' ys
      \<and> set (concat ys) = insert td (set (concat xss)) \<and> links_kept (insert td (set (concat xss))) rtl rtl'"
    using push_holds [OF h td pr refl refl] s(1) push_links(1) [OF h pr, of td] pr
    by (auto simp: kaapi_readylist_push_def Let_def links_kept_def simp del: set_concat)
  show "\<exists>rtl' ys. kaapi_readylist_remote_push attr rtl td = Some (?i, rtl') \<and> rtl_holds rtl' ys
      \<and> set (concat ys) = insert td (set (concat xss)) \<and> links_kept (insert td (set (concat xss))) rtl rtl'"
    using remote_push_holds [OF h td pr refl refl] s(2) push_links(2) [OF h pr, of td] pr
    by (auto simp: kaapi_readylist_remote_push_def Let_def links_kept_def simp del: set_concat)
qed

lemma removed_contents:
  assumes h: "rtl_holds rtl xss" and i: "i < KAAPI_TASKLIST_NUM_PRIORITY" and x: "x \<in> set (xss ! i)"
  shows "\<exists>ys. rtl_holds (removed rtl (i, x)) ys \<and> set (concat ys) = set (concat xss) - {x} \<and> x \<in> set (concat xss)
      \<and> links_kept (set (concat xss)) rtl (removed rtl (i, x))"
proof -
  have len: "i < length xss" "distinct (concat xss)" using h i by (simp_all add: rtl_holds_def)
  have "distinct (xss ! i)" using rtl_holds_list [OF h i] by simp
  moreover have "set (xss ! i) \<subseteq> set (concat xss)" using in_lists [OF h i] by blast
  ultimately have "set (concat (xss[i := remove1 x (xss ! i)])) = set (concat xss) - {x}"
    using set_concat_update [OF len(2,1)] x by (auto simp del: set_concat)
  then show ?thesis using removed_holds [OF h i x] removed_links [OF h i x] in_lists [OF h i x] by blast
qed

text \<open>An operation on a queue that inserts \<open>td\<close> or removes what it returns.\<close>

lemma on_queue_insert:
  assumes p: "pools_hold m p C" and q: "live m q" and td: "\<forall>q. td \<notin> C q"
    and f: "\<And>rtl xss. rtl_holds rtl xss \<Longrightarrow> td \<notin> set (concat xss) \<Longrightarrow> \<exists>rtl' ys. f rtl = Some (n, rtl') \<and> rtl_holds rtl' ys
      \<and> set (concat ys) = insert td (set (concat xss)) \<and> links_kept (insert td (set (concat xss))) rtl rtl'"
  shows "\<exists>p'. on_queue q f p = Some (n, p') \<and> pools_hold m p' (C(q := insert td (C q)))"
proof -
  obtain X where X: "pools_lists m p X" "\<And>q. C q = set (concat (X q))" using p by (auto simp: pools_hold_def)
  obtain rtl' ys where r: "f (queue_of q p) = Some (n, rtl')" "rtl_holds rtl' ys" "set (concat ys) = insert td (set (concat (X q)))"
    "links_kept (insert td (set (concat (X q)))) (queue_of q p) rtl'"
    using f [of "queue_of q p" "X q"] X td q unfolding pools_lists_def by metis
  have "pools_lists m (store_queue q rtl' p) (X(q := ys))"
    by (rule store_queue_holds [OF X(1) q r(2,4)]) (use r(3) td X(2) in \<open>auto simp del: set_concat\<close>)
  then have "pools_hold m (store_queue q rtl' p) (C(q := insert td (C q)))"
    unfolding pools_hold_def using r(3) X(2) by (intro exI [of _ "X(q := ys)"]) (simp del: set_concat)
  then show ?thesis using r(1) by (simp add: on_queue_def)
qed

lemma on_queue_take:
  assumes p: "pools_hold m p C" and q: "live m q"
    and f: "\<And>rtl xss. rtl_holds rtl xss \<Longrightarrow> \<exists>res rtl'. f rtl = Some (res, rtl') \<and>
      (case res of Inl e \<Rightarrow> rtl' = rtl
       | Inr x \<Rightarrow> \<exists>ys. rtl_holds rtl' ys \<and> set (concat ys) = set (concat xss) - {x} \<and> x \<in> set (concat xss)
           \<and> links_kept (set (concat xss)) rtl rtl')"
  shows "\<exists>res p'. on_queue q f p = Some (res, p') \<and>
      (case res of Inl e \<Rightarrow> p' = p | Inr x \<Rightarrow> x \<in> C q \<and> pools_hold m p' (C(q := C q - {x})))"
proof -
  obtain X where X: "pools_lists m p X" "\<And>q. C q = set (concat (X q))" using p by (auto simp: pools_hold_def)
  have h: "rtl_holds (queue_of q p) (X q)" using X(1) q by (auto simp: pools_lists_def)
  obtain res rtl' where r: "f (queue_of q p) = Some (res, rtl')"
    "case res of Inl e \<Rightarrow> rtl' = queue_of q p
       | Inr x \<Rightarrow> \<exists>ys. rtl_holds rtl' ys \<and> set (concat ys) = set (concat (X q)) - {x} \<and> x \<in> set (concat (X q))
           \<and> links_kept (set (concat (X q))) (queue_of q p) rtl'"
    using f [OF h] by blast
  show ?thesis
  proof (cases res)
    case (Inl e)
    then have "store_queue q rtl' p = p" using r(2) by (simp add: store_queue_def queue_of_def)
    then show ?thesis using r(1) Inl by (simp add: on_queue_def)
  next
    case (Inr x)
    then obtain ys where ys: "rtl_holds rtl' ys" "set (concat ys) = set (concat (X q)) - {x}" "x \<in> set (concat (X q))"
      "links_kept (set (concat (X q))) (queue_of q p) rtl'" using r(2) by auto
    have "pools_lists m (store_queue q rtl' p) (X(q := ys))"
      by (rule store_queue_holds [OF X(1) q ys(1,4), of x]) (use ys(2,3) in \<open>auto simp del: set_concat\<close>)
    then have "pools_hold m (store_queue q rtl' p) (C(q := C q - {x}))"
      unfolding pools_hold_def using ys(2) X(2) by (intro exI [of _ "X(q := ys)"]) (simp del: set_concat)
    then show ?thesis using r(1) Inr ys(3) X(2) by (simp add: on_queue_def del: set_concat)
  qed
qed


section \<open>The contract of the queues\<close>

text \<open>What the execution of a frame needs of the queues: routing puts the descriptor into one queue in use, pop and steal take
  one out of the queue they are called on or change nothing, the counter tells whether a queue is empty, and the queue of
  a new task list is empty once it is initialised.\<close>

record 'p ready_ops =
  op_isempty :: "qname \<Rightarrow> 'p \<Rightarrow> bool"
  op_init :: "qname \<Rightarrow> 'p \<Rightarrow> 'p"
  op_pushready :: "nat \<Rightarrow> qname \<Rightarrow> nat \<Rightarrow> 'p \<Rightarrow> (nat \<times> 'p) option"
  op_pop :: "nat \<Rightarrow> qname \<Rightarrow> 'p \<Rightarrow> ((errno + nat) \<times> 'p) option"
  op_steal :: "nat \<Rightarrow> nat \<Rightarrow> qname \<Rightarrow> 'p \<Rightarrow> ((errno + nat) \<times> 'p) option"

definition taken :: "(nat \<Rightarrow> 'p \<Rightarrow> (qname \<Rightarrow> nat set) \<Rightarrow> bool) \<Rightarrow> nat \<Rightarrow> (qname \<Rightarrow> nat set) \<Rightarrow> qname \<Rightarrow> 'p \<Rightarrow> errno + nat \<Rightarrow> 'p \<Rightarrow> bool" where
  "taken holds n C q p res p' \<longleftrightarrow>
     (case res of Inl e \<Rightarrow> p' = p | Inr x \<Rightarrow> x \<in> C q \<and> holds n p' (C(q := C q - {x})))"

locale ready_pool =
  fixes ops :: "'p ready_ops"
    and holds :: "nat \<Rightarrow> 'p \<Rightarrow> (qname \<Rightarrow> nat set) \<Rightarrow> bool"
    and ok :: "nat \<Rightarrow> bool"
  assumes isempty_law: "holds n p C \<Longrightarrow> live n q \<Longrightarrow> op_isempty ops q p \<longleftrightarrow> C q = {}"
    and disjoint_law: "holds n p C \<Longrightarrow> q \<noteq> q' \<Longrightarrow> C q \<inter> C q' = {}"
    and dead_law: "holds n p C \<Longrightarrow> \<not> live n q \<Longrightarrow> C q = {}"
    and init_law: "holds n p C \<Longrightarrow> holds (Suc n) (op_init ops (QTasklist n) p) C"
    and push_law: "holds n p C \<Longrightarrow> 0 < n \<Longrightarrow> live n q \<Longrightarrow> ok td \<Longrightarrow> \<forall>q. td \<notin> C q \<Longrightarrow>
      \<exists>prio p' q'. op_pushready ops kid q td p = Some (prio, p') \<and> live n q' \<and> holds n p' (C(q' := insert td (C q')))"
    and pop_law: "holds n p C \<Longrightarrow> live n q \<Longrightarrow> \<exists>res p'. op_pop ops kid q p = Some (res, p') \<and> taken holds n C q p res p'"
    and steal_law: "holds n p C \<Longrightarrow> live n q \<Longrightarrow>
      \<exists>res p'. op_steal ops kid thief q p = Some (res, p') \<and> taken holds n C q p res p'"

text \<open>On processors that are no GPU a descriptor stays in the queue of the caller or goes to the remote queue of a
  processor.\<close>

locale cpu_ready_pool = ready_pool +
  assumes push_local: "holds n p C \<Longrightarrow> 0 < n \<Longrightarrow> live n q \<Longrightarrow> ok td \<Longrightarrow> \<forall>q. td \<notin> C q \<Longrightarrow>
      \<exists>prio p' q'. op_pushready ops kid q td p = Some (prio, p') \<and> (q' = q \<or> (\<exists>k. q' = QRemote k))
        \<and> holds n p' (C(q' := insert td (C q')))"

text \<open>The queues of the runtime meet it, with every policy of stealing that meets its contract.\<close>

definition pool_ops :: "(nat \<Rightarrow> nat \<Rightarrow> steal_choice) \<Rightarrow> route_env \<Rightarrow> ready_pools ready_ops" where
  "pool_ops steal_by_affinity env = \<lparr>op_isempty = pool_isempty, op_init = pool_init,
     op_pushready = kaapi_readytasklist_pushready_td env, op_pop = pool_pop env, op_steal = pool_steal steal_by_affinity env\<rparr>"

text \<open>The policies that \<^verbatim>\<open>kaapi_default_param.steal_by_affinity\<close> can be.\<close>

datatype steal_affinity =
  Steal_first
| Steal_maxctpath
| Steal_maxhit "nat \<Rightarrow> nat \<Rightarrow> nat"
| Steal_writer "nat \<Rightarrow> nat \<Rightarrow> bool"

definition steal_by_affinity :: "steal_affinity \<Rightarrow> (nat \<Rightarrow> ready_attr) \<Rightarrow> nat \<Rightarrow> nat \<Rightarrow> steal_choice" where
  "steal_by_affinity policy attr thief arch =
     (case policy of
        Steal_first \<Rightarrow> kaapi_steal_by_affinity_first attr arch
      | Steal_maxctpath \<Rightarrow> kaapi_steal_by_affinity_maxctpath attr arch
      | Steal_maxhit hit \<Rightarrow> kaapi_steal_by_affinity_maxhit (hit thief) attr arch
      | Steal_writer valid_writer \<Rightarrow> kaapi_steal_by_affinity_writer (valid_writer thief) attr arch)"

lemma steal_by_affinity_policy: "\<exists>choice. steal_policy (steal_by_affinity policy attr thief arch) choice"
  by (cases policy)
    (auto simp: steal_by_affinity_def intro: sfirst.steal_policy_axioms smaxct.steal_policy_axioms
      smaxhit.steal_policy_axioms swriter.steal_policy_axioms)

lemma pool_isempty_law: "pools_hold n p C \<Longrightarrow> live n q \<Longrightarrow> pool_isempty q p \<longleftrightarrow> C q = {}"
  by (auto simp: pools_hold_def pools_lists_def pool_isempty_def kaapi_readytasklist_isempty_def rtl_holds_def
      simp del: set_concat split: if_splits)

lemma pool_init_law:
  assumes "pools_hold n p C"
  shows "pools_hold (Suc n) (pool_init (QTasklist n) p) C"
proof -
  obtain X where X: "pools_lists n p X" "\<And>q. C q = set (concat (X q))" using assms by (auto simp: pools_hold_def)
  let ?q = "QTasklist n" and ?e = "replicate KAAPI_TASKLIST_NUM_PRIORITY ([] :: nat list)"
  let ?p = "pool_init ?q p"
  have old: "X ?q = []" using X(1) by (auto simp: pools_lists_def)
  have "rtl_holds (queue_of ?q ?p) ?e"
    by (simp add: pool_init_def queue_of_store rtl_holds_def kaapi_readytasklist_init_def kaapi_onereadytasklist_init_def dll_def)
  moreover have "queue_of q ?p = queue_of q p" if "q \<noteq> ?q" for q
    using that by (simp add: pool_init_def queue_of_store kaapi_readytasklist_init_def) (simp add: queue_of_def)
  moreover have "live (Suc n) q \<longleftrightarrow> live n q \<or> q = ?q" for q by (cases q) auto
  moreover have "set (concat ((X(?q := ?e)) q)) = set (concat (X q))" for q using old by auto
  ultimately have "pools_lists (Suc n) ?p (X(?q := ?e))"
    using X(1) unfolding pools_lists_def by (auto simp del: set_concat)
  then show ?thesis unfolding pools_hold_def using X(2) old by (intro exI [of _ "X(?q := ?e)"]) auto
qed

definition prio_ok :: "(nat \<Rightarrow> ready_attr) \<Rightarrow> nat \<Rightarrow> bool" where
  "prio_ok attr td \<longleftrightarrow> ra_priority (attr td) < KAAPI_TASKLIST_NUM_PRIORITY"

definition route :: "route_env \<Rightarrow> nat \<Rightarrow> qname \<Rightarrow> nat \<Rightarrow> qname" where
  "route env kid rtl td =
     (let proc_type = re_type env kid
      in if ra_fmt (re_attr env td) = None then rtl
         else if re_site env td \<noteq> 0 then (if re_site env td - 1 \<noteq> kid then QRemote (re_site env td - 1) else rtl)
         else if proc_type = KAAPI_PROC_TYPE_CUDA then
           (if re_bodywh env td proc_type = 0 \<or> \<not> kaapi_task_has_arch (re_attr env td) proc_type then QTasklist (re_tasklist env td)
            else if re_affinity env kid td \<noteq> kid then QRemote (re_affinity env kid td) else rtl)
         else rtl)"

lemma pushready_routes:
  assumes h: "pools_hold n p C" and l: "live n (route env kid rtl td)" and ok: "prio_ok (re_attr env) td" and td: "\<forall>q. td \<notin> C q"
  shows "\<exists>prio p'. kaapi_readytasklist_pushready_td env kid rtl td p = Some (prio, p')
    \<and> pools_hold n p' (C(route env kid rtl td := insert td (C (route env kid rtl td))))"
proof -
  let ?q = "route env kid rtl td"
  note ins = on_queue_insert [OF h l td]
  have a: "\<exists>p'. on_queue ?q (\<lambda>r. kaapi_readylist_push (re_attr env) r td) p = Some (ra_priority (re_attr env td), p')
      \<and> pools_hold n p' (C(?q := insert td (C ?q)))"
    by (rule ins) (use push_contents(1) ok in \<open>auto simp: prio_ok_def simp del: set_concat\<close>)
  have b: "\<exists>p'. on_queue ?q (\<lambda>r. kaapi_readylist_remote_push (re_attr env) r td) p = Some (ra_priority (re_attr env td), p')
      \<and> pools_hold n p' (C(?q := insert td (C ?q)))"
    by (rule ins) (use push_contents(2) ok in \<open>auto simp: prio_ok_def simp del: set_concat\<close>)
  show ?thesis
    using a b unfolding kaapi_readytasklist_pushready_td_def route_def Let_def by (auto split: if_splits)
qed

lemma pool_pop_law:
  assumes "pools_hold n p C" and "live n q"
  shows "\<exists>res p'. pool_pop env kid q p = Some (res, p') \<and> taken pools_hold n C q p res p'"
  unfolding pool_pop_def taken_def
proof (rule on_queue_take [OF assms])
  fix rtl xss assume h: "rtl_holds rtl xss"
  let ?cuda = "re_type env kid = KAAPI_PROC_TYPE_CUDA" and ?P = "\<lambda>x. pop_runs (re_type env kid) (re_attr env x)"
  note spec = readylist_pop_spec [OF h, of "re_attr env" ?cuda "re_type env kid"]
  show "\<exists>res rtl'. kaapi_readylist_pop (re_attr env) ?cuda (re_type env kid) rtl = Some (res, rtl') \<and>
      (case res of Inl e \<Rightarrow> rtl' = rtl
       | Inr x \<Rightarrow> \<exists>ys. rtl_holds rtl' ys \<and> set (concat ys) = set (concat xss) - {x} \<and> x \<in> set (concat xss)
           \<and> links_kept (set (concat xss)) rtl rtl')"
  proof (cases "concat xss = [] \<or> find_prio (find ?P) xss (prios ?cuda) = None")
    case True
    then show ?thesis using spec by auto
  next
    case False
    then obtain i x where ix: "find_prio (find ?P) xss (prios ?cuda) = Some (i, x)" by auto
    then have "i < KAAPI_TASKLIST_NUM_PRIORITY" "x \<in> set (xss ! i)"
      using find_prio_Some [of "find ?P" xss "prios ?cuda" i x] prios_all [of ?cuda] by (auto dest: find_in_set)
    then show ?thesis using spec False ix removed_contents [OF h, of i x] by (auto simp del: set_concat)
  qed
qed

lemma pool_steal_law:
  assumes "pools_hold n p C" and "live n q"
  shows "\<exists>res p'. pool_steal (steal_by_affinity policy attr) env kid thief q p = Some (res, p') \<and> taken pools_hold n C q p res p'"
  unfolding pool_steal_def taken_def
proof (rule on_queue_take [OF assms])
  fix rtl xss assume h: "rtl_holds rtl xss"
  let ?cuda = "re_type env kid = KAAPI_PROC_TYPE_CUDA" and ?sel = "steal_by_affinity policy attr thief (re_type env thief)"
  obtain choice where pol: "steal_policy ?sel choice" using steal_by_affinity_policy by blast
  note spec = steal_policy.steal_spec [OF pol h, of ?cuda]
  show "\<exists>res rtl'. kaapi_readylist_steal ?sel ?cuda rtl = Some (res, rtl') \<and>
      (case res of Inl e \<Rightarrow> rtl' = rtl
       | Inr x \<Rightarrow> \<exists>ys. rtl_holds rtl' ys \<and> set (concat ys) = set (concat xss) - {x} \<and> x \<in> set (concat xss)
           \<and> links_kept (set (concat xss)) rtl rtl')"
  proof (cases "find_prio choice xss (prios ?cuda)")
    case None
    then show ?thesis using spec by auto
  next
    case (Some ix)
    obtain i x where ix: "ix = (i, x)" by fastforce
    have "i < KAAPI_TASKLIST_NUM_PRIORITY" "x \<in> set (xss ! i)"
      using find_prio_Some [of choice xss "prios ?cuda" i x] Some ix prios_all [of ?cuda] steal_policy.choice_in [OF pol] by auto
    then show ?thesis using spec Some ix removed_contents [OF h, of i x] by (auto simp del: set_concat)
  qed
qed

lemma pools_disjoint: "pools_hold n p C \<Longrightarrow> q \<noteq> q' \<Longrightarrow> C q \<inter> C q' = {}"
  unfolding pools_hold_def pools_lists_def by metis

lemma pools_dead: "pools_hold n p C \<Longrightarrow> \<not> live n q \<Longrightarrow> C q = {}"
  unfolding pools_hold_def pools_lists_def by (metis concat.simps(1) empty_set)

text \<open>Descriptors belong to task list 0, that of their frame.\<close>

interpretation pools: ready_pool
    "pool_ops (steal_by_affinity policy (re_attr env)) (env\<lparr>re_tasklist := (\<lambda>_. 0)\<rparr>)" pools_hold "prio_ok (re_attr env)" for policy env
proof unfold_locales
  fix n p C q td kid
  assume a: "pools_hold n p C" "0 < n" "live n q" "prio_ok (re_attr env) td" "\<forall>q. td \<notin> C q"
  let ?e = "env\<lparr>re_tasklist := (\<lambda>_. 0)\<rparr>"
  have l: "live n (route ?e kid q td)" using a(2,3) by (simp add: route_def Let_def)
  have "prio_ok (re_attr ?e) td" using a(4) by simp
  then show "\<exists>prio p' q'. op_pushready (pool_ops (steal_by_affinity policy (re_attr env)) ?e) kid q td p = Some (prio, p')
      \<and> live n q' \<and> pools_hold n p' (C(q' := insert td (C q')))"
    using pushready_routes [OF a(1) l _ a(5)] l unfolding pool_ops_def by auto
qed (auto simp: pool_ops_def pool_isempty_law pool_init_law pool_pop_law pool_steal_law pools_dead
      dest: pools_disjoint)

definition cpu_env :: "route_env \<Rightarrow> route_env" where
  "cpu_env env = env\<lparr>re_type := (\<lambda>_. 1), re_tasklist := (\<lambda>_. 0)\<rparr>"

lemma cpu_env_pool: "ready_pool (pool_ops (steal_by_affinity policy (re_attr env)) (cpu_env env)) pools_hold (prio_ok (re_attr env))"
  using pools.ready_pool_axioms [of policy "env\<lparr>re_type := (\<lambda>_. 1)\<rparr>"] by (simp add: cpu_env_def)

interpretation cpu_pools: cpu_ready_pool
    "pool_ops (steal_by_affinity policy (re_attr env)) (cpu_env env)" pools_hold "prio_ok (re_attr env)" for policy env
proof (intro cpu_ready_pool.intro cpu_env_pool cpu_ready_pool_axioms.intro)
  fix n p C q td kid
  assume a: "pools_hold n p C" "0 < n" "live n q" "prio_ok (re_attr env) td" "\<forall>q. td \<notin> C q"
  let ?q = "route (cpu_env env) kid q td"
  have q: "?q = q \<or> (\<exists>k. ?q = QRemote k)" by (simp add: route_def cpu_env_def KAAPI_PROC_TYPE_CUDA_def Let_def)
  then have l: "live n ?q" using a(3) by auto
  have "prio_ok (re_attr (cpu_env env)) td" using a(4) by (simp add: cpu_env_def)
  then show "\<exists>prio p' q'. op_pushready (pool_ops (steal_by_affinity policy (re_attr env)) (cpu_env env)) kid q td p = Some (prio, p')
      \<and> (q' = q \<or> (\<exists>k. q' = QRemote k)) \<and> pools_hold n p' (C(q' := insert td (C q')))"
    using pushready_routes [OF a(1) l _ a(5)] q unfolding pool_ops_def by auto
qed


text \<open>On CPUs, where every descriptor may be executed and has no format or no site, a ready descriptor stays in the queue
  of its caller and a pop of a queue that is not empty succeeds.\<close>

locale local_ready_pool = cpu_ready_pool +
  assumes push_here: "holds n p C \<Longrightarrow> 0 < n \<Longrightarrow> live n q \<Longrightarrow> ok td \<Longrightarrow> \<forall>q. td \<notin> C q \<Longrightarrow>
      \<exists>prio p'. op_pushready ops kid q td p = Some (prio, p') \<and> holds n p' (C(q := insert td (C q)))"
    and pop_succeeds: "holds n p C \<Longrightarrow> live n q \<Longrightarrow> C q \<noteq> {} \<Longrightarrow> \<exists>x p'. op_pop ops kid q p = Some (Inr x, p')"

definition runs_here :: "route_env \<Rightarrow> nat \<Rightarrow> bool" where
  "runs_here env x \<longleftrightarrow> pop_runs 1 (re_attr env x) \<and> (ra_fmt (re_attr env x) = None \<or> re_site env x = 0)"

definition local_env :: "route_env \<Rightarrow> route_env" where
  "local_env env = (cpu_env env)\<lparr>re_site := (\<lambda>x. if runs_here env x then re_site env x else 0),
     re_attr := (\<lambda>x. if runs_here env x then re_attr env x
       else (re_attr env x)\<lparr>ra_arch := 0, ra_fmt := Some (\<lambda>_. 1), ra_sub_fmt := None\<rparr>)\<rparr>"

lemma local_env_runs: "\<forall>x. runs_here env x \<Longrightarrow> local_env env = cpu_env env"
  by (simp add: local_env_def cpu_env_def)

lemma local_runs: "pop_runs (re_type (local_env env) kid) (re_attr (local_env env) x)"
  "ra_fmt (re_attr (local_env env) x) = None \<or> re_site (local_env env) x = 0"
  by (auto simp: local_env_def cpu_env_def runs_here_def pop_runs_def kaapi_task_has_arch_def kaapi_get_task_body_by_arch_def)

lemma local_type: "re_type (local_env env) kid \<noteq> KAAPI_PROC_TYPE_CUDA"
  by (simp add: local_env_def cpu_env_def KAAPI_PROC_TYPE_CUDA_def)

lemma local_env_cpu: "cpu_env (local_env env) = local_env env"
  by (simp add: local_env_def cpu_env_def)

lemma pool_pop_succeeds:
  assumes h: "pools_hold n p C" and l: "live n q" and ne: "C q \<noteq> {}" and run: "\<And>x. pop_runs (re_type env kid) (re_attr env x)"
  shows "\<exists>x p'. pool_pop env kid q p = Some (Inr x, p')"
proof -
  obtain X where X: "pools_lists n p X" "C q = set (concat (X q))" using h unfolding pools_hold_def by blast
  have r: "rtl_holds (queue_of q p) (X q)" using X(1) l by (auto simp: pools_lists_def)
  let ?cuda = "re_type env kid = KAAPI_PROC_TYPE_CUDA" and ?P = "\<lambda>x. pop_runs (re_type env kid) (re_attr env x)"
  obtain ys where "ys \<in> set (X q)" "ys \<noteq> []" using ne X(2) by auto
  then obtain i where i: "i < KAAPI_TASKLIST_NUM_PRIORITY" "X q ! i \<noteq> []" using r by (auto simp: rtl_holds_def in_set_conv_nth)
  then have "find ?P (X q ! i) \<noteq> None" using run by (cases "X q ! i") auto
  then have "find_prio (find ?P) (X q) (prios ?cuda) \<noteq> None" using prios_all [of ?cuda] i(1) by (auto simp: find_prio_None)
  then obtain j x where "find_prio (find ?P) (X q) (prios ?cuda) = Some (j, x)" by auto
  moreover have "concat (X q) \<noteq> []" using ne X(2) by auto
  ultimately show ?thesis
    using readylist_pop_spec [OF r, of "re_attr env" ?cuda "re_type env kid"] by (simp add: pool_pop_def on_queue_def)
qed

interpretation local_pools: local_ready_pool
    "pool_ops (steal_by_affinity policy (re_attr (local_env env))) (local_env env)" pools_hold "prio_ok (re_attr (local_env env))" for policy env
proof (intro local_ready_pool.intro local_ready_pool_axioms.intro)
  show "cpu_ready_pool (pool_ops (steal_by_affinity policy (re_attr (local_env env))) (local_env env)) pools_hold
      (prio_ok (re_attr (local_env env)))"
    using cpu_pools.cpu_ready_pool_axioms [of policy "local_env env"] by (simp add: local_env_cpu)
next
  fix n p C q td kid
  assume a: "pools_hold n p C" "0 < n" "live n q" "prio_ok (re_attr (local_env env)) td" "\<forall>q. td \<notin> C q"
  have r: "route (local_env env) kid q td = q" using local_runs(2) [of env td] local_type [of env kid] by (auto simp: route_def Let_def)
  show "\<exists>prio p'. op_pushready (pool_ops (steal_by_affinity policy (re_attr (local_env env))) (local_env env)) kid q td p = Some (prio, p')
      \<and> pools_hold n p' (C(q := insert td (C q)))"
    using pushready_routes [OF a(1) _ a(4,5), of kid q] a(3) unfolding r pool_ops_def by auto
next
  fix n p C q kid
  assume "pools_hold n p C" "live n q" "C q \<noteq> {}"
  then show "\<exists>x p'. op_pop (pool_ops (steal_by_affinity policy (re_attr (local_env env))) (local_env env)) kid q p = Some (Inr x, p')"
    using pool_pop_succeeds [of n p C q "local_env env" kid] local_runs(1) by (simp add: pool_ops_def)
qed

end
