(* ===== verification/Hashmap.thy ===== *)
theory Hashmap
  imports Kaapi_Prelude
begin

text \<open>
  The hash tables of \<^verbatim>\<open>src/kaapi_hashmap.h\<close> and \<^verbatim>\<open>src/misc/kaapi_hashmap*.c\<close>, keyed by addresses: the
  small one (64 buckets behind a bit mask of the buckets in use) of the dependency
  computation at run time, and the big one (65536 buckets) that builds ready lists.  Entries are
  chained through pointers and taken from blocs of 2048 entries which are freed all at once.  A
  pointer to an entry is the number of its bloc with an index, and the heap maps them to
  entries; \<^verbatim>\<open>malloc\<close> returns a bloc that was not in use, with whatever content.
\<close>

section \<open>Hash functions\<close>

definition fold_bytes :: "uint64 \<Rightarrow> uint64" where
  "fold_bytes v = (let v = v XOR drop_bit 32 v; v = v XOR drop_bit 16 v in v XOR drop_bit 8 v)"

definition kaapi_hash_ulong7 :: "uint64 \<Rightarrow> uint32" where
  "kaapi_hash_ulong7 v =
     (let v = fold_bytes v;
          v = (if v AND 0x80 \<noteq> 0 then v XOR 0x09 else v)
      in ucast (v AND 0x7F))"

definition kaapi_hash_ulong6 :: "uint64 \<Rightarrow> uint32" where
  "kaapi_hash_ulong6 v =
     (let v = fold_bytes v;
          v = (if v AND 0x40 \<noteq> 0 then v XOR 0x03 else v);
          v = (if v AND 0x80 \<noteq> 0 then v XOR 0x06 else v)
      in ucast (v AND 0x3F))"

definition kaapi_hash_ulong5 :: "uint64 \<Rightarrow> uint32" where
  "kaapi_hash_ulong5 v =
     (let v = fold_bytes v;
          v = (if v AND 0x20 \<noteq> 0 then v XOR 0x05 else v);
          v = (if v AND 0x40 \<noteq> 0 then v XOR 0x0A else v);
          v = (if v AND 0x80 \<noteq> 0 then v XOR 0x14 else v)
      in ucast (v AND 0x1F))"

definition kaapi_hash_ulong :: "uint64 \<Rightarrow> uint32" where
  "kaapi_hash_ulong v = ucast (fold_bytes v AND 0xFFFF)"

text \<open>A C string is a list of signed bytes; \<^verbatim>\<open>h += *s\<close> adds the sign-extended byte.\<close>

definition hash_step :: "uint32 \<Rightarrow> 8 word \<Rightarrow> uint32" where
  "hash_step h c =
     (let h = h + scast c; h = h + push_bit 10 h in h XOR drop_bit 6 h)"

definition kaapi_hash_value_len :: "8 word list \<Rightarrow> nat \<Rightarrow> uint32" where
  "kaapi_hash_value_len s len =
     (let h = foldl hash_step 0 (take len s);
          h = h + push_bit 3 h;
          h = h XOR drop_bit 11 h
      in h + push_bit 15 h)"

definition c_strlen :: "8 word list \<Rightarrow> nat" where
  "c_strlen s = length (takeWhile (\<lambda>c. c \<noteq> 0) s)"

definition kaapi_hash_value :: "8 word list \<Rightarrow> uint32" where
  "kaapi_hash_value s = (if hd s = 0 then 0 else kaapi_hash_value_len s (c_strlen s))"

section \<open>Tables\<close>

type_synonym eptr = "nat \<times> nat"

text \<open>The union of an entry as three words: the first two are \<^verbatim>\<open>u.value\<close> (and the pointer members are the
  first), the third is the tail of \<^verbatim>\<open>u.data\<close>.\<close>

record kaapi_hashentries =
  u_0 :: uint64
  u_1 :: uint64
  u_2 :: uint64
  he_key :: uint64
  he_next :: "eptr option"

record kaapi_hashentries_bloc =
  bloc_data :: "nat \<Rightarrow> kaapi_hashentries"
  bloc_pos :: nat
  bloc_next :: "nat option"

record hash_heap =
  blocs :: "nat \<Rightarrow> kaapi_hashentries_bloc"
  fresh_bloc :: nat

record kaapi_big_hashmap =
  entries :: "nat \<Rightarrow> eptr option"
  currentbloc :: "nat option"
  allallocatedbloc :: "nat option"

record kaapi_hashmap = kaapi_big_hashmap +
  entry_map :: uint64

definition KAAPI_BLOCENTRIES_SIZE :: nat where "KAAPI_BLOCENTRIES_SIZE = 2048"
definition KAAPI_HASHMAP_SIZE :: nat where "KAAPI_HASHMAP_SIZE = 64"
definition KAAPI_HASHMAP_BIG_SIZE :: nat where "KAAPI_HASHMAP_BIG_SIZE = 65536"

definition hentry :: "hash_heap \<Rightarrow> eptr \<Rightarrow> kaapi_hashentries" where
  "hentry h p = bloc_data (blocs h (fst p)) (snd p)"

definition upd_bloc :: "nat \<Rightarrow> (kaapi_hashentries_bloc \<Rightarrow> kaapi_hashentries_bloc) \<Rightarrow> hash_heap \<Rightarrow> hash_heap" where
  "upd_bloc b f h = h\<lparr>blocs := (blocs h)(b := f (blocs h b))\<rparr>"

definition upd_entry :: "eptr \<Rightarrow> (kaapi_hashentries \<Rightarrow> kaapi_hashentries) \<Rightarrow> hash_heap \<Rightarrow> hash_heap" where
  "upd_entry p f h =
     upd_bloc (fst p) (\<lambda>bl. bl\<lparr>bloc_data := (bloc_data bl)(snd p := f (bloc_data bl (snd p)))\<rparr>) h"

subsection \<open>Buckets\<close>

definition key_to_mask :: "nat \<Rightarrow> uint64" where
  "key_to_mask k = push_bit k 1"

definition get_hashmap_entry :: "kaapi_hashmap \<Rightarrow> nat \<Rightarrow> eptr option" where
  "get_hashmap_entry khm key = (if (entry_map khm AND key_to_mask key) \<noteq> 0 then entries khm key else None)"

definition set_hashmap_entry :: "kaapi_hashmap \<Rightarrow> nat \<Rightarrow> eptr option \<Rightarrow> kaapi_hashmap" where
  "set_hashmap_entry khm key e =
     khm\<lparr>entries := (entries khm)(key := e), entry_map := entry_map khm OR key_to_mask key\<rparr>"

subsection \<open>Initialisation and release\<close>

definition kaapi_hashmap_init :: "hash_heap \<Rightarrow> kaapi_hashmap \<Rightarrow> nat option \<Rightarrow> hash_heap \<times> kaapi_hashmap" where
  "kaapi_hashmap_init h khm initbloc =
     (case initbloc of None \<Rightarrow> h | Some b \<Rightarrow> upd_bloc b (\<lambda>bl. bl\<lparr>bloc_pos := 0\<rparr>) h,
      khm\<lparr>entry_map := 0, allallocatedbloc := None, currentbloc := initbloc\<rparr>)"

definition kaapi_hashmap_clear :: "hash_heap \<Rightarrow> kaapi_hashmap \<Rightarrow> hash_heap \<times> kaapi_hashmap" where
  "kaapi_hashmap_clear h khm =
     (case currentbloc khm of None \<Rightarrow> h | Some b \<Rightarrow> upd_bloc b (\<lambda>bl. bl\<lparr>bloc_pos := 0\<rparr>) h,
      khm\<lparr>entry_map := 0\<rparr>)"

definition kaapi_big_hashmap_init ::
  "hash_heap \<Rightarrow> kaapi_big_hashmap \<Rightarrow> nat option \<Rightarrow> hash_heap \<times> kaapi_big_hashmap" where
  "kaapi_big_hashmap_init h khm initbloc =
     (case initbloc of None \<Rightarrow> h | Some b \<Rightarrow> upd_bloc b (\<lambda>bl. bl\<lparr>bloc_pos := 0\<rparr>) h,
      khm\<lparr>entries := (\<lambda>_. None), allallocatedbloc := None, currentbloc := initbloc\<rparr>)"

text \<open>The loop of \<^verbatim>\<open>destroy\<close> over the list of allocated blocs: the blocs it frees, in order, or \<open>None\<close> when
  it does not end.\<close>

partial_function (option) free_blocs :: "hash_heap \<Rightarrow> nat option \<Rightarrow> nat list option" where
  "free_blocs h a =
     (case a of None \<Rightarrow> Some []
      | Some cb \<Rightarrow> Option.bind (free_blocs h (bloc_next (blocs h cb))) (\<lambda>fs. Some (cb # fs)))"

definition kaapi_hashmap_destroy :: "hash_heap \<Rightarrow> kaapi_hashmap \<Rightarrow> (nat list \<times> kaapi_hashmap) option" where
  "kaapi_hashmap_destroy h khm =
     map_option (\<lambda>fs. (fs, khm\<lparr>allallocatedbloc := None, currentbloc := None\<rparr>))
       (free_blocs h (allallocatedbloc khm))"

definition kaapi_big_hashmap_destroy ::
  "hash_heap \<Rightarrow> kaapi_big_hashmap \<Rightarrow> (nat list \<times> kaapi_big_hashmap) option" where
  "kaapi_big_hashmap_destroy h khm =
     map_option (\<lambda>fs. (fs, khm\<lparr>allallocatedbloc := None, currentbloc := None\<rparr>))
       (free_blocs h (allallocatedbloc khm))"

subsection \<open>Search and insertion\<close>

text \<open>The search loop along a chain: \<open>None\<close> when it does not end, \<open>Some None\<close> when it reaches the null
  pointer.\<close>

partial_function (option) chain_find :: "hash_heap \<Rightarrow> uint64 \<Rightarrow> eptr option \<Rightarrow> eptr option option" where
  "chain_find h ptr e =
     (case e of None \<Rightarrow> Some None
      | Some p \<Rightarrow> if he_key (hentry h p) = ptr then Some (Some p)
                  else chain_find h ptr (he_next (hentry h p)))"

text \<open>The allocation of an entry, the same text in the four functions: a new bloc when there is no current
  one, then its next free slot, whose key is set and whose union is cleared by \<open>memset_u\<close>.\<close>

definition new_bloc ::
  "hash_heap \<Rightarrow> 'a kaapi_big_hashmap_scheme \<Rightarrow> hash_heap \<times> 'a kaapi_big_hashmap_scheme" where
  "new_bloc h khm =
     (let b = fresh_bloc h
      in (upd_bloc b (\<lambda>bl. bl\<lparr>bloc_next := allallocatedbloc khm, bloc_pos := 0\<rparr>) (h\<lparr>fresh_bloc := Suc b\<rparr>),
          khm\<lparr>currentbloc := Some b, allallocatedbloc := Some b\<rparr>))"

definition take_slot ::
  "(kaapi_hashentries \<Rightarrow> kaapi_hashentries) \<Rightarrow> uint64 \<Rightarrow> nat \<Rightarrow> hash_heap \<Rightarrow> 'a kaapi_big_hashmap_scheme \<Rightarrow>
   eptr \<times> hash_heap \<times> 'a kaapi_big_hashmap_scheme" where
  "take_slot memset_u ptr b h khm =
     (let p = (b, bloc_pos (blocs h b));
          h = upd_entry p (\<lambda>e. memset_u (e\<lparr>he_key := ptr\<rparr>)) h;
          h = upd_bloc b (\<lambda>bl. bl\<lparr>bloc_pos := bloc_pos bl + 1\<rparr>) h;
          khm = (if bloc_pos (blocs h b) = KAAPI_BLOCENTRIES_SIZE then khm\<lparr>currentbloc := None\<rparr> else khm)
      in (p, h, khm))"

definition alloc_entry ::
  "(kaapi_hashentries \<Rightarrow> kaapi_hashentries) \<Rightarrow> uint64 \<Rightarrow> hash_heap \<Rightarrow> 'a kaapi_big_hashmap_scheme \<Rightarrow>
   eptr \<times> hash_heap \<times> 'a kaapi_big_hashmap_scheme" where
  "alloc_entry memset_u ptr h khm =
     (case currentbloc khm of
        None \<Rightarrow> (case new_bloc h khm of (h, khm) \<Rightarrow> take_slot memset_u ptr (the (currentbloc khm)) h khm)
      | Some b \<Rightarrow> take_slot memset_u ptr b h khm)"

definition memset_value :: "kaapi_hashentries \<Rightarrow> kaapi_hashentries" where
  "memset_value e = e\<lparr>u_0 := 0, u_1 := 0\<rparr>"

definition memset_all :: "kaapi_hashentries \<Rightarrow> kaapi_hashentries" where
  "memset_all e = e\<lparr>u_0 := 0, u_1 := 0, u_2 := 0\<rparr>"

definition hmap_key :: "uint64 \<Rightarrow> nat" where
  "hmap_key ptr = unat (kaapi_hash_ulong7 ptr) mod KAAPI_HASHMAP_SIZE"

definition big_key :: "uint64 \<Rightarrow> nat" where
  "big_key ptr = unat (kaapi_hash_ulong ptr) mod KAAPI_HASHMAP_BIG_SIZE"

definition kaapi_hashmap_find :: "hash_heap \<Rightarrow> kaapi_hashmap \<Rightarrow> uint64 \<Rightarrow> eptr option option" where
  "kaapi_hashmap_find h khm ptr = chain_find h ptr (get_hashmap_entry khm (hmap_key ptr))"

definition kaapi_hashmap_insert ::
  "hash_heap \<Rightarrow> kaapi_hashmap \<Rightarrow> uint64 \<Rightarrow> eptr \<times> hash_heap \<times> kaapi_hashmap" where
  "kaapi_hashmap_insert h khm ptr =
     (let hkey = hmap_key ptr;
          list_hash = get_hashmap_entry khm hkey
      in case alloc_entry memset_all ptr h khm of
           (p, h, khm) \<Rightarrow> (p, upd_entry p (\<lambda>e. e\<lparr>he_next := list_hash\<rparr>) h, set_hashmap_entry khm hkey (Some p)))"

definition kaapi_hashmap_findinsert ::
  "hash_heap \<Rightarrow> kaapi_hashmap \<Rightarrow> uint64 \<Rightarrow> (eptr \<times> hash_heap \<times> kaapi_hashmap) option" where
  "kaapi_hashmap_findinsert h khm ptr =
     (let hkey = hmap_key ptr;
          list_hash = get_hashmap_entry khm hkey
      in case chain_find h ptr list_hash of
           None \<Rightarrow> None
         | Some (Some p) \<Rightarrow> Some (p, h, khm)
         | Some None \<Rightarrow>
             (case alloc_entry memset_value ptr h khm of
                (p, h, khm) \<Rightarrow> Some (p, upd_entry p (\<lambda>e. e\<lparr>he_next := list_hash\<rparr>) h,
                                     set_hashmap_entry khm hkey (Some p))))"

definition kaapi_big_hashmap_find :: "hash_heap \<Rightarrow> kaapi_big_hashmap \<Rightarrow> uint64 \<Rightarrow> eptr option option" where
  "kaapi_big_hashmap_find h khm ptr = chain_find h ptr (entries khm (big_key ptr))"

definition kaapi_big_hashmap_insert ::
  "hash_heap \<Rightarrow> kaapi_big_hashmap \<Rightarrow> uint64 \<Rightarrow> eptr \<times> hash_heap \<times> kaapi_big_hashmap" where
  "kaapi_big_hashmap_insert h khm ptr =
     (let hkey = big_key ptr;
          list_hash = entries khm hkey
      in case alloc_entry memset_all ptr h khm of
           (p, h, khm) \<Rightarrow> (p, upd_entry p (\<lambda>e. e\<lparr>he_next := list_hash\<rparr>) h,
                           khm\<lparr>entries := (entries khm)(hkey := Some p)\<rparr>))"

definition kaapi_big_hashmap_findinsert ::
  "hash_heap \<Rightarrow> kaapi_big_hashmap \<Rightarrow> uint64 \<Rightarrow> (eptr \<times> hash_heap \<times> kaapi_big_hashmap) option" where
  "kaapi_big_hashmap_findinsert h khm ptr =
     (let hkey = big_key ptr;
          list_hash = entries khm hkey
      in case chain_find h ptr list_hash of
           None \<Rightarrow> None
         | Some (Some p) \<Rightarrow> Some (p, h, khm)
         | Some None \<Rightarrow>
             (case alloc_entry memset_value ptr h khm of
                (p, h, khm) \<Rightarrow> Some (p, upd_entry p (\<lambda>e. e\<lparr>he_next := list_hash\<rparr>) h,
                                     khm\<lparr>entries := (entries khm)(hkey := Some p)\<rparr>)))"

section \<open>Chains\<close>

fun chain :: "hash_heap \<Rightarrow> eptr option \<Rightarrow> eptr list \<Rightarrow> bool" where
  "chain h e [] \<longleftrightarrow> e = None"
| "chain h e (p # ps) \<longleftrightarrow> e = Some p \<and> chain h (he_next (hentry h p)) ps"

text \<open>A search along a finite chain ends, with the first entry that has the key.\<close>

lemma chain_find_find:
  "chain h e ps \<Longrightarrow> chain_find h k e = Some (find (\<lambda>p. he_key (hentry h p) = k) ps)"
proof (induction ps arbitrary: e)
  case (Cons p ps)
  then show ?case by (simp add: chain_find.simps [of h k "Some p"])
qed (simp add: chain_find.simps)

lemma chain_frame:
  "chain h e ps \<Longrightarrow> (\<And>q. q \<in> set ps \<Longrightarrow> hentry h' q = hentry h q) \<Longrightarrow> chain h' e ps"
  by (induction ps arbitrary: e) auto

lemma chain_unique: "chain h e ps \<Longrightarrow> chain h e qs \<Longrightarrow> ps = qs"
proof (induction ps arbitrary: e qs)
  case Nil
  then show ?case by (cases qs) auto
next
  case (Cons p ps)
  then show ?case by (cases qs) auto
qed

definition allocated :: "hash_heap \<Rightarrow> eptr \<Rightarrow> bool" where
  "allocated h p \<longleftrightarrow> fst p < fresh_bloc h \<and> snd p < bloc_pos (blocs h (fst p))"

definition cur_ok :: "hash_heap \<Rightarrow> 'a kaapi_big_hashmap_scheme \<Rightarrow> bool" where
  "cur_ok h t \<longleftrightarrow>
     (\<forall>b. currentbloc t = Some b \<longrightarrow> b < fresh_bloc h \<and> bloc_pos (blocs h b) < KAAPI_BLOCENTRIES_SIZE)"

text \<open>Two states of a table that differ in their bloc pointers only.\<close>

definition same_buckets :: "'a kaapi_big_hashmap_scheme \<Rightarrow> 'a kaapi_big_hashmap_scheme \<Rightarrow> bool" where
  "same_buckets t' t \<longleftrightarrow> entries t' = entries t \<and> kaapi_big_hashmap.more t' = kaapi_big_hashmap.more t"

lemmas heap_defs = hentry_def upd_entry_def upd_bloc_def allocated_def cur_ok_def

lemma take_slot_spec:
  assumes "take_slot m k b h t = (p, h', t')" "b < fresh_bloc h"
    "bloc_pos (blocs h b) < KAAPI_BLOCENTRIES_SIZE" "currentbloc t = Some b"
  shows "\<not> allocated h p" "allocated h' p" "hentry h' p = m ((hentry h p)\<lparr>he_key := k\<rparr>)" "cur_ok h' t'"
    and "allocated h q \<Longrightarrow> allocated h' q \<and> hentry h' q = hentry h q"
    and "same_buckets t' t"
  using assms by (auto simp: take_slot_def Let_def heap_defs same_buckets_def split: if_splits)

lemma new_bloc_spec:
  assumes "new_bloc h t = (h', t')"
  shows "currentbloc t' = Some (fresh_bloc h)" "fresh_bloc h < fresh_bloc h'"
    "bloc_pos (blocs h' (fresh_bloc h)) < KAAPI_BLOCENTRIES_SIZE"
    "same_buckets t' t"
    and "allocated h q \<Longrightarrow> allocated h' q" "hentry h' q = hentry h q"
    and "allocated h' q \<Longrightarrow> allocated h q"
  using assms by (auto simp: new_bloc_def Let_def heap_defs same_buckets_def KAAPI_BLOCENTRIES_SIZE_def split: if_splits)

text \<open>An allocation gives a slot that was free, with its key set and its union cleared, and leaves the
  entries in use alone.\<close>

lemma alloc_entry_spec:
  assumes "alloc_entry m k h t = (p, h', t')" "cur_ok h t"
  shows "\<not> allocated h p \<and> allocated h' p \<and> hentry h' p = m ((hentry h p)\<lparr>he_key := k\<rparr>) \<and> cur_ok h' t'
    \<and> (\<forall>q. allocated h q \<longrightarrow> allocated h' q \<and> hentry h' q = hentry h q)
    \<and> same_buckets t' t"
proof (cases "currentbloc t")
  case (Some b)
  then have a: "take_slot m k b h t = (p, h', t')" "b < fresh_bloc h"
    "bloc_pos (blocs h b) < KAAPI_BLOCENTRIES_SIZE"
    using assms by (simp_all add: alloc_entry_def cur_ok_def)
  then show ?thesis using take_slot_spec [OF a Some] by blast
next
  case None
  obtain h1 t1 where n: "new_bloc h t = (h1, t1)" by fastforce
  note s = new_bloc_spec [OF n]
  have a: "take_slot m k (fresh_bloc h) h1 t1 = (p, h', t')"
    using assms(1) None n s(1) by (simp add: alloc_entry_def)
  have "same_buckets t' t"
    using take_slot_spec(6) [OF a s(2,3,1)] s(4) by (simp add: same_buckets_def)
  then show ?thesis using take_slot_spec(1-5) [OF a s(2,3,1)] s(5-7) by metis
qed

text \<open>The blocs a table has allocated since bloc \<open>n\<close> was the next fresh one, newest first.\<close>

fun bloc_chain :: "hash_heap \<Rightarrow> nat option \<Rightarrow> nat list \<Rightarrow> bool" where
  "bloc_chain h a [] \<longleftrightarrow> a = None"
| "bloc_chain h a (b # bs) \<longleftrightarrow> a = Some b \<and> bloc_chain h (bloc_next (blocs h b)) bs"

lemma free_blocs_chain: "bloc_chain h a bs \<Longrightarrow> free_blocs h a = Some bs"
  by (induction bs arbitrary: a) (auto simp: free_blocs.simps)

lemma bloc_chain_frame:
  "\<forall>b \<in> set bs. bloc_next (blocs h' b) = bloc_next (blocs h b) \<Longrightarrow> bloc_chain h' a bs = bloc_chain h a bs"
  by (induction bs arbitrary: a) auto

definition owns_blocs_from :: "nat \<Rightarrow> hash_heap \<Rightarrow> 'a kaapi_big_hashmap_scheme \<Rightarrow> bool" where
  "owns_blocs_from n h t \<longleftrightarrow> n \<le> fresh_bloc h \<and> bloc_chain h (allallocatedbloc t) (rev [n..<fresh_bloc h])"

lemma owns_blocs_upd_entry: "owns_blocs_from n (upd_entry p f h) t = owns_blocs_from n h t"
proof -
  have "bloc_next (blocs (upd_entry p f h) b) = bloc_next (blocs h b)" for b
    by (simp add: upd_entry_def upd_bloc_def)
  then show ?thesis
    using bloc_chain_frame [of _ "upd_entry p f h" h] by (simp add: owns_blocs_from_def upd_entry_def upd_bloc_def)
qed

lemma take_slot_blocs:
  assumes "take_slot m k b h t = (p, h', t')"
  shows "owns_blocs_from n h' t' = owns_blocs_from n h t"
proof -
  have "bloc_next (blocs h' c) = bloc_next (blocs h c)" for c
    using assms by (auto simp: take_slot_def Let_def upd_entry_def upd_bloc_def)
  moreover have "fresh_bloc h' = fresh_bloc h" "allallocatedbloc t' = allallocatedbloc t"
    using assms by (auto simp: take_slot_def Let_def upd_entry_def upd_bloc_def)
  ultimately show ?thesis using bloc_chain_frame [of _ h' h] by (simp add: owns_blocs_from_def)
qed

lemma new_bloc_blocs:
  assumes n: "new_bloc h t = (h', t')" and o: "owns_blocs_from n h t"
  shows "owns_blocs_from n h' t'"
proof -
  let ?b = "fresh_bloc h"
  have eq: "h' = upd_bloc ?b (\<lambda>bl. bl\<lparr>bloc_next := allallocatedbloc t, bloc_pos := 0\<rparr>) (h\<lparr>fresh_bloc := Suc ?b\<rparr>)"
    "t' = t\<lparr>currentbloc := Some ?b, allallocatedbloc := Some ?b\<rparr>"
    using n by (simp_all add: new_bloc_def Let_def)
  have "bloc_chain h' (allallocatedbloc t) (rev [n..<?b]) = bloc_chain h (allallocatedbloc t) (rev [n..<?b])"
    by (rule bloc_chain_frame) (simp add: eq upd_bloc_def)
  then show ?thesis using o by (simp add: owns_blocs_from_def eq upd_bloc_def)
qed

lemma alloc_entry_blocs:
  assumes a: "alloc_entry m k h t = (p, h', t')" and o: "owns_blocs_from n h t"
  shows "owns_blocs_from n h' t'"
proof (cases "currentbloc t")
  case (Some b)
  then show ?thesis using a o take_slot_blocs [of m k b h t p h' t' n] by (simp add: alloc_entry_def)
next
  case None
  obtain h1 t1 where nb: "new_bloc h t = (h1, t1)" by fastforce
  have "take_slot m k (fresh_bloc h) h1 t1 = (p, h', t')"
    using a None nb new_bloc_spec(1) [OF nb] by (simp add: alloc_entry_def)
  then show ?thesis using take_slot_blocs new_bloc_blocs [OF nb o] by blast
qed

section \<open>The contract of a table of chains\<close>

text \<open>The invariant of a table: the bloc it allocates from has a free slot, every bucket is a finite chain,
  and the entries of a chain are in use and belong in their bucket.\<close>

definition table_inv ::
  "nat \<Rightarrow> (uint64 \<Rightarrow> nat) \<Rightarrow> ('a kaapi_big_hashmap_scheme \<Rightarrow> nat \<Rightarrow> eptr option) \<Rightarrow>
   hash_heap \<Rightarrow> 'a kaapi_big_hashmap_scheme \<Rightarrow> bool" where
  "table_inv nbuckets hkey get h t \<longleftrightarrow> cur_ok h t \<and>
     (\<forall>k < nbuckets. \<exists>ps. chain h (get t k) ps \<and>
        (\<forall>p \<in> set ps. allocated h p \<and> hkey (he_key (hentry h p)) = k))"

text \<open>What the search and insertion functions need of the buckets: a hash below their number, and a read that
  returns the last write and does not depend on the bloc pointers.\<close>

locale bucket_table =
  fixes nbuckets :: nat
    and hkey :: "uint64 \<Rightarrow> nat"
    and get :: "'a kaapi_big_hashmap_scheme \<Rightarrow> nat \<Rightarrow> eptr option"
    and put :: "'a kaapi_big_hashmap_scheme \<Rightarrow> nat \<Rightarrow> eptr option \<Rightarrow> 'a kaapi_big_hashmap_scheme"
  assumes hkey_less: "hkey k < nbuckets"
    and get_put: "i < nbuckets \<Longrightarrow> j < nbuckets \<Longrightarrow> get (put t i e) j = (if j = i then e else get t j)"
    and get_same: "same_buckets t' t \<Longrightarrow> get t' j = get t j"
    and cur_put: "currentbloc (put t i e) = currentbloc t"
    and all_put: "allallocatedbloc (put t i e) = allallocatedbloc t"
begin

abbreviation tab_inv :: "hash_heap \<Rightarrow> 'a kaapi_big_hashmap_scheme \<Rightarrow> bool" where
  "tab_inv \<equiv> table_inv nbuckets hkey get"

definition lookup :: "hash_heap \<Rightarrow> 'a kaapi_big_hashmap_scheme \<Rightarrow> uint64 \<Rightarrow> eptr option option" where
  "lookup h t k = chain_find h k (get t (hkey k))"

lemma tab_chain:
  assumes "tab_inv h t"
  obtains ps where "chain h (get t (hkey k)) ps" "\<forall>p \<in> set ps. allocated h p"
    "lookup h t k = Some (find (\<lambda>p. he_key (hentry h p) = k) ps)"
  using assms hkey_less [of k] chain_find_find unfolding table_inv_def lookup_def by metis

lemma lookup_total: "tab_inv h t \<Longrightarrow> \<exists>r. lookup h t k = Some r"
  using tab_chain by metis

lemma lookup_key:
  assumes "tab_inv h t" "lookup h t k = Some (Some p)"
  shows "allocated h p \<and> he_key (hentry h p) = k"
proof -
  obtain ps where ps: "\<forall>p \<in> set ps. allocated h p"
    "lookup h t k = Some (find (\<lambda>p. he_key (hentry h p) = k) ps)"
    using tab_chain [OF assms(1)] by metis
  then show ?thesis using assms(2) by (auto simp: find_Some_iff2)
qed

text \<open>Linking an allocated entry in front of its bucket.\<close>

lemma link_spec:
  assumes i: "tab_inv h t" and a: "alloc_entry m k h t = (p, h1, t1)"
    and m: "\<And>e. he_key (m e) = he_key e"
    and h2: "h2 = upd_entry p (\<lambda>e. e\<lparr>he_next := get t (hkey k)\<rparr>) h1"
    and t2: "t2 = put t1 (hkey k) (Some p)"
  shows "tab_inv h2 t2"
    and "lookup h2 t2 k' = (if k' = k then Some (Some p) else lookup h t k')"
    and "allocated h q \<Longrightarrow> hentry h2 q = hentry h q"
    and "hentry h2 p = (m ((hentry h p)\<lparr>he_key := k\<rparr>))\<lparr>he_next := get t (hkey k)\<rparr>"
    and "\<not> allocated h p"
proof -
  have c: "cur_ok h t" using i by (simp add: table_inv_def)
  note s = alloc_entry_spec [OF a c]
  have al: "allocated h2 q = allocated h1 q" for q
    by (simp add: h2 heap_defs)
  have p: "hentry h2 p = (hentry h1 p)\<lparr>he_next := get t (hkey k)\<rparr>"
    by (simp add: h2 heap_defs)
  then show p2: "hentry h2 p = (m ((hentry h p)\<lparr>he_key := k\<rparr>))\<lparr>he_next := get t (hkey k)\<rparr>"
    using s by simp
  have q: "hentry h2 q = hentry h1 q" if "q \<noteq> p" for q
    using that by (cases p; cases q) (auto simp: h2 heap_defs)
  show np: "\<not> allocated h p" using s by simp
  show old: "hentry h2 q = hentry h q" if "allocated h q" for q
    using s np q that by metis
  have key: "he_key (hentry h2 p) = k" using p2 m by simp
  have get2: "get t2 j = (if j = hkey k then Some p else get t j)" if "j < nbuckets" for j
    using get_put [OF hkey_less that] get_same s t2 by metis
  have "cur_ok h2 t2" using s by (simp add: t2 h2 heap_defs cur_put)
  have chains: "\<exists>ps. chain h (get t j) ps \<and> chain h2 (get t j) ps \<and>
      (\<forall>p \<in> set ps. allocated h2 p \<and> he_key (hentry h2 p) = he_key (hentry h p) \<and> hkey (he_key (hentry h2 p)) = j)"
    if j: "j < nbuckets" for j
  proof -
    obtain ps where ps: "chain h (get t j) ps" "\<forall>p \<in> set ps. allocated h p \<and> hkey (he_key (hentry h p)) = j"
      using i j unfolding table_inv_def by blast
    then show ?thesis using chain_frame [OF ps(1), of h2] old s al by metis
  qed
  show "tab_inv h2 t2"
    unfolding table_inv_def
  proof (intro conjI allI impI)
    fix j assume j: "j < nbuckets"
    obtain ps where ps: "chain h2 (get t j) ps" "\<forall>p \<in> set ps. allocated h2 p \<and> hkey (he_key (hentry h2 p)) = j"
      using chains [OF j] by metis
    show "\<exists>ps. chain h2 (get t2 j) ps \<and> (\<forall>p \<in> set ps. allocated h2 p \<and> hkey (he_key (hentry h2 p)) = j)"
    proof (cases "j = hkey k")
      case True
      then have "chain h2 (get t2 j) (p # ps)" using get2 [OF j] ps(1) p by simp
      then show ?thesis using ps(2) True key s al by (intro exI [of _ "p # ps"]) auto
    qed (use get2 [OF j] ps in auto)
  qed fact
  show "lookup h2 t2 k' = (if k' = k then Some (Some p) else lookup h t k')"
  proof (cases "k' = k")
    case True
    then show ?thesis
      using get2 [OF hkey_less] key by (simp add: lookup_def chain_find.simps [of h2 k "Some p"])
  next
    case False
    obtain ps where ps: "chain h (get t (hkey k')) ps" "chain h2 (get t (hkey k')) ps"
      "\<forall>p \<in> set ps. he_key (hentry h2 p) = he_key (hentry h p)"
      using chains [OF hkey_less] by metis
    have eq: "find (\<lambda>p. he_key (hentry h2 p) = k') ps = find (\<lambda>p. he_key (hentry h p) = k') ps"
      using ps(3) by (intro find_cong) auto
    have "chain_find h2 k' (get t2 (hkey k')) = chain_find h2 k' (get t (hkey k'))"
    proof (cases "hkey k' = hkey k")
      case True
      then show ?thesis
        using get2 [OF hkey_less [of k']] p key False by (simp add: chain_find.simps [of h2 k' "Some p"])
    qed (use get2 [OF hkey_less [of k']] in simp)
    then show ?thesis
      using chain_find_find [OF ps(1)] chain_find_find [OF ps(2)] eq False by (simp add: lookup_def)
  qed
qed

text \<open>The common form of the two \<^verbatim>\<open>findinsert\<close> functions.\<close>

definition findinsert ::
  "hash_heap \<Rightarrow> 'a kaapi_big_hashmap_scheme \<Rightarrow> uint64 \<Rightarrow> (eptr \<times> hash_heap \<times> 'a kaapi_big_hashmap_scheme) option" where
  "findinsert h t k =
     (case lookup h t k of
        None \<Rightarrow> None
      | Some (Some p) \<Rightarrow> Some (p, h, t)
      | Some None \<Rightarrow>
          (case alloc_entry memset_value k h t of
             (p, h1, t1) \<Rightarrow> Some (p, upd_entry p (\<lambda>e. e\<lparr>he_next := get t (hkey k)\<rparr>) h1, put t1 (hkey k) (Some p))))"

lemma findinsert_spec:
  assumes i: "tab_inv h t"
  shows "\<exists>p h' t'. findinsert h t k = Some (p, h', t') \<and> tab_inv h' t'
    \<and> (\<forall>k'. lookup h' t' k' = (if k' = k then Some (Some p) else lookup h t k'))
    \<and> (\<forall>q. allocated h q \<longrightarrow> hentry h' q = hentry h q)
    \<and> (lookup h t k = Some None \<longrightarrow> \<not> allocated h p \<and> u_0 (hentry h' p) = 0 \<and> u_1 (hentry h' p) = 0)
    \<and> (lookup h t k \<noteq> Some None \<longrightarrow> lookup h t k = Some (Some p) \<and> h' = h \<and> t' = t)"
proof -
  obtain r where r: "lookup h t k = Some r" using lookup_total [OF i] by blast
  show ?thesis
  proof (cases r)
    case (Some p)
    then show ?thesis using r i by (simp add: findinsert_def)
  next
    case None
    obtain p h1 t1 where a: "alloc_entry memset_value k h t = (p, h1, t1)"
      by (metis prod_cases3)
    have m: "he_key (memset_value e) = he_key e" for e by (simp add: memset_value_def)
    note l = link_spec [OF i a m refl refl]
    show ?thesis using l r None a by (simp add: findinsert_def memset_value_def)
  qed
qed

text \<open>Writing the value of an entry moves no key.\<close>

lemma value_write:
  assumes i: "tab_inv h t" and l: "lookup h t k = Some (Some p)" and h': "h' = upd_entry p (\<lambda>e. e\<lparr>u_0 := x\<rparr>) h"
  shows "tab_inv h' t" and "lookup h' t k' = lookup h t k'"
    and "hentry h' q = (if q = p then (hentry h p)\<lparr>u_0 := x\<rparr> else hentry h q)"
proof -
  show e: "hentry h' q = (if q = p then (hentry h p)\<lparr>u_0 := x\<rparr> else hentry h q)" for q
    by (cases p; cases q) (auto simp: h' heap_defs)
  have n: "he_next (hentry h' q) = he_next (hentry h q)" "he_key (hentry h' q) = he_key (hentry h q)" for q
    using e [of q] by auto
  have al: "allocated h' q = allocated h q" for q by (simp add: h' heap_defs)
  have c: "chain h' e ps = chain h e ps" for e ps
    by (induction ps arbitrary: e) (auto simp: n)
  have "bloc_pos (blocs h' b) = bloc_pos (blocs h b)" "fresh_bloc h' = fresh_bloc h" for b
    by (simp_all add: h' heap_defs)
  then have "cur_ok h' t = cur_ok h t" by (simp add: cur_ok_def)
  then show "tab_inv h' t" using i by (simp add: table_inv_def c al n)
  obtain ps where ps: "chain h (get t (hkey k')) ps" using tab_chain [OF i] by metis
  then show "lookup h' t k' = lookup h t k'"
    using chain_find_find [of h _ ps k'] chain_find_find [of h' _ ps k'] c n by (simp add: lookup_def)
qed

lemma findinsert_blocs:
  assumes "findinsert h t k = Some (p, h', t')" and o: "owns_blocs_from n h t"
  shows "owns_blocs_from n h' t'"
proof -
  obtain q h1 t1 where a: "alloc_entry memset_value k h t = (q, h1, t1)" by (metis prod_cases3)
  have "owns_blocs_from n (upd_entry q f h1) (put t1 i e)" for f i e
  proof -
    have "owns_blocs_from n g (put t1 i e) = owns_blocs_from n g t1" for g by (simp add: owns_blocs_from_def all_put)
    then show ?thesis using alloc_entry_blocs [OF a o] by (simp add: owns_blocs_upd_entry)
  qed
  then show ?thesis using assms a by (auto simp: findinsert_def split: option.splits)
qed

lemma tab_inv_empty:
  "cur_ok h t \<Longrightarrow> (\<And>k. k < nbuckets \<Longrightarrow> get t k = None) \<Longrightarrow> tab_inv h t \<and> lookup h t k' = Some None"
  using hkey_less [of k'] by (auto simp: table_inv_def lookup_def chain_find.simps intro: exI [of _ "[]"])

end

section \<open>The two tables meet the contract\<close>

lemma get_set_hashmap_entry:
  assumes "i < 64" "j < 64"
  shows "get_hashmap_entry (set_hashmap_entry t i e) j = (if j = i then e else get_hashmap_entry t j)"
  using assms by (auto simp: get_hashmap_entry_def set_hashmap_entry_def key_to_mask_def bitmem word_bit_simps)

lemma cur_set_hashmap_entry:
  "currentbloc (set_hashmap_entry t i e) = currentbloc t"
  "allallocatedbloc (set_hashmap_entry t i e) = allallocatedbloc t"
  by (simp_all add: set_hashmap_entry_def)

interpretation hm: bucket_table KAAPI_HASHMAP_SIZE hmap_key get_hashmap_entry set_hashmap_entry
proof unfold_locales
  fix t' t :: kaapi_hashmap and j
  assume "same_buckets t' t"
  then have "entries t' = entries t" "entry_map t' = entry_map t"
    by (cases t; cases t'; simp add: same_buckets_def)+
  then show "get_hashmap_entry t' j = get_hashmap_entry t j" by (simp add: get_hashmap_entry_def)
qed (simp_all add: hmap_key_def KAAPI_HASHMAP_SIZE_def get_set_hashmap_entry cur_set_hashmap_entry)

definition big_put :: "kaapi_big_hashmap \<Rightarrow> nat \<Rightarrow> eptr option \<Rightarrow> kaapi_big_hashmap" where
  "big_put khm k e = khm\<lparr>entries := (entries khm)(k := e)\<rparr>"

interpretation bhm: bucket_table KAAPI_HASHMAP_BIG_SIZE big_key
    "entries :: kaapi_big_hashmap \<Rightarrow> nat \<Rightarrow> eptr option" big_put
  by unfold_locales
    (simp_all add: big_key_def KAAPI_HASHMAP_BIG_SIZE_def big_put_def same_buckets_def)

definition hashmap_inv :: "hash_heap \<Rightarrow> kaapi_hashmap \<Rightarrow> bool" where
  "hashmap_inv = table_inv KAAPI_HASHMAP_SIZE hmap_key get_hashmap_entry"

definition big_hashmap_inv :: "hash_heap \<Rightarrow> kaapi_big_hashmap \<Rightarrow> bool" where
  "big_hashmap_inv = table_inv KAAPI_HASHMAP_BIG_SIZE big_key entries"

lemma hashmap_lookup: "kaapi_hashmap_find h khm k = hm.lookup h khm k"
  by (simp add: kaapi_hashmap_find_def hm.lookup_def)

lemma big_hashmap_lookup: "kaapi_big_hashmap_find h khm k = bhm.lookup h khm k"
  by (simp add: kaapi_big_hashmap_find_def bhm.lookup_def)

lemma hashmap_findinsert: "kaapi_hashmap_findinsert h khm k = hm.findinsert h khm k"
  by (simp add: kaapi_hashmap_findinsert_def hm.findinsert_def hm.lookup_def Let_def split: option.split)

lemma big_hashmap_findinsert: "kaapi_big_hashmap_findinsert h khm k = bhm.findinsert h khm k"
  by (simp add: kaapi_big_hashmap_findinsert_def bhm.findinsert_def bhm.lookup_def big_put_def Let_def
      split: option.split)

lemma memset_key: "he_key (memset_value e) = he_key e" "he_key (memset_all e) = he_key e"
  by (simp_all add: memset_value_def memset_all_def)

section \<open>Properties\<close>

text \<open>C39: \<^verbatim>\<open>kaapi_hashmap_findinsert\<close> returns and keeps the invariant; the entry it returns is the one a later
  search for the key finds, with a cleared value when the key was not there and otherwise the entry that was there;
  no other key and no other entry in use changes.\<close>

theorem hashmap_findinsert_correct:
  assumes "hashmap_inv h khm"
  shows "\<exists>p h' khm'. kaapi_hashmap_findinsert h khm k = Some (p, h', khm') \<and> hashmap_inv h' khm'
    \<and> (\<forall>k'. kaapi_hashmap_find h' khm' k' = (if k' = k then Some (Some p) else kaapi_hashmap_find h khm k'))
    \<and> (\<forall>q. allocated h q \<longrightarrow> hentry h' q = hentry h q)
    \<and> (kaapi_hashmap_find h khm k = Some None \<longrightarrow> \<not> allocated h p \<and> u_0 (hentry h' p) = 0 \<and> u_1 (hentry h' p) = 0)
    \<and> (kaapi_hashmap_find h khm k \<noteq> Some None \<longrightarrow> kaapi_hashmap_find h khm k = Some (Some p))"
proof -
  have i: "hm.tab_inv h khm" using assms by (simp add: hashmap_inv_def)
  show ?thesis
    using hm.findinsert_spec [OF i, of k] unfolding hashmap_findinsert hashmap_lookup hashmap_inv_def by metis
qed

text \<open>\<^verbatim>\<open>kaapi_big_hashmap_insert\<close> always adds a fresh, cleared entry in front: the search for its key now gives
  it, even when the key was there before; all other keys and entries are as they were.\<close>

theorem big_hashmap_insert_correct:
  assumes "big_hashmap_inv h khm" and "kaapi_big_hashmap_insert h khm k = (p, h', khm')"
  shows "big_hashmap_inv h' khm' \<and> \<not> allocated h p
    \<and> u_0 (hentry h' p) = 0 \<and> u_1 (hentry h' p) = 0 \<and> u_2 (hentry h' p) = 0
    \<and> (\<forall>k'. kaapi_big_hashmap_find h' khm' k' = (if k' = k then Some (Some p) else kaapi_big_hashmap_find h khm k'))
    \<and> (\<forall>q. allocated h q \<longrightarrow> hentry h' q = hentry h q)"
proof -
  have i: "bhm.tab_inv h khm" using assms(1) by (simp add: big_hashmap_inv_def)
  obtain q h1 t1 where a: "alloc_entry memset_all k h khm = (q, h1, t1)"
    by (metis prod_cases3)
  have eq: "p = q" "h' = upd_entry p (\<lambda>e. e\<lparr>he_next := entries khm (big_key k)\<rparr>) h1"
    "khm' = big_put t1 (big_key k) (Some p)"
    using assms(2) a by (auto simp: kaapi_big_hashmap_insert_def Let_def big_put_def)
  note l = bhm.link_spec [OF i a [folded eq(1)] memset_key(2) eq(2,3)]
  show ?thesis using l by (simp add: big_hashmap_lookup big_hashmap_inv_def memset_all_def)
qed

text \<open>After \<^verbatim>\<open>kaapi_hashmap_init\<close>, and after \<^verbatim>\<open>kaapi_hashmap_clear\<close>, the table is well-formed and every search
  ends without an entry, although the array of buckets itself is not reset.\<close>

theorem hashmap_init_and_clear_empty:
  assumes "\<forall>b. initbloc = Some b \<longrightarrow> b < fresh_bloc h"
    and "kaapi_hashmap_init h khm initbloc = (h1, khm1)"
    and "hashmap_inv h2 khm2" and "kaapi_hashmap_clear h2 khm2 = (h3, khm3)"
  shows "hashmap_inv h1 khm1 \<and> kaapi_hashmap_find h1 khm1 k = Some None
    \<and> hashmap_inv h3 khm3 \<and> kaapi_hashmap_find h3 khm3 k = Some None"
proof -
  have "cur_ok h1 khm1"
    using assms(1,2) by (auto simp: kaapi_hashmap_init_def cur_ok_def upd_bloc_def KAAPI_BLOCENTRIES_SIZE_def split: option.splits)
  moreover have "get_hashmap_entry khm1 j = None" for j
    using assms(2) by (auto simp: kaapi_hashmap_init_def get_hashmap_entry_def)
  moreover have "cur_ok h3 khm3"
    using assms(3,4) by (auto simp: hashmap_inv_def table_inv_def kaapi_hashmap_clear_def cur_ok_def upd_bloc_def
        KAAPI_BLOCENTRIES_SIZE_def split: option.splits)
  moreover have "get_hashmap_entry khm3 j = None" for j
    using assms(4) by (auto simp: kaapi_hashmap_clear_def get_hashmap_entry_def)
  ultimately show ?thesis
    using hm.tab_inv_empty [of h1 khm1 k] hm.tab_inv_empty [of h3 khm3 k]
    by (simp add: hashmap_inv_def hashmap_lookup)
qed

text \<open>A sequence of insertions by \<^verbatim>\<open>kaapi_big_hashmap_findinsert\<close>.\<close>

fun big_findinserts :: "hash_heap \<Rightarrow> kaapi_big_hashmap \<Rightarrow> uint64 list \<Rightarrow> (hash_heap \<times> kaapi_big_hashmap) option" where
  "big_findinserts h khm [] = Some (h, khm)"
| "big_findinserts h khm (k # ks) =
     (case kaapi_big_hashmap_findinsert h khm k of
        None \<Rightarrow> None | Some (p, h, khm) \<Rightarrow> big_findinserts h khm ks)"

lemma big_findinserts_inv:
  "big_hashmap_inv h khm \<Longrightarrow> owns_blocs_from n h khm \<Longrightarrow>
   \<exists>h' khm'. big_findinserts h khm ks = Some (h', khm') \<and> big_hashmap_inv h' khm' \<and> owns_blocs_from n h' khm' \<and>
     (\<forall>k. kaapi_big_hashmap_find h' khm' k \<noteq> Some None \<longleftrightarrow> k \<in> set ks \<or> kaapi_big_hashmap_find h khm k \<noteq> Some None)"
proof (induction ks arbitrary: h khm)
  case (Cons k ks)
  have i: "bhm.tab_inv h khm" using Cons.prems by (simp add: big_hashmap_inv_def)
  obtain p h1 t1 where f: "kaapi_big_hashmap_findinsert h khm k = Some (p, h1, t1)" "big_hashmap_inv h1 t1"
    and l: "\<forall>k'. kaapi_big_hashmap_find h1 t1 k' = (if k' = k then Some (Some p) else kaapi_big_hashmap_find h khm k')"
    using bhm.findinsert_spec [OF i, of k] unfolding big_hashmap_findinsert big_hashmap_inv_def big_hashmap_lookup by metis
  have "owns_blocs_from n h1 t1"
    using bhm.findinsert_blocs [of h khm k p h1 t1 n] f(1) Cons.prems(2) by (simp add: big_hashmap_findinsert)
  from Cons.IH [OF f(2) this] show ?case using f(1) l by auto
qed simp

text \<open>After any sequence of insertions into an initialised table, which all return, exactly the inserted keys
  are found, and \<^verbatim>\<open>kaapi_big_hashmap_destroy\<close> returns and frees every bloc allocated since the initialisation once,
  the last one first, and no other: the initial bloc of the caller stays his.\<close>

theorem big_hashmap_destroy_frees_once:
  assumes "\<forall>b. initbloc = Some b \<longrightarrow> b < fresh_bloc h"
    and "kaapi_big_hashmap_init h khm initbloc = (h0, khm0)"
  shows "\<exists>h1 khm1. big_findinserts h0 khm0 ks = Some (h1, khm1)
    \<and> (\<forall>k. kaapi_big_hashmap_find h1 khm1 k = Some None \<longleftrightarrow> k \<notin> set ks)
    \<and> kaapi_big_hashmap_destroy h1 khm1 =
        Some (rev [fresh_bloc h..<fresh_bloc h1], khm1\<lparr>allallocatedbloc := None, currentbloc := None\<rparr>)"
proof -
  have "cur_ok h0 khm0"
    using assms by (auto simp: kaapi_big_hashmap_init_def cur_ok_def upd_bloc_def KAAPI_BLOCENTRIES_SIZE_def
        split: option.splits)
  moreover have "entries khm0 j = None" for j using assms(2) by (auto simp: kaapi_big_hashmap_init_def)
  ultimately have e: "big_hashmap_inv h0 khm0" "\<And>k. kaapi_big_hashmap_find h0 khm0 k = Some None"
    using bhm.tab_inv_empty [of h0 khm0] by (auto simp: big_hashmap_inv_def big_hashmap_lookup)
  have "owns_blocs_from (fresh_bloc h) h0 khm0"
    using assms(2) by (auto simp: kaapi_big_hashmap_init_def owns_blocs_from_def upd_bloc_def split: option.splits)
  from big_findinserts_inv [OF e(1) this, of ks] obtain h1 khm1 where
    r: "big_findinserts h0 khm0 ks = Some (h1, khm1)" "owns_blocs_from (fresh_bloc h) h1 khm1"
    "\<forall>k. kaapi_big_hashmap_find h1 khm1 k \<noteq> Some None \<longleftrightarrow> k \<in> set ks"
    using e(2) by auto
  then show ?thesis
    using free_blocs_chain [of h1 "allallocatedbloc khm1"]
    by (auto simp: kaapi_big_hashmap_destroy_def owns_blocs_from_def)
qed

section \<open>Witnesses\<close>

definition sample_heap :: hash_heap where
  "sample_heap = \<lparr>blocs = (\<lambda>_. \<lparr>bloc_data = (\<lambda>_. \<lparr>u_0 = 7, u_1 = 7, u_2 = 7, he_key = 0, he_next = None\<rparr>),
     bloc_pos = 0, bloc_next = None\<rparr>), fresh_bloc = 1\<rparr>"

definition sample_map :: kaapi_hashmap where
  "sample_map = \<lparr>entries = (\<lambda>_. None), currentbloc = Some 0, allallocatedbloc = None, entry_map = 0\<rparr>"

definition sample_big_map :: kaapi_big_hashmap where
  "sample_big_map = \<lparr>entries = (\<lambda>_. None), currentbloc = Some 0, allallocatedbloc = None\<rparr>"

lemma sample_inv: "hashmap_inv sample_heap sample_map" "big_hashmap_inv sample_heap sample_big_map"
  by (auto simp: hashmap_inv_def big_hashmap_inv_def table_inv_def cur_ok_def sample_heap_def sample_map_def
      sample_big_map_def KAAPI_BLOCENTRIES_SIZE_def get_hashmap_entry_def intro: exI [of _ "[]"])

theorem hashmap_findinsert_correct_witness:
  "\<exists>p h' khm'. kaapi_hashmap_findinsert sample_heap sample_map 4096 = Some (p, h', khm') \<and>
     kaapi_hashmap_find h' khm' 4096 = Some (Some p)"
  using hashmap_findinsert_correct [OF sample_inv(1), of 4096] by metis

theorem big_hashmap_insert_correct_witness:
  "\<exists>p h' khm'. kaapi_big_hashmap_insert sample_heap sample_big_map 4096 = (p, h', khm') \<and>
     kaapi_big_hashmap_find h' khm' 4096 = Some (Some p)"
proof -
  obtain p h' khm' where "kaapi_big_hashmap_insert sample_heap sample_big_map 4096 = (p, h', khm')"
    by (metis prod_cases3)
  with big_hashmap_insert_correct [OF sample_inv(2) this] show ?thesis by auto
qed

theorem hashmap_init_and_clear_empty_witness:
  "kaapi_hashmap_find (fst (kaapi_hashmap_clear sample_heap sample_map))
     (snd (kaapi_hashmap_clear sample_heap sample_map)) 4096 = Some None"
  using hashmap_init_and_clear_empty [of None sample_heap sample_map, OF _ prod.collapse [symmetric] sample_inv(1)
      prod.collapse [symmetric], of 4096]
  by simp

theorem big_hashmap_destroy_frees_once_witness:
  "\<exists>h1 khm1. big_findinserts (fst (kaapi_big_hashmap_init sample_heap sample_big_map None))
       (snd (kaapi_big_hashmap_init sample_heap sample_big_map None)) [8, 16, 8] = Some (h1, khm1)
     \<and> kaapi_big_hashmap_find h1 khm1 16 \<noteq> Some None \<and> kaapi_big_hashmap_find h1 khm1 24 = Some None"
  using big_hashmap_destroy_frees_once [of None sample_heap sample_big_map, OF _ prod.collapse [symmetric], of "[8, 16, 8]"]
  by auto

end
