(* ===== verification/Dataflow.thy ===== *)
theory Dataflow
  imports Hashmap "HOL-Library.Monad_Syntax" "HOL-Library.Multiset"
begin

text \<open>
  The data flow graph of a frame: \<^verbatim>\<open>kaapi_thread_computereadylist\<close> and what it calls
  (\<^verbatim>\<open>src/thread/kaapi_thread_computereadylist.c\<close>, \<^verbatim>\<open>kaapi_thread_checkdeps.c\<close>,
  \<^verbatim>\<open>kaapi_thread_computeready_access.c\<close>, \<^verbatim>\<open>kaapi_version_addaccess.c\<close>, \<^verbatim>\<open>kaapi_version_find.c\<close>) over the
  structures of \<^verbatim>\<open>src/kaapi_tasklist.h\<close>.  For every task of the frame, in program order, it makes a task
  descriptor, looks up the version of each datum the task accesses, and links the descriptor as a
  successor of the version's last writer.  Descriptors, versions and handles are named by the order of their
  allocation; an activation list is the list of the descriptors it links.  \<open>None\<close> is a failed
  \<^verbatim>\<open>kaapi_assert\<close>, a trap of the machine, or a search that does not end.
\<close>

section \<open>Access modes\<close>

type_synonym access_mode = uint8

definition KAAPI_ACCESS_MODE_VOID :: access_mode where "KAAPI_ACCESS_MODE_VOID = 0"
definition KAAPI_ACCESS_MODE_V :: access_mode where "KAAPI_ACCESS_MODE_V = 1"
definition KAAPI_ACCESS_MODE_R :: access_mode where "KAAPI_ACCESS_MODE_R = 2"
definition KAAPI_ACCESS_MODE_W :: access_mode where "KAAPI_ACCESS_MODE_W = 4"

definition KAAPI_ACCESS_GET_MODE :: "access_mode \<Rightarrow> access_mode" where
  "KAAPI_ACCESS_GET_MODE m = m AND 0x1F"

definition KAAPI_ACCESS_IS_READ :: "access_mode \<Rightarrow> bool" where
  "KAAPI_ACCESS_IS_READ m \<longleftrightarrow> m AND KAAPI_ACCESS_MODE_R \<noteq> 0"

definition KAAPI_ACCESS_IS_WRITE :: "access_mode \<Rightarrow> bool" where
  "KAAPI_ACCESS_IS_WRITE m \<longleftrightarrow> m AND KAAPI_ACCESS_MODE_W \<noteq> 0"

definition KAAPI_ACCESS_IS_READWRITE :: "access_mode \<Rightarrow> bool" where
  "KAAPI_ACCESS_IS_READWRITE m \<longleftrightarrow> m AND 0x1F = KAAPI_ACCESS_MODE_W OR KAAPI_ACCESS_MODE_R"

section \<open>Tasks, descriptors and versions\<close>

text \<open>The body of a task: the two internal bodies of initial tasks, or a user body, which has a format when it was
  registered.\<close>

datatype task_body = Taskmove_body | Taskalloc_body | User_body nat

text \<open>A task with the mode and the address of each parameter, as its format returns them, and the handle that
  replaces the address of an access once its version is known.\<close>

record kaapi_task =
  t_body :: task_body
  t_params :: "(access_mode \<times> uint64) list"
  t_handles :: "nat option list"
  t_priority :: nat

record kaapi_taskdescr =
  td_counter :: nat
  td_wc :: nat
  td_task :: kaapi_task
  td_fmt :: "nat option"
  td_priority :: nat
  td_mark :: nat
  td_date :: nat
  td_bcast :: "nat list"
  td_list :: "nat list"

record kaapi_version =
  v_last_mode :: access_mode
  v_handle :: nat
  v_writer :: nat

text \<open>The frame's task list with its queue of ready tasks and its allocators: descriptors below \<open>ntds\<close>, versions and
  handles below \<open>nvers\<close> and \<open>nhandles\<close> are in use; \<open>vtab\<close> is the table of \<^verbatim>\<open>thread->kversion_hm\<close>.\<close>

record ('t, 'r) kaapi_frame_tasklist =
  rtl :: 'r
  tds :: "nat \<Rightarrow> kaapi_taskdescr"
  ntds :: nat
  total_tasks :: nat
  readylist :: "nat list"
  vers :: "nat \<Rightarrow> kaapi_version"
  nvers :: nat
  nhandles :: nat
  vtab :: 't
  t_infinity :: nat

definition KAAPI_TASKLIST_MIN_PRIORITY :: nat where "KAAPI_TASKLIST_MIN_PRIORITY = 0"
definition KAAPI_TASKLIST_MAX_PRIORITY :: nat where "KAAPI_TASKLIST_MAX_PRIORITY = 7"

subsection \<open>Descriptors\<close>

definition kaapi_allocator_init_td :: "kaapi_taskdescr \<Rightarrow> kaapi_task \<Rightarrow> nat option \<Rightarrow> kaapi_taskdescr" where
  "kaapi_allocator_init_td td task task_fmt =
     td\<lparr>td_counter := 0, td_wc := 0, td_task := task, td_fmt := task_fmt,
        td_priority := KAAPI_TASKLIST_MIN_PRIORITY, td_mark := 0, td_date := 0, td_bcast := [], td_list := []\<rparr>"

definition kaapi_tasklist_allocate_td ::
  "('t, 'r) kaapi_frame_tasklist \<Rightarrow> kaapi_task \<Rightarrow> nat option \<Rightarrow> nat \<times> ('t, 'r) kaapi_frame_tasklist" where
  "kaapi_tasklist_allocate_td ftl task task_fmt =
     (ntds ftl, ftl\<lparr>tds := (tds ftl)(ntds ftl := kaapi_allocator_init_td (tds ftl (ntds ftl)) task task_fmt),
                  ntds := Suc (ntds ftl), total_tasks := Suc (total_tasks ftl)\<rparr>)"

definition kaapi_frame_tasklist_pushback_ready ::
  "('t, 'r) kaapi_frame_tasklist \<Rightarrow> nat \<Rightarrow> ('t, 'r) kaapi_frame_tasklist" where
  "kaapi_frame_tasklist_pushback_ready ftl td = ftl\<lparr>readylist := td # readylist ftl\<rparr>"

definition upd_td :: "nat \<Rightarrow> (kaapi_taskdescr \<Rightarrow> kaapi_taskdescr) \<Rightarrow> ('t, 'r) kaapi_frame_tasklist \<Rightarrow> ('t, 'r) kaapi_frame_tasklist" where
  "upd_td x f ftl = ftl\<lparr>tds := (tds ftl)(x := f (tds ftl x))\<rparr>"

definition upd_ver :: "nat \<Rightarrow> (kaapi_version \<Rightarrow> kaapi_version) \<Rightarrow> ('t, 'r) kaapi_frame_tasklist \<Rightarrow> ('t, 'r) kaapi_frame_tasklist" where
  "upd_ver v f ftl = ftl\<lparr>vers := (vers ftl)(v := f (vers ftl v))\<rparr>"

definition kaapi_tasklist_push_successor ::
  "('t, 'r) kaapi_frame_tasklist \<Rightarrow> nat \<Rightarrow> nat \<Rightarrow> ('t, 'r) kaapi_frame_tasklist" where
  "kaapi_tasklist_push_successor ftl td td_successor =
     upd_td td_successor (\<lambda>d. d\<lparr>td_wc := td_wc d + 1\<rparr>)
       (upd_td td (\<lambda>d. d\<lparr>td_list := td_list d @ [td_successor]\<rparr>) ftl)"

subsection \<open>Activation\<close>

text \<open>Activation of one descriptor: the incremented counter modulo \<^verbatim>\<open>wc\<close>, a division that traps when \<^verbatim>\<open>wc\<close> is 0.\<close>

definition kaapi_taskdescr_activated :: "kaapi_taskdescr \<Rightarrow> (bool \<times> kaapi_taskdescr) option" where
  "kaapi_taskdescr_activated td =
     (let c = td_counter td + 1; td = td\<lparr>td_counter := c\<rparr>
      in if td_wc td = 0 then None else Some (c mod td_wc td = 0, td))"

text \<open>The walk along an activation list; \<open>pushready\<close> is \<^verbatim>\<open>kaapi_readytasklist_pushready_td\<close> on the queue.  It
  returns the number of descriptors it pushed.\<close>

fun kaapi_readytasklist_push_from_activationlist ::
  "(nat \<Rightarrow> 'r \<Rightarrow> 'r) \<Rightarrow> nat list \<Rightarrow> ('t, 'r) kaapi_frame_tasklist \<Rightarrow> (nat \<times> ('t, 'r) kaapi_frame_tasklist) option" where
  "kaapi_readytasklist_push_from_activationlist pushready [] ftl = Some (0, ftl)"
| "kaapi_readytasklist_push_from_activationlist pushready (td # head) ftl =
     do { (ready, d) \<leftarrow> kaapi_taskdescr_activated (tds ftl td);
          let ftl = upd_td td (\<lambda>_. d) ftl;
          let ftl = (if ready then ftl\<lparr>rtl := pushready td (rtl ftl)\<rparr> else ftl);
          (n, ftl) \<leftarrow> kaapi_readytasklist_push_from_activationlist pushready head ftl;
          Some ((if ready then 1 else 0) + n, ftl) }"

definition kaapi_readytasklist_pushactivated ::
  "(nat \<Rightarrow> 'r \<Rightarrow> 'r) \<Rightarrow> nat \<Rightarrow> ('t, 'r) kaapi_frame_tasklist \<Rightarrow> (nat \<times> ('t, 'r) kaapi_frame_tasklist) option" where
  "kaapi_readytasklist_pushactivated pushready td ftl =
     do { (n, ftl) \<leftarrow> kaapi_readytasklist_push_from_activationlist pushready (td_list (tds ftl td)) ftl;
          (k, ftl) \<leftarrow> kaapi_readytasklist_push_from_activationlist pushready (td_bcast (tds ftl td)) ftl;
          Some (n + k, ftl) }"

subsection \<open>Versions\<close>

text \<open>\<open>findv\<close> is the table of versions: given an address and the pointer to store when the address has none, it
  returns the pointer the address has then.  Its instance on the hash table is below.\<close>

type_synonym 't findv = "'t \<Rightarrow> uint64 \<Rightarrow> nat \<Rightarrow> (nat \<times> 't) option"

definition kaapi_version_findinsert ::
  "'t findv \<Rightarrow> ('t, 'r) kaapi_frame_tasklist \<Rightarrow> uint64 \<Rightarrow> (nat \<times> ('t, 'r) kaapi_frame_tasklist) option" where
  "kaapi_version_findinsert findv ftl addr =
     do { (v, t) \<leftarrow> findv (vtab ftl) addr (nvers ftl);
          Some (if v \<noteq> nvers ftl then (v, ftl\<lparr>vtab := t\<rparr>)
                else (v, upd_ver v (\<lambda>x. x\<lparr>v_last_mode := KAAPI_ACCESS_MODE_VOID\<rparr>)
                          (ftl\<lparr>vtab := t, nvers := Suc (nvers ftl)\<rparr>))) }"

definition initial_task :: "task_body \<Rightarrow> kaapi_task" where
  "initial_task b = \<lparr>t_body = b, t_params = [], t_handles = [], t_priority = 0\<rparr>"

text \<open>The first access to a datum makes an initial descriptor, ready at once, that brings or allocates the datum.\<close>

definition kaapi_version_add_initialaccess ::
  "('t, 'r) kaapi_frame_tasklist \<Rightarrow> nat \<Rightarrow> access_mode \<Rightarrow> ('t, 'r) kaapi_frame_tasklist option" where
  "kaapi_version_add_initialaccess ftl version m =
     (let ftl = upd_ver version (\<lambda>v. v\<lparr>v_handle := nhandles ftl\<rparr>) (ftl\<lparr>nhandles := Suc (nhandles ftl)\<rparr>)
      in if KAAPI_ACCESS_IS_READ m then
           (case kaapi_tasklist_allocate_td ftl (initial_task Taskmove_body) None of (td_move, ftl) \<Rightarrow>
              let ftl = upd_ver version (\<lambda>v. v\<lparr>v_writer := td_move\<rparr>) ftl;
                  ftl = kaapi_frame_tasklist_pushback_ready ftl td_move
              in Some (upd_ver version (\<lambda>v. v\<lparr>v_last_mode := KAAPI_ACCESS_MODE_W\<rparr>) ftl))
         else if KAAPI_ACCESS_IS_WRITE m then
           (case kaapi_tasklist_allocate_td ftl (initial_task Taskalloc_body) None of (td_alloc, ftl) \<Rightarrow>
              let ftl = upd_ver version (\<lambda>v. v\<lparr>v_writer := td_alloc\<rparr>) ftl;
                  ftl = kaapi_frame_tasklist_pushback_ready ftl td_alloc
              in Some (upd_ver version (\<lambda>v. v\<lparr>v_last_mode := KAAPI_ACCESS_MODE_W\<rparr>) ftl))
         else None)"

text \<open>The handle it returns is \<open>None\<close> for the null pointer.\<close>

definition kaapi_thread_computeready_access ::
  "('t, 'r) kaapi_frame_tasklist \<Rightarrow> nat \<Rightarrow> nat \<Rightarrow> access_mode \<Rightarrow> nat option \<times> ('t, 'r) kaapi_frame_tasklist" where
  "kaapi_thread_computeready_access ftl version task m =
     (let writer = v_writer (vers ftl version);
          handle = v_handle (vers ftl version)
      in if KAAPI_ACCESS_IS_READWRITE m then
           (let ftl = (if writer \<noteq> task
                      then upd_ver version (\<lambda>v. v\<lparr>v_writer := task\<rparr>) (kaapi_tasklist_push_successor ftl writer task)
                      else ftl)
            in (Some handle, upd_ver version (\<lambda>v. v\<lparr>v_last_mode := m\<rparr>) ftl))
         else if KAAPI_ACCESS_IS_READ m then
           (Some handle, if writer \<noteq> task then kaapi_tasklist_push_successor ftl writer task else ftl)
         else if KAAPI_ACCESS_IS_WRITE m then
           (if t_body (td_task (tds ftl writer)) = Taskalloc_body then
              (let ftl = kaapi_tasklist_push_successor ftl writer task;
                   ftl = upd_ver version (\<lambda>v. v\<lparr>v_writer := task\<rparr>) ftl
               in (Some handle, upd_ver version (\<lambda>v. v\<lparr>v_last_mode := m\<rparr>) ftl))
            else
              (let ftl = (if writer \<noteq> task
                         then upd_ver version (\<lambda>v. v\<lparr>v_writer := task\<rparr>) (kaapi_tasklist_push_successor ftl writer task)
                         else ftl)
               in (Some handle, upd_ver version (\<lambda>v. v\<lparr>v_last_mode := m\<rparr>) ftl)))
         else (None, ftl))"

subsection \<open>The dependencies of a task\<close>

text \<open>One turn of the loop over the parameters; a null handle is dereferenced by the next statement (\<open>None\<close>).
  The registration in the memory system (\<^verbatim>\<open>kaapi_memory_bind_view\<close>) is not modelled.\<close>

definition computedep_param ::
  "'t findv \<Rightarrow> nat \<Rightarrow> nat \<Rightarrow> access_mode \<times> uint64 \<Rightarrow> ('t, 'r) kaapi_frame_tasklist \<Rightarrow> ('t, 'r) kaapi_frame_tasklist option" where
  "computedep_param findv taskdescr i p ftl =
     (let m = KAAPI_ACCESS_GET_MODE (fst p)
      in if m = KAAPI_ACCESS_MODE_V then Some ftl
         else do {
           (version, ftl) \<leftarrow> kaapi_version_findinsert findv ftl (snd p);
           ftl \<leftarrow> (if v_last_mode (vers ftl version) = KAAPI_ACCESS_MODE_VOID
                  then kaapi_version_add_initialaccess ftl version m else Some ftl);
           (case kaapi_thread_computeready_access ftl version taskdescr m of
              (None, ftl) \<Rightarrow> None
            | (Some handle, ftl) \<Rightarrow>
                Some (upd_td taskdescr
                  (\<lambda>d. d\<lparr>td_task := (td_task d)\<lparr>t_handles := (t_handles (td_task d))[i := Some handle]\<rparr>\<rparr>) ftl))
         })"

fun computedep_params ::
  "'t findv \<Rightarrow> nat \<Rightarrow> nat \<Rightarrow> (access_mode \<times> uint64) list \<Rightarrow> ('t, 'r) kaapi_frame_tasklist \<Rightarrow>
   ('t, 'r) kaapi_frame_tasklist option" where
  "computedep_params findv taskdescr i [] ftl = Some ftl"
| "computedep_params findv taskdescr i (p # ps) ftl =
     do { ftl \<leftarrow> computedep_param findv taskdescr i p ftl;
          computedep_params findv taskdescr (Suc i) ps ftl }"

text \<open>The format of a body, or \<open>None\<close> when none is registered.\<close>

type_synonym formats = "task_body \<Rightarrow> nat option"

text \<open>\<^verbatim>\<open>kaapi_thread_computedep_task\<close>.  Its last statement, for \<^verbatim>\<open>wc == 0\<close>, calls \<open>pushactivated\<close>, which
  activates the successors of the new descriptor.\<close>

definition kaapi_thread_computedep_task ::
  "formats \<Rightarrow> 't findv \<Rightarrow> (nat \<Rightarrow> 'r \<Rightarrow> 'r) \<Rightarrow>
   ('t, 'r) kaapi_frame_tasklist \<Rightarrow> kaapi_task \<Rightarrow> (errno \<times> ('t, 'r) kaapi_frame_tasklist) option" where
  "kaapi_thread_computedep_task resolve findv pushready ftl task =
     (case resolve (t_body task) of
        None \<Rightarrow> Some (EINVAL, ftl)
      | Some task_fmt \<Rightarrow>
          (case kaapi_tasklist_allocate_td ftl task (Some task_fmt) of (taskdescr, ftl) \<Rightarrow>
             do { ftl \<leftarrow> computedep_params findv taskdescr 0 (t_params task) ftl;
                  let ftl = upd_td taskdescr (\<lambda>d. d\<lparr>td_fmt := Some task_fmt, td_priority := t_priority task\<rparr>) ftl;
                  ftl \<leftarrow> (if td_wc (tds ftl taskdescr) = 0
                         then map_option snd (kaapi_readytasklist_pushactivated pushready taskdescr ftl)
                         else Some ftl);
                  Some (OK, ftl) }))"

fun computereadylist_loop ::
  "formats \<Rightarrow> 't findv \<Rightarrow> (nat \<Rightarrow> 'r \<Rightarrow> 'r) \<Rightarrow>
   kaapi_task list \<Rightarrow> ('t, 'r) kaapi_frame_tasklist \<Rightarrow> ('t, 'r) kaapi_frame_tasklist option" where
  "computereadylist_loop resolve findv pushready [] ftl = Some ftl"
| "computereadylist_loop resolve findv pushready (task # tasks) ftl =
     do { (err, ftl) \<leftarrow> kaapi_thread_computedep_task resolve findv pushready ftl task;
          computereadylist_loop resolve findv pushready tasks ftl }"

section \<open>The graph\<close>

text \<open>Descriptors of initial tasks have no format.  A rank that every edge increases: initial descriptors come
  first, although they are allocated during the computation of their first user.\<close>

definition rank :: "('t, 'r) kaapi_frame_tasklist \<Rightarrow> nat \<Rightarrow> nat" where
  "rank ftl x = (if td_fmt (tds ftl x) = None then 0 else Suc x)"

definition initials :: "('t, 'r) kaapi_frame_tasklist \<Rightarrow> nat set" where
  "initials ftl = {x. x < ntds ftl \<and> td_fmt (tds ftl x) = None}"

text \<open>The number of links to a descriptor in the activation lists of the frame.\<close>

definition indegree :: "('t, 'r) kaapi_frame_tasklist \<Rightarrow> nat \<Rightarrow> nat" where
  "indegree ftl y = (\<Sum>x<ntds ftl. count_list (td_list (tds ftl x)) y)"

definition edges_ok :: "('t, 'r) kaapi_frame_tasklist \<Rightarrow> bool" where
  "edges_ok ftl \<longleftrightarrow>
     (\<forall>x < ntds ftl. \<forall>y \<in> set (td_list (tds ftl x)). y < ntds ftl \<and> rank ftl x < rank ftl y)"

definition fresh_tds :: "('t, 'r) kaapi_frame_tasklist \<Rightarrow> bool" where
  "fresh_tds ftl \<longleftrightarrow>
     (\<forall>x < ntds ftl. td_counter (tds ftl x) = 0 \<and> td_mark (tds ftl x) = 0 \<and> td_bcast (tds ftl x) = [] \<and>
        (td_fmt (tds ftl x) = None \<longleftrightarrow> t_body (td_task (tds ftl x)) \<in> {Taskmove_body, Taskalloc_body}))"

definition graph_inv :: "('t, 'r) kaapi_frame_tasklist \<Rightarrow> bool" where
  "graph_inv ftl \<longleftrightarrow>
     edges_ok ftl \<and> fresh_tds ftl
   \<and> (\<forall>y < ntds ftl. td_wc (tds ftl y) = indegree ftl y)
   \<and> distinct (readylist ftl) \<and> set (readylist ftl) = initials ftl
   \<and> total_tasks ftl = ntds ftl"

lemmas graph_defs = graph_inv_def edges_ok_def fresh_tds_def initials_def indegree_def rank_def

text \<open>Fields outside the graph, and updates of a descriptor that keep the graph.\<close>

lemma graph_frame [heap_upd]:
  "graph_inv (upd_ver v f ftl) = graph_inv ftl" "graph_inv (ftl\<lparr>vtab := t\<rparr>) = graph_inv ftl"
  "graph_inv (ftl\<lparr>nvers := n\<rparr>) = graph_inv ftl" "graph_inv (ftl\<lparr>nhandles := n\<rparr>) = graph_inv ftl"
  by (simp_all add: graph_defs upd_ver_def)

lemma pushback_upd_ver:
  "kaapi_frame_tasklist_pushback_ready (upd_ver v f ftl) x = upd_ver v f (kaapi_frame_tasklist_pushback_ready ftl x)"
  by (simp add: kaapi_frame_tasklist_pushback_ready_def upd_ver_def)

lemma graph_upd_td:
  assumes "\<And>d. td_list (f d) = td_list d" "\<And>d. td_wc (f d) = td_wc d" "\<And>d. td_counter (f d) = td_counter d"
    "\<And>d. td_bcast (f d) = td_bcast d" "td_fmt (f (tds ftl x)) = td_fmt (tds ftl x)"
    "\<And>d. t_body (td_task (f d)) = t_body (td_task d)" "\<And>d. td_mark (f d) = td_mark d"
  shows "graph_inv (upd_td x f ftl) = graph_inv ftl"
proof -
  have t: "tds (upd_td x f ftl) y = (if y = x then f (tds ftl x) else tds ftl y)" for y
    by (simp add: upd_td_def)
  have l: "td_list (tds (upd_td x f ftl) y) = td_list (tds ftl y)"
    and w: "td_wc (tds (upd_td x f ftl) y) = td_wc (tds ftl y)"
    and c: "td_counter (tds (upd_td x f ftl) y) = td_counter (tds ftl y)"
    and b: "td_bcast (tds (upd_td x f ftl) y) = td_bcast (tds ftl y)"
    and mk: "td_mark (tds (upd_td x f ftl) y) = td_mark (tds ftl y)"
    and m: "td_fmt (tds (upd_td x f ftl) y) = td_fmt (tds ftl y)"
    and k: "t_body (td_task (tds (upd_td x f ftl) y)) = t_body (td_task (tds ftl y))" for y
    using assms by (simp_all add: t)
  have "ntds (upd_td x f ftl) = ntds ftl" "readylist (upd_td x f ftl) = readylist ftl"
    "total_tasks (upd_td x f ftl) = total_tasks ftl"
    by (simp_all add: upd_td_def)
  then show ?thesis by (simp add: graph_defs l w c b m k mk)
qed

lemma alloc_td_fields:
  assumes "kaapi_tasklist_allocate_td ftl task f = (x, ftl')"
  shows "x = ntds ftl" "ntds ftl' = Suc (ntds ftl)" "readylist ftl' = readylist ftl"
    "vers ftl' = vers ftl" "vtab ftl' = vtab ftl" "nvers ftl' = nvers ftl" "rtl ftl' = rtl ftl"
    "tds ftl' y = (if y = x then kaapi_allocator_init_td (tds ftl x) task f else tds ftl y)"
    "total_tasks ftl' = Suc (total_tasks ftl)"
  using assms by (auto simp: kaapi_tasklist_allocate_td_def)

text \<open>A new descriptor has no links, and nothing links to it.\<close>

lemma alloc_td_graph:
  assumes "edges_ok ftl" "fresh_tds ftl" "\<forall>y < ntds ftl. td_wc (tds ftl y) = indegree ftl y"
    "kaapi_tasklist_allocate_td ftl task f = (x, ftl')"
    "f = None \<longleftrightarrow> t_body task \<in> {Taskmove_body, Taskalloc_body}"
  shows "edges_ok ftl'" "fresh_tds ftl'" "\<forall>y < ntds ftl'. td_wc (tds ftl' y) = indegree ftl' y"
    "initials ftl' = initials ftl \<union> (if f = None then {x} else {})"
proof -
  note a = alloc_td_fields [OF assms(4)]
  have old: "tds ftl' y = tds ftl y" if "y < ntds ftl" for y using that a(1,8) by simp
  have new: "tds ftl' x = kaapi_allocator_init_td (tds ftl x) task f" using a(8) by simp
  have rk: "rank ftl' y = rank ftl y" if "y < ntds ftl" for y using old [OF that] by (simp add: rank_def)
  show "edges_ok ftl'"
    unfolding edges_ok_def
  proof (intro allI impI ballI)
    fix y z assume y: "y < ntds ftl'" and z: "z \<in> set (td_list (tds ftl' y))"
    have "y < ntds ftl" using y z new a(1,2) by (cases "y = x") (auto simp: kaapi_allocator_init_td_def)
    then show "z < ntds ftl' \<and> rank ftl' y < rank ftl' z"
      using assms(1) z old rk a(2) by (force simp: edges_ok_def)
  qed
  show "fresh_tds ftl'"
    using assms(2,5) old new a(1,2) by (auto simp: fresh_tds_def kaapi_allocator_init_td_def less_Suc_eq)
  have deg: "indegree ftl' y = indegree ftl y" for y
  proof -
    have "count_list (td_list (tds ftl' x)) y = 0" by (simp add: new kaapi_allocator_init_td_def)
    then show ?thesis using old a(1) by (simp add: indegree_def a(2))
  qed
  have "indegree ftl x = 0"
    using assms(1) a(1) by (auto simp: indegree_def edges_ok_def count_list_0_iff)
  then show "\<forall>y < ntds ftl'. td_wc (tds ftl' y) = indegree ftl' y"
    using assms(3) old new a(1,2) deg by (auto simp: less_Suc_eq kaapi_allocator_init_td_def)
  show "initials ftl' = initials ftl \<union> (if f = None then {x} else {})"
    using old new a(1,2) by (auto simp: initials_def less_Suc_eq kaapi_allocator_init_td_def)
qed

lemma push_successor_fields:
  "ntds (kaapi_tasklist_push_successor ftl x y) = ntds ftl"
  "readylist (kaapi_tasklist_push_successor ftl x y) = readylist ftl"
  "vers (kaapi_tasklist_push_successor ftl x y) = vers ftl"
  "vtab (kaapi_tasklist_push_successor ftl x y) = vtab ftl"
  "nvers (kaapi_tasklist_push_successor ftl x y) = nvers ftl"
  "rtl (kaapi_tasklist_push_successor ftl x y) = rtl ftl"
  "total_tasks (kaapi_tasklist_push_successor ftl x y) = total_tasks ftl"
  "td_list (tds (kaapi_tasklist_push_successor ftl x y) z) =
     td_list (tds ftl z) @ (if z = x then [y] else [])"
  "td_wc (tds (kaapi_tasklist_push_successor ftl x y) z) = td_wc (tds ftl z) + (if z = y then 1 else 0)"
  "td_fmt (tds (kaapi_tasklist_push_successor ftl x y) z) = td_fmt (tds ftl z)"
  "td_task (tds (kaapi_tasklist_push_successor ftl x y) z) = td_task (tds ftl z)"
  "td_counter (tds (kaapi_tasklist_push_successor ftl x y) z) = td_counter (tds ftl z)"
  "td_mark (tds (kaapi_tasklist_push_successor ftl x y) z) = td_mark (tds ftl z)"
  "td_bcast (tds (kaapi_tasklist_push_successor ftl x y) z) = td_bcast (tds ftl z)"
  by (simp_all add: kaapi_tasklist_push_successor_def upd_td_def)

lemma push_successor_graph:
  assumes g: "graph_inv ftl" and x: "x < ntds ftl" and y: "y < ntds ftl" and r: "rank ftl x < rank ftl y"
  shows "graph_inv (kaapi_tasklist_push_successor ftl x y)"
proof -
  let ?s = "kaapi_tasklist_push_successor ftl x y"
  have rk: "rank ?s z = rank ftl z" for z by (simp add: rank_def push_successor_fields)
  have "edges_ok ?s"
    unfolding edges_ok_def rk
  proof (intro allI impI ballI)
    fix w z assume w: "w < ntds ?s" and z: "z \<in> set (td_list (tds ?s w))"
    then consider "z \<in> set (td_list (tds ftl w))" | "w = x" "z = y"
      by (cases "w = x") (auto simp: push_successor_fields(8))
    then show "z < ntds ?s \<and> rank ftl w < rank ftl z"
      using g w y r by cases (simp_all add: graph_inv_def edges_ok_def push_successor_fields(1))
  qed
  moreover have "fresh_tds ?s" using g by (simp add: graph_inv_def fresh_tds_def push_successor_fields)
  moreover have "indegree ?s z = indegree ftl z + (if z = y then 1 else 0)" for z
  proof -
    have c: "count_list (td_list (tds ?s w)) z =
        count_list (td_list (tds ftl w)) z + (if w = x then if z = y then 1 else 0 else 0)" for w
      by (cases "w = x"; cases "z = y"; simp add: push_successor_fields(8))
    have "(\<Sum>w<ntds ftl. if w = x then if z = y then 1 else 0 else 0) = (if z = y then 1 else (0::nat))"
      using x by (simp add: sum.delta)
    then show ?thesis
      unfolding indegree_def push_successor_fields(1) c sum.distrib by simp
  qed
  moreover have "initials ?s = initials ftl" by (simp add: initials_def push_successor_fields)
  ultimately show ?thesis using g by (simp add: graph_inv_def push_successor_fields)
qed

lemma pushback_initial_graph:
  assumes "graph_inv ftl" "kaapi_tasklist_allocate_td ftl (initial_task b) None = (x, ftl')"
    "b \<in> {Taskmove_body, Taskalloc_body}"
  shows "graph_inv (kaapi_frame_tasklist_pushback_ready ftl' x)"
proof -
  have g: "edges_ok ftl" "fresh_tds ftl" "\<forall>y < ntds ftl. td_wc (tds ftl y) = indegree ftl y"
    "distinct (readylist ftl)" "set (readylist ftl) = initials ftl" "total_tasks ftl = ntds ftl"
    using assms(1) by (simp_all add: graph_inv_def)
  have t: "(None :: nat option) = None \<longleftrightarrow> t_body (initial_task b) \<in> {Taskmove_body, Taskalloc_body}"
    using assms(3) by (simp add: initial_task_def)
  note a = alloc_td_graph [OF g(1-3) assms(2) t] and f = alloc_td_fields [OF assms(2)]
  have "x \<notin> initials ftl" using f(1) by (simp add: initials_def)
  moreover have "graph_inv (kaapi_frame_tasklist_pushback_ready ftl' x) \<longleftrightarrow>
      edges_ok ftl' \<and> fresh_tds ftl' \<and> (\<forall>y < ntds ftl'. td_wc (tds ftl' y) = indegree ftl' y)
      \<and> distinct (x # readylist ftl') \<and> set (x # readylist ftl') = initials ftl' \<and> total_tasks ftl' = ntds ftl'"
    by (simp add: graph_defs kaapi_frame_tasklist_pushback_ready_def)
  ultimately show ?thesis using a f(2,3,9) g(4-6) by simp
qed

lemma alloc_user_graph:
  assumes "graph_inv ftl" "kaapi_tasklist_allocate_td ftl task (Some f) = (x, ftl')" "t_body task = User_body n"
  shows "graph_inv ftl'"
proof -
  have g: "edges_ok ftl" "fresh_tds ftl" "\<forall>y < ntds ftl. td_wc (tds ftl y) = indegree ftl y"
    "distinct (readylist ftl)" "set (readylist ftl) = initials ftl" "total_tasks ftl = ntds ftl"
    using assms(1) by (simp_all add: graph_inv_def)
  have t: "Some f = None \<longleftrightarrow> t_body task \<in> {Taskmove_body, Taskalloc_body}"
    using assms(3) by simp
  note a = alloc_td_graph [OF g(1-3) assms(2) t] and f = alloc_td_fields [OF assms(2)]
  show ?thesis using a f(2,3,9) g(4-6) by (simp add: graph_inv_def)
qed

section \<open>The contract of the table of versions\<close>

text \<open>\<open>vlook\<close> is the version an address has, 0 for none; below \<open>lim\<close> a version number can be stored.\<close>

locale version_table =
  fixes findv :: "'t findv"
    and vlook :: "'t \<Rightarrow> uint64 \<Rightarrow> nat"
    and vinv :: "'t \<Rightarrow> bool"
    and lim :: nat
  assumes findv_spec: "vinv t \<Longrightarrow> 0 < n \<Longrightarrow> n < lim \<Longrightarrow>
    \<exists>t'. findv t a n = Some (if vlook t a = 0 then n else vlook t a, t') \<and> vinv t' \<and>
      (\<forall>b. vlook t' b = (if b = a \<and> vlook t a = 0 then n else vlook t b))"

text \<open>When an access makes its task the last writer of the version.  The test for reading comes before
  the one for writing, so a mode with both bits that is not exactly read-write counts as a read.\<close>

definition registers_write :: "access_mode \<Rightarrow> bool" where
  "registers_write m \<longleftrightarrow> KAAPI_ACCESS_IS_READWRITE m \<or> (\<not> KAAPI_ACCESS_IS_READ m \<and> KAAPI_ACCESS_IS_WRITE m)"

definition is_access :: "access_mode \<Rightarrow> bool" where
  "is_access m \<longleftrightarrow> KAAPI_ACCESS_IS_READ m \<or> KAAPI_ACCESS_IS_WRITE m"

lemma readwrite_is: "KAAPI_ACCESS_IS_READWRITE m \<Longrightarrow> KAAPI_ACCESS_IS_READ m \<and> KAAPI_ACCESS_IS_WRITE m"
proof -
  assume "KAAPI_ACCESS_IS_READWRITE m"
  then have eq: "m AND 0x1F = 6"
    by (simp add: KAAPI_ACCESS_IS_READWRITE_def KAAPI_ACCESS_MODE_W_def KAAPI_ACCESS_MODE_R_def)
  have "(m AND 0x1F) AND 2 = m AND 2" "(m AND 0x1F) AND 4 = m AND 4"
    by (simp_all add: and.assoc)
  then show ?thesis
    using eq by (simp add: KAAPI_ACCESS_IS_READ_def KAAPI_ACCESS_IS_WRITE_def
        KAAPI_ACCESS_MODE_W_def KAAPI_ACCESS_MODE_R_def)
qed

text \<open>The accesses of a parameter list: parameters passed by value do not count.\<close>

definition param_mode :: "access_mode \<times> uint64 \<Rightarrow> access_mode" where
  "param_mode p = KAAPI_ACCESS_GET_MODE (fst p)"

definition shared :: "access_mode \<times> uint64 \<Rightarrow> bool" where
  "shared p \<longleftrightarrow> param_mode p \<noteq> KAAPI_ACCESS_MODE_V"

definition accesses :: "(access_mode \<times> uint64) list \<Rightarrow> uint64 \<Rightarrow> bool" where
  "accesses ps a \<longleftrightarrow> (\<exists>p \<in> set ps. shared p \<and> snd p = a)"

definition writes :: "(access_mode \<times> uint64) list \<Rightarrow> uint64 \<Rightarrow> bool" where
  "writes ps a \<longleftrightarrow> (\<exists>p \<in> set ps. shared p \<and> snd p = a \<and> registers_write (param_mode p))"

lemma accesses_Cons: "accesses (p # ps) a \<longleftrightarrow> (shared p \<and> snd p = a) \<or> accesses ps a"
  by (auto simp: accesses_def)

lemma writes_Cons: "writes (p # ps) a \<longleftrightarrow> (shared p \<and> snd p = a \<and> registers_write (param_mode p)) \<or> writes ps a"
  by (auto simp: writes_def)

lemma writes_accesses: "writes ps a \<Longrightarrow> accesses ps a"
  by (auto simp: writes_def accesses_def)

text \<open>The last task before the end of a list that writes an address, by its position.\<close>

definition last_writer :: "(access_mode \<times> uint64) list list \<Rightarrow> uint64 \<Rightarrow> nat option" where
  "last_writer ts a = foldl (\<lambda>acc (i, ps). if writes ps a then Some i else acc) None (enumerate 0 ts)"

lemma last_writer_Nil: "last_writer [] a = None"
  by (simp add: last_writer_def)

lemma last_writer_snoc:
  "last_writer (ts @ [ps]) a = (if writes ps a then Some (length ts) else last_writer ts a)"
  by (simp add: last_writer_def enumerate_append_eq)

lemma last_writer_Some:
  "last_writer ts a = Some i \<Longrightarrow> i < length ts \<and> writes (ts ! i) a"
  by (induction ts rule: rev_induct) (auto simp: last_writer_Nil last_writer_snoc nth_append split: if_splits)

lemma last_writer_eq:
  "i < length ts \<Longrightarrow> writes (ts ! i) a \<Longrightarrow> \<forall>k. i < k \<longrightarrow> k < length ts \<longrightarrow> \<not> writes (ts ! k) a \<Longrightarrow>
   last_writer ts a = Some i"
proof (induction ts rule: rev_induct)
  case (snoc ps ts)
  show ?case
  proof (cases "i = length ts")
    case True
    then show ?thesis using snoc.prems by (simp add: last_writer_snoc)
  next
    case False
    then have i: "i < length ts" using snoc.prems(1) by simp
    have "\<not> writes ps a" using snoc.prems(3) i by (metis length_append_singleton lessI nth_append_length)
    moreover have "last_writer ts a = Some i"
      using snoc.IH [OF i] snoc.prems(2,3) i by (auto simp: nth_append split: if_splits)
    ultimately show ?thesis by (simp add: last_writer_snoc)
  qed
qed simp

text \<open>What every step of the computation for task \<open>td\<close> keeps: descriptors and their links stay, links are only
  added to \<open>td\<close>, and new descriptors are initial ones.\<close>

definition grows :: "nat \<Rightarrow> ('t, 'r) kaapi_frame_tasklist \<Rightarrow> ('t, 'r) kaapi_frame_tasklist \<Rightarrow> bool" where
  "grows td s s' \<longleftrightarrow>
     ntds s \<le> ntds s' \<and> nvers s \<le> nvers s' \<and> rtl s' = rtl s
   \<and> (\<forall>x < ntds s. td_fmt (tds s' x) = td_fmt (tds s x) \<and>
        t_params (td_task (tds s' x)) = t_params (td_task (tds s x)) \<and>
        (x \<noteq> td \<longrightarrow> td_wc (tds s' x) = td_wc (tds s x)) \<and>
        (\<exists>ys. td_list (tds s' x) = td_list (tds s x) @ ys \<and> set ys \<subseteq> {td}))
   \<and> (\<forall>x. ntds s \<le> x \<longrightarrow> x < ntds s' \<longrightarrow> td_fmt (tds s' x) = None)"

lemma grows_refl: "grows td s s"
  by (auto simp: grows_def)

lemma grows_trans:
  assumes "grows td s s'" "grows td s' s''"
  shows "grows td s s''"
proof -
  have "\<exists>ys. td_list (tds s'' x) = td_list (tds s x) @ ys \<and> set ys \<subseteq> {td}" if x: "x < ntds s" for x
  proof -
    obtain ys where "td_list (tds s' x) = td_list (tds s x) @ ys" "set ys \<subseteq> {td}"
      using assms(1) x unfolding grows_def by blast
    moreover obtain zs where "td_list (tds s'' x) = td_list (tds s' x) @ zs" "set zs \<subseteq> {td}"
      using assms x unfolding grows_def by (meson order_less_le_trans)
    ultimately show ?thesis by (intro exI [of _ "ys @ zs"]) auto
  qed
  moreover have "td_fmt (tds s'' x) = None" if "ntds s \<le> x" "x < ntds s''" for x
    using assms that unfolding grows_def by (metis linorder_not_less)
  moreover have "td_fmt (tds s'' x) = td_fmt (tds s x)"
    "t_params (td_task (tds s'' x)) = t_params (td_task (tds s x))"
    "x \<noteq> td \<longrightarrow> td_wc (tds s'' x) = td_wc (tds s x)" if "x < ntds s" for x
    using assms that unfolding grows_def by (metis order_less_le_trans)+
  ultimately show ?thesis using assms unfolding grows_def by auto
qed

lemma grows_app:
  "grows td s s' \<Longrightarrow> x < ntds s \<Longrightarrow> \<exists>ys. td_list (tds s' x) = td_list (tds s x) @ ys \<and> set ys \<subseteq> {td}"
  unfolding grows_def by blast

lemma grows_list: "grows td s s' \<Longrightarrow> x < ntds s \<Longrightarrow> set (td_list (tds s x)) \<subseteq> set (td_list (tds s' x))"
  unfolding grows_def by (metis Un_upper1 set_append)

lemma grows_fmt: "grows td s s' \<Longrightarrow> x < ntds s \<Longrightarrow> td_fmt (tds s' x) = td_fmt (tds s x)"
  unfolding grows_def by blast

context version_table begin

definition look :: "('t, 'r) kaapi_frame_tasklist \<Rightarrow> uint64 \<Rightarrow> nat" where
  "look s a = vlook (vtab s) a"

definition writer :: "('t, 'r) kaapi_frame_tasklist \<Rightarrow> uint64 \<Rightarrow> nat" where
  "writer s a = v_writer (vers s (look s a))"

definition ver_inv :: "('t, 'r) kaapi_frame_tasklist \<Rightarrow> bool" where
  "ver_inv s \<longleftrightarrow> vinv (vtab s) \<and> 0 < nvers s \<and> (\<forall>a. look s a < nvers s)
   \<and> (\<forall>a b. look s a = look s b \<longrightarrow> look s a \<noteq> 0 \<longrightarrow> a = b)
   \<and> (\<forall>a. look s a \<noteq> 0 \<longrightarrow> v_last_mode (vers s (look s a)) \<noteq> 0 \<and> writer s a < ntds s)"

text \<open>The version of an address, new with its initial descriptor when the address had none.\<close>

lemma version_ready:
  assumes g: "graph_inv s" and vi: "ver_inv s" and l: "nvers s < lim" and m: "is_access m"
  shows "\<exists>s'. do { (v, ftl) \<leftarrow> kaapi_version_findinsert findv s a;
                   ftl \<leftarrow> (if v_last_mode (vers ftl v) = KAAPI_ACCESS_MODE_VOID
                          then kaapi_version_add_initialaccess ftl v m else Some ftl);
                   Some (v, ftl) } = Some (look s' a, s')
    \<and> graph_inv s' \<and> ver_inv s' \<and> grows td s s' \<and> look s' a \<noteq> 0 \<and> nvers s' \<le> Suc (nvers s)
    \<and> (if look s a = 0 then writer s' a = ntds s \<and> ntds s' = Suc (ntds s)
       else writer s' a = writer s a \<and> ntds s' = ntds s)
    \<and> (\<forall>b. b \<noteq> a \<longrightarrow> look s' b = look s b \<and> (look s b \<noteq> 0 \<longrightarrow> writer s' b = writer s b))
    \<and> (\<forall>x < ntds s. td_list (tds s' x) = td_list (tds s x))"
proof -
  have n: "0 < nvers s" and vt: "vinv (vtab s)" using vi by (auto simp: ver_inv_def)
  obtain t' where t': "findv (vtab s) a (nvers s) = Some (if look s a = 0 then nvers s else look s a, t')"
    "vinv t'" "\<And>b. vlook t' b = (if b = a \<and> look s a = 0 then nvers s else look s b)"
    using findv_spec [OF vt n l, of a] unfolding look_def by blast
  show ?thesis
  proof (cases "look s a = 0")
    case False
    let ?s = "s\<lparr>vtab := t'\<rparr>"
    have "look s a \<noteq> nvers s" using vi unfolding ver_inv_def by (metis less_irrefl)
    then have f: "kaapi_version_findinsert findv s a = Some (look s a, ?s)"
      using t'(1) False by (simp add: kaapi_version_findinsert_def)
    have lk: "look ?s b = look s b" and wr: "writer ?s b = writer s b" for b
      using t'(3) False by (simp_all add: look_def writer_def)
    have "v_last_mode (vers s (look s a)) \<noteq> 0" using vi False unfolding ver_inv_def by blast
    moreover have "ver_inv ?s" using vi t'(2) lk wr by (simp add: ver_inv_def)
    moreover have "grows td s ?s" by (auto simp: grows_def)
    ultimately show ?thesis
      using f g False lk wr by (intro exI [of _ ?s]) (simp add: KAAPI_ACCESS_MODE_VOID_def graph_frame)
  next
    case True
    let ?n = "nvers s"
    let ?s1 = "upd_ver ?n (\<lambda>x. x\<lparr>v_last_mode := KAAPI_ACCESS_MODE_VOID\<rparr>) (s\<lparr>vtab := t', nvers := Suc ?n\<rparr>)"
    let ?s2 = "upd_ver ?n (\<lambda>v. v\<lparr>v_handle := nhandles s\<rparr>) (?s1\<lparr>nhandles := Suc (nhandles s)\<rparr>)"
    define b where "b = (if KAAPI_ACCESS_IS_READ m then Taskmove_body else Taskalloc_body)"
    have b: "b \<in> {Taskmove_body, Taskalloc_body}" by (simp add: b_def)
    obtain x s3 where a3: "kaapi_tasklist_allocate_td ?s2 (initial_task b) None = (x, s3)" by fastforce
    define s' where "s' = upd_ver ?n (\<lambda>v. v\<lparr>v_last_mode := KAAPI_ACCESS_MODE_W\<rparr>)
      (kaapi_frame_tasklist_pushback_ready (upd_ver ?n (\<lambda>v. v\<lparr>v_writer := x\<rparr>) s3) x)"
    have f: "kaapi_version_findinsert findv s a = Some (?n, ?s1)"
      using t'(1) True by (simp add: kaapi_version_findinsert_def)
    have l1: "v_last_mode (vers ?s1 ?n) = KAAPI_ACCESS_MODE_VOID" by (simp add: upd_ver_def)
    have i: "kaapi_version_add_initialaccess ?s1 ?n m = Some s'"
      using m a3 unfolding s'_def
      by (auto simp: kaapi_version_add_initialaccess_def b_def is_access_def Let_def upd_ver_def split: if_splits)
    note af = alloc_td_fields [OF a3]
    have F: "vers s' u = (if u = ?n then (vers s' ?n) else vers s u)" "v_writer (vers s' ?n) = x"
      "v_last_mode (vers s' ?n) = KAAPI_ACCESS_MODE_W" "vtab s' = t'" "nvers s' = Suc ?n"
      "tds s' = tds s3" "ntds s' = Suc (ntds s)" "rtl s' = rtl s" "x = ntds s" for u
      using af by (auto simp: s'_def upd_ver_def kaapi_frame_tasklist_pushback_ready_def)
    have "graph_inv ?s2" using g by (simp add: graph_frame)
    from pushback_initial_graph [OF this a3 b]
    have "graph_inv (kaapi_frame_tasklist_pushback_ready (upd_ver ?n (\<lambda>v. v\<lparr>v_writer := x\<rparr>) s3) x)"
      by (simp add: pushback_upd_ver graph_frame)
    then have gr: "graph_inv s'" by (simp add: s'_def graph_frame)
    have old: "tds s3 y = tds s y" if "y < ntds s" for y
      using that af(8) F(9) by (simp add: upd_ver_def)
    have new: "td_fmt (tds s3 (ntds s)) = None"
      using af(8) F(9) by (simp add: kaapi_allocator_init_td_def)
    have gs: "grows td s s'"
      unfolding grows_def using old new F(5-8) by (auto simp: less_Suc_eq)
    have lk: "look s' b = (if b = a then ?n else look s b)" for b
      using t'(3) [of b] True F(4) by (simp add: look_def)
    have lb: "look s b < ?n" for b using vi by (simp add: ver_inv_def)
    have wr: "writer s' b = (if b = a then ntds s else writer s b)" for b
      using F(1) [of "look s b"] F(2,9) lk [of b] lb [of b] by (simp add: writer_def)
    have vi': "ver_inv s'"
      unfolding ver_inv_def
    proof (intro conjI allI impI)
      show "vinv (vtab s')" "0 < nvers s'" using t'(2) F(4,5) by simp_all
      show "look s' c < nvers s'" for c using lb [of c] by (simp add: lk F(5))
      show "c = d" if "look s' c = look s' d" "look s' c \<noteq> 0" for c d
        using that vi lb [of c] lb [of d] unfolding lk ver_inv_def by (metis less_irrefl)
      show "v_last_mode (vers s' (look s' c)) \<noteq> 0" if "look s' c \<noteq> 0" for c
        using that vi lb [of c] F(1) [of "look s c"] F(3) unfolding lk ver_inv_def KAAPI_ACCESS_MODE_W_def
        by (auto split: if_splits)
      show "writer s' c < ntds s'" if "look s' c \<noteq> 0" for c
        using that vi unfolding wr lk ver_inv_def F(7) by (auto split: if_splits intro: less_SucI)
    qed
    have "do { (v, ftl) \<leftarrow> kaapi_version_findinsert findv s a;
               ftl \<leftarrow> (if v_last_mode (vers ftl v) = KAAPI_ACCESS_MODE_VOID
                      then kaapi_version_add_initialaccess ftl v m else Some ftl);
               Some (v, ftl) } = Some (look s' a, s')"
      using f l1 i lk by simp
    moreover have "\<forall>x < ntds s. td_list (tds s' x) = td_list (tds s x)" using old F(6) by simp
    ultimately show ?thesis using True gr vi' gs lk wr F(5,7) n by (intro exI [of _ s']) simp
  qed
qed

lemma ver_inv_upd_td: "ver_inv (upd_td x f s) = ver_inv s"
  by (simp add: ver_inv_def look_def writer_def upd_td_def)

text \<open>The three branches of \<^verbatim>\<open>kaapi_thread_computeready_access\<close> have one effect: a link from the last writer, unless
  that is the task itself, and the task as last writer when the mode registers a write.\<close>

definition link_effect ::
  "('t, 'r) kaapi_frame_tasklist \<Rightarrow> nat \<Rightarrow> nat \<Rightarrow> access_mode \<Rightarrow> ('t, 'r) kaapi_frame_tasklist" where
  "link_effect s v td m =
     (let w = v_writer (vers s v);
          s = (if w \<noteq> td then kaapi_tasklist_push_successor s w td else s)
      in if registers_write m then upd_ver v (\<lambda>x. x\<lparr>v_writer := td, v_last_mode := m\<rparr>) s else s)"

lemma computeready_effect:
  assumes f: "fresh_tds s" and w: "v_writer (vers s v) < ntds s" and u: "td_fmt (tds s td) \<noteq> None" and m: "is_access m"
  shows "kaapi_thread_computeready_access s v td m = (Some (v_handle (vers s v)), link_effect s v td m)"
proof -
  have "t_body (td_task (tds s (v_writer (vers s v)))) = Taskalloc_body \<Longrightarrow> v_writer (vers s v) \<noteq> td"
    using f w u by (auto simp: fresh_tds_def)
  then show ?thesis
    using m readwrite_is [of m]
    by (auto simp: kaapi_thread_computeready_access_def link_effect_def registers_write_def is_access_def Let_def
        upd_ver_def kaapi_tasklist_push_successor_def upd_td_def)
qed

lemma link_effect_spec:
  assumes g: "graph_inv s" and vi: "ver_inv s" and v: "v = look s a" "v \<noteq> 0" and td: "td < ntds s"
    and r: "writer s a \<noteq> td \<Longrightarrow> rank s (writer s a) < rank s td" and m: "registers_write m \<Longrightarrow> m \<noteq> 0"
    and s': "s' = link_effect s v td m"
  shows "graph_inv s'" "ver_inv s'" "grows td s s'" "ntds s' = ntds s" "nvers s' = nvers s"
    "look s' b = look s b"
    "look s b \<noteq> 0 \<Longrightarrow> writer s' b = (if b = a \<and> registers_write m then td else writer s b)"
    "writer s a \<noteq> td \<Longrightarrow> td \<in> set (td_list (tds s' (writer s a)))"
    "td \<in> set (td_list (tds s' x)) \<Longrightarrow> td \<in> set (td_list (tds s x)) \<or> x = writer s a"
proof -
  define s1 where "s1 = (if writer s a \<noteq> td then kaapi_tasklist_push_successor s (writer s a) td else s)"
  have w: "v_writer (vers s v) = writer s a" using v by (simp add: writer_def)
  have wn: "writer s a < ntds s" using vi v by (simp add: ver_inv_def)
  have s1: "s' = (if registers_write m then upd_ver v (\<lambda>x. x\<lparr>v_writer := td, v_last_mode := m\<rparr>) s1 else s1)"
    by (simp add: s' link_effect_def w s1_def Let_def)
  have F: "ntds s1 = ntds s" "nvers s1 = nvers s" "vers s1 = vers s" "vtab s1 = vtab s" "rtl s1 = rtl s"
    "td_fmt (tds s1 x) = td_fmt (tds s x)"
    "td_list (tds s1 x) = td_list (tds s x) @ (if writer s a \<noteq> td \<and> x = writer s a then [td] else [])"
    "td_task (tds s1 x) = td_task (tds s x)" "x \<noteq> td \<Longrightarrow> td_wc (tds s1 x) = td_wc (tds s x)" for x
    by (simp_all add: s1_def push_successor_fields)
  have "graph_inv s1"
    using g push_successor_graph [OF g wn td r] by (simp add: s1_def)
  then show "graph_inv s'" by (simp add: s1 graph_frame)
  have T: "tds s' = tds s1" "ntds s' = ntds s" "nvers s' = nvers s" "vtab s' = vtab s" "rtl s' = rtl s"
    by (simp_all add: s1 upd_ver_def F)
  then show "ntds s' = ntds s" "nvers s' = nvers s" "look s' b = look s b" for b
    by (simp_all add: look_def)
  show "grows td s s'"
    unfolding grows_def T F(6-8) using F(9) by auto
  show "writer s a \<noteq> td \<Longrightarrow> td \<in> set (td_list (tds s' (writer s a)))"
    by (simp add: T F(7))
  have "td_list (tds s' x) = td_list (tds s x) @ (if writer s a \<noteq> td \<and> x = writer s a then [td] else [])"
    by (simp only: T F(7))
  then show "td \<in> set (td_list (tds s' x)) \<Longrightarrow> td \<in> set (td_list (tds s x)) \<or> x = writer s a"
    by (cases "x = writer s a") simp_all
  have lk: "look s' b = look s b" for b by (simp add: look_def T)
  have inj: "look s b = look s a \<Longrightarrow> b = a" for b using vi v unfolding ver_inv_def by metis
  have wr: "writer s' b = (if b = a \<and> registers_write m then td else writer s b)" for b
    using inj [of b] v F(3) lk [of b] by (auto simp: writer_def s1 upd_ver_def)
  then show "writer s' b = (if b = a \<and> registers_write m then td else writer s b)" by simp
  have lm: "v_last_mode (vers s' (look s' b)) \<noteq> 0" if "look s b \<noteq> 0" for b
    using vi that m lk [of b] F(3) by (auto simp: s1 upd_ver_def ver_inv_def)
  show "ver_inv s'"
    using vi lk wr lm td T by (simp add: ver_inv_def)
qed

text \<open>While task \<open>td\<close> is processed it is the last descriptor that has a format.\<close>

definition current :: "nat \<Rightarrow> ('t, 'r) kaapi_frame_tasklist \<Rightarrow> bool" where
  "current td s \<longleftrightarrow> td < ntds s \<and> td_fmt (tds s td) \<noteq> None \<and> (\<forall>x < ntds s. td_fmt (tds s x) \<noteq> None \<longrightarrow> x \<le> td)"

lemma current_grows: "current td s \<Longrightarrow> grows td s s' \<Longrightarrow> current td s'"
  unfolding current_def grows_def by (metis linorder_not_less order_less_le_trans)

lemma current_rank: "current td s \<Longrightarrow> x < ntds s \<Longrightarrow> x \<noteq> td \<Longrightarrow> rank s x < rank s td"
  unfolding current_def rank_def by (auto simp: le_neq_implies_less)

lemma computedep_param_V: "\<not> shared p \<Longrightarrow> computedep_param findv td i p s = Some s"
  by (simp add: shared_def param_mode_def computedep_param_def)

lemma computedep_param_spec:
  assumes g: "graph_inv s" and vi: "ver_inv s" and c: "current td s" and l: "nvers s < lim"
    and sh: "shared p" and m: "is_access (param_mode p)"
  shows "\<exists>s'. computedep_param findv td i p s = Some s' \<and> graph_inv s' \<and> ver_inv s' \<and> grows td s s'
    \<and> nvers s' \<le> Suc (nvers s) \<and> look s' (snd p) \<noteq> 0
    \<and> (let w = (if look s (snd p) = 0 then ntds s else writer s (snd p))
       in w < ntds s' \<and> (w \<noteq> td \<longrightarrow> td \<in> set (td_list (tds s' w))) \<and>
          writer s' (snd p) = (if registers_write (param_mode p) then td else w))
    \<and> (\<forall>b. b \<noteq> snd p \<longrightarrow> look s' b = look s b \<and> (look s b \<noteq> 0 \<longrightarrow> writer s' b = writer s b))
    \<and> (\<forall>x < ntds s. td \<in> set (td_list (tds s' x)) \<longrightarrow>
         td \<in> set (td_list (tds s x)) \<or> (look s (snd p) \<noteq> 0 \<and> x = writer s (snd p)))"
proof -
  let ?a = "snd p" and ?m = "param_mode p"
  define w where "w = (if look s ?a = 0 then ntds s else writer s ?a)"
  obtain s1 where s1: "do { (v, ftl) \<leftarrow> kaapi_version_findinsert findv s ?a;
        ftl \<leftarrow> (if v_last_mode (vers ftl v) = KAAPI_ACCESS_MODE_VOID
               then kaapi_version_add_initialaccess ftl v ?m else Some ftl);
        Some (v, ftl) } = Some (look s1 ?a, s1)"
    "graph_inv s1" "ver_inv s1" "grows td s s1" "look s1 ?a \<noteq> 0" "nvers s1 \<le> Suc (nvers s)"
    "writer s1 ?a = w" "\<forall>b. b \<noteq> ?a \<longrightarrow> look s1 b = look s b \<and> (look s b \<noteq> 0 \<longrightarrow> writer s1 b = writer s b)"
    "\<forall>x < ntds s. td_list (tds s1 x) = td_list (tds s x)"
    using version_ready [OF g vi l m, of ?a td] unfolding w_def by (metis (no_types, lifting))
  have c1: "current td s1" using current_grows [OF c s1(4)] .
  have wn: "w < ntds s1" using s1(3,5,7) by (auto simp: ver_inv_def)
  have rk: "writer s1 ?a \<noteq> td \<Longrightarrow> rank s1 (writer s1 ?a) < rank s1 td"
    using current_rank [OF c1 wn] s1(7) by simp
  have m0: "registers_write ?m \<Longrightarrow> ?m \<noteq> 0"
    using m by (auto simp: is_access_def KAAPI_ACCESS_IS_READ_def KAAPI_ACCESS_IS_WRITE_def)
  define s2 where "s2 = link_effect s1 (look s1 ?a) td ?m"
  have td: "td < ntds s1" using c1 by (simp add: current_def)
  note e = link_effect_spec [OF s1(2,3) refl s1(5) td rk m0 s2_def]
  have rdy: "kaapi_thread_computeready_access s1 (look s1 ?a) td ?m = (Some (v_handle (vers s1 (look s1 ?a))), s2)"
    unfolding s2_def using s1(2,7) wn c1 m
    by (intro computeready_effect) (auto simp: graph_inv_def current_def writer_def)
  define s' where "s' = upd_td td
    (\<lambda>d. d\<lparr>td_task := (td_task d)\<lparr>t_handles := (t_handles (td_task d))[i := Some (v_handle (vers s1 (look s1 ?a)))]\<rparr>\<rparr>) s2"
  have run: "computedep_param findv td i p s = Some s'"
    using s1(1) rdy sh
    by (auto simp: computedep_param_def shared_def param_mode_def [symmetric] s'_def Let_def
        split: Option.bind_splits prod.splits)
  have U: "td_list (tds s' x) = td_list (tds s2 x)" "td_fmt (tds s' x) = td_fmt (tds s2 x)"
    "look s' b = look s2 b" "writer s' b = writer s2 b" "ntds s' = ntds s2" "nvers s' = nvers s2" "rtl s' = rtl s2"
    "t_params (td_task (tds s' x)) = t_params (td_task (tds s2 x))" "td_wc (tds s' x) = td_wc (tds s2 x)" for x b
    by (simp_all add: s'_def upd_td_def look_def writer_def)
  have "graph_inv s'" unfolding s'_def using e(1) by (subst graph_upd_td) auto
  moreover have "ver_inv s'" unfolding s'_def using e(2) by (simp add: ver_inv_upd_td)
  moreover have "grows td s s'"
  proof -
    have "grows td s2 s'" unfolding grows_def U by auto
    then show ?thesis using grows_trans s1(4) e(3) by blast
  qed
  moreover have "w \<noteq> td \<longrightarrow> td \<in> set (td_list (tds s' w))" using e(8) s1(7) U(1) by simp
  moreover have "writer s' ?a = (if registers_write ?m then td else w)"
    using e(7) [of ?a] s1(5,7) U(4) by simp
  moreover have "\<forall>b. b \<noteq> ?a \<longrightarrow> look s' b = look s b \<and> (look s b \<noteq> 0 \<longrightarrow> writer s' b = writer s b)"
    using e(6,7) s1(8) U(3,4) by simp
  moreover have "w < ntds s'" using wn e(4) U(5) by simp
  moreover have "td \<in> set (td_list (tds s x)) \<or> (look s ?a \<noteq> 0 \<and> x = writer s ?a)"
    if "x < ntds s" "td \<in> set (td_list (tds s' x))" for x
    using e(9) [of x] that s1(7,9) U(1) unfolding w_def by (auto split: if_splits)
  moreover have "nvers s' \<le> Suc (nvers s)" "look s' ?a \<noteq> 0" using s1(5,6) e(5,6) U(3,6) by simp_all
  ultimately show ?thesis using run unfolding w_def [symmetric] Let_def by blast
qed

text \<open>All parameters of a task.\<close>

text \<open>What the parameters do to the version of one address: nothing when the task does not access it; otherwise the writer
  before the task gets a link to it, and a task that writes is the writer after it.\<close>

definition version_post ::
  "(access_mode \<times> uint64) list \<Rightarrow> nat \<Rightarrow> ('t, 'r) kaapi_frame_tasklist \<Rightarrow> ('t, 'r) kaapi_frame_tasklist \<Rightarrow>
   uint64 \<Rightarrow> bool" where
  "version_post ps td s s' a \<longleftrightarrow>
     (\<not> accesses ps a \<longrightarrow> look s' a = look s a \<and> (look s a \<noteq> 0 \<longrightarrow> writer s' a = writer s a))
   \<and> (accesses ps a \<longrightarrow> look s' a \<noteq> 0)
   \<and> (accesses ps a \<longrightarrow> look s a \<noteq> 0 \<longrightarrow> writer s a \<noteq> td \<longrightarrow> td \<in> set (td_list (tds s' (writer s a))))
   \<and> (accesses ps a \<longrightarrow> look s a = 0 \<longrightarrow> (\<exists>w \<in> initials s'. td \<in> set (td_list (tds s' w))))
   \<and> (writes ps a \<longrightarrow> writer s' a = td)
   \<and> (accesses ps a \<longrightarrow> \<not> writes ps a \<longrightarrow>
        (if look s a = 0 then writer s' a \<in> initials s' else writer s' a = writer s a))"

text \<open>Only the last writers of the addresses a task accesses get a link to it.\<close>

definition links_only ::
  "(access_mode \<times> uint64) list \<Rightarrow> nat \<Rightarrow> ('t, 'r) kaapi_frame_tasklist \<Rightarrow> ('t, 'r) kaapi_frame_tasklist \<Rightarrow> bool" where
  "links_only ps td s s' \<longleftrightarrow>
     (\<forall>x < ntds s. x \<noteq> td \<longrightarrow> td \<in> set (td_list (tds s' x)) \<longrightarrow>
        td \<in> set (td_list (tds s x)) \<or> (\<exists>a. accesses ps a \<and> look s a \<noteq> 0 \<and> x = writer s a))"

lemma links_only_Cons:
  assumes sh: "shared p" and n: "ntds s \<le> ntds s1"
    and w: "writer s1 (snd p) = (if registers_write (param_mode p) then td else w)"
      "w = (if look s (snd p) = 0 then ntds s else writer s (snd p))"
    and o1: "\<forall>b. b \<noteq> snd p \<longrightarrow> look s1 b = look s b \<and> (look s b \<noteq> 0 \<longrightarrow> writer s1 b = writer s b)"
    and l1: "\<forall>x < ntds s. td \<in> set (td_list (tds s1 x)) \<longrightarrow>
         td \<in> set (td_list (tds s x)) \<or> (look s (snd p) \<noteq> 0 \<and> x = writer s (snd p))"
    and l2: "links_only ps td s1 s'"
  shows "links_only (p # ps) td s s'"
  unfolding links_only_def
proof (intro allI impI)
  fix x assume x: "x < ntds s" "x \<noteq> td" and m: "td \<in> set (td_list (tds s' x))"
  consider "td \<in> set (td_list (tds s1 x))" | a where "accesses ps a" "look s1 a \<noteq> 0" "x = writer s1 a"
    using l2 x m n unfolding links_only_def by (meson order_less_le_trans)
  then show "td \<in> set (td_list (tds s x)) \<or> (\<exists>a. accesses (p # ps) a \<and> look s a \<noteq> 0 \<and> x = writer s a)"
  proof cases
    case 1
    then show ?thesis using l1 x(1) sh by (auto simp: accesses_Cons)
  next
    case 2
    show ?thesis
    proof (cases "a = snd p")
      case True
      then have "look s a \<noteq> 0" "x = writer s a" using 2 w x by (auto split: if_splits)
      then show ?thesis using 2(1) by (auto simp: accesses_Cons)
    next
      case False
      then show ?thesis using 2 o1 by (metis accesses_Cons)
    qed
  qed
qed

lemma version_post_Nil: "version_post [] td s s a"
  by (simp add: version_post_def accesses_def writes_def)

lemma initials_grows: "grows td s s' \<Longrightarrow> initials s \<subseteq> initials s'"
  unfolding initials_def using grows_fmt by (fastforce simp: grows_def)

lemma version_post_Cons:
  assumes c: "current td s" and sh: "shared p" and g1: "grows td s s1" and g2: "grows td s1 s'"
    and a1: "look s1 (snd p) \<noteq> 0"
    and w1: "w = (if look s (snd p) = 0 then ntds s else writer s (snd p))" "w < ntds s1"
      "w \<noteq> td \<longrightarrow> td \<in> set (td_list (tds s1 w))"
      "writer s1 (snd p) = (if registers_write (param_mode p) then td else w)"
    and o1: "\<forall>b. b \<noteq> snd p \<longrightarrow> look s1 b = look s b \<and> (look s b \<noteq> 0 \<longrightarrow> writer s1 b = writer s b)"
    and vi: "ver_inv s"
    and p2: "version_post ps td s1 s' a"
  shows "version_post (p # ps) td s s' a"
proof (cases "a = snd p")
  case False
  then have "accesses (p # ps) a = accesses ps a" "writes (p # ps) a = writes ps a"
    "look s1 a = look s a" "look s a \<noteq> 0 \<Longrightarrow> writer s1 a = writer s a"
    using o1 by (auto simp: accesses_Cons writes_Cons)
  then show ?thesis using p2 unfolding version_post_def by (cases "look s a = 0") auto
next
  case True
  have td: "td < ntds s" using c by (simp add: current_def)
  have w1': "w \<noteq> td \<Longrightarrow> td \<in> set (td_list (tds s' w))" using grows_list [OF g2 w1(2)] w1(3) by blast
  have keep: "writes ps a \<Longrightarrow> writer s' a = td" "\<not> writes ps a \<Longrightarrow> writer s' a = writer s1 a"
    using p2 a1 True unfolding version_post_def by (cases "accesses ps a"; simp)+
  have "look s' a \<noteq> 0" using p2 a1 True unfolding version_post_def by (cases "accesses ps a"; simp)
  have init: "w \<in> initials s'" if z: "look s a = 0"
  proof -
    have "w = ntds s" using w1(1) z True by simp
    then have "w \<in> initials s1" using g1 w1(2) by (auto simp: grows_def initials_def)
    then show ?thesis using initials_grows [OF g2] by blast
  qed
  have "w \<noteq> td" if "look s a = 0" using that w1(1) True td by simp
  then show ?thesis
    using keep w1' w1(1,4) True sh init \<open>look s' a \<noteq> 0\<close>
    by (auto simp: version_post_def accesses_Cons writes_Cons split: if_splits)
qed

lemma computedep_params_spec:
  assumes "graph_inv s" and "ver_inv s" and "current td s" and "nvers s + length ps \<le> lim"
    and "\<forall>p \<in> set ps. shared p \<longrightarrow> is_access (param_mode p)"
  shows "\<exists>s'. computedep_params findv td i ps s = Some s' \<and> graph_inv s' \<and> ver_inv s' \<and> grows td s s'
    \<and> nvers s' \<le> nvers s + length ps \<and> (\<forall>a. version_post ps td s s' a) \<and> links_only ps td s s'"
  using assms
proof (induction ps arbitrary: s i)
  case Nil
  have "\<forall>a. version_post [] td s s a" using version_post_Nil by blast
  then show ?case using Nil by (auto simp: grows_refl links_only_def)
next
  case (Cons p ps)
  show ?case
  proof (cases "shared p")
    case False
    have "version_post (p # ps) td s s' a" if "version_post ps td s s' a" for s' a
      using that False by (simp add: version_post_def accesses_Cons writes_Cons)
    moreover have "links_only (p # ps) td s s'" if "links_only ps td s s'" for s'
      using that False by (simp add: links_only_def accesses_Cons)
    moreover have "nvers s + length ps \<le> lim" "\<forall>p \<in> set ps. shared p \<longrightarrow> is_access (param_mode p)"
      using Cons.prems(4,5) by simp_all
    then obtain s' where "computedep_params findv td (Suc i) ps s = Some s'" "graph_inv s'" "ver_inv s'"
      "grows td s s'" "nvers s' \<le> nvers s + length ps" "\<forall>a. version_post ps td s s' a"
      "links_only ps td s s'"
      using Cons.IH [OF Cons.prems(1-3)] by blast
    ultimately show ?thesis by (intro exI [of _ s']) (simp add: computedep_param_V [OF False] le_SucI)
  next
    case True
    define w where "w = (if look s (snd p) = 0 then ntds s else writer s (snd p))"
    have l: "nvers s < lim" "is_access (param_mode p)" using Cons.prems(4,5) True by auto
    obtain s1 where s1: "computedep_param findv td i p s = Some s1" "graph_inv s1" "ver_inv s1" "grows td s s1"
      "nvers s1 \<le> Suc (nvers s)" "look s1 (snd p) \<noteq> 0" "w < ntds s1"
      "w \<noteq> td \<longrightarrow> td \<in> set (td_list (tds s1 w))"
      "writer s1 (snd p) = (if registers_write (param_mode p) then td else w)"
      "\<forall>b. b \<noteq> snd p \<longrightarrow> look s1 b = look s b \<and> (look s b \<noteq> 0 \<longrightarrow> writer s1 b = writer s b)"
      "\<forall>x < ntds s. td \<in> set (td_list (tds s1 x)) \<longrightarrow>
         td \<in> set (td_list (tds s x)) \<or> (look s (snd p) \<noteq> 0 \<and> x = writer s (snd p))"
      using computedep_param_spec [OF Cons.prems(1-3) l(1) True l(2), of i] unfolding w_def [symmetric] Let_def by blast
    have c1: "current td s1" using current_grows [OF Cons.prems(3) s1(4)] .
    have l1: "nvers s1 + length ps \<le> lim" using s1(5) Cons.prems(4) by simp
    obtain s' where s': "computedep_params findv td (Suc i) ps s1 = Some s'" "graph_inv s'" "ver_inv s'"
      "grows td s1 s'" "nvers s' \<le> nvers s1 + length ps" "\<forall>a. version_post ps td s1 s' a"
      "links_only ps td s1 s'"
      using Cons.IH [OF s1(2,3) c1 l1, of "Suc i"] Cons.prems(5) by auto
    have "\<forall>a. version_post (p # ps) td s s' a"
      using version_post_Cons [OF Cons.prems(3) True s1(4) s'(4) s1(6) w_def s1(7-10) Cons.prems(2)] s'(6) by blast
    moreover have "links_only (p # ps) td s s'"
      using links_only_Cons [OF True _ s1(9) w_def s1(10,11) s'(7)] s1(4) by (simp add: grows_def)
    ultimately show ?thesis
      using s1 s' grows_trans [OF s1(4) s'(4)] by auto
  qed
qed

lemma computedep_params_V: "\<forall>p \<in> set ps. \<not> shared p \<Longrightarrow> computedep_params findv td i ps s = Some s"
  by (induction ps arbitrary: i) (auto simp: computedep_param_V)

subsection \<open>One task\<close>

text \<open>The new descriptor of a task: it is last, has no links yet, and is linked from others exactly when the task has an
  access, so the call for \<^verbatim>\<open>wc == 0\<close> activates nothing.\<close>

lemma computedep_task_spec:
  assumes g: "graph_inv s" and vi: "ver_inv s" and l: "nvers s + length (t_params task) \<le> lim"
    and b: "t_body task = User_body n" and f: "resolve (t_body task) = Some fmt"
    and m: "\<forall>p \<in> set (t_params task). shared p \<longrightarrow> is_access (param_mode p)"
  shows "\<exists>s1 s'. kaapi_thread_computedep_task resolve findv pushready s task = Some (OK, s')
    \<and> kaapi_tasklist_allocate_td s task (Some fmt) = (ntds s, s1)
    \<and> graph_inv s' \<and> ver_inv s' \<and> grows (ntds s) s1 s' \<and> nvers s' \<le> nvers s + length (t_params task)
    \<and> (\<forall>a. version_post (t_params task) (ntds s) s1 s' a) \<and> links_only (t_params task) (ntds s) s1 s'
    \<and> (td_wc (tds s' (ntds s)) = 0 \<longleftrightarrow> (\<forall>a. \<not> accesses (t_params task) a))"
proof -
  let ?td = "ntds s"
  obtain s1 where a: "kaapi_tasklist_allocate_td s task (Some fmt) = (?td, s1)"
    by (simp add: kaapi_tasklist_allocate_td_def)
  note af = alloc_td_fields [OF a]
  have g1: "graph_inv s1" using alloc_user_graph [OF g a b] .
  have V: "look s1 c = look s c" "writer s1 c = writer s c" for c
    using af(4,5) by (simp_all add: look_def writer_def)
  have v1: "ver_inv s1" using vi af(2,4-6) by (auto simp: ver_inv_def V intro: less_SucI)
  have c1: "current ?td s1"
    using af(2,8) by (auto simp: current_def kaapi_allocator_init_td_def)
  have l1: "nvers s1 + length (t_params task) \<le> lim" using l af(6) by simp
  obtain s2 where s2: "computedep_params findv ?td 0 (t_params task) s1 = Some s2" "graph_inv s2" "ver_inv s2"
    "grows ?td s1 s2" "nvers s2 \<le> nvers s1 + length (t_params task)" "\<forall>a. version_post (t_params task) ?td s1 s2 a"
    "links_only (t_params task) ?td s1 s2"
    using computedep_params_spec [OF g1 v1 c1 l1 m, of 0] by blast
  have c2: "current ?td s2" using current_grows [OF c1 s2(4)] .
  then have tn: "?td < ntds s2" "rank s2 ?td = Suc ?td" by (auto simp: current_def rank_def)
  define s3 where "s3 = upd_td ?td (\<lambda>d. d\<lparr>td_fmt := Some fmt, td_priority := t_priority task\<rparr>) s2"
  have "td_fmt (tds s2 ?td) = Some fmt"
    using grows_fmt [OF s2(4), of ?td] af(2,8) by (simp add: kaapi_allocator_init_td_def)
  then have F: "td_fmt (tds s3 x) = td_fmt (tds s2 x)" "td_list (tds s3 x) = td_list (tds s2 x)"
    "td_wc (tds s3 x) = td_wc (tds s2 x)" "td_bcast (tds s3 x) = td_bcast (tds s2 x)"
    "td_task (tds s3 x) = td_task (tds s2 x)" "ntds s3 = ntds s2" "nvers s3 = nvers s2" "rtl s3 = rtl s2"
    "look s3 c = look s2 c" "writer s3 c = writer s2 c" for x c
    by (simp_all add: s3_def upd_td_def look_def writer_def)
  have g3: "graph_inv s3"
    unfolding s3_def using s2(2) \<open>td_fmt (tds s2 ?td) = Some fmt\<close> by (subst graph_upd_td) auto
  have v3: "ver_inv s3" unfolding s3_def using s2(3) by (simp add: ver_inv_upd_td)
  have gr3: "grows ?td s1 s3" using s2(4) unfolding grows_def F by simp
  have "initials s3 = initials s2" by (simp add: initials_def F)
  then have p3: "version_post (t_params task) ?td s1 s3 a" for a
    using s2(6) unfolding version_post_def F by simp
  have o3: "links_only (t_params task) ?td s1 s3" using s2(7) unfolding links_only_def F by simp
  have nolist: "td_list (tds s3 ?td) = []"
  proof -
    obtain ys where "td_list (tds s2 ?td) = td_list (tds s1 ?td) @ ys" "set ys \<subseteq> {?td}"
      using grows_app [OF s2(4), of ?td] af(2) by auto
    moreover have "td_list (tds s1 ?td) = []" using af(8) by (simp add: kaapi_allocator_init_td_def)
    moreover have "?td \<notin> set (td_list (tds s2 ?td))"
      using s2(2) tn(1) unfolding graph_inv_def edges_ok_def by (metis less_irrefl)
    ultimately show ?thesis using F(2) by (cases ys) auto
  qed
  have nobcast: "td_bcast (tds s3 ?td) = []" using g3 tn(1) F(6) by (simp add: graph_inv_def fresh_tds_def)
  have run: "kaapi_thread_computedep_task resolve findv pushready s task = Some (OK, s3)"
    using f a s2(1) nolist nobcast
    by (simp add: kaapi_thread_computedep_task_def s3_def [symmetric] kaapi_readytasklist_pushactivated_def Let_def)
  have deg: "td_wc (tds s3 ?td) = (\<Sum>x<ntds s3. count_list (td_list (tds s3 x)) ?td)"
    using g3 tn(1) F(6) by (simp add: graph_inv_def indegree_def)
  have wc: "td_wc (tds s3 ?td) = 0 \<longleftrightarrow> (\<forall>a. \<not> accesses (t_params task) a)"
  proof (cases "\<exists>a. accesses (t_params task) a")
    case True
    then obtain a where acc: "accesses (t_params task) a" by blast
    have "writer s1 a \<noteq> ?td" if "look s1 a \<noteq> 0" using vi that V unfolding ver_inv_def by (metis less_irrefl)
    then obtain w where "?td \<in> set (td_list (tds s3 w))" "w < ntds s3"
      using p3 [of a] acc v1 gr3 unfolding version_post_def ver_inv_def grows_def initials_def
      by (metis (mono_tags, lifting) mem_Collect_eq order_less_le_trans)
    then have "td_wc (tds s3 ?td) \<noteq> 0" using deg by (auto simp: count_list_0_iff)
    then show ?thesis using True by blast
  next
    case False
    then have "\<forall>p \<in> set (t_params task). \<not> shared p" by (auto simp: accesses_def)
    then have "computedep_params findv ?td 0 (t_params task) s1 = Some s1" by (rule computedep_params_V)
    then show ?thesis using False s2(1) F(3) af(8) by (simp add: kaapi_allocator_init_td_def)
  qed
  show ?thesis using run a g3 v3 gr3 s2(5) F(7) af(6) p3 o3 wc by (intro exI [of _ s1] exI [of _ s3]) simp
qed

subsection \<open>The tasks of a frame\<close>

text \<open>After the tasks with parameter lists \<open>pre\<close>, whose descriptors are \<open>ids\<close>.\<close>

definition frame_ok ::
  "(access_mode \<times> uint64) list list \<Rightarrow> nat list \<Rightarrow> ('t, 'r) kaapi_frame_tasklist \<Rightarrow> bool" where
  "frame_ok pre ids s \<longleftrightarrow>
     graph_inv s \<and> ver_inv s \<and> length ids = length pre \<and> sorted_wrt (<) ids
   \<and> {x. x < ntds s \<and> td_fmt (tds s x) \<noteq> None} = set ids
   \<and> (\<forall>i < length pre. t_params (td_task (tds s (ids ! i))) = pre ! i)
   \<and> (\<forall>a. case last_writer pre a of Some i \<Rightarrow> look s a \<noteq> 0 \<and> writer s a = ids ! i
              | None \<Rightarrow> look s a \<noteq> 0 \<longrightarrow> writer s a \<in> initials s)
   \<and> (\<forall>j < length pre. \<forall>i < length pre. ids ! j \<in> set (td_list (tds s (ids ! i))) \<longleftrightarrow>
        (\<exists>a. accesses (pre ! j) a \<and> last_writer (take j pre) a = Some i))
   \<and> (\<forall>j < length pre. td_wc (tds s (ids ! j)) = 0 \<longleftrightarrow> (\<forall>a. \<not> accesses (pre ! j) a))"

lemma frame_ok_task:
  assumes F: "frame_ok pre ids s"
    and l: "nvers s + length (t_params task) \<le> lim"
    and b: "t_body task = User_body n" and f: "resolve (t_body task) = Some fmt"
    and m: "\<forall>p \<in> set (t_params task). shared p \<longrightarrow> is_access (param_mode p)"
  shows "\<exists>s'. kaapi_thread_computedep_task resolve findv pushready s task = Some (OK, s')
    \<and> frame_ok (pre @ [t_params task]) (ids @ [ntds s]) s' \<and> nvers s' \<le> nvers s + length (t_params task)
    \<and> rtl s' = rtl s"
proof -
  let ?td = "ntds s" and ?ps = "t_params task"
  have g: "graph_inv s" and vi: "ver_inv s" and len: "length ids = length pre" and srt: "sorted_wrt (<) ids"
    and us: "{x. x < ntds s \<and> td_fmt (tds s x) \<noteq> None} = set ids"
    using F by (simp_all add: frame_ok_def)
  obtain s1 s' where r: "kaapi_thread_computedep_task resolve findv pushready s task = Some (OK, s')"
    and a: "kaapi_tasklist_allocate_td s task (Some fmt) = (?td, s1)"
    and inv: "graph_inv s'" "ver_inv s'" "grows ?td s1 s'" "nvers s' \<le> nvers s + length ?ps"
    and P0: "\<forall>c. version_post ?ps ?td s1 s' c" and lo: "links_only ?ps ?td s1 s'"
    and wc: "td_wc (tds s' ?td) = 0 \<longleftrightarrow> (\<forall>a. \<not> accesses ?ps a)"
    using computedep_task_spec [where task = task and resolve = resolve and fmt = fmt and n = n
        and pushready = pushready, OF g vi l b f m]
    by (elim exE conjE) (rule that; assumption)
  have P: "version_post ?ps ?td s1 s' c" for c using P0 by blast
  note af = alloc_td_fields [OF a]
  have V: "look s1 c = look s c" "writer s1 c = writer s c" for c
    using af(4,5) by (simp_all add: look_def writer_def)
  have old1: "tds s1 x = tds s x" if "x < ntds s" for x using that af(8) by simp
  have new1: "td_fmt (tds s1 ?td) = Some fmt" "t_params (td_task (tds s1 ?td)) = ?ps"
    using af(8) by (simp_all add: kaapi_allocator_init_td_def)
  have G: "td_fmt (tds s' x) = td_fmt (tds s1 x)" "t_params (td_task (tds s' x)) = t_params (td_task (tds s1 x))"
    "x \<noteq> ?td \<Longrightarrow> td_wc (tds s' x) = td_wc (tds s1 x)" "set (td_list (tds s1 x)) \<subseteq> set (td_list (tds s' x))"
    if "x < Suc ?td" for x
    using that inv(3) af(2) grows_list [OF inv(3)] unfolding grows_def by simp_all
  have noself: "x \<notin> set (td_list (tds s' ?td))" if "x \<le> ?td" for x
  proof
    assume "x \<in> set (td_list (tds s' ?td))"
    moreover have "?td < ntds s'" using inv(3) af(2) by (simp add: grows_def)
    ultimately have "rank s' ?td < rank s' x" using inv(1) by (simp add: graph_inv_def edges_ok_def)
    moreover have "rank s' ?td = Suc ?td" using G(1) [of ?td] new1(1) by (simp add: rank_def)
    ultimately show False using that by (simp add: rank_def split: if_splits)
  qed
  have idl: "x < ntds s" if "x \<in> set ids" for x using that us by auto
  have idn: "ids ! i < ntds s" if "i < length pre" for i using that len idl by simp
  have "sorted_wrt (<) (ids @ [?td])" using srt idl by (simp add: sorted_wrt_append)
  moreover have "{x. x < ntds s' \<and> td_fmt (tds s' x) \<noteq> None} = set (ids @ [?td])"
  proof (rule set_eqI)
    fix x
    have "Suc ?td \<le> ntds s'" using inv(3) af(2) by (simp add: grows_def)
    moreover have "td_fmt (tds s' x) = None" if "Suc ?td \<le> x" "x < ntds s'"
      using inv(3) af(2) that by (simp add: grows_def)
    moreover have "x \<in> set ids \<longleftrightarrow> x < ?td \<and> td_fmt (tds s x) \<noteq> None" using us by blast
    ultimately show "x \<in> {x. x < ntds s' \<and> td_fmt (tds s' x) \<noteq> None} \<longleftrightarrow> x \<in> set (ids @ [?td])"
      using G(1) [of x] old1 [of x] new1(1) by (cases "x < ?td"; cases "x = ?td") auto
  qed
  moreover have "t_params (td_task (tds s' ((ids @ [?td]) ! i))) = (pre @ [?ps]) ! i" if "i < length (pre @ [?ps])" for i
    using that F G(2) [of "(ids @ [?td]) ! i"] idn [of i] old1 new1(2) len
    by (cases "i < length pre") (auto simp: nth_append frame_ok_def less_Suc_eq)
  moreover have "case last_writer (pre @ [?ps]) c of Some i \<Rightarrow> look s' c \<noteq> 0 \<and> writer s' c = (ids @ [?td]) ! i
              | None \<Rightarrow> look s' c \<noteq> 0 \<longrightarrow> writer s' c \<in> initials s'" for c
  proof (cases "writes ?ps c")
    case True
    then show ?thesis using P [of c] writes_accesses [OF True] len
      by (simp add: last_writer_snoc version_post_def nth_append)
  next
    case False
    have Fc: "case last_writer pre c of Some i \<Rightarrow> look s c \<noteq> 0 \<and> writer s c = ids ! i
              | None \<Rightarrow> look s c \<noteq> 0 \<longrightarrow> writer s c \<in> initials s" using F by (simp add: frame_ok_def)
    have keep: "look s' c \<noteq> 0 \<and> writer s' c = writer s c" if "look s c \<noteq> 0"
      using P [of c] False that unfolding version_post_def V by (cases "accesses ?ps c") auto
    have init: "writer s c \<in> initials s \<Longrightarrow> writer s c \<in> initials s'"
      using subsetD [OF initials_grows [OF inv(3)], of "writer s c"] af(2) old1 by (auto simp: initials_def)
    show ?thesis
    proof (cases "last_writer pre c")
      case (Some i)
      then show ?thesis using Fc keep last_writer_Some [OF Some] False len
        by (simp add: last_writer_snoc nth_append)
    next
      case None
      then show ?thesis
        using Fc keep init P [of c] False unfolding version_post_def V
        by (cases "look s c = 0"; cases "accesses ?ps c") (simp_all add: last_writer_snoc)
    qed
  qed
  moreover have "(ids @ [?td]) ! j \<in> set (td_list (tds s' ((ids @ [?td]) ! i))) \<longleftrightarrow>
      (\<exists>c. accesses ((pre @ [?ps]) ! j) c \<and> last_writer (take j (pre @ [?ps])) c = Some i)"
    if j: "j < length (pre @ [?ps])" and i: "i < length (pre @ [?ps])" for j i
  proof (cases "i < length pre")
    case False
    then have "(ids @ [?td]) ! i = ?td" using i len by (simp add: nth_append)
    moreover have "(ids @ [?td]) ! j \<le> ?td" using idn [of j] j len by (cases "j < length pre") (auto simp: nth_append)
    ultimately have "(ids @ [?td]) ! j \<notin> set (td_list (tds s' ((ids @ [?td]) ! i)))" by (simp add: noself)
    moreover have "last_writer (take j (pre @ [?ps])) c \<noteq> Some i" for c
      using last_writer_Some [of "take j (pre @ [?ps])" c i] False j by auto
    ultimately show ?thesis by simp
  next
    case il: True
    obtain ys where ys: "td_list (tds s' (ids ! i)) = td_list (tds s (ids ! i)) @ ys" "set ys \<subseteq> {?td}"
      using grows_app [OF inv(3), of "ids ! i"] old1 [of "ids ! i"] idn [OF il] af(2) by auto
    show ?thesis
    proof (cases "j < length pre")
      case True
      have "ids ! j \<in> set (td_list (tds s' (ids ! i))) \<longleftrightarrow> ids ! j \<in> set (td_list (tds s (ids ! i)))"
        using ys idn [OF True] by auto
      then show ?thesis using F True il len by (simp add: frame_ok_def nth_append)
    next
      case False
      then have jl: "j = length pre" using j by simp
      have lwc: "\<forall>c. case last_writer pre c of Some i \<Rightarrow> look s c \<noteq> 0 \<and> writer s c = ids ! i
              | None \<Rightarrow> look s c \<noteq> 0 \<longrightarrow> writer s c \<in> initials s" using F by (simp add: frame_ok_def)
      have ne: "ids ! i \<noteq> ?td" using idn [OF il] by simp
      have "?td \<in> set (td_list (tds s' (ids ! i))) \<longleftrightarrow> (\<exists>c. accesses ?ps c \<and> last_writer pre c = Some i)"
      proof
        assume "\<exists>c. accesses ?ps c \<and> last_writer pre c = Some i"
        then obtain c where c: "accesses ?ps c" "last_writer pre c = Some i" by blast
        then have "look s c \<noteq> 0" "writer s c = ids ! i" using lwc by (force split: option.splits)+
        then show "?td \<in> set (td_list (tds s' (ids ! i)))"
          using P [of c] c(1) ne unfolding version_post_def V by simp
      next
        assume "?td \<in> set (td_list (tds s' (ids ! i)))"
        moreover have "?td \<notin> set (td_list (tds s1 (ids ! i)))"
          using g idn [OF il] old1 [of "ids ! i"] by (auto simp: graph_inv_def edges_ok_def)
        ultimately obtain c where c: "accesses ?ps c" "look s c \<noteq> 0" "ids ! i = writer s c"
          using lo idn [OF il] ne af(2) unfolding links_only_def V by (metis less_SucI)
        have "ids ! i \<in> set ids" using il len by simp
        then have ni: "ids ! i \<notin> initials s" using us by (auto simp: initials_def)
        have lc: "case last_writer pre c of Some i \<Rightarrow> look s c \<noteq> 0 \<and> writer s c = ids ! i
              | None \<Rightarrow> look s c \<noteq> 0 \<longrightarrow> writer s c \<in> initials s" using lwc by blast
        have "last_writer pre c \<noteq> None" using lc c(2,3) ni by (auto split: option.splits)
        then obtain k where k: "last_writer pre c = Some k" by blast
        then have "ids ! k = ids ! i" using lc c(3) by simp
        moreover have "k < length pre" using last_writer_Some [OF k] by simp
        moreover have "distinct ids" using srt strict_sorted_iff by blast
        ultimately have "k = i" using il len nth_eq_iff_index_eq by metis
        then show "\<exists>c. accesses ?ps c \<and> last_writer pre c = Some i" using c(1) k by blast
      qed
      then show ?thesis using jl il len by (simp add: nth_append)
    qed
  qed
  moreover have "td_wc (tds s' ((ids @ [?td]) ! j)) = 0 \<longleftrightarrow> (\<forall>a. \<not> accesses ((pre @ [?ps]) ! j) a)"
    if "j < length (pre @ [?ps])" for j
  proof (cases "j < length pre")
    case True
    have "td_wc (tds s (ids ! j)) = 0 \<longleftrightarrow> (\<forall>a. \<not> accesses (pre ! j) a)" using F True by (simp add: frame_ok_def)
    then show ?thesis using G(3) [of "ids ! j"] old1 [of "ids ! j"] idn [OF True] True len by (simp add: nth_append)
  next
    case False
    then show ?thesis using that wc len by (simp add: nth_append)
  qed
  ultimately have "frame_ok (pre @ [?ps]) (ids @ [?td]) s'"
    using inv(1,2) len unfolding frame_ok_def by (simp only: length_append_singleton) blast
  moreover have "rtl s' = rtl s" using inv(3) af(7) by (simp add: grows_def)
  ultimately show ?thesis using r inv(4) by blast
qed

text \<open>All tasks of a frame: those without a format are skipped, the others are in the graph.\<close>

lemma frame_ok_loop:
  assumes "frame_ok pre ids s"
    and "nvers s + (\<Sum>t\<leftarrow>tasks. length (t_params t)) \<le> lim"
    and "\<forall>t \<in> set tasks. resolve (t_body t) \<noteq> None \<longrightarrow>
      (\<exists>n. t_body t = User_body n) \<and> (\<forall>p \<in> set (t_params t). shared p \<longrightarrow> is_access (param_mode p))"
  shows "\<exists>ids' s'. computereadylist_loop resolve findv pushready tasks s = Some s'
    \<and> frame_ok (pre @ map t_params (filter (\<lambda>t. resolve (t_body t) \<noteq> None) tasks)) (ids @ ids') s' \<and> rtl s' = rtl s"
  using assms
proof (induction tasks arbitrary: pre ids s)
  case Nil
  then show ?case by (intro exI [of _ "[]"]) simp
next
  case (Cons t tasks)
  show ?case
  proof (cases "resolve (t_body t)")
    case None
    then have "kaapi_thread_computedep_task resolve findv pushready s t = Some (EINVAL, s)"
      by (simp add: kaapi_thread_computedep_task_def)
    moreover have "nvers s + (\<Sum>t\<leftarrow>tasks. length (t_params t)) \<le> lim" using Cons.prems(2) by simp
    ultimately show ?thesis using Cons.IH [OF Cons.prems(1)] Cons.prems(3) None by simp
  next
    case (Some fmt)
    obtain n where b: "t_body t = User_body n" and m: "\<forall>p \<in> set (t_params t). shared p \<longrightarrow> is_access (param_mode p)"
      using Cons.prems(3) Some by auto
    have l: "nvers s + length (t_params t) \<le> lim" using Cons.prems(2) by simp
    obtain s1 where s1: "kaapi_thread_computedep_task resolve findv pushready s t = Some (OK, s1)"
      "frame_ok (pre @ [t_params t]) (ids @ [ntds s]) s1" "nvers s1 \<le> nvers s + length (t_params t)" "rtl s1 = rtl s"
      using frame_ok_task [where task = t and resolve = resolve and fmt = fmt and n = n and pushready = pushready,
          OF Cons.prems(1) l b Some m] by blast
    have "nvers s1 + (\<Sum>t\<leftarrow>tasks. length (t_params t)) \<le> lim" using s1(3) Cons.prems(2) by simp
    moreover have "\<forall>t \<in> set tasks. resolve (t_body t) \<noteq> None \<longrightarrow>
      (\<exists>n. t_body t = User_body n) \<and> (\<forall>p \<in> set (t_params t). shared p \<longrightarrow> is_access (param_mode p))"
      using Cons.prems(3) by simp
    ultimately obtain ids' s' where
      "computereadylist_loop resolve findv pushready tasks s1 = Some s'"
      "frame_ok ((pre @ [t_params t]) @ map t_params (filter (\<lambda>t. resolve (t_body t) \<noteq> None) tasks))
         ((ids @ [ntds s]) @ ids') s'" "rtl s' = rtl s1"
      using Cons.IH [OF s1(2)] by blast
    then show ?thesis using s1(1,4) Some by (intro exI [of _ "ntds s # ids'"] exI [of _ s']) simp
  qed
qed

lemma frame_ok_empty:
  assumes "ntds s = 0" "readylist s = []" "total_tasks s = 0" "nvers s = 1" "vinv (vtab s)" "\<And>a. vlook (vtab s) a = 0"
  shows "frame_ok [] [] s"
  using assms by (simp add: frame_ok_def graph_defs ver_inv_def look_def last_writer_Nil)

end

end
