(* ===== verification/Critical_Path.thy ===== *)
theory Critical_Path
  imports Dataflow
begin

text \<open>
  The critical path of a frame's graph, \<^verbatim>\<open>src/tasklist/kaapi_tasklist_criticalpath.c\<close>: a depth first search from
  the initial descriptors that gives each descriptor the length of the longest path from it to the end of the
  graph, and the task list the greatest of these dates.  The recursion of \<^verbatim>\<open>kaapi_explore_successor\<close> has fuel, the
  depth of the C stack it may use; the graph of a frame has ranks, and the number of descriptors is enough.
\<close>

section \<open>The search\<close>

primrec explore_loop ::
  "(nat \<Rightarrow> ('t, 'r) kaapi_frame_tasklist \<Rightarrow> ('t, 'r) kaapi_frame_tasklist option) \<Rightarrow> nat list \<Rightarrow> nat \<Rightarrow>
   ('t, 'r) kaapi_frame_tasklist \<Rightarrow> (nat \<times> ('t, 'r) kaapi_frame_tasklist) option" where
  "explore_loop explore [] maxdatesucc ftl = Some (maxdatesucc, ftl)"
| "explore_loop explore (td # succs) maxdatesucc ftl =
     do { ftl \<leftarrow> (if td_mark (tds ftl td) = 0 then explore td ftl else Some ftl);
          explore_loop explore succs (max maxdatesucc (td_date (tds ftl td))) ftl }"

fun kaapi_explore_successor ::
  "nat \<Rightarrow> nat \<Rightarrow> ('t, 'r) kaapi_frame_tasklist \<Rightarrow> ('t, 'r) kaapi_frame_tasklist option" where
  "kaapi_explore_successor 0 td ftl = None"
| "kaapi_explore_successor (Suc fuel) td ftl =
     (if td_mark (tds ftl td) \<noteq> 0 then Some ftl
      else if td_list (tds ftl td) = [] then Some (upd_td td (\<lambda>d. d\<lparr>td_mark := 1, td_date := 0\<rparr>) ftl)
      else do { (maxdatesucc, ftl) \<leftarrow> explore_loop (kaapi_explore_successor fuel) (td_list (tds ftl td)) 0 ftl;
                Some (upd_td td (\<lambda>d. d\<lparr>td_mark := 1, td_date := maxdatesucc + 1\<rparr>) ftl) })"

fun critical_path_loop ::
  "nat \<Rightarrow> nat list \<Rightarrow> ('t, 'r) kaapi_frame_tasklist \<Rightarrow> ('t, 'r) kaapi_frame_tasklist option" where
  "critical_path_loop fuel [] ftl = Some ftl"
| "critical_path_loop fuel (td # rest) ftl =
     do { ftl \<leftarrow> kaapi_explore_successor fuel td ftl;
          critical_path_loop fuel rest (ftl\<lparr>t_infinity := max (t_infinity ftl) (td_date (tds ftl td))\<rparr>) }"

definition kaapi_tasklist_critical_path ::
  "nat \<Rightarrow> ('t, 'r) kaapi_frame_tasklist \<Rightarrow> ('t, 'r) kaapi_frame_tasklist option" where
  "kaapi_tasklist_critical_path fuel ftl = critical_path_loop fuel (readylist ftl) ftl"

section \<open>Paths\<close>

text \<open>A path of \<open>n\<close> links from a descriptor to one without successors.\<close>

inductive path_to_end :: "(nat \<Rightarrow> nat list) \<Rightarrow> nat \<Rightarrow> nat \<Rightarrow> bool" for succs :: "nat \<Rightarrow> nat list" where
  path_end: "succs x = [] \<Longrightarrow> path_to_end succs x 0"
| path_link: "y \<in> set (succs x) \<Longrightarrow> path_to_end succs y n \<Longrightarrow> path_to_end succs x (Suc n)"

inductive_simps path_to_end_iff: "path_to_end succs x n"

definition longest :: "(nat \<Rightarrow> nat list) \<Rightarrow> nat \<Rightarrow> nat \<Rightarrow> bool" where
  "longest succs x d \<longleftrightarrow> path_to_end succs x d \<and> (\<forall>n. path_to_end succs x n \<longrightarrow> n \<le> d)"

lemma longest_end: "succs x = [] \<Longrightarrow> longest succs x 0"
  by (auto simp: longest_def path_to_end_iff [of succs x])

lemma longest_link:
  assumes ne: "succs x \<noteq> []" and d: "\<forall>y \<in> set (succs x). longest succs y (f y)"
    and m: "\<forall>y \<in> set (succs x). f y \<le> m" and w: "\<exists>y \<in> set (succs x). f y = m"
  shows "longest succs x (Suc m)"
  unfolding longest_def
proof (intro conjI allI impI)
  obtain y where "y \<in> set (succs x)" "path_to_end succs y m" using w d by (auto simp: longest_def)
  then show "path_to_end succs x (Suc m)" by (rule path_link)
  fix n assume "path_to_end succs x n"
  then obtain y k where "n = Suc k" "y \<in> set (succs x)" "path_to_end succs y k"
    using ne by (cases) auto
  then show "n \<le> Suc m" using d m unfolding longest_def by force
qed

lemma longest_unique: "longest succs x d \<Longrightarrow> longest succs x e \<Longrightarrow> d = e"
  unfolding longest_def by (meson le_antisym)

section \<open>Correctness\<close>

text \<open>What the search keeps: everything but marks and dates; marked descriptors stay as they are, and each marked
  descriptor has its longest path as its date.\<close>

definition links :: "('t, 'r) kaapi_frame_tasklist \<Rightarrow> nat \<Rightarrow> nat list" where
  "links s x = td_list (tds s x)"

definition cp_inv :: "('t, 'r) kaapi_frame_tasklist \<Rightarrow> bool" where
  "cp_inv s \<longleftrightarrow> (\<forall>x < ntds s. td_mark (tds s x) \<noteq> 0 \<longrightarrow> longest (links s) x (td_date (tds s x)))"

definition marks_more :: "('t, 'r) kaapi_frame_tasklist \<Rightarrow> ('t, 'r) kaapi_frame_tasklist \<Rightarrow> bool" where
  "marks_more s s' \<longleftrightarrow>
     (\<exists>t. s' = s\<lparr>tds := t\<rparr> \<and>
       (\<forall>x. \<exists>m d. t x = (tds s x)\<lparr>td_mark := m, td_date := d\<rparr>) \<and>
       (\<forall>x. td_mark (tds s x) \<noteq> 0 \<longrightarrow> t x = tds s x))"

lemma marks_more_refl: "marks_more s s"
proof -
  have "\<exists>m e. d = d\<lparr>td_mark := m, td_date := e\<rparr>" for d :: kaapi_taskdescr
    by (rule exI [of _ "td_mark d"], rule exI [of _ "td_date d"]) simp
  then show ?thesis unfolding marks_more_def by (intro exI [of _ "tds s"]) auto
qed

lemma marks_more_trans:
  assumes "marks_more s s'" "marks_more s' s''"
  shows "marks_more s s''"
proof -
  obtain t where t: "s' = s\<lparr>tds := t\<rparr>" "\<And>x. \<exists>m d. t x = (tds s x)\<lparr>td_mark := m, td_date := d\<rparr>"
    "\<And>x. td_mark (tds s x) \<noteq> 0 \<Longrightarrow> t x = tds s x" using assms(1) unfolding marks_more_def by blast
  obtain u where u: "s'' = s'\<lparr>tds := u\<rparr>" "\<And>x. \<exists>m d. u x = (tds s' x)\<lparr>td_mark := m, td_date := d\<rparr>"
    "\<And>x. td_mark (tds s' x) \<noteq> 0 \<Longrightarrow> u x = tds s' x" using assms(2) unfolding marks_more_def by blast
  have "\<exists>m d. u x = (tds s x)\<lparr>td_mark := m, td_date := d\<rparr>" for x
  proof -
    obtain m d where "t x = (tds s x)\<lparr>td_mark := m, td_date := d\<rparr>" using t(2) by blast
    moreover obtain k e where "u x = (t x)\<lparr>td_mark := k, td_date := e\<rparr>" using u(2) [of x] t(1) by auto
    ultimately show ?thesis by (intro exI [of _ k] exI [of _ e]) simp
  qed
  moreover have "u x = tds s x" if "td_mark (tds s x) \<noteq> 0" for x
    using t(3) [OF that] u(3) [of x] t(1) that by simp
  ultimately show ?thesis unfolding marks_more_def using t(1) u(1) by (intro exI [of _ u]) simp
qed

lemma marks_more_links: "marks_more s s' \<Longrightarrow> links s' = links s"
proof
  fix x assume "marks_more s s'"
  then obtain t where "s' = s\<lparr>tds := t\<rparr>" "\<exists>m d. t x = (tds s x)\<lparr>td_mark := m, td_date := d\<rparr>"
    unfolding marks_more_def by blast
  then obtain m d where "tds s' x = (tds s x)\<lparr>td_mark := m, td_date := d\<rparr>" by auto
  then show "links s' x = links s x" by (simp add: links_def)
qed

lemma marks_more_ntds: "marks_more s s' \<Longrightarrow> ntds s' = ntds s"
  unfolding marks_more_def by auto

lemma marks_more_mark: "marks_more s s' \<Longrightarrow> td_mark (tds s x) \<noteq> 0 \<Longrightarrow> tds s' x = tds s x"
  unfolding marks_more_def by auto

lemma mark_one:
  assumes "cp_inv s" and "td_mark (tds s x) = 0" and "longest (links s) x d"
  shows "cp_inv (upd_td x (\<lambda>r. r\<lparr>td_mark := 1, td_date := d\<rparr>) s)
    \<and> marks_more s (upd_td x (\<lambda>r. r\<lparr>td_mark := 1, td_date := d\<rparr>) s)"
proof -
  let ?s = "upd_td x (\<lambda>r. r\<lparr>td_mark := 1, td_date := d\<rparr>) s"
  have "\<exists>m e. tds ?s y = (tds s y)\<lparr>td_mark := m, td_date := e\<rparr>" for y
    by (cases "y = x", rule exI [of _ 1], rule exI [of _ d], simp add: upd_td_def,
        rule exI [of _ "td_mark (tds s y)"], rule exI [of _ "td_date (tds s y)"], simp add: upd_td_def)
  then have m: "marks_more s ?s"
    unfolding marks_more_def using assms(2) by (intro exI [of _ "tds ?s"]) (simp add: upd_td_def)
  then show ?thesis
    using assms marks_more_links [OF m] marks_more_ntds [OF m] by (auto simp: cp_inv_def upd_td_def)
qed

lemma explore_loop_spec:
  assumes rec: "\<And>y s. y \<in> set ys \<Longrightarrow> cp_inv s \<Longrightarrow> links s = l \<Longrightarrow> ntds s = n \<Longrightarrow>
      \<exists>s'. f y s = Some s' \<and> cp_inv s' \<and> marks_more s s' \<and> td_mark (tds s' y) \<noteq> 0"
    and "cp_inv s" and "links s = l" and "ntds s = n"
  shows "\<exists>m s'. explore_loop f ys m0 s = Some (m, s') \<and> cp_inv s' \<and> marks_more s s'
    \<and> (\<forall>y \<in> set ys. td_mark (tds s' y) \<noteq> 0 \<and> td_date (tds s' y) \<le> m)
    \<and> m0 \<le> m \<and> (m = m0 \<or> (\<exists>y \<in> set ys. td_date (tds s' y) = m))"
  using assms
proof (induction ys arbitrary: s m0)
  case Nil
  then show ?case by (simp add: marks_more_refl)
next
  case (Cons y ys)
  obtain s1 where s1: "(if td_mark (tds s y) = 0 then f y s else Some s) = Some s1" "cp_inv s1" "marks_more s s1"
    "td_mark (tds s1 y) \<noteq> 0"
  proof (cases "td_mark (tds s y) = 0")
    case True
    then show thesis using Cons.prems(1) [of y s] Cons.prems(2-4) that by auto
  next
    case False
    show thesis by (rule that [of s]) (use False Cons.prems(2) in \<open>simp_all add: marks_more_refl\<close>)
  qed
  have rec': "\<exists>s'. f z s = Some s' \<and> cp_inv s' \<and> marks_more s s' \<and> td_mark (tds s' z) \<noteq> 0"
    if "z \<in> set ys" "cp_inv s" "links s = l" "ntds s = n" for z s
    using Cons.prems(1) [of z s] that by simp
  have l1: "links s1 = l" using marks_more_links [OF s1(3)] Cons.prems(3) by simp
  have n1: "ntds s1 = n" using marks_more_ntds [OF s1(3)] Cons.prems(4) by simp
  let ?m = "max m0 (td_date (tds s1 y))"
  obtain m s' where r: "explore_loop f ys ?m s1 = Some (m, s')" "cp_inv s'" "marks_more s1 s'"
    "\<forall>y \<in> set ys. td_mark (tds s' y) \<noteq> 0 \<and> td_date (tds s' y) \<le> m"
    "?m \<le> m" "m = ?m \<or> (\<exists>y \<in> set ys. td_date (tds s' y) = m)"
    using Cons.IH [OF rec' s1(2) l1 n1, of ?m] by blast
  have "tds s' y = tds s1 y" using marks_more_mark [OF r(3) s1(4)] .
  moreover have "explore_loop f (y # ys) m0 s = Some (m, s')"
    using s1(1) r(1) by (simp split: if_splits)
  ultimately show ?case
    using s1(4) r marks_more_trans [OF s1(3) r(3)]
    by (intro exI [of _ m] exI [of _ s']) (auto simp: max_def split: if_splits)
qed

text \<open>Ranks that every link increases, and bound, make the recursion end.\<close>

lemma explore_spec:
  assumes r: "\<And>x y. x < n \<Longrightarrow> y \<in> set (l x) \<Longrightarrow> y < n \<and> r y < (r x :: nat)"
  shows "x < n \<Longrightarrow> r x < fuel \<Longrightarrow> cp_inv s \<Longrightarrow> links s = l \<Longrightarrow> ntds s = n \<Longrightarrow>
    \<exists>s'. kaapi_explore_successor fuel x s = Some s' \<and> cp_inv s' \<and> marks_more s s' \<and> td_mark (tds s' x) \<noteq> 0"
proof (induction fuel arbitrary: x s)
  case (Suc fuel)
  have ls: "td_list (tds s x) = l x" using Suc.prems(4) by (auto simp: links_def)
  show ?case
  proof (cases "td_mark (tds s x) = 0")
    case False
    then show ?thesis using Suc.prems by (intro exI [of _ s]) (simp add: marks_more_refl)
  next
    case True
    show ?thesis
    proof (cases "l x = []")
      case e: True
      then have "longest (links s) x 0" using Suc.prems(4) longest_end by metis
      from mark_one [OF Suc.prems(3) True this] show ?thesis
        using True e ls by (simp add: upd_td_def)
    next
      case ne: False
      have rec: "\<exists>s'. kaapi_explore_successor fuel y s = Some s' \<and> cp_inv s' \<and> marks_more s s' \<and> td_mark (tds s' y) \<noteq> 0"
        if "y \<in> set (l x)" "cp_inv s" "links s = l" "ntds s = n" for y and s :: "('a, 'b) kaapi_frame_tasklist"
        using Suc.IH [of y s] r [OF Suc.prems(1) that(1)] Suc.prems(2) that by simp
      obtain m s1 where e: "explore_loop (kaapi_explore_successor fuel) (l x) 0 s = Some (m, s1)" "cp_inv s1"
        "marks_more s s1" "\<forall>y \<in> set (l x). td_mark (tds s1 y) \<noteq> 0 \<and> td_date (tds s1 y) \<le> m"
        "m = 0 \<or> (\<exists>y \<in> set (l x). td_date (tds s1 y) = m)"
        using explore_loop_spec [OF rec Suc.prems(3-5), of "l x" 0] by blast
      have l1: "links s1 = l" "ntds s1 = n" using marks_more_links [OF e(3)] marks_more_ntds [OF e(3)] Suc.prems(4,5) by simp_all
      have "\<exists>y \<in> set (l x). td_date (tds s1 y) = m"
        using e(4,5) ne by (cases "l x") auto
      moreover have "\<forall>y \<in> set (l x). longest l y (td_date (tds s1 y))"
        using e(2,4) l1 r [OF Suc.prems(1)] by (auto simp: cp_inv_def)
      ultimately have lg: "longest l x (Suc m)"
        using longest_link [where succs = l and x = x and f = "\<lambda>y. td_date (tds s1 y)" and m = m] ne e(4) by blast
      let ?s = "upd_td x (\<lambda>d. d\<lparr>td_mark := 1, td_date := Suc m\<rparr>) s1"
      have "cp_inv ?s \<and> marks_more s ?s"
      proof (cases "td_mark (tds s1 x) = 0")
        case True
        then show ?thesis using mark_one [OF e(2) True] lg l1(1) marks_more_trans [OF e(3)] by metis
      next
        case False
        then have "td_date (tds s1 x) = Suc m" using e(2) l1 lg longest_unique Suc.prems(1) unfolding cp_inv_def by metis
        then have k: "tds ?s y = (tds s1 y)\<lparr>td_mark := (if y = x then 1 else td_mark (tds s1 y)),
            td_date := td_date (tds s1 y)\<rparr>" for y
          by (simp add: upd_td_def)
        obtain t where t: "s1 = s\<lparr>tds := t\<rparr>" "\<And>x. \<exists>m d. t x = (tds s x)\<lparr>td_mark := m, td_date := d\<rparr>"
          "\<And>x. td_mark (tds s x) \<noteq> 0 \<Longrightarrow> t x = tds s x" using e(3) unfolding marks_more_def by blast
        have "\<exists>m d. tds ?s y = (tds s y)\<lparr>td_mark := m, td_date := d\<rparr>" for y
        proof -
          obtain m d where "t y = (tds s y)\<lparr>td_mark := m, td_date := d\<rparr>" using t(2) by blast
          then show ?thesis using k [of y] t(1)
            by (intro exI [of _ "if y = x then 1 else td_mark (tds s1 y)"] exI [of _ "td_date (tds s1 y)"]) simp
        qed
        moreover have "tds ?s y = tds s y" if "td_mark (tds s y) \<noteq> 0" for y
          using that t(1) t(3) [of y] True by (auto simp: upd_td_def)
        ultimately have "marks_more s ?s"
          unfolding marks_more_def using t(1) by (intro exI [of _ "tds ?s"]) (simp add: upd_td_def)
        then show ?thesis using marks_more_links [of s ?s] e(2) l1 lg Suc.prems(4) by (auto simp: cp_inv_def upd_td_def)
      qed
      moreover have "kaapi_explore_successor (Suc fuel) x s = Some ?s"
        using True ne ls e(1) by simp
      ultimately show ?thesis by (simp add: upd_td_def)
    qed
  qed
qed simp

text \<open>The loop over the initial descriptors.\<close>

lemma cp_inv_t_infinity [simp]:
  "cp_inv (s\<lparr>t_infinity := i\<rparr>) = cp_inv s" "links (s\<lparr>t_infinity := i\<rparr>) = links s"
proof -
  show l: "links (s\<lparr>t_infinity := i\<rparr>) = links s" by (rule ext) (simp add: links_def)
  show "cp_inv (s\<lparr>t_infinity := i\<rparr>) = cp_inv s" unfolding cp_inv_def l by simp
qed

lemma critical_path_loop_spec:
  assumes r: "\<And>x y. x < n \<Longrightarrow> y \<in> set (l x) \<Longrightarrow> y < n \<and> r y < (r x :: nat)"
    and f: "\<And>x. x < n \<Longrightarrow> r x < fuel"
  shows "\<forall>x \<in> set xs. x < n \<Longrightarrow> cp_inv s \<Longrightarrow> links s = l \<Longrightarrow> ntds s = n \<Longrightarrow>
    \<exists>s'. critical_path_loop fuel xs s = Some s' \<and> cp_inv s' \<and> marks_more s (s'\<lparr>t_infinity := t_infinity s\<rparr>)
      \<and> t_infinity s \<le> t_infinity s'
      \<and> (\<forall>x \<in> set xs. td_mark (tds s' x) \<noteq> 0 \<and> td_date (tds s' x) \<le> t_infinity s')
      \<and> (t_infinity s' = t_infinity s \<or> (\<exists>x \<in> set xs. td_date (tds s' x) = t_infinity s'))"
proof (induction xs arbitrary: s)
  case Nil
  then show ?case by (simp add: marks_more_refl)
next
  case (Cons x xs)
  obtain s1 where s1: "kaapi_explore_successor fuel x s = Some s1" "cp_inv s1" "marks_more s s1" "td_mark (tds s1 x) \<noteq> 0"
    using explore_spec [of n l r x fuel s, OF r] f [of x] Cons.prems by auto
  let ?i = "max (t_infinity s1) (td_date (tds s1 x))" and ?s = "s1\<lparr>t_infinity := max (t_infinity s1) (td_date (tds s1 x))\<rparr>"
  have p: "\<forall>x \<in> set xs. x < n" "cp_inv ?s" "links ?s = l" "ntds ?s = n"
    using Cons.prems s1(2) marks_more_links [OF s1(3)] marks_more_ntds [OF s1(3)] by simp_all
  obtain s' where s': "critical_path_loop fuel xs ?s = Some s'" "cp_inv s'" "marks_more ?s (s'\<lparr>t_infinity := t_infinity ?s\<rparr>)"
    "t_infinity ?s \<le> t_infinity s'"
    "\<forall>x \<in> set xs. td_mark (tds s' x) \<noteq> 0 \<and> td_date (tds s' x) \<le> t_infinity s'"
    "t_infinity s' = t_infinity ?s \<or> (\<exists>x \<in> set xs. td_date (tds s' x) = t_infinity s')"
    using Cons.IH [OF p] by blast
  have i1: "t_infinity s1 = t_infinity s" using s1(3) unfolding marks_more_def by auto
  have "tds s' x = tds s1 x" using marks_more_mark [OF s'(3), of x] s1(4) by simp
  moreover have "marks_more s1 (s'\<lparr>t_infinity := t_infinity s\<rparr>)"
  proof -
    obtain t where t: "s'\<lparr>t_infinity := t_infinity ?s\<rparr> = ?s\<lparr>tds := t\<rparr>"
      "\<forall>x. \<exists>m d. t x = (tds ?s x)\<lparr>td_mark := m, td_date := d\<rparr>"
      "\<forall>x. td_mark (tds ?s x) \<noteq> 0 \<longrightarrow> t x = tds ?s x" using s'(3) unfolding marks_more_def by blast
    have "s'\<lparr>t_infinity := t_infinity s\<rparr> = (s'\<lparr>t_infinity := t_infinity ?s\<rparr>)\<lparr>t_infinity := t_infinity s1\<rparr>"
      by (simp add: i1)
    also have "\<dots> = s1\<lparr>tds := t\<rparr>" by (simp only: t(1)) simp
    finally show ?thesis unfolding marks_more_def using t(2,3) by (intro exI [of _ t]) simp
  qed
  ultimately show ?case
    using s1(1,4) s'(1,2,4-6) i1 marks_more_trans [OF s1(3)]
    by (intro exI [of _ s']) (auto simp: max_def split: if_splits)
qed

text \<open>On a graph as \<^verbatim>\<open>kaapi_thread_computereadylist\<close> builds it the search returns, with as much stack as there are
  descriptors.\<close>

lemma critical_path_spec:
  assumes g: "graph_inv s"
  shows "\<exists>s'. kaapi_tasklist_critical_path (Suc (ntds s)) s = Some s' \<and> marks_more s (s'\<lparr>t_infinity := t_infinity s\<rparr>)
    \<and> (\<forall>x \<in> set (readylist s). longest (links s) x (td_date (tds s' x)) \<and> td_date (tds s' x) \<le> t_infinity s')
    \<and> t_infinity s \<le> t_infinity s'
    \<and> (t_infinity s' = t_infinity s \<or> (\<exists>x \<in> set (readylist s). td_date (tds s' x) = t_infinity s'))"
proof -
  let ?n = "ntds s"
  define r where "r x = ?n - rank s x" for x
  have rk: "rank s x \<le> ?n" if "x < ?n" for x using that by (simp add: rank_def)
  have dec: "y < ?n \<and> r y < r x" if "x < ?n" "y \<in> set (links s x)" for x y
  proof -
    have "y < ?n \<and> rank s x < rank s y" using g that by (simp add: graph_inv_def edges_ok_def links_def)
    then show ?thesis using rk [of y] unfolding r_def by linarith
  qed
  have fuel: "r x < Suc ?n" for x by (simp add: r_def)
  have c: "cp_inv s" using g by (simp add: cp_inv_def graph_inv_def fresh_tds_def)
  have rd: "\<forall>x \<in> set (readylist s). x < ?n" using g by (auto simp: graph_inv_def initials_def)
  obtain s' where s': "critical_path_loop (Suc ?n) (readylist s) s = Some s'" "cp_inv s'"
    "marks_more s (s'\<lparr>t_infinity := t_infinity s\<rparr>)" "t_infinity s \<le> t_infinity s'"
    "\<forall>x \<in> set (readylist s). td_mark (tds s' x) \<noteq> 0 \<and> td_date (tds s' x) \<le> t_infinity s'"
    "t_infinity s' = t_infinity s \<or> (\<exists>x \<in> set (readylist s). td_date (tds s' x) = t_infinity s')"
    using critical_path_loop_spec [of ?n "links s" r "Suc ?n", OF dec fuel rd c refl refl] by blast
  have "links s' = links s" "ntds s' = ntds s"
    using marks_more_links [OF s'(3)] marks_more_ntds [OF s'(3)] by simp_all
  then have "\<forall>x \<in> set (readylist s). longest (links s) x (td_date (tds s' x))"
    using s'(2,5) rd unfolding cp_inv_def by metis
  then show ?thesis unfolding kaapi_tasklist_critical_path_def using s' by blast
qed

end
