(* ===== verification/Computereadylist.thy ===== *)
theory Computereadylist
  imports Critical_Path
begin

text \<open>
  The drivers of the data flow computation (\<^verbatim>\<open>src/thread/kaapi_thread_computereadylist.c\<close>,
  \<^verbatim>\<open>src/tasklist/kaapi_tasklist.c\<close>) on the hash table of the repository: the table of versions is a
  \<^verbatim>\<open>kaapi_big_hashmap_t\<close> whose entries hold the version pointer, here the number of the version.  The properties say
  which links, counters and ready descriptors a frame has when the computation returns, and what it leaves out.
\<close>

section \<open>The hash table as table of versions\<close>

text \<open>\<^verbatim>\<open>kaapi_version_findinsert\<close> on the table: the entry of the address, its pointer, and the store of a new pointer when it
  is null.\<close>

definition hash_findv :: "(hash_heap \<times> kaapi_big_hashmap) findv" where
  "hash_findv t addr n =
     (case kaapi_big_hashmap_findinsert (fst t) (snd t) addr of
        None \<Rightarrow> None
      | Some (entry, h, khm) \<Rightarrow>
          (let version = unat (u_0 (hentry h entry))
           in Some (if version \<noteq> 0 then (version, (h, khm))
                    else (n, (upd_entry entry (\<lambda>e. e\<lparr>u_0 := of_nat n\<rparr>) h, khm)))))"

definition hash_vlook :: "hash_heap \<times> kaapi_big_hashmap \<Rightarrow> uint64 \<Rightarrow> nat" where
  "hash_vlook t addr =
     (case kaapi_big_hashmap_find (fst t) (snd t) addr of
        Some (Some p) \<Rightarrow> unat (u_0 (hentry (fst t) p)) | _ \<Rightarrow> 0)"

text \<open>The table is well-formed and owns the blocs from bloc \<open>k\<close> on.\<close>

definition hash_vinv :: "nat \<Rightarrow> hash_heap \<times> kaapi_big_hashmap \<Rightarrow> bool" where
  "hash_vinv k t \<longleftrightarrow> big_hashmap_inv (fst t) (snd t) \<and> owns_blocs_from k (fst t) (snd t)"

interpretation vt: version_table hash_findv hash_vlook "hash_vinv k" "2 ^ 64" for k
proof
  fix t :: "hash_heap \<times> kaapi_big_hashmap" and n :: nat and a :: uint64
  assume inv: "hash_vinv k t" and n: "0 < n" "n < 2 ^ 64"
  obtain h khm where t: "t = (h, khm)" by fastforce
  have i: "bhm.tab_inv h khm" and o: "owns_blocs_from k h khm"
    using inv by (simp_all add: t hash_vinv_def big_hashmap_inv_def)
  obtain p h1 t1 where f: "bhm.findinsert h khm a = Some (p, h1, t1)" and i1: "bhm.tab_inv h1 t1"
    and l1: "\<forall>k'. bhm.lookup h1 t1 k' = (if k' = a then Some (Some p) else bhm.lookup h khm k')"
    and old: "\<forall>q. allocated h q \<longrightarrow> hentry h1 q = hentry h q"
    and new: "bhm.lookup h khm a = Some None \<longrightarrow> \<not> allocated h p \<and> u_0 (hentry h1 p) = 0 \<and> u_1 (hentry h1 p) = 0"
    and was: "bhm.lookup h khm a \<noteq> Some None \<longrightarrow> bhm.lookup h khm a = Some (Some p) \<and> h1 = h \<and> t1 = khm"
    using bhm.findinsert_spec [OF i, of a] by blast
  have o1: "owns_blocs_from k h1 t1" using bhm.findinsert_blocs [OF f o] .
  have look1: "hash_vlook (h1, t1) b = hash_vlook t b" for b
  proof (cases "b = a")
    case True
    then show ?thesis
      using l1 new was by (cases "bhm.lookup h khm a = Some None") (auto simp: hash_vlook_def big_hashmap_lookup t)
  next
    case False
    then show ?thesis
      using l1 old bhm.lookup_key [OF i, of b]
      by (auto simp: hash_vlook_def big_hashmap_lookup t split: option.splits)
  qed
  have here: "hash_vlook (h1, t1) a = unat (u_0 (hentry h1 p))" using l1 by (simp add: hash_vlook_def big_hashmap_lookup)
  show "\<exists>t'. hash_findv t a n = Some (if hash_vlook t a = 0 then n else hash_vlook t a, t') \<and> hash_vinv k t' \<and>
      (\<forall>b. hash_vlook t' b = (if b = a \<and> hash_vlook t a = 0 then n else hash_vlook t b))"
  proof (cases "hash_vlook t a = 0")
    case False
    then have "hash_findv t a n = Some (hash_vlook t a, (h1, t1))"
      using f here look1 by (simp add: hash_findv_def t big_hashmap_findinsert)
    then show ?thesis using False look1 i1 o1 by (auto simp: hash_vinv_def big_hashmap_inv_def)
  next
    case True
    define h2 where "h2 = upd_entry p (\<lambda>e. e\<lparr>u_0 := of_nat n\<rparr>) h1"
    have la: "bhm.lookup h1 t1 a = Some (Some p)" using l1 by simp
    note w = bhm.value_write [OF i1 la h2_def]
    have fv: "hash_findv t a n = Some (n, (h2, t1))"
      using f here look1 True by (simp add: hash_findv_def t big_hashmap_findinsert h2_def)
    have "unat (of_nat n :: uint64) = n" using n(2) by (simp add: unat_of_nat)
    then have "hash_vlook (h2, t1) b = (if b = a then n else hash_vlook (h1, t1) b)" for b
      using l1 w(2,3) bhm.lookup_key [OF i1, of b] bhm.lookup_key [OF i1 la]
      by (auto simp: hash_vlook_def big_hashmap_lookup split: option.splits if_splits)
    moreover have "hash_vinv k (h2, t1)"
      using w(1) o1 by (auto simp: hash_vinv_def big_hashmap_inv_def h2_def owns_blocs_upd_entry)
    ultimately show ?thesis using fv True look1 by auto
  qed
qed

section \<open>The drivers\<close>

type_synonym 'r frame_tl = "(hash_heap \<times> kaapi_big_hashmap, 'r) kaapi_frame_tasklist"

text \<open>\<open>rtl_init\<close> is the queue \<^verbatim>\<open>kaapi_readytasklist_init\<close> leaves; the allocators start empty, and no version has number 0, the
  null pointer.\<close>

definition kaapi_frame_tasklist_init :: "'r \<Rightarrow> 'r frame_tl \<Rightarrow> 'r frame_tl" where
  "kaapi_frame_tasklist_init rtl_init ftl =
     ftl\<lparr>rtl := rtl_init, ntds := 0, total_tasks := 0, readylist := [], nvers := 1, nhandles := 0, t_infinity := 0\<rparr>"

text \<open>The result has the blocs that the release of the table frees; the recursion of the critical path gets as much stack as
  there are descriptors.\<close>

definition kaapi_thread_computereadylist ::
  "bool \<Rightarrow> formats \<Rightarrow> (nat \<Rightarrow> 'r \<Rightarrow> 'r) \<Rightarrow> kaapi_task list \<Rightarrow> 'r frame_tl \<Rightarrow> (errno \<times> nat list \<times> 'r frame_tl) option" where
  "kaapi_thread_computereadylist ctpriority resolve pushready tasks ftl =
     do { let ftl = ftl\<lparr>vtab := kaapi_big_hashmap_init (fst (vtab ftl)) (snd (vtab ftl)) None\<rparr>;
          ftl \<leftarrow> computereadylist_loop resolve hash_findv pushready tasks ftl;
          ftl \<leftarrow> (if ctpriority then kaapi_tasklist_critical_path (Suc (ntds ftl)) ftl else Some ftl);
          (freed, khm) \<leftarrow> kaapi_big_hashmap_destroy (fst (vtab ftl)) (snd (vtab ftl));
          Some (OK, freed, ftl\<lparr>vtab := (fst (vtab ftl), khm)\<rparr>) }"

text \<open>\<open>thread\<close> tells whether the caller is a thread of the runtime; \<open>tasks\<close> are those of its top frame.\<close>

definition kaapi_sched_computereadylist ::
  "bool \<Rightarrow> bool \<Rightarrow> formats \<Rightarrow> (nat \<Rightarrow> 'r \<Rightarrow> 'r) \<Rightarrow> 'r \<Rightarrow> kaapi_task list \<Rightarrow> 'r frame_tl \<Rightarrow> (errno \<times> 'r frame_tl) option" where
  "kaapi_sched_computereadylist thread ctpriority resolve pushready rtl_init tasks mem =
     (if \<not> thread then Some (EINVAL, mem)
      else if tasks = [] then Some (ENOENT, mem)
      else do {
        let frame_tasklist = kaapi_frame_tasklist_init rtl_init mem;
        (err, freed, frame_tasklist) \<leftarrow>
           kaapi_thread_computereadylist ctpriority resolve pushready tasks frame_tasklist;
        (n, frame_tasklist) \<leftarrow>
           kaapi_readytasklist_push_from_activationlist pushready (readylist frame_tasklist) frame_tasklist;
        Some (err, frame_tasklist) })"

section \<open>What the computation leaves\<close>

text \<open>Tasks that the computation handles: those with a format are user tasks whose shared parameters read or write.\<close>

definition has_format :: "formats \<Rightarrow> kaapi_task \<Rightarrow> bool" where
  "has_format resolve t \<longleftrightarrow> resolve (t_body t) \<noteq> None"

definition supported :: "formats \<Rightarrow> kaapi_task list \<Rightarrow> bool" where
  "supported resolve tasks \<longleftrightarrow>
     (\<forall>t \<in> set tasks. has_format resolve t \<longrightarrow>
        t_body t \<notin> {Taskmove_body, Taskalloc_body} \<and> (\<forall>p \<in> set (t_params t). shared p \<longrightarrow> is_access (param_mode p)))
   \<and> (\<Sum>t\<leftarrow>tasks. length (t_params t)) < 2 ^ 64 - 1"

abbreviation params_of :: "formats \<Rightarrow> kaapi_task list \<Rightarrow> (access_mode \<times> uint64) list list" where
  "params_of resolve tasks \<equiv> map t_params (filter (has_format resolve) tasks)"

text \<open>The graph with its critical path: everything but marks and dates is as the loop left it.\<close>

definition same_graph :: "'r frame_tl \<Rightarrow> 'r frame_tl \<Rightarrow> bool" where
  "same_graph s s' \<longleftrightarrow> ntds s' = ntds s \<and> readylist s' = readylist s \<and> rtl s' = rtl s \<and> total_tasks s' = total_tasks s
   \<and> (\<forall>x. td_list (tds s' x) = td_list (tds s x) \<and> td_wc (tds s' x) = td_wc (tds s x)
        \<and> td_fmt (tds s' x) = td_fmt (tds s x) \<and> td_task (tds s' x) = td_task (tds s x)
        \<and> td_counter (tds s' x) = td_counter (tds s x) \<and> td_bcast (tds s' x) = td_bcast (tds s x))"

lemma marks_more_same:
  assumes "marks_more s (s'\<lparr>t_infinity := i\<rparr>)"
  shows "same_graph s s' \<and> vtab s' = vtab s"
proof -
  obtain t where t: "s'\<lparr>t_infinity := i\<rparr> = s\<lparr>tds := t\<rparr>"
    "\<forall>x. \<exists>m d. t x = (tds s x)\<lparr>td_mark := m, td_date := d\<rparr>" using assms unfolding marks_more_def by blast
  have "ntds s' = ntds s" "readylist s' = readylist s" "rtl s' = rtl s" "total_tasks s' = total_tasks s"
    "vtab s' = vtab s" "tds s' = t"
    using arg_cong [OF t(1), of ntds] arg_cong [OF t(1), of readylist] arg_cong [OF t(1), of rtl]
      arg_cong [OF t(1), of total_tasks] arg_cong [OF t(1), of vtab] arg_cong [OF t(1), of tds] by simp_all
  moreover have "td_list (t x) = td_list (tds s x)" "td_wc (t x) = td_wc (tds s x)" "td_fmt (t x) = td_fmt (tds s x)"
    "td_task (t x) = td_task (tds s x)" "td_counter (t x) = td_counter (tds s x)" "td_bcast (t x) = td_bcast (tds s x)" for x
  proof -
    obtain m d where "t x = (tds s x)\<lparr>td_mark := m, td_date := d\<rparr>" using t(2) by blast
    then show "td_list (t x) = td_list (tds s x)" "td_wc (t x) = td_wc (tds s x)" "td_fmt (t x) = td_fmt (tds s x)"
      "td_task (t x) = td_task (tds s x)" "td_counter (t x) = td_counter (tds s x)" "td_bcast (t x) = td_bcast (tds s x)"
      by simp_all
  qed
  ultimately show ?thesis unfolding same_graph_def by simp
qed

text \<open>The frame after the computation: the graph invariant and the frame's links, on the final state.\<close>

definition frame_graph :: "(access_mode \<times> uint64) list list \<Rightarrow> nat list \<Rightarrow> 'r frame_tl \<Rightarrow> bool" where
  "frame_graph ps ids s \<longleftrightarrow>
     length ids = length ps \<and> sorted_wrt (<) ids
   \<and> {x. x < ntds s \<and> td_fmt (tds s x) \<noteq> None} = set ids
   \<and> (\<forall>i < length ps. t_params (td_task (tds s (ids ! i))) = ps ! i)
   \<and> (\<forall>j < length ps. \<forall>i < length ps. ids ! j \<in> set (td_list (tds s (ids ! i))) \<longleftrightarrow>
        (\<exists>a. accesses (ps ! j) a \<and> last_writer (take j ps) a = Some i))
   \<and> (\<forall>j < length ps. td_wc (tds s (ids ! j)) = 0 \<longleftrightarrow> (\<forall>a. \<not> accesses (ps ! j) a))"

lemma same_graph_inv:
  assumes sg: "same_graph s s'" and g: "graph_inv s"
  shows "edges_ok s' \<and> (\<forall>y < ntds s'. td_wc (tds s' y) = indegree s' y) \<and> distinct (readylist s')
    \<and> set (readylist s') = initials s' \<and> (\<forall>x < ntds s'. td_counter (tds s' x) = 0 \<and> td_bcast (tds s' x) = [])
    \<and> total_tasks s' = ntds s'"
proof -
  have F: "ntds s' = ntds s" "readylist s' = readylist s" "total_tasks s' = total_tasks s"
    "td_list (tds s' x) = td_list (tds s x)" "td_wc (tds s' x) = td_wc (tds s x)"
    "td_fmt (tds s' x) = td_fmt (tds s x)" "td_counter (tds s' x) = td_counter (tds s x)"
    "td_bcast (tds s' x) = td_bcast (tds s x)" for x
    using sg by (simp_all add: same_graph_def)
  then have "rank s' x = rank s x" "initials s' = initials s" "indegree s' x = indegree s x" for x
    by (simp_all add: rank_def initials_def indegree_def)
  then show ?thesis using g by (simp add: graph_inv_def edges_ok_def fresh_tds_def F)
qed

text \<open>The computation of the dependencies does not touch the critical path.\<close>

lemma push_from_t_infinity:
  "kaapi_readytasklist_push_from_activationlist pushready ts s = Some (n, s') \<Longrightarrow> t_infinity s' = t_infinity s"
  by (induction ts arbitrary: s n)
    (auto simp: upd_td_def Let_def split: Option.bind_splits prod.splits if_splits)

lemma pushactivated_t_infinity:
  "kaapi_readytasklist_pushactivated pushready td s = Some (n, s') \<Longrightarrow> t_infinity s' = t_infinity s"
  by (auto simp: kaapi_readytasklist_pushactivated_def dest!: push_from_t_infinity split: Option.bind_splits prod.splits)

lemma findinsert_t_infinity:
  "kaapi_version_findinsert findv s a = Some (v, s') \<Longrightarrow> t_infinity s' = t_infinity s"
  by (auto simp: kaapi_version_findinsert_def upd_ver_def split: Option.bind_splits prod.splits if_splits)

lemma initialaccess_t_infinity:
  "kaapi_version_add_initialaccess s v m = Some s' \<Longrightarrow> t_infinity s' = t_infinity s"
  by (auto simp: kaapi_version_add_initialaccess_def upd_ver_def kaapi_tasklist_allocate_td_def
      kaapi_frame_tasklist_pushback_ready_def Let_def split: if_splits)

lemma computeready_t_infinity:
  "kaapi_thread_computeready_access s v td m = (h, s') \<Longrightarrow> t_infinity s' = t_infinity s"
  by (auto simp: kaapi_thread_computeready_access_def upd_ver_def kaapi_tasklist_push_successor_def upd_td_def Let_def
      split: if_splits)

lemma param_t_infinity:
  "computedep_param findv td i p s = Some s' \<Longrightarrow> t_infinity s' = t_infinity s"
  by (auto simp: computedep_param_def upd_td_def Let_def
      dest!: findinsert_t_infinity initialaccess_t_infinity computeready_t_infinity
      split: Option.bind_splits prod.splits if_splits option.splits)

lemma params_t_infinity:
  "computedep_params findv td i ps s = Some s' \<Longrightarrow> t_infinity s' = t_infinity s"
  by (induction ps arbitrary: i s) (auto dest!: param_t_infinity split: Option.bind_splits)

lemma task_t_infinity:
  "kaapi_thread_computedep_task resolve findv pushready s t = Some (e, s') \<Longrightarrow> t_infinity s' = t_infinity s"
  by (auto simp: kaapi_thread_computedep_task_def kaapi_tasklist_allocate_td_def upd_td_def Let_def
      dest!: params_t_infinity pushactivated_t_infinity
      split: Option.bind_splits prod.splits if_splits option.splits)

lemma loop_t_infinity:
  "computereadylist_loop resolve findv pushready ts s = Some s' \<Longrightarrow> t_infinity s' = t_infinity s"
  by (induction ts arbitrary: s) (auto dest!: task_t_infinity split: Option.bind_splits prod.splits)

definition computed ::
  "bool \<Rightarrow> (access_mode \<times> uint64) list list \<Rightarrow> 'r \<Rightarrow> nat \<Rightarrow> nat list \<Rightarrow> nat list \<Rightarrow> 'r frame_tl \<Rightarrow> bool" where
  "computed ctpriority ps rtl_init n freed ids s \<longleftrightarrow>
     frame_graph ps ids s \<and> rtl s = rtl_init \<and> freed = rev [n..<fresh_bloc (fst (vtab s))]
    \<and> edges_ok s \<and> (\<forall>y < ntds s. td_wc (tds s y) = indegree s y)
    \<and> distinct (readylist s) \<and> set (readylist s) = initials s
    \<and> (\<forall>x < ntds s. td_counter (tds s x) = 0 \<and> td_bcast (tds s x) = []) \<and> total_tasks s = ntds s
    \<and> (ctpriority \<longrightarrow> (\<forall>x \<in> set (readylist s). longest (links s) x (td_date (tds s x)) \<and> td_date (tds s x) \<le> t_infinity s)
         \<and> (t_infinity s = 0 \<or> (\<exists>x \<in> set (readylist s). td_date (tds s x) = t_infinity s)))"

lemma computedD:
  assumes "computed ctpriority ps rtl_init n freed ids s"
  shows "frame_graph ps ids s" "edges_ok s" "\<forall>y < ntds s. td_wc (tds s y) = indegree s y" "set (readylist s) = initials s"
    "distinct (readylist s)" "rtl s = rtl_init" "freed = rev [n..<fresh_bloc (fst (vtab s))]"
    "\<forall>x < ntds s. td_counter (tds s x) = 0 \<and> td_bcast (tds s x) = []" "total_tasks s = ntds s"
    "ctpriority \<Longrightarrow> (\<forall>x \<in> set (readylist s). longest (links s) x (td_date (tds s x)) \<and> td_date (tds s x) \<le> t_infinity s)
         \<and> (t_infinity s = 0 \<or> (\<exists>x \<in> set (readylist s). td_date (tds s x) = t_infinity s))"
  using assms unfolding computed_def by blast+

lemma computereadylist_result:
  assumes "supported resolve tasks" and "s0 = kaapi_frame_tasklist_init rtl_init mem"
  shows "\<exists>freed s ids. kaapi_thread_computereadylist ctpriority resolve pushready tasks s0 = Some (OK, freed, s)
    \<and> computed ctpriority (params_of resolve tasks) rtl_init (fresh_bloc (fst (vtab mem))) freed ids s"
proof -
  let ?n = "fresh_bloc (fst (vtab mem))"
  obtain h khm where init: "kaapi_big_hashmap_init (fst (vtab s0)) (snd (vtab s0)) None = (h, khm)" by fastforce
  define s1 where "s1 = s0\<lparr>vtab := (h, khm)\<rparr>"
  have F1: "ntds s1 = 0" "readylist s1 = []" "total_tasks s1 = 0" "nvers s1 = 1" "rtl s1 = rtl_init" "vtab s1 = (h, khm)"
    "t_infinity s1 = 0"
    by (simp_all add: s1_def assms(2) kaapi_frame_tasklist_init_def)
  have e: "h = fst (vtab mem)" "entries khm = (\<lambda>_. None)" "allallocatedbloc khm = None" "currentbloc khm = None"
    using init by (auto simp: kaapi_big_hashmap_init_def assms(2) kaapi_frame_tasklist_init_def)
  have ti: "bhm.tab_inv h khm \<and> bhm.lookup h khm a = Some None" for a
    by (rule bhm.tab_inv_empty) (simp_all add: e cur_ok_def)
  have own: "owns_blocs_from ?n h khm" by (simp add: owns_blocs_from_def e)
  have f1: "vt.frame_ok ?n [] [] s1"
    using ti own by (intro vt.frame_ok_empty)
      (auto simp: F1 hash_vinv_def big_hashmap_inv_def hash_vlook_def big_hashmap_lookup)
  have t: "\<forall>t \<in> set tasks. resolve (t_body t) \<noteq> None \<longrightarrow>
      (\<exists>n. t_body t = User_body n) \<and> (\<forall>p \<in> set (t_params t). shared p \<longrightarrow> is_access (param_mode p))"
    using assms(1) unfolding supported_def has_format_def by (metis insertCI task_body.exhaust)
  have l: "nvers s1 + (\<Sum>t\<leftarrow>tasks. length (t_params t)) \<le> 2 ^ 64" using assms(1) by (simp add: supported_def F1)
  obtain ids s2 where s2: "computereadylist_loop resolve hash_findv pushready tasks s1 = Some s2"
    "vt.frame_ok ?n (params_of resolve tasks) ids s2" "rtl s2 = rtl_init"
    using vt.frame_ok_loop [where resolve = resolve and pushready = pushready, OF f1 l t] F1(5)
    by (auto simp: has_format_def [abs_def])
  have g2: "graph_inv s2" and v2: "hash_vinv ?n (vtab s2)" and fg: "frame_graph (params_of resolve tasks) ids s2"
    using s2(2) unfolding vt.frame_ok_def vt.ver_inv_def frame_graph_def by simp_all
  obtain s3 where s3: "(if ctpriority then kaapi_tasklist_critical_path (Suc (ntds s2)) s2 else Some s2) = Some s3"
    and sg: "same_graph s2 s3" "vtab s3 = vtab s2"
    and cp: "ctpriority \<longrightarrow> (\<forall>x \<in> set (readylist s2). longest (links s2) x (td_date (tds s3 x)) \<and> td_date (tds s3 x) \<le> t_infinity s3)
         \<and> (t_infinity s3 = t_infinity s2 \<or> (\<exists>x \<in> set (readylist s2). td_date (tds s3 x) = t_infinity s3))"
  proof (cases ctpriority)
    case True
    obtain s3 where c: "kaapi_tasklist_critical_path (Suc (ntds s2)) s2 = Some s3"
      "marks_more s2 (s3\<lparr>t_infinity := t_infinity s2\<rparr>)"
      "\<forall>x \<in> set (readylist s2). longest (links s2) x (td_date (tds s3 x)) \<and> td_date (tds s3 x) \<le> t_infinity s3"
      "t_infinity s3 = t_infinity s2 \<or> (\<exists>x \<in> set (readylist s2). td_date (tds s3 x) = t_infinity s3)"
      using critical_path_spec [OF g2] by blast
    then show thesis using True that [of s3] marks_more_same [OF c(2)] by simp
  next
    case False
    then show thesis using that [of s2] by (simp add: same_graph_def)
  qed
  obtain h' khm' where v3: "vtab s3 = (h', khm')" by fastforce
  define s where "s = s3\<lparr>vtab := (h', khm'\<lparr>allallocatedbloc := None, currentbloc := None\<rparr>)\<rparr>"
  have "bloc_chain h' (allallocatedbloc khm') (rev [?n..<fresh_bloc h'])"
    using v2 unfolding sg(2) [symmetric] v3 by (simp add: hash_vinv_def owns_blocs_from_def)
  then have run: "kaapi_thread_computereadylist ctpriority resolve pushready tasks s0 =
      Some (OK, rev [?n..<fresh_bloc h'], s)"
    using s2(1) s3 free_blocs_chain v3
    by (simp add: kaapi_thread_computereadylist_def init s1_def s_def kaapi_big_hashmap_destroy_def Let_def)
  have sgs: "same_graph s2 s" using sg(1) by (simp add: s_def same_graph_def)
  have lk: "links s = links s2" using sgs by (auto simp: links_def same_graph_def)
  have rd: "readylist s = readylist s2" "rtl s = rtl s2" using sgs by (simp_all add: same_graph_def)
  have t2: "t_infinity s2 = 0" using loop_t_infinity [OF s2(1)] F1(7) by simp
  have "frame_graph (params_of resolve tasks) ids s" using fg sgs by (simp add: frame_graph_def same_graph_def)
  moreover have "fresh_bloc (fst (vtab s)) = fresh_bloc h'" "t_infinity s = t_infinity s3" "tds s = tds s3"
    by (simp_all add: s_def)
  ultimately have "computed ctpriority (params_of resolve tasks) rtl_init ?n (rev [?n..<fresh_bloc h']) ids s"
    unfolding computed_def using same_graph_inv [OF sgs g2] cp s2(3) rd t2 lk by simp
  then show ?thesis using run by blast
qed

text \<open>A frame that has an access has an initial descriptor, and an initial descriptor waits for nothing.\<close>

lemma links_to_user:
  assumes fg: "frame_graph ps ids s" and e: "edges_ok s" and x: "x < ntds s" and y: "y \<in> set (td_list (tds s x))"
  shows "\<exists>j < length ps. y = ids ! j"
proof -
  have "y < ntds s" "rank s x < rank s y" using e x y by (simp_all add: edges_ok_def)
  then have "td_fmt (tds s y) \<noteq> None" "y < ntds s" by (auto simp: rank_def split: if_splits)
  then have "y \<in> set ids" using fg by (auto simp: frame_graph_def)
  then show ?thesis using fg by (auto simp: frame_graph_def in_set_conv_nth)
qed

lemma user_descr:
  assumes fg: "frame_graph ps ids s" and j: "j < length ps"
  shows "ids ! j < ntds s" "td_fmt (tds s (ids ! j)) \<noteq> None"
proof -
  have "ids ! j \<in> set ids" using fg j by (simp add: frame_graph_def)
  then show "ids ! j < ntds s" "td_fmt (tds s (ids ! j)) \<noteq> None" using fg by (auto simp: frame_graph_def)
qed

lemma initial_waits_for_none:
  assumes e: "edges_ok s" and w: "\<forall>y < ntds s. td_wc (tds s y) = indegree s y" and x: "x \<in> initials s"
  shows "td_wc (tds s x) = 0"
proof -
  have "x \<notin> set (td_list (tds s y))" if "y < ntds s" for y
  proof
    assume "x \<in> set (td_list (tds s y))"
    then have "rank s y < rank s x" using e that by (simp add: edges_ok_def)
    then show False using x by (simp add: rank_def initials_def)
  qed
  then show ?thesis using w x by (auto simp: indegree_def initials_def count_list_0_iff)
qed

lemma has_initial:
  assumes fg: "frame_graph ps ids s" and e: "edges_ok s" and w: "\<forall>y < ntds s. td_wc (tds s y) = indegree s y"
    and j: "j < length ps" and a: "accesses (ps ! j) a"
  shows "initials s \<noteq> {}"
proof -
  obtain k where k: "k < length ps" "\<exists>a. accesses (ps ! k) a" and min: "\<forall>i < k. \<nexists>a. accesses (ps ! i) a"
  proof -
    let ?P = "\<lambda>i. i < length ps \<and> (\<exists>a. accesses (ps ! i) a)"
    have "?P j" using j a by blast
    then have "?P (LEAST i. ?P i)" "\<forall>i < (LEAST i. ?P i). \<not> ?P i" by (fact LeastI, blast dest: not_less_Least)
    then show thesis using that [of "LEAST i. ?P i"] by (meson order.strict_trans)
  qed
  have "td_wc (tds s (ids ! k)) \<noteq> 0" using fg k by (simp add: frame_graph_def)
  then have "indegree s (ids ! k) \<noteq> 0" using w user_descr [OF fg k(1)] by simp
  then obtain x where x: "x < ntds s" "ids ! k \<in> set (td_list (tds s x))"
    by (auto simp: indegree_def count_list_0_iff)
  have "td_fmt (tds s x) = None"
  proof (rule ccontr)
    assume "td_fmt (tds s x) \<noteq> None"
    then have "x \<in> set ids" using x(1) fg by (auto simp: frame_graph_def)
    then obtain i where i: "i < length ps" "x = ids ! i" using fg by (auto simp: frame_graph_def in_set_conv_nth)
    then obtain b where "last_writer (take k ps) b = Some i" using fg k(1) x(2) unfolding frame_graph_def by blast
    then have "i < k" "writes (ps ! i) b" using last_writer_Some [of "take k ps" b i] k(1) by auto
    then show False using min writes_accesses by blast
  qed
  then show ?thesis using x(1) by (auto simp: initials_def)
qed

section \<open>Properties\<close>


text \<open>C26: in the graph the computation leaves, the counter of every descriptor is the number of links to it, the
  links go from initial descriptors to tasks and between tasks forward in program order (so there is no cycle), the
  list of initially ready descriptors is the initial ones, each once, and none of them waits for a link.\<close>

theorem dataflow_counts_and_ready_list:
  assumes "supported resolve tasks"
  shows "\<exists>freed s. kaapi_thread_computereadylist ctpriority resolve pushready tasks (kaapi_frame_tasklist_init rtl_init mem) =
        Some (OK, freed, s)
    \<and> (\<forall>y < ntds s. td_wc (tds s y) = indegree s y)
    \<and> (\<forall>x < ntds s. \<forall>y \<in> set (td_list (tds s x)).
         y < ntds s \<and> td_fmt (tds s y) \<noteq> None \<and> (td_fmt (tds s x) \<noteq> None \<longrightarrow> x < y))
    \<and> distinct (readylist s) \<and> set (readylist s) = initials s \<and> (\<forall>x \<in> initials s. td_wc (tds s x) = 0)"
proof -
  obtain freed s ids where run: "kaapi_thread_computereadylist ctpriority resolve pushready tasks
        (kaapi_frame_tasklist_init rtl_init mem) = Some (OK, freed, s)"
    and c: "computed ctpriority (params_of resolve tasks) rtl_init (fresh_bloc (fst (vtab mem))) freed ids s"
    using computereadylist_result [OF assms refl, where pushready = pushready and rtl_init = rtl_init and mem = mem and ctpriority = ctpriority]
    by (elim exE conjE) (rule that; assumption)
  note r = run computedD(2,3,5,4) [OF c]
  have "y < ntds s \<and> td_fmt (tds s y) \<noteq> None \<and> (td_fmt (tds s x) \<noteq> None \<longrightarrow> x < y)"
    if "x < ntds s" "y \<in> set (td_list (tds s x))" for x y
  proof -
    have "y < ntds s" "rank s x < rank s y" using r(2) that by (simp_all add: edges_ok_def)
    then show ?thesis by (auto simp: rank_def split: if_splits)
  qed
  then show ?thesis using r initial_waits_for_none [OF r(2,3)] by blast
qed

text \<open>A task that writes nothing has no successor, so a later writer of a datum it reads does not wait for it: the
  write-after-read dependency that the comment in \<^verbatim>\<open>kaapi_thread_computeready_access\<close> says is serialised is not in the
  graph.\<close>

theorem readers_have_no_successors:
  assumes "supported resolve tasks" and "ps = params_of resolve tasks"
  shows "\<exists>freed s ids.
      kaapi_thread_computereadylist ctpriority resolve pushready tasks (kaapi_frame_tasklist_init rtl_init mem) =
        Some (OK, freed, s)
    \<and> length ids = length ps
    \<and> (\<forall>i < length ps. t_params (td_task (tds s (ids ! i))) = ps ! i
         \<and> ((\<forall>a. \<not> writes (ps ! i) a) \<longrightarrow> td_list (tds s (ids ! i)) = []))"
proof -
  obtain freed s ids where r: "kaapi_thread_computereadylist ctpriority resolve pushready tasks
        (kaapi_frame_tasklist_init rtl_init mem) = Some (OK, freed, s)"
    "computed ctpriority ps rtl_init (fresh_bloc (fst (vtab mem))) freed ids s"
    using computereadylist_result [OF assms(1) refl, where pushready = pushready and rtl_init = rtl_init and mem = mem and ctpriority = ctpriority] unfolding assms(2) [symmetric]
    by (elim exE conjE) (rule that; assumption)
  note c = computedD [OF r(2)]
  have "td_list (tds s (ids ! i)) = []" if i: "i < length ps" and no: "\<forall>a. \<not> writes (ps ! i) a" for i
  proof (rule ccontr)
    assume "td_list (tds s (ids ! i)) \<noteq> []"
    then obtain y where y: "y \<in> set (td_list (tds s (ids ! i)))" by fastforce
    then obtain j where j: "j < length ps" "y = ids ! j"
      using links_to_user [OF c(1,2) user_descr(1) [OF c(1) i]] by blast
    then obtain a where "last_writer (take j ps) a = Some i" using c(1) y i unfolding frame_graph_def by blast
    then have "writes (ps ! i) a" using last_writer_Some [of "take j ps" a i] j(1) by auto
    then show False using no by blast
  qed
  then show ?thesis
    using r(1) c(1) unfolding frame_graph_def by (intro exI [of _ freed] exI [of _ s] exI [of _ ids]) simp
qed

text \<open>A task without shared parameters has a descriptor that waits for nothing, but no activation list names it,
  the list of ready descriptors does not, and nothing is pushed on the queue of ready tasks: the call for
  \<^verbatim>\<open>wc == 0\<close> activates the successors of the descriptor, which it cannot have, instead of pushing it.\<close>

theorem independent_tasks_never_ready:
  assumes "supported resolve tasks" and "ps = params_of resolve tasks"
  shows "\<exists>freed s ids.
      kaapi_thread_computereadylist ctpriority resolve pushready tasks (kaapi_frame_tasklist_init rtl_init mem) =
        Some (OK, freed, s)
    \<and> length ids = length ps \<and> rtl s = rtl_init
    \<and> (\<forall>j < length ps. td_wc (tds s (ids ! j)) = 0 \<longleftrightarrow> (\<forall>a. \<not> accesses (ps ! j) a))
    \<and> (\<forall>j < length ps. (\<forall>a. \<not> accesses (ps ! j) a) \<longrightarrow>
         ids ! j < ntds s \<and> ids ! j \<notin> set (readylist s) \<and> (\<forall>x < ntds s. ids ! j \<notin> set (td_list (tds s x))))"
proof -
  obtain freed s ids where run: "kaapi_thread_computereadylist ctpriority resolve pushready tasks
        (kaapi_frame_tasklist_init rtl_init mem) = Some (OK, freed, s)"
    and cc: "computed ctpriority ps rtl_init (fresh_bloc (fst (vtab mem))) freed ids s"
    using computereadylist_result [OF assms(1) refl, where pushready = pushready and rtl_init = rtl_init and mem = mem and ctpriority = ctpriority] unfolding assms(2) [symmetric]
    by (elim exE conjE) (rule that; assumption)
  note r = run computedD(1,6,3,4) [OF cc]
  have wc: "td_wc (tds s (ids ! j)) = 0 \<longleftrightarrow> (\<forall>a. \<not> accesses (ps ! j) a)" if "j < length ps" for j
    using r(2) that unfolding frame_graph_def by blast
  have "ids ! j < ntds s \<and> ids ! j \<notin> set (readylist s) \<and> (\<forall>x < ntds s. ids ! j \<notin> set (td_list (tds s x)))"
    if j: "j < length ps" and no: "\<forall>a. \<not> accesses (ps ! j) a" for j
  proof -
    note u = user_descr [OF r(2) j]
    have "indegree s (ids ! j) = 0" using wc [OF j] no r(4) u(1) by simp
    then show ?thesis using u r(5) by (auto simp: indegree_def initials_def count_list_0_iff)
  qed
  moreover have "length ids = length ps" using r(2) by (simp add: frame_graph_def)
  ultimately show ?thesis using r(1,3) wc by blast
qed

text \<open>C38: with \<^verbatim>\<open>ctpriority\<close> each initial descriptor is dated with the length of the longest path of links from it, and
  \<^verbatim>\<open>t_infinity\<close> is the greatest of these dates, the length of the critical path of the frame.\<close>

theorem critical_path_is_longest:
  assumes "supported resolve tasks"
  shows "\<exists>freed s. kaapi_thread_computereadylist True resolve pushready tasks (kaapi_frame_tasklist_init rtl_init mem) =
        Some (OK, freed, s)
    \<and> (\<forall>x \<in> set (readylist s). longest (links s) x (td_date (tds s x)))
    \<and> t_infinity s = Max (insert 0 ((\<lambda>x. td_date (tds s x)) ` set (readylist s)))"
proof -
  obtain freed s ids where run: "kaapi_thread_computereadylist True resolve pushready tasks
        (kaapi_frame_tasklist_init rtl_init mem) = Some (OK, freed, s)"
    and c: "computed True (params_of resolve tasks) rtl_init (fresh_bloc (fst (vtab mem))) freed ids s"
    using computereadylist_result [OF assms refl, where pushready = pushready and rtl_init = rtl_init and mem = mem and ctpriority = True]
    by (elim exE conjE) (rule that; assumption)
  then have r: "kaapi_thread_computereadylist True resolve pushready tasks
        (kaapi_frame_tasklist_init rtl_init mem) = Some (OK, freed, s)"
    "\<forall>x \<in> set (readylist s). longest (links s) x (td_date (tds s x)) \<and> td_date (tds s x) \<le> t_infinity s"
    "t_infinity s = 0 \<or> (\<exists>x \<in> set (readylist s). td_date (tds s x) = t_infinity s)"
    using computedD(10) [OF c] by simp_all
  have "t_infinity s = Max (insert 0 ((\<lambda>x. td_date (tds s x)) ` set (readylist s)))"
    using r(2,3) by (intro Max_eqI [symmetric]) (auto simp: image_iff intro: bexI [rotated])
  then show ?thesis using r(1,2) by blast
qed

text \<open>\<^verbatim>\<open>kaapi_sched_computereadylist\<close> divides by zero on every frame that has an access: it hands the list of initial
  descriptors, whose counter is 0, to the function that activates descriptors modulo that counter.\<close>

theorem sched_computereadylist_traps:
  assumes "supported resolve tasks" and "t \<in> set tasks" and "has_format resolve t" and "accesses (t_params t) a"
  shows "kaapi_sched_computereadylist True ctpriority resolve pushready rtl_init tasks mem = None"
proof -
  obtain freed s ids where run: "kaapi_thread_computereadylist ctpriority resolve pushready tasks
        (kaapi_frame_tasklist_init rtl_init mem) = Some (OK, freed, s)"
    and c: "computed ctpriority (params_of resolve tasks) rtl_init (fresh_bloc (fst (vtab mem))) freed ids s"
    using computereadylist_result [OF assms(1) refl, where pushready = pushready and rtl_init = rtl_init and mem = mem and ctpriority = ctpriority]
    by (elim exE conjE) (rule that; assumption)
  note r = run computedD(1-4) [OF c]
  have "t_params t \<in> set (params_of resolve tasks)" using assms(2,3) by simp
  then obtain j where "j < length (params_of resolve tasks)" "accesses (params_of resolve tasks ! j) a"
    using assms(4) unfolding in_set_conv_nth by metis
  then have "initials s \<noteq> {}" using has_initial [OF r(2-4)] by blast
  then obtain x xs where x: "readylist s = x # xs" using r(5) by (cases "readylist s") auto
  then have "td_wc (tds s x) = 0" using initial_waits_for_none [OF r(3,4)] r(5) by auto
  then have "kaapi_readytasklist_push_from_activationlist pushready (readylist s) s = None"
    by (simp add: x kaapi_taskdescr_activated_def Let_def)
  then show ?thesis using r(1) assms(2) by (auto simp: kaapi_sched_computereadylist_def Let_def)
qed

text \<open>A shared parameter whose mode neither reads nor writes, as the cumulative write has, stops the
  computation, whatever the state: the first access to the datum fails the assertion of
  \<^verbatim>\<open>kaapi_version_add_initialaccess\<close>, a later one dereferences the null handle.\<close>

theorem access_neither_reads_nor_writes_stops:
  assumes "shared p" and "\<not> is_access (param_mode p)"
  shows "computedep_param findv td i p s = None"
proof -
  have m: "\<not> KAAPI_ACCESS_IS_READ (param_mode p)" "\<not> KAAPI_ACCESS_IS_WRITE (param_mode p)"
    "\<not> KAAPI_ACCESS_IS_READWRITE (param_mode p)"
    using assms(2) readwrite_is [of "param_mode p"] by (auto simp: is_access_def)
  then have "kaapi_version_add_initialaccess r v (param_mode p) = None"
    "fst (kaapi_thread_computeready_access r v td (param_mode p)) = None" for r :: "('a, 'b) kaapi_frame_tasklist" and v
    by (simp_all add: kaapi_version_add_initialaccess_def kaapi_thread_computeready_access_def Let_def)
  then show ?thesis
    using assms(1) unfolding computedep_param_def shared_def param_mode_def [symmetric] Let_def
    by (auto split: Option.bind_splits prod.splits option.splits) (metis fst_conv option.distinct(1))+
qed

section \<open>Witnesses\<close>

text \<open>A frame with a task that writes a datum, one that reads it, one that writes it again, and one without parameters.\<close>

definition sample_formats :: formats where
  "sample_formats b = (case b of User_body n \<Rightarrow> Some n | _ \<Rightarrow> None)"

definition sample_task :: "nat \<Rightarrow> (access_mode \<times> uint64) list \<Rightarrow> kaapi_task" where
  "sample_task n ps = \<lparr>t_body = User_body n, t_params = ps, t_handles = map (\<lambda>_. None) ps, t_priority = 0\<rparr>"

definition sample_tasks :: "kaapi_task list" where
  "sample_tasks = [sample_task 0 [(4, 4096)], sample_task 1 [(2, 4096), (1, 7)], sample_task 2 [(6, 4096)], sample_task 3 []]"

definition sample_td :: kaapi_taskdescr where
  "sample_td = \<lparr>td_counter = 0, td_wc = 0, td_task = sample_task 9 [], td_fmt = None, td_priority = 0, td_mark = 0,
     td_date = 0, td_bcast = [], td_list = []\<rparr>"

definition sample_frame :: "nat list frame_tl" where
  "sample_frame = \<lparr>rtl = [], tds = (\<lambda>_. sample_td), ntds = 0, total_tasks = 0, readylist = [],
     vers = (\<lambda>_. \<lparr>v_last_mode = 0, v_handle = 0, v_writer = 0\<rparr>), nvers = 1, nhandles = 0,
     vtab = (sample_heap, sample_big_map), t_infinity = 0\<rparr>"

lemmas mode_defs = shared_def is_access_def param_mode_def KAAPI_ACCESS_GET_MODE_def KAAPI_ACCESS_MODE_V_def
  KAAPI_ACCESS_MODE_R_def KAAPI_ACCESS_MODE_W_def KAAPI_ACCESS_IS_READ_def KAAPI_ACCESS_IS_WRITE_def
  KAAPI_ACCESS_IS_READWRITE_def registers_write_def

lemma sample_supported: "supported sample_formats sample_tasks"
  by (simp add: supported_def has_format_def sample_formats_def sample_tasks_def sample_task_def mode_defs)

definition sample_params :: "(access_mode \<times> uint64) list list" where
  "sample_params = [[(4, 4096)], [(2, 4096), (1, 7)], [(6, 4096)], []]"

lemma sample_params_of: "sample_params = params_of sample_formats sample_tasks"
  by (simp add: sample_params_def has_format_def sample_formats_def sample_tasks_def sample_task_def)

lemma sample_accesses:
  "accesses [(4, 4096)] 4096" "accesses [(2, 4096), (1, 7)] 4096" "\<not> accesses [] a"
  "\<not> writes [(2, 4096), (1, 7)] a" "writes [(4, 4096)] 4096"
  by (auto simp: accesses_def writes_def mode_defs)


theorem dataflow_counts_and_ready_list_witness:
  "\<exists>freed s. kaapi_thread_computereadylist True sample_formats (\<lambda>t q. t # q) sample_tasks
       (kaapi_frame_tasklist_init [] sample_frame) = Some (OK, freed, s)
     \<and> set (readylist s) = initials s"
proof -
  obtain freed s where "kaapi_thread_computereadylist True sample_formats (\<lambda>t q. t # q) sample_tasks
       (kaapi_frame_tasklist_init [] sample_frame) = Some (OK, freed, s)"
    "set (readylist s) = initials s"
    using dataflow_counts_and_ready_list [OF sample_supported,
        where pushready = "\<lambda>t q. t # q" and rtl_init = "[]" and mem = sample_frame and ctpriority = True]
    by (elim exE conjE) (rule that; assumption)
  then show ?thesis by blast
qed

theorem readers_have_no_successors_witness:
  "\<exists>freed s ids. kaapi_thread_computereadylist False sample_formats (\<lambda>t q. t # q) sample_tasks
       (kaapi_frame_tasklist_init [] sample_frame) = Some (OK, freed, s)
     \<and> length ids = 4 \<and> td_list (tds s (ids ! 1)) = []"
proof -
  obtain freed s ids where run: "kaapi_thread_computereadylist False sample_formats (\<lambda>t q. t # q) sample_tasks
       (kaapi_frame_tasklist_init [] sample_frame) = Some (OK, freed, s)"
    and len: "length ids = length sample_params"
    and no: "\<forall>i < length sample_params. t_params (td_task (tds s (ids ! i))) = sample_params ! i
         \<and> ((\<forall>a. \<not> writes (sample_params ! i) a) \<longrightarrow> td_list (tds s (ids ! i)) = [])"
    using readers_have_no_successors [OF sample_supported sample_params_of,
        where pushready = "\<lambda>t q. t # q" and rtl_init = "[]" and mem = sample_frame and ctpriority = False]
    by (elim exE conjE) (rule that; assumption)
  have "\<forall>a. \<not> writes (sample_params ! 1) a" using sample_accesses(4) by (simp add: sample_params_def)
  then have "td_list (tds s (ids ! 1)) = []" using no [rule_format, of 1] by (simp add: sample_params_def)
  moreover have "length ids = 4" using len by (simp add: sample_params_def)
  ultimately show ?thesis using run by blast
qed

theorem independent_tasks_never_ready_witness:
  "\<exists>freed s ids. kaapi_thread_computereadylist False sample_formats (\<lambda>t q. t # q) sample_tasks
       (kaapi_frame_tasklist_init [] sample_frame) = Some (OK, freed, s)
     \<and> ids ! 3 < ntds s \<and> td_wc (tds s (ids ! 3)) = 0 \<and> ids ! 3 \<notin> set (readylist s) \<and> rtl s = []"
proof -
  obtain freed s ids where run: "kaapi_thread_computereadylist False sample_formats (\<lambda>t q. t # q) sample_tasks
       (kaapi_frame_tasklist_init [] sample_frame) = Some (OK, freed, s)"
    and q: "rtl s = []"
    and wc: "\<forall>j < length sample_params. td_wc (tds s (ids ! j)) = 0 \<longleftrightarrow> (\<forall>a. \<not> accesses (sample_params ! j) a)"
    and nr: "\<forall>j < length sample_params. (\<forall>a. \<not> accesses (sample_params ! j) a) \<longrightarrow>
         ids ! j < ntds s \<and> ids ! j \<notin> set (readylist s) \<and> (\<forall>x < ntds s. ids ! j \<notin> set (td_list (tds s x)))"
    using independent_tasks_never_ready [OF sample_supported sample_params_of,
        where pushready = "\<lambda>t q. t # q" and rtl_init = "[]" and mem = sample_frame and ctpriority = False]
    by (elim exE conjE) (rule that; assumption)
  have "\<forall>a. \<not> accesses (sample_params ! 3) a" using sample_accesses(3) by (simp add: sample_params_def)
  then have "td_wc (tds s (ids ! 3)) = 0" "ids ! 3 < ntds s" "ids ! 3 \<notin> set (readylist s)"
    using wc [rule_format, of 3] nr [rule_format, of 3] by (simp_all add: sample_params_def)
  then show ?thesis using run q by blast
qed

theorem critical_path_is_longest_witness:
  "\<exists>freed s. kaapi_thread_computereadylist True sample_formats (\<lambda>t q. t # q) sample_tasks
       (kaapi_frame_tasklist_init [] sample_frame) = Some (OK, freed, s)
     \<and> t_infinity s = Max (insert 0 ((\<lambda>x. td_date (tds s x)) ` set (readylist s)))"
proof -
  obtain freed s where "kaapi_thread_computereadylist True sample_formats (\<lambda>t q. t # q) sample_tasks
       (kaapi_frame_tasklist_init [] sample_frame) = Some (OK, freed, s)"
    "t_infinity s = Max (insert 0 ((\<lambda>x. td_date (tds s x)) ` set (readylist s)))"
    using critical_path_is_longest [OF sample_supported,
        where pushready = "\<lambda>t q. t # q" and rtl_init = "[]" and mem = sample_frame]
    by (elim exE conjE) (rule that; assumption)
  then show ?thesis by blast
qed

theorem sched_computereadylist_traps_witness:
  "kaapi_sched_computereadylist True False sample_formats (\<lambda>t q. t # q) [] sample_tasks sample_frame = None"
  by (rule sched_computereadylist_traps [OF sample_supported, of "sample_task 0 [(4, 4096)]" 4096])
    (simp_all add: sample_tasks_def has_format_def sample_formats_def sample_task_def sample_accesses)

theorem access_neither_reads_nor_writes_stops_witness:
  "computedep_param hash_findv 0 0 (8, 4096) sample_frame = None"
  by (rule access_neither_reads_nor_writes_stops) (simp_all add: mode_defs)

end
