(* ===== verification/Tasklist_Exec.thy ===== *)
theory Tasklist_Exec
  imports Ready_Pools Computereadylist
begin

text \<open>
  The execution of a frame by its task list: \<^verbatim>\<open>thread/kaapi_thread_execframe_tasklist.c\<close>, the activation of successors in
  \<^verbatim>\<open>kaapi_tasklist.h\<close>, the stealing of ready descriptors (\<^verbatim>\<open>workstealing/kaapi_sched_stealtasklist.c\<close>,
  \<^verbatim>\<open>kaapi_sched_stealreadytasklist.c\<close>, \<^verbatim>\<open>kaapi_sched_idle.c\<close>, \<^verbatim>\<open>thread/kaapi_thread_startexectd.c\<close>), the task that runs
  a stolen one (\<^verbatim>\<open>task/kaapi_task_stealready_body.c\<close>) and the loop of \<^verbatim>\<open>workstealing/kaapi_sched_sync.c\<close>, for any number of
  threads.  One step is one access to shared data: an operation on a queue, which holds its lock, an atomic increment, or
  one of the two ends of the body of a task.  The body with the tasks it spawns is opaque, and the frame's thread
  is thread 0 with task list 0.
\<close>

section \<open>Threads\<close>

text \<open>Where a thread is: in \<^verbatim>\<open>kaapi_sched_idle\<close> and waiting for the answer to its request, holding a stolen
  descriptor, or in \<^verbatim>\<open>kaapi_thread_execframe_tasklist\<close> on a task list with its local count of executed tasks:
  at the loop, after it at the two queues of the processor, with a descriptor to execute, in its body, in
  \<^verbatim>\<open>kaapi_readytasklist_pushactivated\<close> with the links still to follow (and the descriptor just activated), at the update
  of \<^verbatim>\<open>cnt_exec\<close> and at the final test.  \<open>Blocked\<close> is the suspended thread of the frame, \<open>Finished\<close> its return.\<close>

datatype tstate =
  Idle | IdleRtl | Requesting
| Stolen nat
| Loop nat nat
| AfterLoop nat nat
| AfterRtl nat nat
| Exec nat nat nat
| Body nat nat nat
| Activating nat nat nat "nat list"
| Pushing nat nat nat nat "nat list"
| Finish nat nat
| Check nat
| Blocked
| Returned nat
| Finished

text \<open>A ghost trace of the two ends of the bodies.\<close>

datatype event = Start nat | End nat

record 'p exec_state =
  es_pools :: 'p
  es_tds :: "nat \<Rightarrow> kaapi_taskdescr"
  es_cnt :: "nat \<Rightarrow> nat"
  es_ntl :: nat
  es_thread :: "nat \<Rightarrow> tstate"
  es_trace :: "event list"

definition goto :: "nat \<Rightarrow> tstate \<Rightarrow> 'p exec_state \<Rightarrow> 'p exec_state" where
  "goto t st s = s\<lparr>es_thread := (es_thread s)(t := st)\<rparr>"

text \<open>The links that \<^verbatim>\<open>kaapi_readytasklist_pushactivated\<close> follows.\<close>

definition succs :: "kaapi_taskdescr \<Rightarrow> nat list" where
  "succs d = td_list d @ td_bcast d"

section \<open>The steps\<close>

text \<open>\<^verbatim>\<open>kaapi_thread_execframe_tasklist\<close>, with the activation of the successors; \<open>kid\<close> is the thread's processor.  The
  failure of \<^verbatim>\<open>kaapi_assert\<close> at the end is the lack of a step.\<close>

inductive execframe_step :: "'p ready_ops \<Rightarrow> nat \<Rightarrow> nat \<Rightarrow> nat \<Rightarrow> 'p exec_state \<Rightarrow> 'p exec_state \<Rightarrow> bool"
  for ops kid tot t s where
  loop_pop: "es_thread s t = Loop tk n \<Longrightarrow> \<not> op_isempty ops (QTasklist tk) (es_pools s) \<Longrightarrow>
     op_pop ops kid (QTasklist tk) (es_pools s) = Some (Inr td, p') \<Longrightarrow>
     execframe_step ops kid tot t s (goto t (Exec tk n td) (s\<lparr>es_pools := p'\<rparr>))"
| loop_busy: "es_thread s t = Loop tk n \<Longrightarrow> \<not> op_isempty ops (QTasklist tk) (es_pools s) \<Longrightarrow>
     op_pop ops kid (QTasklist tk) (es_pools s) = Some (Inl e, p') \<Longrightarrow>
     execframe_step ops kid tot t s (goto t (Loop tk n) (s\<lparr>es_pools := p'\<rparr>))"
| loop_exit: "es_thread s t = Loop tk n \<Longrightarrow> op_isempty ops (QTasklist tk) (es_pools s) \<Longrightarrow>
     execframe_step ops kid tot t s (goto t (AfterLoop tk n) s)"
| rtl_pop: "es_thread s t = AfterLoop tk n \<Longrightarrow> \<not> op_isempty ops (QRtl kid) (es_pools s) \<Longrightarrow>
     op_pop ops kid (QRtl kid) (es_pools s) = Some (Inr td, p') \<Longrightarrow>
     execframe_step ops kid tot t s (goto t (Exec tk n td) (s\<lparr>es_pools := p'\<rparr>))"
| rtl_busy: "es_thread s t = AfterLoop tk n \<Longrightarrow> \<not> op_isempty ops (QRtl kid) (es_pools s) \<Longrightarrow>
     op_pop ops kid (QRtl kid) (es_pools s) = Some (Inl e, p') \<Longrightarrow>
     execframe_step ops kid tot t s (goto t (AfterRtl tk n) (s\<lparr>es_pools := p'\<rparr>))"
| rtl_empty: "es_thread s t = AfterLoop tk n \<Longrightarrow> op_isempty ops (QRtl kid) (es_pools s) \<Longrightarrow>
     execframe_step ops kid tot t s (goto t (AfterRtl tk n) s)"
| remote_pop: "es_thread s t = AfterRtl tk n \<Longrightarrow> \<not> op_isempty ops (QRemote kid) (es_pools s) \<Longrightarrow>
     op_pop ops kid (QRemote kid) (es_pools s) = Some (Inr td, p') \<Longrightarrow>
     execframe_step ops kid tot t s (goto t (Exec tk n td) (s\<lparr>es_pools := p'\<rparr>))"
| remote_busy: "es_thread s t = AfterRtl tk n \<Longrightarrow> \<not> op_isempty ops (QRemote kid) (es_pools s) \<Longrightarrow>
     op_pop ops kid (QRemote kid) (es_pools s) = Some (Inl e, p') \<Longrightarrow>
     execframe_step ops kid tot t s (goto t (Finish tk n) (s\<lparr>es_pools := p'\<rparr>))"
| remote_empty: "es_thread s t = AfterRtl tk n \<Longrightarrow> op_isempty ops (QRemote kid) (es_pools s) \<Longrightarrow>
     execframe_step ops kid tot t s (goto t (Finish tk n) s)"
| body_start: "es_thread s t = Exec tk n td \<Longrightarrow>
     execframe_step ops kid tot t s (goto t (Body tk n td) (s\<lparr>es_trace := es_trace s @ [Start td]\<rparr>))"
| body_end: "es_thread s t = Body tk n td \<Longrightarrow>
     execframe_step ops kid tot t s
       (goto t (Activating tk (n + 1) td (succs (es_tds s td))) (s\<lparr>es_trace := es_trace s @ [End td]\<rparr>))"
| activate_ready: "es_thread s t = Activating tk n td (x # xs) \<Longrightarrow> kaapi_taskdescr_activated (es_tds s x) = Some (True, d) \<Longrightarrow>
     execframe_step ops kid tot t s (goto t (Pushing tk n td x xs) (s\<lparr>es_tds := (es_tds s)(x := d)\<rparr>))"
| activate_waits: "es_thread s t = Activating tk n td (x # xs) \<Longrightarrow> kaapi_taskdescr_activated (es_tds s x) = Some (False, d) \<Longrightarrow>
     execframe_step ops kid tot t s (goto t (Activating tk n td xs) (s\<lparr>es_tds := (es_tds s)(x := d)\<rparr>))"
| push_activated: "es_thread s t = Pushing tk n td x xs \<Longrightarrow>
     op_pushready ops kid (QTasklist tk) x (es_pools s) = Some (prio, p') \<Longrightarrow>
     execframe_step ops kid tot t s (goto t (Activating tk n td xs) (s\<lparr>es_pools := p'\<rparr>))"
| activated: "es_thread s t = Activating tk n td [] \<Longrightarrow> execframe_step ops kid tot t s (goto t (Loop tk n) s)"
| add_cnt: "es_thread s t = Finish tk n \<Longrightarrow>
     execframe_step ops kid tot t s (goto t (Check tk) (s\<lparr>es_cnt := (es_cnt s)(tk := es_cnt s tk + n)\<rparr>))"
| would_block: "es_thread s t = Check tk \<Longrightarrow> op_isempty ops (QTasklist tk) (es_pools s) \<Longrightarrow> tk = 0 \<Longrightarrow> es_cnt s tk \<noteq> tot \<Longrightarrow>
     execframe_step ops kid tot t s (goto t Blocked s)"
| returns: "es_thread s t = Check tk \<Longrightarrow> op_isempty ops (QTasklist tk) (es_pools s) \<Longrightarrow> tk \<noteq> 0 \<or> es_cnt s tk = tot \<Longrightarrow>
     execframe_step ops kid tot t s (goto t (Returned tk) s)"

text \<open>\<^verbatim>\<open>kaapi_sched_sync_\<close> of the frame's thread: it stays suspended until \<^verbatim>\<open>kaapi_stack_isready\<close> holds, and returns with the
  value 0 of the execution.\<close>

inductive sync_step :: "nat \<Rightarrow> nat \<Rightarrow> 'p exec_state \<Rightarrow> 'p exec_state \<Rightarrow> bool" for tot t s where
  redo: "es_thread s t = Blocked \<Longrightarrow> es_cnt s 0 = tot \<Longrightarrow> sync_step tot t s (goto t (Loop 0 0) s)"
| sync_returns: "es_thread s t = Returned 0 \<Longrightarrow> sync_step tot t s (goto t Finished s)"

text \<open>The idle loop of a thread, \<^verbatim>\<open>kaapi_sched_idle\<close>: it looks into the queues of its processor before it posts a request.\<close>

inductive idle_step :: "'p ready_ops \<Rightarrow> nat \<Rightarrow> nat \<Rightarrow> 'p exec_state \<Rightarrow> 'p exec_state \<Rightarrow> bool" for ops kid t s where
  idle_remote: "es_thread s t = Idle \<Longrightarrow> op_pop ops kid (QRemote kid) (es_pools s) = Some (Inr td, p') \<Longrightarrow>
     idle_step ops kid t s (goto t (Stolen td) (s\<lparr>es_pools := p'\<rparr>))"
| idle_no_remote: "es_thread s t = Idle \<Longrightarrow> op_pop ops kid (QRemote kid) (es_pools s) = Some (Inl e, p') \<Longrightarrow>
     idle_step ops kid t s (goto t IdleRtl (s\<lparr>es_pools := p'\<rparr>))"
| idle_rtl: "es_thread s t = IdleRtl \<Longrightarrow> op_pop ops kid (QRtl kid) (es_pools s) = Some (Inr td, p') \<Longrightarrow>
     idle_step ops kid t s (goto t (Stolen td) (s\<lparr>es_pools := p'\<rparr>))"
| idle_no_rtl: "es_thread s t = IdleRtl \<Longrightarrow> op_pop ops kid (QRtl kid) (es_pools s) = Some (Inl e, p') \<Longrightarrow>
     idle_step ops kid t s (goto t Requesting (s\<lparr>es_pools := p'\<rparr>))"

text \<open>The answer to the request, which a processor \<open>k\<close> serves: \<^verbatim>\<open>kaapi_sched_stealtasklist\<close> on a task list, and
  \<^verbatim>\<open>kaapi_sched_stealreadytasklist\<close> on the queues of a processor \<open>v\<close>, which passes \<open>v\<close> and not the thief to the choice of
  the descriptor.\<close>

inductive steal_step :: "'p ready_ops \<Rightarrow> nat \<Rightarrow> nat \<Rightarrow> 'p exec_state \<Rightarrow> 'p exec_state \<Rightarrow> bool" for ops kid t s where
  steal_tasklist: "es_thread s t = Requesting \<Longrightarrow> l < es_ntl s \<Longrightarrow>
     op_steal ops k kid (QTasklist l) (es_pools s) = Some (Inr td, p') \<Longrightarrow>
     steal_step ops kid t s (goto t (Stolen td) (s\<lparr>es_pools := p'\<rparr>))"
| steal_rtl: "es_thread s t = Requesting \<Longrightarrow> op_steal ops k v (QRtl v) (es_pools s) = Some (Inr td, p') \<Longrightarrow>
     steal_step ops kid t s (goto t (Stolen td) (s\<lparr>es_pools := p'\<rparr>))"
| steal_remote: "es_thread s t = Requesting \<Longrightarrow> op_steal ops k v (QRemote v) (es_pools s) = Some (Inr td, p') \<Longrightarrow>
     steal_step ops kid t s (goto t (Stolen td) (s\<lparr>es_pools := p'\<rparr>))"
| steal_fails: "es_thread s t = Requesting \<Longrightarrow> steal_step ops kid t s (goto t Idle s)"

text \<open>The task that runs a stolen descriptor, \<^verbatim>\<open>kaapi_taskstealready_body\<close>: a new task list, and the report at the end.\<close>

inductive stealready_step :: "'p ready_ops \<Rightarrow> nat \<Rightarrow> nat \<Rightarrow> 'p exec_state \<Rightarrow> 'p exec_state \<Rightarrow> bool" for ops kid t s where
  stolen_init: "es_thread s t = Stolen td \<Longrightarrow>
     op_pushready ops kid (QTasklist (es_ntl s)) td (op_init ops (QTasklist (es_ntl s)) (es_pools s)) = Some (prio, p') \<Longrightarrow>
     stealready_step ops kid t s
       (goto t (Loop (es_ntl s) 0) (s\<lparr>es_pools := p', es_ntl := es_ntl s + 1, es_cnt := (es_cnt s)(es_ntl s := 0)\<rparr>))"
| stolen_report: "es_thread s t = Returned tk \<Longrightarrow> tk \<noteq> 0 \<Longrightarrow>
     stealready_step ops kid t s (goto t Idle (s\<lparr>es_cnt := (es_cnt s)(0 := es_cnt s 0 + es_cnt s tk)\<rparr>))"

definition stealer_step :: "'p ready_ops \<Rightarrow> nat \<Rightarrow> nat \<Rightarrow> 'p exec_state \<Rightarrow> 'p exec_state \<Rightarrow> bool" where
  "stealer_step ops kid t s s' \<longleftrightarrow> idle_step ops kid t s s' \<or> steal_step ops kid t s s' \<or> stealready_step ops kid t s s'"

text \<open>Thread \<open>t\<close> of the \<open>W\<close> threads runs on processor \<open>proc t\<close>.\<close>

definition exec_step :: "'p ready_ops \<Rightarrow> (nat \<Rightarrow> nat) \<Rightarrow> nat \<Rightarrow> nat \<Rightarrow> 'p exec_state \<Rightarrow> 'p exec_state \<Rightarrow> bool" where
  "exec_step ops proc W tot s s' \<longleftrightarrow>
     (\<exists>t < W. execframe_step ops (proc t) tot t s s' \<or> sync_step tot t s s' \<or> stealer_step ops (proc t) t s s')"

section \<open>The start\<close>

fun kaapi_thread_tasklistready_push_init :: "'p ready_ops \<Rightarrow> nat \<Rightarrow> qname \<Rightarrow> nat list \<Rightarrow> 'p \<Rightarrow> 'p option" where
  "kaapi_thread_tasklistready_push_init ops kid q [] p = Some p"
| "kaapi_thread_tasklistready_push_init ops kid q (td # head) p =
     Option.bind (op_pushready ops kid q td p) (\<lambda>(prio, p). kaapi_thread_tasklistready_push_init ops kid q head p)"

text \<open>The state in which \<^verbatim>\<open>kaapi_staticschedtask_body_gen\<close> calls \<^verbatim>\<open>kaapi_sched_sync_\<close>, on the frame's graph.\<close>

definition exec_init :: "'p ready_ops \<Rightarrow> nat \<Rightarrow> ('t, 'p) kaapi_frame_tasklist \<Rightarrow> 'p exec_state option" where
  "exec_init ops kid ftl =
     map_option (\<lambda>p. \<lparr>es_pools = p, es_tds = tds ftl, es_cnt = (\<lambda>_. 0), es_ntl = 1,
         es_thread = (\<lambda>_. Idle)(0 := Loop 0 0), es_trace = []\<rparr>)
       (kaapi_thread_tasklistready_push_init ops kid (QTasklist 0) (readylist ftl) (rtl ftl))"

end
