(* ===== verification/Tasklist_Exec_Inv.thy ===== *)
theory Tasklist_Exec_Inv
  imports Tasklist_Exec
begin

text \<open>
  The invariant of the execution of a frame.  A phase for every descriptor says where it is: waiting for its
  predecessors, in a queue, held by a thread, running, activating its successors, or done.  Its counter and the links that
  the descriptors before it have not followed yet add up to \<^verbatim>\<open>wc\<close>, so it becomes ready when the last one is
  followed; the counts of the threads and task lists add up to the number of bodies that ended.
\<close>

section \<open>Phases\<close>

datatype phase = Waiting | Queued qname | Held nat | Run nat | Act nat "nat list" | Done

fun t_holds :: "tstate \<Rightarrow> nat option" where
  "t_holds (Stolen td) = Some td"
| "t_holds (Exec _ _ td) = Some td"
| "t_holds (Pushing _ _ _ x _) = Some x"
| "t_holds _ = None"

fun t_runs :: "tstate \<Rightarrow> nat option" where
  "t_runs (Body _ _ td) = Some td"
| "t_runs _ = None"

fun t_acts :: "tstate \<Rightarrow> (nat \<times> nat list) option" where
  "t_acts (Activating _ _ td xs) = Some (td, xs)"
| "t_acts (Pushing _ _ td _ xs) = Some (td, xs)"
| "t_acts _ = None"

text \<open>The task list a thread works on, and its local count.\<close>

fun t_list :: "tstate \<Rightarrow> nat option" where
  "t_list (Loop tk _) = Some tk"
| "t_list (AfterLoop tk _) = Some tk"
| "t_list (AfterRtl tk _) = Some tk"
| "t_list (Exec tk _ _) = Some tk"
| "t_list (Body tk _ _) = Some tk"
| "t_list (Activating tk _ _ _) = Some tk"
| "t_list (Pushing tk _ _ _ _) = Some tk"
| "t_list (Finish tk _) = Some tk"
| "t_list (Check tk) = Some tk"
| "t_list Blocked = Some 0"
| "t_list (Returned tk) = Some tk"
| "t_list _ = None"

fun t_count :: "tstate \<Rightarrow> nat" where
  "t_count (Loop _ n) = n"
| "t_count (AfterLoop _ n) = n"
| "t_count (AfterRtl _ n) = n"
| "t_count (Exec _ n _) = n"
| "t_count (Body _ n _) = n"
| "t_count (Activating _ n _ _) = n"
| "t_count (Pushing _ n _ _ _) = n"
| "t_count (Finish _ n) = n"
| "t_count _ = 0"

text \<open>Executed bodies that the thread has not reported to task list 0.\<close>

definition unreported :: "(nat \<Rightarrow> nat) \<Rightarrow> tstate \<Rightarrow> nat" where
  "unreported cnt st = t_count st + (case t_list st of None \<Rightarrow> 0 | Some tk \<Rightarrow> if tk = 0 then 0 else cnt tk)"

fun remaining :: "kaapi_taskdescr \<Rightarrow> phase \<Rightarrow> nat list" where
  "remaining d Done = []"
| "remaining d (Act _ r) = r"
| "remaining d _ = succs d"

fun ended :: "phase \<Rightarrow> bool" where
  "ended Done = True"
| "ended (Act _ _) = True"
| "ended _ = False"

fun started :: "phase \<Rightarrow> bool" where
  "started (Run _) = True"
| "started ph = ended ph"

section \<open>The invariant\<close>

text \<open>A frame that can be executed: its graph has no cycle, every descriptor has a priority and counts its links, and the
  ready list has descriptors that wait for none.\<close>

definition frame_ready :: "(nat \<Rightarrow> bool) \<Rightarrow> ('t, 'p) kaapi_frame_tasklist \<Rightarrow> bool" where
  "frame_ready ok ftl \<longleftrightarrow>
     (\<forall>x < ntds ftl. ok x \<and> td_counter (tds ftl x) = 0 \<and> (\<forall>y \<in> set (succs (tds ftl x)). y < ntds ftl \<and> rank ftl x < rank ftl y))
   \<and> (\<forall>y < ntds ftl. td_wc (tds ftl y) = (\<Sum>x<ntds ftl. count_list (succs (tds ftl x)) y))
   \<and> distinct (readylist ftl) \<and> (\<forall>x \<in> set (readylist ftl). x < ntds ftl \<and> td_wc (tds ftl x) = 0)
   \<and> total_tasks ftl = ntds ftl"

definition threads_inv :: "nat \<Rightarrow> 'p exec_state \<Rightarrow> (nat \<Rightarrow> phase) \<Rightarrow> bool" where
  "threads_inv W s ph \<longleftrightarrow>
     (\<forall>t x. ph x = Held t \<longleftrightarrow> t_holds (es_thread s t) = Some x)
   \<and> (\<forall>t x. ph x = Run t \<longleftrightarrow> t_runs (es_thread s t) = Some x)
   \<and> (\<forall>t x r. ph x = Act t r \<longleftrightarrow> t_acts (es_thread s t) = Some (x, r))
   \<and> (\<forall>t tk. t_list (es_thread s t) = Some tk \<longrightarrow> tk < es_ntl s \<and> (tk = 0 \<longleftrightarrow> t = 0))
   \<and> (\<forall>t t' tk. t_list (es_thread s t) = Some tk \<longrightarrow> t_list (es_thread s t') = Some tk \<longrightarrow> t = t')
   \<and> (t_list (es_thread s 0) = Some 0 \<or> es_thread s 0 = Finished)
   \<and> (\<forall>t. W \<le> t \<longrightarrow> es_thread s t = Idle) \<and> 0 < W \<and> 0 < es_ntl s"

definition graph_state :: "('t, 'p) kaapi_frame_tasklist \<Rightarrow> 'p exec_state \<Rightarrow> (nat \<Rightarrow> phase) \<Rightarrow> bool" where
  "graph_state ftl s ph \<longleftrightarrow>
     (\<forall>x. es_tds s x = (tds ftl x)\<lparr>td_counter := td_counter (es_tds s x)\<rparr>)
   \<and> (\<forall>x. ph x \<noteq> Waiting \<longrightarrow> x < ntds ftl)
   \<and> (\<forall>x t r. ph x = Act t r \<longrightarrow> set r \<subseteq> set (succs (tds ftl x)))
   \<and> (\<forall>y < ntds ftl. td_counter (es_tds s y) + (\<Sum>x<ntds ftl. count_list (remaining (tds ftl x) (ph x)) y) = td_wc (tds ftl y))
   \<and> (\<forall>y < ntds ftl. ph y = Waiting \<longleftrightarrow> y \<notin> set (readylist ftl) \<and>
        (td_wc (tds ftl y) = 0 \<or> td_counter (es_tds s y) < td_wc (tds ftl y)))"

text \<open>Every body starts and ends at most once, and starts after the bodies that link to it have ended.\<close>

definition trace_ok :: "('t, 'p) kaapi_frame_tasklist \<Rightarrow> event list \<Rightarrow> bool" where
  "trace_ok ftl tr \<longleftrightarrow> distinct tr
   \<and> (\<forall>as bs y. tr = as @ Start y # bs \<longrightarrow> (\<forall>x < ntds ftl. y \<in> set (succs (tds ftl x)) \<longrightarrow> End x \<in> set as))
   \<and> (\<forall>as bs y. tr = as @ End y # bs \<longrightarrow> Start y \<in> set as)"

definition trace_inv :: "('t, 'p) kaapi_frame_tasklist \<Rightarrow> 'p exec_state \<Rightarrow> (nat \<Rightarrow> phase) \<Rightarrow> bool" where
  "trace_inv ftl s ph \<longleftrightarrow> trace_ok ftl (es_trace s)
   \<and> (\<forall>x. Start x \<in> set (es_trace s) \<longleftrightarrow> started (ph x)) \<and> (\<forall>x. End x \<in> set (es_trace s) \<longleftrightarrow> ended (ph x))"

definition count_inv :: "nat \<Rightarrow> nat \<Rightarrow> 'p exec_state \<Rightarrow> (nat \<Rightarrow> phase) \<Rightarrow> bool" where
  "count_inv W N s ph \<longleftrightarrow>
     es_cnt s 0 + (\<Sum>t<W. unreported (es_cnt s) (es_thread s t)) = card {x. x < N \<and> ended (ph x)}
   \<and> (es_thread s 0 \<in> {Returned 0, Finished} \<longrightarrow> es_cnt s 0 = N)"

definition queued :: "(nat \<Rightarrow> phase) \<Rightarrow> qname \<Rightarrow> nat set" where
  "queued ph q = {x. ph x = Queued q}"

definition exec_inv ::
  "(nat \<Rightarrow> 'p \<Rightarrow> (qname \<Rightarrow> nat set) \<Rightarrow> bool) \<Rightarrow> nat \<Rightarrow> ('t, 'p) kaapi_frame_tasklist \<Rightarrow> 'p exec_state \<Rightarrow> (nat \<Rightarrow> phase) \<Rightarrow> bool" where
  "exec_inv holds W ftl s ph \<longleftrightarrow>
     holds (es_ntl s) (es_pools s) (queued ph) \<and> threads_inv W s ph \<and> graph_state ftl s ph \<and> trace_inv ftl s ph
   \<and> count_inv W (ntds ftl) s ph"

section \<open>Changes of one phase and one thread\<close>

lemma queued_take: "ph x = Queued q \<Longrightarrow> (\<forall>q. p \<noteq> Queued q) \<Longrightarrow> queued (ph(x := p)) = (queued ph)(q := queued ph q - {x})"
  by (auto simp: queued_def fun_eq_iff)

lemma queued_insert: "(\<forall>q. ph x \<noteq> Queued q) \<Longrightarrow> queued (ph(x := Queued q)) = (queued ph)(q := insert x (queued ph q))"
  by (auto simp: queued_def fun_eq_iff)

lemma queued_same: "(\<forall>q. ph x \<noteq> Queued q) \<Longrightarrow> (\<forall>q. p \<noteq> Queued q) \<Longrightarrow> queued (ph(x := p)) = queued ph"
  by (auto simp: queued_def fun_eq_iff)

fun owner :: "phase \<Rightarrow> nat option" where
  "owner (Held t) = Some t"
| "owner (Run t) = Some t"
| "owner (Act t _) = Some t"
| "owner _ = None"

lemma threadsD:
  assumes "threads_inv W s ph"
  shows "ph x = Held t \<longleftrightarrow> t_holds (es_thread s t) = Some x" "ph x = Run t \<longleftrightarrow> t_runs (es_thread s t) = Some x"
    "ph x = Act t r \<longleftrightarrow> t_acts (es_thread s t) = Some (x, r)"
    "t_list (es_thread s t) = Some tk \<Longrightarrow> tk < es_ntl s \<and> (tk = 0 \<longleftrightarrow> t = 0)"
    "t_list (es_thread s t) = Some tk \<Longrightarrow> t_list (es_thread s t') = Some tk \<Longrightarrow> t = t'"
    "t_list (es_thread s 0) = Some 0 \<or> es_thread s 0 = Finished" "W \<le> t \<Longrightarrow> es_thread s t = Idle" "0 < W" "0 < es_ntl s"
  using assms unfolding threads_inv_def by blast+

text \<open>Thread \<open>t\<close> changes its state and the phases it owns.\<close>

lemma threads_step:
  assumes i: "threads_inv W s ph" and t: "t < W"
    and h: "\<forall>x. ph' x = Held t \<longleftrightarrow> t_holds st = Some x" and r: "\<forall>x. ph' x = Run t \<longleftrightarrow> t_runs st = Some x"
    and a: "\<forall>x r. ph' x = Act t r \<longleftrightarrow> t_acts st = Some (x, r)"
    and o: "\<forall>x. ph' x = ph x \<or> (owner (ph x) \<in> {None, Some t} \<and> owner (ph' x) \<in> {None, Some t})"
    and l: "t_list st = t_list (es_thread s t) \<or> t_list st = None \<and> t \<noteq> 0 \<or> t_list st = Some (es_ntl s) \<and> es_ntl s < es_ntl s' \<and> t \<noteq> 0
        \<or> st = Finished"
    and s': "es_thread s' = (es_thread s)(t := st)" "es_ntl s \<le> es_ntl s'" and f: "es_thread s t \<noteq> Finished"
  shows "threads_inv W s' ph'"
proof -
  note D = threadsD [OF i]
  have other: "ph' x = Held t' \<longleftrightarrow> ph x = Held t'" "ph' x = Run t' \<longleftrightarrow> ph x = Run t'" "ph' x = Act t' r \<longleftrightarrow> ph x = Act t' r"
    if "t' \<noteq> t" for x t' r
    using o [rule_format, of x] that by auto
  have keep: "t_list st = t_list (es_thread s t) \<or> t_list st = None \<or> t_list st = Some (es_ntl s) \<and> es_ntl s < es_ntl s' \<and> t \<noteq> 0"
    using l by auto
  have at: "t_list (es_thread s' t') = (if t' = t then t_list st else t_list (es_thread s t'))" for t' using s'(1) by simp
  have new: "t_list (es_thread s' t') = Some tk \<Longrightarrow> t_list (es_thread s t') = Some tk \<or> tk = es_ntl s \<and> t' = t \<and> t \<noteq> 0 \<and> es_ntl s < es_ntl s'" for t' tk
    using keep by (cases "t' = t") (auto simp: at)
  have lst: "tk < es_ntl s' \<and> (tk = 0 \<longleftrightarrow> t' = 0)" if "t_list (es_thread s' t') = Some tk" for t' tk
    using new [OF that] D(4) [of t' tk] D(9) s'(2) by linarith
  have uniq: "t1 = t2" if "t_list (es_thread s' t1) = Some tk" "t_list (es_thread s' t2) = Some tk" for t1 t2 tk
    using new [OF that(1)] new [OF that(2)] D(5) [of t1 tk t2] D(4) [of t1 tk] D(4) [of t2 tk] by fastforce
  have "t_list (es_thread s' 0) = Some 0 \<or> es_thread s' 0 = Finished"
    using l D(6) f s'(1) by (cases "t = 0") auto
  moreover have "\<forall>t'. W \<le> t' \<longrightarrow> es_thread s' t' = Idle" using D(7) t s'(1) by auto
  moreover have "\<forall>t' x. ph' x = Held t' \<longleftrightarrow> t_holds (es_thread s' t') = Some x"
    "\<forall>t' x. ph' x = Run t' \<longleftrightarrow> t_runs (es_thread s' t') = Some x"
    "\<forall>t' x r. ph' x = Act t' r \<longleftrightarrow> t_acts (es_thread s' t') = Some (x, r)"
    using other h r a D(1-3) s'(1) by (metis fun_upd_apply)+
  ultimately show ?thesis unfolding threads_inv_def using lst uniq D(8,9) s'(2) by auto
qed

lemma graph_step:
  assumes "graph_state ftl s ph" and "es_tds s' = es_tds s"
    and "\<forall>x. remaining (tds ftl x) (ph' x) = remaining (tds ftl x) (ph x)" and "\<forall>x. ph' x = Waiting \<longleftrightarrow> ph x = Waiting"
    and "\<forall>x t r. ph' x = Act t r \<longrightarrow> set r \<subseteq> set (succs (tds ftl x))"
  shows "graph_state ftl s' ph'"
  using assms unfolding graph_state_def by simp

lemma trace_step:
  assumes "trace_inv ftl s ph" and "es_trace s' = es_trace s"
    and "\<forall>x. started (ph' x) = started (ph x)" and "\<forall>x. ended (ph' x) = ended (ph x)"
  shows "trace_inv ftl s' ph'"
  using assms unfolding trace_inv_def by simp

lemma sum_upd:
  fixes f :: "tstate \<Rightarrow> nat"
  assumes "t < (W :: nat)"
  shows "(\<Sum>i<W. f ((th(t := st)) i)) + f (th t) = (\<Sum>i<W. f (th i)) + f st"
proof -
  have s: "(\<Sum>i<W. g i) = g t + (\<Sum>i\<in>{..<W} - {t}. g i)" for g :: "nat \<Rightarrow> nat" using assms by (simp add: sum.remove)
  have e: "(\<Sum>i\<in>{..<W} - {t}. f ((th(t := st)) i)) = (\<Sum>i\<in>{..<W} - {t}. f (th i))" by (rule sum.cong) auto
  show ?thesis using s [of "\<lambda>i. f ((th(t := st)) i)"] s [of "\<lambda>i. f (th i)"] e by simp
qed

lemma ended_card_le: "card {x. x < N \<and> ended (ph x)} \<le> N"
proof -
  have "card {x. x < N \<and> ended (ph x)} \<le> card {..<N}" by (rule card_mono) auto
  then show ?thesis by simp
qed

lemma count_step:
  assumes c: "count_inv W N s ph" and t: "t < W"
    and s': "es_thread s' = (es_thread s)(t := st)" "es_cnt s' = es_cnt s"
    and u: "unreported (es_cnt s) st = unreported (es_cnt s) (es_thread s t)"
    and e: "\<forall>x. ended (ph' x) = ended (ph x)"
    and z: "t = 0 \<Longrightarrow> st \<in> {Returned 0, Finished} \<Longrightarrow> es_cnt s 0 = N"
  shows "count_inv W N s' ph'"
  using sum_upd [OF t, of "unreported (es_cnt s)" "es_thread s" st] c u z
  by (auto simp: count_inv_def s' e)


lemma execD:
  assumes "exec_inv holds W ftl s ph"
  shows "holds (es_ntl s) (es_pools s) (queued ph)" "threads_inv W s ph" "graph_state ftl s ph" "trace_inv ftl s ph"
    "count_inv W (ntds ftl) s ph"
  using assms unfolding exec_inv_def by blast+

lemma graphD:
  assumes "graph_state ftl s ph"
  shows "td_wc (es_tds s x) = td_wc (tds ftl x)" "succs (es_tds s x) = succs (tds ftl x)"
    "ph x \<noteq> Waiting \<Longrightarrow> x < ntds ftl" "ph x = Act t r \<Longrightarrow> set r \<subseteq> set (succs (tds ftl x))"
    "y < ntds ftl \<Longrightarrow> td_counter (es_tds s y) + (\<Sum>x<ntds ftl. count_list (remaining (tds ftl x) (ph x)) y) = td_wc (tds ftl y)"
    "y < ntds ftl \<Longrightarrow> ph y = Waiting \<longleftrightarrow> y \<notin> set (readylist ftl) \<and>
        (td_wc (tds ftl y) = 0 \<or> td_counter (es_tds s y) < td_wc (tds ftl y))"
proof -
  have "es_tds s x = (tds ftl x)\<lparr>td_counter := td_counter (es_tds s x)\<rparr>" using assms unfolding graph_state_def by blast
  then obtain c where "es_tds s x = (tds ftl x)\<lparr>td_counter := c\<rparr>" by blast
  then show "td_wc (es_tds s x) = td_wc (tds ftl x)" "succs (es_tds s x) = succs (tds ftl x)" by (simp_all add: succs_def)
qed (use assms in \<open>unfold graph_state_def, blast+\<close>)

lemma ready_preds:
  assumes fr: "frame_ready ok ftl" and g: "graph_state ftl s ph" and y: "ph y \<noteq> Waiting"
    and x: "x < ntds ftl" "y \<in> set (succs (tds ftl x))"
  shows "ended (ph x)"
proof -
  note G = graphD [OF g]
  have yN: "y < ntds ftl" using G(3) y by blast
  have c: "td_wc (tds ftl y) = (\<Sum>x<ntds ftl. count_list (succs (tds ftl x)) y)" using fr yN by (simp add: frame_ready_def)
  have "count_list (succs (tds ftl x)) y \<noteq> 0" using x(2) by (simp add: count_list_0_iff)
  then have w: "td_wc (tds ftl y) \<noteq> 0" using c x(1) by auto
  then have "y \<notin> set (readylist ftl)" using fr by (auto simp: frame_ready_def)
  then have "td_counter (es_tds s y) \<ge> td_wc (tds ftl y)" using G(6) [OF yN] y w by auto
  then have "(\<Sum>x<ntds ftl. count_list (remaining (tds ftl x) (ph x)) y) = 0" using G(5) [OF yN] by linarith
  then have "count_list (remaining (tds ftl x) (ph x)) y = 0" using x(1) by simp
  then show ?thesis using x(2) by (cases "ph x") (auto simp: count_list_0_iff)
qed

lemma trace_ok_start:
  assumes "trace_ok ftl tr" and "Start y \<notin> set tr" and "\<forall>x < ntds ftl. y \<in> set (succs (tds ftl x)) \<longrightarrow> End x \<in> set tr"
  shows "trace_ok ftl (tr @ [Start y])"
proof -
  have "\<forall>x < ntds ftl. z \<in> set (succs (tds ftl x)) \<longrightarrow> End x \<in> set as" if "tr @ [Start y] = as @ Start z # bs" for as bs z
    using that assms(1,3) unfolding trace_ok_def by (cases bs rule: rev_cases) auto
  moreover have "Start z \<in> set as" if "tr @ [Start y] = as @ End z # bs" for as bs z
    using that assms(1) unfolding trace_ok_def by (cases bs rule: rev_cases) auto
  ultimately show ?thesis using assms unfolding trace_ok_def by simp
qed

lemma trace_ok_end:
  assumes "trace_ok ftl tr" and "End y \<notin> set tr" and "Start y \<in> set tr"
  shows "trace_ok ftl (tr @ [End y])"
proof -
  have "\<forall>x < ntds ftl. z \<in> set (succs (tds ftl x)) \<longrightarrow> End x \<in> set as" if "tr @ [End y] = as @ Start z # bs" for as bs z
    using that assms(1) unfolding trace_ok_def by (cases bs rule: rev_cases) auto
  moreover have "Start z \<in> set as" if "tr @ [End y] = as @ End z # bs" for as bs z
    using that assms(1,3) unfolding trace_ok_def by (cases bs rule: rev_cases) auto
  ultimately show ?thesis using assms unfolding trace_ok_def by simp
qed

lemma count_change:
  assumes c: "count_inv W N s ph" and t: "t < W" and s': "es_thread s' = (es_thread s)(t := st)"
    and other: "\<And>i. i \<noteq> t \<Longrightarrow> unreported (es_cnt s') (es_thread s i) = unreported (es_cnt s) (es_thread s i)"
    and sum: "es_cnt s' 0 + unreported (es_cnt s') st = es_cnt s 0 + unreported (es_cnt s) (es_thread s t)"
    and z: "es_thread s' 0 \<in> {Returned 0, Finished} \<Longrightarrow> es_cnt s' 0 = N"
  shows "count_inv W N s' ph"
proof -
  let ?u = "\<lambda>c st. unreported c st"
  have "(\<Sum>i<W. ?u (es_cnt s') (es_thread s' i)) + ?u (es_cnt s') (es_thread s t) =
      (\<Sum>i<W. ?u (es_cnt s') (es_thread s i)) + ?u (es_cnt s') st"
    using sum_upd [OF t, of "?u (es_cnt s')" "es_thread s" st] by (simp add: s')
  moreover have "(\<Sum>i<W. ?u (es_cnt s') (es_thread s i)) =
      ?u (es_cnt s') (es_thread s t) + (\<Sum>i\<in>{..<W} - {t}. ?u (es_cnt s') (es_thread s i))"
    "(\<Sum>i<W. ?u (es_cnt s) (es_thread s i)) = ?u (es_cnt s) (es_thread s t) + (\<Sum>i\<in>{..<W} - {t}. ?u (es_cnt s) (es_thread s i))"
    using t by (simp_all add: sum.remove)
  moreover have "(\<Sum>i\<in>{..<W} - {t}. ?u (es_cnt s') (es_thread s i)) = (\<Sum>i\<in>{..<W} - {t}. ?u (es_cnt s) (es_thread s i))"
    by (rule sum.cong) (use other in auto)
  ultimately show ?thesis using c sum z unfolding count_inv_def by auto
qed

text \<open>Following one link: the counter goes up by one, the links not yet followed go down by one, and the descriptor becomes
  ready with the last of them.\<close>

lemma activate_counter:
  assumes fr: "frame_ready ok ftl" and g: "graph_state ftl s ph" and p: "ph p = Act t (x # xs)"
  shows "x < ntds ftl" "td_wc (tds ftl x) \<noteq> 0" "td_counter (es_tds s x) < td_wc (tds ftl x)" "ph x = Waiting"
    "kaapi_taskdescr_activated (es_tds s x) = Some (td_counter (es_tds s x) + 1 = td_wc (tds ftl x),
        (es_tds s x)\<lparr>td_counter := td_counter (es_tds s x) + 1\<rparr>)"
proof -
  note G = graphD [OF g]
  have pN: "p < ntds ftl" using G(3) p by simp
  have sub: "x \<in> set (succs (tds ftl p))" using G(4) [OF p] by simp
  then show xN: "x < ntds ftl" using fr pN by (auto simp: frame_ready_def)
  have "count_list (remaining (tds ftl p) (ph p)) x \<noteq> 0" using p by simp
  then have "(\<Sum>z<ntds ftl. count_list (remaining (tds ftl z) (ph z)) x) \<noteq> 0" using pN by auto
  then show lt: "td_counter (es_tds s x) < td_wc (tds ftl x)" using G(5) [OF xN] by linarith
  then show w: "td_wc (tds ftl x) \<noteq> 0" by simp
  have "x \<notin> set (readylist ftl)" using fr w by (auto simp: frame_ready_def)
  then show "ph x = Waiting" using G(6) [OF xN] lt by simp
  have "(td_counter (es_tds s x) + 1) mod td_wc (tds ftl x) = 0 \<longleftrightarrow> td_counter (es_tds s x) + 1 = td_wc (tds ftl x)"
    using lt by (auto simp: mod_eq_0_iff_dvd dest: dvd_imp_le)
  then show "kaapi_taskdescr_activated (es_tds s x) = Some (td_counter (es_tds s x) + 1 = td_wc (tds ftl x),
        (es_tds s x)\<lparr>td_counter := td_counter (es_tds s x) + 1\<rparr>)"
    using w G(1) [of x] by (simp add: kaapi_taskdescr_activated_def Let_def)
qed

lemma activate_graph:
  assumes fr: "frame_ready ok ftl" and g: "graph_state ftl s ph" and p: "ph p = Act t (x # xs)"
    and s': "es_tds s' = (es_tds s)(x := (es_tds s x)\<lparr>td_counter := td_counter (es_tds s x) + 1\<rparr>)"
    and ph': "ph' = (if td_counter (es_tds s x) + 1 = td_wc (tds ftl x) then (ph(p := Act t xs))(x := Held t) else ph(p := Act t xs))"
  shows "graph_state ftl s' ph'"
proof -
  note G = graphD [OF g] and A = activate_counter [OF fr g p]
  let ?r = "\<lambda>ph z y. count_list (remaining (tds ftl z) (ph z)) y"
  have px: "p \<noteq> x" using p A(4) by auto
  have pN: "p < ntds ftl" using G(3) p by simp
  have rem: "remaining (tds ftl z) (ph' z) = (if z = p then xs else remaining (tds ftl z) (ph z))" for z
    using px A(4) by (auto simp: ph')
  have sum: "(\<Sum>z<ntds ftl. ?r ph' z y) + (if y = x then 1 else 0) = (\<Sum>z<ntds ftl. ?r ph z y)" for y
  proof -
    have "(\<Sum>z<ntds ftl. ?r ph' z y) = count_list xs y + (\<Sum>z\<in>{..<ntds ftl} - {p}. ?r ph z y)"
      using pN by (subst sum.remove [of _ p]) (auto simp: rem intro: sum.cong)
    moreover have "(\<Sum>z<ntds ftl. ?r ph z y) = count_list (x # xs) y + (\<Sum>z\<in>{..<ntds ftl} - {p}. ?r ph z y)"
      using pN p by (subst sum.remove [of _ p]) auto
    ultimately show ?thesis by auto
  qed
  have cnt: "td_counter (es_tds s' y) + (\<Sum>z<ntds ftl. ?r ph' z y) = td_wc (tds ftl y)" if "y < ntds ftl" for y
    using G(5) [OF that] sum [of y] s' by (cases "y = x") auto
  have wait: "ph' y = Waiting \<longleftrightarrow> y \<notin> set (readylist ftl) \<and> (td_wc (tds ftl y) = 0 \<or> td_counter (es_tds s' y) < td_wc (tds ftl y))"
    if "y < ntds ftl" for y
    using G(6) [OF that] A px p by (cases "y = x"; cases "y = p") (auto simp: ph' s')
  have static: "\<forall>y. es_tds s' y = (tds ftl y)\<lparr>td_counter := td_counter (es_tds s' y)\<rparr>"
  proof
    fix y
    have "es_tds s y = (tds ftl y)\<lparr>td_counter := td_counter (es_tds s y)\<rparr>" using g unfolding graph_state_def by blast
    then obtain c where "es_tds s y = (tds ftl y)\<lparr>td_counter := c\<rparr>" by blast
    then show "es_tds s' y = (tds ftl y)\<lparr>td_counter := td_counter (es_tds s' y)\<rparr>" by (cases "y = x") (simp_all add: s')
  qed
  have "y < ntds ftl" if "ph' y \<noteq> Waiting" for y using that G(3) [of y] A(1) pN by (auto simp: ph' split: if_splits)
  moreover have "set r \<subseteq> set (succs (tds ftl y))" if "ph' y = Act u r" for y u r
    using that G(4) [of y u r] G(4) [OF p] by (auto simp: ph' split: if_splits)
  ultimately show ?thesis unfolding graph_state_def using static cnt wait by blast
qed

context ready_pool
begin

lemma move_inv:
  assumes I: "exec_inv holds W ftl s ph" and t: "t < W" and f: "es_thread s t \<noteq> Finished"
    and r: "t_holds st = t_holds (es_thread s t)" "t_runs st = t_runs (es_thread s t)" "t_acts st = t_acts (es_thread s t)"
      "t_list st = t_list (es_thread s t) \<or> st = Finished"
    and u: "unreported (es_cnt s) st = unreported (es_cnt s) (es_thread s t)"
    and z: "t = 0 \<Longrightarrow> st \<in> {Returned 0, Finished} \<Longrightarrow> es_cnt s 0 = ntds ftl"
  shows "exec_inv holds W ftl (goto t st s) ph"
proof -
  note E = execD [OF I]
  note T = threadsD [OF E(2)]
  have "threads_inv W (goto t st s) ph"
    by (rule threads_step [OF E(2) t, where st = st]) (use r f T(1-3) in \<open>auto simp: goto_def\<close>)
  moreover have "graph_state ftl (goto t st s) ph"
    by (rule graph_step [OF E(3)]) (use graphD(4) [OF E(3)] in \<open>auto simp: goto_def\<close>)
  moreover have "trace_inv ftl (goto t st s) ph" by (rule trace_step [OF E(4)]) (simp_all add: goto_def)
  moreover have "count_inv W (ntds ftl) (goto t st s) ph"
    by (rule count_step [OF E(5) t, where st = st]) (use u z in \<open>simp_all add: goto_def\<close>)
  ultimately show ?thesis using E(1) unfolding exec_inv_def by (simp add: goto_def)
qed

text \<open>A step that changes the phase of one descriptor but neither counters, trace nor counts.\<close>

lemma phase_inv:
  assumes I: "exec_inv holds W ftl s ph" and t: "t < W" and f: "es_thread s t \<noteq> Finished"
    and s': "es_thread s' = (es_thread s)(t := st)" "es_ntl s' = es_ntl s" "es_tds s' = es_tds s" "es_trace s' = es_trace s"
      "es_cnt s' = es_cnt s"
    and h: "holds (es_ntl s) (es_pools s') (queued (ph(x := p)))"
    and r: "\<forall>y. (ph(x := p)) y = Held t \<longleftrightarrow> t_holds st = Some y" "\<forall>y. (ph(x := p)) y = Run t \<longleftrightarrow> t_runs st = Some y"
      "\<forall>y r. (ph(x := p)) y = Act t r \<longleftrightarrow> t_acts st = Some (y, r)" "t_list st = t_list (es_thread s t)"
    and o: "owner (ph x) \<in> {None, Some t}" "owner p \<in> {None, Some t}"
    and g: "remaining (tds ftl x) p = remaining (tds ftl x) (ph x)" "p = Waiting \<longleftrightarrow> ph x = Waiting" "\<forall>t r. p \<noteq> Act t r"
    and e: "started p = started (ph x)" "ended p = ended (ph x)"
    and u: "t_count st = t_count (es_thread s t)" and z: "st \<notin> {Returned 0, Finished}"
  shows "exec_inv holds W ftl s' (ph(x := p))"
proof -
  note E = execD [OF I]
  have "threads_inv W s' (ph(x := p))"
    by (rule threads_step [OF E(2) t, where st = st]) (use r f s' o in auto)
  moreover have "graph_state ftl s' (ph(x := p))"
    by (rule graph_step [OF E(3)]) (use g s' graphD(4) [OF E(3)] in auto)
  moreover have "trace_inv ftl s' (ph(x := p))" by (rule trace_step [OF E(4)]) (use s' e in auto)
  moreover have "count_inv W (ntds ftl) s' (ph(x := p))"
    by (rule count_step [OF E(5) t, where st = st]) (use s' e u z r in \<open>auto simp: unreported_def\<close>)
  ultimately show ?thesis using h s' unfolding exec_inv_def by simp
qed

lemma take_inv:
  assumes I: "exec_inv holds W ftl s ph" and t: "t < W" and f: "es_thread s t \<noteq> Finished"
    and n: "t_holds (es_thread s t) = None" "t_runs (es_thread s t) = None" "t_acts (es_thread s t) = None"
    and st: "t_holds st = Some x" "t_runs st = None" "t_acts st = None" "t_list st = t_list (es_thread s t)"
      "t_count st = t_count (es_thread s t)"
    and taken: "taken holds (es_ntl s) (queued ph) q (es_pools s) (Inr x) p'"
  shows "exec_inv holds W ftl (goto t st (s\<lparr>es_pools := p'\<rparr>)) (ph(x := Held t))"
proof -
  note E = execD [OF I]
  note T = threadsD [OF E(2)]
  have q: "ph x = Queued q" "holds (es_ntl s) p' ((queued ph)(q := queued ph q - {x}))"
    using taken by (auto simp: taken_def queued_def)
  then have "holds (es_ntl s) p' (queued (ph(x := Held t)))" by (simp add: queued_take)
  moreover have "ph y \<noteq> Held t" "ph y \<noteq> Run t" "ph y \<noteq> Act t r" for y r using n T(1-3) by simp_all
  moreover have "st \<noteq> Returned 0" "st \<noteq> Finished" using st(1) by auto
  ultimately show ?thesis
    by (intro phase_inv [OF I t f, where st = st]) (use q(1) st in \<open>auto simp: goto_def\<close>)
qed

lemma exec_push_inv:
  assumes I: "exec_inv holds W ftl s ph" and t: "t < W" and fr: "frame_ready ok ftl"
    and n: "t_holds (es_thread s t) = Some x" and st: "t_holds st = None" "t_runs st = t_runs (es_thread s t)"
      "t_acts st = t_acts (es_thread s t)" "t_list st = t_list (es_thread s t)" "t_count st = t_count (es_thread s t)"
      "t_list st = Some tk" "st \<notin> {Returned 0, Finished}"
    and push: "op_pushready ops kid (QTasklist tk) x (es_pools s) = Some (prio, p')"
  shows "\<exists>q. exec_inv holds W ftl (goto t st (s\<lparr>es_pools := p'\<rparr>)) (ph(x := Queued q))"
proof -
  note E = execD [OF I]
  note T = threadsD [OF E(2)]
  have x: "ph x = Held t" using n T(1) by simp
  have "ok x" using fr graphD(3) [OF E(3), of x] x by (simp add: frame_ready_def)
  moreover have "\<forall>q. x \<notin> queued ph q" using x by (simp add: queued_def)
  moreover have "live (es_ntl s) (QTasklist tk)" using T(4) [of t tk] st(4,6) by simp
  ultimately obtain q where "holds (es_ntl s) p' ((queued ph)(q := insert x (queued ph q)))"
    using push_law [OF E(1) T(9), of "QTasklist tk" x kid] push by auto
  then have "holds (es_ntl s) p' (queued (ph(x := Queued q)))" using x by (simp add: queued_insert)
  moreover have "y \<noteq> x \<Longrightarrow> ph y \<noteq> Held t" "y \<noteq> x \<Longrightarrow> ph y = Run t \<longleftrightarrow> t_runs st = Some y" "y \<noteq> x \<Longrightarrow> ph y = Act t r \<longleftrightarrow> t_acts st = Some (y, r)" for y r
    using n st T(1-3) by auto
  moreover have "t_runs st \<noteq> Some x" "t_acts st \<noteq> Some (x, r)" for r
    using st T(2) [of x t] T(3) [of x t r] x by auto
  moreover have "es_thread s t \<noteq> Finished" using n by auto
  ultimately have "exec_inv holds W ftl (goto t st (s\<lparr>es_pools := p'\<rparr>)) (ph(x := Queued q))"
    by (intro phase_inv [OF I t, where st = st]) (use st x in \<open>auto simp: goto_def\<close>)
  then show ?thesis by blast
qed

lemma start_inv:
  assumes I: "exec_inv holds W ftl s ph" and t: "t < W" and fr: "frame_ready ok ftl" and x: "es_thread s t = Exec tk n x"
  shows "exec_inv holds W ftl (goto t (Body tk n x) (s\<lparr>es_trace := es_trace s @ [Start x]\<rparr>)) (ph(x := Run t))"
    (is "exec_inv _ _ _ ?s ?ph")
proof -
  note E = execD [OF I]
  note T = threadsD [OF E(2)]
  have ph: "ph x = Held t" using T(1) x by simp
  have at: "ph y \<noteq> Run t" "ph y \<noteq> Act t r" "y \<noteq> x \<Longrightarrow> ph y \<noteq> Held t" for y r using T(1-3) x by auto
  have "threads_inv W ?s ?ph"
    by (rule threads_step [OF E(2) t, where st = "Body tk n x"]) (use ph at x in \<open>auto simp: goto_def\<close>)
  moreover have "graph_state ftl ?s ?ph"
    by (rule graph_step [OF E(3)]) (use ph graphD(4) [OF E(3)] in \<open>auto simp: goto_def\<close>)
  moreover have "trace_inv ftl ?s ?ph"
  proof -
    have "\<forall>z < ntds ftl. x \<in> set (succs (tds ftl z)) \<longrightarrow> End z \<in> set (es_trace s)"
      using ready_preds [OF fr E(3), of x] ph E(4) by (simp add: trace_inv_def)
    moreover have "Start x \<notin> set (es_trace s)" using E(4) ph by (simp add: trace_inv_def)
    moreover have "trace_ok ftl (es_trace s)" using E(4) by (simp add: trace_inv_def)
    ultimately have "trace_ok ftl (es_trace s @ [Start x])" by (intro trace_ok_start)
    then show ?thesis using E(4) ph by (auto simp: trace_inv_def goto_def)
  qed
  moreover have "count_inv W (ntds ftl) ?s ?ph"
    by (rule count_step [OF E(5) t, where st = "Body tk n x"]) (use ph x in \<open>auto simp: goto_def unreported_def\<close>)
  moreover have "queued ?ph = queued ph" by (rule queued_same) (simp_all add: ph)
  ultimately show ?thesis using E(1) unfolding exec_inv_def by (simp add: goto_def)
qed

lemma end_inv:
  assumes I: "exec_inv holds W ftl s ph" and t: "t < W" and x: "es_thread s t = Body tk n x"
  shows "exec_inv holds W ftl (goto t (Activating tk (n + 1) x (succs (es_tds s x))) (s\<lparr>es_trace := es_trace s @ [End x]\<rparr>))
      (ph(x := Act t (succs (es_tds s x))))" (is "exec_inv _ _ _ ?s ?ph")
proof -
  note E = execD [OF I]
  note T = threadsD [OF E(2)]
  let ?st = "Activating tk (n + 1) x (succs (es_tds s x))"
  have ph: "ph x = Run t" using T(2) x by simp
  have xN: "x < ntds ftl" using graphD(3) [OF E(3)] ph by simp
  have at: "ph y \<noteq> Held t" "ph y \<noteq> Act t r" "y \<noteq> x \<Longrightarrow> ph y \<noteq> Run t" for y r using T(1-3) x by auto
  have "threads_inv W ?s ?ph"
    by (rule threads_step [OF E(2) t, where st = ?st]) (use ph at x in \<open>auto simp: goto_def\<close>)
  moreover have "graph_state ftl ?s ?ph"
    by (rule graph_step [OF E(3)]) (use ph graphD(2,4) [OF E(3)] in \<open>auto simp: goto_def\<close>)
  moreover have "trace_inv ftl ?s ?ph"
  proof -
    have "trace_ok ftl (es_trace s @ [End x])"
      by (rule trace_ok_end) (use E(4) ph in \<open>simp_all add: trace_inv_def\<close>)
    then show ?thesis using E(4) ph by (auto simp: trace_inv_def goto_def)
  qed
  moreover have "count_inv W (ntds ftl) ?s ?ph"
  proof -
    have "{y. y < ntds ftl \<and> ended (?ph y)} = insert x {y. y < ntds ftl \<and> ended (ph y)}" using xN by auto
    then have "card {y. y < ntds ftl \<and> ended (?ph y)} = Suc (card {y. y < ntds ftl \<and> ended (ph y)})" using ph by simp
    then show ?thesis
      using E(5) sum_upd [OF t, of "unreported (es_cnt s)" "es_thread s" ?st] x
      by (auto simp: count_inv_def goto_def unreported_def)
  qed
  moreover have "queued ?ph = queued ph" by (rule queued_same) (simp_all add: ph)
  ultimately show ?thesis using E(1) unfolding exec_inv_def by (simp add: goto_def)
qed

lemma activated_inv:
  assumes I: "exec_inv holds W ftl s ph" and t: "t < W" and x: "es_thread s t = Activating tk n x []"
  shows "exec_inv holds W ftl (goto t (Loop tk n) s) (ph(x := Done))"
proof -
  note E = execD [OF I]
  note T = threadsD [OF E(2)]
  have ph: "ph x = Act t []" using T(3) x by simp
  have at: "ph y \<noteq> Held t" "ph y \<noteq> Run t" "y \<noteq> x \<Longrightarrow> ph y \<noteq> Act t r" for y r using T(1-3) x by auto
  have "queued (ph(x := Done)) = queued ph" by (rule queued_same) (simp_all add: ph)
  then show ?thesis using E(1)
    by (intro phase_inv [OF I t, where st = "Loop tk n"]) (use ph at x in \<open>auto simp: goto_def\<close>)
qed

lemma activate_inv:
  assumes I: "exec_inv holds W ftl s ph" and t: "t < W" and fr: "frame_ready ok ftl" and x: "es_thread s t = Activating tk n p (x # xs)"
    and d: "kaapi_taskdescr_activated (es_tds s x) = Some (ready, d)"
    and s': "s' = goto t (if ready then Pushing tk n p x xs else Activating tk n p xs) (s\<lparr>es_tds := (es_tds s)(x := d)\<rparr>)"
    and ph': "ph' = (if ready then (ph(p := Act t xs))(x := Held t) else ph(p := Act t xs))"
  shows "exec_inv holds W ftl s' ph'"
proof -
  note E = execD [OF I]
  note T = threadsD [OF E(2)]
  let ?st = "if ready then Pushing tk n p x xs else Activating tk n p xs"
  have ph: "ph p = Act t (x # xs)" using T(3) x by simp
  note A = activate_counter [OF fr E(3) ph]
  have rd: "ready \<longleftrightarrow> td_counter (es_tds s x) + 1 = td_wc (tds ftl x)" "d = (es_tds s x)\<lparr>td_counter := td_counter (es_tds s x) + 1\<rparr>"
    using A(5) d by auto
  have px: "p \<noteq> x" using ph A(4) by auto
  have at: "ph y \<noteq> Held t" "ph y \<noteq> Run t" "y \<noteq> p \<Longrightarrow> ph y \<noteq> Act t r" for y r using T(1-3) x by auto
  have "threads_inv W s' ph'"
    by (rule threads_step [OF E(2) t, where st = ?st]) (use ph at x px A(4) in \<open>auto simp: goto_def s' ph'\<close>)
  moreover have "graph_state ftl s' ph'"
    by (rule activate_graph [OF fr E(3) ph]) (simp_all add: s' ph' rd goto_def)
  moreover have same: "started (ph' y) = started (ph y)" "ended (ph' y) = ended (ph y)" for y
    using ph A(4) px by (auto simp: ph')
  then have "trace_inv ftl s' ph'" by (intro trace_step [OF E(4)]) (simp_all add: s' goto_def)
  moreover have "count_inv W (ntds ftl) s' ph'"
    by (rule count_step [OF E(5) t, where st = ?st]) (use x same in \<open>auto simp: goto_def unreported_def s' split: if_splits\<close>)
  moreover have "queued ph' = queued ph" using ph A(4) by (auto simp: queued_def fun_eq_iff ph')
  ultimately show ?thesis using E(1) unfolding exec_inv_def by (simp add: goto_def s')
qed

lemma add_cnt_inv:
  assumes I: "exec_inv holds W ftl s ph" and t: "t < W" and x: "es_thread s t = Finish tk n"
  shows "exec_inv holds W ftl (goto t (Check tk) (s\<lparr>es_cnt := (es_cnt s)(tk := es_cnt s tk + n)\<rparr>)) ph" (is "exec_inv _ _ _ ?s _")
proof -
  note E = execD [OF I]
  note T = threadsD [OF E(2)]
  let ?c = "(es_cnt s)(tk := es_cnt s tk + n)"
  have "threads_inv W ?s ph"
    by (rule threads_step [OF E(2) t, where st = "Check tk"]) (use x T(1-3) in \<open>auto simp: goto_def\<close>)
  moreover have "graph_state ftl ?s ph"
    by (rule graph_step [OF E(3)]) (use graphD(4) [OF E(3)] in \<open>auto simp: goto_def\<close>)
  moreover have "trace_inv ftl ?s ph" by (rule trace_step [OF E(4)]) (simp_all add: goto_def)
  moreover have "count_inv W (ntds ftl) ?s ph"
  proof (rule count_change [OF E(5) t, where st = "Check tk"])
    show "unreported (es_cnt ?s) (es_thread s i) = unreported (es_cnt s) (es_thread s i)" if "i \<noteq> t" for i
      using T(5) [of i tk t] x that by (auto simp: unreported_def goto_def split: option.splits)
  qed (use x T(4) [of t tk] E(5) in \<open>auto simp: goto_def unreported_def count_inv_def\<close>)
  ultimately show ?thesis using E(1) unfolding exec_inv_def by (simp add: goto_def)
qed

lemma report_inv:
  assumes I: "exec_inv holds W ftl s ph" and t: "t < W" and x: "es_thread s t = Returned tk" "tk \<noteq> 0"
  shows "exec_inv holds W ftl (goto t Idle (s\<lparr>es_cnt := (es_cnt s)(0 := es_cnt s 0 + es_cnt s tk)\<rparr>)) ph" (is "exec_inv _ _ _ ?s _")
proof -
  note E = execD [OF I]
  note T = threadsD [OF E(2)]
  have t0: "t \<noteq> 0" using T(4) [of t tk] x by simp
  have "threads_inv W ?s ph"
    by (rule threads_step [OF E(2) t, where st = Idle]) (use x t0 T(1-3) in \<open>auto simp: goto_def\<close>)
  moreover have "graph_state ftl ?s ph"
    by (rule graph_step [OF E(3)]) (use graphD(4) [OF E(3)] in \<open>auto simp: goto_def\<close>)
  moreover have "trace_inv ftl ?s ph" by (rule trace_step [OF E(4)]) (simp_all add: goto_def)
  moreover have "count_inv W (ntds ftl) ?s ph"
  proof (rule count_change [OF E(5) t, where st = Idle])
    show "unreported (es_cnt ?s) (es_thread s i) = unreported (es_cnt s) (es_thread s i)" for i
      by (auto simp: unreported_def goto_def split: option.splits)
    show "es_cnt ?s 0 = ntds ftl" if "es_thread ?s 0 \<in> {Returned 0, Finished}"
    proof -
      have "es_cnt s 0 = ntds ftl" using that E(5) t0 by (simp add: count_inv_def goto_def)
      moreover have "unreported (es_cnt s) (es_thread s t) \<le> (\<Sum>i<W. unreported (es_cnt s) (es_thread s i))"
        using t by (intro member_le_sum) auto
      moreover have "unreported (es_cnt s) (es_thread s t) = es_cnt s tk" using x by (simp add: unreported_def)
      ultimately show ?thesis
        using E(5) ended_card_le [of "ntds ftl" ph] unfolding count_inv_def by (simp add: goto_def)
    qed
  qed (use x in \<open>simp_all add: goto_def unreported_def\<close>)
  ultimately show ?thesis using E(1) unfolding exec_inv_def by (simp add: goto_def)
qed

lemma stolen_init_inv:
  assumes I: "exec_inv holds W ftl s ph" and t: "t < W" and fr: "frame_ready ok ftl" and x: "es_thread s t = Stolen td"
    and push: "op_pushready ops kid (QTasklist (es_ntl s)) td (op_init ops (QTasklist (es_ntl s)) (es_pools s)) = Some (prio, p')"
  shows "\<exists>q. exec_inv holds W ftl
      (goto t (Loop (es_ntl s) 0) (s\<lparr>es_pools := p', es_ntl := es_ntl s + 1, es_cnt := (es_cnt s)(es_ntl s := 0)\<rparr>))
      (ph(td := Queued q))"
proof -
  note E = execD [OF I]
  note T = threadsD [OF E(2)]
  let ?n = "es_ntl s"
  have ph: "ph td = Held t" using T(1) x by simp
  have at: "ph y \<noteq> Run t" "ph y \<noteq> Act t r" "y \<noteq> td \<Longrightarrow> ph y \<noteq> Held t" for y r using T(1-3) x by auto
  have t0: "t \<noteq> 0" using T(6) x by (cases "t = 0") auto
  have "holds (Suc ?n) (op_init ops (QTasklist ?n) (es_pools s)) (queued ph)" by (rule init_law [OF E(1)])
  moreover have "ok td" using fr graphD(3) [OF E(3), of td] ph by (simp add: frame_ready_def)
  moreover have "\<forall>q. td \<notin> queued ph q" using ph by (simp add: queued_def)
  ultimately obtain q where "holds (Suc ?n) p' ((queued ph)(q := insert td (queued ph q)))"
    using push_law [of "Suc ?n" "op_init ops (QTasklist ?n) (es_pools s)" "queued ph" "QTasklist ?n" td kid] push by auto
  then have h: "holds (Suc ?n) p' (queued (ph(td := Queued q)))" using ph by (simp add: queued_insert)
  let ?s = "goto t (Loop ?n 0) (s\<lparr>es_pools := p', es_ntl := ?n + 1, es_cnt := (es_cnt s)(?n := 0)\<rparr>)" and ?ph = "ph(td := Queued q)"
  have "threads_inv W ?s ?ph"
    by (rule threads_step [OF E(2) t, where st = "Loop ?n 0"]) (use x t0 ph at in \<open>auto simp: goto_def\<close>)
  moreover have "graph_state ftl ?s ?ph"
    by (rule graph_step [OF E(3)]) (use ph graphD(4) [OF E(3)] in \<open>auto simp: goto_def\<close>)
  moreover have "trace_inv ftl ?s ?ph" by (rule trace_step [OF E(4)]) (use ph in \<open>auto simp: goto_def\<close>)
  moreover have "count_inv W (ntds ftl) ?s ?ph"
  proof -
    have "count_inv W (ntds ftl) ?s ph"
    proof (rule count_change [OF E(5) t, where st = "Loop ?n 0"])
      show "unreported (es_cnt ?s) (es_thread s i) = unreported (es_cnt s) (es_thread s i)" for i
        using T(4) [of i ?n] by (auto simp: unreported_def goto_def split: option.splits)
    qed (use x t0 T(9) E(5) in \<open>auto simp: goto_def unreported_def count_inv_def\<close>)
    moreover have "ended (?ph y) = ended (ph y)" for y using ph by simp
    ultimately show ?thesis unfolding count_inv_def by simp
  qed
  ultimately show ?thesis using h unfolding exec_inv_def by (auto simp: goto_def)
qed

lemma pop_taken:
  "exec_inv holds W ftl s ph \<Longrightarrow> live (es_ntl s) q \<Longrightarrow> op_pop ops kid q (es_pools s) = Some (res, p') \<Longrightarrow>
   taken holds (es_ntl s) (queued ph) q (es_pools s) res p'"
  by (drule execD(1), drule (1) pop_law [where kid = kid]) auto

lemma steal_taken:
  "exec_inv holds W ftl s ph \<Longrightarrow> live (es_ntl s) q \<Longrightarrow> op_steal ops kid thief q (es_pools s) = Some (res, p') \<Longrightarrow>
   taken holds (es_ntl s) (queued ph) q (es_pools s) res p'"
  by (drule execD(1), drule (1) steal_law [where kid = kid and thief = thief]) auto

lemma taken_none: "taken holds n C q p (Inl e) p' \<Longrightarrow> s\<lparr>es_pools := p'\<rparr> = s" if "es_pools s = p"
  using that by (simp add: taken_def)

lemma live_list: "exec_inv holds W ftl s ph \<Longrightarrow> t_list (es_thread s t) = Some tk \<Longrightarrow> live (es_ntl s) (QTasklist tk)"
  using threadsD(4) [OF execD(2)] by fastforce

lemma execframe_inv:
  assumes I: "exec_inv holds W ftl s ph" and t: "t < W" and fr: "frame_ready ok ftl"
    and st: "execframe_step ops kid (total_tasks ftl) t s s'"
  shows "\<exists>ph'. exec_inv holds W ftl s' ph'"
  using st
proof cases
  case (loop_pop tk n td p')
  then show ?thesis using take_inv [OF I t, of "Exec tk n td"] pop_taken [OF I, of "QTasklist tk"] live_list [OF I, of t tk] by force
next
  case (loop_busy tk n e p')
  then have "s\<lparr>es_pools := p'\<rparr> = s" using pop_taken [OF I live_list [OF I]] taken_none by (metis t_list.simps(1))
  then show ?thesis using loop_busy move_inv [OF I t, of "Loop tk n"] by auto
next
  case (loop_exit tk n)
  then show ?thesis using move_inv [OF I t, of "AfterLoop tk n"] by (auto simp: unreported_def)
next
  case (rtl_pop tk n td p')
  then show ?thesis using take_inv [OF I t, of "Exec tk n td"] pop_taken [OF I, of "QRtl kid"] by force
next
  case (rtl_busy tk n e p')
  then have "s\<lparr>es_pools := p'\<rparr> = s" using pop_taken [OF I, of "QRtl kid"] taken_none by (metis live.simps(2))
  then show ?thesis using rtl_busy move_inv [OF I t, of "AfterRtl tk n"] by (auto simp: unreported_def)
next
  case (rtl_empty tk n)
  then show ?thesis using move_inv [OF I t, of "AfterRtl tk n"] by (auto simp: unreported_def)
next
  case (remote_pop tk n td p')
  then show ?thesis using take_inv [OF I t, of "Exec tk n td"] pop_taken [OF I, of "QRemote kid"] by force
next
  case (remote_busy tk n e p')
  then have "s\<lparr>es_pools := p'\<rparr> = s" using pop_taken [OF I, of "QRemote kid"] taken_none by (metis live.simps(3))
  then show ?thesis using remote_busy move_inv [OF I t, of "Finish tk n"] by (auto simp: unreported_def)
next
  case (remote_empty tk n)
  then show ?thesis using move_inv [OF I t, of "Finish tk n"] by (auto simp: unreported_def)
next
  case (body_start tk n td)
  then show ?thesis using start_inv [OF I t fr] by blast
next
  case (body_end tk n td)
  then show ?thesis using end_inv [OF I t] by blast
next
  case (activate_ready tk n td x xs d)
  then show ?thesis using activate_inv [OF I t fr, of tk n td x xs True d] by auto
next
  case (activate_waits tk n td x xs d)
  then show ?thesis using activate_inv [OF I t fr, of tk n td x xs False d] by auto
next
  case (push_activated tk n td x xs prio p')
  then show ?thesis using exec_push_inv [OF I t fr, of x "Activating tk n td xs" tk kid prio p'] by auto
next
  case (activated tk n td)
  then show ?thesis using activated_inv [OF I t] by blast
next
  case (add_cnt tk n)
  then show ?thesis using add_cnt_inv [OF I t] by blast
next
  case (would_block tk)
  then show ?thesis using move_inv [OF I t, of Blocked] by (auto simp: unreported_def)
next
  case (returns tk)
  then have "t = 0 \<Longrightarrow> es_cnt s 0 = ntds ftl"
    using threadsD(4) [OF execD(2) [OF I], of t tk] fr by (auto simp: frame_ready_def)
  then show ?thesis using returns move_inv [OF I t, of "Returned tk"] by (auto simp: unreported_def)
qed

lemma sync_inv:
  assumes I: "exec_inv holds W ftl s ph" and t: "t < W" and st: "sync_step (total_tasks ftl) t s s'"
  shows "\<exists>ph'. exec_inv holds W ftl s' ph'"
  using st
proof cases
  case redo
  then show ?thesis using move_inv [OF I t, of "Loop 0 0"] by (auto simp: unreported_def)
next
  case sync_returns
  moreover have "t = 0" using threadsD(4) [OF execD(2) [OF I], of t 0] sync_returns by auto
  ultimately have "es_cnt s 0 = ntds ftl" using execD(5) [OF I] by (simp add: count_inv_def)
  then show ?thesis using sync_returns move_inv [OF I t, of Finished] by (auto simp: unreported_def)
qed

lemma stealer_inv:
  assumes I: "exec_inv holds W ftl s ph" and t: "t < W" and fr: "frame_ready ok ftl"
    and st: "stealer_step ops kid t s s'"
  shows "\<exists>ph'. exec_inv holds W ftl s' ph'"
  using st unfolding stealer_step_def
proof (elim disjE)
  assume "idle_step ops kid t s s'"
  then show ?thesis
  proof cases
    case (idle_remote td p')
    then show ?thesis using take_inv [OF I t, of "Stolen td"] pop_taken [OF I, of "QRemote kid"] by force
  next
    case (idle_no_remote e p')
    then have "s\<lparr>es_pools := p'\<rparr> = s" using pop_taken [OF I, of "QRemote kid"] taken_none by (metis live.simps(3))
    then show ?thesis using idle_no_remote move_inv [OF I t, of IdleRtl] by (auto simp: unreported_def)
  next
    case (idle_rtl td p')
    then show ?thesis using take_inv [OF I t, of "Stolen td"] pop_taken [OF I, of "QRtl kid"] by force
  next
    case (idle_no_rtl e p')
    then have "s\<lparr>es_pools := p'\<rparr> = s" using pop_taken [OF I, of "QRtl kid"] taken_none by (metis live.simps(2))
    then show ?thesis using idle_no_rtl move_inv [OF I t, of Requesting] by (auto simp: unreported_def)
  qed
next
  assume "steal_step ops kid t s s'"
  then show ?thesis
  proof cases
    case (steal_tasklist l k td p')
    then show ?thesis using take_inv [OF I t, of "Stolen td"] steal_taken [OF I, of "QTasklist l"] by force
  next
    case (steal_rtl k v td p')
    then show ?thesis using take_inv [OF I t, of "Stolen td"] steal_taken [OF I, of "QRtl v"] by force
  next
    case (steal_remote k v td p')
    then show ?thesis using take_inv [OF I t, of "Stolen td"] steal_taken [OF I, of "QRemote v"] by force
  next
    case steal_fails
    then show ?thesis using move_inv [OF I t, of Idle] by (auto simp: unreported_def)
  qed
next
  assume "stealready_step ops kid t s s'"
  then show ?thesis
  proof cases
    case (stolen_init td prio p')
    then show ?thesis using stolen_init_inv [OF I t fr] by blast
  next
    case (stolen_report tk)
    then show ?thesis using report_inv [OF I t] by blast
  qed
qed

lemma exec_step_inv:
  assumes "exec_inv holds W ftl s ph" and "frame_ready ok ftl" and "exec_step ops proc W (total_tasks ftl) s s'"
  shows "\<exists>ph'. exec_inv holds W ftl s' ph'"
  using assms(3) unfolding exec_step_def
  using execframe_inv [OF assms(1) _ assms(2)] sync_inv [OF assms(1)] stealer_inv [OF assms(1) _ assms(2)] by blast

lemma push_init_spec:
  assumes "holds n p (queued ph)" "0 < n" "live n q" "distinct xs" "\<forall>x \<in> set xs. ok x \<and> ph x = Waiting"
  shows "\<exists>p' ph'. kaapi_thread_tasklistready_push_init ops kid q xs p = Some p' \<and> holds n p' (queued ph')
    \<and> (\<forall>x. if x \<in> set xs then \<exists>q. ph' x = Queued q else ph' x = ph x)"
  using assms
proof (induction xs arbitrary: p ph)
  case Nil
  then show ?case by auto
next
  case (Cons x xs)
  have "\<forall>q. x \<notin> queued ph q" using Cons.prems(5) by (simp add: queued_def)
  then obtain prio p1 q1 where p1: "op_pushready ops kid q x p = Some (prio, p1)" "holds n p1 ((queued ph)(q1 := insert x (queued ph q1)))"
    using push_law [OF Cons.prems(1-3), of x kid] Cons.prems(5) by auto
  then have h: "holds n p1 (queued (ph(x := Queued q1)))" using Cons.prems(5) by (simp add: queued_insert)
  have "\<forall>y \<in> set xs. ok y \<and> (ph(x := Queued q1)) y = Waiting" using Cons.prems(4,5) by auto
  then obtain p' ph' where r: "kaapi_thread_tasklistready_push_init ops kid q xs p1 = Some p'" "holds n p' (queued ph')"
    "\<forall>y. if y \<in> set xs then \<exists>q. ph' y = Queued q else ph' y = (ph(x := Queued q1)) y"
    using Cons.IH [OF h Cons.prems(2,3)] Cons.prems(4) by auto
  moreover have "if y \<in> set (x # xs) then \<exists>q. ph' y = Queued q else ph' y = ph y" for y
    using r(3) [rule_format, of y] Cons.prems(4) by (auto split: if_splits)
  ultimately show ?case using p1(1) by auto
qed

lemma exec_init_inv:
  assumes fr: "frame_ready ok ftl" and h: "holds 1 (rtl ftl) (\<lambda>_. {})" and W: "0 < W"
  shows "\<exists>s ph. exec_init ops kid ftl = Some s \<and> exec_inv holds W ftl s ph"
proof -
  have e: "queued (\<lambda>_. Waiting) = (\<lambda>_. {})" by (auto simp: queued_def fun_eq_iff)
  have "\<forall>x \<in> set (readylist ftl). ok x" "distinct (readylist ftl)" using fr by (simp_all add: frame_ready_def)
  then obtain p ph where r: "kaapi_thread_tasklistready_push_init ops kid (QTasklist 0) (readylist ftl) (rtl ftl) = Some p"
    "holds 1 p (queued ph)" "\<forall>x. if x \<in> set (readylist ftl) then \<exists>q. ph x = Queued q else ph x = Waiting"
    using push_init_spec [of 1 "rtl ftl" "\<lambda>_. Waiting" "QTasklist 0" "readylist ftl" kid] h unfolding e by auto
  define s where "s = \<lparr>es_pools = p, es_tds = tds ftl, es_cnt = (\<lambda>_. 0), es_ntl = 1,
         es_thread = (\<lambda>_. Idle)(0 := Loop 0 0), es_trace = []\<rparr>"
  have ph: "x \<notin> set (readylist ftl) \<Longrightarrow> ph x = Waiting" "x \<in> set (readylist ftl) \<Longrightarrow> \<exists>q. ph x = Queued q" for x
    using r(3) by presburger+
  have no: "ph x \<noteq> Held t" "ph x \<noteq> Run t" "ph x \<noteq> Act t l" "\<not> started (ph x)" "\<not> ended (ph x)"
      "remaining (tds ftl x) (ph x) = succs (tds ftl x)" "ph x = Waiting \<longleftrightarrow> x \<notin> set (readylist ftl)" for x t l
    using ph [of x] by (cases "x \<in> set (readylist ftl)"; fastforce)+
  have "threads_inv W s ph" unfolding threads_inv_def using no W by (auto simp: s_def)
  moreover have "graph_state ftl s ph"
    unfolding graph_state_def using fr by (auto simp: s_def frame_ready_def no simp del: sum_eq_0_iff)
  moreover have "trace_inv ftl s ph" unfolding trace_inv_def using no by (simp add: s_def trace_ok_def)
  moreover have "count_inv W (ntds ftl) s ph" unfolding count_inv_def using no by (simp add: s_def unreported_def)
  ultimately have "exec_inv holds W ftl s ph" using r(2) by (simp add: exec_inv_def s_def)
  then show ?thesis using r(1) by (auto simp: exec_init_def s_def)
qed

lemma reachable_inv:
  assumes "(exec_step ops proc W (total_tasks ftl))\<^sup>*\<^sup>* s s'" and "exec_inv holds W ftl s ph" and "frame_ready ok ftl"
  shows "\<exists>ph'. exec_inv holds W ftl s' ph'"
  using assms by (induction rule: rtranclp_induct) (auto dest: exec_step_inv)

text \<open>When no thread has work and every queue is empty, all bodies have been executed and reported, provided the ready list
  had all descriptors that wait for none.\<close>

lemma idle_all_done:
  assumes I: "exec_inv holds W ftl s ph" and fr: "frame_ready ok ftl"
    and none: "\<And>t. t_holds (es_thread s t) = None" "\<And>t. t_runs (es_thread s t) = None" "\<And>t. t_acts (es_thread s t) = None"
      "\<And>t. unreported (es_cnt s) (es_thread s t) = 0"
    and e: "\<forall>q. live (es_ntl s) q \<longrightarrow> op_isempty ops q (es_pools s)"
    and all: "\<forall>x < ntds ftl. td_wc (tds ftl x) = 0 \<longrightarrow> x \<in> set (readylist ftl)"
  shows "es_cnt s 0 = ntds ftl" "\<forall>x < ntds ftl. End x \<in> set (es_trace s)"
proof -
  note E = execD [OF I]
  note T = threadsD [OF E(2)] and G = graphD [OF E(3)]
  have "queued ph q = {}" for q
    using e isempty_law [OF E(1)] dead_law [OF E(1)] by blast
  then have "ph x \<noteq> Queued q" for x q by (auto simp: queued_def set_eq_iff)
  moreover have "ph x \<noteq> Held t" "ph x \<noteq> Run t" "ph x \<noteq> Act t r" for x t r using none T(1-3) by simp_all
  ultimately have two: "ph x = Waiting \<or> ph x = Done" for x by (cases "ph x") auto
  have fin: "x < ntds ftl \<Longrightarrow> ph x = Done" for x
  proof (induction "rank ftl x" arbitrary: x rule: less_induct)
    case less
    show ?case
    proof (rule ccontr)
      assume "ph x \<noteq> Done"
      then have w: "x \<notin> set (readylist ftl)" "td_wc (tds ftl x) = 0 \<or> td_counter (es_tds s x) < td_wc (tds ftl x)"
        using two [of x] G(6) [OF less.prems] by auto
      then have "td_counter (es_tds s x) < td_wc (tds ftl x)" using all less.prems by auto
      then have "(\<Sum>z<ntds ftl. count_list (remaining (tds ftl z) (ph z)) x) \<noteq> 0" using G(5) [OF less.prems] by linarith
      then obtain z where z: "z < ntds ftl" "count_list (remaining (tds ftl z) (ph z)) x \<noteq> 0"
        by (meson lessThan_iff sum.not_neutral_contains_not_neutral)
      then have "ph z = Waiting" "x \<in> set (succs (tds ftl z))" using two [of z] by (auto simp: count_list_0_iff)
      moreover from this have "rank ftl z < rank ftl x" using fr z(1) by (simp add: frame_ready_def)
      ultimately show False using less.hyps z(1) by fastforce
    qed
  qed
  then show "\<forall>x < ntds ftl. End x \<in> set (es_trace s)" using E(4) fin by (simp add: trace_inv_def)
  have "{x. x < ntds ftl \<and> ended (ph x)} = {..<ntds ftl}" using fin by auto
  then show "es_cnt s 0 = ntds ftl" using E(5) none(4) by (simp add: count_inv_def)
qed

lemma quiet_all_done:
  assumes I: "exec_inv holds W ftl s ph" and fr: "frame_ready ok ftl"
    and q: "\<forall>t < W. es_thread s t \<in> {Idle, IdleRtl, Requesting, Blocked, Finished}"
    and e: "\<forall>q. live (es_ntl s) q \<longrightarrow> op_isempty ops q (es_pools s)"
    and all: "\<forall>x < ntds ftl. td_wc (tds ftl x) = 0 \<longrightarrow> x \<in> set (readylist ftl)"
  shows "es_cnt s 0 = ntds ftl" "\<forall>x < ntds ftl. End x \<in> set (es_trace s)"
proof -
  have st: "es_thread s t \<in> {Idle, IdleRtl, Requesting, Blocked, Finished}" for t
    using q threadsD(7) [OF execD(2) [OF I], of t] by (cases "t < W") auto
  have none: "t_holds (es_thread s t) = None" "t_runs (es_thread s t) = None" "t_acts (es_thread s t) = None"
    "unreported (es_cnt s) (es_thread s t) = 0" for t
    using st [of t] by (auto simp: unreported_def)
  show "es_cnt s 0 = ntds ftl" "\<forall>x < ntds ftl. End x \<in> set (es_trace s)" by (rule idle_all_done [OF I fr none e all])+
qed

lemma returned_all_done:
  assumes I: "exec_inv holds W ftl s ph" and f: "es_thread s 0 = Finished"
  shows "\<forall>x < ntds ftl. End x \<in> set (es_trace s)"
proof -
  note E = execD [OF I]
  have "es_cnt s 0 = ntds ftl" using E(5) f by (simp add: count_inv_def)
  then have "ntds ftl \<le> card {x. x < ntds ftl \<and> ended (ph x)}" using E(5) unfolding count_inv_def by linarith
  then have "{x. x < ntds ftl \<and> ended (ph x)} = {..<ntds ftl}"
    by (intro card_seteq) auto
  then show ?thesis using E(4) by (auto simp: trace_inv_def)
qed

lemma never_ready:
  assumes I: "exec_inv holds W ftl s ph" and x: "x < ntds ftl" "td_wc (tds ftl x) = 0" "x \<notin> set (readylist ftl)"
  shows "Start x \<notin> set (es_trace s)" "es_thread s 0 \<noteq> Finished"
proof -
  note E = execD [OF I]
  have w: "ph x = Waiting" using graphD(6) [OF E(3) x(1)] x by simp
  then show "Start x \<notin> set (es_trace s)" using E(4) by (simp add: trace_inv_def)
  have "End x \<notin> set (es_trace s)" using E(4) w by (simp add: trace_inv_def)
  then show "es_thread s 0 \<noteq> Finished" using returned_all_done [OF I] x(1) by blast
qed

end


section \<open>No thread is stuck\<close>

text \<open>A thread that may still put descriptors into the queue of its task list.\<close>

fun working :: "tstate \<Rightarrow> nat option" where
  "working (Loop tk _) = Some tk"
| "working (Exec tk _ _) = Some tk"
| "working (Body tk _ _) = Some tk"
| "working (Activating tk _ _ _) = Some tk"
| "working (Pushing tk _ _ _ _) = Some tk"
| "working _ = None"

definition owned :: "'p ready_ops \<Rightarrow> 'p exec_state \<Rightarrow> bool" where
  "owned ops s \<longleftrightarrow> (\<forall>tk < es_ntl s. \<not> op_isempty ops (QTasklist tk) (es_pools s) \<longrightarrow> (\<exists>t. working (es_thread s t) = Some tk))"

lemma goto_fields [simp]:
  "es_pools (goto t st s) = es_pools s" "es_ntl (goto t st s) = es_ntl s" "es_thread (goto t st s) = (es_thread s)(t := st)"
  by (simp_all add: goto_def)

lemma owned_goto:
  assumes o: "owned ops s" and s1: "es_thread s1 = es_thread s"
    and w: "\<And>tk. working (es_thread s t) = Some tk \<Longrightarrow> working st = Some tk \<or> op_isempty ops (QTasklist tk) (es_pools s1)"
    and e: "\<And>tk. tk < es_ntl s1 \<Longrightarrow> working st \<noteq> Some tk \<Longrightarrow> \<not> op_isempty ops (QTasklist tk) (es_pools s1) \<Longrightarrow>
        tk < es_ntl s \<and> \<not> op_isempty ops (QTasklist tk) (es_pools s)"
  shows "owned ops (goto t st s1)"
  unfolding owned_def
proof (intro allI impI)
  fix tk assume tk: "tk < es_ntl (goto t st s1)" "\<not> op_isempty ops (QTasklist tk) (es_pools (goto t st s1))"
  show "\<exists>t'. working (es_thread (goto t st s1) t') = Some tk"
  proof (cases "working st = Some tk")
    case True
    then show ?thesis by (intro exI [of _ t]) simp
  next
    case False
    then obtain t' where t': "working (es_thread s t') = Some tk" using o e [of tk] tk False by (auto simp: owned_def)
    then have "t' \<noteq> t" using w [of tk] False tk(2) by auto
    then show ?thesis using t' s1 by (intro exI [of _ t']) simp
  qed
qed

context cpu_ready_pool
begin

lemma taken_isempty:
  assumes h: "holds n p C" and k: "taken holds n C q p res p'" and l: "live n q'" and e: "op_isempty ops q' p"
  shows "op_isempty ops q' p'"
proof (cases res)
  case (Inl a)
  then show ?thesis using k e by (simp add: taken_def)
next
  case (Inr x)
  then have "holds n p' (C(q := C q - {x}))" using k by (simp add: taken_def)
  then show ?thesis using isempty_law [OF h l] isempty_law [of n p' _ q'] l e by fastforce
qed

lemma push_isempty:
  assumes h: "holds n p C" and n: "0 < n" and l: "live n q" and x: "ok td" "\<forall>q. td \<notin> C q"
    and r: "op_pushready ops kid q td p = Some (prio, p')" and tk: "tk < n" "QTasklist tk \<noteq> q" and e: "op_isempty ops (QTasklist tk) p"
  shows "op_isempty ops (QTasklist tk) p'"
proof -
  obtain q' where q': "q' = q \<or> (\<exists>k. q' = QRemote k)" "holds n p' (C(q' := insert td (C q')))"
    using push_local [OF h n l x, of kid] r by auto
  have "(C(q' := insert td (C q'))) (QTasklist tk) = C (QTasklist tk)" using q'(1) tk(2) by auto
  then show ?thesis using isempty_law [OF h, of "QTasklist tk"] isempty_law [OF q'(2), of "QTasklist tk"] tk(1) e by simp
qed

lemma owned_step:
  assumes I: "exec_inv holds W ftl s ph" and fr: "frame_ready ok ftl" and o: "owned ops s"
    and st: "exec_step ops proc W (total_tasks ftl) s s'"
  shows "owned ops s'"
proof -
  note E = execD [OF I]
  note T = threadsD [OF E(2)]
  have hold_ok: "ok x" "\<forall>q. x \<notin> queued ph q" if "t_holds (es_thread s t) = Some x" for t x
    using T(1) [of x t] that fr graphD(3) [OF E(3), of x] by (auto simp: frame_ready_def queued_def)
  have pop: "op_isempty ops (QTasklist tk) p'" if "op_pop ops kid q (es_pools s) = Some (res, p')" "live (es_ntl s) q"
      "tk < es_ntl s" "op_isempty ops (QTasklist tk) (es_pools s)" for kid q res p' tk
    using taken_isempty [OF E(1) pop_taken [OF I that(2,1)]] that(3,4) by simp
  have steal: "op_isempty ops (QTasklist tk) p'" if "op_steal ops kid v q (es_pools s) = Some (res, p')" "live (es_ntl s) q"
      "tk < es_ntl s" "op_isempty ops (QTasklist tk) (es_pools s)" for kid v q res p' tk
    using taken_isempty [OF E(1) steal_taken [OF I that(2,1)]] that(3,4) by simp
  have lv: "live (es_ntl s) (QTasklist tk)" if "t_list (es_thread s t) = Some tk" for t tk using live_list [OF I that] .
  have pop_loop: "op_isempty ops (QTasklist j) p'" if "op_pop ops kid (QTasklist tk) (es_pools s) = Some (res, p')"
      "es_thread s t = Loop tk n" "j < es_ntl s" "op_isempty ops (QTasklist j) (es_pools s)" for t tk n kid res p' j
    using pop [OF that(1) lv [of t tk]] that by simp
  obtain t where t: "execframe_step ops (proc t) (total_tasks ftl) t s s' \<or> sync_step (total_tasks ftl) t s s' \<or> stealer_step ops (proc t) t s s'"
    using st unfolding exec_step_def by blast
  then show ?thesis
    unfolding stealer_step_def
  proof (elim disjE)
    assume "execframe_step ops (proc t) (total_tasks ftl) t s s'"
    then show ?thesis
    proof cases
      case (push_activated tk n td x xs prio p')
      have "op_isempty ops (QTasklist j) p'" if "j < es_ntl s" "j \<noteq> tk" "op_isempty ops (QTasklist j) (es_pools s)" for j
        by (rule push_isempty [OF E(1) T(9) lv [of t tk] hold_ok [of t x] push_activated(3)]) (use push_activated that in auto)
      then show ?thesis using push_activated by (auto intro!: owned_goto [OF o])
    qed (auto intro!: owned_goto [OF o] dest: pop pop_loop)
  next
    assume "sync_step (total_tasks ftl) t s s'"
    then show ?thesis by cases (auto intro!: owned_goto [OF o])
  next
    assume "idle_step ops (proc t) t s s'"
    then show ?thesis by cases (auto intro!: owned_goto [OF o] dest: pop)
  next
    assume "steal_step ops (proc t) t s s'"
    then show ?thesis by cases (auto intro!: owned_goto [OF o] dest: steal)
  next
    assume "stealready_step ops (proc t) t s s'"
    then show ?thesis
    proof cases
      case (stolen_init td prio p')
      let ?p = "op_init ops (QTasklist (es_ntl s)) (es_pools s)"
      have h: "holds (Suc (es_ntl s)) ?p (queued ph)" by (rule init_law [OF E(1)])
      have "op_isempty ops (QTasklist j) p'" if "j < es_ntl s" "op_isempty ops (QTasklist j) (es_pools s)" for j
      proof -
        have "op_isempty ops (QTasklist j) ?p"
          using isempty_law [OF E(1), of "QTasklist j"] isempty_law [OF h, of "QTasklist j"] that by simp
        then show ?thesis
          by (intro push_isempty [OF h _ _ hold_ok [of t td] stolen_init(3)]) (use stolen_init that in auto)
      qed
      then show ?thesis using stolen_init by (auto intro!: owned_goto [OF o] simp: less_Suc_eq)
    qed (auto intro!: owned_goto [OF o])
  qed
qed

text \<open>Every thread that is not suspended or finished can do its next step: no division by zero in the activation, no
  failing assertion at the end of the loop, no failing operation of a queue.\<close>

lemma owned_exec_init: "exec_init ops kid ftl = Some s \<Longrightarrow> owned ops s"
  by (auto simp: exec_init_def owned_def intro: exI [of _ 0])

lemma can_step:
  assumes I: "exec_inv holds W ftl s ph" and fr: "frame_ready ok ftl" and o: "owned ops s" and t: "t < W"
    and n: "es_thread s t \<notin> {Blocked, Finished}"
  shows "\<exists>s'. execframe_step ops (proc t) (total_tasks ftl) t s s' \<or> sync_step (total_tasks ftl) t s s' \<or> stealer_step ops (proc t) t s s'"
proof -
  note E = execD [OF I]
  note T = threadsD [OF E(2)]
  let ?P = "es_pools s" and ?k = "proc t"
  let ?X = "execframe_step ops ?k (total_tasks ftl) t s" and ?Y = "stealer_step ops ?k t s"
  have pop: "\<exists>res p'. op_pop ops ?k q ?P = Some (res, p')" if "live (es_ntl s) q" for q using pop_law [OF E(1) that] by blast
  have case_sum: "\<exists>e. r = Inl e \<or> (\<exists>x. r = Inr x)" for r :: "errno + nat" by (cases r) auto
  have hold_ok: "ok x" "\<forall>q. x \<notin> queued ph q" if "t_holds (es_thread s t) = Some x" for x
    using T(1) [of x t] that fr graphD(3) [OF E(3), of x] by (auto simp: frame_ready_def queued_def)
  have "(\<exists>s'. ?X s') \<or> (\<exists>s'. ?Y s') \<or> (\<exists>s'. sync_step (total_tasks ftl) t s s')"
  proof (cases "es_thread s t")
    case Idle
    obtain res p' where "op_pop ops ?k (QRemote ?k) ?P = Some (res, p')" using pop [of "QRemote ?k"] by auto
    then show ?thesis using Idle idle_step.intros(1,2) [where s = s and t = t and kid = ?k] unfolding stealer_step_def by (cases res) blast+
  next
    case IdleRtl
    obtain res p' where "op_pop ops ?k (QRtl ?k) ?P = Some (res, p')" using pop [of "QRtl ?k"] by auto
    then show ?thesis using IdleRtl idle_step.intros(3,4) [where s = s and t = t and kid = ?k] unfolding stealer_step_def by (cases res) blast+
  next
    case Requesting
    then show ?thesis using steal_step.steal_fails unfolding stealer_step_def by blast
  next
    case (Stolen td)
    have h: "holds (Suc (es_ntl s)) (op_init ops (QTasklist (es_ntl s)) ?P) (queued ph)" by (rule init_law [OF E(1)])
    have "ok td" "\<forall>q. td \<notin> queued ph q" using hold_ok [of td] Stolen by auto
    then obtain prio p' where "op_pushready ops ?k (QTasklist (es_ntl s)) td (op_init ops (QTasklist (es_ntl s)) ?P) = Some (prio, p')"
      using push_law [OF h, of "QTasklist (es_ntl s)" td ?k] by auto
    then show ?thesis using stealready_step.stolen_init [OF Stolen] unfolding stealer_step_def by blast
  next
    case (Loop tk m)
    show ?thesis
    proof (cases "op_isempty ops (QTasklist tk) ?P")
      case True
      then show ?thesis using execframe_step.loop_exit [OF Loop] by blast
    next
      case False
      obtain res p' where "op_pop ops ?k (QTasklist tk) ?P = Some (res, p')" using pop [OF live_list [OF I, of t tk]] Loop by auto
      then show ?thesis using execframe_step.intros(1,2) [OF Loop False] by (cases res) blast+
    qed
  next
    case (AfterLoop tk m)
    show ?thesis
    proof (cases "op_isempty ops (QRtl ?k) ?P")
      case True
      then show ?thesis using execframe_step.rtl_empty [OF AfterLoop] by blast
    next
      case False
      obtain res p' where "op_pop ops ?k (QRtl ?k) ?P = Some (res, p')" using pop [of "QRtl ?k"] by auto
      then show ?thesis using execframe_step.rtl_pop [OF AfterLoop False] execframe_step.rtl_busy [OF AfterLoop False]
        by (cases res) blast+
    qed
  next
    case (AfterRtl tk m)
    show ?thesis
    proof (cases "op_isempty ops (QRemote ?k) ?P")
      case True
      then show ?thesis using execframe_step.remote_empty [OF AfterRtl] by blast
    next
      case False
      obtain res p' where "op_pop ops ?k (QRemote ?k) ?P = Some (res, p')" using pop [of "QRemote ?k"] by auto
      then show ?thesis using execframe_step.remote_pop [OF AfterRtl False] execframe_step.remote_busy [OF AfterRtl False]
        by (cases res) blast+
    qed
  next
    case (Exec tk m td)
    then show ?thesis using execframe_step.body_start by blast
  next
    case (Body tk m td)
    then show ?thesis using execframe_step.body_end by blast
  next
    case (Activating tk m td ys)
    show ?thesis
    proof (cases ys)
      case Nil
      then show ?thesis using execframe_step.activated Activating by blast
    next
      case (Cons x xs)
      have a: "es_thread s t = Activating tk m td (x # xs)" using Activating Cons by simp
      then have "ph td = Act t (x # xs)" using T(3) by simp
      note A = activate_counter(5) [OF fr E(3) this]
      then show ?thesis
        using execframe_step.activate_ready [OF a] execframe_step.activate_waits [OF a]
        by (cases "td_counter (es_tds s x) + 1 = td_wc (tds ftl x)") (simp_all, blast+)
    qed
  next
    case (Pushing tk m td x xs)
    have "live (es_ntl s) (QTasklist tk)" using live_list [OF I, of t tk] Pushing by simp
    then obtain prio p' where "op_pushready ops ?k (QTasklist tk) x ?P = Some (prio, p')"
      using push_law [OF E(1) T(9), of "QTasklist tk" x ?k] hold_ok [of x] Pushing by auto
    then show ?thesis using execframe_step.push_activated [OF Pushing] by blast
  next
    case (Finish tk m)
    then show ?thesis using execframe_step.add_cnt by blast
  next
    case (Check tk)
    have "op_isempty ops (QTasklist tk) ?P"
    proof (rule ccontr)
      assume "\<not> op_isempty ops (QTasklist tk) ?P"
      moreover have "tk < es_ntl s" using T(4) [of t tk] Check by simp
      ultimately obtain t' where t': "working (es_thread s t') = Some tk" using o by (auto simp: owned_def)
      then have "t_list (es_thread s t') = Some tk" by (cases "es_thread s t'") auto
      then have "t' = t" using T(5) [of t' tk t] Check by simp
      then show False using t' Check by simp
    qed
    then show ?thesis using execframe_step.would_block [OF Check] execframe_step.returns [OF Check] by blast
  next
    case (Returned tk)
    then show ?thesis using stealready_step.stolen_report [of s t tk] sync_step.sync_returns [of s t]
      unfolding stealer_step_def by (cases "tk = 0") auto
  qed (use n in auto)
  then show ?thesis by blast
qed

lemma reachable_owned:
  assumes "(exec_step ops proc W (total_tasks ftl))\<^sup>*\<^sup>* s s'" and "exec_inv holds W ftl s ph" and "frame_ready ok ftl" and "owned ops s"
  shows "owned ops s'"
  using assms
proof (induction rule: rtranclp_induct)
  case (step y z)
  obtain ph' where "exec_inv holds W ftl y ph'" using reachable_inv [OF step.hyps(1) step.prems(1,2)] by blast
  then show ?case using owned_step [OF _ step.prems(2) step.IH [OF step.prems]] step.hyps(2) by blast
qed

end


section \<open>A schedule that completes\<close>

text \<open>The frame's thread alone executes the whole frame.\<close>

definition solo :: "'p ready_ops \<Rightarrow> 'p exec_state \<Rightarrow> bool" where
  "solo ops s \<longleftrightarrow> (\<forall>t. t \<noteq> 0 \<longrightarrow> es_thread s t = Idle)
     \<and> (\<forall>q. live (es_ntl s) q \<and> q \<noteq> QTasklist 0 \<longrightarrow> op_isempty ops q (es_pools s))"

lemma solo_goto [simp]: "solo ops (goto 0 st s) \<longleftrightarrow> solo ops s"
  by (auto simp: solo_def)

lemma goto_more [simp]: "es_trace (goto t st s) = es_trace s" "es_cnt (goto t st s) = es_cnt s" "es_tds (goto t st s) = es_tds s"
  by (simp_all add: goto_def)

lemma solo_reach:
  assumes "execframe_step ops (proc 0) total_tasks' 0 s s1" and "0 < (W :: nat)" and "(exec_step ops proc W total_tasks')\<^sup>*\<^sup>* s1 s2"
  shows "(exec_step ops proc W total_tasks')\<^sup>*\<^sup>* s s2"
proof -
  have "exec_step ops proc W total_tasks' s s1" using assms(1,2) unfolding exec_step_def by blast
  then show ?thesis using assms(3) by simp
qed

context local_ready_pool
begin

lemma solo_push:
  assumes I: "exec_inv holds W ftl s ph" and S: "solo ops s" and x: "ok x" "\<forall>q. x \<notin> queued ph q"
    and p: "op_pushready ops kid (QTasklist 0) x (es_pools s) = Some (prio, p')"
  shows "solo ops (s\<lparr>es_pools := p'\<rparr>)"
proof -
  note E = execD [OF I]
  note T = threadsD [OF E(2)]
  let ?C = "(queued ph)(QTasklist 0 := insert x (queued ph (QTasklist 0)))"
  have h: "holds (es_ntl s) p' ?C" using push_here [OF E(1) T(9) _ x, of "QTasklist 0" kid] p T(9) by auto
  have "op_isempty ops q p'" if "live (es_ntl s) q" "q \<noteq> QTasklist 0" for q
    using isempty_law [OF E(1) that(1)] isempty_law [OF h that(1)] S that by (auto simp: solo_def)
  then show ?thesis using S by (simp add: solo_def)
qed

text \<open>The links of one descriptor, followed to the end.\<close>

lemma solo_links:
  assumes "exec_inv holds W ftl s ph" and "solo ops s" and "es_thread s 0 = Activating 0 n x r" and "frame_ready ok ftl"
  shows "\<exists>s'. (exec_step ops proc W (total_tasks ftl))\<^sup>*\<^sup>* s s' \<and> solo ops s' \<and> es_thread s' 0 = Loop 0 n \<and> es_trace s' = es_trace s"
  using assms
proof (induction r arbitrary: s ph)
  case Nil
  have W: "0 < W" using threadsD(8) [OF execD(2) [OF Nil.prems(1)]] .
  have "execframe_step ops (proc 0) (total_tasks ftl) 0 s (goto 0 (Loop 0 n) s)" by (rule execframe_step.activated [OF Nil.prems(3)])
  then have "(exec_step ops proc W (total_tasks ftl))\<^sup>*\<^sup>* s (goto 0 (Loop 0 n) s)" using solo_reach [where proc = proc, OF _ W] by blast
  then show ?case using Nil.prems(2) by (intro exI [of _ "goto 0 (Loop 0 n) s"]) simp
next
  case (Cons y r)
  note I = Cons.prems(1) and S = Cons.prems(2) and th = Cons.prems(3) and fr = Cons.prems(4)
  note E = execD [OF I]
  note T = threadsD [OF E(2)]
  let ?N = "total_tasks ftl"
  have "ph x = Act 0 (y # r)" using T(3) th by simp
  note A = activate_counter [OF fr E(3) this]
  obtain ready d where d: "kaapi_taskdescr_activated (es_tds s y) = Some (ready, d)" using A(5) by blast
  let ?s1 = "goto 0 (if ready then Pushing 0 n x y r else Activating 0 n x r) (s\<lparr>es_tds := (es_tds s)(y := d)\<rparr>)"
  have st1: "execframe_step ops (proc 0) ?N 0 s ?s1"
    using execframe_step.activate_ready [OF th] execframe_step.activate_waits [OF th] d by (cases ready) simp_all
  obtain ph1 where I1: "exec_inv holds W ftl ?s1 ph1" using activate_inv [OF I T(8) fr th d refl refl] by blast
  have S1: "solo ops ?s1" using S by (simp add: solo_def)
  show ?case
  proof (cases ready)
    case False
    then have th1: "es_thread ?s1 0 = Activating 0 n x r" by simp
    obtain s' where "(exec_step ops proc W ?N)\<^sup>*\<^sup>* ?s1 s'" "solo ops s'" "es_thread s' 0 = Loop 0 n" "es_trace s' = es_trace ?s1"
      using Cons.IH [OF I1 S1 th1 fr] by blast
    then show ?thesis using solo_reach [where proc = proc, OF st1 T(8)] by (intro exI [of _ s']) simp
  next
    case True
    note E1 = execD [OF I1]
    note T1 = threadsD [OF E1(2)]
    have th1: "es_thread ?s1 0 = Pushing 0 n x y r" using True by simp
    then have y: "ph1 y = Held 0" using T1(1) [of y 0] by simp
    then have ok: "ok y" "\<forall>q. y \<notin> queued ph1 q" using fr graphD(3) [OF E1(3), of y] by (simp_all add: frame_ready_def queued_def)
    obtain prio p' where p: "op_pushready ops (proc 0) (QTasklist 0) y (es_pools ?s1) = Some (prio, p')"
      using push_here [OF E1(1) T1(9) _ ok, of "QTasklist 0" "proc 0"] T1(9) by auto
    let ?s2 = "goto 0 (Activating 0 n x r) (?s1\<lparr>es_pools := p'\<rparr>)"
    have st2: "execframe_step ops (proc 0) ?N 0 ?s1 ?s2" by (rule execframe_step.push_activated [OF th1 p])
    obtain ph2 where I2: "exec_inv holds W ftl ?s2 ph2" using execframe_inv [OF I1 T(8) fr st2] by blast
    have S2: "solo ops ?s2" using solo_push [OF I1 S1 ok p] by simp
    obtain s' where "(exec_step ops proc W ?N)\<^sup>*\<^sup>* ?s2 s'" "solo ops s'" "es_thread s' 0 = Loop 0 n" "es_trace s' = es_trace ?s2"
      using Cons.IH [OF I2 S2 _ fr] by auto
    then show ?thesis using solo_reach [where proc = proc, OF st1 T(8) solo_reach [where proc = proc, OF st2 T(8)]] by (intro exI [of _ s']) simp
  qed
qed

text \<open>One descriptor of the queue, from the pop to the end of its activations.\<close>

lemma solo_task:
  assumes I: "exec_inv holds W ftl s ph" and S: "solo ops s" and th: "es_thread s 0 = Loop 0 n" and fr: "frame_ready ok ftl"
    and ne: "\<not> op_isempty ops (QTasklist 0) (es_pools s)"
  shows "\<exists>s' x m. (exec_step ops proc W (total_tasks ftl))\<^sup>*\<^sup>* s s' \<and> solo ops s' \<and> es_thread s' 0 = Loop 0 m
    \<and> es_trace s' = es_trace s @ [Start x, End x]"
proof -
  note E = execD [OF I]
  note T = threadsD [OF E(2)]
  let ?N = "total_tasks ftl" and ?k = "proc 0"
  have l: "live (es_ntl s) (QTasklist 0)" using T(9) by simp
  have "queued ph (QTasklist 0) \<noteq> {}" using isempty_law [OF E(1) l] ne by simp
  then obtain x p' where p: "op_pop ops ?k (QTasklist 0) (es_pools s) = Some (Inr x, p')" using pop_succeeds [OF E(1) l] by blast
  let ?s1 = "goto 0 (Exec 0 n x) (s\<lparr>es_pools := p'\<rparr>)"
  have st1: "execframe_step ops ?k ?N 0 s ?s1" by (rule execframe_step.loop_pop [OF th ne p])
  have "op_isempty ops q p'" if "live (es_ntl s) q" "q \<noteq> QTasklist 0" for q
    using taken_isempty [OF E(1) pop_taken [OF I l p] that(1)] S that by (simp add: solo_def)
  then have S1: "solo ops ?s1" using S by (simp add: solo_def)
  obtain ph1 where I1: "exec_inv holds W ftl ?s1 ph1" using execframe_inv [OF I T(8) fr st1] by blast
  let ?s2 = "goto 0 (Body 0 n x) (?s1\<lparr>es_trace := es_trace ?s1 @ [Start x]\<rparr>)"
  have th1: "es_thread ?s1 0 = Exec 0 n x" by simp
  have st2: "execframe_step ops ?k ?N 0 ?s1 ?s2" by (rule execframe_step.body_start [OF th1])
  obtain ph2 where I2: "exec_inv holds W ftl ?s2 ph2" using execframe_inv [OF I1 T(8) fr st2] by blast
  let ?s3 = "goto 0 (Activating 0 (n + 1) x (succs (es_tds ?s2 x))) (?s2\<lparr>es_trace := es_trace ?s2 @ [End x]\<rparr>)"
  have th2: "es_thread ?s2 0 = Body 0 n x" by simp
  have st3: "execframe_step ops ?k ?N 0 ?s2 ?s3" by (rule execframe_step.body_end [OF th2])
  obtain ph3 where I3: "exec_inv holds W ftl ?s3 ph3" using execframe_inv [OF I2 T(8) fr st3] by blast
  have S3: "solo ops ?s3" using S1 by (simp add: solo_def)
  obtain s' where "(exec_step ops proc W ?N)\<^sup>*\<^sup>* ?s3 s'" "solo ops s'" "es_thread s' 0 = Loop 0 (n + 1)" "es_trace s' = es_trace ?s3"
    using solo_links [OF I3 S3 _ fr, of "n + 1" x "succs (es_tds ?s2 x)" proc] by auto
  then show ?thesis
    using solo_reach [where proc = proc, OF st1 T(8) solo_reach [where proc = proc, OF st2 T(8) solo_reach [where proc = proc, OF st3 T(8)]]]
    by (intro exI [of _ s'] exI [of _ x] exI [of _ "n + 1"]) simp
qed

text \<open>The way out of the loop.\<close>

lemma solo_exit:
  assumes I: "exec_inv holds W ftl s ph" and S: "solo ops s" and th: "es_thread s 0 = Loop 0 n" and fr: "frame_ready ok ftl"
    and e: "op_isempty ops (QTasklist 0) (es_pools s)"
    and all: "\<forall>x < ntds ftl. td_wc (tds ftl x) = 0 \<longrightarrow> x \<in> set (readylist ftl)"
  shows "\<exists>s'. (exec_step ops proc W (total_tasks ftl))\<^sup>*\<^sup>* s s' \<and> es_thread s' 0 = Finished
    \<and> (\<forall>t. t \<noteq> 0 \<longrightarrow> es_thread s' t = Idle) \<and> (\<forall>q. live (es_ntl s') q \<longrightarrow> op_isempty ops q (es_pools s'))"
proof -
  note T = threadsD [OF execD(2) [OF I]]
  let ?N = "total_tasks ftl" and ?k = "proc 0"
  have emp: "op_isempty ops q (es_pools s)" if "live (es_ntl s) q" for q using S e that by (cases "q = QTasklist 0") (auto simp: solo_def)
  let ?s1 = "goto 0 (AfterLoop 0 n) s"
  let ?s2 = "goto 0 (AfterRtl 0 n) ?s1"
  let ?s3 = "goto 0 (Finish 0 n) ?s2"
  let ?s4 = "goto 0 (Check 0) (?s3\<lparr>es_cnt := (es_cnt ?s3)(0 := es_cnt ?s3 0 + n)\<rparr>)"
  let ?s5 = "goto 0 (Returned 0) ?s4"
  have st1: "execframe_step ops ?k ?N 0 s ?s1" by (rule execframe_step.loop_exit [OF th e])
  have st2: "execframe_step ops ?k ?N 0 ?s1 ?s2" by (rule execframe_step.rtl_empty [where tk = 0]) (simp_all add: emp)
  have st3: "execframe_step ops ?k ?N 0 ?s2 ?s3" by (rule execframe_step.remote_empty [where tk = 0]) (simp_all add: emp)
  have st4: "execframe_step ops ?k ?N 0 ?s3 ?s4" by (rule execframe_step.add_cnt) simp
  obtain ph1 where I1: "exec_inv holds W ftl ?s1 ph1" using execframe_inv [OF I T(8) fr st1] by blast
  obtain ph2 where I2: "exec_inv holds W ftl ?s2 ph2" using execframe_inv [OF I1 T(8) fr st2] by blast
  obtain ph3 where I3: "exec_inv holds W ftl ?s3 ph3" using execframe_inv [OF I2 T(8) fr st3] by blast
  obtain ph4 where I4: "exec_inv holds W ftl ?s4 ph4" using execframe_inv [OF I3 T(8) fr st4] by blast
  have idle: "es_thread s t = Idle" if "t \<noteq> 0" for t using S that by (simp add: solo_def)
  have "es_cnt ?s4 0 = ntds ftl"
    by (rule idle_all_done(1) [OF I4 fr])
      (use emp all idle in \<open>auto simp: unreported_def\<close>)
  then have c: "es_cnt ?s4 0 = ?N" using fr by (simp add: frame_ready_def)
  have st5: "execframe_step ops ?k ?N 0 ?s4 ?s5"
    by (rule execframe_step.returns [where tk = 0]) (use c e in simp_all)
  have "sync_step ?N 0 ?s5 (goto 0 Finished ?s5)" by (rule sync_step.sync_returns) simp
  then have "exec_step ops proc W ?N ?s5 (goto 0 Finished ?s5)" using T(8) unfolding exec_step_def by blast
  then have "(exec_step ops proc W ?N)\<^sup>*\<^sup>* ?s5 (goto 0 Finished ?s5)" by blast
  from solo_reach [where proc = proc, OF st1 T(8) solo_reach [where proc = proc, OF st2 T(8) solo_reach [where proc = proc, OF st3 T(8) solo_reach [where proc = proc, OF st4 T(8) solo_reach [where proc = proc, OF st5 T(8) this]]]]]
  show ?thesis by (intro exI conjI) (assumption, simp_all add: idle emp)
qed

lemma solo_completes:
  assumes "exec_inv holds W ftl s ph" and "solo ops s" and "es_thread s 0 = Loop 0 n" and "frame_ready ok ftl"
    and "\<forall>x < ntds ftl. td_wc (tds ftl x) = 0 \<longrightarrow> x \<in> set (readylist ftl)"
  shows "\<exists>s'. (exec_step ops proc W (total_tasks ftl))\<^sup>*\<^sup>* s s' \<and> es_thread s' 0 = Finished
    \<and> (\<forall>t. t \<noteq> 0 \<longrightarrow> es_thread s' t = Idle) \<and> (\<forall>q. live (es_ntl s') q \<longrightarrow> op_isempty ops q (es_pools s'))"
  using assms
proof (induction "ntds ftl - card {x. x < ntds ftl \<and> End x \<in> set (es_trace s)}" arbitrary: s ph n rule: less_induct)
  case less
  note I = less.prems(1) and S = less.prems(2) and th = less.prems(3) and fr = less.prems(4) and all = less.prems(5)
  show ?case
  proof (cases "op_isempty ops (QTasklist 0) (es_pools s)")
    case True
    then show ?thesis by (rule solo_exit [OF I S th fr _ all])
  next
    case False
    obtain s1 x m where s1: "(exec_step ops proc W (total_tasks ftl))\<^sup>*\<^sup>* s s1" "solo ops s1" "es_thread s1 0 = Loop 0 m"
      "es_trace s1 = es_trace s @ [Start x, End x]"
      using solo_task [OF I S th fr False, of proc] by blast
    obtain ph1 where I1: "exec_inv holds W ftl s1 ph1" using reachable_inv [OF s1(1) I fr] by blast
    have t1: "trace_inv ftl s1 ph1" using execD(4) [OF I1] .
    let ?E = "\<lambda>s. {y. y < ntds ftl \<and> End y \<in> set (es_trace s)}"
    have "End x \<in> set (es_trace s1)" using s1(4) by simp
    then have "ended (ph1 x)" using t1 by (simp add: trace_inv_def)
    then have xN: "x < ntds ftl" using graphD(3) [OF execD(3) [OF I1], of x] by (cases "ph1 x") auto
    have "distinct (es_trace s1)" using t1 by (simp add: trace_inv_def trace_ok_def)
    then have "x \<notin> ?E s" "?E s1 = insert x (?E s)" using s1(4) xN by auto
    then have "card (?E s1) = Suc (card (?E s))" by simp
    moreover have "card (?E s1) \<le> card {..<ntds ftl}" by (rule card_mono) auto
    ultimately have "ntds ftl - card (?E s1) < ntds ftl - card (?E s)" by simp
    then obtain s' where "(exec_step ops proc W (total_tasks ftl))\<^sup>*\<^sup>* s1 s'" "es_thread s' 0 = Finished"
      "\<forall>t. t \<noteq> 0 \<longrightarrow> es_thread s' t = Idle" "\<forall>q. live (es_ntl s') q \<longrightarrow> op_isempty ops q (es_pools s')"
      using less.hyps [OF _ I1 s1(2,3) fr all] by blast
    then show ?thesis using s1(1) by (meson rtranclp_trans)
  qed
qed

lemma solo_push_init:
  assumes "holds 1 p C" "\<forall>q. q \<noteq> QTasklist 0 \<longrightarrow> C q = {}" "distinct xs" "\<forall>x \<in> set xs. ok x \<and> x \<notin> C (QTasklist 0)"
    and "kaapi_thread_tasklistready_push_init ops kid (QTasklist 0) xs p = Some p'"
  shows "\<exists>C'. holds 1 p' C' \<and> (\<forall>q. q \<noteq> QTasklist 0 \<longrightarrow> C' q = {})"
  using assms
proof (induction xs arbitrary: p C)
  case Nil
  then show ?case by auto
next
  case (Cons x xs)
  have "x \<notin> C q" for q using Cons.prems(2,4) by (cases "q = QTasklist 0") auto
  then obtain prio p1 where p1: "op_pushready ops kid (QTasklist 0) x p = Some (prio, p1)"
    "holds 1 p1 (C(QTasklist 0 := insert x (C (QTasklist 0))))"
    using push_here [OF Cons.prems(1), of "QTasklist 0" x kid] Cons.prems(4) by auto
  show ?case
    by (rule Cons.IH [OF p1(2)]) (use Cons.prems p1(1) in auto)
qed

lemma solo_exec_init:
  assumes fr: "frame_ready ok ftl" and h: "holds 1 (rtl ftl) (\<lambda>_. {})" and s: "exec_init ops kid ftl = Some s"
  shows "solo ops s" "es_thread s 0 = Loop 0 0"
proof -
  obtain p where p: "kaapi_thread_tasklistready_push_init ops kid (QTasklist 0) (readylist ftl) (rtl ftl) = Some p"
    "s = \<lparr>es_pools = p, es_tds = tds ftl, es_cnt = (\<lambda>_. 0), es_ntl = 1,
         es_thread = (\<lambda>_. Idle)(0 := Loop 0 0), es_trace = []\<rparr>"
    using s by (auto simp: exec_init_def)
  have "\<forall>x \<in> set (readylist ftl). ok x" "distinct (readylist ftl)" using fr by (simp_all add: frame_ready_def)
  then obtain C where C: "holds 1 p C" "\<forall>q. q \<noteq> QTasklist 0 \<longrightarrow> C q = {}"
    using solo_push_init [OF h _ _ _ p(1)] by auto
  show "solo ops s" "es_thread s 0 = Loop 0 0" using C isempty_law [OF C(1)] by (auto simp: solo_def p(2))
qed

end

end
