(* ===== verification/Static_Task.thy ===== *)
theory Static_Task
  imports Tasklist_Exec_Inv
begin

text \<open>
  The task of static scheduling, \<^verbatim>\<open>kaapi_staticschedtask_body_gen\<close> of \<^verbatim>\<open>static/kaapi_stsched_tasksetstatic.c\<close>: it computes
  the graph of the tasks its body spawned, puts the initially ready descriptors into the queue of the task list and
  synchronises.  The properties join the computation of the graph, the queues of ready descriptors and the
  execution by any number of threads: what the program's data flow promises.
\<close>

section \<open>The task\<close>

text \<open>The part of the body after the call of the user's body, which spawned \<open>tasks\<close>: the result is the frame and the state in
  which \<^verbatim>\<open>kaapi_sched_sync_\<close> is called, or no state when the task returns at once.  \<open>pools\<close> are the queues of the
  processors, \<open>mem\<close> the fresh memory of the frame's structure.\<close>

definition kaapi_staticschedtask_body_gen ::
  "ready_pools ready_ops \<Rightarrow> nat \<Rightarrow> bool \<Rightarrow> formats \<Rightarrow> (nat \<Rightarrow> ready_pools \<Rightarrow> ready_pools) \<Rightarrow> kaapi_task list \<Rightarrow> ready_pools \<Rightarrow>
    ready_pools frame_tl \<Rightarrow> (ready_pools frame_tl \<times> ready_pools exec_state option) option" where
  "kaapi_staticschedtask_body_gen ops kid ctpriority resolve pushready tasks pools mem =
     (if tasks = [] then Some (mem, None)
      else do {
        let frame_tasklist = kaapi_frame_tasklist_init (op_init ops (QTasklist 0) pools) mem;
        (err, freed, frame_tasklist) \<leftarrow> kaapi_thread_computereadylist ctpriority resolve pushready tasks frame_tasklist;
        s \<leftarrow> exec_init ops kid frame_tasklist;
        Some (frame_tasklist, Some s) })"

text \<open>A run on the runtime's queues up to some moment: tasks that the computation handles, empty queues at the start,
  priorities in range, and any interleaving of the steps of \<open>W\<close> threads.\<close>

definition static_run ::
  "ready_pools ready_ops \<Rightarrow> (nat \<Rightarrow> ready_attr) \<Rightarrow> nat \<Rightarrow> (nat \<Rightarrow> nat) \<Rightarrow> bool \<Rightarrow> formats \<Rightarrow> kaapi_task list \<Rightarrow> ready_pools \<Rightarrow>
    ready_pools frame_tl \<Rightarrow> ready_pools frame_tl \<Rightarrow> ready_pools exec_state \<Rightarrow> bool" where
  "static_run ops attr W proc ctpriority resolve tasks pools mem ftl s' \<longleftrightarrow>
     supported resolve tasks \<and> pools_hold 0 pools (\<lambda>_. {}) \<and> 0 < W \<and> (\<forall>x < ntds ftl. prio_ok attr x)
   \<and> (\<exists>s pushready. kaapi_staticschedtask_body_gen ops (proc 0) ctpriority resolve pushready tasks pools mem = Some (ftl, Some s)
        \<and> (exec_step ops proc W (total_tasks ftl))\<^sup>*\<^sup>* s s')"

section \<open>What the graph gives to the execution\<close>

lemma computed_frame_ready:
  assumes c: "computed ctpriority ps rtl_init n freed ids s" and ok: "\<forall>x < ntds s. ok x"
  shows "frame_ready ok s"
proof -
  note c = computedD [OF c]
  have succ: "succs (tds s x) = td_list (tds s x)" if "x < ntds s" for x using c(8) that by (simp add: succs_def)
  have 1: "\<forall>y < ntds s. td_wc (tds s y) = (\<Sum>x<ntds s. count_list (succs (tds s x)) y)"
    using c(3) succ by (simp add: indegree_def)
  have 2: "\<forall>x \<in> set (readylist s). x < ntds s \<and> td_wc (tds s x) = 0"
    using c(4) initial_waits_for_none [OF c(2,3)] by (auto simp: initials_def)
  have 3: "\<forall>x < ntds s. ok x \<and> td_counter (tds s x) = 0 \<and> (\<forall>y \<in> set (succs (tds s x)). y < ntds s \<and> rank s x < rank s y)"
    using c(2,8) ok succ by (simp add: edges_ok_def)
  show ?thesis unfolding frame_ready_def using 1 2 3 c(5,9) by blast
qed

lemma started_frame:
  assumes "kaapi_staticschedtask_body_gen ops kid ctpriority resolve pushready tasks pools mem = Some (ftl, Some s)"
    and "kaapi_thread_computereadylist ctpriority resolve pushready tasks
      (kaapi_frame_tasklist_init (op_init ops (QTasklist 0) pools) mem) = Some (err, freed, ftl')"
  shows "ftl' = ftl \<and> exec_init ops kid ftl = Some s"
proof (cases "tasks = []")
  case True
  then show ?thesis using assms(1) by (simp add: kaapi_staticschedtask_body_gen_def)
next
  case False
  then show ?thesis
    using assms(1) unfolding kaapi_staticschedtask_body_gen_def Let_def assms(2) by (cases "exec_init ops kid ftl'") auto
qed

text \<open>Every state of a run has the invariant of the execution, over the graph of the frame.\<close>

lemma static_run_inv:
  assumes "static_run (pool_ops (steal_by_affinity policy (re_attr env)) (env\<lparr>re_tasklist := (\<lambda>_. 0)\<rparr>)) (re_attr env) W proc
      ctpriority resolve tasks pools mem ftl s'"
  shows "\<exists>n freed ids ph rtl_init. computed ctpriority (params_of resolve tasks) rtl_init n freed ids ftl
    \<and> exec_inv pools_hold W ftl s' ph \<and> frame_ready (prio_ok (re_attr env)) ftl"
proof -
  let ?ops = "pool_ops (steal_by_affinity policy (re_attr env)) (env\<lparr>re_tasklist := (\<lambda>_. 0)\<rparr>)"
  let ?q = "op_init ?ops (QTasklist 0) pools"
  obtain s pushready where A: "supported resolve tasks" "pools_hold 0 pools (\<lambda>_. {})" "0 < W" "\<forall>x < ntds ftl. prio_ok (re_attr env) x"
    and body: "kaapi_staticschedtask_body_gen ?ops (proc 0) ctpriority resolve pushready tasks pools mem = Some (ftl, Some s)"
    and reach: "(exec_step ?ops proc W (total_tasks ftl))\<^sup>*\<^sup>* s s'"
    using assms unfolding static_run_def by blast
  obtain freed ftl' ids where r: "kaapi_thread_computereadylist ctpriority resolve pushready tasks (kaapi_frame_tasklist_init ?q mem)
      = Some (OK, freed, ftl')"
    "computed ctpriority (params_of resolve tasks) ?q (fresh_bloc (fst (vtab mem))) freed ids ftl'"
    using computereadylist_result [OF A(1) refl, where pushready = pushready and rtl_init = ?q and mem = mem and ctpriority = ctpriority]
    by (elim exE conjE) (rule that; assumption)
  have e: "ftl' = ftl" "exec_init ?ops (proc 0) ftl = Some s"
    using started_frame [OF body r(1)] by simp_all
  note c = r(2) [unfolded e(1)]
  have fr: "frame_ready (prio_ok (re_attr env)) ftl" by (rule computed_frame_ready [OF c A(4)])
  have "pools_hold 1 (rtl ftl) (\<lambda>_. {})"
    using pools.init_law [OF A(2), of policy env] computedD(6) [OF c] by simp
  then obtain ph0 where "exec_inv pools_hold W ftl s ph0"
    using pools.exec_init_inv [OF fr _ A(3), where kid = "proc 0" and policy = policy] e(2) by auto
  from pools.reachable_inv [OF reach this fr] obtain ph where I: "exec_inv pools_hold W ftl s' ph" by blast
  show ?thesis by (intro exI conjI) (rule c, rule I, rule fr)
qed

text \<open>A run of the whole task, from the call of \<^verbatim>\<open>kaapi_sched_sync_\<close> to its return, exists for every frame whose tasks all have
  a shared parameter, on CPUs where every task has a body and no site: the frame's thread can execute all of it alone.\<close>

lemma static_run_start:
  assumes "supported resolve tasks" and "pools_hold 0 pools (\<lambda>_. {})" and "0 < W" and "tasks \<noteq> []"
    and ok: "\<forall>x. prio_ok (re_attr env) x"
  shows "\<exists>ftl s. static_run (pool_ops (steal_by_affinity policy (re_attr env)) (env\<lparr>re_tasklist := (\<lambda>_. 0)\<rparr>)) (re_attr env) W proc
      ctpriority resolve tasks pools mem ftl s
    \<and> exec_init (pool_ops (steal_by_affinity policy (re_attr env)) (env\<lparr>re_tasklist := (\<lambda>_. 0)\<rparr>)) (proc 0) ftl = Some s
    \<and> pools_hold 1 (rtl ftl) (\<lambda>_. {})"
proof -
  let ?ops = "pool_ops (steal_by_affinity policy (re_attr env)) (env\<lparr>re_tasklist := (\<lambda>_. 0)\<rparr>)" and ?pushready = "\<lambda>td p. p"
  let ?q = "op_init ?ops (QTasklist 0) pools"
  from computereadylist_result [OF assms(1) refl, where pushready = ?pushready and rtl_init = ?q and mem = mem and ctpriority = ctpriority]
  obtain freed ftl ids where r: "kaapi_thread_computereadylist ctpriority resolve ?pushready tasks (kaapi_frame_tasklist_init ?q mem)
      = Some (OK, freed, ftl)"
    and c: "computed ctpriority (params_of resolve tasks) ?q (fresh_bloc (fst (vtab mem))) freed ids ftl"
    by (elim exE conjE) (rule that; assumption)
  have fr: "frame_ready (prio_ok (re_attr env)) ftl" by (rule computed_frame_ready [OF c]) (use ok in blast)
  have h: "pools_hold 1 (rtl ftl) (\<lambda>_. {})" using pools.init_law [OF assms(2), of policy env] computedD(6) [OF c] by simp
  obtain s where s: "exec_init ?ops (proc 0) ftl = Some s"
    using pools.exec_init_inv [OF fr h assms(3), where kid = "proc 0" and policy = policy] by blast
  have "kaapi_staticschedtask_body_gen ?ops (proc 0) ctpriority resolve ?pushready tasks pools mem = Some (ftl, Some s)"
    using assms(4) unfolding kaapi_staticschedtask_body_gen_def Let_def r by (simp add: s)
  then have "static_run ?ops (re_attr env) W proc ctpriority resolve tasks pools mem ftl s"
    using assms(1-3) ok unfolding static_run_def by blast
  then show ?thesis using s h by blast
qed

lemma runnable_all:
  assumes c: "computed ctpriority ps rtl_init n freed ids ftl" and a: "\<forall>p \<in> set ps. \<exists>a. accesses p a"
  shows "\<forall>x < ntds ftl. td_wc (tds ftl x) = 0 \<longrightarrow> x \<in> set (readylist ftl)"
proof (intro allI impI, rule ccontr)
  note c = computedD [OF c]
  fix x assume x: "x < ntds ftl" "td_wc (tds ftl x) = 0" "x \<notin> set (readylist ftl)"
  then have "td_fmt (tds ftl x) \<noteq> None" using c(4) by (auto simp: initials_def)
  then have "x \<in> set ids" using x(1) c(1) by (auto simp: frame_graph_def)
  then obtain j where j: "j < length ps" "x = ids ! j" using c(1) by (auto simp: frame_graph_def in_set_conv_nth)
  then have "\<forall>a. \<not> accesses (ps ! j) a" using c(1) x(2) unfolding frame_graph_def by blast
  then show False using a nth_mem [OF j(1)] by blast
qed

lemma frame_completes:
  assumes "supported resolve tasks" and "tasks \<noteq> []" and "pools_hold 0 pools (\<lambda>_. {})" and "0 < W"
    and "\<forall>x. prio_ok (re_attr (local_env env)) x" and "\<forall>p \<in> set (params_of resolve tasks). \<exists>a. accesses p a"
  shows "\<exists>ftl s'. static_run (pool_ops (steal_by_affinity policy (re_attr (local_env env))) (local_env env)) (re_attr (local_env env))
      W proc ctpriority resolve tasks pools mem ftl s' \<and> es_thread s' 0 = Finished \<and> (\<forall>t. t \<noteq> 0 \<longrightarrow> es_thread s' t = Idle)
    \<and> (\<forall>q. live (es_ntl s') q \<longrightarrow> pool_isempty q (es_pools s'))"
proof -
  let ?env = "local_env env"
  let ?ops = "pool_ops (steal_by_affinity policy (re_attr ?env)) ?env"
  have le: "?env\<lparr>re_tasklist := (\<lambda>_. 0)\<rparr> = ?env" by (simp add: local_env_def cpu_env_def)
  obtain ftl s where run: "static_run ?ops (re_attr ?env) W proc ctpriority resolve tasks pools mem ftl s"
    and s: "exec_init ?ops (proc 0) ftl = Some s" and h: "pools_hold 1 (rtl ftl) (\<lambda>_. {})"
    using static_run_start [OF assms(1,3,4,2,5), of policy proc ctpriority mem] unfolding le by blast
  obtain n freed ids ph rtl_init where c: "computed ctpriority (params_of resolve tasks) rtl_init n freed ids ftl"
    and I: "exec_inv pools_hold W ftl s ph" and fr: "frame_ready (prio_ok (re_attr ?env)) ftl"
    using static_run_inv [where env = ?env, unfolded le, OF run] by blast
  note solo = local_pools.solo_exec_init [OF fr h s]
  obtain s' where s': "(exec_step ?ops proc W (total_tasks ftl))\<^sup>*\<^sup>* s s'" "es_thread s' 0 = Finished" "\<forall>t. t \<noteq> 0 \<longrightarrow> es_thread s' t = Idle"
    "\<forall>q. live (es_ntl s') q \<longrightarrow> pool_isempty q (es_pools s')"
    using local_pools.solo_completes [OF I solo fr runnable_all [OF c assms(6)], of proc]
    unfolding pool_ops_def by auto
  have "static_run ?ops (re_attr ?env) W proc ctpriority resolve tasks pools mem ftl s'"
    using run s'(1) unfolding static_run_def by (meson rtranclp_trans)
  then show ?thesis using s'(2-4) by blast
qed

text \<open>The descriptors of the tasks of the program, those that have a format, in the order of their creation.\<close>

definition task_descrs :: "('t, 'p) kaapi_frame_tasklist \<Rightarrow> nat list" where
  "task_descrs ftl = filter (\<lambda>x. td_fmt (tds ftl x) \<noteq> None) [0..<ntds ftl]"

lemma frame_graph_ids: "frame_graph ps ids ftl \<Longrightarrow> task_descrs ftl = ids"
  by (rule strict_sorted_equal) (auto simp: frame_graph_def task_descrs_def sorted_wrt_filter)

section \<open>Properties\<close>

text \<open>C1: whatever the interleaving of the threads, their steals and the routing of ready tasks, the body of a task starts
  at most once and only after the end of the body of the last task before it, in program order, that writes an address
  it accesses.\<close>

theorem static_task_respects_dataflow:
  assumes "static_run (pool_ops (steal_by_affinity policy (re_attr env)) (env\<lparr>re_tasklist := (\<lambda>_. 0)\<rparr>)) (re_attr env) W proc
      ctpriority resolve tasks pools mem ftl s'"
    and "ps = params_of resolve tasks"
  shows "distinct (es_trace s') \<and> (\<exists>ids. length ids = length ps \<and> distinct ids
    \<and> (\<forall>i < length ps. ids ! i < ntds ftl \<and> t_params (td_task (tds ftl (ids ! i))) = ps ! i)
    \<and> (\<forall>i < length ps. \<forall>j < length ps. \<forall>a. accesses (ps ! j) a \<and> last_writer (take j ps) a = Some i \<longrightarrow>
         (\<forall>as bs. es_trace s' = as @ Start (ids ! j) # bs \<longrightarrow> End (ids ! i) \<in> set as)))"
proof -
  obtain n freed ids ph rtl_init where c: "computed ctpriority ps rtl_init n freed ids ftl"
    and I: "exec_inv pools_hold W ftl s' ph"
    using static_run_inv [OF assms(1)] assms(2) by blast
  note c = computedD [OF c]
  have tr: "trace_ok ftl (es_trace s')" using execD(4) [OF I] by (simp add: trace_inv_def)
  have d: "distinct ids" using c(1) by (auto simp: frame_graph_def strict_sorted_iff)
  have "End (ids ! i) \<in> set as"
    if "i < length ps" "j < length ps" "accesses (ps ! j) a" "last_writer (take j ps) a = Some i" "es_trace s' = as @ Start (ids ! j) # bs"
    for i j a as bs
  proof -
    have "ids ! j \<in> set (td_list (tds ftl (ids ! i)))" using c(1) that(1-4) unfolding frame_graph_def by blast
    then have "ids ! j \<in> set (succs (tds ftl (ids ! i)))" by (simp add: succs_def)
    then show ?thesis using tr that(5) user_descr(1) [OF c(1) that(1)] unfolding trace_ok_def by blast
  qed
  moreover have "length ids = length ps" "\<forall>i < length ps. t_params (td_task (tds ftl (ids ! i))) = ps ! i"
    using c(1) by (simp_all add: frame_graph_def)
  moreover have "\<forall>i < length ps. ids ! i < ntds ftl" using user_descr(1) [OF c(1)] by blast
  ultimately show ?thesis using tr d unfolding trace_ok_def by blast
qed

text \<open>C10: the call of \<^verbatim>\<open>kaapi_sched_sync_\<close> returns only after the bodies of all descriptors have ended.\<close>

theorem sync_returns_after_all_tasks:
  assumes "static_run (pool_ops (steal_by_affinity policy (re_attr env)) (env\<lparr>re_tasklist := (\<lambda>_. 0)\<rparr>)) (re_attr env) W proc
      ctpriority resolve tasks pools mem ftl s'"
    and "es_thread s' 0 = Finished"
  shows "\<forall>x < ntds ftl. End x \<in> set (es_trace s')"
proof -
  obtain ph where "exec_inv pools_hold W ftl s' ph" using static_run_inv [OF assms(1)] by blast
  then show ?thesis by (rule pools.returned_all_done [OF _ assms(2)])
qed

text \<open>C25: when every task has a shared parameter, a moment in which no thread has work and no queue has a descriptor is one
  where all bodies have ended and the counter is complete, so that the frame's thread, if it is suspended, is woken.\<close>

theorem quiet_frame_is_complete:
  assumes "static_run (pool_ops (steal_by_affinity policy (re_attr env)) (env\<lparr>re_tasklist := (\<lambda>_. 0)\<rparr>)) (re_attr env) W proc
      ctpriority resolve tasks pools mem ftl s'"
    and "\<forall>p \<in> set (params_of resolve tasks). \<exists>a. accesses p a"
    and "\<forall>t < W. es_thread s' t \<in> {Idle, IdleRtl, Requesting, Blocked, Finished}"
    and "\<forall>q. live (es_ntl s') q \<longrightarrow> pool_isempty q (es_pools s')"
  shows "es_cnt s' 0 = total_tasks ftl \<and> (\<forall>x < ntds ftl. End x \<in> set (es_trace s'))"
proof -
  let ?ps = "params_of resolve tasks"
  obtain n freed ids ph rtl_init where c': "computed ctpriority ?ps rtl_init n freed ids ftl"
    and I: "exec_inv pools_hold W ftl s' ph" and fr: "frame_ready (prio_ok (re_attr env)) ftl"
    using static_run_inv [OF assms(1)] by blast
  note c = computedD [OF c']
  show ?thesis
    using pools.quiet_all_done [OF I fr assms(3) _ runnable_all [OF c' assms(2)], of policy] assms(4) c(9) by (simp add: pool_ops_def)
qed

text \<open>C36: of the tasks with a format the \<open>j\<close>-th is one without shared parameters: its descriptor, the \<open>j\<close>-th that was created
  with a format, never starts its body, in no state of any run, and the synchronisation of its frame never returns.\<close>

theorem independent_task_blocks_frame:
  assumes "static_run (pool_ops (steal_by_affinity policy (re_attr env)) (env\<lparr>re_tasklist := (\<lambda>_. 0)\<rparr>)) (re_attr env) W proc
      ctpriority resolve tasks pools mem ftl s'"
    and "j < length (params_of resolve tasks)" and "\<forall>a. \<not> accesses (params_of resolve tasks ! j) a"
  shows "length (task_descrs ftl) = length (params_of resolve tasks)
    \<and> t_params (td_task (tds ftl (task_descrs ftl ! j))) = params_of resolve tasks ! j
    \<and> Start (task_descrs ftl ! j) \<notin> set (es_trace s') \<and> es_thread s' 0 \<noteq> Finished"
proof -
  let ?ps = "params_of resolve tasks"
  obtain n freed ids ph rtl_init where c: "computed ctpriority ?ps rtl_init n freed ids ftl"
    and I: "exec_inv pools_hold W ftl s' ph"
    using static_run_inv [OF assms(1)] by blast
  note c = computedD [OF c]
  have ids: "task_descrs ftl = ids" by (rule frame_graph_ids [OF c(1)])
  have l: "length ids = length ?ps" using c(1) by (simp add: frame_graph_def)
  have x: "ids ! j < ntds ftl" "td_fmt (tds ftl (ids ! j)) \<noteq> None" using user_descr [OF c(1) assms(2)] by auto
  have "td_wc (tds ftl (ids ! j)) = 0" using c(1) assms(2) assms(3) unfolding frame_graph_def by blast
  moreover have "ids ! j \<notin> set (readylist ftl)" using c(4) x(2) by (simp add: initials_def)
  ultimately have "Start (ids ! j) \<notin> set (es_trace s')" "es_thread s' 0 \<noteq> Finished"
    using pools.never_ready [OF I x(1)] by blast+
  moreover have "t_params (td_task (tds ftl (ids ! j))) = ?ps ! j" using c(1) assms(2) unfolding frame_graph_def by blast
  ultimately show ?thesis using l unfolding ids by blast
qed

text \<open>C27: on processors that are no GPU every thread that is neither suspended nor finished has a next step of its own: no
  division by zero in an activation, no failing assertion, no operation on a queue that does not end.\<close>

theorem cpu_threads_never_stuck:
  assumes "static_run (pool_ops (steal_by_affinity policy (re_attr env)) (cpu_env env)) (re_attr env) W proc
      ctpriority resolve tasks pools mem ftl s'"
    and "t < W" and "es_thread s' t \<notin> {Blocked, Finished}"
  shows "\<exists>s''. execframe_step (pool_ops (steal_by_affinity policy (re_attr env)) (cpu_env env)) (proc t) (total_tasks ftl) t s' s''
    \<or> sync_step (total_tasks ftl) t s' s''
    \<or> stealer_step (pool_ops (steal_by_affinity policy (re_attr env)) (cpu_env env)) (proc t) t s' s''"
proof -
  let ?ops = "pool_ops (steal_by_affinity policy (re_attr env)) (cpu_env env)"
  have run: "static_run (pool_ops (steal_by_affinity policy (re_attr (env\<lparr>re_type := (\<lambda>_. 1)\<rparr>)))
      ((env\<lparr>re_type := (\<lambda>_. 1)\<rparr>)\<lparr>re_tasklist := (\<lambda>_. 0)\<rparr>)) (re_attr (env\<lparr>re_type := (\<lambda>_. 1)\<rparr>)) W proc
      ctpriority resolve tasks pools mem ftl s'"
    using assms(1) by (simp add: cpu_env_def)
  obtain ph where I: "exec_inv pools_hold W ftl s' ph" and fr: "frame_ready (prio_ok (re_attr env)) ftl"
    using static_run_inv [OF run] by auto
  obtain s pushready where body: "kaapi_staticschedtask_body_gen ?ops (proc 0) ctpriority resolve pushready tasks pools mem = Some (ftl, Some s)"
    and reach: "(exec_step ?ops proc W (total_tasks ftl))\<^sup>*\<^sup>* s s'"
    using assms(1) unfolding static_run_def by blast
  have run0: "static_run (pool_ops (steal_by_affinity policy (re_attr (env\<lparr>re_type := (\<lambda>_. 1)\<rparr>)))
      ((env\<lparr>re_type := (\<lambda>_. 1)\<rparr>)\<lparr>re_tasklist := (\<lambda>_. 0)\<rparr>)) (re_attr (env\<lparr>re_type := (\<lambda>_. 1)\<rparr>)) W proc
      ctpriority resolve tasks pools mem ftl s"
    using assms(1) body by (auto simp: cpu_env_def static_run_def)
  obtain ph0 where I0: "exec_inv pools_hold W ftl s ph0" using static_run_inv [OF run0] by auto
  have "supported resolve tasks" using assms(1) by (simp add: static_run_def)
  from computereadylist_result [OF this refl, where pushready = pushready and rtl_init = "op_init ?ops (QTasklist 0) pools"
      and mem = mem and ctpriority = ctpriority]
  obtain freed ftl' where "kaapi_thread_computereadylist ctpriority resolve pushready tasks
      (kaapi_frame_tasklist_init (op_init ?ops (QTasklist 0) pools) mem) = Some (OK, freed, ftl')"
    by (elim exE conjE) (rule that; assumption)
  from started_frame [OF body this] have "exec_init ?ops (proc 0) ftl = Some s" by simp
  then have "owned ?ops s" by (rule cpu_pools.owned_exec_init)
  then have "owned ?ops s'" by (rule cpu_pools.reachable_owned [OF reach I0 fr])
  then show ?thesis by (rule cpu_pools.can_step [OF I fr _ assms(2,3)])
qed



section \<open>Witnesses\<close>

definition sample_env :: route_env where
  "sample_env = \<lparr>re_attr = sample_attr, re_type = (\<lambda>_. 1), re_site = (\<lambda>_. 0), re_tasklist = (\<lambda>_. 0),
     re_bodywh = (\<lambda>_ _. 1), re_affinity = (\<lambda>k _. k)\<rparr>"

definition sample_pools :: ready_pools where
  "sample_pools = \<lparr>pl_next = (\<lambda>_. None), pl_prev = (\<lambda>_. None),
     pl_lists = (\<lambda>_ _. \<lparr>ortl_head = None, ortl_tail = None, ortl_size = 0\<rparr>), pl_cnt = (\<lambda>_. 0)\<rparr>"

definition sample_mem :: "ready_pools frame_tl" where
  "sample_mem = \<lparr>rtl = sample_pools, tds = (\<lambda>_. sample_td), ntds = 0, total_tasks = 0, readylist = [],
     vers = (\<lambda>_. \<lparr>v_last_mode = 0, v_handle = 0, v_writer = 0\<rparr>), nvers = 1, nhandles = 0,
     vtab = (sample_heap, sample_big_map), t_infinity = 0\<rparr>"

text \<open>The first three tasks of the sample frame share a datum.\<close>

definition shared_tasks :: "kaapi_task list" where
  "shared_tasks = take 3 sample_tasks"

lemma sample_pools_hold: "pools_hold 0 sample_pools (\<lambda>_. {})"
proof -
  let ?X = "\<lambda>q. if live 0 q then replicate KAAPI_TASKLIST_NUM_PRIORITY [] else ([] :: nat list list)"
  have "pools_lists 0 sample_pools ?X"
    by (auto simp: pools_lists_def rtl_holds_def queue_of_def sample_pools_def dll_def)
  then show ?thesis unfolding pools_hold_def by (intro exI [of _ ?X]) auto
qed

lemma sample_prio: "prio_ok (re_attr (local_env sample_env)) x" "prio_ok (re_attr sample_env) x"
  by (simp_all add: prio_ok_def local_env_def cpu_env_def sample_env_def sample_attr_def KAAPI_TASKLIST_NUM_PRIORITY_def)

lemma shared_supported: "supported sample_formats shared_tasks" "shared_tasks \<noteq> []"
  by (simp_all add: supported_def has_format_def sample_formats_def shared_tasks_def sample_tasks_def sample_task_def mode_defs)

lemma shared_params: "params_of sample_formats shared_tasks = [[(4, 4096)], [(2, 4096), (1, 7)], [(6, 4096)]]"
  by (simp add: has_format_def sample_formats_def shared_tasks_def sample_tasks_def sample_task_def)

lemma shared_access: "\<forall>p \<in> set (params_of sample_formats shared_tasks). \<exists>a. accesses p a"
  unfolding shared_params by (auto simp: accesses_def mode_defs)

abbreviation "sample_ops \<equiv> pool_ops (steal_by_affinity Steal_maxctpath (re_attr (local_env sample_env))) (local_env sample_env)"

lemma sample_run:
  "\<exists>ftl s'. static_run sample_ops (re_attr (local_env sample_env)) 3 id True sample_formats shared_tasks sample_pools sample_mem ftl s'
    \<and> es_thread s' 0 = Finished \<and> (\<forall>t. t \<noteq> 0 \<longrightarrow> es_thread s' t = Idle) \<and> (\<forall>q. live (es_ntl s') q \<longrightarrow> pool_isempty q (es_pools s'))"
  by (rule frame_completes [OF shared_supported sample_pools_hold _ _ shared_access]) (simp_all add: sample_prio)

lemma sample_local: "(local_env sample_env)\<lparr>re_tasklist := (\<lambda>_. 0)\<rparr> = local_env sample_env"
  by (simp add: local_env_def cpu_env_def)




theorem sync_returns_after_all_tasks_witness:
  "\<exists>ftl s'. static_run sample_ops (re_attr (local_env sample_env)) 3 id True sample_formats shared_tasks sample_pools sample_mem ftl s'
     \<and> (\<forall>x < ntds ftl. End x \<in> set (es_trace s'))"
proof -
  obtain ftl s' where r: "static_run sample_ops (re_attr (local_env sample_env)) 3 id True sample_formats shared_tasks sample_pools
      sample_mem ftl s'" "es_thread s' 0 = Finished" using sample_run by blast
  show ?thesis
    using r(1) sync_returns_after_all_tasks [where env = "local_env sample_env", unfolded sample_local, OF r] by blast
qed

theorem quiet_frame_is_complete_witness:
  "\<exists>ftl s'. static_run sample_ops (re_attr (local_env sample_env)) 3 id True sample_formats shared_tasks sample_pools sample_mem ftl s'
     \<and> es_cnt s' 0 = total_tasks ftl"
proof -
  obtain ftl s' where r: "static_run sample_ops (re_attr (local_env sample_env)) 3 id True sample_formats shared_tasks sample_pools
      sample_mem ftl s'" "es_thread s' 0 = Finished" "\<forall>t. t \<noteq> 0 \<longrightarrow> es_thread s' t = Idle"
      "\<forall>q. live (es_ntl s') q \<longrightarrow> pool_isempty q (es_pools s')" using sample_run by blast
  have "\<forall>t < 3. es_thread s' t \<in> {Idle, IdleRtl, Requesting, Blocked, Finished}" using r(2,3) by (metis insertCI)
  from quiet_frame_is_complete [where env = "local_env sample_env", unfolded sample_local, OF r(1) shared_access this r(4)]
  show ?thesis using r(1) by blast
qed

theorem static_task_respects_dataflow_witness:
  "\<exists>ftl s' i j. static_run sample_ops (re_attr (local_env sample_env)) 3 id True sample_formats shared_tasks sample_pools sample_mem ftl s'
     \<and> i < ntds ftl \<and> j < ntds ftl \<and> i \<noteq> j \<and> Start j \<in> set (es_trace s')
     \<and> (\<forall>as bs. es_trace s' = as @ Start j # bs \<longrightarrow> End i \<in> set as)"
proof -
  let ?ps = "params_of sample_formats shared_tasks"
  obtain ftl s' where r: "static_run sample_ops (re_attr (local_env sample_env)) 3 id True sample_formats shared_tasks sample_pools
      sample_mem ftl s'" "es_thread s' 0 = Finished" using sample_run by blast
  obtain ids where ids: "length ids = length ?ps" "distinct ids"
    "\<forall>i < length ?ps. ids ! i < ntds ftl \<and> t_params (td_task (tds ftl (ids ! i))) = ?ps ! i"
    "\<forall>i < length ?ps. \<forall>j < length ?ps. \<forall>a. accesses (?ps ! j) a \<and> last_writer (take j ?ps) a = Some i \<longrightarrow>
         (\<forall>as bs. es_trace s' = as @ Start (ids ! j) # bs \<longrightarrow> End (ids ! i) \<in> set as)"
    using static_task_respects_dataflow [where env = "local_env sample_env", unfolded sample_local, OF r(1) refl] by blast
  have l: "length ?ps = 3" and l': "0 < length ?ps" "1 < length ?ps" unfolding shared_params by simp_all
  have "accesses (?ps ! 1) 4096" "last_writer (take 1 ?ps) 4096 = Some 0"
    unfolding shared_params by (simp_all add: last_writer_def sample_accesses)
  then have "\<forall>as bs. es_trace s' = as @ Start (ids ! 1) # bs \<longrightarrow> End (ids ! 0) \<in> set as"
    using ids(4) l' by blast
  moreover have b: "ids ! 0 < ntds ftl" "ids ! 1 < ntds ftl" "ids ! 0 \<noteq> ids ! 1"
    using ids(1-3) l by (simp_all add: nth_eq_iff_index_eq)
  moreover have "Start (ids ! 1) \<in> set (es_trace s')"
  proof -
    obtain ph where I: "exec_inv pools_hold 3 ftl s' ph"
      using static_run_inv [where env = "local_env sample_env", unfolded sample_local, OF r(1)] by blast
    have "End (ids ! 1) \<in> set (es_trace s')" using pools.returned_all_done [OF I r(2)] b(2) by blast
    then show ?thesis using execD(4) [OF I] by (cases "ph (ids ! 1)") (auto simp: trace_inv_def)
  qed
  ultimately show ?thesis using r(1) by blast
qed

theorem independent_task_blocks_frame_witness:
  "\<exists>ftl s'. static_run (pool_ops (steal_by_affinity Steal_first (re_attr sample_env)) (sample_env\<lparr>re_tasklist := (\<lambda>_. 0)\<rparr>))
      (re_attr sample_env) 2 id False sample_formats sample_tasks sample_pools sample_mem ftl s' \<and> es_thread s' 0 \<noteq> Finished"
proof -
  have "sample_tasks \<noteq> []" by (simp add: sample_tasks_def)
  then obtain ftl s' where r: "static_run (pool_ops (steal_by_affinity Steal_first (re_attr sample_env)) (sample_env\<lparr>re_tasklist := (\<lambda>_. 0)\<rparr>))
      (re_attr sample_env) 2 id False sample_formats sample_tasks sample_pools sample_mem ftl s'"
    using static_run_start [OF sample_supported sample_pools_hold, of 2 sample_env Steal_first id False sample_mem] sample_prio by auto
  have p: "3 < length (params_of sample_formats sample_tasks)" "params_of sample_formats sample_tasks ! 3 = []"
    unfolding sample_params_of [symmetric] by (simp_all add: sample_params_def)
  then show ?thesis using r independent_task_blocks_frame [OF r p(1)] sample_accesses(3) by auto
qed

theorem cpu_threads_never_stuck_witness:
  "\<exists>ftl s s'. static_run (pool_ops (steal_by_affinity Steal_first (re_attr sample_env)) (cpu_env sample_env))
      (re_attr sample_env) 2 id False sample_formats sample_tasks sample_pools sample_mem ftl s
    \<and> es_thread s 0 = Loop 0 0
    \<and> execframe_step (pool_ops (steal_by_affinity Steal_first (re_attr sample_env)) (cpu_env sample_env)) 0 (total_tasks ftl) 0 s s'"
proof -
  let ?ops = "pool_ops (steal_by_affinity Steal_first (re_attr sample_env)) (cpu_env sample_env)"
  have e: "cpu_env sample_env = sample_env\<lparr>re_tasklist := (\<lambda>_. 0)\<rparr>" by (simp add: cpu_env_def sample_env_def)
  have "sample_tasks \<noteq> []" by (simp add: sample_tasks_def)
  then obtain ftl s where r: "static_run ?ops (re_attr sample_env) 2 id False sample_formats sample_tasks sample_pools sample_mem ftl s"
    "exec_init ?ops 0 ftl = Some s"
    using static_run_start [OF sample_supported sample_pools_hold, of 2 sample_env Steal_first id False sample_mem] sample_prio
    unfolding e by auto
  have l: "es_thread s 0 = Loop 0 0" using r(2) by (auto simp: exec_init_def)
  then have "\<not> sync_step (total_tasks ftl) 0 s s'" "\<not> stealer_step ?ops 0 0 s s'" for s'
    unfolding stealer_step_def by (auto elim: sync_step.cases idle_step.cases steal_step.cases stealready_step.cases)
  then have "\<exists>s'. execframe_step ?ops 0 (total_tasks ftl) 0 s s'" using cpu_threads_never_stuck [OF r(1), of 0] l by simp
  then show ?thesis using r(1) l by blast
qed

end
