(* ===== verification/Foreach.thy ===== *)
theory Foreach
  imports Cpuset Workqueue Request_Iterator
begin

text \<open>
  The parallel loop of \<^verbatim>\<open>src/api/kaapic/kaapic_work.c\<close>: its structures (\<^verbatim>\<open>kaapic_impl.h\<close>), the attributes
  (\<^verbatim>\<open>kaapic_foreach_attr.c\<close>), the initial distribution of the iterations over the threads and the
  functions of one thread.  The theory \<open>Foreach_Step\<close> interleaves them.  The build is the one for up
  to 256 processors, with the options that \<^verbatim>\<open>kaapic_impl.h\<close> sets (\<^verbatim>\<open>KAAPIC_USE_KPROC_LOCK\<close>,
  \<^verbatim>\<open>KAAPIC_ALLOWS_WORKER_STEAL_SLICE\<close>, no data distribution).  An array is a function from the
  index, so that an entry which the code does not write keeps what the memory held before.
\<close>

section \<open>Structures\<close>

record kaapic_work_distribution =
  wa_map :: kaapi_bitmap256
  tid2pos :: "nat \<Rightarrow> uint8"
  startindex :: "nat \<Rightarrow> uint64"

record kaapic_work_info =
  par_grain :: uint64
  seq_grain :: uint64
  wi_nthreads :: uint32
  wi_threadset :: kaapi_cpuset
  itercount :: uint64

record kaapic_local_work =
  lw_cr :: kaapi_workqueue
  lw_init :: bool
  lw_workdone :: uint64
  lw_tid :: nat

text \<open>\<open>gw_body\<close> says that a body is attached (\<^verbatim>\<open>gwork->body_f != 0\<close>).\<close>

record kaapic_global_work =
  gw_workremain :: uint64
  gw_workerdone :: int
  gw_wa :: kaapic_work_distribution
  gw_lwork :: "nat \<Rightarrow> kaapic_local_work"
  gw_body :: bool
  gw_wi :: kaapic_work_info

record kaapic_foreach_attr =
  p_grain :: uint64
  s_grain :: uint64
  attr_nthreads :: uint32
  attr_policy :: uint32
  attr_threadset :: kaapi_cpuset

subsection \<open>Attributes\<close>

definition kaapic_foreach_attr_init :: "kaapic_foreach_attr \<Rightarrow> kaapic_foreach_attr" where
  "kaapic_foreach_attr_init attr =
     attr\<lparr>s_grain := 1, p_grain := 1, attr_nthreads := - 1, attr_policy := 0,
          attr_threadset := kaapi_cpuset_full (attr_threadset attr)\<rparr>"

definition kaapic_foreach_attr_set_grains ::
  "kaapic_foreach_attr \<Rightarrow> uint64 \<Rightarrow> uint64 \<Rightarrow> kaapic_foreach_attr" where
  "kaapic_foreach_attr_set_grains attr s p = attr\<lparr>s_grain := s, p_grain := p\<rparr>"

definition kaapic_foreach_attr_set_threads ::
  "kaapic_foreach_attr \<Rightarrow> uint32 \<Rightarrow> kaapic_foreach_attr" where
  "kaapic_foreach_attr_set_threads attr n = attr\<lparr>attr_nthreads := n\<rparr>"

section \<open>The initial distribution\<close>

text \<open>The signed division of C, which truncates.\<close>

definition c_div :: "uint64 \<Rightarrow> uint64 \<Rightarrow> uint64" where
  "c_div a b = word_of_int (sgn (sint a) * sgn (sint b) * (\<bar>sint a\<bar> div \<bar>sint b\<bar>))"

definition c_mod :: "uint64 \<Rightarrow> uint64 \<Rightarrow> uint64" where
  "c_mod a b = a - c_div a b * b"

text \<open>The body of the loop that numbers the threads of the set, at thread \<open>i\<close>.\<close>

definition initwa_pos ::
  "nat \<Rightarrow> kaapi_bitmap_value256 \<Rightarrow> nat \<Rightarrow> nat \<Rightarrow> nat \<times> (nat \<Rightarrow> uint8) \<Rightarrow> nat \<times> (nat \<Rightarrow> uint8)" where
  "initwa_pos self_tid msk finalsize i lt =
     (case lt of (localcount, t2p) \<Rightarrow>
        if i = self_tid then (localcount, t2p)
        else if kaapi_bitmap_value_get_256 msk i \<and> localcount < finalsize
             then (localcount + 1, t2p(i := of_nat localcount))
        else (localcount, t2p(i := - 1)))"

text \<open>\<^verbatim>\<open>_kaapic_foreach_initwa\<close>.  \<open>wa\<close> is the structure before the call and \<open>mask0\<close> the uninitialised local
  \<^verbatim>\<open>mask\<close>.  \<open>None\<close>: a division by zero, when no thread is in the set.\<close>

definition kaapic_foreach_initwa ::
  "kaapi_bitmap_value256 \<Rightarrow> nat \<Rightarrow> kaapic_work_distribution \<Rightarrow> nat \<Rightarrow> kaapi_cpuset \<Rightarrow> nat \<Rightarrow> uint64 \<Rightarrow> uint64 \<Rightarrow>
   kaapic_work_distribution option" where
  "kaapic_foreach_initwa mask0 concurrency wa self_tid cpuset nthreads first lst =
     (let msk = kaapi_bitmap_value_clear_256 mask0;
          msk = kaapi_bitmap_value_set_low_bits_256 msk nthreads;
          msk = kaapi_bitmap_value_and_256 msk (cpuset_to_bitmap cpuset);
          wa = wa\<lparr>wa_map := snd (kaapi_bitmap_init_256 (wa_map wa) msk)\<rparr>;
          sizemap = kaapi_bitmap_value_count_256 msk;
          range_size = lst - first;
          few = range_size <s of_nat sizemap;
          finalsize = (if few then unat range_size else sizemap);
          msk = (if few then kaapi_bitmap_value_set_low_bits_256 msk finalsize else msk);
          wa = (if few then wa\<lparr>wa_map := snd (kaapi_bitmap_init_256 (wa_map wa) msk)\<rparr> else wa)
      in if finalsize = 0 then None
         else
           let off = c_mod range_size (of_nat finalsize);
               range_size = range_size - off;
               scale = c_div range_size (of_nat finalsize);
               lt = (if kaapi_bitmap_value_get_256 msk self_tid
                     then (1, (tid2pos wa)(self_tid := 0)) else (0, tid2pos wa));
               lt = fold (initwa_pos self_tid msk finalsize) [0..<concurrency] lt;
               si = (startindex wa)(0 := first, 1 := first + off + scale);
               si = fold (\<lambda>i si. si(i + 1 := si i + scale)) [1..<finalsize] si;
               si = fold (\<lambda>i si. si(i + 1 := si finalsize)) [finalsize..<concurrency] si
           in Some (wa\<lparr>tid2pos := snd lt, startindex := si\<rparr>))"

section \<open>Slices\<close>

text \<open>\<^verbatim>\<open>kaapic_global_getwork\<close>: \<open>Some\<close> is the return value 1 with the range stored through \<^verbatim>\<open>i\<close> and \<^verbatim>\<open>j\<close>.\<close>

definition slice_of :: "kaapic_work_distribution \<Rightarrow> nat \<Rightarrow> wq_range" where
  "slice_of wa pos = (startindex wa pos, startindex wa (pos + 1))"

definition kaapic_global_getwork :: "kaapic_global_work \<Rightarrow> nat \<Rightarrow> wq_range option" where
  "kaapic_global_getwork gw tid =
     (if gw_workremain gw = 0 then None
      else let pos = tid2pos (gw_wa gw) tid
           in if pos = - 1 then None else Some (slice_of (gw_wa gw) (unat pos)))"

text \<open>The loop at \<^verbatim>\<open>repop_any\<close>, when no other thread changes the map: its first turn decides.\<close>

definition set_map :: "kaapi_bitmap256 \<Rightarrow> kaapic_global_work \<Rightarrow> kaapic_global_work" where
  "set_map m gw = gw\<lparr>gw_wa := (gw_wa gw)\<lparr>wa_map := m\<rparr>\<rparr>"

definition repop_any :: "kaapic_global_work \<Rightarrow> wq_range option \<times> kaapic_global_work" where
  "repop_any gw =
     (case kaapi_bitmap_first1_and_zero_256 (\<lambda>_ b. b) (wa_map (gw_wa gw)) of
        (idx, m) \<Rightarrow> (if idx \<noteq> 0 then Some (slice_of (gw_wa gw) (idx - 1)) else None, set_map m gw))"

definition kaapic_global_work_pop ::
  "kaapic_global_work \<Rightarrow> nat \<Rightarrow> wq_range option \<times> kaapic_global_work" where
  "kaapic_global_work_pop gw tid =
     (let pos = tid2pos (gw_wa gw) tid
      in if pos = - 1 then repop_any gw
         else case kaapi_bitmap_unset_256 (wa_map (gw_wa gw)) (unat pos) of
           (r, m) \<Rightarrow>
             (let gw = set_map m gw
              in if r \<noteq> 0 then repop_any gw
                 else if gw_workremain gw = 0 then (None, gw)
                 else (Some (slice_of (gw_wa gw) (unat pos)), gw)))"

section \<open>Local work\<close>

definition kaapic_foreach_local_workinit ::
  "kaapic_local_work \<Rightarrow> wq_range \<Rightarrow> kaapic_local_work" where
  "kaapic_foreach_local_workinit lwork rg =
     lwork\<lparr>lw_cr := snd (kaapi_workqueue_reset (lw_cr lwork) (fst rg) (snd rg)), lw_init := True\<rparr>"

definition kaapic_local_work_steal ::
  "kaapic_local_work \<Rightarrow> uint64 \<Rightarrow> wq_range option \<times> kaapic_local_work" where
  "kaapic_local_work_steal lwork unit_size =
     (case kaapi_workqueue_steal (lw_cr lwork) unit_size of
        (Inl _, q) \<Rightarrow> (None, lwork\<lparr>lw_cr := q\<rparr>)
      | (Inr rg, q) \<Rightarrow> (Some rg, lwork\<lparr>lw_cr := q\<rparr>))"

section \<open>Starting the loop\<close>

definition upd_lwork :: "nat \<Rightarrow> kaapic_local_work \<Rightarrow> kaapic_global_work \<Rightarrow> kaapic_global_work" where
  "upd_lwork t lw gw = gw\<lparr>gw_lwork := (gw_lwork gw)(t := lw)\<rparr>"

text \<open>The local works of all threads, empty; \<open>kproc_lock i\<close> is the lock of processor \<open>i\<close>.\<close>

definition init_lwork :: "(nat \<Rightarrow> nat) \<Rightarrow> nat \<Rightarrow> kaapic_global_work \<Rightarrow> kaapic_global_work" where
  "init_lwork kproc_lock i gw =
     upd_lwork i \<lparr>lw_cr = snd (kaapi_workqueue_init_with_lock (lw_cr (gw_lwork gw i)) 0 0 (Some (kproc_lock i))),
                  lw_init = False, lw_workdone = 0, lw_tid = i\<rparr> gw"

text \<open>\<open>gw\<close> is what the memory of the new structure holds.  The outer option is a trap, the inner one the
  null result for an empty range.\<close>

definition kaapic_foreach_global_workinit ::
  "kaapi_bitmap_value256 \<Rightarrow> (nat \<Rightarrow> nat) \<Rightarrow> nat \<Rightarrow> kaapic_global_work \<Rightarrow> nat \<Rightarrow> uint64 \<Rightarrow> uint64 \<Rightarrow>
   kaapic_foreach_attr \<Rightarrow> bool \<Rightarrow> kaapic_global_work option option" where
  "kaapic_foreach_global_workinit mask0 kproc_lock concurrency gw localtid first lst attr body_f =
     (if lst \<le>s first then Some None
      else
        let nthreads = (if attr_nthreads attr = - 1 then concurrency else unat (attr_nthreads attr))
        in case kaapic_foreach_initwa mask0 concurrency (gw_wa gw) localtid (attr_threadset attr) nthreads first lst of
             None \<Rightarrow> None
           | Some wa \<Rightarrow>
               let gw = gw\<lparr>gw_wa := wa, gw_workremain := lst - first, gw_workerdone := 0\<rparr>;
                   gw = fold (init_lwork kproc_lock) [0..<concurrency] gw
               in Some (Some (gw\<lparr>gw_wi := \<lparr>par_grain = p_grain attr, seq_grain = s_grain attr,
                         wi_nthreads = of_nat nthreads, wi_threadset = attr_threadset attr,
                         itercount = lst - first\<rparr>, gw_body := body_f\<rparr>)))"

text \<open>\<^verbatim>\<open>kaapic_foreach_workinit\<close>, without the adaptive task that publishes the work afterwards.\<close>

definition kaapic_foreach_workinit ::
  "kaapi_bitmap_value256 \<Rightarrow> (nat \<Rightarrow> nat) \<Rightarrow> nat \<Rightarrow> kaapic_global_work \<Rightarrow> nat \<Rightarrow> uint64 \<Rightarrow> uint64 \<Rightarrow>
   kaapic_foreach_attr \<Rightarrow> bool \<Rightarrow> kaapic_global_work option option" where
  "kaapic_foreach_workinit mask0 kproc_lock concurrency gw tid first lst attr body_f =
     (if lst \<le>s first then Some None
      else case kaapic_foreach_global_workinit mask0 kproc_lock concurrency gw tid first lst attr body_f of
        Some (Some gw) \<Rightarrow>
          (case kaapic_global_work_pop gw tid of
             (Some rg, gw) \<Rightarrow> Some (Some (upd_lwork tid (kaapic_foreach_local_workinit (gw_lwork gw tid) rg) gw))
           | (None, gw) \<Rightarrow> Some (Some gw))
      | r \<Rightarrow> r)"

section \<open>What the distribution promises\<close>

lemma sint_c_div:
  assumes "0 \<le> sint a" "0 < sint b"
  shows "sint (c_div a b) = sint a div sint b"
proof -
  have "sgn (sint a) * sgn (sint b) * (\<bar>sint a\<bar> div \<bar>sint b\<bar>) = sint a div sint b"
    using assms by (cases "sint a = 0") (simp_all add: sgn_if)
  moreover have "0 \<le> sint a div sint b" using assms by (simp add: pos_imp_zdiv_nonneg_iff)
  moreover have "sint a div sint b < 2 ^ 63"
  proof -
    have "sint a div sint b \<le> sint a" using assms zdiv_mono2 [of "sint a" 1 "sint b"] by simp
    then show ?thesis using sint64_bounds(2) [of a] by linarith
  qed
  ultimately show ?thesis by (simp add: c_div_def sint_sbintrunc' signed_take_bit_int_eq_self)
qed

lemma sint_c_mod:
  assumes "0 \<le> sint a" "0 < sint b"
  shows "sint (c_mod a b) = sint a mod sint b"
proof -
  have d: "sint (c_div a b) = sint a div sint b" using assms by (rule sint_c_div)
  have m: "sint a div sint b * sint b = sint a - sint a mod sint b"
    by (simp add: minus_mod_eq_div_mult)
  have b: "0 \<le> sint a mod sint b" "sint a mod sint b \<le> sint a"
    using assms by (simp_all add: zmod_le_nonneg_dividend)
  have "sint (c_div a b * b) = sint a - sint a mod sint b"
    using b m d sint64_bounds(2) [of a] sint64_bounds(1) [of a]
    by (simp add: sint_word_ariths(3) signed_take_bit_int_eq_self)
  then show ?thesis
    using b sint64_bounds(2) [of a] by (simp add: c_mod_def sint_diff_fits)
qed

subsection \<open>The numbering of the threads\<close>

text \<open>The rank of thread \<open>i\<close> among the threads of the set but \<open>s\<close>.\<close>

definition rank_of :: "kaapi_bitmap_value256 \<Rightarrow> nat \<Rightarrow> nat \<Rightarrow> nat" where
  "rank_of msk s i = card (bits256 msk \<inter> {..<i} - {s})"

lemma initwa_pos_fold:
  assumes "c \<le> 256" and "lc \<le> f"
  shows "fold (initwa_pos s msk f) [0..<c] (lc, t2p) =
    (min f (lc + rank_of msk s c),
     \<lambda>i. if i < c \<and> i \<noteq> s
          then (if i \<in> bits256 msk \<and> lc + rank_of msk s i < f then of_nat (lc + rank_of msk s i) else - 1)
          else t2p i)"
  using assms(1)
proof (induction c)
  case 0
  then show ?case using assms(2) by (simp add: rank_of_def)
next
  case (Suc c)
  have fin: "finite (bits256 msk \<inter> {..<c} - {s})" by simp
  have P: "rank_of msk s (Suc c) = (if c \<in> bits256 msk \<and> c \<noteq> s then Suc (rank_of msk s c) else rank_of msk s c)"
  proof (cases "c \<in> bits256 msk \<and> c \<noteq> s")
    case True
    then have "bits256 msk \<inter> {..<Suc c} - {s} = insert c (bits256 msk \<inter> {..<c} - {s})" by auto
    then show ?thesis using True by (simp add: rank_of_def)
  next
    case False
    then have "bits256 msk \<inter> {..<Suc c} - {s} = bits256 msk \<inter> {..<c} - {s}" by (auto simp: less_Suc_eq)
    then show ?thesis using False by (simp add: rank_of_def)
  qed
  have g: "kaapi_bitmap_value_get_256 msk c \<longleftrightarrow> c \<in> bits256 msk"
    using Suc.prems bv256.get_iff by simp
  show ?case
    using Suc by (auto simp: initwa_pos_def P g fun_eq_iff less_Suc_eq)
qed

subsection \<open>The slices\<close>

lemma start_fold:
  "1 \<le> f \<Longrightarrow> fold (\<lambda>i si. si(i + 1 := si i + scale)) [1..<f] si =
     (\<lambda>k. if 1 < k \<and> k \<le> f then si 1 + of_nat (k - 1) * scale else si k)"
  for si :: "nat \<Rightarrow> uint64"
proof (induction f)
  case (Suc f)
  then show ?case
    by (cases "f = 0"; cases "f = 1") (auto simp: fun_eq_iff algebra_simps of_nat_diff le_Suc_eq)
qed simp

lemma start_rest_fold:
  "fold (\<lambda>i si. si(i + 1 := si f)) [f..<c] si = (\<lambda>k. if f < k \<and> k \<le> c then si f else si k)"
  for si :: "nat \<Rightarrow> uint64"
  by (induction c) (auto simp: fun_eq_iff le_Suc_eq)

lemma sint_of_int_eq: "w = word_of_int x \<Longrightarrow> - (2 ^ 63) \<le> x \<Longrightarrow> x < 2 ^ 63 \<Longrightarrow> sint (w :: uint64) = x"
  by (simp add: sint_sbintrunc' signed_take_bit_int_eq_self)

text \<open>What \<^verbatim>\<open>_kaapic_foreach_initwa\<close> has done when it returns: \<open>M\<close> is the set of threads, \<open>T\<close> the number
  of iterations and \<open>f\<close> the number of slices.\<close>

definition slice_start :: "int \<Rightarrow> nat \<Rightarrow> nat \<Rightarrow> int" where
  "slice_start T f k = (if k = 0 then 0 else T mod int f + int k * (T div int f))"

lemma slice_start_total: "0 < f \<Longrightarrow> slice_start T f f = T"
  by (simp add: slice_start_def mod_div_mult_eq mult.commute)

lemma slice_start_mono:
  assumes "int f \<le> T" and "k < f"
  shows "slice_start T f k + T div int f \<le> slice_start T f (Suc k)" and "0 < T div int f"
    and "slice_start T f k < slice_start T f (Suc k)"
proof -
  show d: "0 < T div int f" using assms by (simp add: pos_imp_zdiv_pos_iff)
  show "slice_start T f k + T div int f \<le> slice_start T f (Suc k)"
    using assms by (simp add: slice_start_def algebra_simps)
  then show "slice_start T f k < slice_start T f (Suc k)" using d by simp
qed

lemma slice_start_bounds:
  assumes "int f \<le> T" and "k \<le> f" and "0 < f"
  shows "0 \<le> slice_start T f k" and "slice_start T f k \<le> T"
proof -
  have d: "0 < T div int f" using assms(1,3) by (simp add: pos_imp_zdiv_pos_iff)
  then show "0 \<le> slice_start T f k" using assms(3) by (simp add: slice_start_def)
  have "int k * (T div int f) \<le> int f * (T div int f)" using d assms(2) by simp
  then have "T mod int f + int k * (T div int f) \<le> T" using mod_mult_div_eq [of T "int f"] by linarith
  then show "slice_start T f k \<le> T" using assms(1) by (simp add: slice_start_def)
qed

lemma initwa_Some:
  assumes "sint first < sint lst" and "sint lst - sint first < 2 ^ 63"
    and "nthreads \<le> 256" and "concurrency \<le> 256" and "self_tid < 256"
    and M: "M = {..<nthreads} \<inter> cpus cpuset" and "M \<noteq> {}"
    and T: "T = sint lst - sint first" and f: "f = min (card M) (nat T)"
    and M': "M' = (if T < int (card M) then {..<f} else M)"
  obtains wa' msk where "kaapic_foreach_initwa mask0 concurrency wa self_tid cpuset nthreads first lst = Some wa'"
    and "bits256 msk = M'" and "abits256 (wa_map wa') = M'" and "0 < f" and "int f \<le> T"
    and "\<And>k. k \<le> f \<Longrightarrow> sint (startindex wa' k) = sint first + slice_start T f k"
    and "\<And>k. f \<le> k \<Longrightarrow> k \<le> concurrency \<Longrightarrow> startindex wa' k = startindex wa' f"
    and "tid2pos wa' = snd (fold (initwa_pos self_tid msk f) [0..<concurrency]
      (if self_tid \<in> M' then (1, (tid2pos wa)(self_tid := 0)) else (0, tid2pos wa)))"
proof -
  define m0 where "m0 = kaapi_bitmap_value_and_256
    (kaapi_bitmap_value_set_low_bits_256 (kaapi_bitmap_value_clear_256 mask0) nthreads) (cpuset_to_bitmap cpuset)"
  have b0: "bits256 m0 = M" using assms(3) M by (simp add: m0_def bv256.bits_band bv256.bits_low cpus_bitmap)
  have cM: "kaapi_bitmap_value_count_256 m0 = card M" by (simp add: bv256.count_card b0)
  have finM: "finite M" "card M \<le> 256" using M card_mono [of "{..<nthreads}" M] assms(3) by auto
  have cpos: "0 < card M" using finM(1) assms(7) by (simp add: card_gt_0_iff)
  have Tp: "0 < T" "T < 2 ^ 63" using assms(1,2) T by simp_all
  have sT: "sint (lst - first) = T" using T Tp sint_diff_fits [of lst first] by simp
  have uT: "unat (lst - first) = nat T"
    using sT Tp by (simp add: uint_sint take_bit_int_eq_self flip: nat_uint_eq)
  have c64: "sint (of_nat (card M) :: uint64) = int (card M)"
    using finM(2) by (intro sint_of_int_eq) simp_all
  have few: "(lst - first) <s of_nat (card M) \<longleftrightarrow> T < int (card M)"
    by (simp add: word_sless_alt sT c64)
  have f0: "0 < f" "int f \<le> T" "f \<le> 256" "f \<le> card M" using f cpos Tp(1) finM(2) by auto
  have ff: "(if T < int (card M) then unat (lst - first) else card M) = f"
    using f Tp(1) uT by auto
  define msk where "msk = (if T < int (card M) then kaapi_bitmap_value_set_low_bits_256 m0 f else m0)"
  have bm: "bits256 msk = M'" using M' b0 f0(3) by (simp add: msk_def bv256.bits_low)
  show ?thesis
  proof -
    define wa1 where "wa1 = wa\<lparr>wa_map := snd (kaapi_bitmap_init_256 (wa_map wa) m0)\<rparr>"
    define wa2 where "wa2 = (if T < int (card M) then wa1\<lparr>wa_map := snd (kaapi_bitmap_init_256 (wa_map wa1) msk)\<rparr> else wa1)"
    define off where "off = c_mod (lst - first) (of_nat f)"
    define scale where "scale = c_div (lst - first - off) (of_nat f)"
    define si where "si = fold (\<lambda>i si. si(i + 1 := si f)) [f..<concurrency]
      (fold (\<lambda>i si. si(i + 1 := si i + scale)) [1..<f] ((startindex wa)(0 := first, 1 := first + off + scale)))"
    define t2p where "t2p = snd (fold (initwa_pos self_tid msk f) [0..<concurrency]
      (if self_tid \<in> M' then (1, (tid2pos wa)(self_tid := 0)) else (0, tid2pos wa)))"
    have m2: "abits256 (wa_map wa2) = M'"
      using b0 bm M' by (simp add: wa2_def wa1_def ba256.abits_init)
    have st: "startindex wa2 = startindex wa" "tid2pos wa2 = tid2pos wa" by (simp_all add: wa2_def wa1_def)
    have g: "kaapi_bitmap_value_get_256 msk self_tid \<longleftrightarrow> self_tid \<in> M'"
      using assms(5) bm by (simp add: bv256.get_iff)
    have r: "kaapic_foreach_initwa mask0 concurrency wa self_tid cpuset nthreads first lst =
      Some (wa2\<lparr>tid2pos := t2p, startindex := si\<rparr>)"
      unfolding kaapic_foreach_initwa_def Let_def m0_def [symmetric] cM few ff
      unfolding msk_def [symmetric] wa1_def [symmetric]
      unfolding wa2_def [symmetric] g st off_def [symmetric]
      unfolding scale_def [symmetric] si_def [symmetric] t2p_def [symmetric]
      using f0(1) by simp
    have cf: "sint (of_nat f :: uint64) = int f" using f0(3) by (intro sint_of_int_eq) simp_all
    have o: "sint off = T mod int f" using sint_c_mod [of "lst - first" "of_nat f"] sT Tp f0(1) cf
      by (simp add: off_def)
    have ob: "0 \<le> T mod int f" "T mod int f \<le> T" using f0(1) Tp by (simp_all add: zmod_le_nonneg_dividend)
    have "sint (lst - first - off) = int f * (T div int f)"
      using sint_diff_fits [of "lst - first" off] sT o ob Tp by (simp add: minus_mod_eq_mult_div [symmetric])
    moreover have "0 \<le> int f * (T div int f)" using Tp f0(1) by (simp add: pos_imp_zdiv_nonneg_iff)
    ultimately have sc: "sint scale = T div int f"
      using sint_c_div [of "lst - first - off" "of_nat f"] cf f0(1) by (simp add: scale_def)
    have X: "si k = (if k = 0 then first else first + off + of_nat k * scale)" if "k \<le> f" for k
    proof -
      have "1 \<le> f" using f0(1) by simp
      then show ?thesis
        using that unfolding si_def start_fold [OF \<open>1 \<le> f\<close>] start_rest_fold
        by (cases "k = 0"; cases "k = 1") (auto simp: of_nat_diff algebra_simps)
    qed
    have A: "sint (si k) = sint first + slice_start T f k" if "k \<le> f" for k
    proof (rule sint_of_int_eq)
      show "si k = word_of_int (sint first + slice_start T f k)"
        using X [OF that] by (simp add: slice_start_def flip: o sc)
      show "- (2 ^ 63) \<le> sint first + slice_start T f k" "sint first + slice_start T f k < 2 ^ 63"
        using slice_start_bounds [OF f0(2) that f0(1)] sint64_bounds [of first] sint64_bounds [of lst] T by linarith+
    qed
    have B: "si k = si f" if "f \<le> k" "k \<le> concurrency" for k
      unfolding si_def start_rest_fold using that by simp
    show ?thesis
    proof (rule that [OF r bm _ f0(1,2)])
      show "abits256 (wa_map (wa2\<lparr>tid2pos := t2p, startindex := si\<rparr>)) = M'" using m2 by simp
      show "startindex (wa2\<lparr>tid2pos := t2p, startindex := si\<rparr>) k =
        startindex (wa2\<lparr>tid2pos := t2p, startindex := si\<rparr>) f" if "f \<le> k" "k \<le> concurrency" for k
        using B [OF that] by simp
    qed (simp_all add: A t2p_def)
  qed
qed

section \<open>Properties of the distribution\<close>

lemma upto_pieces:
  fixes g :: "nat \<Rightarrow> int"
  assumes "\<And>k. k < f \<Longrightarrow> g k \<le> g (Suc k)"
  shows "concat (map (\<lambda>k. [g k..g (Suc k) - 1]) [0..<f]) = [g 0..g f - 1] \<and> g 0 \<le> g f"
  using assms
proof (induction f)
  case (Suc f)
  have l: "g 0 \<le> g f" "g f \<le> g (Suc f)" and c: "concat (map (\<lambda>k. [g k..g (Suc k) - 1]) [0..<f]) = [g 0..g f - 1]"
    using Suc by simp_all
  then show ?case using upto_split [OF l] by simp
qed simp

text \<open>The positions: the thread that starts the loop is at 0 when it is in the map, the others follow in the order of their
  numbers.\<close>

definition position_of :: "nat set \<Rightarrow> nat \<Rightarrow> nat \<Rightarrow> nat" where
  "position_of M s i = (if i = s then 0 else (if s \<in> M then 1 else 0) + card (M \<inter> {..<i} - {s}))"

lemma position_less:
  assumes "finite M" and "i \<in> M"
  shows "position_of M s i < card M"
    and "\<lbrakk>j \<in> M; i < j; j \<noteq> s\<rbrakk> \<Longrightarrow> position_of M s i < position_of M s j"
proof -
  have c: "card (M - {s}) + (if s \<in> M then 1 else 0) = card M"
    using card_Suc_Diff1 [OF assms(1), of s] by auto
  have "card (M \<inter> {..<i} - {s}) < card (M - {s})" if "i \<noteq> s"
    by (rule psubset_card_mono) (use assms that in auto)
  then show "position_of M s i < card M" using assms c by (auto simp: position_of_def card_gt_0_iff)
  assume j: "j \<in> M" "i < j" "j \<noteq> s"
  have "card (M \<inter> {..<i} - {s}) < card (M \<inter> {..<j} - {s})" if "i \<noteq> s"
    by (rule psubset_card_mono) (use assms j that in auto)
  then show "position_of M s i < position_of M s j" using assms(2) j by (auto simp: position_of_def)
qed

lemma position_bij:
  assumes "finite M"
  shows "bij_betw (position_of M s) M {..<card M}"
proof -
  have "position_of M s i \<noteq> position_of M s j" if "i \<in> M" "j \<in> M" "i < j" for i j
  proof (cases "j = s")
    case False
    then show ?thesis using position_less(2) [OF assms that(1,2,3) False] by simp
  next
    case True
    then show ?thesis using that by (simp add: position_of_def)
  qed
  then have "inj_on (position_of M s) M" by (metis linorder_inj_onI')
  moreover have "position_of M s ` M \<subseteq> {..<card M}" using position_less(1) [OF assms] by auto
  ultimately show ?thesis using assms by (simp add: bij_betw_def card_image card_subset_eq)
qed

text \<open>The table that the two loops over the threads fill.\<close>

lemma tid2pos_fold:
  assumes "concurrency \<le> 256" and "card (bits256 msk) = f" and "0 < f" and "i < concurrency"
    and "t2p = snd (fold (initwa_pos s msk f) [0..<concurrency] (if s \<in> bits256 msk then (1, t0(s := 0)) else (0, t0)))"
  shows "i \<in> bits256 msk \<Longrightarrow> t2p i = of_nat (position_of (bits256 msk) s i)"
    and "i \<notin> bits256 msk \<Longrightarrow> i \<noteq> s \<Longrightarrow> t2p i = - 1"
proof -
  let ?M = "bits256 msk"
  define lc where "lc = (if s \<in> ?M then 1 else 0 :: nat)"
  define t1 where "t1 = (if s \<in> ?M then t0(s := 0) else t0)"
  have lc: "lc \<le> f" using assms(3) by (simp add: lc_def)
  have "t2p = snd (fold (initwa_pos s msk f) [0..<concurrency] (lc, t1))" using assms(5) by (simp add: lc_def t1_def)
  then have t: "t2p i = (if i \<noteq> s then (if i \<in> ?M \<and> lc + rank_of msk s i < f then of_nat (lc + rank_of msk s i) else - 1) else t1 i)"
    using initwa_pos_fold [OF assms(1) lc, of s msk t1] assms(4) by simp
  have p: "i \<noteq> s \<Longrightarrow> position_of ?M s i = lc + rank_of msk s i" by (simp add: position_of_def lc_def rank_of_def)
  show "i \<in> ?M \<Longrightarrow> t2p i = of_nat (position_of ?M s i)"
    using t p position_less(1) [of ?M i s] bv256.finite_bits [of msk] assms(2) by (auto simp: t1_def position_of_def)
  show "i \<notin> ?M \<Longrightarrow> i \<noteq> s \<Longrightarrow> t2p i = - 1" using t by simp
qed

text \<open>C30: a distribution that is returned cuts the iterations into consecutive slices, which together are the loop's range in
  order, each index once; no slice is empty, and they differ in size only by the remainder, which the first slice gets.
  There is a slice per thread of the map, which is the set of threads, or the numbers below the number of iterations when
  there are fewer iterations than threads in the set.  The threads of the map get the slices one each: the
  thread that starts the loop gets slice 0 when it is in the map, the others the next ones in the order of their numbers, and
  any other thread is marked as one without a slice.\<close>

theorem foreach_slices_partition:
  assumes "sint first < sint lst" and "sint lst - sint first < 2 ^ 63"
    and "nthreads \<le> 256" and "concurrency \<le> 256" and "self_tid < 256"
    and "{..<nthreads} \<inter> cpus cpuset \<noteq> {}"
    and f: "f = min (card ({..<nthreads} \<inter> cpus cpuset)) (nat (sint lst - sint first))"
  shows "\<exists>wa'. kaapic_foreach_initwa mask0 concurrency wa self_tid cpuset nthreads first lst = Some wa'
    \<and> abits256 (wa_map wa') = (if sint lst - sint first < int (card ({..<nthreads} \<inter> cpus cpuset))
          then {..<f} else {..<nthreads} \<inter> cpus cpuset)
    \<and> card (abits256 (wa_map wa')) = f
    \<and> concat (map (\<lambda>k. range_list sint (slice_of wa' k)) [0..<f]) = [sint first..sint lst - 1]
    \<and> (\<forall>k < f. int (length (range_list sint (slice_of wa' k))) =
          (sint lst - sint first) div int f + (if k = 0 then (sint lst - sint first) mod int f else 0))
    \<and> (\<forall>i < concurrency. i \<in> abits256 (wa_map wa') \<longrightarrow>
          unat (tid2pos wa' i) = position_of (abits256 (wa_map wa')) self_tid i)
    \<and> (\<forall>i < concurrency. i \<notin> abits256 (wa_map wa') \<and> i \<noteq> self_tid \<longrightarrow> tid2pos wa' i = - 1)
    \<and> (nthreads \<le> concurrency \<longrightarrow> bij_betw (\<lambda>i. unat (tid2pos wa' i)) (abits256 (wa_map wa')) {..<f})"
proof -
  define T where "T = sint lst - sint first"
  define M where "M = {..<nthreads} \<inter> cpus cpuset"
  define M' where "M' = (if T < int (card M) then {..<f} else M)"
  have f': "f = min (card M) (nat T)" using f by (simp add: M_def T_def)
  from initwa_Some [OF assms(1-5) M_def assms(6) [folded M_def] T_def f' M'_def, where wa = wa and ?mask0.0 = mask0]
  obtain wa' msk where w: "kaapic_foreach_initwa mask0 concurrency wa self_tid cpuset nthreads first lst = Some wa'"
    and m: "bits256 msk = M'" "abits256 (wa_map wa') = M'" and fp: "0 < f" "int f \<le> T"
    and s: "\<And>k. k \<le> f \<Longrightarrow> sint (startindex wa' k) = sint first + slice_start T f k"
    and t: "tid2pos wa' = snd (fold (initwa_pos self_tid msk f) [0..<concurrency]
      (if self_tid \<in> M' then (1, (tid2pos wa)(self_tid := 0)) else (0, tid2pos wa)))"
    by metis
  let ?g = "\<lambda>k. sint first + slice_start T f k"
  have c: "card M' = f" using f' fp T_def by (auto simp: M'_def)
  have fin: "finite M'" using c fp(1) card_gt_0_iff by metis
  have mono: "?g k \<le> ?g (Suc k)" if "k < f" for k using slice_start_mono(3) [OF fp(2) that] by simp
  have r: "range_list sint (slice_of wa' k) = [?g k..?g (Suc k) - 1]" if "k < f" for k
    using s [of k] s [of "Suc k"] that by (simp add: range_list_def slice_of_def)
  have "concat (map (\<lambda>k. range_list sint (slice_of wa' k)) [0..<f]) =
      concat (map (\<lambda>k. [?g k..?g (Suc k) - 1]) [0..<f])"
    using r by (intro arg_cong [of _ _ concat] map_cong) auto
  also have "\<dots> = [sint first..sint lst - 1]"
    using upto_pieces [of f ?g, OF mono] slice_start_total [OF fp(1), of T] T_def by (simp add: slice_start_def)
  finally have 1: "concat (map (\<lambda>k. range_list sint (slice_of wa' k)) [0..<f]) = [sint first..sint lst - 1]" .
  have 2: "int (length (range_list sint (slice_of wa' k))) = T div int f + (if k = 0 then T mod int f else 0)"
    if "k < f" for k
    using r [OF that] mono [OF that] by (simp add: slice_start_def algebra_simps)
  note T = tid2pos_fold [OF assms(4) c [folded m(1)] fp(1) _ t [folded m(1)]]
  have f256: "f \<le> 256" using card_mono [of "{..<nthreads}" M] assms(3) f' by (simp add: M_def)
  have 3: "unat (tid2pos wa' i) = position_of M' self_tid i" if "i < concurrency" "i \<in> M'" for i
    using T(1) [OF that(1)] that(2) position_less(1) [OF fin that(2), of self_tid] f256 c
    by (simp add: m(1) unat_of_nat take_bit_nat_eq_self)
  have 4: "\<forall>i < concurrency. i \<notin> M' \<and> i \<noteq> self_tid \<longrightarrow> tid2pos wa' i = - 1" using T(2) by (simp add: m(1))
  have 5: "bij_betw (\<lambda>i. unat (tid2pos wa' i)) M' {..<f}" if n: "nthreads \<le> concurrency"
  proof -
    have "f \<le> nthreads" using f' card_mono [of "{..<nthreads}" M] by (simp add: M_def)
    then have "\<forall>i \<in> M'. i < concurrency" using n by (auto simp: M'_def M_def)
    then have "bij_betw (\<lambda>i. unat (tid2pos wa' i)) M' {..<f} = bij_betw (position_of M' self_tid) M' {..<f}"
      using 3 by (intro bij_betw_cong) blast
    then show ?thesis using position_bij [OF fin, of self_tid] unfolding c by blast
  qed
  have 0: "abits256 (wa_map wa') = (if T < int (card M) then {..<f} else M)" unfolding m(2) M'_def ..
  show ?thesis
    unfolding M_def [symmetric] T_def [symmetric]
  proof (intro exI [of _ wa'] conjI)
    show "card (abits256 (wa_map wa')) = f" by (simp add: m(2) c)
    show "\<forall>k < f. int (length (range_list sint (slice_of wa' k))) = T div int f + (if k = 0 then T mod int f else 0)" using 2 by blast
    show "\<forall>i < concurrency. i \<in> abits256 (wa_map wa') \<longrightarrow> unat (tid2pos wa' i) = position_of (abits256 (wa_map wa')) self_tid i"
      using 3 unfolding m(2) by blast
    show "\<forall>i < concurrency. i \<notin> abits256 (wa_map wa') \<and> i \<noteq> self_tid \<longrightarrow> tid2pos wa' i = - 1" using 4 unfolding m(2) .
    show "nthreads \<le> concurrency \<longrightarrow> bij_betw (\<lambda>i. unat (tid2pos wa' i)) (abits256 (wa_map wa')) {..<f}" using 5 unfolding m(2) by blast
  qed (rule w 0 1)+
qed

theorem foreach_slices_partition_witness:
  "\<exists>wa'. kaapic_foreach_initwa \<lparr>vproc256_0 = 0, vproc256_1 = 0, vproc256_2 = 0, vproc256_3 = 0\<rparr> 4
     \<lparr>wa_map = \<lparr>proc256_0 = 0, proc256_1 = 0, proc256_2 = 0, proc256_3 = 0\<rparr>, tid2pos = (\<lambda>_. 0), startindex = (\<lambda>_. 0)\<rparr>
     0 \<lparr>cpu64_0 = 5, cpu64_1 = 0, cpu64_2 = 0, cpu64_3 = 0\<rparr> 4 0 11 = Some wa'
    \<and> abits256 (wa_map wa') = {0, 2}
    \<and> concat (map (\<lambda>k. range_list sint (slice_of wa' k)) [0..<2]) = [0..10]
    \<and> int (length (range_list sint (slice_of wa' 0))) = 6
    \<and> unat (tid2pos wa' 2) = 1 \<and> tid2pos wa' 1 = - 1"
proof -
  let ?c = "\<lparr>cpu64_0 = 5, cpu64_1 = 0, cpu64_2 = 0, cpu64_3 = 0\<rparr> :: kaapi_cpuset"
  have m: "{..<4} \<inter> cpus ?c = {0, 2}"
    by (auto simp: cpus_def bits_of_def bit_numeral_rec numeral_eq_Suc less_Suc_eq)
  have a: "sint (0::uint64) < sint (11::uint64)" "sint (11::uint64) - sint (0::uint64) < 2 ^ 63"
    "(4::nat) \<le> 256" "(0::nat) < 256" by simp_all
  have f: "2 = min (card ({..<4} \<inter> cpus ?c)) (nat (sint (11::uint64) - sint (0::uint64)))" by (simp add: m)
  have n: "{..<4} \<inter> cpus ?c \<noteq> {}" "\<not> sint (11::uint64) - sint (0::uint64) < int (card ({..<4} \<inter> cpus ?c))" by (simp_all add: m)
  from foreach_slices_partition [OF a(1,2,3,3,4) n(1) f,
      where wa = "\<lparr>wa_map = \<lparr>proc256_0 = 0, proc256_1 = 0, proc256_2 = 0, proc256_3 = 0\<rparr>, tid2pos = (\<lambda>_. 0), startindex = (\<lambda>_. 0)\<rparr>"
        and ?mask0.0 = "\<lparr>vproc256_0 = 0, vproc256_1 = 0, vproc256_2 = 0, vproc256_3 = 0\<rparr>", unfolded if_not_P [OF n(2)]]
  obtain wa' where w: "kaapic_foreach_initwa \<lparr>vproc256_0 = 0, vproc256_1 = 0, vproc256_2 = 0, vproc256_3 = 0\<rparr> 4
     \<lparr>wa_map = \<lparr>proc256_0 = 0, proc256_1 = 0, proc256_2 = 0, proc256_3 = 0\<rparr>, tid2pos = (\<lambda>_. 0), startindex = (\<lambda>_. 0)\<rparr> 0 ?c 4 0 11 = Some wa'"
    and b: "abits256 (wa_map wa') = {0, 2}"
    and s: "concat (map (\<lambda>k. range_list sint (slice_of wa' k)) [0..<2]) = [sint (0::uint64)..sint (11::uint64) - 1]"
      "\<forall>k < 2. int (length (range_list sint (slice_of wa' k))) =
          (sint (11::uint64) - sint (0::uint64)) div int 2 + (if k = 0 then (sint (11::uint64) - sint (0::uint64)) mod int 2 else 0)"
    and p: "\<forall>i < 4. i \<in> {0, 2} \<longrightarrow> unat (tid2pos wa' i) = position_of {0, 2} 0 i"
      "\<forall>i < 4. i \<notin> {0, 2} \<and> i \<noteq> 0 \<longrightarrow> tid2pos wa' i = - 1"
    unfolding m by metis
  have "{0, 2} \<inter> {..<2} - {0} = ({} :: nat set)" by auto
  then have "position_of {0, 2} 0 2 = 1" by (simp add: position_of_def)
  then show ?thesis using w b s(1) s(2) [rule_format, of 0] p(1) [rule_format, of 2] p(2) [rule_format, of 1] by simp
qed

text \<open>When no thread of the set is below \<^verbatim>\<open>nthreads\<close>, the function divides by zero.\<close>

theorem foreach_no_thread_traps:
  assumes "sint first < sint lst" and "sint lst - sint first < 2 ^ 63" and "nthreads \<le> 256"
    and "{..<nthreads} \<inter> cpus cpuset = {}"
  shows "kaapic_foreach_initwa mask0 concurrency wa self_tid cpuset nthreads first lst = None"
proof -
  have "bits256 (kaapi_bitmap_value_and_256
      (kaapi_bitmap_value_set_low_bits_256 (kaapi_bitmap_value_clear_256 mask0) nthreads) (cpuset_to_bitmap cpuset)) = {}"
    using assms(3,4) by (simp add: bv256.bits_band bv256.bits_low cpus_bitmap)
  then have c: "kaapi_bitmap_value_count_256 (kaapi_bitmap_value_and_256
      (kaapi_bitmap_value_set_low_bits_256 (kaapi_bitmap_value_clear_256 mask0) nthreads) (cpuset_to_bitmap cpuset)) = 0"
    by (simp add: bv256.count_card)
  have "\<not> (lst - first) <s 0"
    using assms(1,2) by (simp add: word_sless_alt sint_diff_fits)
  then show ?thesis by (simp add: kaapic_foreach_initwa_def Let_def c)
qed

theorem foreach_no_thread_traps_witness:
  "kaapic_foreach_initwa \<lparr>vproc256_0 = 0, vproc256_1 = 0, vproc256_2 = 0, vproc256_3 = 0\<rparr> 4
     \<lparr>wa_map = \<lparr>proc256_0 = 0, proc256_1 = 0, proc256_2 = 0, proc256_3 = 0\<rparr>, tid2pos = (\<lambda>_. 0), startindex = (\<lambda>_. 0)\<rparr>
     0 \<lparr>cpu64_0 = 4, cpu64_1 = 0, cpu64_2 = 0, cpu64_3 = 0\<rparr> 2 0 10 = None"
proof (rule foreach_no_thread_traps)
  show "{..<2} \<inter> cpus \<lparr>cpu64_0 = 4, cpu64_1 = 0, cpu64_2 = 0, cpu64_3 = 0\<rparr> = {}"
    by (auto simp: cpus_def less_2_cases_iff bits_of_def bit_numeral_rec)
qed simp_all

text \<open>The numbering is the identity when thread 0 starts the loop and the set is an initial segment of
  the threads, as with the default attributes.\<close>

definition identity_wa :: "nat \<Rightarrow> nat \<Rightarrow> int \<Rightarrow> int \<Rightarrow> kaapic_work_distribution \<Rightarrow> bool" where
  "identity_wa N n fst_i lst_i wa \<longleftrightarrow> 0 < n \<and> n \<le> N \<and> N \<le> 254
     \<and> (\<forall>t < N. tid2pos wa t = (if t < n then of_nat t else - 1))
     \<and> sint (startindex wa 0) = fst_i \<and> sint (startindex wa n) = lst_i
     \<and> (\<forall>p < n. sint (startindex wa p) < sint (startindex wa (Suc p)))"

lemma initwa_identity:
  assumes "sint first < sint lst" and "sint lst - sint first < 2 ^ 63"
    and "nthreads \<le> 256" and "concurrency \<le> 254"
    and M: "{..<nthreads} \<inter> cpus cpuset = {..<m}" and m: "0 < m" "m \<le> concurrency"
  obtains wa' where "kaapic_foreach_initwa mask0 concurrency wa 0 cpuset nthreads first lst = Some wa'"
    and "identity_wa concurrency (min m (nat (sint lst - sint first))) (sint first) (sint lst) wa'"
    and "abits256 (wa_map wa') = {..<min m (nat (sint lst - sint first))}"
proof -
  define T where "T = sint lst - sint first"
  define f where "f = min m (nat T)"
  have f: "f = min (card {..<m}) (nat T)" by (simp add: f_def)
  have M'_def: "{..<f} = (if T < int (card {..<m}) then {..<f} else {..<m})"
    by (auto simp: f_def split: if_splits)
  have ne: "{..<m} \<noteq> {}" using m(1) by auto
  have c: "concurrency \<le> 256" "0 < (256::nat)" using assms(4) by simp_all
  from initwa_Some [OF assms(1-3) c M [symmetric] ne T_def f M'_def, where wa = wa and ?mask0.0 = mask0]
  obtain wa' msk where w: "kaapic_foreach_initwa mask0 concurrency wa 0 cpuset nthreads first lst = Some wa'"
    and mb: "bits256 msk = {..<f}" "abits256 (wa_map wa') = {..<f}" and fp: "0 < f" "int f \<le> T"
    and s: "\<And>k. k \<le> f \<Longrightarrow> sint (startindex wa' k) = sint first + slice_start T f k"
    and t: "tid2pos wa' = snd (fold (initwa_pos 0 msk f) [0..<concurrency]
      (if 0 \<in> {..<f} then (1, (tid2pos wa)(0 := 0)) else (0, tid2pos wa)))"
    by metis
  have rk: "1 + rank_of msk 0 i = (if i < f then i else f)" if "0 < i" for i
  proof -
    have "{..<f} \<inter> {..<i} - {0} = {1..<min f i}" by auto
    then show ?thesis using that fp(1) by (simp add: rank_of_def mb(1) min_def)
  qed
  have "tid2pos wa' i = (if i < f then of_nat i else - 1)" if "i < concurrency" for i
    using t fp(1) initwa_pos_fold [of concurrency 1 f 0 msk "(tid2pos wa)(0 := 0)"] assms(4) rk that mb(1)
    by (cases "i = 0") auto
  moreover have "f \<le> concurrency" using m(2) f_def by simp
  ultimately have "identity_wa concurrency f (sint first) (sint lst) wa'"
    using fp assms(4) s slice_start_total [OF fp(1), of T] slice_start_mono(3) [OF fp(2)]
    by (simp add: identity_wa_def T_def slice_start_def [of _ _ 0])
  then show ?thesis using that w mb(2) by (simp add: f_def T_def)
qed

end
