(* ===== verification/Foreach_Step.thy ===== *)
theory Foreach_Step
  imports Foreach
begin

text \<open>
  The threads of a parallel loop of \<^verbatim>\<open>src/api/kaapic/kaapic_work.c\<close> as a step relation.  A thread is
  \<^verbatim>\<open>kaapic_foreach_common\<close> (the master) or \<^verbatim>\<open>_kaapic_thief_entrypoint\<close>, with the functions they call
  unfolded; a splitter is \<^verbatim>\<open>_kaapic_split_task\<close> as a combiner runs it on the local work of a victim,
  whose lock it holds, so there is at most one per victim.  A step is one access to what the threads
  share, with the private work around it: a pop of a local queue or a steal from it under its lock
  (\<open>The_Protocol\<close> shows what the interleaving of their parts does), an operation on the map of slices (on
  the one 64-bit word that holds the threads' bits, when there are at most 64 of them), a read or an update
  of a counter, one store of \<^verbatim>\<open>kaapi_workqueue_reset\<close> or of \<^verbatim>\<open>init\<close>, the read of one bound of a queue by
  \<^verbatim>\<open>kaapi_workqueue_size\<close>.  The lock of a local queue is the one of its thread's processor: a combiner holds it
  while it splits, the thread while it refills its queue.  The rest of the thief's path, from its request
  to the execution of the task it is sent, and the adaptive task around the loop are the counter of
  thieves of the steal context: \<^verbatim>\<open>kaapi_request_pushtask_adaptive\<close> increments it, \<^verbatim>\<open>kaapi_taskadaptmerge_body\<close>
  decrements it on a thief and waits for 0 on the master.
\<close>

section \<open>Threads and splitters\<close>

text \<open>The stages of a call of \<^verbatim>\<open>kaapic_foreach_local_workinit\<close>: the store of the two bounds of the queue and the
  one that publishes the local work are still to come (\<open>RBeg\<close>, \<open>REnd\<close>, \<open>RInit\<close>), or done.  In a reply the
  increment of \<^verbatim>\<open>workerdone\<close> precedes them (\<open>RCount\<close>); the increment of the count of thieves (\<open>RPush\<close>) and
  the commit of the task (\<open>RCommit\<close>) follow.\<close>

datatype reset_stage = RCount | RBeg | REnd | RInit | RPush | RCommit

fun reset_next :: "reset_stage \<Rightarrow> reset_stage" where
  "reset_next RCount = RBeg"
| "reset_next RBeg = REnd"
| "reset_next REnd = RInit"
| "reset_next RInit = RPush"
| "reset_next RPush = RCommit"
| "reset_next RCommit = RCommit"

fun reset_store :: "reset_stage \<Rightarrow> wq_range \<Rightarrow> kaapic_local_work \<Rightarrow> kaapic_local_work" where
  "reset_store RBeg rg l = l\<lparr>lw_cr := (lw_cr l)\<lparr>rep_beg := fst rg\<rparr>\<rparr>"
| "reset_store REnd rg l = l\<lparr>lw_cr := (lw_cr l)\<lparr>rep_end := snd rg\<rparr>\<rparr>"
| "reset_store RInit rg l = l\<lparr>lw_init := True\<rparr>"
| "reset_store _ rg l = l"

text \<open>Run without interruption, the three stores are the function.\<close>

lemma reset_stores:
  "reset_store RInit rg (reset_store REnd rg (reset_store RBeg rg l)) = kaapic_foreach_local_workinit l rg"
  by (simp add: kaapic_foreach_local_workinit_def kaapi_workqueue_reset_def)

text \<open>The point a thread has reached.  The flag of the points inside \<^verbatim>\<open>kaapic_foreach_globalwork_next\<close> says
  that \<^verbatim>\<open>kaapic_foreach_worknext\<close> called it.  \<open>FPosted v\<close>: the thread has posted a steal request, which the
  combiner on victim \<open>v\<close> has taken.  \<open>FHalf b v c x\<close>: the thread has read one bound of the queue of \<open>v\<close> for its
  size, the first index if \<open>c\<close>, and not yet the other.  \<open>FRefill g a r\<close>: it refills its own queue with \<open>r\<close>, under
  the lock, and goes on with \<open>a\<close>.\<close>

datatype foreach_pc =
    FIdle | FPosted nat
  | FNext | FPop | FBody wq_range | FUninit | FReport
  | FGlobal bool | FSlices bool | FSlice bool nat | FPopAny bool | FGot bool nat
  | FSelect bool | FVictim bool nat | FSize bool nat | FHalf bool nat bool uint64
  | FTry bool nat uint64 | FRange bool wq_range | FRefill reset_stage wq_range wq_range
  | FSub | FReturn | FUnset | FSync | FDecr | FMerge | FWait | FDone

text \<open>\<open>SReset g tid rg k\<close>: the splitter fills the local work of thread \<open>tid\<close> with \<open>rg\<close> and answers its request,
  then goes on at \<open>k\<close>.\<close>

datatype split_pc =
    SNone
  | SStart request_range
  | SMask request_range kaapi_bitmap_value256
  | SClaim request_range kaapi_bitmap_value256
  | SReply request_range kaapi_bitmap_value256
  | SLocal request_range
  | SSize request_range
  | SHalf request_range bool uint64
  | SSteal request_range int uint64
  | SServe request_range int uint64 wq_range
  | SReset reset_stage nat wq_range split_pc

text \<open>\<open>fs_ran\<close> lists the ranges whose body has ended; \<open>fs_bad\<close> records that a reply was committed to a
  request which its thread had not posted to that combiner.\<close>

record foreach_state =
  fs_gw :: kaapic_global_work
  fs_pc :: "nat \<Rightarrow> foreach_pc"
  fs_split :: "nat \<Rightarrow> split_pc"
  fs_thieves :: int
  fs_ran :: "wq_range list"
  fs_bad :: bool

definition set_pc :: "nat \<Rightarrow> foreach_pc \<Rightarrow> foreach_state \<Rightarrow> foreach_state" where
  "set_pc t p st = st\<lparr>fs_pc := (fs_pc st)(t := p)\<rparr>"

definition set_split :: "nat \<Rightarrow> split_pc \<Rightarrow> foreach_state \<Rightarrow> foreach_state" where
  "set_split v s st = st\<lparr>fs_split := (fs_split st)(v := s)\<rparr>"

definition set_lw :: "nat \<Rightarrow> kaapic_local_work \<Rightarrow> foreach_state \<Rightarrow> foreach_state" where
  "set_lw t l st = st\<lparr>fs_gw := upd_lwork t l (fs_gw st)\<rparr>"

definition set_slices :: "kaapi_bitmap256 \<Rightarrow> foreach_state \<Rightarrow> foreach_state" where
  "set_slices m st = st\<lparr>fs_gw := set_map m (fs_gw st)\<rparr>"

definition set_remain :: "uint64 \<Rightarrow> foreach_state \<Rightarrow> foreach_state" where
  "set_remain r st = st\<lparr>fs_gw := (fs_gw st)\<lparr>gw_workremain := r\<rparr>\<rparr>"

definition add_workerdone :: "int \<Rightarrow> foreach_state \<Rightarrow> foreach_state" where
  "add_workerdone k st = st\<lparr>fs_gw := (fs_gw st)\<lparr>gw_workerdone := gw_workerdone (fs_gw st) + k\<rparr>\<rparr>"

definition add_thieves :: "int \<Rightarrow> foreach_state \<Rightarrow> foreach_state" where
  "add_thieves k st = st\<lparr>fs_thieves := fs_thieves st + k\<rparr>"

abbreviation lw_of :: "foreach_state \<Rightarrow> nat \<Rightarrow> kaapic_local_work" where
  "lw_of st t \<equiv> gw_lwork (fs_gw st) t"

abbreviation slices_of :: "foreach_state \<Rightarrow> kaapi_bitmap256" where
  "slices_of st \<equiv> wa_map (gw_wa (fs_gw st))"

abbreviation remain_of :: "foreach_state \<Rightarrow> uint64" where
  "remain_of st \<equiv> gw_workremain (fs_gw st)"

abbreviation sgrain_of :: "foreach_state \<Rightarrow> uint64" where
  "sgrain_of st \<equiv> seq_grain (gw_wi (fs_gw st))"

abbreviation pgrain_of :: "foreach_state \<Rightarrow> uint64" where
  "pgrain_of st \<equiv> par_grain (gw_wi (fs_gw st))"

section \<open>The size of a queue, in two reads\<close>

definition bound_of :: "bool \<Rightarrow> kaapi_workqueue \<Rightarrow> uint64" where
  "bound_of c q = (if c then rep_beg q else rep_end q)"

definition size_with :: "bool \<Rightarrow> uint64 \<Rightarrow> kaapi_workqueue \<Rightarrow> uint64" where
  "size_with c x q = kaapi_workqueue_size (if c then q\<lparr>rep_beg := x\<rparr> else q\<lparr>rep_end := x\<rparr>)"

lemma size_with_bound: "size_with c (bound_of c q) q = kaapi_workqueue_size q"
  by (simp add: size_with_def bound_of_def)

section \<open>The steps of a thread\<close>

text \<open>The lock of thread \<open>t\<close>'s queue: the thread holds it while it refills, or a combiner while it splits.\<close>

fun refilling :: "foreach_pc \<Rightarrow> bool" where
  "refilling (FRefill _ _ _) = True"
| "refilling _ = False"

definition queue_free :: "nat \<Rightarrow> foreach_state \<Rightarrow> bool" where
  "queue_free t st \<longleftrightarrow> fs_split st t = SNone \<and> \<not> refilling (fs_pc st t)"

inductive worker_step :: "nat \<Rightarrow> nat \<Rightarrow> nat \<Rightarrow> foreach_state \<Rightarrow> foreach_state \<Rightarrow> bool"
  for N master t where
  next_stop: "fs_pc st t = FNext \<Longrightarrow> remain_of st = 0 \<or> sgrain_of st = 0 \<Longrightarrow>
    worker_step N master t st (set_pc t FSub st)"
| next_go: "fs_pc st t = FNext \<Longrightarrow> remain_of st \<noteq> 0 \<Longrightarrow> sgrain_of st \<noteq> 0 \<Longrightarrow>
    worker_step N master t st (set_pc t FPop st)"
| pop_some: "fs_pc st t = FPop \<Longrightarrow> kaapi_workqueue_pop (lw_cr (lw_of st t)) (sgrain_of st) = (Inr (i, j), q) \<Longrightarrow>
    worker_step N master t st (set_pc t (FBody (i, j))
      (set_lw t ((lw_of st t)\<lparr>lw_cr := q, lw_workdone := lw_workdone (lw_of st t) + (j - i)\<rparr>) st))"
| pop_none: "fs_pc st t = FPop \<Longrightarrow> kaapi_workqueue_pop (lw_cr (lw_of st t)) (sgrain_of st) = (Inl e, q) \<Longrightarrow>
    worker_step N master t st (set_pc t FUninit (set_lw t ((lw_of st t)\<lparr>lw_cr := q\<rparr>) st))"
| uninit: "fs_pc st t = FUninit \<Longrightarrow>
    worker_step N master t st (set_pc t FReport (set_lw t ((lw_of st t)\<lparr>lw_init := False\<rparr>) st))"
| body: "fs_pc st t = FBody rg \<Longrightarrow>
    worker_step N master t st (set_pc t FNext (st\<lparr>fs_ran := rg # fs_ran st\<rparr>))"
| report: "fs_pc st t = FReport \<Longrightarrow>
    worker_step N master t st (set_pc t (FGlobal True) (set_lw t ((lw_of st t)\<lparr>lw_workdone := 0\<rparr>)
      (set_remain (remain_of st - lw_workdone (lw_of st t)) st)))"
| global_end: "fs_pc st t = FGlobal b \<Longrightarrow> remain_of st = 0 \<Longrightarrow>
    worker_step N master t st (set_pc t (if b then FSub else FReturn) st)"
| global_go: "fs_pc st t = FGlobal b \<Longrightarrow> remain_of st \<noteq> 0 \<Longrightarrow>
    worker_step N master t st (set_pc t (FSlices b) st)"
| slices_none: "fs_pc st t = FSlices b \<Longrightarrow> kaapi_bitmap_first1_256 (slices_of st) = 0 \<Longrightarrow>
    worker_step N master t st (set_pc t (FSelect b) st)"
| slices_some: "fs_pc st t = FSlices b \<Longrightarrow> kaapi_bitmap_first1_256 (slices_of st) = Suc k \<Longrightarrow>
    worker_step N master t st (set_pc t (FSlice b k) st)"
| slice_unmapped: "fs_pc st t = FSlice b k \<Longrightarrow> tid2pos (gw_wa (fs_gw st)) k = - 1 \<Longrightarrow>
    worker_step N master t st (set_pc t (FPopAny b) st)"
| slice_pop: "fs_pc st t = FSlice b k \<Longrightarrow> tid2pos (gw_wa (fs_gw st)) k \<noteq> - 1 \<Longrightarrow>
    pos = unat (tid2pos (gw_wa (fs_gw st)) k) \<Longrightarrow> kaapi_bitmap_unset_256 (slices_of st) pos = (r, m) \<Longrightarrow>
    worker_step N master t st (set_pc t (if r = 0 then FGot b pos else FPopAny b) (set_slices m st))"
| popany: "fs_pc st t = FPopAny b \<Longrightarrow> kaapi_bitmap_first1_and_zero_256 (\<lambda>_ m. m) (slices_of st) = (k, m) \<Longrightarrow>
    worker_step N master t st (set_pc t
      (if k \<noteq> 0 then FRange b (slice_of (gw_wa (fs_gw st)) (k - 1))
       else if kaapi_bitmap_empty_256 m then FSelect b else FPopAny b) (set_slices m st))"
| got: "fs_pc st t = FGot b pos \<Longrightarrow>
    worker_step N master t st (set_pc t
      (if remain_of st = 0 then FSelect b else FRange b (slice_of (gw_wa (fs_gw st)) pos)) st)"
| select_end: "fs_pc st t = FSelect b \<Longrightarrow> remain_of st = 0 \<Longrightarrow>
    worker_step N master t st (set_pc t (FGlobal b) st)"
| select_victim: "fs_pc st t = FSelect b \<Longrightarrow> remain_of st \<noteq> 0 \<Longrightarrow> v < N \<Longrightarrow> v \<noteq> t \<Longrightarrow>
    worker_step N master t st (set_pc t (FVictim b v) st)"
| victim_init: "fs_pc st t = FVictim b v \<Longrightarrow>
    worker_step N master t st (set_pc t (if lw_init (lw_of st v) then FSize b v else FSelect b) st)"
| victim_bound: "fs_pc st t = FSize b v \<Longrightarrow>
    worker_step N master t st (set_pc t (FHalf b v c (bound_of c (lw_cr (lw_of st v)))) st)"
| victim_size: "fs_pc st t = FHalf b v c x \<Longrightarrow> r = size_with c x (lw_cr (lw_of st v)) \<Longrightarrow>
    worker_step N master t st (set_pc t
      (if r \<le>s pgrain_of st then FSelect b else FTry b v (c_div r 2)) st)"
| try_some: "fs_pc st t = FTry b v u \<Longrightarrow> queue_free v st \<Longrightarrow> kaapic_local_work_steal (lw_of st v) u = (Some rg, l) \<Longrightarrow>
    worker_step N master t st (set_pc t (FRange b rg) (set_lw v l st))"
| try_none: "fs_pc st t = FTry b v u \<Longrightarrow> queue_free v st \<Longrightarrow> kaapic_local_work_steal (lw_of st v) u = (None, l) \<Longrightarrow>
    worker_step N master t st (set_pc t (FSelect b) (set_lw v l st))"
| range_small: "fs_pc st t = FRange b (i, j) \<Longrightarrow> j - i \<le>s sgrain_of st \<Longrightarrow>
    worker_step N master t st (set_pc t (FBody (i, j))
      (set_lw t ((lw_of st t)\<lparr>lw_workdone := lw_workdone (lw_of st t) + (j - i)\<rparr>) st))"
| range_large: "fs_pc st t = FRange b (i, j) \<Longrightarrow> \<not> j - i \<le>s sgrain_of st \<Longrightarrow>
    fs_split st t = SNone \<Longrightarrow>
    worker_step N master t st (set_pc t (FRefill RBeg (i, i + sgrain_of st) (i + sgrain_of st, j)) st)"
| refill: "fs_pc st t = FRefill g a r \<Longrightarrow> g \<in> {RBeg, REnd, RInit} \<Longrightarrow>
    worker_step N master t st (set_pc t (FRefill (reset_next g) a r) (set_lw t (reset_store g r (lw_of st t)) st))"
| refill_end: "fs_pc st t = FRefill RPush (i, j) r \<Longrightarrow>
    worker_step N master t st (set_pc t (FBody (i, j))
      (set_lw t ((lw_of st t)\<lparr>lw_workdone := lw_workdone (lw_of st t) + (j - i)\<rparr>) st))"
| sub: "fs_pc st t = FSub \<Longrightarrow> r = remain_of st - lw_workdone (lw_of st t) \<Longrightarrow>
    worker_step N master t st (if r = 0 then set_pc t FReturn (set_remain r st)
      else set_pc t (FGlobal False) (set_lw t ((lw_of st t)\<lparr>lw_workdone := 0\<rparr>) (set_remain r st)))"
| return: "fs_pc st t = FReturn \<Longrightarrow>
    worker_step N master t st (set_pc t FUnset (set_lw t ((lw_of st t)\<lparr>lw_workdone := 0, lw_init := False\<rparr>) st))"
| unset: "fs_pc st t = FUnset \<Longrightarrow> worker_step N master t st (set_pc t FSync st)"
| sync: "fs_pc st t = FSync \<Longrightarrow> fs_split st t = SNone \<Longrightarrow>
    worker_step N master t st (set_pc t (if t = master then FMerge else FDecr) st)"
| decr: "fs_pc st t = FDecr \<Longrightarrow>
    worker_step N master t st (set_pc t FMerge (add_workerdone (- 1) st))"
| merge_thief: "fs_pc st t = FMerge \<Longrightarrow> t \<noteq> master \<Longrightarrow>
    worker_step N master t st (set_pc t FIdle (add_thieves (- 1) st))"
| merge_master: "fs_pc st t = FMerge \<Longrightarrow> t = master \<Longrightarrow> fs_thieves st = 0 \<Longrightarrow>
    worker_step N master t st (set_pc t FWait st)"
| wait: "fs_pc st t = FWait \<Longrightarrow> gw_workerdone (fs_gw st) \<le> 0 \<Longrightarrow>
    worker_step N master t st (set_pc t FDone st)"

section \<open>The steps of a splitter\<close>

text \<open>A task is splittable from its start until \<^verbatim>\<open>kaapi_task_unset_splittable\<close>.\<close>

fun splittable :: "foreach_pc \<Rightarrow> bool" where
  "splittable FIdle = False"
| "splittable (FPosted _) = False"
| "splittable FSync = False"
| "splittable FDecr = False"
| "splittable FMerge = False"
| "splittable FWait = False"
| "splittable FDone = False"
| "splittable _ = True"

text \<open>The loop over the copy of the iterator, which collects the positions of the requests' threads.\<close>

definition zero_mask :: kaapi_bitmap_value256 where
  "zero_mask = \<lparr>vproc256_0 = 0, vproc256_1 = 0, vproc256_2 = 0, vproc256_3 = 0\<rparr>"

definition put_pos :: "kaapic_work_distribution \<Rightarrow> nat \<Rightarrow> kaapi_bitmap_value256 \<Rightarrow> kaapi_bitmap_value256" where
  "put_pos wa ident msk =
     (if tid2pos wa ident = - 1 then msk else kaapi_bitmap_value_set_256 msk (unat (tid2pos wa ident)))"

definition request_mask :: "kaapic_work_distribution \<Rightarrow> request_range \<Rightarrow> kaapi_bitmap_value256" where
  "request_mask wa lri =
     (case serve_requests kaapi_bitmap_value_first1_and_zero_256 257 lri of
        None \<Rightarrow> zero_mask | Some rs \<Rightarrow> fold (put_pos wa) rs zero_mask)"

text \<open>\<^verbatim>\<open>(kaapi_bitmap_value_t*)&gwork->wa.map\<close>.\<close>

definition map_value :: "kaapi_bitmap256 \<Rightarrow> kaapi_bitmap_value256" where
  "map_value b = \<lparr>vproc256_0 = proc256_0 b, vproc256_1 = proc256_1 b,
     vproc256_2 = proc256_2 b, vproc256_3 = proc256_3 b\<rparr>"

text \<open>How many requests to serve from a local work of \<open>range_size\<close> iterations, and the size of a part.\<close>

definition split_plan :: "uint64 \<Rightarrow> uint64 \<Rightarrow> nat \<Rightarrow> (int \<times> uint64) option" where
  "split_plan range_size pgrain cnt =
     (let nreq = int cnt;
          unit_size = c_div range_size (word_of_int (nreq + 1))
      in if unit_size <s pgrain
         then let nreq = sint (ucast (c_div range_size pgrain - 1) :: uint32)
              in if nreq = 0 then None else Some (nreq, pgrain)
         else Some (nreq, unit_size))"

text \<open>The commit of a reply to the request of thread \<open>tid\<close>, whose task runs the thief's entry point; and the
  end of the splitter: the requests left in the range are answered that there is nothing to steal.\<close>

definition commit_reply :: "nat \<Rightarrow> nat \<Rightarrow> foreach_state \<Rightarrow> foreach_state" where
  "commit_reply v tid st =
     (if fs_pc st tid = FPosted v then set_pc tid FNext st else st\<lparr>fs_bad := True\<rparr>)"

definition split_end :: "nat \<Rightarrow> request_range \<Rightarrow> foreach_state \<Rightarrow> foreach_state" where
  "split_end v lri st =
     set_split v SNone (st\<lparr>fs_pc := (\<lambda>t. if t \<in> lri_pending bits256 lri then FIdle else fs_pc st t)\<rparr>)"

inductive split_step :: "nat \<Rightarrow> nat \<Rightarrow> foreach_state \<Rightarrow> foreach_state \<Rightarrow> bool" for N v where
  split_begin: "splittable (fs_pc st v) \<Longrightarrow> queue_free v st \<Longrightarrow>
    lri_inv bits256 lri \<Longrightarrow> P = lri_pending bits256 lri \<Longrightarrow> P \<noteq> {} \<Longrightarrow> \<forall>t \<in> P. t < N \<and> fs_pc st t = FIdle \<Longrightarrow>
    split_step N v st (set_split v (SStart lri)
      (st\<lparr>fs_pc := (\<lambda>t. if t \<in> P then FPosted v else fs_pc st t)\<rparr>))"
| start: "fs_split st v = SStart lri \<Longrightarrow>
    split_step N v st (if remain_of st = 0 \<or> \<not> gw_body (fs_gw st) then split_end v lri st
      else set_split v (SMask lri (request_mask (gw_wa (fs_gw st)) lri)) st)"
| intersect: "fs_split st v = SMask lri msk \<Longrightarrow>
    split_step N v st (set_split v
      (if kaapi_bitmap_value_empty_256 (kaapi_bitmap_value_and_256 msk (map_value (slices_of st)))
       then SLocal lri else SClaim lri msk) st)"
| claim: "fs_split st v = SClaim lri msk \<Longrightarrow> negmask = kaapi_bitmap_value_neg_256 msk msk \<Longrightarrow>
    kaapi_bitmap_and_256 msk (slices_of st) negmask = (replymask, m) \<Longrightarrow>
    split_step N v st (set_split v (SReply lri (kaapi_bitmap_value_and_256 replymask msk)) (set_slices m st))"
| reply_some: "fs_split st v = SReply lri rm \<Longrightarrow> kaapi_bitmap_value_first1_and_zero_256 rm = (Suc tid, rm') \<Longrightarrow>
    kaapic_global_getwork (fs_gw st) tid = Some rg \<Longrightarrow>
    lri' = kaapi_listrequest_iterator_unset_at kaapi_bitmap_value_unset_256 kaapi_bitmap_value_first1_and_zero_256 lri tid \<Longrightarrow>
    split_step N v st (set_split v (SReset RCount tid rg (SReply lri' rm')) st)"
| reply_none: "fs_split st v = SReply lri rm \<Longrightarrow> kaapi_bitmap_value_first1_and_zero_256 rm = (Suc tid, rm') \<Longrightarrow>
    kaapic_global_getwork (fs_gw st) tid = None \<Longrightarrow>
    split_step N v st (set_split v (SReply lri rm') st)"
| reply_end: "fs_split st v = SReply lri rm \<Longrightarrow> kaapi_bitmap_value_first1_and_zero_256 rm = (0, rm') \<Longrightarrow>
    split_step N v st (if lri_empty256 lri then split_end v lri st else set_split v (SLocal lri) st)"
| local_init: "fs_split st v = SLocal lri \<Longrightarrow>
    split_step N v st (if lw_init (lw_of st v) then set_split v (SSize lri) st else split_end v lri st)"
| local_bound: "fs_split st v = SSize lri \<Longrightarrow>
    split_step N v st (set_split v (SHalf lri c (bound_of c (lw_cr (lw_of st v)))) st)"
| local_size: "fs_split st v = SHalf lri c x \<Longrightarrow> r = size_with c x (lw_cr (lw_of st v)) \<Longrightarrow>
    split_step N v st (if r \<le>s pgrain_of st then split_end v lri st
      else case split_plan r (pgrain_of st)
                  (kaapi_listrequest_iterator_count kaapi_bitmap_value_count_256 lri) of
             None \<Rightarrow> split_end v lri st
           | Some (nreq, u) \<Rightarrow> set_split v (SSteal lri nreq u) st)"
| local_steal: "fs_split st v = SSteal lri nreq u \<Longrightarrow>
    kaapic_local_work_steal (lw_of st v) (word_of_int nreq * u) = (r, l) \<Longrightarrow>
    split_step N v st (case r of None \<Rightarrow> split_end v lri (set_lw v l st)
      | Some rg \<Rightarrow> set_split v (SServe lri nreq u rg) (set_lw v l st))"
| serve: "fs_split st v = SServe lri nreq u (i, j) \<Longrightarrow> 0 < nreq \<Longrightarrow>
    kaapi_listrequest_iterator_get lri = Some tid \<Longrightarrow>
    split_step N v st (set_split v (SReset RBeg tid (j - u, j) (SServe (lri_next256 lri) (nreq - 1) u (i, j - u))) st)"
| serve_end: "fs_split st v = SServe lri nreq u rg \<Longrightarrow> lri_empty256 lri \<or> nreq \<le> 0 \<Longrightarrow>
    split_step N v st (split_end v lri st)"
| count: "fs_split st v = SReset RCount tid rg k \<Longrightarrow>
    split_step N v st (set_split v (SReset RBeg tid rg k) (add_workerdone 1 st))"
| store: "fs_split st v = SReset g tid rg k \<Longrightarrow> g \<in> {RBeg, REnd, RInit} \<Longrightarrow>
    split_step N v st (set_split v (SReset (reset_next g) tid rg k) (set_lw tid (reset_store g rg (lw_of st tid)) st))"
| push: "fs_split st v = SReset RPush tid rg k \<Longrightarrow>
    split_step N v st (set_split v (SReset RCommit tid rg k) (add_thieves 1 st))"
| commit: "fs_split st v = SReset RCommit tid rg k \<Longrightarrow>
    split_step N v st (set_split v k (commit_reply v tid st))"

inductive foreach_step :: "nat \<Rightarrow> nat \<Rightarrow> foreach_state \<Rightarrow> foreach_state \<Rightarrow> bool" for N master where
  by_worker: "t < N \<Longrightarrow> worker_step N master t st st' \<Longrightarrow> foreach_step N master st st'"
| by_splitter: "v < N \<Longrightarrow> split_step N v st st' \<Longrightarrow> foreach_step N master st st'"

text \<open>The state in which \<^verbatim>\<open>kaapic_foreach_workinit\<close> leaves the structure, the master about to loop.\<close>

definition foreach_start :: "nat \<Rightarrow> kaapic_global_work \<Rightarrow> foreach_state" where
  "foreach_start master gw =
     \<lparr>fs_gw = gw, fs_pc = (\<lambda>_. FIdle)(master := FNext), fs_split = (\<lambda>_. SNone),
      fs_thieves = 0, fs_ran = [], fs_bad = False\<rparr>"

definition foreach_reachable :: "nat \<Rightarrow> nat \<Rightarrow> kaapic_global_work \<Rightarrow> foreach_state \<Rightarrow> bool" where
  "foreach_reachable N master gw st \<longleftrightarrow> (foreach_step N master)\<^sup>*\<^sup>* (foreach_start master gw) st"

end
