(* ===== verification/Foreach_Inv.thy ===== *)
theory Foreach_Inv
  imports Foreach_Step
begin

text \<open>
  The invariant of a parallel loop that thread 0's numbering serves (\<open>identity_wa\<close>): every iteration is
  in exactly one place (a slice nobody has claimed, a local queue, a range in the hands of a thread or of
  a splitter, a running body, an ended body), \<^verbatim>\<open>workremain\<close> counts the iterations whose execution has not
  been reported, and the counters of thieves bound the threads that still use the structure.  While a
  queue is reset its bounds may be anything; then no thread is about to steal from it (\<open>untouched\<close>), for the
  threads that splitters answer have not taken part in the loop before, and the lock keeps the others
  away from a queue that its own thread refills.
\<close>

section \<open>What the parts of a state hold\<close>

fun pc_body :: "foreach_pc \<Rightarrow> int multiset" where
  "pc_body (FBody rg) = range_mset sint rg"
| "pc_body _ = {#}"

text \<open>The work in a local queue is the queue's from the moment \<^verbatim>\<open>init\<close> is set.\<close>

definition published :: "reset_stage \<Rightarrow> bool" where
  "published g \<longleftrightarrow> g \<in> {RPush, RCommit}"

lemma published_simps [simp]:
  "\<not> published RCount" "\<not> published RBeg" "\<not> published REnd" "\<not> published RInit"
  "published RPush" "published RCommit"
  by (simp_all add: published_def)

fun pc_hold :: "kaapic_work_distribution \<Rightarrow> foreach_pc \<Rightarrow> int multiset" where
  "pc_hold wa (FGot _ p) = range_mset sint (slice_of wa p)"
| "pc_hold wa (FRange _ rg) = range_mset sint rg"
| "pc_hold wa (FRefill g a r) = range_mset sint a + (if published g then {#} else range_mset sint r)"
| "pc_hold wa _ = {#}"

definition lw_left :: "kaapic_local_work \<Rightarrow> int multiset" where
  "lw_left l = (if lw_init l then mset_set {li_lo (lw_cr l)..<li_hi (lw_cr l)} else {#})"

definition slices_mset :: "kaapic_work_distribution \<Rightarrow> nat set \<Rightarrow> int multiset" where
  "slices_mset wa P = (\<Sum>p\<in>P. range_mset sint (slice_of wa p))"

fun split_hold :: "kaapic_work_distribution \<Rightarrow> split_pc \<Rightarrow> int multiset" where
  "split_hold wa (SReply _ rm) = slices_mset wa (bits256 rm)"
| "split_hold wa (SServe _ _ _ rg) = range_mset sint rg"
| "split_hold wa (SReset g _ rg k) = (if published g then {#} else range_mset sint rg) + split_hold wa k"
| "split_hold wa _ = {#}"

definition work_of :: "foreach_state \<Rightarrow> nat \<Rightarrow> int multiset" where
  "work_of st t = pc_body (fs_pc st t) + pc_hold (gw_wa (fs_gw st)) (fs_pc st t) + lw_left (lw_of st t)
     + split_hold (gw_wa (fs_gw st)) (fs_split st t)"

definition ran_mset :: "foreach_state \<Rightarrow> int multiset" where
  "ran_mset st = sum_list (map (range_mset sint) (fs_ran st))"

definition fs_work :: "nat \<Rightarrow> foreach_state \<Rightarrow> int multiset" where
  "fs_work N st = ran_mset st + (\<Sum>t<N. work_of st t) + slices_mset (gw_wa (fs_gw st)) (abits256 (slices_of st))"

text \<open>The iterations that a thread has executed and not yet subtracted from \<^verbatim>\<open>workremain\<close>.\<close>

definition slack_of :: "foreach_state \<Rightarrow> nat \<Rightarrow> int" where
  "slack_of st t = sint (lw_workdone (lw_of st t)) - int (size (pc_body (fs_pc st t)))"

section \<open>Sums over the threads\<close>

lemma account1:
  fixes f f' :: "nat \<Rightarrow> 'a::cancel_comm_monoid_add"
  assumes "t < N" and "\<And>s. s < N \<Longrightarrow> s \<noteq> t \<Longrightarrow> f' s = f s" and "X' + f' t + S' = X + f t + S"
  shows "X' + (\<Sum>s<N. f' s) + S' = X + (\<Sum>s<N. f s) + S"
proof -
  have "(\<Sum>s\<in>{..<N} - {t}. f' s) = (\<Sum>s\<in>{..<N} - {t}. f s)" using assms(2) by (intro sum.cong) auto
  then have "(\<Sum>s<N. f' s) = f' t + (\<Sum>s\<in>{..<N} - {t}. f s)"
    using assms(1) sum.remove [of "{..<N}" t f'] by simp
  moreover have "(\<Sum>s<N. f s) = f t + (\<Sum>s\<in>{..<N} - {t}. f s)"
    using assms(1) by (simp add: sum.remove)
  moreover have "X' + (f' t + R) + S' = X + (f t + R) + S" for R
    using arg_cong [OF assms(3), of "\<lambda>x. x + R"] by (simp add: ac_simps)
  ultimately show ?thesis by simp
qed

lemma account2:
  fixes f f' :: "nat \<Rightarrow> 'a::cancel_comm_monoid_add"
  assumes "t < N" "v < N" "t \<noteq> v" and "\<And>s. s < N \<Longrightarrow> s \<noteq> t \<Longrightarrow> s \<noteq> v \<Longrightarrow> f' s = f s"
    and "X' + (f' t + f' v) + S' = X + (f t + f v) + S"
  shows "X' + (\<Sum>s<N. f' s) + S' = X + (\<Sum>s<N. f s) + S"
proof -
  have v: "v \<in> {..<N} - {t}" using assms(2,3) by simp
  have "(\<Sum>s\<in>{..<N} - {t} - {v}. f' s) = (\<Sum>s\<in>{..<N} - {t} - {v}. f s)"
    using assms(4) by (intro sum.cong) auto
  then have "(\<Sum>s<N. f' s) = f' t + f' v + (\<Sum>s\<in>{..<N} - {t} - {v}. f s)"
    using assms(1) v sum.remove [of "{..<N}" t f'] sum.remove [of "{..<N} - {t}" v f']
    by (simp add: add.assoc)
  moreover have "(\<Sum>s<N. f s) = f t + f v + (\<Sum>s\<in>{..<N} - {t} - {v}. f s)"
    using assms(1) v sum.remove [of "{..<N}" t f] sum.remove [of "{..<N} - {t}" v f]
    by (simp add: add.assoc)
  moreover have "X' + (f' t + f' v + R) + S' = X + (f t + f v + R) + S" for R
    using arg_cong [OF assms(5), of "\<lambda>x. x + R"] by (simp add: ac_simps)
  ultimately show ?thesis by simp
qed

section \<open>The invariant\<close>

text \<open>The bound on the loop's bounds keeps every sum and difference of indices within the 64 bits.\<close>

definition ibound :: int where "ibound = 2 ^ 61"

definition range_ok :: "wq_range \<Rightarrow> bool" where
  "range_ok rg \<longleftrightarrow> - ibound \<le> sint (fst rg) \<and> sint (fst rg) \<le> sint (snd rg) \<and> sint (snd rg) \<le> ibound"

definition queue_ok :: "kaapi_workqueue \<Rightarrow> bool" where
  "queue_ok q \<longleftrightarrow> li_ready q \<and> - ibound \<le> li_lo q \<and> li_hi q \<le> ibound"

fun pc_ok :: "nat \<Rightarrow> nat \<Rightarrow> nat \<Rightarrow> foreach_pc \<Rightarrow> bool" where
  "pc_ok N n t (FBody rg) = range_ok rg"
| "pc_ok N n t (FRange _ rg) = range_ok rg"
| "pc_ok N n t (FGot _ p) = (p < n)"
| "pc_ok N n t (FSlice _ p) = (p < n)"
| "pc_ok N n t (FVictim _ v) = (v < N \<and> v \<noteq> t)"
| "pc_ok N n t (FSize _ v) = (v < N \<and> v \<noteq> t)"
| "pc_ok N n t (FHalf _ v _ x) = (v < N \<and> v \<noteq> t \<and> - ibound \<le> sint x \<and> sint x \<le> ibound)"
| "pc_ok N n t (FRefill g a r) = (g \<in> {RBeg, REnd, RInit, RPush} \<and> range_ok a \<and> range_ok r)"
| "pc_ok N n t (FTry _ v u) = (v < N \<and> v \<noteq> t \<and> 0 < sint u \<and> sint u \<le> 2 * ibound)"
| "pc_ok N n t (FPosted v) = (v < N)"
| "pc_ok N n t _ = True"

text \<open>The points at which \<^verbatim>\<open>init\<close> is 0.\<close>

fun uninit :: "foreach_pc \<Rightarrow> bool" where
  "uninit FNext = False"
| "uninit FPop = False"
| "uninit (FBody _) = False"
| "uninit FUninit = False"
| "uninit (FRefill _ _ _) = False"
| "uninit FSub = False"
| "uninit FReturn = False"
| "uninit _ = True"

fun final :: "foreach_pc \<Rightarrow> bool" where
  "final FSub = True"
| "final FReturn = True"
| "final FUnset = True"
| "final FSync = True"
| "final FDecr = True"
| "final FMerge = True"
| "final FWait = True"
| "final FDone = True"
| "final _ = False"

fun busy :: "foreach_pc \<Rightarrow> bool" where
  "busy FIdle = False"
| "busy (FPosted _) = False"
| "busy _ = True"

fun split_lri :: "split_pc \<Rightarrow> request_range option" where
  "split_lri SNone = None"
| "split_lri (SStart lri) = Some lri"
| "split_lri (SMask lri _) = Some lri"
| "split_lri (SClaim lri _) = Some lri"
| "split_lri (SReply lri _) = Some lri"
| "split_lri (SLocal lri) = Some lri"
| "split_lri (SSize lri) = Some lri"
| "split_lri (SSteal lri _ _) = Some lri"
| "split_lri (SHalf lri _ _) = Some lri"
| "split_lri (SServe lri _ _ _) = Some lri"
| "split_lri (SReset _ _ _ k) = split_lri k"

text \<open>The threads whose requests the splitter has not answered.\<close>

fun requests :: "split_pc \<Rightarrow> nat set" where
  "requests (SReset _ tid _ k) = insert tid (requests k)"
| "requests s = (case split_lri s of None \<Rightarrow> {} | Some lri \<Rightarrow> lri_pending bits256 lri)"

fun in_loop :: "split_pc \<Rightarrow> bool" where
  "in_loop (SReply _ _) = True"
| "in_loop (SServe _ _ _ _) = True"
| "in_loop _ = False"

fun in_reset :: "split_pc \<Rightarrow> bool" where
  "in_reset (SReset _ _ _ _) = True"
| "in_reset _ = False"

lemma requests_lri: "split_lri s = Some lri \<Longrightarrow> \<not> in_reset s \<Longrightarrow> requests s = lri_pending bits256 lri"
  by (cases s) auto

fun split_ok :: "nat \<Rightarrow> nat \<Rightarrow> split_pc \<Rightarrow> bool" where
  "split_ok N n SNone = True"
| "split_ok N n (SStart lri) = (lri_pending bits256 lri \<noteq> {})"
| "split_ok N n (SMask lri msk) = (lri_pending bits256 lri \<noteq> {} \<and> bits256 msk = lri_pending bits256 lri \<inter> {..<n})"
| "split_ok N n (SClaim lri msk) = (bits256 msk = lri_pending bits256 lri \<inter> {..<n})"
| "split_ok N n (SReply lri rm) = (bits256 rm \<subseteq> lri_pending bits256 lri \<inter> {..<n})"
| "split_ok N n (SLocal lri) = (lri_pending bits256 lri \<noteq> {})"
| "split_ok N n (SSize lri) = (lri_pending bits256 lri \<noteq> {})"
| "split_ok N n (SHalf lri c x) = (lri_pending bits256 lri \<noteq> {} \<and> - ibound \<le> sint x \<and> sint x \<le> ibound)"
| "split_ok N n (SSteal lri nreq u) = (0 < nreq \<and> nreq \<le> int (card (lri_pending bits256 lri)) \<and>
     0 < sint u \<and> nreq * sint u \<le> 2 * ibound)"
| "split_ok N n (SServe lri nreq u rg) = (0 \<le> nreq \<and> nreq \<le> int (card (lri_pending bits256 lri)) \<and>
     0 < sint u \<and> sint (snd rg) - sint (fst rg) = nreq * sint u \<and> range_ok rg)"
| "split_ok N n (SReset g tid rg k) = (range_ok rg \<and> tid \<notin> requests k \<and> in_loop k \<and> split_ok N n k)"

text \<open>The reset of a local work that is under way: by its thread, or by the splitter its thread posted a request to.\<close>

fun reset_phase :: "nat \<Rightarrow> split_pc \<Rightarrow> (reset_stage \<times> wq_range) option" where
  "reset_phase t (SReset g tid rg _) = (if tid = t then Some (g, rg) else None)"
| "reset_phase t _ = None"

fun phase :: "(nat \<Rightarrow> split_pc) \<Rightarrow> nat \<Rightarrow> foreach_pc \<Rightarrow> (reset_stage \<times> wq_range) option" where
  "phase sp t (FPosted v) = reset_phase t (sp v)"
| "phase sp t (FRefill g a r) = Some (g, r)"
| "phase sp t _ = None"

abbreviation phase_of :: "foreach_state \<Rightarrow> nat \<Rightarrow> (reset_stage \<times> wq_range) option" where
  "phase_of st t \<equiv> phase (fs_split st) t (fs_pc st t)"

fun phase_in :: "reset_stage set \<Rightarrow> (reset_stage \<times> wq_range) option \<Rightarrow> bool" where
  "phase_in G None = False"
| "phase_in G (Some (g, rg)) = (g \<in> G)"

definition in_bounds :: "kaapi_workqueue \<Rightarrow> bool" where
  "in_bounds q \<longleftrightarrow> - ibound \<le> li_lo q \<and> li_lo q \<le> ibound \<and> - ibound \<le> li_hi q \<and> li_hi q \<le> ibound \<and> wq_lock q \<noteq> None"

fun queue_phase :: "(reset_stage \<times> wq_range) option \<Rightarrow> kaapic_local_work \<Rightarrow> bool" where
  "queue_phase None l = (queue_ok (lw_cr l) \<and> (\<not> lw_init l \<longrightarrow> li_lo (lw_cr l) = li_hi (lw_cr l)))"
| "queue_phase (Some (g, rg)) l = (range_ok rg \<and> (lw_init l \<longleftrightarrow> published g) \<and> (case g of
     RCount \<Rightarrow> queue_ok (lw_cr l) \<and> li_lo (lw_cr l) = li_hi (lw_cr l)
   | RBeg \<Rightarrow> queue_ok (lw_cr l) \<and> li_lo (lw_cr l) = li_hi (lw_cr l)
   | REnd \<Rightarrow> in_bounds (lw_cr l) \<and> rep_beg (lw_cr l) = fst rg
   | RInit \<Rightarrow> in_bounds (lw_cr l) \<and> rep_beg (lw_cr l) = fst rg \<and> rep_end (lw_cr l) = snd rg
   | _ \<Rightarrow> queue_ok (lw_cr l)))"

text \<open>No thread that looks at a queue on the way to a steal looks at the one of thread \<open>t\<close>, nor will it while
  \<^verbatim>\<open>init\<close> is 0.  The splitters may reset only such queues; while there is work, idle threads have them.\<close>

fun aims :: "foreach_pc \<Rightarrow> nat option" where
  "aims (FSize _ v) = Some v"
| "aims (FHalf _ v _ _) = Some v"
| "aims (FTry _ v _) = Some v"
| "aims _ = None"

definition untouched :: "nat \<Rightarrow> foreach_state \<Rightarrow> nat \<Rightarrow> bool" where
  "untouched N st t \<longleftrightarrow> \<not> lw_init (lw_of st t) \<and> (\<forall>s < N. aims (fs_pc st s) \<noteq> Some t)"

fun resettable :: "bool \<Rightarrow> nat \<Rightarrow> split_pc \<Rightarrow> bool" where
  "resettable w t (SStart _) = w"
| "resettable w t (SReset g tid _ _) = (tid = t \<longrightarrow> \<not> published g)"
| "resettable w t _ = True"

fun fresh :: "bool \<Rightarrow> (nat \<Rightarrow> split_pc) \<Rightarrow> nat \<Rightarrow> foreach_pc \<Rightarrow> bool" where
  "fresh w sp t FIdle = w"
| "fresh w sp t (FPosted v) = resettable w t (sp v)"
| "fresh w sp t _ = False"

definition inv_fresh :: "nat \<Rightarrow> foreach_state \<Rightarrow> bool" where
  "inv_fresh N st \<longleftrightarrow> (\<forall>t < N. fresh (remain_of st \<noteq> 0) (fs_split st) t (fs_pc st t) \<longrightarrow> untouched N st t)"

definition inv_static :: "nat \<Rightarrow> nat \<Rightarrow> int \<Rightarrow> int \<Rightarrow> foreach_state \<Rightarrow> bool" where
  "inv_static N n F L st \<longleftrightarrow> identity_wa N n F L (gw_wa (fs_gw st)) \<and> - ibound \<le> F \<and> L \<le> ibound
     \<and> 1 \<le> sint (sgrain_of st) \<and> sint (sgrain_of st) \<le> ibound \<and> 1 \<le> sint (pgrain_of st)
     \<and> abits256 (slices_of st) \<subseteq> {..<n}"

definition thread_ok :: "nat \<Rightarrow> nat \<Rightarrow> uint64 \<Rightarrow> nat \<Rightarrow> foreach_pc \<Rightarrow> (reset_stage \<times> wq_range) option \<Rightarrow>
    kaapic_local_work \<Rightarrow> bool" where
  "thread_ok N n remain t p ph l \<longleftrightarrow> queue_phase ph l \<and> pc_ok N n t p \<and> (uninit p \<and> ph = None \<longrightarrow> \<not> lw_init l)
     \<and> (p = FUninit \<longrightarrow> li_lo (lw_cr l) = li_hi (lw_cr l)) \<and> (final p \<longrightarrow> remain = 0)"

definition inv_threads :: "nat \<Rightarrow> nat \<Rightarrow> foreach_state \<Rightarrow> bool" where
  "inv_threads N n st \<longleftrightarrow> (\<forall>t < N. thread_ok N n (remain_of st) t (fs_pc st t) (phase_of st t) (lw_of st t))"

text \<open>The points at which a combiner may be at work on the thread's local work.\<close>

definition under_split :: "foreach_pc \<Rightarrow> bool" where
  "under_split p \<longleftrightarrow> splittable p \<and> \<not> refilling p \<or> p = FSync"

definition inv_splits :: "nat \<Rightarrow> nat \<Rightarrow> foreach_state \<Rightarrow> bool" where
  "inv_splits N n st \<longleftrightarrow> (\<forall>v < N. split_ok N n (fs_split st v)
     \<and> (fs_split st v = SNone \<or> under_split (fs_pc st v))
     \<and> (\<forall>lri. split_lri (fs_split st v) = Some lri \<longrightarrow> lri_inv bits256 lri)
     \<and> requests (fs_split st v) = {t. t < N \<and> fs_pc st t = FPosted v})"

definition inv_work :: "nat \<Rightarrow> int \<Rightarrow> int \<Rightarrow> foreach_state \<Rightarrow> bool" where
  "inv_work N F L st \<longleftrightarrow> fs_work N st = mset_set {F..<L}"

definition inv_remain :: "nat \<Rightarrow> int \<Rightarrow> int \<Rightarrow> foreach_state \<Rightarrow> bool" where
  "inv_remain N F L st \<longleftrightarrow> sint (remain_of st) + int (size (ran_mset st)) = L - F + (\<Sum>t<N. slack_of st t)
     \<and> (\<Sum>t<N. slack_of st t) \<le> int (size (ran_mset st)) \<and> (\<forall>t < N. 0 \<le> slack_of st t)"

text \<open>The threads other than the master that use the structure, and those of them that still have to
  decrement \<^verbatim>\<open>workerdone\<close>; a splitter counts a thread before it commits the thread's task.\<close>

definition thieves_of :: "nat \<Rightarrow> nat \<Rightarrow> foreach_state \<Rightarrow> nat set" where
  "thieves_of N master st = {t. t < N \<and> t \<noteq> master \<and> (busy (fs_pc st t) \<or> phase_in {RCommit} (phase_of st t))}"

definition workers_of :: "nat \<Rightarrow> nat \<Rightarrow> foreach_state \<Rightarrow> nat set" where
  "workers_of N master st = {t. t < N \<and> t \<noteq> master \<and> (busy (fs_pc st t) \<and> fs_pc st t \<noteq> FMerge
     \<or> phase_in (- {RCount}) (phase_of st t))}"

definition inv_counts :: "nat \<Rightarrow> nat \<Rightarrow> foreach_state \<Rightarrow> bool" where
  "inv_counts N master st \<longleftrightarrow> master < N \<and> \<not> fs_bad st \<and> busy (fs_pc st master)
     \<and> (\<forall>t < N. t \<noteq> master \<longrightarrow> fs_pc st t \<noteq> FWait \<and> fs_pc st t \<noteq> FDone)
     \<and> fs_thieves st = int (card (thieves_of N master st))
     \<and> gw_workerdone (fs_gw st) \<le> int (card (workers_of N master st))
     \<and> (fs_pc st master \<in> {FWait, FDone} \<longrightarrow> fs_thieves st = 0)"

definition foreach_inv :: "nat \<Rightarrow> nat \<Rightarrow> nat \<Rightarrow> int \<Rightarrow> int \<Rightarrow> foreach_state \<Rightarrow> bool" where
  "foreach_inv N n master F L st \<longleftrightarrow> inv_static N n F L st \<and> inv_threads N n st \<and> inv_splits N n st
     \<and> inv_work N F L st \<and> inv_remain N F L st \<and> inv_counts N master st \<and> inv_fresh N st"

subsection \<open>The components of an updated state\<close>

lemma fs_set_pc [simp]:
  "fs_gw (set_pc t p st) = fs_gw st" "fs_pc (set_pc t p st) = (fs_pc st)(t := p)"
  "fs_split (set_pc t p st) = fs_split st" "fs_thieves (set_pc t p st) = fs_thieves st"
  "fs_ran (set_pc t p st) = fs_ran st" "fs_bad (set_pc t p st) = fs_bad st"
  by (simp_all add: set_pc_def)

lemma fs_set_split [simp]:
  "fs_gw (set_split v s st) = fs_gw st" "fs_pc (set_split v s st) = fs_pc st"
  "fs_split (set_split v s st) = (fs_split st)(v := s)" "fs_thieves (set_split v s st) = fs_thieves st"
  "fs_ran (set_split v s st) = fs_ran st" "fs_bad (set_split v s st) = fs_bad st"
  by (simp_all add: set_split_def)

lemma fs_set_lw [simp]:
  "gw_lwork (fs_gw (set_lw t l st)) = (gw_lwork (fs_gw st))(t := l)" "gw_wa (fs_gw (set_lw t l st)) = gw_wa (fs_gw st)"
  "gw_wi (fs_gw (set_lw t l st)) = gw_wi (fs_gw st)" "remain_of (set_lw t l st) = remain_of st"
  "gw_workerdone (fs_gw (set_lw t l st)) = gw_workerdone (fs_gw st)"
  "fs_pc (set_lw t l st) = fs_pc st" "fs_split (set_lw t l st) = fs_split st"
  "fs_thieves (set_lw t l st) = fs_thieves st" "fs_ran (set_lw t l st) = fs_ran st" "fs_bad (set_lw t l st) = fs_bad st"
  by (simp_all add: set_lw_def upd_lwork_def)

lemma fs_set_slices [simp]:
  "gw_lwork (fs_gw (set_slices m st)) = gw_lwork (fs_gw st)" "gw_wa (fs_gw (set_slices m st)) = (gw_wa (fs_gw st))\<lparr>wa_map := m\<rparr>"
  "gw_wi (fs_gw (set_slices m st)) = gw_wi (fs_gw st)" "remain_of (set_slices m st) = remain_of st"
  "gw_workerdone (fs_gw (set_slices m st)) = gw_workerdone (fs_gw st)"
  "fs_pc (set_slices m st) = fs_pc st" "fs_split (set_slices m st) = fs_split st"
  "fs_thieves (set_slices m st) = fs_thieves st" "fs_ran (set_slices m st) = fs_ran st" "fs_bad (set_slices m st) = fs_bad st"
  by (simp_all add: set_slices_def set_map_def)

lemma fs_set_remain [simp]:
  "gw_lwork (fs_gw (set_remain r st)) = gw_lwork (fs_gw st)" "gw_wa (fs_gw (set_remain r st)) = gw_wa (fs_gw st)"
  "gw_wi (fs_gw (set_remain r st)) = gw_wi (fs_gw st)" "remain_of (set_remain r st) = r"
  "gw_workerdone (fs_gw (set_remain r st)) = gw_workerdone (fs_gw st)"
  "fs_pc (set_remain r st) = fs_pc st" "fs_split (set_remain r st) = fs_split st"
  "fs_thieves (set_remain r st) = fs_thieves st" "fs_ran (set_remain r st) = fs_ran st" "fs_bad (set_remain r st) = fs_bad st"
  by (simp_all add: set_remain_def)

lemma fs_add_workerdone [simp]:
  "gw_lwork (fs_gw (add_workerdone k st)) = gw_lwork (fs_gw st)" "gw_wa (fs_gw (add_workerdone k st)) = gw_wa (fs_gw st)"
  "gw_wi (fs_gw (add_workerdone k st)) = gw_wi (fs_gw st)" "remain_of (add_workerdone k st) = remain_of st"
  "gw_workerdone (fs_gw (add_workerdone k st)) = gw_workerdone (fs_gw st) + k"
  "fs_pc (add_workerdone k st) = fs_pc st" "fs_split (add_workerdone k st) = fs_split st"
  "fs_thieves (add_workerdone k st) = fs_thieves st" "fs_ran (add_workerdone k st) = fs_ran st"
  "fs_bad (add_workerdone k st) = fs_bad st"
  by (simp_all add: add_workerdone_def)

lemma fs_add_thieves [simp]:
  "fs_gw (add_thieves k st) = fs_gw st" "fs_pc (add_thieves k st) = fs_pc st" "fs_split (add_thieves k st) = fs_split st"
  "fs_thieves (add_thieves k st) = fs_thieves st + k" "fs_ran (add_thieves k st) = fs_ran st"
  "fs_bad (add_thieves k st) = fs_bad st"
  by (simp_all add: add_thieves_def)

lemma fs_split_end [simp]:
  "fs_gw (split_end v lri st) = fs_gw st" "fs_split (split_end v lri st) = (fs_split st)(v := SNone)"
  "fs_pc (split_end v lri st) t = (if t \<in> lri_pending bits256 lri then FIdle else fs_pc st t)"
  "fs_thieves (split_end v lri st) = fs_thieves st" "fs_ran (split_end v lri st) = fs_ran st"
  "fs_bad (split_end v lri st) = fs_bad st"
  by (simp_all add: split_end_def)

lemma ran_simps [simp]:
  "ran_mset (set_pc t p st) = ran_mset st" "ran_mset (set_split v s st) = ran_mset st"
  "ran_mset (set_lw t l st) = ran_mset st" "ran_mset (set_slices m st) = ran_mset st"
  "ran_mset (set_remain r st) = ran_mset st" "ran_mset (add_workerdone k st) = ran_mset st"
  "ran_mset (split_end v lri st) = ran_mset st" "ran_mset (add_thieves k st) = ran_mset st"
  "ran_mset (st\<lparr>fs_ran := rg # rs\<rparr>) = range_mset sint rg + ran_mset (st\<lparr>fs_ran := rs\<rparr>)"
  "ran_mset (st\<lparr>fs_thieves := k\<rparr>) = ran_mset st" "ran_mset (st\<lparr>fs_pc := pcs\<rparr>) = ran_mset st"
  "ran_mset (st\<lparr>fs_bad := b\<rparr>) = ran_mset st"
  by (simp_all add: ran_mset_def)

lemma slice_of_map [simp]: "slice_of (wa\<lparr>wa_map := m\<rparr>) = slice_of wa"
  by (simp add: slice_of_def fun_eq_iff)

lemma wa_map_irrelevant [simp]:
  "pc_hold (wa\<lparr>wa_map := m\<rparr>) p = pc_hold wa p" "slices_mset (wa\<lparr>wa_map := m\<rparr>) P = slices_mset wa P"
  "split_hold (wa\<lparr>wa_map := m\<rparr>) s = split_hold wa s" "identity_wa N n F L (wa\<lparr>wa_map := m\<rparr>) = identity_wa N n F L wa"
proof -
  show "pc_hold (wa\<lparr>wa_map := m\<rparr>) p = pc_hold wa p" by (cases p) simp_all
  show "slices_mset (wa\<lparr>wa_map := m\<rparr>) P = slices_mset wa P" for P by (simp add: slices_mset_def)
  then show "split_hold (wa\<lparr>wa_map := m\<rparr>) s = split_hold wa s" by (induction s) simp_all
  show "identity_wa N n F L (wa\<lparr>wa_map := m\<rparr>) = identity_wa N n F L wa" by (simp add: identity_wa_def)
qed

section \<open>The operations of a local queue within the bounds\<close>

lemma ibound_simps: "0 < ibound" "4 * ibound = 2 ^ 63"
  by (simp_all add: ibound_def)

lemma queue_ok_le: "queue_ok q \<Longrightarrow> li_lo q \<le> li_hi q"
  by (simp add: queue_ok_def li_ready_def)

lemma size_range_mset: "range_ok rg \<Longrightarrow> int (size (range_mset sint rg)) = sint (snd rg) - sint (fst rg)"
  by (simp add: range_ok_def range_mset_def)

lemma pop_Inr:
  assumes "kaapi_workqueue_pop q sg = (Inr (i, j), q')" "queue_ok q" "1 \<le> sint sg" "sint sg \<le> ibound"
  shows "queue_ok q' \<and> range_ok (i, j) \<and>
    mset_set {li_lo q..<li_hi q} = range_mset sint (i, j) + mset_set {li_lo q'..<li_hi q'}"
proof -
  have b: "li_ready q" "- ibound \<le> li_lo q" "li_lo q \<le> li_hi q" "li_hi q \<le> ibound"
    using assms(2) queue_ok_le by (simp_all add: queue_ok_def)
  have n: "0 < sint sg" "li_lo q + sint sg < 2 ^ 63" "li_hi q - li_lo q < 2 ^ 63"
    using assms(3,4) b ibound_simps by linarith+
  have ne: "li_lo q < li_hi q"
    using li.pop_empty [OF b(1) n] assms(1) b(3) by fastforce
  obtain e where "li_ready q'" "sint i = li_lo q" "sint j = min (li_lo q + sint sg) (li_hi q)"
    "li_lo q' = sint j" "li_hi q' = li_hi q"
    using li.pop_some [OF b(1) n ne] assms(1) by auto
  moreover from this have "mset_set {li_lo q..<li_hi q} = mset_set {li_lo q..<sint j} + mset_set {sint j..<li_hi q}"
    using n(1) ne by (intro ivl_split) auto
  ultimately show ?thesis using b n(1) ne by (auto simp: queue_ok_def range_ok_def range_mset_def)
qed

lemma pop_Inl:
  assumes "kaapi_workqueue_pop q sg = (Inl e, q')" "queue_ok q" "1 \<le> sint sg" "sint sg \<le> ibound"
  shows "q' = q \<and> li_lo q = li_hi q"
proof -
  have b: "li_ready q" "- ibound \<le> li_lo q" "li_lo q \<le> li_hi q" "li_hi q \<le> ibound"
    using assms(2) queue_ok_le by (simp_all add: queue_ok_def)
  have n: "0 < sint sg" "li_lo q + sint sg < 2 ^ 63" "li_hi q - li_lo q < 2 ^ 63"
    using assms(3,4) b ibound_simps by linarith+
  have ne: "li_lo q = li_hi q"
    using li.pop_some [OF b(1) n] assms(1) b(3) by fastforce
  then show ?thesis using li.pop_empty [OF b(1) n ne] assms(1) by simp
qed

lemma local_steal_Some:
  assumes "kaapic_local_work_steal l u = (Some rg, l')" "queue_ok (lw_cr l)" "0 < sint u" "sint u \<le> 2 * ibound"
  shows "queue_ok (lw_cr l') \<and> range_ok rg \<and>
    mset_set {li_lo (lw_cr l)..<li_hi (lw_cr l)} = range_mset sint rg + mset_set {li_lo (lw_cr l')..<li_hi (lw_cr l')} \<and>
    sint (snd rg) - sint (fst rg) = sint u \<and> lw_workdone l' = lw_workdone l \<and> lw_init l' = lw_init l"
proof -
  have b: "li_ready (lw_cr l)" "- ibound \<le> li_lo (lw_cr l)" "li_lo (lw_cr l) \<le> li_hi (lw_cr l)" "li_hi (lw_cr l) \<le> ibound"
    using assms(2) queue_ok_le by (simp_all add: queue_ok_def)
  obtain r q where s: "kaapi_workqueue_steal (lw_cr l) u = (r, q)" by fastforce
  have r: "r = Inr rg" "l' = l\<lparr>lw_cr := q\<rparr>"
    using assms(1) s by (auto simp: kaapic_local_work_steal_def split: sum.splits)
  have n: "- (2 ^ 63) \<le> li_hi (lw_cr l) - sint u" using assms(3,4) b ibound_simps by linarith
  have le: "li_lo (lw_cr l) \<le> li_hi (lw_cr l) - sint u"
    using li.steal_fail [OF b(1) assms(3) n] s r by fastforce
  then have "li_ready q" "sint (fst rg) = li_hi (lw_cr l) - sint u" "sint (snd rg) = li_hi (lw_cr l)"
    "li_lo q = li_lo (lw_cr l)" "li_hi q = sint (fst rg)"
    using li.steal_some [OF b(1) assms(3) n] s r by auto
  moreover from this have "mset_set {li_lo (lw_cr l)..<li_hi (lw_cr l)} =
      mset_set {li_lo (lw_cr l)..<sint (fst rg)} + mset_set {sint (fst rg)..<li_hi (lw_cr l)}"
    using le assms(3) by (intro ivl_split) auto
  ultimately show ?thesis
    using b le assms(3) r by (auto simp: queue_ok_def range_ok_def range_mset_def)
qed

lemma local_steal_left:
  assumes "kaapic_local_work_steal l u = (Some rg, l')" "queue_ok (lw_cr l)" "0 < sint u" "sint u \<le> 2 * ibound"
    and "\<not> lw_init l \<longrightarrow> li_lo (lw_cr l) = li_hi (lw_cr l)"
  shows "lw_init l \<and> lw_left l = range_mset sint rg + lw_left l'"
proof -
  note s = local_steal_Some [OF assms(1-4)]
  have "lw_init l"
  proof (rule ccontr)
    assume "\<not> lw_init l"
    then have "range_mset sint rg = {#}" using assms(5) s by simp
    then show False using s assms(3) by (simp add: range_mset_def mset_set_empty_iff)
  qed
  then show ?thesis using s by (simp add: lw_left_def)
qed

lemma local_steal_None:
  assumes "kaapic_local_work_steal l u = (None, l')" "queue_ok (lw_cr l)" "0 < sint u" "sint u \<le> 2 * ibound"
  shows "l' = l"
proof -
  have b: "li_ready (lw_cr l)" "- ibound \<le> li_lo (lw_cr l)" "li_lo (lw_cr l) \<le> li_hi (lw_cr l)" "li_hi (lw_cr l) \<le> ibound"
    using assms(2) queue_ok_le by (simp_all add: queue_ok_def)
  obtain r q where s: "kaapi_workqueue_steal (lw_cr l) u = (r, q)" by fastforce
  obtain e where r: "r = Inl e" "l' = l\<lparr>lw_cr := q\<rparr>"
    using assms(1) s by (auto simp: kaapic_local_work_steal_def split: sum.splits)
  have n: "- (2 ^ 63) \<le> li_hi (lw_cr l) - sint u" using assms(3,4) b ibound_simps by linarith
  have "li_hi (lw_cr l) - sint u < li_lo (lw_cr l)"
    using li.steal_some [OF b(1) assms(3) n] s r by fastforce
  then show ?thesis using li.steal_fail [OF b(1) assms(3) n] s r by simp
qed

lemma queue_ok_bounds: "queue_ok q \<Longrightarrow> in_bounds q"
  using queue_ok_le [of q] by (auto simp: queue_ok_def in_bounds_def li_ready_def)

lemma cr_size: "in_bounds q \<Longrightarrow> sint (kaapi_workqueue_size q) = max 0 (li_hi q - li_lo q)"
proof -
  assume q: "in_bounds q"
  have "li_hi q - li_lo q < 2 ^ 63" "- (2 ^ 63) \<le> li_hi q - li_lo q"
    using q ibound_simps unfolding in_bounds_def by linarith+
  then have "sint (rep_end q - rep_beg q) = li_hi q - li_lo q"
    unfolding li_lo_def li_hi_def by (intro sint_diff_fits)
  then show ?thesis by (simp add: kaapi_workqueue_size_def Let_def word_sless_alt)
qed

text \<open>However the two reads fall, the size a thread computes from them is within the bounds.\<close>

lemma size_with_bounds:
  assumes "in_bounds q" "- ibound \<le> sint x" "sint x \<le> ibound"
  shows "0 \<le> sint (size_with c x q)" and "sint (size_with c x q) \<le> 2 * ibound"
proof -
  have "in_bounds (if c then q\<lparr>rep_beg := x\<rparr> else q\<lparr>rep_end := x\<rparr>)"
    using assms by (simp add: in_bounds_def li_lo_def li_hi_def)
  then show "0 \<le> sint (size_with c x q)" "sint (size_with c x q) \<le> 2 * ibound"
    unfolding size_with_def by (subst cr_size; auto simp: in_bounds_def)+
qed

lemma bound_of_bounds: "in_bounds q \<Longrightarrow> - ibound \<le> sint (bound_of c q) \<and> sint (bound_of c q) \<le> ibound"
  by (simp add: bound_of_def in_bounds_def li_lo_def li_hi_def)

text \<open>The phases of a reset.\<close>

lemma queue_phase_bounds: "queue_phase ph l \<Longrightarrow> in_bounds (lw_cr l)"
  by (cases "(ph, l)" rule: queue_phase.cases) (auto simp: queue_ok_bounds split: reset_stage.splits)

lemma queue_phase_settled:
  assumes "queue_phase ph l" "\<And>rg. ph \<noteq> Some (REnd, rg)" "\<And>rg. ph \<noteq> Some (RInit, rg)"
  shows "queue_ok (lw_cr l)" and "\<not> lw_init l \<longrightarrow> li_lo (lw_cr l) = li_hi (lw_cr l)"
proof -
  have "queue_ok (lw_cr l) \<and> (\<not> lw_init l \<longrightarrow> li_lo (lw_cr l) = li_hi (lw_cr l))"
  proof (cases ph)
    case None
    then show ?thesis using assms(1) by simp
  next
    case (Some p)
    obtain g rg where p: "p = (g, rg)" by (cases p)
    show ?thesis using assms(1) assms(2,3) [of rg] Some unfolding p by (cases g) simp_all
  qed
  then show "queue_ok (lw_cr l)" "\<not> lw_init l \<longrightarrow> li_lo (lw_cr l) = li_hi (lw_cr l)" by simp_all
qed

text \<open>One store takes the queue to the next phase; the store that publishes it makes the range the queue's work.\<close>

lemma reset_store_phase:
  assumes "queue_phase (Some (g, rg)) l" "g \<in> {RBeg, REnd, RInit}"
  shows "queue_phase (Some (reset_next g, rg)) (reset_store g rg l)"
    and "lw_left (reset_store g rg l) + (if published (reset_next g) then {#} else range_mset sint rg) =
      lw_left l + range_mset sint rg"
    and "lw_workdone (reset_store g rg l) = lw_workdone l"
  using assms by (auto simp: queue_ok_def li_ready_def in_bounds_def li_lo_def li_hi_def range_ok_def lw_left_def
      range_mset_def)

lemma workinit_lw [simp]:
  "rep_beg (lw_cr (kaapic_foreach_local_workinit l rg)) = fst rg"
  "rep_end (lw_cr (kaapic_foreach_local_workinit l rg)) = snd rg"
  "wq_lock (lw_cr (kaapic_foreach_local_workinit l rg)) = wq_lock (lw_cr l)"
  "lw_workdone (kaapic_foreach_local_workinit l rg) = lw_workdone l"
  "lw_init (kaapic_foreach_local_workinit l rg) = True"
  by (simp_all add: kaapic_foreach_local_workinit_def kaapi_workqueue_reset_def)

lemma workinit_ok:
  assumes "queue_ok (lw_cr l)" "range_ok rg"
  shows "queue_ok (lw_cr (kaapic_foreach_local_workinit l rg))"
    and "lw_left (kaapic_foreach_local_workinit l rg) = range_mset sint rg"
  using assms by (simp_all add: queue_ok_def li_ready_def li_lo_def li_hi_def range_ok_def lw_left_def range_mset_def)

lemma range_diff: "range_ok (i, j) \<Longrightarrow> sint (j - i) = sint j - sint i"
  using ibound_simps by (intro sint_diff_fits) (simp_all add: range_ok_def)

lemma range_mset_split:
  assumes "range_ok (i, j)" "0 \<le> sint u" "sint u \<le> sint j - sint i"
  shows "range_mset sint (i, j) = range_mset sint (i, i + u) + range_mset sint (i + u, j)"
    and "range_ok (i, i + u)" and "range_ok (i + u, j)" and "sint (i + u) = sint i + sint u"
proof -
  show s: "sint (i + u) = sint i + sint u"
    using assms ibound_simps by (intro sint_add_fits) (simp_all add: range_ok_def)
  show "range_mset sint (i, j) = range_mset sint (i, i + u) + range_mset sint (i + u, j)"
    using assms s by (simp add: range_mset_def ivl_split)
  show "range_ok (i, i + u)" "range_ok (i + u, j)" using assms s by (simp_all add: range_ok_def)
qed

lemma range_mset_split_end:
  assumes "range_ok (i, j)" "0 \<le> sint u" "sint u \<le> sint j - sint i"
  shows "range_mset sint (i, j) = range_mset sint (i, j - u) + range_mset sint (j - u, j)"
    and "range_ok (i, j - u)" and "range_ok (j - u, j)" and "sint (j - u) = sint j - sint u"
proof -
  show s: "sint (j - u) = sint j - sint u"
    using assms ibound_simps by (intro sint_diff_fits) (simp_all add: range_ok_def)
  show "range_mset sint (i, j) = range_mset sint (i, j - u) + range_mset sint (j - u, j)"
    using assms s by (simp add: range_mset_def ivl_split)
  show "range_ok (i, j - u)" "range_ok (j - u, j)" using assms s by (simp_all add: range_ok_def)
qed

section \<open>Consequences of the invariant\<close>

lemma identity_start_bounds:
  assumes "identity_wa N n F L wa" "p \<le> n"
  shows "F + int p \<le> sint (startindex wa p)" and "sint (startindex wa p) + int (n - p) \<le> L"
proof -
  have s: "sint (startindex wa p) < sint (startindex wa (Suc p))" if "p < n" for p
    using assms(1) that by (simp add: identity_wa_def)
  show "F + int p \<le> sint (startindex wa p)" using assms(2)
  proof (induction p)
    case 0
    then show ?case using assms(1) by (simp add: identity_wa_def)
  next
    case (Suc p)
    then show ?case using s [of p] by simp
  qed
  have "sint (startindex wa (n - k)) + int k \<le> L" if "k \<le> n" for k using that
  proof (induction k)
    case 0
    then show ?case using assms(1) by (simp add: identity_wa_def)
  next
    case (Suc k)
    then show ?case using s [of "n - Suc k"] by (simp add: Suc_diff_Suc)
  qed
  from this [of "n - p"] show "sint (startindex wa p) + int (n - p) \<le> L" using assms(2) by simp
qed

lemma identity_slice:
  assumes "identity_wa N n F L wa" "- ibound \<le> F" "L \<le> ibound" "p < n"
  shows "range_ok (slice_of wa p)" and "range_mset sint (slice_of wa p) \<noteq> {#}"
proof -
  have "sint (startindex wa p) < sint (startindex wa (Suc p))" using assms(1,4) by (simp add: identity_wa_def)
  then show "range_ok (slice_of wa p)" "range_mset sint (slice_of wa p) \<noteq> {#}"
    using identity_start_bounds(1) [OF assms(1), of p] identity_start_bounds(2) [OF assms(1), of "Suc p"] assms(2-4)
    by (auto simp: range_ok_def slice_of_def range_mset_def mset_set_empty_iff)
qed

lemma identity_pos:
  assumes "identity_wa N n F L wa" "t < N"
  shows "tid2pos wa t = - 1 \<longleftrightarrow> n \<le> t" and "t < n \<Longrightarrow> unat (tid2pos wa t) = t"
proof -
  have t: "t < 254" using assms by (simp add: identity_wa_def)
  then have u: "unat (of_nat t :: uint8) = t" by (simp add: unat_of_nat)
  moreover have "unat (- 1 :: uint8) = 255" by (simp add: unsigned_minus_1_eq_mask mask_eq_exp_minus_1)
  ultimately have "(of_nat t :: uint8) \<noteq> - 1" using t by (metis less_irrefl less_trans numeral_less_iff semiring_norm(76,78,80,81))
  then show "tid2pos wa t = - 1 \<longleftrightarrow> n \<le> t" "t < n \<Longrightarrow> unat (tid2pos wa t) = t"
    using assms u by (auto simp: identity_wa_def)
qed

lemma foreach_invD:
  assumes "foreach_inv N n master F L st"
  shows "inv_static N n F L st" "inv_threads N n st" "inv_splits N n st" "inv_work N F L st"
    "inv_remain N F L st" "inv_counts N master st" "inv_fresh N st"
  using assms by (simp_all add: foreach_inv_def)

lemma work_bound:
  assumes "inv_work N F L st" "F \<le> L" "t < N"
  shows "int (size (ran_mset st)) + int (size (work_of st t)) \<le> L - F"
proof -
  have "work_of st t \<subseteq># (\<Sum>s<N. work_of st s)" using assms(3) by (simp add: sum.remove)
  then have "ran_mset st + work_of st t \<subseteq># mset_set {F..<L}"
    using assms(1) unfolding inv_work_def fs_work_def
    by (metis mset_subset_eq_add_left mset_subset_eq_mono_add subset_mset.dual_order.trans subset_mset.order_refl)
  from size_mset_mono [OF this] show ?thesis using assms(2) by simp
qed

lemma remain_zero:
  assumes "inv_work N F L st" "inv_remain N F L st" "F \<le> L" "remain_of st = 0"
  shows "ran_mset st = mset_set {F..<L}" and "t < N \<Longrightarrow> work_of st t = {#}"
    and "t < N \<Longrightarrow> lw_workdone (lw_of st t) = 0" and "slices_mset (gw_wa (fs_gw st)) (abits256 (slices_of st)) = {#}"
proof -
  define W where "W = (\<Sum>t<N. work_of st t) + slices_mset (gw_wa (fs_gw st)) (abits256 (slices_of st))"
  have w: "ran_mset st + W = mset_set {F..<L}"
    using assms(1) by (simp add: inv_work_def fs_work_def W_def add.assoc)
  have sz: "int (size (ran_mset st)) + int (size W) = L - F"
    using arg_cong [OF w, of "\<lambda>M. int (size M)"] assms(3) by simp
  have r: "int (size (ran_mset st)) = L - F + (\<Sum>t<N. slack_of st t)" "\<forall>t<N. 0 \<le> slack_of st t"
    using assms(2,4) by (simp_all add: inv_remain_def)
  have "0 \<le> (\<Sum>t<N. slack_of st t)" using r(2) by (intro sum_nonneg) simp
  then have "(\<Sum>t<N. slack_of st t) = 0 \<and> int (size W) = 0" using r(1) sz by linarith
  then have z: "(\<Sum>t<N. slack_of st t) = 0" "W = {#}" by simp_all
  then show "ran_mset st = mset_set {F..<L}" "slices_mset (gw_wa (fs_gw st)) (abits256 (slices_of st)) = {#}"
    using w by (auto simp: W_def)
  assume t: "t < N"
  show wt: "work_of st t = {#}" using z(2) t sum.remove [of "{..<N}" t "work_of st"] by (simp add: W_def)
  have "slack_of st t = 0" using z(1) r(2) t sum_nonneg_eq_0_iff [of "{..<N}" "slack_of st"] by auto
  moreover have "pc_body (fs_pc st t) = {#}" using wt by (simp add: work_of_def)
  ultimately have "sint (lw_workdone (lw_of st t)) = 0" by (simp add: slack_of_def)
  then show "lw_workdone (lw_of st t) = 0" by (metis signed_0 signed_word_eqI)
qed

lemma empty_queue:
  assumes "work_of st t = {#}" "queue_phase None (lw_of st t)"
  shows "li_lo (lw_cr (lw_of st t)) = li_hi (lw_cr (lw_of st t))"
  using assms queue_ok_le [of "lw_cr (lw_of st t)"]
  by (auto simp: work_of_def lw_left_def mset_set_empty_iff split: if_splits)

end
