(* ===== verification/Foreach_Worker.thy ===== *)
theory Foreach_Worker
  imports Foreach_Inv
begin

text \<open>The steps of the threads keep the invariant of the parallel loop.\<close>

section \<open>What a step leaves alone\<close>

text \<open>A thread changes its own control point and its own local work only, except for the queue it steals from.\<close>

lemma worker_frame:
  assumes "worker_step N master t st st'"
  shows "s \<noteq> t \<Longrightarrow> fs_pc st' s = fs_pc st s" and "fs_split st' = fs_split st" and "fs_bad st' = fs_bad st"
    and "gw_wi (fs_gw st') = gw_wi (fs_gw st)" and "gw_body (fs_gw st') = gw_body (fs_gw st)"
    and "gw_wa (fs_gw st') = (gw_wa (fs_gw st))\<lparr>wa_map := slices_of st'\<rparr>"
  using assms by (cases; auto simp: set_remain_def set_lw_def upd_lwork_def set_slices_def set_map_def
      add_workerdone_def set_pc_def)+

lemma worker_static:
  assumes "worker_step N master t st st'" "inv_static N n F L st"
  shows "inv_static N n F L st'"
proof -
  have "abits256 (slices_of st') \<subseteq> abits256 (slices_of st)"
    using assms(1)
  proof cases
    case (slice_pop b k pos r m)
    have "pos < 256" using unsigned_less [of "tid2pos (gw_wa (fs_gw st)) k", where 'a = nat] slice_pop(4) by simp
    then show ?thesis using slice_pop ba256.abits_unset [of pos "slices_of st"] by auto
  next
    case (popany b k m)
    then show ?thesis using ba256.afirst_zero_bits [of "slices_of st"] by auto
  qed (auto simp: set_remain_def set_lw_def upd_lwork_def add_workerdone_def)
  moreover have "identity_wa N n F L (gw_wa (fs_gw st')) = identity_wa N n F L (gw_wa (fs_gw st))"
    using worker_frame(6) [OF assms(1)] wa_map_irrelevant(4) by metis
  ultimately show ?thesis
    using assms(2) worker_frame(4) [OF assms(1)] by (auto simp: inv_static_def)
qed

section \<open>The threads\<close>

lemma inv_threadsD: "inv_threads N n st \<Longrightarrow> t < N \<Longrightarrow> thread_ok N n (remain_of st) t (fs_pc st t) (phase_of st t) (lw_of st t)"
  by (simp add: inv_threads_def)

lemma inv_staticD:
  assumes "inv_static N n F L st"
  shows "identity_wa N n F L (gw_wa (fs_gw st))" "- ibound \<le> F" "L \<le> ibound" "1 \<le> sint (sgrain_of st)"
    "sint (sgrain_of st) \<le> ibound" "1 \<le> sint (pgrain_of st)" "abits256 (slices_of st) \<subseteq> {..<n}"
    "0 < n" "n \<le> N" "N \<le> 254" "F \<le> L"
proof -
  show "identity_wa N n F L (gw_wa (fs_gw st))" using assms by (simp add: inv_static_def)
  then show "F \<le> L" using identity_start_bounds(2) [of N n F L "gw_wa (fs_gw st)" 0] by (simp add: identity_wa_def)
qed (use assms in \<open>auto simp: inv_static_def identity_wa_def\<close>)

lemma worker_remain_zero:
  assumes "worker_step N master t st st'" "inv_work N F L st" "inv_remain N F L st" "F \<le> L" "t < N" "remain_of st = 0"
  shows "remain_of st' = 0"
  using assms(1,6) remain_zero(3) [OF assms(2-4,6,5)]
  by cases (auto simp: set_remain_def set_lw_def upd_lwork_def set_slices_def set_map_def add_workerdone_def)

lemma steal_from_quiet:
  assumes "kaapic_local_work_steal l u = (Some rg, l')" "queue_ok (lw_cr l)" "0 < sint u" "sint u \<le> 2 * ibound"
  shows "li_lo (lw_cr l) \<noteq> li_hi (lw_cr l)"
proof
  assume "li_lo (lw_cr l) = li_hi (lw_cr l)"
  then have "range_mset sint rg = {#}" using local_steal_Some [OF assms] by (simp add: lw_left_def)
  then show False using local_steal_Some [OF assms] size_range_mset [of rg] assms(3) by simp
qed

text \<open>The victim of a steal is not in the middle of a reset: its thread does not hold the lock, and a splitter
  resets only queues that nobody looks at.\<close>

lemma victim_settled:
  assumes "inv_threads N n st" "inv_fresh N st" "t < N" "v < N" "aims (fs_pc st t) = Some v" "\<not> refilling (fs_pc st v)"
  shows "queue_ok (lw_cr (lw_of st v))" and "\<not> lw_init (lw_of st v) \<longrightarrow> li_lo (lw_cr (lw_of st v)) = li_hi (lw_cr (lw_of st v))"
proof -
  have pub: "published g" if "phase_of st v = Some (g, rg)" for g rg
  proof (rule ccontr)
    assume "\<not> published g"
    then have "fresh (remain_of st \<noteq> 0) (fs_split st) v (fs_pc st v)"
      using that assms(6) by (cases "fs_pc st v"; cases "fs_split st (case fs_pc st v of FPosted w \<Rightarrow> w)")
        (auto split: if_splits)
    then show False using assms(2-5) by (auto simp: inv_fresh_def untouched_def)
  qed
  have "phase_of st v \<noteq> Some (REnd, rg)" "phase_of st v \<noteq> Some (RInit, rg)" for rg
    using pub [of REnd rg] pub [of RInit rg] by auto
  moreover have "queue_phase (phase_of st v) (lw_of st v)" using inv_threadsD [OF assms(1,4)] by (simp add: thread_ok_def)
  ultimately show "queue_ok (lw_cr (lw_of st v))"
    "\<not> lw_init (lw_of st v) \<longrightarrow> li_lo (lw_cr (lw_of st v)) = li_hi (lw_cr (lw_of st v))"
    using queue_phase_settled by blast+
qed

lemma steal_thread_ok:
  assumes "thread_ok N n r s p ph l" "kaapic_local_work_steal l u = (Some rg, l')" "0 < sint u" "sint u \<le> 2 * ibound"
    and "queue_ok (lw_cr l)" "\<not> lw_init l \<longrightarrow> li_lo (lw_cr l) = li_hi (lw_cr l)"
  shows "thread_ok N n r s p ph l'"
proof -
  note x = local_steal_Some [OF assms(2,5,3,4)] local_steal_left [OF assms(2,5,3,4,6)] steal_from_quiet [OF assms(2,5,3,4)]
  have "queue_phase ph l'"
  proof (cases ph)
    case None
    then show ?thesis using x by simp
  next
    case (Some q)
    obtain g rg' where q: "q = (g, rg')" by (cases q)
    show ?thesis using assms(1) x unfolding Some q thread_ok_def by (cases g) auto
  qed
  then show ?thesis using assms(1) x by (auto simp: thread_ok_def)
qed

lemma worker_other_thread:
  assumes "worker_step N master t st st'" "inv_threads N n st" "inv_fresh N st" "t < N" "s < N" "s \<noteq> t"
  shows "thread_ok N n (remain_of st) s (fs_pc st s) (phase_of st s) (lw_of st' s)"
proof -
  have s: "thread_ok N n (remain_of st) s (fs_pc st s) (phase_of st s) (lw_of st s)"
    using inv_threadsD [OF assms(2,5)] .
  have t: "pc_ok N n t (fs_pc st t)" using inv_threadsD [OF assms(2,4)] by (simp add: thread_ok_def)
  show ?thesis using assms(1)
  proof cases
    case (try_some b v u rg l)
    have u: "0 < sint u" "sint u \<le> 2 * ibound" "v < N" using t try_some(2) by simp_all
    have a: "aims (fs_pc st t) = Some v" "\<not> refilling (fs_pc st v)" using try_some(2,3) by (simp_all add: queue_free_def)
    show ?thesis
      using s steal_thread_ok [OF s _ u(1,2)] victim_settled [OF assms(2-4) u(3) a] try_some(1,4)
      by (cases "s = v") auto
  next
    case (try_none b v u l)
    have u: "0 < sint u" "sint u \<le> 2 * ibound" "v < N" using t try_none(2) by simp_all
    have a: "aims (fs_pc st t) = Some v" "\<not> refilling (fs_pc st v)" using try_none(2,3) by (simp_all add: queue_free_def)
    have "l = lw_of st v" using local_steal_None [OF try_none(4) victim_settled(1) [OF assms(2-4) u(3) a] u(1,2)] .
    then show ?thesis using s try_none(1) by simp
  qed (use s assms(6) in \<open>auto\<close>)
qed

lemma worker_self:
  assumes "worker_step N master t st st'" "inv_static N n F L st" "inv_threads N n st"
    and "inv_work N F L st" "inv_remain N F L st" "inv_fresh N st" "t < N"
  shows "thread_ok N n (remain_of st') t (fs_pc st' t) (phase_of st' t) (lw_of st' t)"
proof -
  note g = inv_staticD [OF assms(2)]
  note t = inv_threadsD [OF assms(3,7), unfolded thread_ok_def]
  have z: "remain_of st = 0 \<Longrightarrow> remain_of st' = 0" using worker_remain_zero [OF assms(1,4,5) g(11) assms(7)] .
  show ?thesis using assms(1)
  proof cases
    case (pop_some i j q)
    have q: "queue_ok (lw_cr (lw_of st t))" "\<not> lw_init (lw_of st t) \<longrightarrow> li_lo (lw_cr (lw_of st t)) = li_hi (lw_cr (lw_of st t))"
      using t pop_some(2) by simp_all
    note p = pop_Inr [OF pop_some(3) q(1) g(4,5)]
    have "li_lo q = li_hi q" if "li_lo (lw_cr (lw_of st t)) = li_hi (lw_cr (lw_of st t))"
      using p that queue_ok_le [of q] by (auto simp: mset_set_empty_iff)
    then show ?thesis using pop_some t p q by (simp add: thread_ok_def)
  next
    case (pop_none e q)
    then show ?thesis using t pop_Inl [OF pop_none(3) _ g(4,5)] by (simp add: thread_ok_def)
  next
    case (slices_some b k)
    have "k \<in> abits256 (slices_of st)"
      using ba256.afirst1_ffs [of "slices_of st"] slices_some(3) is_ffs_mem [OF ba256.finite_abits] by auto
    then show ?thesis using slices_some t g(7) by (auto simp: thread_ok_def)
  next
    case (slice_pop b k pos r m)
    have k: "k < n" "k < N" using t slice_pop(2) g(9) by simp_all
    have "pos = k" using identity_pos(2) [OF g(1) k(2,1)] slice_pop(4) by simp
    then show ?thesis using slice_pop t k by (simp add: thread_ok_def)
  next
    case (popany b k m)
    have "range_ok (slice_of (gw_wa (fs_gw st)) (k - 1))" if "k \<noteq> 0"
    proof -
      have "k - 1 \<in> abits256 (slices_of st)"
        using ba256.afirst_zero_ffs [of "slices_of st"] popany(3) that is_ffs_mem [OF ba256.finite_abits]
        by (cases k) auto
      then show ?thesis using identity_slice(1) [OF g(1-3)] g(7) by auto
    qed
    then show ?thesis using popany t by (simp add: thread_ok_def)
  next
    case (got b pos)
    then show ?thesis using t identity_slice(1) [OF g(1-3)] by (simp add: thread_ok_def)
  next
    case (victim_bound b v c)
    have v: "v < N" "v \<noteq> t" using t victim_bound(2) by simp_all
    have "in_bounds (lw_cr (lw_of st v))"
      using inv_threadsD [OF assms(3) v(1)] queue_phase_bounds by (auto simp: thread_ok_def)
    then show ?thesis using victim_bound t v bound_of_bounds by (simp add: thread_ok_def)
  next
    case (victim_size b v c x r)
    have v: "v < N" "v \<noteq> t" "- ibound \<le> sint x" "sint x \<le> ibound" using t victim_size(2) by simp_all
    have q: "in_bounds (lw_cr (lw_of st v))"
      using inv_threadsD [OF assms(3) v(1)] queue_phase_bounds by (auto simp: thread_ok_def)
    have r: "0 \<le> sint r" "sint r \<le> 2 * ibound" using size_with_bounds [OF q v(3,4)] victim_size(3) by simp_all
    then have "sint (c_div r 2) = sint r div 2" using sint_c_div [of r 2] by simp
    then show ?thesis using victim_size t v g(6) r by (auto simp: thread_ok_def word_sle_eq)
  next
    case (try_some b v u rg l)
    have u: "0 < sint u" "sint u \<le> 2 * ibound" "v < N" "v \<noteq> t" using t try_some(2) by simp_all
    have a: "aims (fs_pc st t) = Some v" "\<not> refilling (fs_pc st v)" using try_some(2,3) by (simp_all add: queue_free_def)
    show ?thesis
      using try_some t u(4) local_steal_Some [OF try_some(4) victim_settled(1) [OF assms(3,6,7) u(3) a] u(1,2)]
      by (simp add: thread_ok_def)
  next
    case (try_none b v u l)
    have u: "v \<noteq> t" using t try_none(2) by simp
    then show ?thesis using try_none t by (simp add: thread_ok_def)
  next
    case (range_large b i j)
    have rg: "range_ok (i, j)" and q: "queue_ok (lw_cr (lw_of st t))" "\<not> lw_init (lw_of st t)"
      "li_lo (lw_cr (lw_of st t)) = li_hi (lw_cr (lw_of st t))" using t range_large(2) by simp_all
    have "sint (sgrain_of st) \<le> sint j - sint i"
      using range_large(3) range_diff [OF rg] by (simp add: word_sle_eq)
    note sp = range_mset_split [OF rg _ this]
    show ?thesis using range_large q sp(2,3) g(4) by (simp add: thread_ok_def)
  next
    case (refill g a r)
    have "queue_phase (Some (g, r)) (lw_of st t)" "range_ok a" "range_ok r" using t refill(2) by simp_all
    then show ?thesis using reset_store_phase(1) [OF _ refill(3)] refill by (auto simp: thread_ok_def)
  next
    case report
    then show ?thesis using t by (simp add: thread_ok_def)
  next
    case merge_thief
    have "lw_init (lw_of st t) = False" "queue_phase None (lw_of st t)" using t merge_thief(2) by simp_all
    then show ?thesis using merge_thief by (simp add: thread_ok_def)
  next
    case (sub r)
    have r0: "remain_of st = 0" using t sub(2) by simp
    have "r = 0" using remain_zero(3) [OF assms(4,5) g(11) r0 assms(7)] r0 sub(3) by simp
    then show ?thesis using sub t by (simp add: thread_ok_def)
  next
    case return
    have r0: "remain_of st = 0" using t return(2) by simp
    have "work_of st t = {#}" using remain_zero(2) [OF assms(4,5) g(11) r0 assms(7)] .
    then have "li_lo (lw_cr (lw_of st t)) = li_hi (lw_cr (lw_of st t))" by (rule empty_queue) (use t return(2) in simp)
    then show ?thesis using return t by (simp add: thread_ok_def)
  next
    case next_stop
    have "sgrain_of st \<noteq> 0" using g(4) by auto
    then show ?thesis using next_stop t by (simp add: thread_ok_def)
  qed (use t z in \<open>simp_all add: thread_ok_def split: if_splits\<close>)
qed

lemma worker_threads:
  assumes "worker_step N master t st st'" "inv_static N n F L st" "inv_threads N n st"
    and "inv_work N F L st" "inv_remain N F L st" "inv_fresh N st" "t < N"
  shows "inv_threads N n st'"
  unfolding inv_threads_def
proof (intro allI impI)
  fix s assume s: "s < N"
  have z: "remain_of st = 0 \<Longrightarrow> remain_of st' = 0"
    using worker_remain_zero [OF assms(1,4,5) inv_staticD(11) [OF assms(2)] assms(7)] .
  show "thread_ok N n (remain_of st') s (fs_pc st' s) (phase_of st' s) (lw_of st' s)"
  proof (cases "s = t")
    case True
    then show ?thesis using worker_self [OF assms] by simp
  next
    case False
    then show ?thesis
      using worker_other_thread [OF assms(1,3,6,7) s False] worker_frame(1,2) [OF assms(1)] z
      by (simp add: thread_ok_def)
  qed
qed

section \<open>Untouched queues\<close>

lemma worker_aims:
  assumes "worker_step N master t st st'" "aims (fs_pc st' t) = Some v"
  shows "aims (fs_pc st t) = Some v \<or> lw_init (lw_of st v)"
  using assms by cases (auto split: if_splits)

lemma worker_init:
  assumes "worker_step N master t st st'" "s \<noteq> t"
  shows "lw_init (lw_of st' s) = lw_init (lw_of st s)"
  using assms by cases (auto simp: kaapic_local_work_steal_def split: sum.splits prod.splits)

lemma worker_fresh:
  assumes "worker_step N master t st st'" "inv_static N n F L st" "inv_threads N n st"
    and "inv_work N F L st" "inv_remain N F L st" "inv_fresh N st" "t < N"
  shows "inv_fresh N st'"
  unfolding inv_fresh_def
proof (intro allI impI)
  fix s assume s: "s < N" and f: "fresh (remain_of st' \<noteq> 0) (fs_split st') s (fs_pc st' s)"
  have z: "remain_of st = 0 \<Longrightarrow> remain_of st' = 0"
    using worker_remain_zero [OF assms(1,4,5) inv_staticD(11) [OF assms(2)] assms(7)] .
  have st: "s \<noteq> t"
  proof
    assume "s = t"
    then have p: "fs_pc st' t = FIdle \<and> remain_of st' \<noteq> 0 \<or> (\<exists>v. fs_pc st' t = FPosted v)"
      using f by (cases "fs_pc st' t") simp_all
    have r: "final (fs_pc st t) \<longrightarrow> remain_of st' = 0" using inv_threadsD [OF assms(3,7)] z by (simp add: thread_ok_def)
    show False using assms(1) p r by cases (simp_all split: if_splits)
  qed
  have "fresh (remain_of st \<noteq> 0) (fs_split st) s (fs_pc st s)"
    using f z worker_frame(1) [OF assms(1) st] worker_frame(2) [OF assms(1)]
    by (cases "fs_pc st s"; cases "fs_split st (case fs_pc st s of FPosted w \<Rightarrow> w)") auto
  then have u: "untouched N st s" using assms(6) s by (simp add: inv_fresh_def)
  then have "aims (fs_pc st' t) \<noteq> Some s" using worker_aims [OF assms(1)] assms(7) by (auto simp: untouched_def)
  then show "untouched N st' s"
    using u worker_init [OF assms(1) st] worker_frame(1) [OF assms(1)] unfolding untouched_def by metis
qed

section \<open>The splitters and the counters\<close>

lemma worker_pc:
  assumes "worker_step N master t st st'"
  shows "fs_pc st t \<noteq> FPosted v" and "fs_pc st' t \<noteq> FPosted v"
    and "under_split (fs_pc st t) \<Longrightarrow> fs_split st t = SNone \<or> under_split (fs_pc st' t)"
  using assms by (cases; auto simp: under_split_def)+

lemma worker_splits:
  assumes "worker_step N master t st st'" "inv_splits N n st" "t < N"
  shows "inv_splits N n st'"
proof -
  have "fs_pc st' s = FPosted v \<longleftrightarrow> fs_pc st s = FPosted v" for s v
    using worker_pc(1,2) [OF assms(1)] worker_frame(1) [OF assms(1), of s] by (cases "s = t") auto
  moreover have "fs_split st v = SNone \<or> under_split (fs_pc st' v)" if "v < N" for v
    using assms(2) that worker_pc(3) [OF assms(1)] worker_frame(1) [OF assms(1), of v]
    by (cases "v = t") (auto simp: inv_splits_def)
  ultimately show ?thesis
    using assms(2) worker_frame(2) [OF assms(1)] by (simp add: inv_splits_def)
qed

lemma work_of_cong:
  "gw_wa (fs_gw st') = (gw_wa (fs_gw st))\<lparr>wa_map := m\<rparr> \<Longrightarrow> fs_pc st' s = fs_pc st s \<Longrightarrow> fs_split st' s = fs_split st s \<Longrightarrow>
   lw_cr (lw_of st' s) = lw_cr (lw_of st s) \<Longrightarrow> lw_init (lw_of st' s) = lw_init (lw_of st s) \<Longrightarrow> work_of st' s = work_of st s"
  by (simp add: work_of_def lw_left_def)

lemma slices_mset_remove:
  "finite P \<Longrightarrow> p \<in> P \<Longrightarrow> slices_mset wa P = range_mset sint (slice_of wa p) + slices_mset wa (P - {p})"
  by (simp add: slices_mset_def sum.remove)

text \<open>The step of thread \<open>t\<close> moves work between its hands and its queue, the unclaimed slices and the ended
  bodies, or takes it from the queue of a victim.\<close>

lemma worker_own_work:
  assumes "worker_step N master t st st'" "inv_static N n F L st" "inv_threads N n st"
    and "inv_work N F L st" "inv_remain N F L st" "t < N"
    and nt: "\<And>b v u. fs_pc st t \<noteq> FTry b v u"
  shows "ran_mset st' + work_of st' t + slices_mset (gw_wa (fs_gw st)) (abits256 (slices_of st')) =
    ran_mset st + work_of st t + slices_mset (gw_wa (fs_gw st)) (abits256 (slices_of st))"
proof -
  note g = inv_staticD [OF assms(2)]
  note t = inv_threadsD [OF assms(3,6), unfolded thread_ok_def]
  let ?wa = "gw_wa (fs_gw st)" and ?A = "abits256 (slices_of st)"
  show ?thesis using assms(1)
  proof cases
    case (pop_some i j q)
    have q: "queue_ok (lw_cr (lw_of st t))" "\<not> lw_init (lw_of st t) \<longrightarrow> li_lo (lw_cr (lw_of st t)) = li_hi (lw_cr (lw_of st t))"
      using t pop_some(2) by simp_all
    note p = pop_Inr [OF pop_some(3) q(1) g(4,5)]
    then have "range_mset sint (i, j) = {#}" if "\<not> lw_init (lw_of st t)" using q(2) that by simp
    then show ?thesis using pop_some p by (simp add: work_of_def lw_left_def)
  next
    case (pop_none e q)
    then show ?thesis using t pop_Inl [OF pop_none(3) _ g(4,5)] by (simp add: work_of_def lw_left_def)
  next
    case uninit
    then show ?thesis using t by (simp add: work_of_def lw_left_def)
  next
    case return
    have "work_of st t = {#}" using remain_zero(2) [OF assms(4,5) g(11) _ assms(6)] t return(2) by simp
    then show ?thesis using return by (simp add: work_of_def lw_left_def)
  next
    case (slice_pop b k pos r m)
    have k: "k < n" "k < N" using t slice_pop(2) g(9) by simp_all
    have pos: "pos = k" "k < 256" using identity_pos(2) [OF g(1) k(2,1)] slice_pop(4) k g(10) by simp_all
    have m: "abits256 m = ?A - {k}" "r = (if k \<in> ?A then 0 else - 1)"
      using ba256.abits_unset [OF pos(2), of "slices_of st"] ba256.aunset_ret [OF pos(2), of "slices_of st"]
        slice_pop(5) pos(1) by simp_all
    show ?thesis
      using slice_pop(1,2) m pos slices_mset_remove [OF ba256.finite_abits, of k "slices_of st" ?wa]
      by (cases "k \<in> ?A") (simp_all add: work_of_def)
  next
    case (popany b k m)
    have m: "abits256 m = ?A - {k - 1}" "is_ffs ?A k"
      using ba256.afirst_zero_bits [of "slices_of st"] ba256.afirst_zero_ffs [of "slices_of st"] popany(3) by simp_all
    show ?thesis
    proof (cases k)
      case 0
      then have "?A = {}" using m(2) by (simp add: is_ffs_0)
      then show ?thesis using popany(1,2) m 0 by (simp add: work_of_def)
    next
      case (Suc p)
      have "p \<in> ?A" using m(2) Suc is_ffs_mem [OF ba256.finite_abits] by auto
      then show ?thesis
        using popany(1,2) m Suc slices_mset_remove [OF ba256.finite_abits, of p "slices_of st" ?wa]
        by (simp add: work_of_def)
    qed
  next
    case (got b pos)
    have "remain_of st \<noteq> 0"
    proof
      assume "remain_of st = 0"
      then have "work_of st t = {#}" using remain_zero(2) [OF assms(4,5) g(11) _ assms(6)] by simp
      then show False using got(2) t identity_slice(2) [OF g(1-3), of pos] by (simp add: work_of_def)
    qed
    then show ?thesis using got by (simp add: work_of_def)
  next
    case (range_large b i j)
    have rg: "range_ok (i, j)" using t range_large(2) by simp_all
    have le: "sint (sgrain_of st) \<le> sint j - sint i"
      using range_large(3) range_diff [OF rg] by (simp add: word_sle_eq)
    have "range_mset sint (i, j) = range_mset sint (i, i + sgrain_of st) + range_mset sint (i + sgrain_of st, j)"
      using range_mset_split(1) [OF rg _ le] g(4) by simp
    then show ?thesis using range_large(1,2) by (simp add: work_of_def)
  next
    case (refill g' a r)
    have q: "queue_phase (Some (g', r)) (lw_of st t)" using t refill(2) by simp
    have "\<not> published g'" using refill(3) by (auto simp: published_def)
    then show ?thesis
      using refill(1,2) reset_store_phase(2) [OF q refill(3)] by (simp add: work_of_def add.assoc add.left_commute)
  qed (use nt in \<open>auto simp: work_of_def lw_left_def\<close>)
qed

lemma worker_other_lw:
  assumes "worker_step N master t st st'" "s \<noteq> t" "\<And>b u. fs_pc st t \<noteq> FTry b s u"
  shows "lw_of st' s = lw_of st s"
  using assms by cases (auto simp: set_remain_def set_lw_def upd_lwork_def set_slices_def set_map_def add_workerdone_def)

lemma worker_work:
  assumes "worker_step N master t st st'" "inv_static N n F L st" "inv_threads N n st"
    and "inv_work N F L st" "inv_remain N F L st" "inv_fresh N st" "t < N"
  shows "inv_work N F L st'"
proof -
  note g = inv_staticD [OF assms(2)]
  note t = inv_threadsD [OF assms(3,7), unfolded thread_ok_def]
  let ?wa = "gw_wa (fs_gw st)"
  have wa: "gw_wa (fs_gw st') = ?wa\<lparr>wa_map := slices_of st'\<rparr>" by (rule worker_frame(6) [OF assms(1)])
  have sl: "slices_mset (gw_wa (fs_gw st')) P = slices_mset ?wa P" for P by (subst wa) simp
  have other: "work_of st' s = work_of st s" if "s \<noteq> t" "\<And>b u. fs_pc st t \<noteq> FTry b s u" for s
    using worker_frame(1,2) [OF assms(1)] that(1) worker_other_lw [OF assms(1) that]
    by (intro work_of_cong [OF wa]) simp_all
  have "fs_work N st' = fs_work N st"
  proof (cases "\<exists>b v u. fs_pc st t = FTry b v u")
    case False
    then have nt: "\<And>b v u. fs_pc st t \<noteq> FTry b v u" by blast
    show ?thesis
      unfolding fs_work_def sl
    proof (rule account1 [OF assms(7)])
      show "work_of st' s = work_of st s" if "s < N" "s \<noteq> t" for s using other [OF that(2)] nt by simp
      show "ran_mset st' + work_of st' t + slices_mset (gw_wa (fs_gw st)) (abits256 (slices_of st')) =
        ran_mset st + work_of st t + slices_mset (gw_wa (fs_gw st)) (abits256 (slices_of st))"
        using assms(1-5,7) nt by (rule worker_own_work)
    qed
  next
    case True
    then obtain b v u where p: "fs_pc st t = FTry b v u" by blast
    have u: "v < N" "t \<noteq> v" "0 < sint u" "sint u \<le> 2 * ibound" using t p by simp_all
    have o: "work_of st' s = work_of st s" if "s \<noteq> t" "s \<noteq> v" for s using other that p by simp
    have a: "aims (fs_pc st t) = Some v" using p by simp
    have "ran_mset st' = ran_mset st \<and> abits256 (slices_of st') = abits256 (slices_of st) \<and>
      work_of st' t + work_of st' v = work_of st t + work_of st v"
      using assms(1)
    proof cases
      case (try_some b' v' u' rg l)
      then have e: "v' = v" "u' = u" "\<not> refilling (fs_pc st v)" using p by (simp_all add: queue_free_def)
      have "lw_left (lw_of st v) = range_mset sint rg + lw_left l"
        using local_steal_left [OF try_some(4)] victim_settled [OF assms(3,6,7) u(1) a e(3)] e u by simp
      then show ?thesis using try_some(1,2) e u(2) by (simp add: work_of_def)
    next
      case (try_none b' v' u' l)
      then have e: "v' = v" "u' = u" "\<not> refilling (fs_pc st v)" using p by (simp_all add: queue_free_def)
      have "l = lw_of st v"
        using local_steal_None [OF try_none(4)] victim_settled(1) [OF assms(3,6,7) u(1) a e(3)] e u by simp
      then show ?thesis using try_none(1,2) e u(2) by (simp add: work_of_def)
    qed (use p in simp_all)
    then show ?thesis
      unfolding fs_work_def sl by (intro account2 [OF assms(7) u(1,2)]) (use o in simp_all)
  qed
  then show ?thesis using assms(4) by (simp add: inv_work_def)
qed

section \<open>The count of the remaining iterations\<close>

lemma slack_bound:
  assumes "inv_work N F L st" "inv_remain N F L st" "F \<le> L" "t < N"
  shows "slack_of st t + int (size (work_of st t)) \<le> L - F" and "slack_of st t \<le> sint (remain_of st)"
    and "0 \<le> slack_of st t"
proof -
  have s: "(\<Sum>s<N. slack_of st s) \<le> int (size (ran_mset st))" "\<forall>s<N. 0 \<le> slack_of st s"
    "sint (remain_of st) + int (size (ran_mset st)) = L - F + (\<Sum>s<N. slack_of st s)"
    using assms(2) by (simp_all add: inv_remain_def)
  have "slack_of st t \<le> (\<Sum>s<N. slack_of st s)"
    using assms(4) s(2) member_le_sum [of t "{..<N}" "slack_of st"] by simp
  then show "slack_of st t + int (size (work_of st t)) \<le> L - F" "slack_of st t \<le> sint (remain_of st)"
    using s work_bound [OF assms(1,3,4)] by linarith+
  show "0 \<le> slack_of st t" using s(2) assms(4) by simp
qed

lemma worker_slack:
  assumes "worker_step N master t st st'" "inv_static N n F L st" "inv_threads N n st"
    and "inv_work N F L st" "inv_remain N F L st" "t < N"
  shows "sint (remain_of st') + int (size (ran_mset st')) - slack_of st' t =
      sint (remain_of st) + int (size (ran_mset st)) - slack_of st t
    \<and> slack_of st' t - int (size (ran_mset st')) \<le> slack_of st t - int (size (ran_mset st)) \<and> 0 \<le> slack_of st' t"
proof -
  note g = inv_staticD [OF assms(2)]
  note t = inv_threadsD [OF assms(3,6), unfolded thread_ok_def]
  note b = slack_bound [OF assms(4,5) g(11) assms(6)]
  have add: "sint (lw_workdone (lw_of st t) + x) = sint (lw_workdone (lw_of st t)) + sint x"
    if "pc_body (fs_pc st t) = {#}" "0 \<le> sint x" "sint x \<le> int (size (work_of st t))" for x
  proof (rule sint_add_fits)
    have "0 \<le> sint (lw_workdone (lw_of st t))" "sint (lw_workdone (lw_of st t)) + sint x \<le> 2 * ibound"
      using b that g(2,3) by (simp_all add: slack_of_def)
    then show "- (2 ^ 63) \<le> sint (lw_workdone (lw_of st t)) + sint x"
      "sint (lw_workdone (lw_of st t)) + sint x < 2 ^ 63" using that(2) ibound_simps by linarith+
  qed
  show ?thesis using assms(1)
  proof cases
    case (pop_some i j q)
    have q: "queue_ok (lw_cr (lw_of st t))" "\<not> lw_init (lw_of st t) \<longrightarrow> li_lo (lw_cr (lw_of st t)) = li_hi (lw_cr (lw_of st t))"
      using t pop_some(2) by simp_all
    have p: "range_ok (i, j)" "range_mset sint (i, j) \<subseteq># lw_left (lw_of st t)"
      using pop_Inr [OF pop_some(3) q(1) g(4,5)] q(2) by (cases "lw_init (lw_of st t)"; simp add: lw_left_def)+
    have le: "int (size (range_mset sint (i, j))) \<le> int (size (work_of st t))"
      using size_mset_mono [OF p(2)] by (simp add: work_of_def)
    have "sint (lw_workdone (lw_of st t) + (j - i)) = sint (lw_workdone (lw_of st t)) + (sint j - sint i)"
      using add [of "j - i"] pop_some(2) le size_range_mset [OF p(1)] range_diff [OF p(1)] p(1)
      by (simp add: range_ok_def)
    then show ?thesis using pop_some(1,2) size_range_mset [OF p(1)] b(3) by (simp add: slack_of_def)
  next
    case (body rg)
    then show ?thesis using b(3) by (simp add: slack_of_def)
  next
    case report
    have "sint (remain_of st - lw_workdone (lw_of st t)) = sint (remain_of st) - sint (lw_workdone (lw_of st t))"
      using report(2) b(2,3) sint64_bounds [of "remain_of st"] by (intro sint_diff_fits) (simp_all add: slack_of_def)
    then show ?thesis using report b(3) by (simp add: slack_of_def)
  next
    case (range_small b' i j)
    have p: "range_ok (i, j)" using t range_small(2) by simp
    have "sint (lw_workdone (lw_of st t) + (j - i)) = sint (lw_workdone (lw_of st t)) + (sint j - sint i)"
      using add [of "j - i"] range_small(2) p size_range_mset [OF p] range_diff [OF p] by (simp add: work_of_def)
    then show ?thesis using range_small(1,2) size_range_mset [OF p] b(3) by (simp add: slack_of_def)
  next
    case (refill g a r)
    have q: "queue_phase (Some (g, r)) (lw_of st t)" using t refill(2) by simp
    then show ?thesis using refill b(3) reset_store_phase(3) [OF q refill(3)] by (simp add: slack_of_def)
  next
    case (refill_end i j r)
    have p: "range_ok (i, j)" using t refill_end(2) by simp
    have "sint (lw_workdone (lw_of st t) + (j - i)) = sint (lw_workdone (lw_of st t)) + (sint j - sint i)"
      using add [of "j - i"] refill_end(2) p size_range_mset [OF p] range_diff [OF p] by (simp add: work_of_def)
    then show ?thesis using refill_end(1,2) size_range_mset [OF p] b(3) by (simp add: slack_of_def)
  next
    case (sub r)
    have r0: "remain_of st = 0" using t sub(2) by simp
    have "lw_workdone (lw_of st t) = 0" using remain_zero(3) [OF assms(4,5) g(11) r0 assms(6)] .
    then show ?thesis using sub r0 b(3) by (simp add: slack_of_def)
  next
    case return
    have r0: "remain_of st = 0" using t return(2) by simp
    have "lw_workdone (lw_of st t) = 0" using remain_zero(3) [OF assms(4,5) g(11) r0 assms(6)] .
    then show ?thesis using return r0 b(3) by (simp add: slack_of_def)
  next
    case (try_some b' v u rg l)
    then show ?thesis using b(3) t by (simp add: slack_of_def)
  next
    case (try_none b' v u l)
    then show ?thesis using b(3) t by (simp add: slack_of_def)
  qed (use b(3) in \<open>auto simp: slack_of_def\<close>)
qed

lemma worker_remain:
  assumes "worker_step N master t st st'" "inv_static N n F L st" "inv_threads N n st"
    and "inv_work N F L st" "inv_remain N F L st" "t < N"
  shows "inv_remain N F L st'"
proof -
  have o: "slack_of st' s = slack_of st s" if "s < N" "s \<noteq> t" for s
  proof -
    have "lw_workdone (lw_of st' s) = lw_workdone (lw_of st s)"
    proof (cases "\<exists>b u. fs_pc st t = FTry b s u")
      case True
      then obtain b u where p: "fs_pc st t = FTry b s u" by blast
      show ?thesis using assms(1)
        by cases (use p that in \<open>auto simp: kaapic_local_work_steal_def split: sum.splits prod.splits\<close>)
    qed (use worker_other_lw [OF assms(1) that(2)] in auto)
    then show ?thesis using worker_frame(1) [OF assms(1) that(2)] by (simp add: slack_of_def)
  qed
  have "0 + (\<Sum>s<N. slack_of st' s) + slack_of st t = 0 + (\<Sum>s<N. slack_of st s) + slack_of st' t"
    using o assms(6) by (intro account1) (simp_all add: add.commute)
  then show ?thesis
    using worker_slack [OF assms] assms(5,6) o unfolding inv_remain_def by (smt (verit, best))
qed

section \<open>The counters of thieves\<close>

lemma worker_moves:
  assumes "worker_step N master t st st'"
  shows "busy (fs_pc st t)"
    and "fs_pc st' t = FIdle \<Longrightarrow> t \<noteq> master \<and> fs_pc st t = FMerge \<and> fs_thieves st' = fs_thieves st - 1 \<and>
      gw_workerdone (fs_gw st') = gw_workerdone (fs_gw st)"
    and "fs_pc st' t \<noteq> FIdle \<Longrightarrow> busy (fs_pc st' t) \<and> fs_thieves st' = fs_thieves st"
    and "fs_pc st' t = FMerge \<Longrightarrow> t = master \<and> gw_workerdone (fs_gw st') = gw_workerdone (fs_gw st) \<or>
      fs_pc st t = FDecr \<and> gw_workerdone (fs_gw st') = gw_workerdone (fs_gw st) - 1"
    and "fs_pc st' t \<noteq> FMerge \<Longrightarrow> gw_workerdone (fs_gw st') = gw_workerdone (fs_gw st)"
    and "fs_pc st' t \<noteq> FMerge \<Longrightarrow> fs_pc st t = FMerge \<Longrightarrow> fs_pc st' t = FIdle \<or> t = master"
    and "fs_pc st' t \<in> {FWait, FDone} \<Longrightarrow> t = master \<and> fs_thieves st = 0 \<or> fs_pc st t = FWait"
  using assms by (cases; simp split: if_splits)+

lemma worker_counts:
  assumes "worker_step N master t st st'" "inv_counts N master st" "t < N"
  shows "inv_counts N master st'"
proof -
  let ?B = "thieves_of N master" and ?D = "workers_of N master"
  note c = assms(2) [unfolded inv_counts_def]
  note m = worker_moves [OF assms(1)]
  have f: "fs_pc st' s = fs_pc st s" "phase_of st' s = phase_of st s" if "s \<noteq> t" for s
    using worker_frame(1,2) [OF assms(1)] that by simp_all
  have fin: "finite (?B st)" "finite (?D st)" "finite (?D st')" by (simp_all add: thieves_of_def workers_of_def)
  have np: "phase_of st' t = None" if "fs_pc st' t = FIdle" using that by simp
  have B: "?B st' = (if fs_pc st' t = FIdle then ?B st - {t} else ?B st)"
  proof (rule set_eqI)
    fix s
    show "s \<in> ?B st' \<longleftrightarrow> s \<in> (if fs_pc st' t = FIdle then ?B st - {t} else ?B st)"
    proof (cases "s = t")
      case True
      then show ?thesis using m(1,3) by (cases "fs_pc st' t = FIdle") (simp_all add: thieves_of_def)
    next
      case False
      then show ?thesis using f [OF False] by (simp add: thieves_of_def)
    qed
  qed
  have tB: "t \<in> ?B st" if "t \<noteq> master" using m(1) that assms(3) by (simp add: thieves_of_def)
  have th: "fs_thieves st' = int (card (?B st'))"
  proof (cases "fs_pc st' t = FIdle")
    case True
    have t: "t \<in> ?B st" and s: "fs_thieves st' = fs_thieves st - 1" using m(2) [OF True] tB by auto
    have "card (?B st) = Suc (card (?B st - {t}))" using t fin by (intro card.remove) auto
    then have "int (card (?B st')) = int (card (?B st)) - 1" using B True by simp
    then show ?thesis using c s by linarith
  next
    case False
    then show ?thesis using c m(3) [OF False] B by simp
  qed
  have D: "int (card (?D st')) \<ge> int (card (?D st)) - (gw_workerdone (fs_gw st) - gw_workerdone (fs_gw st'))"
  proof (cases "fs_pc st' t = FMerge \<and> t \<noteq> master")
    case True
    have "s \<in> ?D st' \<longleftrightarrow> s \<in> ?D st - {t}" for s
    proof (cases "s = t")
      case False
      then show ?thesis using f [OF False] by (simp add: workers_of_def)
    qed (use True in \<open>simp add: workers_of_def\<close>)
    then have "?D st' = ?D st - {t}" by blast
    moreover have "gw_workerdone (fs_gw st') = gw_workerdone (fs_gw st) - 1" using m(4) True by simp
    moreover have "card (?D st) - 1 \<le> card (?D st - {t})" by (simp add: card_Diff_singleton_if)
    ultimately show ?thesis by simp
  next
    case False
    have "s \<in> ?D st'" if "s \<in> ?D st" for s
    proof (cases "s = t")
      case True
      then have "fs_pc st' t \<noteq> FIdle" using that m(2) by (auto simp: workers_of_def)
      then show ?thesis using True that False m(3) by (auto simp: workers_of_def)
    next
      case False
      then show ?thesis using f [OF False] that by (simp add: workers_of_def)
    qed
    then have "?D st \<subseteq> ?D st'" by blast
    then have "card (?D st) \<le> card (?D st')" using fin by (intro card_mono) auto
    then show ?thesis using m(4,5) False by fastforce
  qed
  have w: "fs_pc st' master \<in> {FWait, FDone} \<Longrightarrow> fs_thieves st' = 0"
  proof -
    assume a: "fs_pc st' master \<in> {FWait, FDone}"
    show "fs_thieves st' = 0"
    proof (cases "t = master")
      case True
      then have "fs_thieves st = 0" "fs_pc st' t \<noteq> FIdle" using a m(7) c by auto
      then show ?thesis using m(3) by simp
    next
      case False
      then have "fs_thieves st = 0" using a f [of master] c by auto
      then show ?thesis using c tB False fin(1) by (auto simp: card_eq_0_iff)
    qed
  qed
  have "busy (fs_pc st' master)" using c f [of master] m(2,3) by (cases "t = master") auto
  moreover have "\<forall>s<N. s \<noteq> master \<longrightarrow> fs_pc st' s \<noteq> FWait \<and> fs_pc st' s \<noteq> FDone"
    using c f(1) m(7) by (metis insertCI)
  ultimately show ?thesis
    using c th D w worker_frame(3) [OF assms(1)] unfolding inv_counts_def by (simp add: algebra_simps)
qed

theorem worker_inv:
  assumes "worker_step N master t st st'" "foreach_inv N n master F L st" "t < N"
  shows "foreach_inv N n master F L st'"
proof -
  note i = foreach_invD [OF assms(2)]
  show ?thesis
    unfolding foreach_inv_def
    using worker_static [OF assms(1) i(1)] worker_threads [OF assms(1) i(1,2,4,5,7) assms(3)]
      worker_splits [OF assms(1) i(3) assms(3)] worker_work [OF assms(1) i(1,2,4,5,7) assms(3)]
      worker_remain [OF assms(1) i(1,2,4,5) assms(3)] worker_counts [OF assms(1) i(6) assms(3)]
      worker_fresh [OF assms(1) i(1,2,4,5,7) assms(3)]
    by (intro conjI)
qed

end
