(* ===== verification/Foreach_Split.thy ===== *)
theory Foreach_Split
  imports Foreach_Worker
begin

text \<open>The steps of the splitters keep the invariant of the parallel loop, and so does every step: the
  invariant holds in all states reachable from the one \<^verbatim>\<open>kaapic_foreach_workinit\<close> leaves.\<close>

section \<open>What a splitter computes\<close>

lemma request_mask_bits:
  assumes "identity_wa N n F L wa" "lri_inv bits256 lri" "lri_pending bits256 lri \<subseteq> {..<N}"
  shows "bits256 (request_mask wa lri) = lri_pending bits256 lri \<inter> {..<n}"
proof -
  let ?P = "lri_pending bits256 lri"
  have N: "N \<le> 254" using assms(1) by (simp add: identity_wa_def)
  have fin: "finite ?P" using assms(3) finite_subset by blast
  have "card ?P \<le> N" using card_mono [OF finite_lessThan assms(3)] by simp
  then have s: "serve_requests kaapi_bitmap_value_first1_and_zero_256 257 lri = Some (sorted_list_of_set ?P)"
    using N by (intro bv256.serve_requests_sorted [OF assms(2)]) simp
  have put: "bits256 (put_pos wa t m) = (if t < n then insert t (bits256 m) else bits256 m)" if "t < N" for t m
    using identity_pos [OF assms(1) that] that N bv256.bits_put [of t m] by (simp add: put_pos_def)
  have "bits256 (fold (put_pos wa) rs m) = bits256 m \<union> (set rs \<inter> {..<n})" if "set rs \<subseteq> {..<N}" for rs m
    using that by (induction rs arbitrary: m) (auto simp: put)
  moreover have "bits256 zero_mask = {}"
    using bv256.bits_clear [of zero_mask] by (simp add: kaapi_bitmap_value_clear_256_def zero_mask_def)
  ultimately show ?thesis using s assms(3) fin by (simp add: request_mask_def)
qed

lemma sint_small_ucast:
  fixes w :: uint64
  assumes "0 \<le> sint w" "sint w < 2 ^ 31"
  shows "sint (ucast w :: uint32) = sint w"
proof -
  have "uint w = sint w" using assms by (simp add: uint_sint take_bit_int_eq_self)
  then show ?thesis
    using assms by (simp add: sint_uint [where 'a = 32] unsigned_ucast_eq take_bit_int_eq_self signed_take_bit_int_eq_self)
qed

lemma zdiv_less_iff: "0 < b \<Longrightarrow> a div b < c \<longleftrightarrow> a < c * b" for a b c :: int
proof
  assume b: "0 < b"
  have e: "a = a div b * b + a mod b" "0 \<le> a mod b" "a mod b < b" using b by simp_all
  show "a < c * b" if "a div b < c"
  proof -
    have "(a div b + 1) * b \<le> c * b" using that b by (intro mult_right_mono) simp_all
    then have "a div b * b + b \<le> c * b" by (simp add: distrib_right)
    then show ?thesis using e by linarith
  qed
  show "a div b < c" if "a < c * b"
  proof (rule ccontr)
    assume "\<not> a div b < c"
    then have "c * b \<le> a div b * b" using b by (intro mult_right_mono) simp_all
    then show False using e that by linarith
  qed
qed

lemma split_plan_ok:
  assumes "split_plan r p c = Some (nreq, u)" "1 \<le> sint p" "sint p < sint r" "0 < c" "c \<le> 256"
  shows "0 < nreq \<and> nreq \<le> int c \<and> 0 < sint u \<and> nreq * sint u \<le> sint r"
proof -
  define d where "d = c_div r (word_of_int (int c + 1))"
  have c1: "sint (word_of_int (int c + 1) :: uint64) = int c + 1"
    using assms(5) by (intro sint_of_int_eq) simp_all
  have d: "sint d = sint r div (int c + 1)"
    unfolding d_def using assms(2,3,4) c1 by (subst sint_c_div) simp_all
  show ?thesis
  proof (cases "d <s p")
    case False
    then have e: "nreq = int c" "u = d" using assms(1) by (auto simp: split_plan_def Let_def d_def)
    have "int c * sint d \<le> (int c + 1) * (sint r div (int c + 1))"
      using d assms(2,3) by (simp add: algebra_simps pos_imp_zdiv_nonneg_iff)
    also have "\<dots> \<le> sint r" using mult_div_mod_eq [of "int c + 1" "sint r"] pos_mod_sign [of "int c + 1" "sint r"] by linarith
    finally show ?thesis using e False assms(2,4) by (simp add: word_sless_alt)
  next
    case True
    have q: "sint (c_div r p) = sint r div sint p" using assms(2,3) by (intro sint_c_div) simp_all
    have "sint r div (int c + 1) < sint p" using True d by (simp add: word_sless_alt)
    then have "sint r < sint p * (int c + 1)"
      by (simp add: zdiv_less_iff)
    then have "sint r div sint p < int c + 1" using assms(2) zdiv_less_iff [of "sint p" "sint r" "int c + 1"] by (simp add: mult.commute)
    moreover have "1 \<le> sint r div sint p" using assms(2,3) zdiv_mono1 [of "sint p" "sint r" "sint p"] by simp
    ultimately have b: "1 \<le> sint (c_div r p)" "sint (c_div r p) \<le> int c" using q by simp_all
    have m: "sint (c_div r p - 1) = sint (c_div r p) - 1"
      using sint_diff_fits [of "c_div r p" 1] b assms(5) by simp
    have "sint (ucast (c_div r p - 1) :: uint32) = sint (c_div r p) - 1"
      using sint_small_ucast [of "c_div r p - 1"] m b assms(5) by simp
    then have "split_plan r p c = (if sint (c_div r p) - 1 = 0 then None else Some (sint (c_div r p) - 1, p))"
      using True by (simp add: split_plan_def Let_def d_def)
    then have e: "nreq = sint (c_div r p) - 1" "nreq \<noteq> 0" "u = p"
      using assms(1) by (auto split: if_splits)
    have "sint r div sint p * sint p \<le> sint r"
      using div_mult_mod_eq [of "sint r" "sint p"] pos_mod_sign [of "sint p" "sint r"] assms(2) by linarith
    then have "nreq * sint u \<le> sint r" using e(1,3) q assms(2) by (simp add: left_diff_distrib)
    then show ?thesis using e b assms(2) by simp
  qed
qed

section \<open>The kinds of steps\<close>

lemma inv_splitsD:
  assumes "inv_splits N n st" "v < N"
  shows "split_ok N n (fs_split st v)" "fs_split st v = SNone \<or> under_split (fs_pc st v)"
    "split_lri (fs_split st v) = Some lri \<Longrightarrow> lri_inv bits256 lri"
    "requests (fs_split st v) = {t. t < N \<and> fs_pc st t = FPosted v}"
    "split_lri (fs_split st v) = Some lri \<Longrightarrow> \<not> in_reset (fs_split st v) \<Longrightarrow>
      lri_pending bits256 lri = {t. t < N \<and> fs_pc st t = FPosted v}"
  using assms requests_lri [of "fs_split st v"] by (auto simp: inv_splits_def)

lemma under_split_busy: "under_split p \<Longrightarrow> busy p \<and> p \<notin> {FWait, FDone} \<and> (\<forall>v. p \<noteq> FPosted v)"
  by (cases p) (auto simp: under_split_def)

lemma in_loop_simps: "in_loop k \<Longrightarrow> \<not> in_reset k \<and> reset_phase t k = None \<and> resettable w t k \<and> k \<noteq> SNone"
  by (cases k) simp_all

text \<open>The work of the victim is settled while a splitter is on it.\<close>

lemma under_split_queue:
  assumes "inv_threads N n st" "v < N" "under_split (fs_pc st v)"
  shows "queue_ok (lw_cr (lw_of st v))" "\<not> lw_init (lw_of st v) \<longrightarrow> li_lo (lw_cr (lw_of st v)) = li_hi (lw_cr (lw_of st v))"
    "phase_of st v = None"
proof -
  show p: "phase_of st v = None" using assms(3) by (cases "fs_pc st v") (auto simp: under_split_def)
  then show "queue_ok (lw_cr (lw_of st v))" "\<not> lw_init (lw_of st v) \<longrightarrow> li_lo (lw_cr (lw_of st v)) = li_hi (lw_cr (lw_of st v))"
    using inv_threadsD [OF assms(1,2)] by (simp_all add: thread_ok_def)
qed

text \<open>Whatever the splitter does, the executed iterations that are not reported stay the same.\<close>

lemma inv_remain_cong:
  assumes "inv_remain N F L st" "remain_of st' = remain_of st" "ran_mset st' = ran_mset st"
    and "\<And>s. s < N \<Longrightarrow> lw_workdone (lw_of st' s) = lw_workdone (lw_of st s) \<and> pc_body (fs_pc st' s) = pc_body (fs_pc st s)"
  shows "inv_remain N F L st'"
proof -
  have "slack_of st' s = slack_of st s" if "s < N" for s using assms(4) [OF that] by (simp add: slack_of_def)
  moreover from this have "(\<Sum>s<N. slack_of st' s) = (\<Sum>s<N. slack_of st s)" by (intro sum.cong) auto
  ultimately show ?thesis using assms(1-3) by (simp add: inv_remain_def)
qed

lemma inv_work_split:
  assumes "inv_work N F L st" "v < N" "ran_mset st' = ran_mset st" "gw_wa (fs_gw st') = gw_wa (fs_gw st)"
    and "\<And>s. s < N \<Longrightarrow> s \<noteq> v \<Longrightarrow> work_of st' s = work_of st s" and "work_of st' v = work_of st v"
  shows "inv_work N F L st'"
  using assms(1) account1 [OF assms(2), of "work_of st'" "work_of st" "ran_mset st'"] assms(3-6)
  by (simp add: inv_work_def fs_work_def)

text \<open>A step of the splitter on victim \<open>v\<close> that moves no thread: the splitter goes to \<open>s\<close> and may change the local
  work of a thread \<open>tid\<close> that has posted a request to it.\<close>

lemma phase_retarget:
  "phase ((fs_split st)(v := s)) t (fs_pc st t) = (if fs_pc st t = FPosted v then reset_phase t s else phase_of st t)"
  by (cases "fs_pc st t") auto

lemma inv_retarget:
  assumes "foreach_inv N n master F L st" "v < N" "fs_split st v \<noteq> SNone"
    and g: "gw_wa (fs_gw st') = gw_wa (fs_gw st)" "gw_wi (fs_gw st') = gw_wi (fs_gw st)" "remain_of st' = remain_of st"
      "ran_mset st' = ran_mset st" "fs_pc st' = fs_pc st" "fs_split st' = (fs_split st)(v := s)"
    and o: "\<And>t. t \<noteq> tid \<Longrightarrow> lw_of st' t = lw_of st t"
    and t: "tid \<in> requests (fs_split st v)"
    and s: "requests s = requests (fs_split st v)" "split_ok N n s" "\<And>lri. split_lri s = Some lri \<Longrightarrow> lri_inv bits256 lri"
    and l: "queue_phase (reset_phase tid s) (lw_of st' tid)" "lw_workdone (lw_of st' tid) = lw_workdone (lw_of st tid)"
      "reset_phase tid s = None \<Longrightarrow> \<not> lw_init (lw_of st' tid)"
      "lw_left (lw_of st' tid) + split_hold (gw_wa (fs_gw st)) s = lw_left (lw_of st tid) + split_hold (gw_wa (fs_gw st)) (fs_split st v)"
    and r: "\<And>t. t \<noteq> tid \<Longrightarrow> reset_phase t s = None \<and> reset_phase t (fs_split st v) = None"
    and f: "\<And>w t. resettable w t s \<Longrightarrow> resettable w t (fs_split st v)" "\<And>w. resettable w tid s \<Longrightarrow> \<not> lw_init (lw_of st' tid)"
    and c: "inv_counts N master st'"
  shows "foreach_inv N n master F L st'"
proof -
  note i = foreach_invD [OF assms(1)]
  have P: "requests (fs_split st v) = {t. t < N \<and> fs_pc st t = FPosted v}" using inv_splitsD(4) [OF i(3) assms(2)] .
  then have tid: "tid < N" "fs_pc st tid = FPosted v" using t by auto
  have us: "under_split (fs_pc st v)" using inv_splitsD(2) [OF i(3) assms(2)] assms(3) by simp
  have tv: "tid \<noteq> v" using tid us under_split_busy by metis
  have "inv_static N n F L st'" using i(1) g by (simp add: inv_static_def)
  moreover have "inv_threads N n st'"
    unfolding inv_threads_def
  proof (intro allI impI)
    fix t' assume t': "t' < N"
    show "thread_ok N n (remain_of st') t' (fs_pc st' t') (phase_of st' t') (lw_of st' t')"
    proof (cases "t' = tid")
      case True
      then show ?thesis using inv_threadsD [OF i(2) t'] l(1,3) tid(2) by (simp add: g thread_ok_def)
    next
      case False
      then show ?thesis using inv_threadsD [OF i(2) t'] r [OF False] o [OF False]
        by (simp add: g phase_retarget) (cases "fs_pc st t' = FPosted v"; simp)
    qed
  qed
  moreover have "inv_work N F L st'"
  proof -
    have w: "work_of st' u = work_of st u" if "u \<noteq> tid" "u \<noteq> v" for u using that o by (simp add: work_of_def g)
    have "work_of st' tid + work_of st' v = work_of st tid + work_of st v"
      using tv tid l(4) o [of v] by (simp add: work_of_def g ac_simps)
    then have "fs_work N st' = fs_work N st"
      unfolding fs_work_def by (intro account2 [OF tid(1) assms(2) tv]) (use w in \<open>simp_all add: g\<close>)
    then show ?thesis using i(4) by (simp add: inv_work_def)
  qed
  moreover have "inv_remain N F L st'"
    using i(5) g(3,4)
  proof (rule inv_remain_cong)
    show "lw_workdone (lw_of st' u) = lw_workdone (lw_of st u) \<and> pc_body (fs_pc st' u) = pc_body (fs_pc st u)" for u
      using l(2) o by (cases "u = tid") (simp_all add: g)
  qed
  moreover have "inv_splits N n st'"
    using i(3) assms(2) s us by (auto simp: inv_splits_def g)
  moreover have "inv_fresh N st'"
    unfolding inv_fresh_def
  proof (intro allI impI)
    fix t' assume t': "t' < N" and fr: "fresh (remain_of st' \<noteq> 0) (fs_split st') t' (fs_pc st' t')"
    then have "fresh (remain_of st \<noteq> 0) (fs_split st) t' (fs_pc st t')"
      using f(1) by (cases "fs_pc st t'") (auto simp: g split: if_splits)
    then have "untouched N st t'" using i(7) t' by (simp add: inv_fresh_def)
    moreover have "\<not> lw_init (lw_of st' t')" if "t' = tid"
      using fr f(2) tid(2) that by (simp add: g)
    ultimately show "untouched N st' t'" using o by (cases "t' = tid") (simp_all add: untouched_def g)
  qed
  ultimately show ?thesis using c by (simp add: foreach_inv_def)
qed

text \<open>The counters, when a thread's reply moves on.\<close>

lemma master_not_done:
  assumes "foreach_inv N n master F L st" "v < N" "fs_split st v \<noteq> SNone"
  shows "fs_pc st master \<notin> {FWait, FDone}"
proof
  note i = foreach_invD [OF assms(1)]
  note c = i(6) [unfolded inv_counts_def]
  assume a: "fs_pc st master \<in> {FWait, FDone}"
  then have "card (thieves_of N master st) = 0" using c by auto
  moreover have "finite (thieves_of N master st)" by (simp add: thieves_of_def)
  ultimately have e: "thieves_of N master st = {}" by simp
  have u: "under_split (fs_pc st v)" using inv_splitsD(2) [OF i(3) assms(2)] assms(3) by simp
  then have "v = master" using e under_split_busy assms(2) by (auto simp: thieves_of_def)
  then show False using a u under_split_busy by metis
qed

lemma counts_retarget:
  assumes "foreach_inv N n master F L st" "v < N" "fs_split st v \<noteq> SNone"
    and g: "fs_pc st' = fs_pc st" "fs_split st' = (fs_split st)(v := s)" "fs_bad st' = fs_bad st"
    and t: "tid \<in> requests (fs_split st v)"
    and r: "\<And>t. t \<noteq> tid \<Longrightarrow> reset_phase t s = None \<and> reset_phase t (fs_split st v) = None"
    and a: "fs_thieves st' = fs_thieves st + a"
      "if phase_in {RCommit} (reset_phase tid (fs_split st v)) then phase_in {RCommit} (reset_phase tid s) \<and> a = 0
       else phase_in {RCommit} (reset_phase tid s) \<and> a = 1 \<or> \<not> phase_in {RCommit} (reset_phase tid s) \<and> a = 0"
    and b: "gw_workerdone (fs_gw st') = gw_workerdone (fs_gw st) + b"
      "if phase_in (- {RCount}) (reset_phase tid (fs_split st v)) then phase_in (- {RCount}) (reset_phase tid s) \<and> b = 0
       else phase_in (- {RCount}) (reset_phase tid s) \<and> b \<le> 1 \<or> \<not> phase_in (- {RCount}) (reset_phase tid s) \<and> b = 0"
  shows "inv_counts N master st'"
proof -
  note i = foreach_invD [OF assms(1)]
  note c = i(6) [unfolded inv_counts_def]
  have P: "requests (fs_split st v) = {t. t < N \<and> fs_pc st t = FPosted v}" using inv_splitsD(4) [OF i(3) assms(2)] .
  then have tid: "tid < N" "fs_pc st tid = FPosted v" using t by auto
  have tm: "tid \<noteq> master" using tid c by auto
  have p: "phase_of st' u = (if u = tid then reset_phase tid s else phase_of st u)" for u
    using r [of u] tid by (simp add: g phase_retarget)
  have p0: "phase_of st tid = reset_phase tid (fs_split st v)" using tid by simp
  have f: "finite (thieves_of N master st)" "finite (workers_of N master st)"
    by (simp_all add: thieves_of_def workers_of_def)
  have X: "thieves_of N master st' = (if phase_in {RCommit} (reset_phase tid s) then insert tid (thieves_of N master st)
      else thieves_of N master st)" "tid \<in> thieves_of N master st \<longleftrightarrow> phase_in {RCommit} (reset_phase tid (fs_split st v))"
    using tid tm a(2) p p0 by (auto simp: thieves_of_def g(1) split: if_splits)
  have Y: "workers_of N master st' = (if phase_in (- {RCount}) (reset_phase tid s) then insert tid (workers_of N master st)
      else workers_of N master st)" "tid \<in> workers_of N master st \<longleftrightarrow> phase_in (- {RCount}) (reset_phase tid (fs_split st v))"
    using tid tm b(2) p p0 by (auto simp: workers_of_def g(1) split: if_splits)
  have "fs_thieves st' = int (card (thieves_of N master st'))"
    using X a f(1) c by (auto simp: insert_absorb split: if_splits)
  moreover have "gw_workerdone (fs_gw st') \<le> int (card (workers_of N master st'))"
    using Y b f(2) c by (auto simp: insert_absorb split: if_splits)
  ultimately show ?thesis using c master_not_done [OF assms(1-3)] by (simp add: inv_counts_def g)
qed

lemma inv_set_split:
  assumes "foreach_inv N n master F L st" "v < N" "fs_split st v \<noteq> SNone" "\<not> in_reset (fs_split st v)" "\<not> in_reset s"
    and "split_lri s = split_lri (fs_split st v)" "split_ok N n s"
    and "split_hold (gw_wa (fs_gw st)) s = split_hold (gw_wa (fs_gw st)) (fs_split st v)"
    and "\<And>lri. fs_split st v = SStart lri \<Longrightarrow> remain_of st \<noteq> 0"
  shows "foreach_inv N n master F L (set_split v s st)"
proof -
  note i = foreach_invD [OF assms(1)]
  let ?st' = "set_split v s st"
  have rs: "requests s = requests (fs_split st v)"
    using assms(4-6) requests_lri by (cases s; cases "fs_split st v") auto
  have ph: "phase_of ?st' t = phase_of st t" for t
    using assms(4,5) by (cases "fs_pc st t"; cases s; cases "fs_split st v") (auto simp: fun_upd_apply)
  have "work_of ?st' t = work_of st t" for t
    using assms(8) by (simp add: work_of_def)
  then have "inv_work N F L ?st'"
    using i(4) by (simp add: inv_work_def fs_work_def)
  moreover have "inv_remain N F L ?st'"
    using i(5) by (rule inv_remain_cong) simp_all
  moreover have "inv_splits N n ?st'"
    using i(3) assms(2,3,6,7) rs by (auto simp: inv_splits_def)
  moreover have "inv_counts N master ?st' = inv_counts N master st"
    using ph by (simp add: inv_counts_def thieves_of_def workers_of_def)
  moreover have "inv_threads N n ?st'"
    using i(2) ph by (simp add: inv_threads_def)
  moreover have "inv_fresh N ?st'"
    unfolding inv_fresh_def
  proof (intro allI impI)
    fix t' assume t': "t' < N" and fr: "fresh (remain_of ?st' \<noteq> 0) (fs_split ?st') t' (fs_pc ?st' t')"
    have "resettable (remain_of st \<noteq> 0) t' (fs_split st v)"
      using assms(4,9) by (cases "fs_split st v") auto
    then have "fresh (remain_of st \<noteq> 0) (fs_split st) t' (fs_pc st t')"
      using fr by (cases "fs_pc st t'") (auto split: if_splits)
    then have "untouched N st t'" using i(7) t' by (simp add: inv_fresh_def)
    then show "untouched N ?st' t'" by (simp add: untouched_def)
  qed
  ultimately show ?thesis
    using i(1,6) by (simp add: foreach_inv_def inv_static_def)
qed

text \<open>A thread that goes from idle to posted, or back.\<close>

lemma inv_park:
  assumes "foreach_inv N n master F L st" "v < N"
    and p: "\<And>s. s < N \<Longrightarrow> pcs s = fs_pc st s \<or>
      (\<not> busy (pcs s) \<and> \<not> busy (fs_pc st s) \<and> pc_ok N n s (pcs s) \<and> phase_of st s = None)"
    and ph: "\<And>s. s < N \<Longrightarrow> phase ((fs_split st)(v := s0)) s (pcs s) = phase_of st s"
    and fr: "\<And>s. s < N \<Longrightarrow> fresh (remain_of st \<noteq> 0) ((fs_split st)(v := s0)) s (pcs s) \<Longrightarrow>
      fresh (remain_of st \<noteq> 0) (fs_split st) s (fs_pc st s)"
    and s: "split_hold (gw_wa (fs_gw st)) s0 = split_hold (gw_wa (fs_gw st)) (fs_split st v)"
    and sp: "inv_splits N n (set_split v s0 (st\<lparr>fs_pc := pcs\<rparr>))"
  shows "foreach_inv N n master F L (set_split v s0 (st\<lparr>fs_pc := pcs\<rparr>))"
proof -
  note i = foreach_invD [OF assms(1)]
  let ?st = "set_split v s0 (st\<lparr>fs_pc := pcs\<rparr>)"
  have nb: "pc_body q = {#}" "pc_hold wa q = {#}" "uninit q" "q \<noteq> FUninit" "\<not> final q" "q \<noteq> FWait" "q \<noteq> FDone"
    "q \<noteq> FMerge" "aims q = None" if "\<not> busy q" for q wa using that by (cases q; simp)+
  have same: "pc_body (pcs t) = pc_body (fs_pc st t) \<and> pc_hold wa (pcs t) = pc_hold wa (fs_pc st t) \<and>
    aims (pcs t) = aims (fs_pc st t) \<and> busy (pcs t) = busy (fs_pc st t) \<and>
    (pcs t = FMerge \<longleftrightarrow> fs_pc st t = FMerge)" if "t < N" for t wa
    using p [OF that] nb by auto
  have "work_of ?st t = work_of st t" if "t < N" for t
    using same [OF that] s by (simp add: work_of_def)
  then have "inv_work N F L ?st"
    using i(4) by (simp add: inv_work_def fs_work_def)
  moreover have "inv_remain N F L ?st"
    using i(5) by (rule inv_remain_cong) (simp_all add: same)
  moreover have "inv_threads N n ?st"
    unfolding inv_threads_def
  proof (intro allI impI)
    fix t assume t: "t < N"
    show "thread_ok N n (remain_of ?st) t (fs_pc ?st t) (phase_of ?st t) (lw_of ?st t)"
      using inv_threadsD [OF i(2) t] p [OF t] nb ph [OF t] by (auto simp: thread_ok_def)
  qed
  moreover have "inv_counts N master ?st"
  proof -
    have "t \<in> thieves_of N master ?st \<longleftrightarrow> t \<in> thieves_of N master st"
      "t \<in> workers_of N master ?st \<longleftrightarrow> t \<in> workers_of N master st" for t
      using same [of t] ph [of t] by (auto simp: thieves_of_def workers_of_def)
    then have c: "thieves_of N master ?st = thieves_of N master st"
      "workers_of N master ?st = workers_of N master st" by blast+
    have "pcs master = fs_pc st master" using i(6) p [of master] by (auto simp: inv_counts_def)
    moreover have "pcs t \<noteq> FWait \<and> pcs t \<noteq> FDone" if "t < N" "t \<noteq> master" for t
      using i(6) p [OF that(1)] nb that by (auto simp: inv_counts_def)
    ultimately show ?thesis using i(6) unfolding inv_counts_def c by auto
  qed
  moreover have "inv_fresh N ?st"
    unfolding inv_fresh_def
  proof (intro allI impI)
    fix t assume t: "t < N" and "fresh (remain_of ?st \<noteq> 0) (fs_split ?st) t (fs_pc ?st t)"
    then have "untouched N st t" using fr [OF t] i(7) by (simp add: inv_fresh_def)
    then show "untouched N ?st t" using same by (simp add: untouched_def)
  qed
  ultimately show ?thesis
    using i(1) sp by (simp add: foreach_inv_def inv_static_def)
qed

lemma inv_splits_update:
  assumes "inv_splits N n st" "split_ok N n s" "s = SNone \<or> under_split (pcs v)"
    and "\<And>lri. split_lri s = Some lri \<Longrightarrow> lri_inv bits256 lri" "requests s = {t. t < N \<and> pcs t = FPosted v}"
    and "\<And>w. w < N \<Longrightarrow> w \<noteq> v \<Longrightarrow> under_split (fs_pc st w) \<Longrightarrow> under_split (pcs w)"
    and "\<And>t w. t < N \<Longrightarrow> w \<noteq> v \<Longrightarrow> pcs t = FPosted w \<longleftrightarrow> fs_pc st t = FPosted w"
  shows "inv_splits N n (set_split v s (st\<lparr>fs_pc := pcs\<rparr>))"
  unfolding inv_splits_def
proof (intro allI impI)
  fix w assume w: "w < N"
  let ?st = "set_split v s (st\<lparr>fs_pc := pcs\<rparr>)"
  show "split_ok N n (fs_split ?st w) \<and> (fs_split ?st w = SNone \<or> under_split (fs_pc ?st w)) \<and>
    (\<forall>lri. split_lri (fs_split ?st w) = Some lri \<longrightarrow> lri_inv bits256 lri) \<and>
    requests (fs_split ?st w) = {t. t < N \<and> fs_pc ?st t = FPosted w}"
  proof (cases "w = v")
    case True
    then show ?thesis using assms(2-5) by auto
  next
    case False
    have "{t. t < N \<and> pcs t = FPosted w} = {t. t < N \<and> fs_pc st t = FPosted w}" using assms(7) [OF _ False] by blast
    then show ?thesis using inv_splitsD(1,2,4) [OF assms(1) w] inv_splitsD(3) [OF assms(1) w] assms(6) [OF w False] False by auto
  qed
qed

lemma inv_split_end:
  assumes "foreach_inv N n master F L st" "v < N" "split_lri (fs_split st v) = Some lri" "\<not> in_reset (fs_split st v)"
    and "split_hold (gw_wa (fs_gw st)) (fs_split st v) = {#}"
  shows "foreach_inv N n master F L (split_end v lri st)"
proof -
  note i = foreach_invD [OF assms(1)]
  let ?pcs = "\<lambda>t. if t \<in> lri_pending bits256 lri then FIdle else fs_pc st t"
  have P: "t \<in> lri_pending bits256 lri \<longleftrightarrow> t < N \<and> fs_pc st t = FPosted v" for t
    using inv_splitsD(5) [OF i(3) assms(2,3,4)] by blast
  have none: "reset_phase t (fs_split st v) = None" for t using assms(4) by (cases "fs_split st v") auto
  have res: "resettable w t (fs_split st v)" if w for w t using assms(4) that by (cases "fs_split st v") auto
  show ?thesis
    unfolding split_end_def
  proof (rule inv_park [OF assms(1,2)])
    show "split_hold (gw_wa (fs_gw st)) SNone = split_hold (gw_wa (fs_gw st)) (fs_split st v)" using assms(5) by simp
    fix s assume s: "s < N"
    show "?pcs s = fs_pc st s \<or> (\<not> busy (?pcs s) \<and> \<not> busy (fs_pc st s) \<and> pc_ok N n s (?pcs s) \<and> phase_of st s = None)"
      using P [of s] none by simp
    show "phase ((fs_split st)(v := SNone)) s (?pcs s) = phase_of st s"
      using P [of s] none s by (cases "fs_pc st s") auto
    show "fresh (remain_of st \<noteq> 0) ((fs_split st)(v := SNone)) s (?pcs s) \<Longrightarrow>
      fresh (remain_of st \<noteq> 0) (fs_split st) s (fs_pc st s)"
      using P [of s] res s by (cases "fs_pc st s") (auto split: if_splits)
  next
    show "inv_splits N n (set_split v SNone (st\<lparr>fs_pc := ?pcs\<rparr>))"
    proof (rule inv_splits_update [OF i(3)])
      show "under_split (?pcs w)" if "under_split (fs_pc st w)" for w
        using P [of w] that under_split_busy [OF that] by auto
      show "?pcs t = FPosted w \<longleftrightarrow> fs_pc st t = FPosted w" if "t < N" "w \<noteq> v" for t w
        using P [of t] that by auto
      show "requests SNone = {t. t < N \<and> ?pcs t = FPosted v}" using P by auto
    qed simp_all
  qed
qed

lemma inv_split_begin:
  assumes "foreach_inv N n master F L st" "v < N" "splittable (fs_pc st v)" "queue_free v st"
    and "lri_inv bits256 lri" "lri_pending bits256 lri \<noteq> {}"
    and id: "\<forall>t \<in> lri_pending bits256 lri. t < N \<and> fs_pc st t = FIdle"
  shows "foreach_inv N n master F L (set_split v (SStart lri)
    (st\<lparr>fs_pc := \<lambda>t. if t \<in> lri_pending bits256 lri then FPosted v else fs_pc st t\<rparr>))"
proof (rule inv_park [OF assms(1,2)])
  note i = foreach_invD [OF assms(1)]
  let ?pcs = "\<lambda>t. if t \<in> lri_pending bits256 lri then FPosted v else fs_pc st t"
  have sn: "fs_split st v = SNone" "\<not> refilling (fs_pc st v)" using assms(4) by (simp_all add: queue_free_def)
  have np: "fs_pc st t \<noteq> FPosted v" if "t < N" for t
    using inv_splitsD(4) [OF i(3) assms(2)] sn that by auto
  have po: "{t. t < N \<and> ?pcs t = FPosted w} =
      (if w = v then lri_pending bits256 lri else {t. t < N \<and> fs_pc st t = FPosted w})" for w
    using id np by auto
  have vs: "v \<notin> lri_pending bits256 lri" using assms(3) id by auto
  show "split_hold (gw_wa (fs_gw st)) (SStart lri) = split_hold (gw_wa (fs_gw st)) (fs_split st v)" using sn by simp
  show "inv_splits N n (set_split v (SStart lri) (st\<lparr>fs_pc := ?pcs\<rparr>))"
  proof (rule inv_splits_update [OF i(3)])
    show "SStart lri = SNone \<or> under_split (?pcs v)" using vs assms(3) sn(2) by (simp add: under_split_def)
    show "under_split (?pcs w)" if "under_split (fs_pc st w)" for w
      using id that by (auto simp: under_split_def)
    show "requests (SStart lri) = {t. t < N \<and> ?pcs t = FPosted v}" using po [of v] by simp
    show "?pcs t = FPosted w \<longleftrightarrow> fs_pc st t = FPosted w" if "t < N" "w \<noteq> v" for t w
      using id that by auto
  qed (use assms(5,6) in simp_all)
  fix s assume s: "s < N"
  show "?pcs s = fs_pc st s \<or> (\<not> busy (?pcs s) \<and> \<not> busy (fs_pc st s) \<and> pc_ok N n s (?pcs s) \<and> phase_of st s = None)"
    using id assms(2) by auto
  show "phase ((fs_split st)(v := SStart lri)) s (?pcs s) = phase_of st s"
    using id np [OF s] by (cases "fs_pc st s") auto
  show "fresh (remain_of st \<noteq> 0) ((fs_split st)(v := SStart lri)) s (?pcs s) \<Longrightarrow>
    fresh (remain_of st \<noteq> 0) (fs_split st) s (fs_pc st s)"
    using id np [OF s] by (cases "fs_pc st s") (auto split: if_splits)
qed

text \<open>A reply: the slice or part \<open>rg\<close> goes to the local work of the posted thread \<open>tid\<close>, which no thread looks at.\<close>

lemma posted_untouched:
  assumes "foreach_inv N n master F L st" "v < N" "tid \<in> requests (fs_split st v)" "in_loop (fs_split st v)"
  shows "untouched N st tid" and "tid < N" and "fs_pc st tid = FPosted v" and "phase_of st tid = None"
    and "queue_ok (lw_cr (lw_of st tid))" and "li_lo (lw_cr (lw_of st tid)) = li_hi (lw_cr (lw_of st tid))"
proof -
  note i = foreach_invD [OF assms(1)]
  show t: "tid < N" "fs_pc st tid = FPosted v" using inv_splitsD(4) [OF i(3) assms(2)] assms(3) by auto
  show p: "phase_of st tid = None" using t in_loop_simps [OF assms(4)] by simp
  have "fresh (remain_of st \<noteq> 0) (fs_split st) tid (fs_pc st tid)" using t in_loop_simps [OF assms(4)] by simp
  then show u: "untouched N st tid" using i(7) t(1) by (simp add: inv_fresh_def)
  have q: "queue_phase None (lw_of st tid)" using inv_threadsD [OF i(2) t(1)] unfolding thread_ok_def p by simp
  then show "queue_ok (lw_cr (lw_of st tid))" "li_lo (lw_cr (lw_of st tid)) = li_hi (lw_cr (lw_of st tid))"
    using u by (simp_all add: untouched_def)
qed

lemma inv_enter:
  assumes "foreach_inv N n master F L st" "v < N" "tid \<in> requests (fs_split st v)" "in_loop (fs_split st v)"
    and rg: "range_ok rg" and g: "g = RCount \<or> g = RBeg"
    and k: "in_loop k" "requests k = requests (fs_split st v) - {tid}" "split_ok N n k"
      "\<And>lri. split_lri k = Some lri \<Longrightarrow> lri_inv bits256 lri"
    and h: "split_hold (gw_wa (fs_gw st)) (fs_split st v) = range_mset sint rg + split_hold (gw_wa (fs_gw st)) k"
  shows "foreach_inv N n master F L (set_split v (SReset g tid rg k) st)"
proof -
  note u = posted_untouched [OF assms(1-4)]
  have ni: "\<not> lw_init (lw_of st tid)" using u(1) by (simp add: untouched_def)
  have ne: "fs_split st v \<noteq> SNone" and il: "reset_phase t (fs_split st v) = None" "resettable w t (fs_split st v)" for w t
    using in_loop_simps [OF assms(4)] by auto
  have np: "\<not> published g" using g by auto
  have c: "inv_counts N master (set_split v (SReset g tid rg k) st)"
  proof (rule counts_retarget [where tid = tid and a = 0 and b = 0, OF assms(1,2) ne])
    show "tid \<in> requests (fs_split st v)" by (rule assms(3))
  qed (use g il in auto)
  show ?thesis
  proof (rule inv_retarget [where tid = tid, OF assms(1,2) ne, where s = "SReset g tid rg k"])
    show "requests (SReset g tid rg k) = requests (fs_split st v)" using k(2) assms(3) by auto
    show "split_ok N n (SReset g tid rg k)" using rg k by simp
    show "queue_phase (reset_phase tid (SReset g tid rg k)) (lw_of (set_split v (SReset g tid rg k) st) tid)"
      using rg ni u(5,6) g by auto
    show "\<And>lri. split_lri (SReset g tid rg k) = Some lri \<Longrightarrow> lri_inv bits256 lri" using k(4) by simp
    show "lw_left (lw_of (set_split v (SReset g tid rg k) st) tid) + split_hold (gw_wa (fs_gw st)) (SReset g tid rg k) =
      lw_left (lw_of st tid) + split_hold (gw_wa (fs_gw st)) (fs_split st v)" using h np by simp
  qed (use c assms(3) il ni in simp_all)
qed

text \<open>The steps of a reply: the count of workers, the three stores, the count of thieves.\<close>

lemma inv_reset_step:
  assumes "foreach_inv N n master F L st" "v < N" "fs_split st v = SReset g tid rg k" "g \<noteq> RCommit"
    and st': "st' = set_split v (SReset (reset_next g) tid rg k) (add_workerdone b (add_thieves a
      (set_lw tid (reset_store g rg (lw_of st tid)) st)))"
    and ab: "a = (if g = RPush then 1 else 0)" "b = (if g = RCount then 1 else 0)"
  shows "foreach_inv N n master F L st'"
proof -
  note i = foreach_invD [OF assms(1)]
  have ok: "range_ok rg" "tid \<notin> requests k" "in_loop k" "split_ok N n k"
    using inv_splitsD(1) [OF i(3) assms(2)] assms(3) by simp_all
  have t: "tid < N" "fs_pc st tid = FPosted v" using inv_splitsD(4) [OF i(3) assms(2)] assms(3) by auto
  have q: "queue_phase (Some (g, rg)) (lw_of st tid)"
    using inv_threadsD [OF i(2) t(1)] t(2) assms(3) by (simp add: thread_ok_def)
  have l: "lw_of st' tid = reset_store g rg (lw_of st tid)" "\<And>u. u \<noteq> tid \<Longrightarrow> lw_of st' u = lw_of st u" by (simp_all add: st')
  have ne: "fs_split st v \<noteq> SNone" using assms(3) by simp
  have q': "queue_phase (Some (reset_next g, rg)) (reset_store g rg (lw_of st tid))"
    "lw_left (reset_store g rg (lw_of st tid)) + (if published (reset_next g) then {#} else range_mset sint rg) =
      lw_left (lw_of st tid) + (if published g then {#} else range_mset sint rg)"
    "lw_workdone (reset_store g rg (lw_of st tid)) = lw_workdone (lw_of st tid)"
    using q assms(4) reset_store_phase [OF q] by (cases g; simp)+
  have c: "inv_counts N master st'"
  proof (rule counts_retarget [where tid = tid and a = a and b = b, OF assms(1,2) ne])
    show "tid \<in> requests (fs_split st v)" using assms(3) by simp
    show "fs_split st' = (fs_split st)(v := SReset (reset_next g) tid rg k)" by (simp add: st')
  qed (use assms(3,4) ab in \<open>cases g; simp add: st'\<close>)+
  show ?thesis
  proof (rule inv_retarget [where tid = tid, OF assms(1,2) ne, where s = "SReset (reset_next g) tid rg k"])
    show "lw_left (lw_of st' tid) + split_hold (gw_wa (fs_gw st)) (SReset (reset_next g) tid rg k) =
      lw_left (lw_of st tid) + split_hold (gw_wa (fs_gw st)) (fs_split st v)"
      using q'(2) assms(3) unfolding l by (simp add: add.assoc [symmetric])
    show "split_lri (SReset (reset_next g) tid rg k) = Some lri \<Longrightarrow> lri_inv bits256 lri" for lri
      using inv_splitsD(3) [OF i(3) assms(2)] assms(3) by simp
    show "resettable w u (SReset (reset_next g) tid rg k) \<Longrightarrow> resettable w u (fs_split st v)" for w u
      using assms(3,4) by (cases g) auto
    show "resettable w tid (SReset (reset_next g) tid rg k) \<Longrightarrow> \<not> lw_init (lw_of st' tid)" for w
      using q'(1) unfolding l by (cases g) auto
    show "queue_phase (reset_phase tid (SReset (reset_next g) tid rg k)) (lw_of st' tid)"
      using q'(1) unfolding l by simp
    show "lw_workdone (lw_of st' tid) = lw_workdone (lw_of st tid)" using q'(3) unfolding l .
  qed (use c assms(3) ok l(2) in \<open>simp_all add: st'\<close>)
qed

lemma inv_commit:
  assumes "foreach_inv N n master F L st" "v < N" "fs_split st v = SReset RCommit tid rg k"
  shows "foreach_inv N n master F L (set_split v k (commit_reply v tid st))"
proof -
  note i = foreach_invD [OF assms(1)]
  note c = i(6) [unfolded inv_counts_def]
  have ok: "range_ok rg" "tid \<notin> requests k" "in_loop k" "split_ok N n k"
    using inv_splitsD(1) [OF i(3) assms(2)] assms(3) by simp_all
  note il = in_loop_simps [OF ok(3)]
  have P: "insert tid (requests k) = {t. t < N \<and> fs_pc st t = FPosted v}"
    using inv_splitsD(4) [OF i(3) assms(2)] assms(3) by simp
  then have t: "tid < N" "fs_pc st tid = FPosted v" by auto
  have ne: "fs_split st v \<noteq> SNone" using assms(3) by simp
  have us: "under_split (fs_pc st v)" using inv_splitsD(2) [OF i(3) assms(2)] ne by simp
  have tv: "tid \<noteq> v" using t us under_split_busy by metis
  have tm: "tid \<noteq> master" using t c by auto
  have q: "queue_phase (Some (RCommit, rg)) (lw_of st tid)"
    using inv_threadsD [OF i(2) t(1)] t(2) assms(3) by (simp add: thread_ok_def)
  define st' where "st' = set_split v k (set_pc tid FNext st)"
  have st': "fs_gw st' = fs_gw st" "fs_pc st' = (fs_pc st)(tid := FNext)" "fs_split st' = (fs_split st)(v := k)"
    "fs_thieves st' = fs_thieves st" "ran_mset st' = ran_mset st" "fs_bad st' = fs_bad st"
    by (simp_all add: st'_def)
  have ph: "phase_of st' u = phase_of st u" if "u \<noteq> tid" for u
    using that il by (cases "fs_pc st u") (auto simp: st' assms(3))
  have "inv_static N n F L st'" using i(1) by (simp add: inv_static_def st')
  moreover have "inv_threads N n st'"
    unfolding inv_threads_def
  proof (intro allI impI)
    fix u assume u: "u < N"
    show "thread_ok N n (remain_of st') u (fs_pc st' u) (phase_of st' u) (lw_of st' u)"
    proof (cases "u = tid")
      case True
      then show ?thesis using q by (simp add: st' thread_ok_def)
    next
      case False
      then show ?thesis using inv_threadsD [OF i(2) u] ph [OF False] by (simp add: st')
    qed
  qed
  moreover have "inv_work N F L st'"
  proof -
    have "work_of st' u = work_of st u" for u
      using t(2) tv by (cases "u = v"; cases "u = tid") (simp_all add: work_of_def st' assms(3))
    then show ?thesis using i(4) by (simp add: inv_work_def fs_work_def st')
  qed
  moreover have "inv_remain N F L st'"
    using i(5) by (rule inv_remain_cong) (simp_all add: st' t(2))
  moreover have "inv_splits N n st'"
    unfolding inv_splits_def
  proof (intro allI impI)
    fix w assume w: "w < N"
    have el: "u \<in> requests k \<longleftrightarrow> u < N \<and> fs_pc st u = FPosted v \<and> u \<noteq> tid" for u using P ok(2) by blast
    have "{r. r < N \<and> fs_pc st' r = FPosted w} = requests (fs_split st' w)"
    proof (cases "w = v")
      case True
      then show ?thesis using el by (auto simp: st')
    next
      case False
      then have "{r. r < N \<and> fs_pc st' r = FPosted w} = {r. r < N \<and> fs_pc st r = FPosted w}"
        using t(2) by (auto simp: st')
      then show ?thesis using inv_splitsD(4) [OF i(3) w] False by (simp add: st')
    qed
    moreover have "split_lri (fs_split st' w) = Some lri \<Longrightarrow> lri_inv bits256 lri" for lri
      using inv_splitsD(3) [OF i(3) w] assms(3) by (cases "w = v") (simp_all add: st')
    moreover have "fs_split st' w = SNone \<or> under_split (fs_pc st' w)"
      using inv_splitsD(2) [OF i(3) w] us tv t(2) under_split_busy by (cases "w = v"; cases "w = tid") (auto simp: st')
    ultimately show "split_ok N n (fs_split st' w) \<and> (fs_split st' w = SNone \<or> under_split (fs_pc st' w)) \<and>
      (\<forall>lri. split_lri (fs_split st' w) = Some lri \<longrightarrow> lri_inv bits256 lri) \<and>
      requests (fs_split st' w) = {t. t < N \<and> fs_pc st' t = FPosted w}"
      using inv_splitsD(1) [OF i(3) w] ok(4) by (cases "w = v") (simp_all add: st')
  qed
  moreover have "inv_counts N master st'"
  proof -
    have tc: "phase_of st tid = Some (RCommit, rg)" "fs_pc st' tid = FNext" using t(2) assms(3) by (simp_all add: st')
    have "u \<in> thieves_of N master st' \<longleftrightarrow> u \<in> thieves_of N master st" "u \<in> workers_of N master st' \<longleftrightarrow> u \<in> workers_of N master st" for u
      using ph [of u] tc st'(2) by (cases "u = tid"; simp add: thieves_of_def workers_of_def)+
    then have "thieves_of N master st' = thieves_of N master st" "workers_of N master st' = workers_of N master st" by blast+
    then show ?thesis using c tm unfolding inv_counts_def by (auto simp: st')
  qed
  moreover have "inv_fresh N st'"
    unfolding inv_fresh_def
  proof (intro allI impI)
    fix u assume u: "u < N" and fr: "fresh (remain_of st' \<noteq> 0) (fs_split st') u (fs_pc st' u)"
    then have ut: "u \<noteq> tid" by (auto simp: st')
    then have "fresh (remain_of st \<noteq> 0) (fs_split st) u (fs_pc st u)"
      using fr assms(3) by (cases "fs_pc st u") (auto simp: st' split: if_splits)
    then have "untouched N st u" using i(7) u by (simp add: inv_fresh_def)
    then show "untouched N st' u" by (simp add: untouched_def st')
  qed
  ultimately have "foreach_inv N n master F L st'" by (simp add: foreach_inv_def)
  then show ?thesis using t(2) by (simp add: st'_def commit_reply_def)
qed

text \<open>The claim of the requests' slices, by one operation on the map.\<close>

lemma inv_claim:
  assumes "foreach_inv N n master F L st" "v < N" "fs_split st v = SClaim lri msk"
    and m: "abits256 m = abits256 (slices_of st) - bits256 msk" and r: "bits256 r = abits256 (slices_of st) \<inter> bits256 msk"
  shows "foreach_inv N n master F L (set_split v (SReply lri r) (set_slices m st))"
proof -
  note i = foreach_invD [OF assms(1)]
  let ?st' = "set_split v (SReply lri r) (set_slices m st)" and ?A = "abits256 (slices_of st)"
  have ok: "bits256 msk = lri_pending bits256 lri \<inter> {..<n}" using inv_splitsD(1) [OF i(3) assms(2)] assms(3) by simp
  have ph: "phase_of ?st' t = phase_of st t" for t
    using assms(3) by (cases "fs_pc st t") (auto simp: fun_upd_apply)
  have "inv_static N n F L ?st'" using i(1) m by (auto simp: inv_static_def)
  moreover have "inv_threads N n ?st'" using i(2) ph by (simp add: inv_threads_def)
  moreover have "inv_work N F L ?st'"
  proof -
    have o: "work_of ?st' s = work_of st s" if "s \<noteq> v" for s using that by (simp add: work_of_def)
    have "slices_mset wa ?A = slices_mset wa (bits256 r) + slices_mset wa (abits256 m)" for wa
      using sum.union_disjoint [of "bits256 r" "abits256 m" "\<lambda>p. range_mset sint (slice_of wa p)"] m r
        ba256.finite_abits bv256.finite_bits by (simp add: slices_mset_def Int_Un_distrib Un_commute) (metis Un_Diff_Int Int_Diff_disjoint)
    then have "fs_work N ?st' = fs_work N st"
      unfolding fs_work_def using assms(3) by (intro account1 [OF assms(2)]) (use o in \<open>simp_all add: work_of_def\<close>)
    then show ?thesis using i(4) by (simp add: inv_work_def)
  qed
  moreover have "inv_remain N F L ?st'" using i(5) by (rule inv_remain_cong) simp_all
  moreover have "inv_splits N n ?st'"
    using i(3) assms(2,3) r ok by (auto simp: inv_splits_def)
  moreover have "inv_counts N master ?st' = inv_counts N master st"
    using ph by (simp add: inv_counts_def thieves_of_def workers_of_def)
  moreover have "inv_fresh N ?st'"
    unfolding inv_fresh_def
  proof (intro allI impI)
    fix u assume u: "u < N" and fr: "fresh (remain_of ?st' \<noteq> 0) (fs_split ?st') u (fs_pc ?st' u)"
    then have "fresh (remain_of st \<noteq> 0) (fs_split st) u (fs_pc st u)"
      using assms(3) by (cases "fs_pc st u") (auto split: if_splits)
    then have "untouched N st u" using i(7) u by (simp add: inv_fresh_def)
    then show "untouched N ?st' u" by (simp add: untouched_def)
  qed
  ultimately show ?thesis using i(6) by (simp add: foreach_inv_def)
qed

lemma steal_size:
  assumes "0 < nreq" "0 < sint (u :: uint64)" "nreq * sint u \<le> 2 * ibound"
  shows "sint (word_of_int nreq * u) = nreq * sint u"
proof (rule sint_of_int_eq)
  show "word_of_int nreq * u = word_of_int (nreq * sint u)" by simp
  have "0 < nreq * sint u" using assms by simp
  then show "- (2 ^ 63) \<le> nreq * sint u" "nreq * sint u < 2 ^ 63" using assms(3) ibound_simps by linarith+
qed

text \<open>The steal from the victim's local work, under its lock.\<close>

lemma inv_local_steal:
  assumes "foreach_inv N n master F L st" "v < N" "fs_split st v = SSteal lri nreq u"
    and "kaapic_local_work_steal (lw_of st v) (word_of_int nreq * u) = (Some rg, l)"
  shows "foreach_inv N n master F L (set_split v (SServe lri nreq u rg) (set_lw v l st))"
proof -
  note i = foreach_invD [OF assms(1)]
  let ?st' = "set_split v (SServe lri nreq u rg) (set_lw v l st)"
  have ok: "0 < nreq" "nreq \<le> int (card (lri_pending bits256 lri))" "0 < sint u" "nreq * sint u \<le> 2 * ibound"
    using inv_splitsD(1) [OF i(3) assms(2)] assms(3) by simp_all
  have p: "0 < sint (word_of_int nreq * u)" "sint (word_of_int nreq * u) \<le> 2 * ibound"
    "sint (word_of_int nreq * u) = nreq * sint u"
    using steal_size [OF ok(1,3,4)] ok by simp_all
  have us: "under_split (fs_pc st v)" using inv_splitsD(2) [OF i(3) assms(2)] assms(3) by simp
  note q = under_split_queue [OF i(2) assms(2) us]
  note sl = local_steal_Some [OF assms(4) q(1) p(1,2)] local_steal_left [OF assms(4) q(1) p(1,2) q(2)]
  have ph: "phase_of ?st' t = phase_of st t" for t
    using assms(3) by (cases "fs_pc st t") (auto simp: fun_upd_apply)
  have "inv_static N n F L ?st'" using i(1) by (simp add: inv_static_def)
  moreover have "inv_threads N n ?st'"
    unfolding inv_threads_def
  proof (intro allI impI)
    fix t assume t: "t < N"
    show "thread_ok N n (remain_of ?st') t (fs_pc ?st' t) (phase_of ?st' t) (lw_of ?st' t)"
      using inv_threadsD [OF i(2) t] steal_thread_ok [OF inv_threadsD [OF i(2) assms(2)] assms(4) p(1,2) q(1,2)]
      unfolding ph by (cases "t = v") simp_all
  qed
  moreover have "inv_work N F L ?st'"
    using i(4) by (rule inv_work_split [OF _ assms(2)]) (use assms(3) sl in \<open>simp_all add: work_of_def\<close>)
  moreover have "inv_remain N F L ?st'" using i(5) by (rule inv_remain_cong) (use sl in simp_all)
  moreover have "inv_splits N n ?st'"
    using i(3) assms(2,3) ok sl p(3) by (auto simp: inv_splits_def)
  moreover have "inv_counts N master ?st' = inv_counts N master st"
    using ph by (simp add: inv_counts_def thieves_of_def workers_of_def)
  moreover have "inv_fresh N ?st'"
    unfolding inv_fresh_def
  proof (intro allI impI)
    fix w assume w: "w < N" and fr: "fresh (remain_of ?st' \<noteq> 0) (fs_split ?st') w (fs_pc ?st' w)"
    then have "fresh (remain_of st \<noteq> 0) (fs_split st) w (fs_pc st w)"
      using assms(3) by (cases "fs_pc st w") (auto split: if_splits)
    then have "untouched N st w" using i(7) w by (simp add: inv_fresh_def)
    then show "untouched N ?st' w" using sl by (cases "w = v") (auto simp: untouched_def)
  qed
  ultimately show ?thesis using i(6) by (simp add: foreach_inv_def)
qed

section \<open>Every step\<close>

lemma add_0 [simp]: "add_workerdone 0 st = st" "add_thieves 0 st = st"
  by (simp_all add: add_workerdone_def add_thieves_def)

lemma set_lw_self [simp]: "set_lw v (lw_of st v) st = st"
  by (simp add: set_lw_def upd_lwork_def)

lemma getwork_identity:
  assumes "inv_static N n F L st" "tid < n"
  shows "kaapic_global_getwork (fs_gw st) tid =
    (if remain_of st = 0 then None else Some (slice_of (gw_wa (fs_gw st)) tid))"
  using identity_pos [OF inv_staticD(1) [OF assms(1)], of tid] inv_staticD(9) [OF assms(1)] assms(2)
  by (simp add: kaapic_global_getwork_def)

lemma map_value_bits: "bits256 (map_value b) = abits256 b"
  by (simp add: map_value_def bits256_def abits256_def)

lemma split_inv:
  assumes "split_step N v st st'" "foreach_inv N n master F L st" "v < N"
  shows "foreach_inv N n master F L st'"
proof -
  note i = foreach_invD [OF assms(2)]
  note g = inv_staticD [OF i(1)]
  note sv = inv_splitsD [OF i(3) assms(3)]
  have qb: "in_bounds (lw_cr (lw_of st v))"
    using inv_threadsD [OF i(2) assms(3)] queue_phase_bounds by (auto simp: thread_ok_def)
  show ?thesis using assms(1)
  proof cases
    case (split_begin lri P)
    then show ?thesis using inv_split_begin [OF assms(2,3)] by simp
  next
    case (start lri)
    have p: "lri_inv bits256 lri" "lri_pending bits256 lri \<subseteq> {..<N}" "lri_pending bits256 lri \<noteq> {}"
      using sv(1,3,5) start(2) by auto
    have "foreach_inv N n master F L (split_end v lri st)"
      using inv_split_end [OF assms(2,3), of lri] start(2) by simp
    moreover have "foreach_inv N n master F L (set_split v (SMask lri (request_mask (gw_wa (fs_gw st)) lri)) st)"
      if "remain_of st \<noteq> 0" using that start(2) p request_mask_bits [OF g(1) p(1,2)] by (intro inv_set_split [OF assms(2,3)]) simp_all
    ultimately show ?thesis using start(1) by simp
  next
    case (intersect lri msk)
    show ?thesis
      unfolding intersect(1) using intersect(2) sv(1)
      by (intro inv_set_split [OF assms(2,3)]) simp_all
  next
    case (claim lri msk negmask replymask m)
    have "bits256 replymask = abits256 (slices_of st)" "abits256 m = abits256 (slices_of st) \<inter> bits256 negmask"
      using ba256.fand_bits [of msk "slices_of st" negmask] claim(4) by simp_all
    moreover have "bits256 negmask = {..<256} - bits256 msk" using claim(3) by (simp add: bv256.bits_neg)
    ultimately have "abits256 m = abits256 (slices_of st) - bits256 msk"
      "bits256 (kaapi_bitmap_value_and_256 replymask msk) = abits256 (slices_of st) \<inter> bits256 msk"
      using ba256.abits_width [of "slices_of st"] by (auto simp: bv256.bits_band)
    then show ?thesis unfolding claim(1) by (rule inv_claim [OF assms(2,3) claim(2)])
  next
    case (reply_some lri rm tid rm' rg lri')
    have b: "tid \<in> bits256 rm" "bits256 rm' = bits256 rm - {tid}" using bv256.first_zero_Suc [OF reply_some(3)] by simp_all
    have P: "bits256 rm \<subseteq> lri_pending bits256 lri \<inter> {..<n}" using sv(1) reply_some(2) by simp
    have t: "tid < n" "tid < 256" "tid \<in> lri_pending bits256 lri" using b(1) P g(9,10) by auto
    have li: "lri_inv bits256 lri" using sv(3) reply_some(2) by simp
    have rg: "rg = slice_of (gw_wa (fs_gw st)) tid" using getwork_identity [OF i(1) t(1)] reply_some(4) by (simp split: if_splits)
    have l': "lri_inv bits256 lri'" "lri_pending bits256 lri' = lri_pending bits256 lri - {tid}"
      using bv256.lri_unset_at_inv [OF li t(2)] bv256.lri_unset_at_pending [OF li t(2)] reply_some(5) by simp_all
    show ?thesis unfolding reply_some(1)
    proof (rule inv_enter [OF assms(2,3)])
      show "range_ok rg" using rg identity_slice(1) [OF g(1-3) t(1)] by simp
      show "split_hold (gw_wa (fs_gw st)) (fs_split st v) = range_mset sint rg + split_hold (gw_wa (fs_gw st)) (SReply lri' rm')"
        using reply_some(2) rg b slices_mset_remove [OF bv256.finite_bits b(1)] by simp
    qed (use reply_some(2) P b(2) l' t(3) in auto)
  next
    case (reply_none lri rm tid rm')
    have b: "tid \<in> bits256 rm" using bv256.first_zero_Suc [OF reply_none(3)] by simp
    have t: "tid < n" using sv(1) reply_none(2) b by auto
    have "remain_of st = 0" using getwork_identity [OF i(1) t] reply_none(4) by (simp split: if_splits)
    then have "split_hold (gw_wa (fs_gw st)) (fs_split st v) = {#}"
      using remain_zero(2) [OF i(4,5) g(11) _ assms(3)] by (simp add: work_of_def)
    then have False
      using reply_none(2) slices_mset_remove [OF bv256.finite_bits b] identity_slice(2) [OF g(1-3) t] by simp
    then show ?thesis ..
  next
    case (reply_end lri rm rm')
    have "bits256 rm = {}" using bv256.first_zero_0 [OF reply_end(3)] by simp
    then have h: "split_hold (gw_wa (fs_gw st)) (fs_split st v) = {#}" using reply_end(2) by (simp add: slices_mset_def)
    have "foreach_inv N n master F L (split_end v lri st)"
      using inv_split_end [OF assms(2,3), of lri] h reply_end(2) by simp
    moreover have "foreach_inv N n master F L (set_split v (SLocal lri) st)" if "\<not> lri_empty256 lri"
      using h reply_end(2) that by (intro inv_set_split [OF assms(2,3)]) (simp_all add: lri_empty256_def bv256.lri_empty)
    ultimately show ?thesis using reply_end(1) by simp
  next
    case (local_init lri)
    have "foreach_inv N n master F L (split_end v lri st)"
      using inv_split_end [OF assms(2,3), of lri] local_init(2) by simp
    moreover have "foreach_inv N n master F L (set_split v (SSize lri) st)"
      using local_init(2) sv(1) by (intro inv_set_split [OF assms(2,3)]) simp_all
    ultimately show ?thesis using local_init(1) by simp
  next
    case (local_bound lri c)
    then show ?thesis
      using sv(1) bound_of_bounds [OF qb] by (auto intro!: inv_set_split [OF assms(2,3)])
  next
    case (local_size lri c x r)
    have E: "foreach_inv N n master F L (split_end v lri st)"
      using inv_split_end [OF assms(2,3), of lri] local_size(2) by simp
    have li: "lri_inv bits256 lri" "lri_pending bits256 lri \<noteq> {}" "lri_pending bits256 lri = {t. t < N \<and> fs_pc st t = FPosted v}"
      using sv(1,3,5) local_size(2) by simp_all
    then have "lri_pending bits256 lri \<subseteq> {..<N}" by auto
    then have c: "card (lri_pending bits256 lri) \<le> N" "finite (lri_pending bits256 lri)"
      using card_mono [of "{..<N}"] finite_subset by fastforce+
    have cnt: "kaapi_listrequest_iterator_count kaapi_bitmap_value_count_256 lri = card (lri_pending bits256 lri)"
      using bv256.lri_count [OF li(1)] .
    have x: "- ibound \<le> sint x" "sint x \<le> ibound" using sv(1) local_size(2) by simp_all
    have r: "sint r \<le> 2 * ibound" using local_size(3) size_with_bounds(2) [OF qb x] by simp
    have "foreach_inv N n master F L (set_split v (SSteal lri nreq u) st)"
      if "split_plan r (pgrain_of st) (card (lri_pending bits256 lri)) = Some (nreq, u)" "\<not> r \<le>s pgrain_of st" for nreq u
    proof -
      have "sint (pgrain_of st) < sint r" using that(2) by (simp add: word_sle_eq)
      moreover have "0 < card (lri_pending bits256 lri)" using c(2) li(2) by (simp add: card_gt_0_iff)
      ultimately have "0 < nreq \<and> nreq \<le> int (card (lri_pending bits256 lri)) \<and> 0 < sint u \<and> nreq * sint u \<le> sint r"
        using split_plan_ok [OF that(1) g(6)] c(1) g(10) by simp
      then show ?thesis using local_size(2) r by (intro inv_set_split [OF assms(2,3)]) simp_all
    qed
    then show ?thesis using local_size(1) E cnt by (auto split: option.splits)
  next
    case (local_steal lri nreq u r l)
    show ?thesis
    proof (cases r)
      case None
      have ok: "0 < nreq" "0 < sint u" "nreq * sint u \<le> 2 * ibound" using sv(1) local_steal(2) by simp_all
      have m: "0 < sint (word_of_int nreq * u)" "sint (word_of_int nreq * u) \<le> 2 * ibound"
        using steal_size [OF ok] ok by simp_all
      have "under_split (fs_pc st v)" using sv(2) local_steal(2) by simp
      then have "l = lw_of st v"
        using local_steal_None [OF local_steal(3) [unfolded None] under_split_queue(1) [OF i(2) assms(3)] m] by simp
      then show ?thesis using local_steal(1,2) None inv_split_end [OF assms(2,3), of lri] by simp
    next
      case (Some rg)
      then show ?thesis using local_steal(1) inv_local_steal [OF assms(2,3) local_steal(2)] local_steal(3) by simp
    qed
  next
    case (serve lri nreq u x y tid)
    have li: "lri_inv bits256 lri" using sv(3) serve(2) by simp
    have ok: "nreq \<le> int (card (lri_pending bits256 lri))" "0 < sint u" "sint y - sint x = nreq * sint u" "range_ok (x, y)"
      using sv(1) serve(2) by simp_all
    have cur: "lri_idcurr lri \<noteq> - 1" "tid = nat (lri_idcurr lri)"
      using serve(4) by (auto simp: kaapi_listrequest_iterator_get_def request_ptr_def split: if_splits)
    have P: "lri_pending bits256 lri = insert tid (bits256 (lri_bitmap lri))" "tid \<notin> bits256 (lri_bitmap lri)"
      using cur li by (auto simp: lri_pending_def lri_inv_def)
    have l': "lri_inv bits256 (lri_next256 lri)" "lri_pending bits256 (lri_next256 lri) = lri_pending bits256 lri - {tid}"
      using bv256.lri_next_inv [of lri] bv256.lri_next_pending [of lri] P by (simp_all add: lri_next256_def)
    have t: "tid \<in> lri_pending bits256 lri" using P by simp
    have c: "int (card (lri_pending bits256 lri)) = 1 + int (card (lri_pending bits256 (lri_next256 lri)))"
      using P l'(2) bv256.finite_bits by simp
    have le: "sint u \<le> sint y - sint x"
      using ok(2,3) serve(3) mult_right_mono [of 1 nreq "sint u"] by simp
    note sp = range_mset_split_end [OF ok(4) _ le]
    show ?thesis unfolding serve(1)
    proof (rule inv_enter [OF assms(2,3)])
      show "range_ok (y - u, y)" using sp(3) ok(2) by simp
      show "split_ok N n (SServe (lri_next256 lri) (nreq - 1) u (x, y - u))"
        using ok c serve(3) sp(2,4) by (simp add: left_diff_distrib)
      show "split_hold (gw_wa (fs_gw st)) (fs_split st v) =
        range_mset sint (y - u, y) + split_hold (gw_wa (fs_gw st)) (SServe (lri_next256 lri) (nreq - 1) u (x, y - u))"
        using serve(2) sp(1) ok(2) by simp
    qed (use serve(2) t l' in simp_all)
  next
    case (serve_end lri nreq u rg)
    have ok: "0 \<le> nreq" "nreq \<le> int (card (lri_pending bits256 lri))" "sint (snd rg) - sint (fst rg) = nreq * sint u"
      using sv(1) serve_end(2) by simp_all
    have "nreq = 0" using serve_end(3) ok(1,2) by (auto simp: lri_empty256_def bv256.lri_empty)
    then have "range_mset sint rg = {#}" using ok(3) by (simp add: range_mset_def)
    then show ?thesis using serve_end(1,2) inv_split_end [OF assms(2,3), of lri] by simp
  next
    case (count tid rg k)
    show ?thesis unfolding count(1)
      by (rule inv_reset_step [where a = 0 and b = 1, OF assms(2,3) count(2)]) simp_all
  next
    case (store g tid rg k)
    show ?thesis unfolding store(1)
      by (rule inv_reset_step [where a = 0 and b = 0, OF assms(2,3) store(2)]) (use store(3) in auto)
  next
    case (push tid rg k)
    show ?thesis unfolding push(1)
      by (rule inv_reset_step [where a = 1 and b = 0, OF assms(2,3) push(2)]) simp_all
  next
    case (commit tid rg k)
    show ?thesis unfolding commit(1) by (rule inv_commit [OF assms(2,3) commit(2)])
  qed
qed

lemma foreach_step_inv:
  assumes "foreach_step N master st st'" "foreach_inv N n master F L st"
  shows "foreach_inv N n master F L st'"
  using assms(1) by cases (use assms(2) worker_inv split_inv in blast)+

lemma foreach_steps_inv:
  "(foreach_step N master)\<^sup>*\<^sup>* st st' \<Longrightarrow> foreach_inv N n master F L st \<Longrightarrow> foreach_inv N n master F L st'"
  by (induction rule: rtranclp_induct) (blast intro: foreach_step_inv)+

end
