(* ===== verification/Foreach_Live.thy ===== *)
theory Foreach_Live
  imports Foreach_Split
begin

text \<open>
  A parallel loop can always be completed: in every reachable state in which the master has not returned some
  step lowers a potential.  The steps that do not lower it are the choice of a victim while there is work
  elsewhere, and the capture of new requests.
\<close>

section \<open>Threads that look for work have none\<close>

fun parked :: "foreach_pc \<Rightarrow> bool" where
  "parked FIdle = True"
| "parked (FPosted _) = True"
| "parked (FGlobal _) = True"
| "parked (FSlices _) = True"
| "parked (FSlice _ _) = True"
| "parked (FPopAny _) = True"
| "parked (FGot _ _) = True"
| "parked (FSelect _) = True"
| "parked (FVictim _ _) = True"
| "parked (FSize _ _) = True"
| "parked (FHalf _ _ _ _) = True"
| "parked (FTry _ _ _) = True"
| "parked (FRange _ _) = True"
| "parked (FRefill _ _ _) = True"
| "parked _ = False"

text \<open>A thread selects victims only when the map of slices is empty.\<close>

fun selecting :: "foreach_pc \<Rightarrow> bool" where
  "selecting (FSelect _) = True"
| "selecting (FVictim _ _) = True"
| "selecting (FSize _ _) = True"
| "selecting (FHalf _ _ _ _) = True"
| "selecting (FTry _ _ _) = True"
| "selecting _ = False"

fun nonempty_range :: "foreach_pc \<Rightarrow> bool" where
  "nonempty_range (FRange _ rg) = (sint (fst rg) < sint (snd rg))"
| "nonempty_range (FRefill _ a _) = (sint (fst a) < sint (snd a))"
| "nonempty_range _ = True"

definition inv_live :: "nat \<Rightarrow> foreach_state \<Rightarrow> bool" where
  "inv_live N st \<longleftrightarrow> (\<forall>t < N. (parked (fs_pc st t) \<longrightarrow> lw_workdone (lw_of st t) = 0)
     \<and> (selecting (fs_pc st t) \<longrightarrow> abits256 (slices_of st) = {}) \<and> nonempty_range (fs_pc st t))"

lemma worker_abits:
  assumes "worker_step N master t st st'"
  shows "abits256 (slices_of st') \<subseteq> abits256 (slices_of st)"
  using assms
proof cases
  case (slice_pop b k pos r m)
  have "pos < 256" using unsigned_less [of "tid2pos (gw_wa (fs_gw st)) k", where 'a = nat] slice_pop(4) by simp
  then show ?thesis using slice_pop ba256.abits_unset [of pos "slices_of st"] by auto
next
  case (popany b k m)
  then show ?thesis using ba256.afirst_zero_bits [of "slices_of st"] by auto
qed (auto simp: set_remain_def set_lw_def upd_lwork_def add_workerdone_def)

lemma worker_workdone:
  assumes "worker_step N master t st st'" "s \<noteq> t"
  shows "lw_workdone (lw_of st' s) = lw_workdone (lw_of st s)"
  using assms by cases (auto simp: kaapic_local_work_steal_def split: sum.splits prod.splits)

lemma slice_nonempty:
  "inv_static N n F L st \<Longrightarrow> p < n \<Longrightarrow>
   sint (fst (slice_of (gw_wa (fs_gw st)) p)) < sint (snd (slice_of (gw_wa (fs_gw st)) p))"
  by (auto simp: inv_static_def identity_wa_def slice_of_def)

lemma worker_live:
  assumes "worker_step N master t st st'" "foreach_inv N n master F L st" "inv_live N st" "t < N"
  shows "inv_live N st'"
proof -
  note i = foreach_invD [OF assms(2)]
  note g = inv_staticD [OF i(1)]
  note t = inv_threadsD [OF i(2) assms(4), unfolded thread_ok_def]
  have l: "parked (fs_pc st t) \<Longrightarrow> lw_workdone (lw_of st t) = 0" "selecting (fs_pc st t) \<Longrightarrow> abits256 (slices_of st) = {}"
    using assms(3,4) by (simp_all add: inv_live_def)
  have "(parked (fs_pc st' t) \<longrightarrow> lw_workdone (lw_of st' t) = 0)
     \<and> (selecting (fs_pc st' t) \<longrightarrow> abits256 (slices_of st') = {}) \<and> nonempty_range (fs_pc st' t)"
    using assms(1)
  proof cases
    case (slices_none b)
    then show ?thesis using l ba256.afirst1_ffs [of "slices_of st"] by (simp add: is_ffs_0)
  next
    case (slice_pop b k pos r m)
    then show ?thesis using l by simp
  next
    case (popany b k m)
    have m: "abits256 m = abits256 (slices_of st) - {k - 1}" "is_ffs (abits256 (slices_of st)) k"
      using ba256.afirst_zero_bits [of "slices_of st"] ba256.afirst_zero_ffs [of "slices_of st"] popany(3) by simp_all
    have "k - 1 < n" if "k \<noteq> 0"
      using m(2) that is_ffs_mem [OF ba256.finite_abits] g(7) by (cases k) auto
    then show ?thesis using popany(1,2) l slice_nonempty [OF i(1)] ba256.aempty_iff [of m] by simp
  next
    case (got b pos)
    have "remain_of st \<noteq> 0"
    proof
      assume "remain_of st = 0"
      then have "work_of st t = {#}" using remain_zero(2) [OF i(4,5) g(11) _ assms(4)] by simp
      then show False using got(2) t identity_slice(2) [OF g(1-3), of pos] by (simp add: work_of_def)
    qed
    then show ?thesis using got l t slice_nonempty [OF i(1)] by simp
  next
    case (try_some b v u rg l')
    have u: "0 < sint u" "sint u \<le> 2 * ibound" "v < N" "v \<noteq> t" using t try_some(2) by simp_all
    have a: "aims (fs_pc st t) = Some v" "\<not> refilling (fs_pc st v)" using try_some(2,3) by (simp_all add: queue_free_def)
    show ?thesis
      using try_some(1,2) l u local_steal_Some [OF try_some(4) victim_settled(1) [OF i(2,7) assms(4) u(3) a] u(1,2)] by simp
  next
    case (try_none b v u l')
    then show ?thesis using t l by simp
  next
    case (range_large b x y)
    have r: "range_ok (x, y)" using t range_large(2) by simp
    have le: "sint (sgrain_of st) \<le> sint y - sint x"
      using range_large(3) range_diff [OF r] by (simp add: word_sle_eq)
    have "sint x < sint (x + sgrain_of st)" using range_mset_split(4) [OF r _ le] g(4) by simp
    then show ?thesis using range_large(1,2) l by simp
  next
    case (refill g' a r)
    have "queue_phase (Some (g', r)) (lw_of st t)" using t refill(2) by simp
    then have "lw_workdone (reset_store g' r (lw_of st t)) = lw_workdone (lw_of st t)"
      using reset_store_phase(3) refill(3) by blast
    moreover have "nonempty_range (fs_pc st t)" using assms(3,4) by (simp add: inv_live_def)
    ultimately show ?thesis using refill(1,2) l by simp
  next
    case merge_thief
    then show ?thesis using t remain_zero(3) [OF i(4,5) g(11) _ assms(4)] by simp
  qed (use l in \<open>auto split: if_splits\<close>)
  then show ?thesis
    using assms(3) worker_frame(1) [OF assms(1)] worker_abits [OF assms(1)] worker_workdone [OF assms(1)]
    unfolding inv_live_def by (metis subset_empty)
qed

lemma set_lw_workdone: "lw_workdone l = lw_workdone (lw_of st v) \<Longrightarrow> lw_workdone (lw_of (set_lw v l st) s) = lw_workdone (lw_of st s)"
  by simp

lemma steal_workdone: "kaapic_local_work_steal l u = (r, l') \<Longrightarrow> lw_workdone l' = lw_workdone l"
  by (auto simp: kaapic_local_work_steal_def split: sum.splits prod.splits)

lemma split_pc:
  assumes "split_step N v st st'"
  shows "fs_pc st' s = fs_pc st s \<or> fs_pc st' s = FIdle \<and> fs_split st v \<noteq> SNone \<and> s \<in> requests (fs_split st v) \<or>
    (\<exists>w. fs_pc st' s = FPosted w \<and> fs_pc st s = FIdle) \<or> (\<exists>w. fs_pc st' s = FNext \<and> fs_pc st s = FPosted w)"
  using assms
proof cases
  case (local_steal lri nreq u r l)
  then show ?thesis by (cases r) auto
qed (auto simp: commit_reply_def split: option.splits)

lemma split_live:
  assumes "split_step N v st st'" "foreach_inv N n master F L st" "inv_live N st" "v < N"
  shows "inv_live N st'"
proof -
  note i = foreach_invD [OF assms(2)]
  have w: "lw_workdone (lw_of st' s) = lw_workdone (lw_of st s)" for s
    using assms(1)
  proof cases
    case (local_steal lri nreq u r l)
    then show ?thesis using steal_workdone [OF local_steal(3)] by (cases r) auto
  next
    case (store g tid rg k)
    then show ?thesis by (cases g) auto
  qed (auto simp: commit_reply_def split: option.splits)
  have a: "abits256 (slices_of st') \<subseteq> abits256 (slices_of st)"
    using assms(1)
  proof cases
    case (claim lri msk negmask replymask m)
    then show ?thesis using ba256.fand_bits [of msk "slices_of st" negmask] by simp
  next
    case (local_steal lri nreq u r l)
    then show ?thesis by (cases r) auto
  qed (auto simp: commit_reply_def split: option.splits)
  have "(parked (fs_pc st' s) \<longrightarrow> parked (fs_pc st s)) \<and> (selecting (fs_pc st' s) \<longrightarrow> selecting (fs_pc st s)) \<and>
     (nonempty_range (fs_pc st s) \<longrightarrow> nonempty_range (fs_pc st' s))" if "s < N" for s
  proof -
    have "parked (fs_pc st s)" if "s \<in> requests (fs_split st v)"
      using inv_splitsD(4) [OF i(3) assms(4)] that by auto
    then show ?thesis using split_pc [OF assms(1), of s] by auto
  qed
  then show ?thesis using assms(3) w a unfolding inv_live_def by (metis subset_empty)
qed

lemma foreach_step_live:
  assumes "foreach_step N master st st'" "foreach_inv N n master F L st" "inv_live N st"
  shows "inv_live N st'"
  using assms(1) by cases (use assms(2,3) worker_live split_live in blast)+

section \<open>The potential\<close>

text \<open>The rank of a control point, where \<open>z\<close> says that \<^verbatim>\<open>workremain\<close> is 0.\<close>

fun rank_pc :: "bool \<Rightarrow> foreach_pc \<Rightarrow> int" where
  "rank_pc z FIdle = 0"
| "rank_pc z (FPosted _) = 0"
| "rank_pc z FNext = 17"
| "rank_pc z FPop = 16"
| "rank_pc z (FBody _) = 18"
| "rank_pc z FUninit = 12"
| "rank_pc z FReport = 11"
| "rank_pc z (FGlobal _) = 10"
| "rank_pc z (FSlices _) = (if z then 15 else 9)"
| "rank_pc z (FSlice _ _) = (if z then 14 else 8)"
| "rank_pc z (FPopAny _) = (if z then 13 else 7)"
| "rank_pc z (FGot _ _) = (if z then 13 else 7)"
| "rank_pc z (FSelect _) = (if z then 12 else 3)"
| "rank_pc z (FVictim _ _) = (if z then 16 else 10)"
| "rank_pc z (FSize _ _) = (if z then 15 else 9)"
| "rank_pc z (FHalf _ _ _ _) = (if z then 14 else 8)"
| "rank_pc z (FTry _ _ _) = (if z then 13 else 7)"
| "rank_pc z (FRange _ _) = 6"
| "rank_pc z (FRefill g _ _) = (case g of RBeg \<Rightarrow> 5 | REnd \<Rightarrow> 4 | RInit \<Rightarrow> 3 | _ \<Rightarrow> 2)"
| "rank_pc z FSub = 7"
| "rank_pc z FReturn = 6"
| "rank_pc z FUnset = 5"
| "rank_pc z FSync = 4"
| "rank_pc z FDecr = 3"
| "rank_pc z FMerge = 2"
| "rank_pc z FWait = 1"
| "rank_pc z FDone = 0"

fun stage :: "split_pc \<Rightarrow> int" where
  "stage SNone = 0"
| "stage (SStart _) = 15"
| "stage (SMask _ _) = 14"
| "stage (SClaim _ _) = 13"
| "stage (SReply _ _) = 12"
| "stage (SLocal _) = 11"
| "stage (SSize _) = 10"
| "stage (SHalf _ _ _) = 9"
| "stage (SSteal _ _ _) = 8"
| "stage (SServe _ _ _ _) = 7"
| "stage (SReset g _ _ _) =
    (case g of RCount \<Rightarrow> 6 | RBeg \<Rightarrow> 5 | REnd \<Rightarrow> 4 | RInit \<Rightarrow> 3 | RPush \<Rightarrow> 2 | RCommit \<Rightarrow> 1)"

definition rank_split :: "split_pc \<Rightarrow> int" where
  "rank_split s = 30 * int (card (requests s)) + stage s"

definition load_of :: "foreach_state \<Rightarrow> nat \<Rightarrow> int" where
  "load_of st t = rank_pc (remain_of st = 0) (fs_pc st t) + rank_split (fs_split st t)
     - 20 * int (size (pc_body (fs_pc st t)))"

definition potential :: "nat \<Rightarrow> int \<Rightarrow> int \<Rightarrow> foreach_state \<Rightarrow> int" where
  "potential N F L st = 20 * (L - F) - 20 * int (size (ran_mset st)) + (\<Sum>t<N. load_of st t)
     + (if remain_of st = 0 then 0 else 20 * int N + 20)"

lemma rank_pc_bounds: "0 \<le> rank_pc z p" "rank_pc z p \<le> 18" "rank_pc True p \<le> rank_pc False p + 9"
  by (cases p; simp split: reset_stage.splits)+

lemma stage_bounds: "0 \<le> stage s" "stage s = 0 \<longleftrightarrow> s = SNone"
  by (cases s; simp split: reset_stage.splits)+

lemma rank_split_bounds: "0 \<le> rank_split s"
  using stage_bounds(1) by (simp add: rank_split_def)

lemma potential_nonneg:
  assumes "inv_work N F L st" "F \<le> L"
  shows "0 \<le> potential N F L st"
proof -
  have "(\<Sum>t<N. size (pc_body (fs_pc st t))) \<le> (\<Sum>t<N. size (work_of st t))"
    by (intro sum_mono) (simp add: work_of_def)
  then have b: "(\<Sum>t<N. int (size (pc_body (fs_pc st t)))) \<le> (\<Sum>t<N. int (size (work_of st t)))"
    by (simp flip: of_nat_sum)
  have "int (size (fs_work N st)) = L - F" using assms by (simp add: inv_work_def)
  then have "int (size (ran_mset st)) + (\<Sum>t<N. int (size (work_of st t))) \<le> L - F"
    by (simp add: fs_work_def)
  moreover have "(\<Sum>t<N. load_of st t) \<ge> (\<Sum>t<N. - 20 * int (size (pc_body (fs_pc st t))))"
    using rank_pc_bounds rank_split_bounds by (intro sum_mono) (simp add: load_of_def)
  then have "(\<Sum>t<N. load_of st t) \<ge> - 20 * (\<Sum>t<N. int (size (pc_body (fs_pc st t))))"
    by (simp add: sum_distrib_left sum_negf)
  ultimately show ?thesis using b by (simp add: potential_def)
qed

subsection \<open>A step of a thread that does not wait\<close>

lemma size_body_pos: "range_ok (i, j) \<Longrightarrow> sint i < sint j \<Longrightarrow> 1 \<le> int (size (range_mset sint (i, j)))"
  by (simp add: size_range_mset)

lemma worker_load:
  assumes "worker_step N master t st st'" "foreach_inv N n master F L st" "inv_live N st" "t < N"
    and w: "\<not> (\<exists>b. fs_pc st t = FSelect b \<and> remain_of st \<noteq> 0)"
  shows "rank_pc (remain_of st = 0) (fs_pc st' t) - 20 * int (size (pc_body (fs_pc st' t))) - 20 * int (size (ran_mset st'))
    < rank_pc (remain_of st = 0) (fs_pc st t) - 20 * int (size (pc_body (fs_pc st t))) - 20 * int (size (ran_mset st))"
proof -
  note i = foreach_invD [OF assms(2)]
  note g = inv_staticD [OF i(1)]
  note t = inv_threadsD [OF i(2) assms(4), unfolded thread_ok_def]
  show ?thesis using assms(1)
  proof cases
    case (pop_some x y q)
    have qo: "queue_ok (lw_cr (lw_of st t))" using t pop_some(2) by simp
    have r: "range_ok (x, y)" using pop_Inr [OF pop_some(3) qo g(4,5)] by simp
    have "sint x < sint y"
    proof (rule ccontr)
      assume "\<not> sint x < sint y"
      then have "sint x = sint y" using r by (simp add: range_ok_def)
      have rd: "li_ready (lw_cr (lw_of st t))" "li_lo (lw_cr (lw_of st t)) + sint (sgrain_of st) < 2 ^ 63"
        "li_hi (lw_cr (lw_of st t)) - li_lo (lw_cr (lw_of st t)) < 2 ^ 63"
        using qo g(5) queue_ok_le [of "lw_cr (lw_of st t)"] ibound_simps by (auto simp: queue_ok_def)
      have gp: "0 < sint (sgrain_of st)" using g(4) by simp
      show False
      proof (cases "li_lo (lw_cr (lw_of st t)) = li_hi (lw_cr (lw_of st t))")
        case True
        then show False using li.pop_empty [OF rd(1) gp rd(2,3) True] pop_some(3) by simp
      next
        case False
        then have "li_lo (lw_cr (lw_of st t)) < li_hi (lw_cr (lw_of st t))" using queue_ok_le [OF qo] by simp
        then show False
          using li.pop_some [OF rd(1) gp rd(2,3)] pop_some(3) \<open>sint x = sint y\<close> gp by auto
      qed
    qed
    then show ?thesis using pop_some(1,2) size_body_pos [OF r] by simp
  next
    case (range_small b x y)
    have r: "range_ok (x, y)" "sint x < sint y" using t range_small(2) assms(3,4) by (auto simp: inv_live_def)
    then show ?thesis using range_small(1,2) size_body_pos [OF r] by simp
  next
    case (refill_end x y r)
    have r: "range_ok (x, y)" "sint x < sint y" using t refill_end(2) assms(3,4) by (auto simp: inv_live_def)
    then show ?thesis using refill_end(1,2) size_body_pos [OF r] by simp
  next
    case (refill g' a r)
    then show ?thesis by (cases g') simp_all
  next
    case (body rg)
    then show ?thesis by simp
  next
    case (sub r)
    have r0: "remain_of st = 0" using t sub(2) by simp
    have "lw_workdone (lw_of st t) = 0" using remain_zero(3) [OF i(4,5) g(11) r0 assms(4)] .
    then show ?thesis using sub r0 by simp
  next
    case (popany b k m)
    have "kaapi_bitmap_empty_256 m" if "k = 0"
      using ba256.afirst_zero_bits [of "slices_of st"] ba256.afirst_zero_ffs [of "slices_of st"] popany(3) that
      by (simp add: ba256.aempty_iff is_ffs_0)
    then show ?thesis using popany(1,2) by simp
  qed (use t w in \<open>auto\<close>)
qed

definition load_at :: "bool \<Rightarrow> foreach_state \<Rightarrow> nat \<Rightarrow> int" where
  "load_at z st t = rank_pc z (fs_pc st t) + rank_split (fs_split st t) - 20 * int (size (pc_body (fs_pc st t)))"

lemma load_of_at: "load_of st t = load_at (remain_of st = 0) st t"
  by (simp add: load_of_def load_at_def)

lemma load_switch: "(\<Sum>t<N. load_at True st t) \<le> (\<Sum>t<N. load_at False st t) + 9 * int N"
proof -
  have "(\<Sum>t<N. load_at True st t) \<le> (\<Sum>t<N. load_at False st t + 9)"
    using rank_pc_bounds(3) by (intro sum_mono) (simp add: load_at_def)
  then show ?thesis by (simp add: sum.distrib mult.commute)
qed

lemma potential_at:
  assumes "(\<Sum>t<N. load_at (remain_of st = 0) st' t) - 20 * int (size (ran_mset st')) <
    (\<Sum>t<N. load_at (remain_of st = 0) st t) - 20 * int (size (ran_mset st))"
    and "remain_of st = 0 \<Longrightarrow> remain_of st' = 0"
  shows "potential N F L st' < potential N F L st"
  using assms load_switch [of st' N] by (cases "remain_of st' = 0"; cases "remain_of st = 0") (simp_all add: potential_def load_of_at)

lemma worker_potential:
  assumes "worker_step N master t st st'" "foreach_inv N n master F L st" "inv_live N st" "t < N"
    and "\<not> (\<exists>b. fs_pc st t = FSelect b \<and> remain_of st \<noteq> 0)"
  shows "potential N F L st' < potential N F L st"
proof (rule potential_at)
  note i = foreach_invD [OF assms(2)]
  let ?l = "load_at (remain_of st = 0)"
  have o: "?l st' s = ?l st s" if "s \<noteq> t" for s
    using worker_frame(1,2) [OF assms(1)] that by (simp add: load_at_def)
  have "0 + (\<Sum>s<N. ?l st' s) + ?l st t = 0 + (\<Sum>s<N. ?l st s) + ?l st' t"
    using o by (intro account1 [OF assms(4)]) simp_all
  moreover have "?l st' t - 20 * int (size (ran_mset st')) < ?l st t - 20 * int (size (ran_mset st))"
    using worker_load [OF assms] worker_frame(2) [OF assms(1)] by (simp add: load_at_def)
  ultimately show "(\<Sum>t<N. ?l st' t) - 20 * int (size (ran_mset st')) < (\<Sum>t<N. ?l st t) - 20 * int (size (ran_mset st))"
    by simp
  show "remain_of st = 0 \<Longrightarrow> remain_of st' = 0"
    using worker_remain_zero [OF assms(1) i(4,5) inv_staticD(11) [OF i(1)] assms(4)] .
qed

subsection \<open>A step of a splitter\<close>

text \<open>Only the splitter and the thread it answers change.\<close>

lemma split_potential:
  assumes "v < N" "remain_of st' = remain_of st" "ran_mset st' = ran_mset st"
    and "\<And>s. s \<noteq> v \<Longrightarrow> fs_split st' s = fs_split st s"
    and p: "\<And>s. s \<noteq> tid \<Longrightarrow> fs_pc st' s = fs_pc st s \<or> \<not> busy (fs_pc st' s) \<and> \<not> busy (fs_pc st s)"
    and d: "rank_pc (remain_of st = 0) (fs_pc st' tid) - 20 * int (size (pc_body (fs_pc st' tid))) + rank_split (fs_split st' v)
      < rank_pc (remain_of st = 0) (fs_pc st tid) - 20 * int (size (pc_body (fs_pc st tid))) + rank_split (fs_split st v)"
    and t: "tid < N"
  shows "potential N F L st' < potential N F L st"
proof (rule potential_at)
  let ?l = "load_at (remain_of st = 0)" and ?r = "\<lambda>st s. rank_pc (remain_of st = 0) (fs_pc st s) - 20 * int (size (pc_body (fs_pc st s)))"
  have nb: "rank_pc z q = 0" "pc_body q = {#}" if "\<not> busy q" for z q using that by (cases q; simp)+
  have r: "?r st' s = ?r st s" if "s \<noteq> tid" for s using p [OF that] nb assms(2) by auto
  have e: "?l st s = ?r st s + rank_split (fs_split st s)" "?l st' s = ?r st' s + rank_split (fs_split st' s)" for s
    using assms(2) by (simp_all add: load_at_def)
  have R: "0 + (\<Sum>s<N. ?r st' s) + ?r st tid = 0 + (\<Sum>s<N. ?r st s) + ?r st' tid"
    using r by (intro account1 [OF t]) simp_all
  have S: "0 + (\<Sum>s<N. rank_split (fs_split st' s)) + rank_split (fs_split st v) =
      0 + (\<Sum>s<N. rank_split (fs_split st s)) + rank_split (fs_split st' v)"
    using assms(4) by (intro account1 [OF assms(1)]) simp_all
  have "(\<Sum>s<N. ?l st s) = (\<Sum>s<N. ?r st s) + (\<Sum>s<N. rank_split (fs_split st s))"
    "(\<Sum>s<N. ?l st' s) = (\<Sum>s<N. ?r st' s) + (\<Sum>s<N. rank_split (fs_split st' s))"
    unfolding e by (simp_all add: sum.distrib)
  then show "(\<Sum>t<N. ?l st' t) - 20 * int (size (ran_mset st')) < (\<Sum>t<N. ?l st t) - 20 * int (size (ran_mset st))"
    using R S d assms(2,3) by simp
qed (use assms(2) in simp)

lemma end_potential:
  assumes "foreach_inv N n master F L st" "v < N" "split_lri (fs_split st v) = Some lri" "\<not> in_reset (fs_split st v)"
  shows "potential N F L (split_end v lri st) < potential N F L st"
proof (rule split_potential [where tid = v, OF assms(2)])
  note sv = inv_splitsD [OF foreach_invD(3) [OF assms(1)] assms(2)]
  have P: "s \<in> lri_pending bits256 lri \<longleftrightarrow> s < N \<and> fs_pc st s = FPosted v" for s using sv(5) [OF assms(3,4)] by blast
  have nS: "fs_split st v \<noteq> SNone" using assms(3) by auto
  then have "0 < stage (fs_split st v)" using stage_bounds [of "fs_split st v"] by linarith
  moreover have "v \<notin> lri_pending bits256 lri" using nS sv(2) P [of v] under_split_busy by metis
  ultimately show "rank_pc (remain_of st = 0) (fs_pc (split_end v lri st) v) - 20 * int (size (pc_body (fs_pc (split_end v lri st) v))) +
      rank_split (fs_split (split_end v lri st) v)
    < rank_pc (remain_of st = 0) (fs_pc st v) - 20 * int (size (pc_body (fs_pc st v))) + rank_split (fs_split st v)"
    by (simp add: rank_split_def)
  show "fs_pc (split_end v lri st) s = fs_pc st s \<or> \<not> busy (fs_pc (split_end v lri st) s) \<and> \<not> busy (fs_pc st s)" for s
    using P [of s] by simp
qed (use assms(2) in simp_all)

lemma move_potential:
  assumes "v < N" "fs_pc st1 = fs_pc st" "remain_of st1 = remain_of st" "ran_mset st1 = ran_mset st"
    and "fs_split st1 = fs_split st" "requests s = requests (fs_split st v)" "stage s < stage (fs_split st v)"
  shows "potential N F L (set_split v s st1) < potential N F L st"
  using assms by (intro split_potential [where tid = v, OF assms(1)]) (simp_all add: rank_split_def)

text \<open>A commit wakes a thread; the request it answers weighs more.\<close>

lemma in_loop_stage: "in_loop k \<Longrightarrow> stage k \<le> 12"
  by (cases k) simp_all

lemma commit_potential:
  assumes "foreach_inv N n master F L st" "v < N" "fs_split st v = SReset RCommit tid rg k"
  shows "potential N F L (set_split v k (commit_reply v tid st)) < potential N F L st"
proof -
  note sv = inv_splitsD [OF foreach_invD(3) [OF assms(1)] assms(2)]
  have P: "insert tid (requests k) = {t. t < N \<and> fs_pc st t = FPosted v}" using sv(4) assms(3) by simp
  then have t: "tid < N" "fs_pc st tid = FPosted v" by auto
  have k: "tid \<notin> requests k" "stage k \<le> 12" using sv(1) assms(3) in_loop_stage by simp_all
  have "requests k \<subseteq> {..<N}" using P by auto
  then have "finite (requests k)" using finite_subset by blast
  then have c: "int (card (requests (fs_split st v))) = 1 + int (card (requests k))"
    using k(1) assms(3) by simp
  show ?thesis
  proof (rule split_potential [where tid = tid, OF assms(2)])
    show "rank_pc (remain_of st = 0) (fs_pc (set_split v k (commit_reply v tid st)) tid) -
        20 * int (size (pc_body (fs_pc (set_split v k (commit_reply v tid st)) tid))) +
        rank_split (fs_split (set_split v k (commit_reply v tid st)) v)
      < rank_pc (remain_of st = 0) (fs_pc st tid) - 20 * int (size (pc_body (fs_pc st tid))) + rank_split (fs_split st v)"
      using t(2) c k(2) by (simp add: commit_reply_def rank_split_def) (simp add: assms(3))
  qed (use t in \<open>simp_all add: commit_reply_def\<close>)
qed

lemma reset_progress:
  assumes "foreach_inv N n master F L st" "v < N" "fs_split st v = SReset g tid rg k"
  shows "\<exists>st'. split_step N v st st' \<and> potential N F L st' < potential N F L st"
proof -
  have m: "potential N F L (set_split v (SReset (reset_next g) tid rg k) st1) < potential N F L st"
    if "fs_pc st1 = fs_pc st" "remain_of st1 = remain_of st" "ran_mset st1 = ran_mset st" "fs_split st1 = fs_split st"
      "g \<noteq> RCommit" for st1
    by (rule move_potential [OF assms(2) that(1-4)]) (use that(5) in \<open>cases g; simp add: assms(3)\<close>)+
  show ?thesis
  proof (cases g)
    case RCount
    then show ?thesis using split_step.count [of st v tid rg k N] m [of "add_workerdone 1 st"] assms(3)
      by (intro exI [of _ "set_split v (SReset RBeg tid rg k) (add_workerdone 1 st)"]) simp
  next
    case RPush
    then show ?thesis using split_step.push [of st v tid rg k N] m [of "add_thieves 1 st"] assms(3)
      by (intro exI [of _ "set_split v (SReset RCommit tid rg k) (add_thieves 1 st)"]) simp
  next
    case RCommit
    then show ?thesis using split_step.commit [of st v tid rg k N] commit_potential [OF assms(1,2), of tid rg k] assms(3)
      by (intro exI [of _ "set_split v k (commit_reply v tid st)"]) simp
  qed (use split_step.store [OF assms(3), of N] m [of "set_lw tid (reset_store g rg (lw_of st tid)) st"] in
    \<open>intro exI [of _ "set_split v (SReset (reset_next g) tid rg k) (set_lw tid (reset_store g rg (lw_of st tid)) st)"], simp\<close>)+
qed

lemma split_progress:
  assumes "foreach_inv N n master F L st" "v < N" "fs_split st v \<noteq> SNone"
  shows "\<exists>st'. split_step N v st st' \<and> potential N F L st' < potential N F L st"
proof -
  note i = foreach_invD [OF assms(1)]
  note g = inv_staticD [OF i(1)]
  note sv = inv_splitsD [OF i(3) assms(2)]
  note E = end_potential [OF assms(1,2)]
  have il: "requests s = requests (fs_split st v)" if "split_lri s = split_lri (fs_split st v)" "split_lri s \<noteq> None"
    "\<not> in_reset s" "\<not> in_reset (fs_split st v)" for s
    using that requests_lri by (metis option.exhaust)
  show ?thesis
  proof (cases "fs_split st v")
    case (SStart lri)
    have "potential N F L (set_split v (SMask lri (request_mask (gw_wa (fs_gw st)) lri)) st) < potential N F L st"
      by (rule move_potential [OF assms(2)]) (simp_all add: SStart)
    then show ?thesis using split_step.start [OF SStart, of N] E [of lri] SStart by (auto split: if_splits)
  next
    case (SMask lri msk)
    have "potential N F L (set_split v (if b then SLocal lri else SClaim lri msk) st) < potential N F L st" for b
      by (rule move_potential [OF assms(2)]) (simp_all add: SMask)
    then show ?thesis using split_step.intersect [OF SMask, of N] by blast
  next
    case (SClaim lri msk)
    obtain replymask m where m: "kaapi_bitmap_and_256 msk (slices_of st) (kaapi_bitmap_value_neg_256 msk msk) = (replymask, m)"
      by fastforce
    have "potential N F L (set_split v (SReply lri (kaapi_bitmap_value_and_256 replymask msk)) (set_slices m st)) < potential N F L st"
      by (rule move_potential [OF assms(2)]) (simp_all add: SClaim)
    then show ?thesis using split_step.claim [OF SClaim refl m, of N] by blast
  next
    case (SReply lri rm)
    obtain r rm' where f: "kaapi_bitmap_value_first1_and_zero_256 rm = (r, rm')" by fastforce
    show ?thesis
    proof (cases r)
      case 0
      have "potential N F L (set_split v (SLocal lri) st) < potential N F L st"
        by (rule move_potential [OF assms(2)]) (simp_all add: SReply)
      then show ?thesis
        using split_step.reply_end [OF SReply f [unfolded 0], of N] E [of lri] SReply by (auto split: if_splits)
    next
      case (Suc tid)
      have b: "tid \<in> bits256 rm" using bv256.first_zero_Suc [OF f [unfolded Suc]] by simp
      have P: "bits256 rm \<subseteq> lri_pending bits256 lri \<inter> {..<n}" using sv(1) SReply by simp
      have t: "tid < n" "tid < 256" "tid \<in> lri_pending bits256 lri" using b P g(9,10) by auto
      have li: "lri_inv bits256 lri" using sv(3) SReply by simp
      have "remain_of st \<noteq> 0"
      proof
        assume "remain_of st = 0"
        then have "slices_mset (gw_wa (fs_gw st)) (bits256 rm) = {#}"
          using remain_zero(2) [OF i(4,5) g(11) _ assms(2)] SReply by (simp add: work_of_def)
        then show False
          using slices_mset_remove [OF bv256.finite_bits b] identity_slice(2) [OF g(1-3) t(1)] by simp
      qed
      then have gw: "kaapic_global_getwork (fs_gw st) tid = Some (slice_of (gw_wa (fs_gw st)) tid)"
        using getwork_identity [OF i(1) t(1)] by simp
      define k where "k = SReply (kaapi_listrequest_iterator_unset_at kaapi_bitmap_value_unset_256
        kaapi_bitmap_value_first1_and_zero_256 lri tid) rm'"
      have "requests (SReset RCount tid (slice_of (gw_wa (fs_gw st)) tid) k) = requests (fs_split st v)"
        using bv256.lri_unset_at_pending [OF li t(2)] t(3) SReply by (auto simp: k_def)
      then have "potential N F L (set_split v (SReset RCount tid (slice_of (gw_wa (fs_gw st)) tid) k) st) < potential N F L st"
        by (rule move_potential [OF assms(2) refl refl refl refl]) (simp add: SReply)
      then show ?thesis
        using split_step.reply_some [OF SReply f [unfolded Suc] gw refl, of N] unfolding k_def by blast
    qed
  next
    case (SLocal lri)
    have "potential N F L (set_split v (SSize lri) st) < potential N F L st"
      by (rule move_potential [OF assms(2)]) (simp_all add: SLocal)
    then show ?thesis using split_step.local_init [OF SLocal, of N] E [of lri] SLocal by (auto split: if_splits)
  next
    case (SSize lri)
    have "potential N F L (set_split v (SHalf lri c x) st) < potential N F L st" for c x
      by (rule move_potential [OF assms(2)]) (simp_all add: SSize)
    then show ?thesis using split_step.local_bound [OF SSize, of N] by blast
  next
    case (SHalf lri c x)
    have "potential N F L (set_split v (SSteal lri nreq u) st) < potential N F L st" for nreq u
      by (rule move_potential [OF assms(2)]) (simp_all add: SHalf)
    then show ?thesis
      using split_step.local_size [OF SHalf refl, of N] E [of lri] SHalf
      by (auto split: if_splits option.splits)
  next
    case (SSteal lri nreq u)
    obtain r l where s: "kaapic_local_work_steal (lw_of st v) (word_of_int nreq * u) = (r, l)" by fastforce
    have ok: "0 < nreq" "0 < sint u" "nreq * sint u \<le> 2 * ibound" using sv(1) SSteal by simp_all
    show ?thesis
    proof (cases r)
      case None
      have m: "0 < sint (word_of_int nreq * u)" "sint (word_of_int nreq * u) \<le> 2 * ibound"
        using steal_size [OF ok] ok by simp_all
      have "under_split (fs_pc st v)" using sv(2) SSteal by simp
      then have "l = lw_of st v"
        using local_steal_None [OF s [unfolded None] under_split_queue(1) [OF i(2) assms(2)] m] by simp
      then show ?thesis using split_step.local_steal [OF SSteal s, of N] None E [of lri] SSteal by auto
    next
      case (Some rg)
      have "potential N F L (set_split v (SServe lri nreq u rg) (set_lw v l st)) < potential N F L st"
        by (rule move_potential [OF assms(2)]) (simp_all add: SSteal)
      then show ?thesis using split_step.local_steal [OF SSteal s, of N] Some by auto
    qed
  next
    case (SServe lri nreq u rg)
    obtain x y where rg: "rg = (x, y)" by fastforce
    have li: "lri_inv bits256 lri" using sv(3) SServe by simp
    show ?thesis
    proof (cases "lri_empty256 lri \<or> nreq \<le> 0")
      case True
      then show ?thesis using split_step.serve_end [OF SServe, of N] E [of lri] SServe by auto
    next
      case False
      then have ne: "lri_pending bits256 lri \<noteq> {}" "0 < nreq" by (auto simp: lri_empty256_def bv256.lri_empty)
      then have c: "lri_idcurr lri \<noteq> - 1" using li by (auto simp: lri_pending_def lri_inv_def split: if_splits)
      define tid where "tid = nat (lri_idcurr lri)"
      have gt: "kaapi_listrequest_iterator_get lri = Some tid"
        using c by (simp add: kaapi_listrequest_iterator_get_def request_ptr_def tid_def)
      have P: "tid \<in> lri_pending bits256 lri" "lri_pending bits256 (lri_next256 lri) = lri_pending bits256 lri - {tid}"
        using c li bv256.lri_next_pending [of lri] by (auto simp: lri_pending_def lri_inv_def tid_def lri_next256_def)
      have "requests (SReset RBeg tid (y - u, y) (SServe (lri_next256 lri) (nreq - 1) u (x, y - u))) = requests (fs_split st v)"
        using P SServe by auto
      then have "potential N F L (set_split v (SReset RBeg tid (y - u, y) (SServe (lri_next256 lri) (nreq - 1) u (x, y - u))) st)
          < potential N F L st"
        by (rule move_potential [OF assms(2) refl refl refl refl]) (simp add: SServe)
      then show ?thesis
        using split_step.serve [OF SServe [unfolded rg] ne(2) gt, of N] by blast
    qed
  next
    case (SReset g tid rg k)
    then show ?thesis by (rule reset_progress [OF assms(1,2)])
  qed (use assms(3) in simp)
qed

section \<open>Progress\<close>

definition waiting :: "nat \<Rightarrow> nat \<Rightarrow> foreach_state \<Rightarrow> bool" where
  "waiting master t st \<longleftrightarrow> (\<exists>b. fs_pc st t = FSelect b \<and> remain_of st \<noteq> 0)
     \<or> fs_pc st t = FMerge \<and> t = master \<and> fs_thieves st \<noteq> 0
     \<or> fs_pc st t = FWait \<and> 0 < gw_workerdone (fs_gw st) \<or> fs_pc st t = FDone"

lemma worker_can_step:
  assumes "busy (fs_pc st t)" "fs_split st t = SNone" "\<not> waiting master t st" "pc_ok N' n t (fs_pc st t)"
    and "\<And>b v u. fs_pc st t = FTry b v u \<Longrightarrow> queue_free v st"
  shows "\<exists>st'. worker_step N master t st st'"
proof (cases "fs_pc st t")
  case FNext
  then show ?thesis using worker_step.next_stop worker_step.next_go by blast
next
  case FPop
  obtain r q where p: "kaapi_workqueue_pop (lw_cr (lw_of st t)) (sgrain_of st) = (r, q)" by fastforce
  show ?thesis
  proof (cases r)
    case (Inl e)
    then show ?thesis using worker_step.pop_none [OF FPop] p by blast
  next
    case (Inr rg)
    obtain x y where "rg = (x, y)" by fastforce
    then show ?thesis using worker_step.pop_some [OF FPop] p Inr by blast
  qed
next
  case (FBody rg)
  then show ?thesis by (blast intro: worker_step.body)
next
  case FUninit
  then show ?thesis by (blast intro: worker_step.uninit)
next
  case FReport
  then show ?thesis by (blast intro: worker_step.report)
next
  case (FGlobal b)
  then show ?thesis using worker_step.global_end worker_step.global_go by blast
next
  case (FSlices b)
  show ?thesis
  proof (cases "kaapi_bitmap_first1_256 (slices_of st)")
    case 0
    then show ?thesis using worker_step.slices_none [OF FSlices] by blast
  next
    case (Suc k)
    then show ?thesis using worker_step.slices_some [OF FSlices] by blast
  qed
next
  case (FSlice b k)
  obtain r m where "kaapi_bitmap_unset_256 (slices_of st) (unat (tid2pos (gw_wa (fs_gw st)) k)) = (r, m)" by fastforce
  then show ?thesis
    using worker_step.slice_unmapped [OF FSlice] worker_step.slice_pop [OF FSlice _ refl] by blast
next
  case (FPopAny b)
  obtain k m where "kaapi_bitmap_first1_and_zero_256 (\<lambda>_ m. m) (slices_of st) = (k, m)" by fastforce
  then show ?thesis using worker_step.popany [OF FPopAny] by blast
next
  case (FGot b pos)
  then show ?thesis by (blast intro: worker_step.got)
next
  case (FSelect b)
  then show ?thesis using assms(3) worker_step.select_end [OF FSelect] by (auto simp: waiting_def)
next
  case (FVictim b v)
  then show ?thesis by (blast intro: worker_step.victim_init)
next
  case (FSize b v)
  then show ?thesis by (blast intro: worker_step.victim_bound)
next
  case (FHalf b v c x)
  then show ?thesis by (blast intro: worker_step.victim_size)
next
  case (FTry b v u)
  obtain r l where s: "kaapic_local_work_steal (lw_of st v) u = (r, l)" by fastforce
  have qf: "queue_free v st" using assms(5) FTry by blast
  show ?thesis
  proof (cases r)
    case None
    then show ?thesis using worker_step.try_none [OF FTry qf] s by blast
  next
    case (Some rg)
    then show ?thesis using worker_step.try_some [OF FTry qf] s by blast
  qed
next
  case (FRange b rg)
  obtain x y where "rg = (x, y)" by fastforce
  then show ?thesis
    using FRange assms(2) worker_step.range_small [of st t b x y] worker_step.range_large [of st t b x y] by blast
next
  case (FRefill g a r)
  obtain x y where a: "a = (x, y)" by fastforce
  show ?thesis
  proof (cases "g = RPush")
    case True
    then show ?thesis using FRefill worker_step.refill_end [of st t x y r] unfolding a by blast
  next
    case False
    then have "g \<in> {RBeg, REnd, RInit}" using assms(4) FRefill by auto
    then show ?thesis using worker_step.refill [OF FRefill] by blast
  qed
next
  case FSub
  then show ?thesis by (blast intro: worker_step.sub)
next
  case FReturn
  then show ?thesis by (blast intro: worker_step.return)
next
  case FUnset
  then show ?thesis by (blast intro: worker_step.unset)
next
  case FSync
  then show ?thesis using worker_step.sync assms(2) by blast
next
  case FDecr
  then show ?thesis by (blast intro: worker_step.decr)
next
  case FMerge
  show ?thesis
  proof (cases "t = master")
    case True
    then have "fs_thieves st = 0" using assms(3) FMerge by (auto simp: waiting_def)
    then show ?thesis using worker_step.merge_master [OF FMerge True] by blast
  next
    case False
    then show ?thesis using worker_step.merge_thief [OF FMerge] by blast
  qed
next
  case FWait
  then show ?thesis using assms(3) worker_step.wait [OF FWait] by (auto simp: waiting_def)
qed (use assms(1,3) in \<open>auto simp: waiting_def\<close>)

lemma someone_works:
  assumes "foreach_inv N n master F L st" "inv_live N st" "fs_pc st master \<noteq> FDone" "\<forall>v < N. fs_split st v = SNone"
  shows "\<exists>t < N. busy (fs_pc st t) \<and> \<not> waiting master t st"
proof (rule ccontr)
  assume "\<not> (\<exists>t < N. busy (fs_pc st t) \<and> \<not> waiting master t st)"
  then have W: "waiting master t st" if "t < N" "busy (fs_pc st t)" for t using that by blast
  note i = foreach_invD [OF assms(1)]
  note c = i(6) [unfolded inv_counts_def]
  have np: "fs_pc st t \<noteq> FPosted v" if "t < N" for t v
  proof
    assume p: "fs_pc st t = FPosted v"
    then have v: "v < N" using inv_threadsD [OF i(2) that] by (simp add: thread_ok_def)
    then have "t \<in> requests (fs_split st v)" using inv_splitsD(4) [OF i(3) v] p that by simp
    then show False using assms(4) v by simp
  qed
  show False
  proof (cases "remain_of st = 0")
    case False
    have "fs_pc st t = FIdle \<or> (\<exists>b. fs_pc st t = FSelect b)" if "t < N" for t
    proof (cases "busy (fs_pc st t)")
      case True
      have "\<not> final (fs_pc st t)" using inv_threadsD [OF i(2) that] False by (auto simp: thread_ok_def)
      then show ?thesis using W [OF that True] by (auto simp: waiting_def)
    next
      case False
      then show ?thesis using np [OF that] by (cases "fs_pc st t") auto
    qed
    note p = this
    have z: "work_of st t = {#} \<and> slack_of st t = 0" if "t < N" for t
    proof -
      have "\<not> lw_init (lw_of st t)" using inv_threadsD [OF i(2) that] p [OF that] by (auto simp: thread_ok_def)
      then show ?thesis
        using p [OF that] assms(2,4) that by (auto simp: work_of_def lw_left_def slack_of_def inv_live_def)
    qed
    have "busy (fs_pc st master)" "master < N" using c by auto
    then have "abits256 (slices_of st) = {}" using p [of master] assms(2) by (auto simp: inv_live_def)
    moreover have "(\<Sum>t<N. work_of st t) = {#}" "(\<Sum>t<N. slack_of st t) = 0" using z by (simp_all add: sum.neutral)
    ultimately have "ran_mset st = mset_set {F..<L}" "sint (remain_of st) + int (size (ran_mset st)) = L - F"
      using i(4,5) by (simp_all add: inv_work_def fs_work_def slices_mset_def inv_remain_def)
    then have "sint (remain_of st) = 0" using inv_staticD(11) [OF i(1)] by simp
    then show False using False by (metis signed_0 signed_word_eqI)
  next
    case True
    have nb0: "\<not> busy (fs_pc st t)" if "t < N" "t \<noteq> master" for t
      using W [OF that(1)] c that True by (auto simp: waiting_def)
    have nb: "\<not> busy (fs_pc st t) \<and> phase_of st t = None" if "t < N" "t \<noteq> master" for t
      using np [OF that(1)] nb0 [OF that] by (cases "fs_pc st t") auto
    then have e: "thieves_of N master st = {}" "workers_of N master st = {}"
      by (auto simp: thieves_of_def workers_of_def)
    have "waiting master master st" using W [of master] c by blast
    then show False using e c True assms(3) by (simp add: waiting_def)
  qed
qed

lemma foreach_progress:
  assumes "foreach_inv N n master F L st" "inv_live N st" "fs_pc st master \<noteq> FDone"
  shows "\<exists>st'. foreach_step N master st st' \<and> potential N F L st' < potential N F L st"
proof (cases "\<exists>v < N. fs_split st v \<noteq> SNone")
  case True
  then show ?thesis using split_progress [OF assms(1)] foreach_step.by_splitter by metis
next
  case False
  note i = foreach_invD [OF assms(1)]
  have go: "\<exists>st'. foreach_step N master st st' \<and> potential N F L st' < potential N F L st"
    if t: "t < N" "busy (fs_pc st t)" "\<not> waiting master t st" and q: "\<And>b v u. fs_pc st t = FTry b v u \<Longrightarrow> queue_free v st" for t
  proof -
    have "pc_ok N n t (fs_pc st t)" using inv_threadsD [OF i(2) t(1)] by (simp add: thread_ok_def)
    then obtain st' where s: "worker_step N master t st st'" using worker_can_step [OF t(2) _ t(3)] q False t(1) by blast
    have "potential N F L st' < potential N F L st"
      using worker_potential [OF s assms(1,2) t(1)] t(3) by (auto simp: waiting_def)
    then show ?thesis using foreach_step.by_worker [OF t(1) s] by blast
  qed
  obtain t where t: "t < N" "busy (fs_pc st t)" "\<not> waiting master t st"
    using someone_works [OF assms] False by blast
  show ?thesis
  proof (cases "\<exists>v < N. refilling (fs_pc st v)")
    case True
    then obtain v where v: "v < N" "refilling (fs_pc st v)" by blast
    then show ?thesis by (intro go [of v]; cases "fs_pc st v") (auto simp: waiting_def)
  next
    case nr: False
    have "queue_free v st" if "fs_pc st t = FTry b v u" for b v u
      using inv_threadsD [OF i(2) t(1)] that nr False by (simp add: thread_ok_def queue_free_def)
    then show ?thesis by (rule go [OF t])
  qed
qed

lemma foreach_completes:
  assumes "foreach_inv N n master F L st" "inv_live N st"
  shows "\<exists>st'. (foreach_step N master)\<^sup>*\<^sup>* st st' \<and> fs_pc st' master = FDone"
  using assms
proof (induction "nat (potential N F L st)" arbitrary: st rule: less_induct)
  case less
  show ?case
  proof (cases "fs_pc st master = FDone")
    case False
    then obtain st1 where s: "foreach_step N master st st1" "potential N F L st1 < potential N F L st"
      using foreach_progress [OF less.prems] by blast
    have i: "foreach_inv N n master F L st1" "inv_live N st1"
      using foreach_step_inv [OF s(1)] foreach_step_live [OF s(1)] less.prems by simp_all
    have "0 \<le> potential N F L st1"
      using potential_nonneg inv_staticD(11) foreach_invD(1,4) [OF i(1)] by blast
    then have "nat (potential N F L st1) < nat (potential N F L st)" using s(2) by simp
    then show ?thesis using less.hyps [OF _ i] s(1) by (meson converse_rtranclp_into_rtranclp)
  qed blast
qed

end
