(* ===== verification/Foreach_Props.thy ===== *)
theory Foreach_Props
  imports Foreach_Live
begin

text \<open>
  The parallel loop from its start to its return: the state \<^verbatim>\<open>kaapic_foreach_workinit\<close> leaves satisfies the
  invariant, and the properties of all states reachable from it.
\<close>

section \<open>The start\<close>

text \<open>The calls the invariant speaks of: thread 0 starts the loop, the threads of the attributes' set are the
  first ones, the grains are positive and nothing overflows.  The default attributes are such.  Without the
  first two conditions iterations may run twice or never (\<open>Foreach_Runs\<close>).\<close>

definition nthreads_of :: "nat \<Rightarrow> kaapic_foreach_attr \<Rightarrow> nat" where
  "nthreads_of N attr = (if attr_nthreads attr = - 1 then N else unat (attr_nthreads attr))"

definition foreach_conf :: "nat \<Rightarrow> kaapic_foreach_attr \<Rightarrow> uint64 \<Rightarrow> uint64 \<Rightarrow> bool" where
  "foreach_conf N attr first lst \<longleftrightarrow> N \<le> 254 \<and> sint first < sint lst \<and> - ibound \<le> sint first \<and> sint lst \<le> ibound
     \<and> 1 \<le> sint (s_grain attr) \<and> sint (s_grain attr) \<le> ibound \<and> 1 \<le> sint (p_grain attr) \<and> nthreads_of N attr \<le> 256
     \<and> (\<exists>m. 0 < m \<and> m \<le> N \<and> {..<nthreads_of N attr} \<inter> cpus (attr_threadset attr) = {..<m})"

definition empty_lwork :: "(nat \<Rightarrow> nat) \<Rightarrow> nat \<Rightarrow> kaapic_local_work" where
  "empty_lwork kproc_lock i =
     \<lparr>lw_cr = \<lparr>rep_end = 0, rep_beg = 0, wq_lock = Some (kproc_lock i)\<rparr>, lw_init = False, lw_workdone = 0, lw_tid = i\<rparr>"

lemma init_lwork_fold:
  "fold (init_lwork k) [0..<N] gw = gw\<lparr>gw_lwork := \<lambda>i. if i < N then empty_lwork k i else gw_lwork gw i\<rparr>"
proof (induction N)
  case 0
  then show ?case by simp
next
  case (Suc N)
  then show ?case
    by (auto simp: init_lwork_def upd_lwork_def empty_lwork_def kaapi_workqueue_init_with_lock_def fun_eq_iff)
qed

lemma slices_total:
  assumes "identity_wa N n F L wa" "k \<le> n"
  shows "slices_mset wa {..<k} = mset_set {F..<sint (startindex wa k)}"
  using assms(2)
proof (induction k)
  case 0
  then show ?case using assms(1) by (simp add: slices_mset_def identity_wa_def)
next
  case (Suc k)
  have l: "F \<le> sint (startindex wa k)" "sint (startindex wa k) \<le> sint (startindex wa (Suc k))"
    using identity_start_bounds(1) [OF assms(1), of k] assms(1) Suc.prems by (simp_all add: identity_wa_def less_imp_le)
  have "slices_mset wa {..<Suc k} = slices_mset wa {..<k} + range_mset sint (slice_of wa k)"
    by (simp add: slices_mset_def lessThan_Suc)
  also have "\<dots> = mset_set {F..<sint (startindex wa (Suc k))}"
    using Suc ivl_split [OF l] by (simp add: slice_of_def range_mset_def)
  finally show ?case .
qed

lemma workinit_start:
  assumes "foreach_conf N attr first lst"
  obtains gw n where "kaapic_foreach_workinit mask0 k N gw0 0 first lst attr body_f = Some (Some gw)"
    and "foreach_inv N n 0 (sint first) (sint lst) (foreach_start 0 gw)" and "gw_body gw = body_f"
    and "inv_live N (foreach_start 0 gw)"
proof -
  from assms obtain m where m: "0 < m" "m \<le> N" "{..<nthreads_of N attr} \<inter> cpus (attr_threadset attr) = {..<m}"
    by (auto simp: foreach_conf_def)
  define F L where "F = sint first" and "L = sint lst"
  have b: "N \<le> 254" "F < L" "- ibound \<le> F" "L \<le> ibound" "1 \<le> sint (s_grain attr)" "sint (s_grain attr) \<le> ibound"
    "1 \<le> sint (p_grain attr)" "nthreads_of N attr \<le> 256"
    using assms by (simp_all add: foreach_conf_def F_def L_def)
  have d: "L - F < 2 ^ 63" using b(3,4) ibound_simps by linarith
  define n where "n = min m (nat (L - F))"
  obtain wa where wa: "kaapic_foreach_initwa mask0 N (gw_wa gw0) 0 (attr_threadset attr) (nthreads_of N attr) first lst = Some wa"
    "identity_wa N n F L wa" "abits256 (wa_map wa) = {..<n}"
    using initwa_identity [OF b(2) [unfolded F_def L_def] d [unfolded F_def L_def] b(8,1) m(3,1,2), where wa = "gw_wa gw0" and ?mask0.0 = mask0]
    unfolding n_def F_def L_def by metis
  have n: "0 < n" "n \<le> N" using wa(2) by (simp_all add: identity_wa_def)
  have N: "0 < N" using n by simp
  define wi where "wi = \<lparr>par_grain = p_grain attr, seq_grain = s_grain attr, wi_nthreads = of_nat (nthreads_of N attr),
    wi_threadset = attr_threadset attr, itercount = lst - first\<rparr>"
  define g1 where "g1 = gw0\<lparr>gw_wa := wa, gw_workremain := lst - first, gw_workerdone := 0,
    gw_lwork := \<lambda>i. if i < N then empty_lwork k i else gw_lwork gw0 i, gw_wi := wi, gw_body := body_f\<rparr>"
  have nl: "\<not> lst \<le>s first" using b(2) by (simp add: word_sle_eq F_def L_def)
  have g1: "kaapic_foreach_global_workinit mask0 k N gw0 0 first lst attr body_f = Some (Some g1)"
    using nl wa(1) by (simp add: kaapic_foreach_global_workinit_def Let_def init_lwork_fold g1_def wi_def nthreads_of_def
        cong: if_cong)
  define mp where "mp = snd (kaapi_bitmap_unset_256 (wa_map wa) 0)"
  have mp: "abits256 mp = {..<n} - {0}" using ba256.abits_unset [of 0 "wa_map wa"] wa(3) by (simp add: mp_def)
  have u: "kaapi_bitmap_unset_256 (wa_map wa) 0 = (0, mp)"
    using ba256.aunset_ret [of 0 "wa_map wa"] wa(3) n(1) by (simp add: mp_def prod_eq_iff)
  have t0: "tid2pos wa 0 = 0" using wa(2) n N by (simp add: identity_wa_def)
  have sr: "sint (lst - first) = L - F" using d b(2) sint_diff_fits [of lst first] by (simp add: F_def L_def)
  then have r: "lst - first \<noteq> 0" using b(2) by auto
  define gw where "gw = upd_lwork 0 (kaapic_foreach_local_workinit (empty_lwork k 0) (slice_of wa 0)) (set_map mp g1)"
  have pop: "kaapic_global_work_pop g1 0 = (Some (slice_of wa 0), set_map mp g1)"
    using t0 u r by (simp add: kaapic_global_work_pop_def Let_def g1_def set_map_def)
  have w: "kaapic_foreach_workinit mask0 k N gw0 0 first lst attr body_f = Some (Some gw)"
    using nl g1 pop N by (simp add: kaapic_foreach_workinit_def gw_def g1_def set_map_def)
  have gs: "gw_wa gw = wa\<lparr>wa_map := mp\<rparr>" "gw_wi gw = wi" "gw_workremain gw = lst - first" "gw_workerdone gw = 0"
    "gw_lwork gw 0 = kaapic_foreach_local_workinit (empty_lwork k 0) (slice_of wa 0)"
    "\<And>i. 0 < i \<Longrightarrow> i < N \<Longrightarrow> gw_lwork gw i = empty_lwork k i" "gw_body gw = body_f"
    by (simp_all add: gw_def g1_def set_map_def upd_lwork_def)
  let ?st = "foreach_start 0 gw"
  have st: "fs_gw ?st = gw" "fs_pc ?st = (\<lambda>_. FIdle)(0 := FNext)" "fs_split ?st = (\<lambda>_. SNone)" "fs_ran ?st = []"
    "fs_bad ?st = False" "fs_thieves ?st = 0" by (simp_all add: foreach_start_def)
  have e: "queue_ok (lw_cr (empty_lwork k i))" "li_lo (lw_cr (empty_lwork k i)) = li_hi (lw_cr (empty_lwork k i))"
    "lw_left (empty_lwork k i) = {#}" "lw_workdone (empty_lwork k i) = 0" "\<not> lw_init (empty_lwork k i)" for i
    using ibound_simps by (simp_all add: queue_ok_def li_ready_def li_lo_def li_hi_def empty_lwork_def lw_left_def)
  have s0: "range_ok (slice_of wa 0)" using identity_slice(1) [OF wa(2) b(3,4) n(1)] .
  have "inv_static N n F L ?st"
    using wa(2) b mp by (auto simp: inv_static_def st gs wi_def)
  moreover have "inv_threads N n ?st"
    unfolding inv_threads_def
  proof (intro allI impI)
    fix t assume "t < N"
    then show "thread_ok N n (remain_of ?st) t (fs_pc ?st t) (phase_of ?st t) (lw_of ?st t)"
      using e gs(6) [of t] workinit_ok(1) [OF e(1) s0] by (cases "t = 0") (simp_all add: thread_ok_def st gs(5))
  qed
  moreover have "inv_splits N n ?st" by (auto simp: inv_splits_def st)
  moreover have "inv_work N F L ?st"
  proof -
    have o: "work_of ?st t = {#}" if "0 < t" "t < N" for t using that e gs(6) by (simp add: work_of_def st)
    have z: "work_of ?st 0 = range_mset sint (slice_of wa 0)"
      using workinit_ok(2) [OF e(1) s0] by (simp add: work_of_def st gs(5))
    have "(\<Sum>t<N. work_of ?st t) = work_of ?st 0 + (\<Sum>t\<in>{..<N} - {0}. work_of ?st t)"
      using N by (simp add: sum.remove)
    moreover have "(\<Sum>t\<in>{..<N} - {0}. work_of ?st t) = {#}" using o by (intro sum.neutral) simp
    ultimately have "(\<Sum>t<N. work_of ?st t) = range_mset sint (slice_of wa 0)" using z by simp
    moreover have "slices_mset wa {..<n} = mset_set {F..<L}"
      using slices_total [OF wa(2), of n] wa(2) by (simp add: identity_wa_def)
    ultimately show ?thesis
      using slices_mset_remove [of "{..<n}" 0 wa] n(1) mp
      by (simp add: inv_work_def fs_work_def ran_mset_def st gs(1))
  qed
  moreover have "inv_remain N F L ?st"
  proof -
    have "slack_of ?st t = 0" if "t < N" for t
      using that e gs(6) by (cases "t = 0") (simp_all add: slack_of_def st gs(5))
    then show ?thesis using sr by (simp add: inv_remain_def st gs(3) ran_mset_def)
  qed
  moreover have "inv_counts N 0 ?st"
    using N by (auto simp: inv_counts_def st gs(4) thieves_of_def workers_of_def)
  moreover have "inv_fresh N ?st"
    unfolding inv_fresh_def
  proof (intro allI impI)
    fix t assume "t < N" "fresh (remain_of ?st \<noteq> 0) (fs_split ?st) t (fs_pc ?st t)"
    then show "untouched N ?st t"
      using e(5) gs(6) [of t] by (cases "t = 0") (simp_all add: untouched_def st)
  qed
  ultimately have "foreach_inv N n 0 F L ?st" by (simp add: foreach_inv_def)
  moreover have "inv_live N ?st"
    unfolding inv_live_def
  proof (intro allI impI)
    fix t assume "t < N"
    then show "(parked (fs_pc ?st t) \<longrightarrow> lw_workdone (lw_of ?st t) = 0)
      \<and> (selecting (fs_pc ?st t) \<longrightarrow> abits256 (slices_of ?st) = {}) \<and> nonempty_range (fs_pc ?st t)"
      using e(4) gs(6) [of t] by (cases "t = 0") (simp_all add: st gs(5))
  qed
  ultimately show ?thesis using that w gs(7) by (simp add: F_def L_def)
qed

lemma loop_reachable_inv:
  assumes "foreach_conf N attr first lst"
    and "kaapic_foreach_workinit mask0 k N gw0 0 first lst attr body_f = Some (Some gw)"
    and "foreach_reachable N 0 gw st"
  obtains n where "foreach_inv N n 0 (sint first) (sint lst) st" and "inv_live N st"
proof -
  obtain n where n: "foreach_inv N n 0 (sint first) (sint lst) (foreach_start 0 gw)" "inv_live N (foreach_start 0 gw)"
    using workinit_start [OF assms(1), of mask0 k gw0 body_f] assms(2) by (metis option.inject)
  have "foreach_inv N n 0 (sint first) (sint lst) st \<and> inv_live N st"
    using assms(3) [unfolded foreach_reachable_def]
  proof (induction rule: rtranclp_induct)
    case base
    then show ?case using n by simp
  next
    case (step st1 st2)
    then show ?case using foreach_step_inv foreach_step_live by blast
  qed
  then show ?thesis using that by blast
qed

lemma loop_done_inv:
  assumes "foreach_inv N n 0 F L st" "fs_pc st 0 = FDone"
  shows "remain_of st = 0" and "ran_mset st = mset_set {F..<L}"
    and "t < N \<Longrightarrow> 0 < t \<Longrightarrow> fs_pc st t = FIdle" and "t < N \<Longrightarrow> fs_split st t = SNone"
proof -
  note i = foreach_invD [OF assms(1)]
  note c = i(6) [unfolded inv_counts_def]
  have N: "0 < N" using c by simp
  show r: "remain_of st = 0" using inv_threadsD [OF i(2) N] assms(2) by (simp add: thread_ok_def)
  have "F \<le> L" using inv_staticD(11) [OF i(1)] by simp
  then show "ran_mset st = mset_set {F..<L}" using remain_zero(1) [OF i(4,5) _ r] by simp
  have "card (thieves_of N 0 st) = 0" using c assms(2) by simp
  moreover have "finite (thieves_of N 0 st)" by (simp add: thieves_of_def)
  ultimately have e: "\<not> busy (fs_pc st s)" if "s < N" "0 < s" for s using that by (auto simp: thieves_of_def)
  have sn: "fs_split st v = SNone" if "v < N" for v
  proof -
    have "\<not> under_split (fs_pc st v)"
      using e [OF that] assms(2) under_split_busy [of "fs_pc st v"] by (cases "v = 0") auto
    then show ?thesis using i(3) that by (auto simp: inv_splits_def)
  qed
  show "t < N \<Longrightarrow> fs_split st t = SNone" by (rule sn)
  assume t: "t < N" "0 < t"
  show "fs_pc st t = FIdle"
  proof (cases "fs_pc st t")
    case (FPosted v)
    then have v: "v < N" using inv_threadsD [OF i(2) t(1)] by (simp add: thread_ok_def)
    then have "t \<in> requests (fs_split st v)" using inv_splitsD(4) [OF i(3) v] FPosted t by simp
    then show ?thesis using sn [OF v] by (simp)
  qed (use e [OF t] in auto)
qed

section \<open>A call\<close>

text \<open>The loop over 0 to 10 on four threads with the default attributes, on memory that held zeros.\<close>

definition sample_attr :: kaapic_foreach_attr where
  "sample_attr = kaapic_foreach_attr_init \<lparr>p_grain = 0, s_grain = 0, attr_nthreads = 0, attr_policy = 0,
     attr_threadset = \<lparr>cpu64_0 = 0, cpu64_1 = 0, cpu64_2 = 0, cpu64_3 = 0\<rparr>\<rparr>"

definition sample_work :: kaapic_global_work where
  "sample_work = \<lparr>gw_workremain = 0, gw_workerdone = 0,
     gw_wa = \<lparr>wa_map = \<lparr>proc256_0 = 0, proc256_1 = 0, proc256_2 = 0, proc256_3 = 0\<rparr>,
              tid2pos = (\<lambda>_. 0), startindex = (\<lambda>_. 0)\<rparr>,
     gw_lwork = (\<lambda>i. \<lparr>lw_cr = \<lparr>rep_end = 0, rep_beg = 0, wq_lock = None\<rparr>, lw_init = False, lw_workdone = 0, lw_tid = i\<rparr>),
     gw_body = False, gw_wi = \<lparr>par_grain = 0, seq_grain = 0, wi_nthreads = 0,
       wi_threadset = \<lparr>cpu64_0 = 0, cpu64_1 = 0, cpu64_2 = 0, cpu64_3 = 0\<rparr>, itercount = 0\<rparr>\<rparr>"

lemma sample_loop_conf: "foreach_conf 4 sample_attr 0 10"
  unfolding foreach_conf_def
proof (intro conjI)
  have "{..<nthreads_of 4 sample_attr} \<inter> cpus (attr_threadset sample_attr) = {..<4}"
    by (auto simp: nthreads_of_def sample_attr_def kaapic_foreach_attr_init_def cpuset_sets)
  then show "\<exists>m. 0 < m \<and> m \<le> 4 \<and> {..<nthreads_of 4 sample_attr} \<inter> cpus (attr_threadset sample_attr) = {..<m}"
    by (intro exI [of _ 4]) simp
qed (simp_all add: ibound_def sample_attr_def kaapic_foreach_attr_init_def nthreads_of_def)

lemma sample_loop_run:
  obtains gw st where "kaapic_foreach_workinit zero_mask id 4 sample_work 0 0 10 sample_attr True = Some (Some gw)"
    and "foreach_reachable 4 0 gw st" and "fs_pc st 0 = FDone"
proof -
  obtain gw n where g: "kaapic_foreach_workinit zero_mask id 4 sample_work 0 0 10 sample_attr True = Some (Some gw)"
    "foreach_inv 4 n 0 (sint (0::uint64)) (sint (10::uint64)) (foreach_start 0 gw)" "inv_live 4 (foreach_start 0 gw)"
    using workinit_start [OF sample_loop_conf, of zero_mask id sample_work True] by metis
  then show ?thesis using that foreach_completes [OF g(2,3)] by (auto simp: foreach_reachable_def)
qed

section \<open>Properties\<close>





text \<open>When the call returns, no other thread is inside the loop, none waits for the reply to a request it
  posted, and no combiner works on a local work: the structure, which the master's stack holds, may go.\<close>

theorem foreach_structure_unused_after_return:
  assumes "foreach_conf N attr first lst"
    and "kaapic_foreach_workinit mask0 k N gw0 0 first lst attr body_f = Some (Some gw)"
    and "foreach_reachable N 0 gw st"
    and "fs_pc st 0 = FDone" and "t < N" and "0 < t"
  shows "fs_pc st t = FIdle \<and> fs_split st t = SNone"
  using loop_reachable_inv [OF assms(1-3)] loop_done_inv(3,4) assms(4-6) by metis

theorem foreach_structure_unused_after_return_witness:
  "\<exists>gw st. kaapic_foreach_workinit zero_mask id 4 sample_work 0 0 10 sample_attr True = Some (Some gw)
    \<and> foreach_reachable 4 0 gw st \<and> fs_pc st 0 = FDone
    \<and> fs_pc st 3 = FIdle \<and> fs_split st 3 = SNone"
proof -
  obtain gw st where w: "kaapic_foreach_workinit zero_mask id 4 sample_work 0 0 10 sample_attr True = Some (Some gw)"
    "foreach_reachable 4 0 gw st" "fs_pc st 0 = FDone" by (rule sample_loop_run)
  show ?thesis using w foreach_structure_unused_after_return [OF sample_loop_conf w, of 3] by (intro exI [of _ gw] exI [of _ st]) simp
qed

text \<open>A combiner replies only to requests that were posted to it, each once.\<close>

theorem foreach_replies_to_posted:
  assumes "foreach_conf N attr first lst"
    and "kaapic_foreach_workinit mask0 k N gw0 0 first lst attr body_f = Some (Some gw)"
    and "foreach_reachable N 0 gw st"
  shows "\<not> fs_bad st"
proof -
  obtain n where "foreach_inv N n 0 (sint first) (sint lst) st" using loop_reachable_inv [OF assms] .
  then show ?thesis using foreach_invD(6) by (simp add: inv_counts_def)
qed

theorem foreach_replies_to_posted_witness:
  "\<exists>gw st. kaapic_foreach_workinit zero_mask id 4 sample_work 0 0 10 sample_attr True = Some (Some gw)
    \<and> foreach_reachable 4 0 gw st \<and> fs_pc st 0 = FDone
    \<and> \<not> fs_bad st"
proof -
  obtain gw st where w: "kaapic_foreach_workinit zero_mask id 4 sample_work 0 0 10 sample_attr True = Some (Some gw)"
    "foreach_reachable 4 0 gw st" "fs_pc st 0 = FDone" by (rule sample_loop_run)
  show ?thesis using w foreach_replies_to_posted [OF sample_loop_conf w(1,2)] by (intro exI [of _ gw] exI [of _ st]) simp
qed



text \<open>C24: for the loops of \<open>foreach_conf\<close> (thread 0 starts the loop on the threads 0 to m-1, at most 254, with bounds
  within \<open>ibound\<close> and grains of at least 1): from every reachable state some execution leads to the return of the call: the loop never gets into a
  state that it cannot complete.\<close>

theorem foreach_can_complete:
  assumes "foreach_conf N attr first lst"
    and "kaapic_foreach_workinit mask0 k N gw0 0 first lst attr body_f = Some (Some gw)"
    and "foreach_reachable N 0 gw st"
  shows "\<exists>st'. (foreach_step N 0)\<^sup>*\<^sup>* st st' \<and> fs_pc st' 0 = FDone"
proof -
  obtain n where "foreach_inv N n 0 (sint first) (sint lst) st" "inv_live N st" using loop_reachable_inv [OF assms] .
  then show ?thesis by (rule foreach_completes)
qed

theorem foreach_can_complete_witness:
  "\<exists>gw st. kaapic_foreach_workinit zero_mask id 4 sample_work 0 0 10 sample_attr True = Some (Some gw)
    \<and> fs_pc (foreach_start 0 gw) 0 \<noteq> FDone \<and> (foreach_step 4 0)\<^sup>*\<^sup>* (foreach_start 0 gw) st \<and> fs_pc st 0 = FDone"
proof -
  obtain gw st where w: "kaapic_foreach_workinit zero_mask id 4 sample_work 0 0 10 sample_attr True = Some (Some gw)"
    "foreach_reachable 4 0 gw st" by (rule sample_loop_run)
  have "foreach_reachable 4 0 gw (foreach_start 0 gw)" by (simp add: foreach_reachable_def)
  from foreach_can_complete [OF sample_loop_conf w(1) this] w(1) show ?thesis by (auto simp: foreach_start_def)
qed

end
