(* ===== verification/Foreach_Runs.thy ===== *)
theory Foreach_Runs
  imports Foreach_Props
begin

text \<open>
  Runs of a parallel loop outside the configurations of \<open>Foreach_Props\<close>: a loop that another thread than
  thread 0 starts.  \<^verbatim>\<open>_kaapic_split_task\<close> takes the positions of slices for the numbers of threads, and in
  such a loop they differ.
\<close>

section \<open>One turn of a thread\<close>

lemma loop_turn:
  assumes "t < N" "fs_pc st t = FNext" "remain_of st \<noteq> 0" "sgrain_of st \<noteq> 0"
    and "kaapi_workqueue_pop (lw_cr (lw_of st t)) (sgrain_of st) = (Inr (i, j), q)"
  obtains st' where "(foreach_step N master)\<^sup>*\<^sup>* st st'" and "fs_ran st' = (i, j) # fs_ran st"
    and "fs_gw st' = upd_lwork t ((lw_of st t)\<lparr>lw_cr := q, lw_workdone := lw_workdone (lw_of st t) + (j - i)\<rparr>) (fs_gw st)"
    and "fs_pc st' = fs_pc st" and "fs_split st' = fs_split st"
proof -
  let ?s1 = "set_pc t FPop st"
  have s1: "worker_step N master t st ?s1" using assms(2-4) by (rule worker_step.next_go)
  let ?s2 = "set_pc t (FBody (i, j))
    (set_lw t ((lw_of ?s1 t)\<lparr>lw_cr := q, lw_workdone := lw_workdone (lw_of ?s1 t) + (j - i)\<rparr>) ?s1)"
  have s2: "worker_step N master t ?s1 ?s2" using assms(5) by (intro worker_step.pop_some) simp_all
  let ?s3 = "set_pc t FNext (?s2\<lparr>fs_ran := (i, j) # fs_ran ?s2\<rparr>)"
  have s3: "worker_step N master t ?s2 ?s3" by (rule worker_step.body) simp
  have "(foreach_step N master)\<^sup>*\<^sup>* st ?s3"
    using foreach_step.by_worker [OF assms(1) s1] foreach_step.by_worker [OF assms(1) s2]
      foreach_step.by_worker [OF assms(1) s3] by (meson rtranclp.rtrancl_into_rtrancl rtranclp.rtrancl_refl)
  then show ?thesis by (rule that) (use assms(2) in \<open>simp_all add: set_lw_def fun_eq_iff\<close>)
qed

text \<open>A reply from the count of workers to the commit, without interruption.\<close>

lemma reset_run:
  assumes "v < N" "fs_split st v = SReset RCount tid rg k" "fs_pc st tid \<noteq> FPosted v"
  obtains st' where "(foreach_step N master)\<^sup>*\<^sup>* st st'" and "fs_ran st' = fs_ran st" and "fs_pc st' = fs_pc st"
    and "lw_of st' tid = kaapic_foreach_local_workinit (lw_of st tid) rg" and "remain_of st' = remain_of st"
    and "sgrain_of st' = sgrain_of st"
proof -
  let ?s = "\<lambda>g st. set_split v (SReset g tid rg k) st"
  let ?w = "\<lambda>g st. set_lw tid (reset_store g rg (lw_of st tid)) st"
  let ?s1 = "?s RBeg (add_workerdone 1 st)"
  let ?s2 = "?s REnd (?w RBeg ?s1)"
  let ?s3 = "?s RInit (?w REnd ?s2)"
  let ?s4 = "?s RPush (?w RInit ?s3)"
  let ?s5 = "?s RCommit (add_thieves 1 ?s4)"
  let ?s6 = "set_split v k (commit_reply v tid ?s5)"
  have "split_step N v st ?s1" using assms(2) by (rule split_step.count)
  moreover have "split_step N v ?s1 ?s2" using split_step.store [of ?s1 v RBeg tid rg k N] by simp
  moreover have "split_step N v ?s2 ?s3" using split_step.store [of ?s2 v REnd tid rg k N] by simp
  moreover have "split_step N v ?s3 ?s4" using split_step.store [of ?s3 v RInit tid rg k N] by simp
  moreover have "split_step N v ?s4 ?s5" by (rule split_step.push) simp
  moreover have "split_step N v ?s5 ?s6" by (rule split_step.commit) simp
  ultimately have "(foreach_step N master)\<^sup>*\<^sup>* st ?s6"
    by (meson foreach_step.by_splitter [OF assms(1)] rtranclp.rtrancl_into_rtrancl rtranclp.rtrancl_refl)
  then show ?thesis
    by (rule that) (use assms(3) in \<open>simp_all add: commit_reply_def kaapic_foreach_local_workinit_def kaapi_workqueue_reset_def\<close>)
qed

section \<open>Thread 1 starts the loop\<close>

definition queue_at :: "uint64 \<Rightarrow> kaapi_workqueue" where
  "queue_at b = \<lparr>rep_end = 5, rep_beg = b, wq_lock = Some 1\<rparr>"

definition map_bit :: "uint64 \<Rightarrow> kaapi_bitmap256" where
  "map_bit w = \<lparr>proc256_0 = w, proc256_1 = 0, proc256_2 = 0, proc256_3 = 0\<rparr>"

lemma other_start:
  "case kaapic_foreach_workinit zero_mask id 2 sample_work 1 0 10 sample_attr True of
     Some (Some gw) \<Rightarrow> gw_workremain gw = 10 \<and> tid2pos (gw_wa gw) 0 = 1 \<and> tid2pos (gw_wa gw) 1 = 0
       \<and> slice_of (gw_wa gw) 0 = (0, 5) \<and> wa_map (gw_wa gw) = map_bit 2 \<and> lw_cr (gw_lwork gw 1) = queue_at 0
       \<and> gw_body gw \<and> seq_grain (gw_wi gw) = 1
   | _ \<Rightarrow> False"
  by code_simp

text \<open>The request of thread 0, alone in its range.\<close>

definition lone_request :: request_range where
  "lone_request = \<lparr>lri_bitmap = zero_mask, lri_idcurr = 0\<rparr>"

lemma lone_request:
  "lri_inv bits256 lone_request" "lri_pending bits256 lone_request = {0}"
proof -
  have "bits256 zero_mask = {}"
    using bv256.bits_clear [of zero_mask] by (simp add: kaapi_bitmap_value_clear_256_def zero_mask_def)
  then show "lri_inv bits256 lone_request" "lri_pending bits256 lone_request = {0}"
    by (simp_all add: lri_inv_def lri_pending_def lone_request_def)
qed

definition bit_1 :: kaapi_bitmap_value256 where
  "bit_1 = \<lparr>vproc256_0 = 2, vproc256_1 = 0, vproc256_2 = 0, vproc256_3 = 0\<rparr>"

lemma lone_request_serve:
  "serve_requests kaapi_bitmap_value_first1_and_zero_256 257 lone_request = Some [0]"
  by code_simp

lemma put_1: "kaapi_bitmap_value_set_256 zero_mask 1 = bit_1"
  by code_simp

lemma mask_1:
  "\<not> kaapi_bitmap_value_empty_256 (kaapi_bitmap_value_and_256 bit_1 (map_value (map_bit 2)))"
  "kaapi_bitmap_and_256 bit_1 (map_bit 2) (kaapi_bitmap_value_neg_256 bit_1 bit_1) = (bit_1, map_bit 0)"
  "kaapi_bitmap_value_first1_and_zero_256 (kaapi_bitmap_value_and_256 bit_1 bit_1) = (Suc 1, zero_mask)"
  by code_simp+

lemma pop_1: "kaapi_workqueue_pop (queue_at 0) 1 = (Inr (0, 1), queue_at 1)"
  by code_simp

text \<open>C29: when thread 1 starts a loop over 0 to 10 on two threads, there is an execution in which iteration 0 runs
  twice: the combiner that serves thread 0 claims the slice of thread 0, whose position is 1, and gives the slice
  of thread 1 to thread 1, which is in the middle of it.\<close>

theorem foreach_other_master_repeats:
  "\<exists>gw st. kaapic_foreach_workinit zero_mask id 2 sample_work 1 0 10 sample_attr True = Some (Some gw)
    \<and> foreach_reachable 2 1 gw st \<and> count (ran_mset st) 0 = 2"
proof -
  obtain gw where gw: "kaapic_foreach_workinit zero_mask id 2 sample_work 1 0 10 sample_attr True = Some (Some gw)"
    and v: "gw_workremain gw = 10" "tid2pos (gw_wa gw) 0 = 1" "tid2pos (gw_wa gw) 1 = 0"
    "slice_of (gw_wa gw) 0 = (0, 5)" "wa_map (gw_wa gw) = map_bit 2" "lw_cr (gw_lwork gw 1) = queue_at 0"
    "gw_body gw" "seq_grain (gw_wi gw) = 1"
    using other_start by (auto split: option.splits)
  let ?s0 = "foreach_start 1 gw"
  have p0: "fs_gw ?s0 = gw" "fs_pc ?s0 = (\<lambda>_. FIdle)(1 := FNext)" "fs_split ?s0 = (\<lambda>_. SNone)" "fs_ran ?s0 = []"
    by (simp_all del: One_nat_def add: foreach_start_def)
  have t0: "(1::nat) < 2" "fs_pc ?s0 1 = FNext" "remain_of ?s0 \<noteq> 0" "sgrain_of ?s0 \<noteq> 0"
    "kaapi_workqueue_pop (lw_cr (lw_of ?s0 1)) (sgrain_of ?s0) = (Inr (0, 1), queue_at 1)"
    by (simp_all del: One_nat_def add: p0 v pop_1)
  obtain s1 where s1: "(foreach_step 2 1)\<^sup>*\<^sup>* ?s0 s1" "fs_ran s1 = [(0, 1)]"
    "fs_gw s1 = upd_lwork 1 ((gw_lwork gw 1)\<lparr>lw_cr := queue_at 1, lw_workdone := lw_workdone (gw_lwork gw 1) + 1\<rparr>) gw"
    "fs_pc s1 = (\<lambda>_. FIdle)(1 := FNext)" "fs_split s1 = (\<lambda>_. SNone)"
    by (rule loop_turn [OF t0, where master = 1]) (simp_all del: One_nat_def add: p0)
  let ?r = lone_request
  let ?s2 = "set_split 1 (SStart ?r) (s1\<lparr>fs_pc := (\<lambda>t. if t \<in> {0} then FPosted 1 else fs_pc s1 t)\<rparr>)"
  have s2: "split_step 2 1 s1 ?s2"
    by (rule split_step.split_begin [OF _ _ lone_request(1)]) (simp_all del: One_nat_def add: s1 lone_request queue_free_def)
  let ?s3 = "set_split 1 (SMask ?r bit_1) ?s2"
  have m: "request_mask (gw_wa gw) ?r = bit_1"
    using put_1 by (simp del: One_nat_def add: request_mask_def lone_request_serve put_pos_def v)
  have s3: "split_step 2 1 ?s2 ?s3"
    using split_step.start [of ?s2 1 ?r 2] m by (simp del: One_nat_def add: s1 v upd_lwork_def)
  let ?s4 = "set_split 1 (SClaim ?r bit_1) ?s3"
  have s4: "split_step 2 1 ?s3 ?s4"
    using split_step.intersect [of ?s3 1 ?r bit_1 2] mask_1(1) by (simp del: One_nat_def add: s1 v upd_lwork_def)
  let ?s5 = "set_split 1 (SReply ?r (kaapi_bitmap_value_and_256 bit_1 bit_1)) (set_slices (map_bit 0) ?s4)"
  have s5: "split_step 2 1 ?s4 ?s5"
    using mask_1(2) by (intro split_step.claim [OF _ refl]) (simp_all del: One_nat_def add: s1 v upd_lwork_def)
  have sl: "slice_of (wa\<lparr>wa_map := x\<rparr>) p = slice_of wa p" for wa x p by (simp add: slice_of_def)
  let ?k = "SReply (kaapi_listrequest_iterator_unset_at kaapi_bitmap_value_unset_256
    kaapi_bitmap_value_first1_and_zero_256 ?r 1) zero_mask"
  let ?r0 = "set_split 1 (SReset RCount 1 (0, 5) ?k) ?s5"
  have r0: "split_step 2 1 ?s5 ?r0"
    using mask_1(3) by (intro split_step.reply_some [OF _ _ _ refl])
      (simp_all del: One_nat_def add: s1 v upd_lwork_def kaapic_global_getwork_def sl)
  obtain s6 where s6: "(foreach_step 2 1)\<^sup>*\<^sup>* ?r0 s6"
    "fs_pc s6 1 = FNext" "remain_of s6 = 10" "sgrain_of s6 = 1" "lw_cr (lw_of s6 1) = queue_at 0" "fs_ran s6 = [(0, 1)]"
    by (rule reset_run [of 1 2 ?r0 1 "(0, 5)" ?k 1])
      (simp_all del: One_nat_def add: s1 v upd_lwork_def kaapic_foreach_local_workinit_def kaapi_workqueue_reset_def queue_at_def)
  have t6: "(1::nat) < 2" "fs_pc s6 1 = FNext" "remain_of s6 \<noteq> 0" "sgrain_of s6 \<noteq> 0"
    "kaapi_workqueue_pop (lw_cr (lw_of s6 1)) (sgrain_of s6) = (Inr (0, 1), queue_at 1)"
    by (simp_all del: One_nat_def add: s6 pop_1)
  obtain s7 where s7: "(foreach_step 2 1)\<^sup>*\<^sup>* s6 s7" "fs_ran s7 = [(0, 1), (0, 1)]"
    by (rule loop_turn [OF t6, where master = 1]) (simp_all del: One_nat_def add: s6)
  have "foreach_reachable 2 1 gw s7"
    unfolding foreach_reachable_def
    using s1(1) foreach_step.by_splitter [OF t0(1) s2] foreach_step.by_splitter [OF t0(1) s3]
      foreach_step.by_splitter [OF t0(1) s4] foreach_step.by_splitter [OF t0(1) s5]
      foreach_step.by_splitter [OF t0(1) r0] s6(1) s7(1)
    by (meson rtranclp.rtrancl_into_rtrancl rtranclp_trans)
  moreover have "count (ran_mset s7) 0 = 2" by (simp add: ran_mset_def s7 range_mset_def)
  ultimately show ?thesis using gw by blast
qed

section \<open>A set of threads with a gap\<close>

text \<open>The threads 0 and 2 of three share the loop.\<close>

definition gap_attr :: kaapic_foreach_attr where
  "gap_attr = sample_attr\<lparr>attr_threadset := \<lparr>cpu64_0 = 5, cpu64_1 = 0, cpu64_2 = 0, cpu64_3 = 0\<rparr>\<rparr>"

lemma gap_start:
  "case kaapic_foreach_workinit zero_mask id 3 sample_work 0 0 10 gap_attr True of
     Some (Some gw) \<Rightarrow> rep_beg (lw_cr (gw_lwork gw 0)) = 0 \<and> rep_end (lw_cr (gw_lwork gw 0)) = 5
       \<and> lw_init (gw_lwork gw 0) \<and> wa_map (gw_wa gw) = map_bit 4 \<and> slice_of (gw_wa gw) 1 = (5, 10) \<and> slice_of (gw_wa gw) 2 = (10, 10)
       \<and> gw_workremain gw = 10
   | _ \<Rightarrow> False"
  by code_simp

text \<open>When the threads of a loop are 0 and 2, the iterations 5 to 9 of a loop over 0 to 10 are nowhere
  after the start: the map of slices holds the number of thread 2, which as a position stands for an empty slice,
  and no queue has them.\<close>

theorem foreach_gap_loses_slice:
  "\<exists>gw. kaapic_foreach_workinit zero_mask id 3 sample_work 0 0 10 gap_attr True = Some (Some gw)
    \<and> sint (gw_workremain gw) = 10
    \<and> lw_left (gw_lwork gw 0) + slices_mset (gw_wa gw) (abits256 (wa_map (gw_wa gw))) = mset_set {0..<5}"
proof -
  obtain gw where gw: "kaapic_foreach_workinit zero_mask id 3 sample_work 0 0 10 gap_attr True = Some (Some gw)"
    and v: "rep_beg (lw_cr (gw_lwork gw 0)) = 0" "rep_end (lw_cr (gw_lwork gw 0)) = 5" "lw_init (gw_lwork gw 0)"
    "wa_map (gw_wa gw) = map_bit 4" "slice_of (gw_wa gw) 2 = (10, 10)" "gw_workremain gw = 10"
    using gap_start by (auto split: option.splits)
  have "bits256 (map_value (map_bit 4)) = {2}"
  proof -
    have "map_value (map_bit 4) = kaapi_bitmap_value_set_256 zero_mask 2" by code_simp
    then show ?thesis
      using bv256.bits_put [of 2 zero_mask] bv256.bits_clear [of zero_mask]
      by (simp add: kaapi_bitmap_value_clear_256_def zero_mask_def)
  qed
  then have "abits256 (wa_map (gw_wa gw)) = {2}" using v map_value_bits [of "map_bit 4"] by simp
  then have "slices_mset (gw_wa gw) (abits256 (wa_map (gw_wa gw))) = {#}"
    by (simp add: slices_mset_def v range_mset_def)
  then show ?thesis using gw v by (simp add: lw_left_def li_lo_def li_hi_def)
qed

end
