(* ===== verification/Task_State.thy ===== *)
theory Task_State
  imports Kaapi_Prelude
begin

text \<open>
  The state of a task in a stack (\<^verbatim>\<open>src/src/kaapi_task.h\<close>): a byte of flags that the owner of the stack and the
  thieves change with atomic operations, and the scheduling flags of the task.  Each operation is one function
  on the byte; the atomic ones also return the value before the operation.
\<close>

section \<open>States\<close>

definition KAAPI_TASK_STATE_INIT :: uint8 where "KAAPI_TASK_STATE_INIT = 0x0"
definition KAAPI_TASK_STATE_EXEC :: uint8 where "KAAPI_TASK_STATE_EXEC = 0x1"
definition KAAPI_TASK_STATE_STEAL :: uint8 where "KAAPI_TASK_STATE_STEAL = 0x2"
definition KAAPI_TASK_STATE_TERM :: uint8 where "KAAPI_TASK_STATE_TERM = 0x4"
definition KAAPI_TASK_STATE_MERGE :: uint8 where "KAAPI_TASK_STATE_MERGE = 0x8"
definition KAAPI_TASK_STATE_SIGNALED :: uint8 where "KAAPI_TASK_STATE_SIGNALED = 0x20"
definition KAAPI_TASK_STATE_LOCKED :: uint8 where "KAAPI_TASK_STATE_LOCKED = 0x40"

definition KAAPI_TASK_EXECUTION_STATE :: uint8 where
  "KAAPI_TASK_EXECUTION_STATE =
     KAAPI_TASK_STATE_EXEC OR KAAPI_TASK_STATE_STEAL OR KAAPI_TASK_STATE_TERM OR KAAPI_TASK_STATE_MERGE"

definition KAAPI_TASK_UNSTEALABLE_MASK :: uint8 where "KAAPI_TASK_UNSTEALABLE_MASK = 0x01"
definition KAAPI_TASK_SPLITTABLE_MASK :: uint8 where "KAAPI_TASK_SPLITTABLE_MASK = 0x02"

text \<open>The steal task that a combiner links in \<^verbatim>\<open>reserved\<close> is named by the stolen task.\<close>

record task_cell =
  tk_state :: uint8
  tk_flag :: uint8
  tk_reserved :: bool

section \<open>Operations\<close>

definition kaapi_task_is_unstealable :: "task_cell \<Rightarrow> bool" where
  "kaapi_task_is_unstealable task \<longleftrightarrow> tk_flag task AND KAAPI_TASK_UNSTEALABLE_MASK \<noteq> 0"

definition kaapi_task_set_unstealable :: "task_cell \<Rightarrow> task_cell" where
  "kaapi_task_set_unstealable task = task\<lparr>tk_flag := tk_flag task OR KAAPI_TASK_UNSTEALABLE_MASK\<rparr>"

definition kaapi_task_unset_unstealable :: "task_cell \<Rightarrow> task_cell" where
  "kaapi_task_unset_unstealable task = task\<lparr>tk_flag := tk_flag task AND NOT KAAPI_TASK_UNSTEALABLE_MASK\<rparr>"

definition kaapi_task_is_splittable :: "task_cell \<Rightarrow> bool" where
  "kaapi_task_is_splittable task \<longleftrightarrow> tk_flag task AND KAAPI_TASK_SPLITTABLE_MASK \<noteq> 0"

definition kaapi_task_set_splittable :: "task_cell \<Rightarrow> task_cell" where
  "kaapi_task_set_splittable task = task\<lparr>tk_flag := tk_flag task OR KAAPI_TASK_SPLITTABLE_MASK\<rparr>"

definition kaapi_task_unset_splittable :: "task_cell \<Rightarrow> task_cell" where
  "kaapi_task_unset_splittable task = task\<lparr>tk_flag := tk_flag task AND NOT KAAPI_TASK_SPLITTABLE_MASK\<rparr>"

definition kaapi_task_orstate :: "uint8 \<Rightarrow> uint8 \<Rightarrow> uint8 \<times> uint8" where
  "kaapi_task_orstate s msk = (s, s OR msk)"

definition kaapi_task_andstate :: "uint8 \<Rightarrow> uint8 \<Rightarrow> uint8 \<times> uint8" where
  "kaapi_task_andstate s msk = (s, s AND msk)"

definition kaapi_task_markexec :: "uint8 \<Rightarrow> uint8 \<times> uint8" where
  "kaapi_task_markexec s = (s AND KAAPI_TASK_EXECUTION_STATE, s OR KAAPI_TASK_STATE_EXEC)"

definition kaapi_task_marksteal :: "uint8 \<Rightarrow> bool \<times> uint8" where
  "kaapi_task_marksteal s = (s AND KAAPI_TASK_STATE_EXEC = 0, s OR KAAPI_TASK_STATE_STEAL)"

definition kaapi_task_markterm :: "uint8 \<Rightarrow> uint8" where
  "kaapi_task_markterm s = s OR KAAPI_TASK_STATE_TERM"

definition kaapi_task_markaftersteal :: "uint8 \<Rightarrow> uint8" where
  "kaapi_task_markaftersteal s = s OR KAAPI_TASK_STATE_MERGE"

definition kaapi_task_markpreempted :: "uint8 \<Rightarrow> uint8" where
  "kaapi_task_markpreempted s = s OR KAAPI_TASK_STATE_SIGNALED"

text \<open>\<^verbatim>\<open>kaapi_task_lock\<close> repeats \<^verbatim>\<open>kaapi_task_trylock\<close> until it succeeds.\<close>

definition kaapi_task_trylock :: "uint8 \<Rightarrow> bool \<times> uint8" where
  "kaapi_task_trylock s = (s AND KAAPI_TASK_STATE_LOCKED = 0, s OR KAAPI_TASK_STATE_LOCKED)"

definition kaapi_task_unlock :: "uint8 \<Rightarrow> uint8" where
  "kaapi_task_unlock s = s AND NOT KAAPI_TASK_STATE_LOCKED"

definition kaapi_task_isstealable :: "task_cell \<Rightarrow> bool" where
  "kaapi_task_isstealable task \<longleftrightarrow>
     tk_state task = KAAPI_TASK_STATE_INIT \<and> tk_flag task AND KAAPI_TASK_UNSTEALABLE_MASK = 0"

definition kaapi_task_isready :: "uint8 \<Rightarrow> bool" where
  "kaapi_task_isready s \<longleftrightarrow> s AND KAAPI_TASK_EXECUTION_STATE = 0
     \<or> s AND KAAPI_TASK_STATE_TERM \<noteq> 0 \<or> s AND KAAPI_TASK_STATE_MERGE \<noteq> 0"

section \<open>States as flags\<close>

abbreviation is_exec :: "uint8 \<Rightarrow> bool" where "is_exec s \<equiv> bit s 0"
abbreviation is_steal :: "uint8 \<Rightarrow> bool" where "is_steal s \<equiv> bit s 1"
abbreviation is_term :: "uint8 \<Rightarrow> bool" where "is_term s \<equiv> bit s 2"
abbreviation is_merge :: "uint8 \<Rightarrow> bool" where "is_merge s \<equiv> bit s 3"
abbreviation is_signaled :: "uint8 \<Rightarrow> bool" where "is_signaled s \<equiv> bit s 5"
abbreviation is_locked :: "uint8 \<Rightarrow> bool" where "is_locked s \<equiv> bit s 6"

lemmas state_defs = KAAPI_TASK_STATE_INIT_def KAAPI_TASK_STATE_EXEC_def KAAPI_TASK_STATE_STEAL_def
  KAAPI_TASK_STATE_TERM_def KAAPI_TASK_STATE_MERGE_def KAAPI_TASK_STATE_SIGNALED_def
  KAAPI_TASK_STATE_LOCKED_def KAAPI_TASK_EXECUTION_STATE_def

lemma bit_pow8: "m < 8 \<Longrightarrow> bit ((2::uint8) ^ m) n \<longleftrightarrow> n = m"
  by (auto simp: bit_exp_iff possible_bit_def)

lemma bit_state [simp]:
  "bit (1::uint8) n \<longleftrightarrow> n = 0" "bit (2::uint8) n \<longleftrightarrow> n = 1" "bit (4::uint8) n \<longleftrightarrow> n = 2"
  "bit (8::uint8) n \<longleftrightarrow> n = 3" "bit (0x20::uint8) n \<longleftrightarrow> n = 5" "bit (0x40::uint8) n \<longleftrightarrow> n = 6"
  using bit_pow8 [of 0 n] bit_pow8 [of 1 n] bit_pow8 [of 2 n] bit_pow8 [of 3 n] bit_pow8 [of 5 n] bit_pow8 [of 6 n]
  by simp_all

lemma and_state [simp]:
  "s AND 1 = 0 \<longleftrightarrow> \<not> is_exec s" "s AND 2 = 0 \<longleftrightarrow> \<not> is_steal s" "s AND 4 = 0 \<longleftrightarrow> \<not> is_term s"
  "s AND 8 = 0 \<longleftrightarrow> \<not> is_merge s" "s AND 0x20 = 0 \<longleftrightarrow> \<not> is_signaled s" "s AND 0x40 = 0 \<longleftrightarrow> \<not> is_locked s"
  for s :: uint8
  using and_shl1_nonzero [of s 0] and_shl1_nonzero [of s 1] and_shl1_nonzero [of s 2] and_shl1_nonzero [of s 3]
    and_shl1_nonzero [of s 5] and_shl1_nonzero [of s 6] by auto

lemma execution_state_0:
  "s AND KAAPI_TASK_EXECUTION_STATE = 0 \<longleftrightarrow> \<not> is_exec s \<and> \<not> is_steal s \<and> \<not> is_term s \<and> \<not> is_merge s"
proof -
  have "s AND KAAPI_TASK_EXECUTION_STATE = (s AND 1) OR (s AND 2) OR (s AND 4) OR (s AND 8)"
    unfolding KAAPI_TASK_EXECUTION_STATE_def KAAPI_TASK_STATE_EXEC_def KAAPI_TASK_STATE_STEAL_def
      KAAPI_TASK_STATE_TERM_def KAAPI_TASK_STATE_MERGE_def by (simp only: bit.conj_disj_distrib)
  moreover have "(s AND 1) OR (s AND 2) OR (s AND 4) OR (s AND 8) = 0 \<longleftrightarrow>
    s AND 1 = 0 \<and> s AND 2 = 0 \<and> s AND 4 = 0 \<and> s AND 8 = 0" by (metis or_eq_0_iff)
  ultimately show ?thesis by simp
qed

text \<open>What each operation does to the flags.\<close>

lemma bit_flags:
  "bit (s OR KAAPI_TASK_STATE_EXEC) n \<longleftrightarrow> bit s n \<or> n = 0" "bit (s OR KAAPI_TASK_STATE_STEAL) n \<longleftrightarrow> bit s n \<or> n = 1"
  "bit (s OR KAAPI_TASK_STATE_TERM) n \<longleftrightarrow> bit s n \<or> n = 2" "bit (s OR KAAPI_TASK_STATE_MERGE) n \<longleftrightarrow> bit s n \<or> n = 3"
  "bit (s OR KAAPI_TASK_STATE_SIGNALED) n \<longleftrightarrow> bit s n \<or> n = 5" "bit (s OR KAAPI_TASK_STATE_LOCKED) n \<longleftrightarrow> bit s n \<or> n = 6"
  "n < 8 \<Longrightarrow> bit (s AND NOT KAAPI_TASK_STATE_LOCKED) n \<longleftrightarrow> bit s n \<and> n \<noteq> 6"
  "bit (s AND KAAPI_TASK_EXECUTION_STATE) n \<longleftrightarrow> bit s n \<and> n \<in> {0, 1, 2, 3}"
  unfolding bit_or_iff bit_and_iff bit_not_iff KAAPI_TASK_EXECUTION_STATE_def KAAPI_TASK_STATE_EXEC_def
    KAAPI_TASK_STATE_STEAL_def KAAPI_TASK_STATE_TERM_def KAAPI_TASK_STATE_MERGE_def KAAPI_TASK_STATE_SIGNALED_def
    KAAPI_TASK_STATE_LOCKED_def bit_state by (auto simp: possible_bit_def)

lemma markexec_flags [simp]:
  "fst (kaapi_task_markexec s) = 0 \<longleftrightarrow> \<not> is_exec s \<and> \<not> is_steal s \<and> \<not> is_term s \<and> \<not> is_merge s"
  "bit (snd (kaapi_task_markexec s)) n \<longleftrightarrow> bit s n \<or> n = 0"
  "bit (fst (kaapi_task_markexec s)) n \<longleftrightarrow> bit s n \<and> n \<in> {0, 1, 2, 3}"
  by (simp_all add: kaapi_task_markexec_def execution_state_0 bit_flags)

lemma marksteal_flags [simp]:
  "fst (kaapi_task_marksteal s) \<longleftrightarrow> \<not> is_exec s"
  "bit (snd (kaapi_task_marksteal s)) n \<longleftrightarrow> bit s n \<or> n = 1"
  by (simp_all add: kaapi_task_marksteal_def bit_flags KAAPI_TASK_STATE_EXEC_def)

lemma mark_flags [simp]:
  "bit (kaapi_task_markterm s) n \<longleftrightarrow> bit s n \<or> n = 2" "bit (kaapi_task_markaftersteal s) n \<longleftrightarrow> bit s n \<or> n = 3"
  "bit (kaapi_task_markpreempted s) n \<longleftrightarrow> bit s n \<or> n = 5"
  by (simp_all add: kaapi_task_markterm_def kaapi_task_markaftersteal_def kaapi_task_markpreempted_def bit_flags)

lemma lock_flags [simp]:
  "fst (kaapi_task_trylock s) \<longleftrightarrow> \<not> is_locked s" "bit (snd (kaapi_task_trylock s)) n \<longleftrightarrow> bit s n \<or> n = 6"
  "n < 8 \<Longrightarrow> bit (kaapi_task_unlock s) n \<longleftrightarrow> bit s n \<and> n \<noteq> 6"
  by (simp_all add: kaapi_task_trylock_def kaapi_task_unlock_def bit_flags)
    (simp add: KAAPI_TASK_STATE_LOCKED_def)

lemma orstate_flags [simp]:
  "fst (kaapi_task_orstate s m) = s" "bit (snd (kaapi_task_orstate s KAAPI_TASK_STATE_SIGNALED)) n \<longleftrightarrow> bit s n \<or> n = 5"
  by (simp_all add: kaapi_task_orstate_def bit_flags)

lemma init_flags [simp]: "\<not> bit KAAPI_TASK_STATE_INIT n"
  by (simp add: KAAPI_TASK_STATE_INIT_def)

lemma exec_flags [simp]: "bit KAAPI_TASK_STATE_EXEC n \<longleftrightarrow> n = 0"
  by (simp add: KAAPI_TASK_STATE_EXEC_def)

lemma isready_flags: "kaapi_task_isready s \<longleftrightarrow> \<not> is_exec s \<and> \<not> is_steal s \<or> is_term s \<or> is_merge s"
  unfolding kaapi_task_isready_def execution_state_0 by (auto simp: KAAPI_TASK_STATE_TERM_def KAAPI_TASK_STATE_MERGE_def)

lemma isstealable_flags: "kaapi_task_isstealable t \<Longrightarrow> \<not> bit (tk_state t) n"
  by (simp add: kaapi_task_isstealable_def)

end
