(* ===== verification/Steal_Protocol.thy ===== *)
theory Steal_Protocol
  imports Task_State
begin

text \<open>
  The tasks of a frame between the owner of the stack and its thieves, as a step relation.  The owner is the
  loop of \<^verbatim>\<open>kaapi_stack_execframe\<close> (\<^verbatim>\<open>src/src/thread/kaapi_thread_execframe.c\<close>) with \<^verbatim>\<open>__kaapi_try_preempt\<close>, and
  the suspension of \<^verbatim>\<open>kaapi_sched_sync_\<close> until \<^verbatim>\<open>kaapi_task_isready\<close>; the combiner is \<^verbatim>\<open>kaapi_sched_steal_task\<close>
  (\<^verbatim>\<open>src/src/workstealing/kaapi_sched_stealtask.c\<close>) under the lock of the stack, so there is one at a time; a thief
  executes the steal task it got: \<^verbatim>\<open>kaapi_tasksteal_body\<close>, then \<^verbatim>\<open>kaapi_taskwrite_body\<close>
  (\<^verbatim>\<open>src/src/task/kaapi_task_steal_body.c\<close>).  A step is one atomic access to the state of a task.  The tasks are
  numbered from 0 in the order of the frame; which of them the combiner tries is left open (the data flow
  may allow any of them), and \<open>mrg i\<close> says that the steal of task \<open>i\<close> needs a merge: \<^verbatim>\<open>war_param\<close> or \<^verbatim>\<open>cw_param\<close>
  is not 0.
\<close>

section \<open>Owner, combiner, thieves\<close>

datatype frame_owner_pc =
    OExec nat | OBody nat
  | OTry nat | OState nat | OWait nat | OSignal nat | OUnlock nat bool
  | OSuspend nat | OMerge nat

datatype combiner_pc = CIdle | CMark nat | CReserve nat | CReply nat

datatype frame_thief_pc = TNone | TExec | TBody | TLock | TMark | TUnlock | TDone

text \<open>\<open>sp_steal i\<close> is the state of the steal task of task \<open>i\<close>; \<open>sp_ran\<close> and \<open>sp_merged\<close> list the tasks whose body
  has ended and those whose results have been merged.\<close>

record steal_state =
  sp_task :: "nat \<Rightarrow> task_cell"
  sp_steal :: "nat \<Rightarrow> uint8"
  sp_owner :: frame_owner_pc
  sp_comb :: combiner_pc
  sp_thief :: "nat \<Rightarrow> frame_thief_pc"
  sp_ran :: "nat list"
  sp_merged :: "nat list"

abbreviation tstate_of :: "steal_state \<Rightarrow> nat \<Rightarrow> uint8" where
  "tstate_of s i \<equiv> tk_state (sp_task s i)"

definition set_tstate :: "nat \<Rightarrow> uint8 \<Rightarrow> steal_state \<Rightarrow> steal_state" where
  "set_tstate i st s = s\<lparr>sp_task := (sp_task s)(i := (sp_task s i)\<lparr>tk_state := st\<rparr>)\<rparr>"

definition set_thief :: "nat \<Rightarrow> frame_thief_pc \<Rightarrow> steal_state \<Rightarrow> steal_state" where
  "set_thief i p s = s\<lparr>sp_thief := (sp_thief s)(i := p)\<rparr>"

section \<open>Steps\<close>

text \<open>Where the owner goes when \<^verbatim>\<open>kaapi_task_markexec\<close> has returned the state \<open>st\<close>.  The test of
  \<^verbatim>\<open>KAAPI_TASK_STATE_SIGNALED\<close> that follows changes nothing: the state it reads has only execution flags.\<close>

definition exec_branch :: "nat \<Rightarrow> uint8 \<Rightarrow> frame_owner_pc" where
  "exec_branch i st =
     (if st = 0 then OBody i
      else if st AND KAAPI_TASK_STATE_TERM \<noteq> 0 then OExec (Suc i)
      else if st AND KAAPI_TASK_STATE_MERGE \<noteq> 0 then OMerge i
      else if st AND KAAPI_TASK_STATE_STEAL \<noteq> 0 then OTry i
      else OExec (Suc i))"

inductive owner_step :: "nat \<Rightarrow> steal_state \<Rightarrow> steal_state \<Rightarrow> bool" for n s where
  exec: "sp_owner s = OExec i \<Longrightarrow> i < n \<Longrightarrow> kaapi_task_markexec (tstate_of s i) = (st, st') \<Longrightarrow>
    owner_step n s (set_tstate i st' s\<lparr>sp_owner := exec_branch i st\<rparr>)"
| body: "sp_owner s = OBody i \<Longrightarrow>
    owner_step n s (s\<lparr>sp_owner := OExec (Suc i), sp_ran := i # sp_ran s\<rparr>)"
| trylock: "sp_owner s = OTry i \<Longrightarrow> kaapi_task_trylock (tstate_of s i) = (ok, st') \<Longrightarrow>
    owner_step n s (set_tstate i st' s\<lparr>sp_owner := if ok then OWait i else OState i\<rparr>)"
| getstate: "sp_owner s = OState i \<Longrightarrow>
    owner_step n s (s\<lparr>sp_owner :=
      if tstate_of s i AND KAAPI_TASK_STATE_TERM \<noteq> 0 then OExec (Suc i)
      else if tstate_of s i AND KAAPI_TASK_STATE_MERGE \<noteq> 0 then OMerge i else OTry i\<rparr>)"
| reserved: "sp_owner s = OWait i \<Longrightarrow> tk_reserved (sp_task s i) \<Longrightarrow>
    owner_step n s (s\<lparr>sp_owner := OSignal i\<rparr>)"
| signal: "sp_owner s = OSignal i \<Longrightarrow> kaapi_task_orstate (sp_steal s i) KAAPI_TASK_STATE_SIGNALED = (old, st') \<Longrightarrow>
    owner_step n s (s\<lparr>sp_steal := (sp_steal s)(i := st'), sp_owner := OUnlock i (old = KAAPI_TASK_STATE_EXEC)\<rparr>)"
| unlock: "sp_owner s = OUnlock i b \<Longrightarrow>
    owner_step n s (set_tstate i (kaapi_task_unlock (tstate_of s i)) s\<lparr>sp_owner := if b then OExec i else OSuspend i\<rparr>)"
| resume: "sp_owner s = OSuspend i \<Longrightarrow> kaapi_task_isready (tstate_of s i) \<Longrightarrow>
    owner_step n s (s\<lparr>sp_owner := OExec i\<rparr>)"
| merge: "sp_owner s = OMerge i \<Longrightarrow>
    owner_step n s (s\<lparr>sp_owner := OExec (Suc i), sp_merged := i # sp_merged s\<rparr>)"

inductive combiner_step :: "nat \<Rightarrow> steal_state \<Rightarrow> steal_state \<Rightarrow> bool" for n s where
  choose: "sp_comb s = CIdle \<Longrightarrow> i < n \<Longrightarrow> kaapi_task_isstealable (sp_task s i) \<Longrightarrow>
    combiner_step n s (s\<lparr>sp_comb := CMark i\<rparr>)"
| mark: "sp_comb s = CMark i \<Longrightarrow> kaapi_task_marksteal (tstate_of s i) = (ok, st') \<Longrightarrow>
    combiner_step n s (set_tstate i st' s\<lparr>sp_comb := if ok then CReserve i else CIdle\<rparr>)"
| reserve: "sp_comb s = CReserve i \<Longrightarrow>
    combiner_step n s (s\<lparr>sp_steal := (sp_steal s)(i := KAAPI_TASK_STATE_INIT), sp_comb := CReply i,
      sp_task := (sp_task s)(i := (sp_task s i)\<lparr>tk_reserved := True\<rparr>)\<rparr>)"
| reply: "sp_comb s = CReply i \<Longrightarrow>
    combiner_step n s (set_thief i TExec s\<lparr>sp_comb := CIdle\<rparr>)"

inductive frame_thief_step :: "(nat \<Rightarrow> bool) \<Rightarrow> nat \<Rightarrow> steal_state \<Rightarrow> steal_state \<Rightarrow> bool" for mrg i s where
  exec: "sp_thief s i = TExec \<Longrightarrow> kaapi_task_markexec (sp_steal s i) = (0, st') \<Longrightarrow>
    frame_thief_step mrg i s (set_thief i TBody s\<lparr>sp_steal := (sp_steal s)(i := st')\<rparr>)"
| body: "sp_thief s i = TBody \<Longrightarrow>
    frame_thief_step mrg i s (set_thief i TLock s\<lparr>sp_ran := i # sp_ran s\<rparr>)"
| lock: "sp_thief s i = TLock \<Longrightarrow> kaapi_task_trylock (tstate_of s i) = (True, st') \<Longrightarrow>
    frame_thief_step mrg i s (set_thief i TMark (set_tstate i st' s))"
| mark: "sp_thief s i = TMark \<Longrightarrow>
    frame_thief_step mrg i s (set_thief i TUnlock (set_tstate i
      (if mrg i then kaapi_task_markaftersteal (tstate_of s i) else kaapi_task_markterm (tstate_of s i)) s))"
| unlock: "sp_thief s i = TUnlock \<Longrightarrow>
    frame_thief_step mrg i s (set_thief i TDone (set_tstate i (kaapi_task_unlock (tstate_of s i)) s))"

inductive frame_steal_step :: "(nat \<Rightarrow> bool) \<Rightarrow> nat \<Rightarrow> steal_state \<Rightarrow> steal_state \<Rightarrow> bool" for mrg n where
  by_owner: "owner_step n s s' \<Longrightarrow> frame_steal_step mrg n s s'"
| by_combiner: "combiner_step n s s' \<Longrightarrow> frame_steal_step mrg n s s'"
| by_thief: "i < n \<Longrightarrow> frame_thief_step mrg i s s' \<Longrightarrow> frame_steal_step mrg n s s'"

text \<open>A frame of new tasks; \<open>flags i\<close> are the scheduling flags of task \<open>i\<close>.\<close>

definition steal_start :: "(nat \<Rightarrow> uint8) \<Rightarrow> steal_state" where
  "steal_start flags =
     \<lparr>sp_task = (\<lambda>i. \<lparr>tk_state = KAAPI_TASK_STATE_INIT, tk_flag = flags i, tk_reserved = False\<rparr>),
      sp_steal = (\<lambda>_. KAAPI_TASK_STATE_INIT), sp_owner = OExec 0, sp_comb = CIdle, sp_thief = (\<lambda>_. TNone),
      sp_ran = [], sp_merged = []\<rparr>"

section \<open>The invariant\<close>

fun owner_pos :: "frame_owner_pc \<Rightarrow> nat" where
  "owner_pos (OExec i) = i"
| "owner_pos (OBody i) = i"
| "owner_pos (OTry i) = i"
| "owner_pos (OState i) = i"
| "owner_pos (OWait i) = i"
| "owner_pos (OSignal i) = i"
| "owner_pos (OUnlock i _) = i"
| "owner_pos (OSuspend i) = i"
| "owner_pos (OMerge i) = i"

fun owner_locks :: "frame_owner_pc \<Rightarrow> bool" where
  "owner_locks (OWait _) = True"
| "owner_locks (OSignal _) = True"
| "owner_locks (OUnlock _ _) = True"
| "owner_locks _ = False"

fun owner_waits :: "frame_owner_pc \<Rightarrow> bool" where
  "owner_waits (OExec _) = False"
| "owner_waits (OBody _) = False"
| "owner_waits (OMerge _) = False"
| "owner_waits _ = True"

fun is_OBody :: "frame_owner_pc \<Rightarrow> bool" where
  "is_OBody (OBody _) = True"
| "is_OBody _ = False"

fun is_OMerge :: "frame_owner_pc \<Rightarrow> bool" where
  "is_OMerge (OMerge _) = True"
| "is_OMerge _ = False"

fun is_OExec :: "frame_owner_pc \<Rightarrow> bool" where
  "is_OExec (OExec _) = True"
| "is_OExec _ = False"

abbreviation pos_of :: "steal_state \<Rightarrow> nat" where "pos_of s \<equiv> owner_pos (sp_owner s)"

fun comb_task :: "combiner_pc \<Rightarrow> nat option" where
  "comb_task CIdle = None"
| "comb_task (CMark i) = Some i"
| "comb_task (CReserve i) = Some i"
| "comb_task (CReply i) = Some i"

definition stolen :: "steal_state \<Rightarrow> nat \<Rightarrow> bool" where
  "stolen s i \<longleftrightarrow> sp_comb s = CReserve i \<or> sp_comb s = CReply i \<or> sp_thief s i \<noteq> TNone"

fun body_ended :: "frame_thief_pc \<Rightarrow> bool" where
  "body_ended TNone = False"
| "body_ended TExec = False"
| "body_ended TBody = False"
| "body_ended _ = True"

fun thief_ended :: "frame_thief_pc \<Rightarrow> bool" where
  "thief_ended TUnlock = True"
| "thief_ended TDone = True"
| "thief_ended _ = False"

fun thief_locks :: "frame_thief_pc \<Rightarrow> bool" where
  "thief_locks TMark = True"
| "thief_locks TUnlock = True"
| "thief_locks _ = False"

text \<open>What holds of the task at position \<open>i\<close>: of its flags, and of who may be at it.\<close>

definition flags_ok :: "(nat \<Rightarrow> bool) \<Rightarrow> steal_state \<Rightarrow> nat \<Rightarrow> bool" where
  "flags_ok mrg s i \<longleftrightarrow>
     (\<not> is_exec (tstate_of s i) \<or> i < pos_of s \<or> i = pos_of s \<and> (is_OBody (sp_owner s) \<or> stolen s i))
   \<and> (is_steal (tstate_of s i) \<or> \<not> stolen s i)
   \<and> (is_exec (tstate_of s i) \<or> stolen s i \<or> \<not> is_steal (tstate_of s i))
   \<and> (is_exec (tstate_of s i) \<or> stolen s i \<or> \<not> (i < pos_of s \<or> i = pos_of s \<and> is_OBody (sp_owner s)))
   \<and> (is_term (tstate_of s i) \<longleftrightarrow> thief_ended (sp_thief s i) \<and> \<not> mrg i)
   \<and> (is_merge (tstate_of s i) \<longleftrightarrow> thief_ended (sp_thief s i) \<and> mrg i)"

definition locks_ok :: "steal_state \<Rightarrow> nat \<Rightarrow> bool" where
  "locks_ok s i \<longleftrightarrow>
     (is_locked (tstate_of s i) \<longleftrightarrow> i = pos_of s \<and> owner_locks (sp_owner s) \<or> thief_locks (sp_thief s i))
   \<and> \<not> (i = pos_of s \<and> owner_locks (sp_owner s) \<and> thief_locks (sp_thief s i))"

definition place_ok :: "(nat \<Rightarrow> bool) \<Rightarrow> steal_state \<Rightarrow> nat \<Rightarrow> bool" where
  "place_ok mrg s i \<longleftrightarrow>
     (i \<noteq> pos_of s \<or> (stolen s i \<or> \<not> owner_waits (sp_owner s)) \<and> (\<not> stolen s i \<or> \<not> is_OBody (sp_owner s))
        \<and> (thief_ended (sp_thief s i) \<and> mrg i \<or> \<not> is_OMerge (sp_owner s)))
   \<and> (tk_reserved (sp_task s i) \<longleftrightarrow> sp_comb s = CReply i \<or> sp_thief s i \<noteq> TNone)
   \<and> (sp_steal s i AND KAAPI_TASK_EXECUTION_STATE = 0 \<or> sp_thief s i \<noteq> TExec \<and> sp_comb s \<noteq> CReply i)
   \<and> (thief_ended (sp_thief s i) \<or> \<not> (stolen s i \<and> i < pos_of s))
   \<and> (sp_thief s i = TNone \<or> comb_task (sp_comb s) \<noteq> Some i)"

definition lists_ok :: "(nat \<Rightarrow> bool) \<Rightarrow> nat \<Rightarrow> steal_state \<Rightarrow> bool" where
  "lists_ok mrg n s \<longleftrightarrow> distinct (sp_ran s) \<and> distinct (sp_merged s)
   \<and> (\<forall>i. i \<in> set (sp_ran s) \<longleftrightarrow> \<not> stolen s i \<and> i < pos_of s \<or> body_ended (sp_thief s i))
   \<and> (\<forall>i. i \<in> set (sp_merged s) \<longleftrightarrow> i < pos_of s \<and> stolen s i \<and> mrg i)"

definition range_in :: "nat \<Rightarrow> steal_state \<Rightarrow> bool" where
  "range_in n s \<longleftrightarrow> pos_of s \<le> n \<and> (pos_of s = n \<longrightarrow> is_OExec (sp_owner s))
   \<and> (\<forall>i. comb_task (sp_comb s) = Some i \<longrightarrow> i < n) \<and> (\<forall>i. sp_thief s i \<noteq> TNone \<longrightarrow> i < n)"

definition steal_inv :: "(nat \<Rightarrow> bool) \<Rightarrow> nat \<Rightarrow> steal_state \<Rightarrow> bool" where
  "steal_inv mrg n s \<longleftrightarrow> range_in n s \<and> lists_ok mrg n s
     \<and> (\<forall>i. flags_ok mrg s i \<and> locks_ok s i \<and> place_ok mrg s i)"

lemma fs_tstate [simp]:
  "tstate_of (set_tstate i st s) j = (if j = i then st else tstate_of s j)"
  "tk_reserved (sp_task (set_tstate i st s) j) = tk_reserved (sp_task s j)"
  "tk_flag (sp_task (set_tstate i st s) j) = tk_flag (sp_task s j)"
  "sp_steal (set_tstate i st s) = sp_steal s" "sp_owner (set_tstate i st s) = sp_owner s"
  "sp_comb (set_tstate i st s) = sp_comb s" "sp_thief (set_tstate i st s) = sp_thief s"
  "sp_ran (set_tstate i st s) = sp_ran s" "sp_merged (set_tstate i st s) = sp_merged s"
  by (simp_all add: set_tstate_def)

lemma fs_thief [simp]:
  "sp_task (set_thief i p s) = sp_task s" "sp_thief (set_thief i p s) = (sp_thief s)(i := p)"
  "sp_steal (set_thief i p s) = sp_steal s" "sp_owner (set_thief i p s) = sp_owner s"
  "sp_comb (set_thief i p s) = sp_comb s" "sp_ran (set_thief i p s) = sp_ran s" "sp_merged (set_thief i p s) = sp_merged s"
  by (simp_all add: set_thief_def)

lemma stolen_frame [simp]:
  "stolen (set_tstate i st s) j = stolen s j" "stolen (s\<lparr>sp_owner := p\<rparr>) j = stolen s j"
  "stolen (s\<lparr>sp_steal := f\<rparr>) j = stolen s j" "stolen (s\<lparr>sp_ran := l\<rparr>) j = stolen s j"
  "stolen (s\<lparr>sp_merged := l\<rparr>) j = stolen s j" "stolen (s\<lparr>sp_task := g\<rparr>) j = stolen s j"
  by (simp_all add: stolen_def)

lemmas steal_inv_parts = flags_ok_def locks_ok_def place_ok_def

lemma steal_start_inv: "steal_inv mrg n (steal_start flags)"
  by (simp add: steal_inv_def range_in_def lists_ok_def flags_ok_def locks_ok_def place_ok_def steal_start_def stolen_def)

lemma exec_branch_cases:
  assumes "flags_ok mrg s i" "sp_owner s = OExec i" "kaapi_task_markexec (tstate_of s i) = (st, st')"
  shows "(\<not> stolen s i \<and> exec_branch i st = OBody i)
    \<or> (stolen s i \<and> thief_ended (sp_thief s i) \<and> \<not> mrg i \<and> exec_branch i st = OExec (Suc i))
    \<or> (stolen s i \<and> thief_ended (sp_thief s i) \<and> mrg i \<and> exec_branch i st = OMerge i)
    \<or> (stolen s i \<and> \<not> thief_ended (sp_thief s i) \<and> exec_branch i st = OTry i)"
proof -
  have st: "st = fst (kaapi_task_markexec (tstate_of s i))" using assms(3) by simp
  have z: "st = 0 \<longleftrightarrow> \<not> is_exec (tstate_of s i) \<and> \<not> is_steal (tstate_of s i) \<and> \<not> is_term (tstate_of s i) \<and> \<not> is_merge (tstate_of s i)"
    unfolding st by (rule markexec_flags)
  have b: "bit st m \<longleftrightarrow> bit (tstate_of s i) m" if "m \<in> {0, 1, 2, 3}" for m
    unfolding st using that by auto
  have t: "st AND KAAPI_TASK_STATE_TERM \<noteq> 0 \<longleftrightarrow> is_term (tstate_of s i)" "st AND KAAPI_TASK_STATE_MERGE \<noteq> 0 \<longleftrightarrow> is_merge (tstate_of s i)"
    "st AND KAAPI_TASK_STATE_STEAL \<noteq> 0 \<longleftrightarrow> is_steal (tstate_of s i)"
    using b by (simp_all add: KAAPI_TASK_STATE_TERM_def KAAPI_TASK_STATE_MERGE_def KAAPI_TASK_STATE_STEAL_def)
  have ns: "thief_ended (sp_thief s i) \<Longrightarrow> stolen s i" by (cases "sp_thief s i") (simp_all add: stolen_def)
  have x: "is_term (tstate_of s i) \<longleftrightarrow> thief_ended (sp_thief s i) \<and> \<not> mrg i"
    "is_merge (tstate_of s i) \<longleftrightarrow> thief_ended (sp_thief s i) \<and> mrg i"
    "is_steal (tstate_of s i) \<longleftrightarrow> stolen s i" "is_exec (tstate_of s i) \<Longrightarrow> stolen s i"
    using assms(1) [unfolded flags_ok_def assms(2) owner_pos.simps is_OBody.simps] by blast+
  show ?thesis
  proof (cases "stolen s i")
    case True
    then have "st \<noteq> 0" using z x(3) by simp
    then show ?thesis unfolding exec_branch_def t x using True by simp
  next
    case False
    then have "st = 0" using z x ns by blast
    then show ?thesis using False by (simp add: exec_branch_def)
  qed
qed

lemma steal_invD:
  assumes "steal_inv mrg n s"
  shows "range_in n s" "lists_ok mrg n s" "flags_ok mrg s i" "locks_ok s i" "place_ok mrg s i"
  using assms by (simp_all add: steal_inv_def)

lemma thief_ended_stolen: "thief_ended (sp_thief s i) \<Longrightarrow> stolen s i"
  by (cases "sp_thief s i") (simp_all add: stolen_def)

lemma body_ended_stolen: "body_ended (sp_thief s i) \<Longrightarrow> stolen s i"
  by (cases "sp_thief s i") (simp_all add: stolen_def)

lemma owner_flags:
  assumes "owner_step n s s'" "steal_inv mrg n s"
  shows "flags_ok mrg s' j"
  using assms(1)
proof cases
  case (exec i st st')
  note f = steal_invD(3) [OF assms(2), of j, unfolded flags_ok_def exec(2) owner_pos.simps is_OBody.simps]
  have st': "bit st' m \<longleftrightarrow> bit (tstate_of s i) m \<or> m = 0" for m using exec(4) markexec_flags(2) by (metis snd_conv)
  from exec_branch_cases [OF steal_invD(3) [OF assms(2)] exec(2,4)]
  show ?thesis
    by (elim disjE conjE; use f in \<open>cases "j = i"; auto simp: exec(1) st' flags_ok_def\<close>)
next
  case (body i)
  note f = steal_invD(3) [OF assms(2), of j, unfolded flags_ok_def] steal_invD(5) [OF assms(2), of i, unfolded place_ok_def]
  show ?thesis using f body by (cases "j = i") (auto simp: flags_ok_def)
next
  case (trylock i ok st')
  have st': "bit st' m \<longleftrightarrow> bit (tstate_of s i) m \<or> m = 6" for m using trylock(3) lock_flags(2) by (metis snd_conv)
  show ?thesis
    using steal_invD(3) [OF assms(2), of j, unfolded flags_ok_def] trylock(1,2)
    by (cases "j = i") (auto simp: flags_ok_def st')
next
  case (getstate i)
  note f = steal_invD(3) [OF assms(2), of j, unfolded flags_ok_def] steal_invD(5) [OF assms(2), of i, unfolded place_ok_def]
  show ?thesis using f getstate by (cases "j = i") (auto simp: flags_ok_def state_defs)
next
  case (reserved i)
  then show ?thesis using steal_invD(3) [OF assms(2), of j] by (auto simp: flags_ok_def)
next
  case (signal i old st')
  then show ?thesis using steal_invD(3) [OF assms(2), of j] by (auto simp: flags_ok_def)
next
  case (unlock i b)
  then show ?thesis using steal_invD(3) [OF assms(2), of j] by (cases "j = i") (auto simp: flags_ok_def)
next
  case (resume i)
  then show ?thesis using steal_invD(3) [OF assms(2), of j] by (auto simp: flags_ok_def)
next
  case (merge i)
  note f = steal_invD(3) [OF assms(2), of j, unfolded flags_ok_def] steal_invD(5) [OF assms(2), of i, unfolded place_ok_def]
  show ?thesis using f merge thief_ended_stolen [of s i] by (cases "j = i") (auto simp: flags_ok_def)
qed

lemma owner_locks_inv:
  assumes "owner_step n s s'" "steal_inv mrg n s"
  shows "locks_ok s' j"
  using assms(1)
proof cases
  case (exec i st st')
  note f = steal_invD(4) [OF assms(2), of j, unfolded locks_ok_def exec(2) owner_pos.simps owner_locks.simps]
  have st': "bit st' m \<longleftrightarrow> bit (tstate_of s i) m \<or> m = 0" for m using exec(4) markexec_flags(2) by (metis snd_conv)
  from exec_branch_cases [OF steal_invD(3) [OF assms(2)] exec(2,4)]
  show ?thesis
    by (elim disjE conjE; use f in \<open>cases "j = i"; auto simp: exec(1) st' locks_ok_def\<close>)
next
  case (trylock i ok st')
  have st': "bit st' m \<longleftrightarrow> bit (tstate_of s i) m \<or> m = 6" for m using trylock(3) lock_flags(2) by (metis snd_conv)
  have ok: "ok \<longleftrightarrow> \<not> is_locked (tstate_of s i)" using trylock(3) lock_flags(1) by (metis fst_conv)
  show ?thesis
    using steal_invD(4) [OF assms(2), of j, unfolded locks_ok_def] trylock(1,2) ok
    by (cases "j = i") (auto simp: locks_ok_def st')
next
  case (unlock i b)
  then show ?thesis using steal_invD(4) [OF assms(2), of j] by (cases "j = i") (auto simp: locks_ok_def)
qed (use steal_invD(4) [OF assms(2), of j] in \<open>auto simp: locks_ok_def\<close>)

lemma owner_place:
  assumes "owner_step n s s'" "steal_inv mrg n s"
  shows "place_ok mrg s' j"
  using assms(1)
proof cases
  case (exec i st st')
  note f = steal_invD(5) [OF assms(2), of j, unfolded place_ok_def exec(2) owner_pos.simps]
  from exec_branch_cases [OF steal_invD(3) [OF assms(2)] exec(2,4)]
  show ?thesis
    by (elim disjE conjE; use f in \<open>cases "j = i"; auto simp: exec(1) place_ok_def\<close>)
next
  case (body i)
  note f = steal_invD(5) [OF assms(2), of j, unfolded place_ok_def]
  show ?thesis using f body by (cases "j = i") (auto simp: place_ok_def)
next
  case (getstate i)
  note f = steal_invD(5) [OF assms(2), of j, unfolded place_ok_def] steal_invD(3) [OF assms(2), of i, unfolded flags_ok_def]
  show ?thesis using f getstate by (cases "j = i") (auto simp: place_ok_def state_defs)
next
  case (signal i old st')
  have st': "bit st' m \<longleftrightarrow> bit (sp_steal s i) m \<or> m = 5" for m using signal(3) orstate_flags(2) by (metis snd_conv)
  show ?thesis using steal_invD(5) [OF assms(2), of j] signal by (auto simp: place_ok_def execution_state_0 st')
next
  case (merge i)
  note f = steal_invD(5) [OF assms(2), of j, unfolded place_ok_def]
  show ?thesis using f merge by (cases "j = i") (auto simp: place_ok_def)
qed (use steal_invD(5) [OF assms(2), of j] in \<open>auto simp: place_ok_def split: if_splits\<close>)

lemma owner_range:
  assumes "owner_step n s s'" "steal_inv mrg n s"
  shows "range_in n s'"
  using assms(1)
proof cases
  case (exec i st st')
  from exec_branch_cases [OF steal_invD(3) [OF assms(2)] exec(2,4)]
  show ?thesis
    by (elim disjE conjE; use steal_invD(1) [OF assms(2)] exec(1-3) in \<open>auto simp: range_in_def\<close>)
qed (use steal_invD(1) [OF assms(2)] in \<open>auto simp: range_in_def le_less split: if_splits\<close>)

lemma owner_lists:
  assumes "owner_step n s s'" "steal_inv mrg n s"
  shows "lists_ok mrg n s'"
  using assms(1)
proof cases
  case (exec i st st')
  from exec_branch_cases [OF steal_invD(3) [OF assms(2)] exec(2,4)]
  show ?thesis
    by (elim disjE conjE; use steal_invD(2) [OF assms(2)] exec(1-3) in \<open>auto simp: lists_ok_def less_Suc_eq\<close>)
next
  case (body i)
  then show ?thesis
    using steal_invD(2) [OF assms(2)] steal_invD(5) [OF assms(2), of i] body_ended_stolen [of s i]
    by (auto simp: lists_ok_def place_ok_def less_Suc_eq)
next
  case (getstate i)
  show ?thesis
    using steal_invD(2) [OF assms(2)] steal_invD(5) [OF assms(2), of i] steal_invD(3) [OF assms(2), of i] getstate
    by (auto simp: lists_ok_def place_ok_def flags_ok_def less_Suc_eq state_defs)
next
  case (merge i)
  then show ?thesis
    using steal_invD(2) [OF assms(2)] steal_invD(5) [OF assms(2), of i] thief_ended_stolen [of s i]
    by (auto simp: lists_ok_def place_ok_def less_Suc_eq)
qed (use steal_invD(2) [OF assms(2)] in \<open>auto simp: lists_ok_def\<close>)

lemma comb_stolen [simp]:
  "stolen (s\<lparr>sp_comb := CMark i\<rparr>) j \<longleftrightarrow> sp_thief s j \<noteq> TNone" "stolen (s\<lparr>sp_comb := CIdle\<rparr>) j \<longleftrightarrow> sp_thief s j \<noteq> TNone"
  "stolen (s\<lparr>sp_comb := CReserve i\<rparr>) j \<longleftrightarrow> j = i \<or> sp_thief s j \<noteq> TNone"
  "stolen (s\<lparr>sp_comb := CReply i\<rparr>) j \<longleftrightarrow> j = i \<or> sp_thief s j \<noteq> TNone"
  by (auto simp: stolen_def)

lemma stolen_at:
  "sp_comb s = CIdle \<Longrightarrow> stolen s j \<longleftrightarrow> sp_thief s j \<noteq> TNone" "sp_comb s = CMark i \<Longrightarrow> stolen s j \<longleftrightarrow> sp_thief s j \<noteq> TNone"
  "sp_comb s = CReserve i \<Longrightarrow> stolen s j \<longleftrightarrow> j = i \<or> sp_thief s j \<noteq> TNone"
  "sp_comb s = CReply i \<Longrightarrow> stolen s j \<longleftrightarrow> j = i \<or> sp_thief s j \<noteq> TNone"
  by (auto simp: stolen_def)

lemma combiner_inv:
  assumes "combiner_step n s s'" "steal_inv mrg n s"
  shows "steal_inv mrg n s'"
  using assms(1)
proof cases
  case (choose i)
  have st: "\<not> is_steal (tstate_of s i)" using isstealable_flags [OF choose(4)] by simp
  have t: "sp_thief s i = TNone" using st steal_invD(3) [OF assms(2), of i] stolen_at(1) [OF choose(2)] by (auto simp: flags_ok_def)
  have e: "stolen s' j \<longleftrightarrow> stolen s j" for j using stolen_at(1) [OF choose(2)] by (simp add: choose(1))
  show ?thesis unfolding steal_inv_def
  proof (intro conjI allI)
    show "range_in n s'" using steal_invD(1) [OF assms(2)] choose(1-3) by (simp add: range_in_def)
    show "lists_ok mrg n s'" using steal_invD(2) [OF assms(2)] by (simp add: lists_ok_def e) (simp add: choose(1))
    fix j
    show "flags_ok mrg s' j" using steal_invD(3) [OF assms(2), of j] by (simp add: flags_ok_def e) (simp add: choose(1))
    show "locks_ok s' j" using steal_invD(4) [OF assms(2), of j] by (simp add: locks_ok_def choose(1))
    show "place_ok mrg s' j" using steal_invD(5) [OF assms(2), of j] t choose(2) unfolding place_ok_def e by (auto simp: choose(1))
  qed
next
  case (mark i ok st')
  have st': "bit st' m \<longleftrightarrow> bit (tstate_of s i) m \<or> m = 1" for m using mark(3) marksteal_flags(2) by (metis snd_conv)
  have ok: "ok \<longleftrightarrow> \<not> is_exec (tstate_of s i)" using mark(3) marksteal_flags(1) by (metis fst_conv)
  have t: "sp_thief s i = TNone" using steal_invD(5) [OF assms(2), of i] mark(2) by (simp add: place_ok_def)
  have ns: "\<not> stolen s i" using t mark(2) by (simp add: stolen_at)
  have e: "stolen s' j \<longleftrightarrow> (if j = i then ok else stolen s j)" for j
    using stolen_at(2) [OF mark(2)] t by (simp add: mark(1))
  have fi: "i < pos_of s \<or> i = pos_of s \<and> is_OBody (sp_owner s) \<longleftrightarrow> \<not> ok"
    using steal_invD(3) [OF assms(2), of i] ns ok by (auto simp: flags_ok_def)
  show ?thesis unfolding steal_inv_def
  proof (intro conjI allI)
    show "range_in n s'" using steal_invD(1) [OF assms(2)] mark(1,2) by (auto simp: range_in_def)
    show "lists_ok mrg n s'"
      using steal_invD(2) [OF assms(2)] fi ns t unfolding lists_ok_def e by (auto simp: mark(1))
    fix j
    show "flags_ok mrg s' j"
      using steal_invD(3) [OF assms(2), of j] fi ns ok t unfolding flags_ok_def e
      by (cases "j = i") (auto simp: mark(1) st')
    show "locks_ok s' j" using steal_invD(4) [OF assms(2), of j] by (cases "j = i") (simp_all add: locks_ok_def mark(1) st')
    show "place_ok mrg s' j"
      using steal_invD(5) [OF assms(2), of j] fi ns t mark(2) unfolding place_ok_def e
      by (cases "j = i") (auto simp: mark(1))
  qed
next
  case (reserve i)
  have t: "sp_thief s i = TNone" using steal_invD(5) [OF assms(2), of i] reserve(2) by (simp add: place_ok_def)
  have e: "stolen s' j \<longleftrightarrow> stolen s j" for j using stolen_at(3) [OF reserve(2)] by (auto simp: reserve(1) stolen_def)
  show ?thesis unfolding steal_inv_def
  proof (intro conjI allI)
    show "range_in n s'" using steal_invD(1) [OF assms(2)] reserve(1,2) by (simp add: range_in_def)
    show "lists_ok mrg n s'" using steal_invD(2) [OF assms(2)] by (simp add: lists_ok_def e) (simp add: reserve(1))
    fix j
    show "flags_ok mrg s' j" using steal_invD(3) [OF assms(2), of j] unfolding flags_ok_def e
      by (cases "j = i") (simp_all add: reserve(1))
    show "locks_ok s' j" using steal_invD(4) [OF assms(2), of j] by (cases "j = i") (simp_all add: locks_ok_def reserve(1))
    show "place_ok mrg s' j"
      using steal_invD(5) [OF assms(2), of j] t reserve(2) unfolding place_ok_def e
      by (cases "j = i") (auto simp: reserve(1) KAAPI_TASK_STATE_INIT_def)
  qed
next
  case (reply i)
  have t: "sp_thief s i = TNone" using steal_invD(5) [OF assms(2), of i] reply(2) by (simp add: place_ok_def)
  have e: "stolen s' j \<longleftrightarrow> stolen s j" for j using stolen_at(4) [OF reply(2)] by (auto simp: reply(1) stolen_def)
  have n: "i < n" using steal_invD(1) [OF assms(2)] reply(2) by (simp add: range_in_def)
  show ?thesis unfolding steal_inv_def
  proof (intro conjI allI)
    show "range_in n s'" using steal_invD(1) [OF assms(2)] reply(1,2) n by (simp add: range_in_def)
    show "lists_ok mrg n s'" using steal_invD(2) [OF assms(2)] t by (simp add: lists_ok_def e) (simp add: reply(1))
    fix j
    show "flags_ok mrg s' j"
      using steal_invD(3) [OF assms(2), of j] t by (simp add: flags_ok_def e) (simp add: reply(1))
    show "locks_ok s' j" using steal_invD(4) [OF assms(2), of j] t by (simp add: locks_ok_def reply(1))
    show "place_ok mrg s' j"
      using steal_invD(5) [OF assms(2), of j] t reply(2) unfolding place_ok_def e
      by (cases "j = i") (auto simp: reply(1))
  qed
qed

lemma frame_thief_inv:
  assumes "frame_thief_step mrg i s s'" "steal_inv mrg n s"
  shows "steal_inv mrg n s'"
proof -
  have act: "sp_thief s i \<noteq> TNone" "sp_thief s' i \<noteq> TNone" using assms(1) by (cases; simp)+
  have c: "sp_comb s' = sp_comb s" "sp_owner s' = sp_owner s" "sp_merged s' = sp_merged s"
    "\<And>j. j \<noteq> i \<Longrightarrow> sp_thief s' j = sp_thief s j" "\<And>j. j \<noteq> i \<Longrightarrow> sp_task s' j = sp_task s j"
    "\<And>j. j \<noteq> i \<Longrightarrow> sp_steal s' j = sp_steal s j" "tk_reserved (sp_task s' i) = tk_reserved (sp_task s i)"
    using assms(1) by (cases; simp)+
  have e: "stolen s' j \<longleftrightarrow> stolen s j" for j using act c by (cases "j = i") (simp_all add: stolen_def)
  have si: "stolen s i" using act by (simp add: stolen_def)
  have r: "range_in n s'" using steal_invD(1) [OF assms(2)] unfolding range_in_def c by (metis act(1) c(4))
  have o: "flags_ok mrg s' j" "locks_ok s' j" "place_ok mrg s' j" if "j \<noteq> i" for j
    using steal_invD(3-5) [OF assms(2), of j] that by (simp_all add: flags_ok_def locks_ok_def place_ok_def c e)
  note f = steal_invD(3) [OF assms(2), of i] and l = steal_invD(4) [OF assms(2), of i]
    and p = steal_invD(5) [OF assms(2), of i] and ls = steal_invD(2) [OF assms(2)]
  have "flags_ok mrg s' i \<and> locks_ok s' i \<and> place_ok mrg s' i \<and> lists_ok mrg n s'"
    using assms(1)
  proof cases
    case (exec st')
    have "flags_ok mrg s' i" using f exec(2) unfolding flags_ok_def e by (simp add: exec(1))
    moreover have "locks_ok s' i" using l exec(2) unfolding locks_ok_def by (simp add: exec(1))
    moreover have "place_ok mrg s' i" using p exec(2) unfolding place_ok_def e by (auto simp: exec(1))
    moreover have "lists_ok mrg n s'" using ls exec(2) unfolding lists_ok_def e by (auto simp: exec(1))
    ultimately show ?thesis by blast
  next
    case body
    have "flags_ok mrg s' i" using f body(2) unfolding flags_ok_def e by (simp add: body(1))
    moreover have "locks_ok s' i" using l body(2) unfolding locks_ok_def by (simp add: body(1))
    moreover have "place_ok mrg s' i" using p body(2) unfolding place_ok_def e by (simp add: body(1))
    moreover have "lists_ok mrg n s'" using ls body(2) si unfolding lists_ok_def e by (auto simp: body(1))
    ultimately show ?thesis by blast
  next
    case (lock st')
    have st': "bit st' m \<longleftrightarrow> bit (tstate_of s i) m \<or> m = 6" "\<not> is_locked (tstate_of s i)" for m
      using lock(3) lock_flags by (metis fst_conv snd_conv)+
    have "flags_ok mrg s' i" using f lock(2) unfolding flags_ok_def e by (simp add: lock(1) st')
    moreover have "locks_ok s' i" using l lock(2) st'(2) unfolding locks_ok_def by (auto simp: lock(1) st')
    moreover have "place_ok mrg s' i" using p lock(2) unfolding place_ok_def e by (simp add: lock(1))
    moreover have "lists_ok mrg n s'" using ls lock(2) unfolding lists_ok_def e by (auto simp: lock(1))
    ultimately show ?thesis by blast
  next
    case mark
    have "flags_ok mrg s' i" using f mark(2) unfolding flags_ok_def e by (simp add: mark(1))
    moreover have "locks_ok s' i" using l mark(2) unfolding locks_ok_def by (simp add: mark(1))
    moreover have "place_ok mrg s' i" using p mark(2) unfolding place_ok_def e by (simp add: mark(1))
    moreover have "lists_ok mrg n s'" using ls mark(2) unfolding lists_ok_def e by (auto simp: mark(1))
    ultimately show ?thesis by blast
  next
    case unlock
    have "flags_ok mrg s' i" using f unlock(2) unfolding flags_ok_def e by (simp add: unlock(1))
    moreover have "locks_ok s' i" using l unlock(2) unfolding locks_ok_def by (simp add: unlock(1))
    moreover have "place_ok mrg s' i" using p unlock(2) unfolding place_ok_def e by (simp add: unlock(1))
    moreover have "lists_ok mrg n s'" using ls unlock(2) unfolding lists_ok_def e by (auto simp: unlock(1))
    ultimately show ?thesis by blast
  qed
  then show ?thesis using r o unfolding steal_inv_def by metis
qed

lemma steal_step_inv: "frame_steal_step mrg n s s' \<Longrightarrow> steal_inv mrg n s \<Longrightarrow> steal_inv mrg n s'"
proof (induction rule: frame_steal_step.induct)
  case (by_owner s s')
  note o = by_owner(1,2)
  show ?case
    unfolding steal_inv_def [of _ _ s']
    using owner_range [OF o] owner_lists [OF o] owner_flags [OF o] owner_locks_inv [OF o] owner_place [OF o] by blast
qed (use combiner_inv frame_thief_inv in blast)+

definition steal_reachable :: "(nat \<Rightarrow> bool) \<Rightarrow> nat \<Rightarrow> (nat \<Rightarrow> uint8) \<Rightarrow> steal_state \<Rightarrow> bool" where
  "steal_reachable mrg n flags s \<longleftrightarrow> (frame_steal_step mrg n)\<^sup>*\<^sup>* (steal_start flags) s"

lemma steal_reachable_inv: "steal_reachable mrg n flags s \<Longrightarrow> steal_inv mrg n s"
  unfolding steal_reachable_def
  by (induction rule: rtranclp_induct) (simp_all add: steal_start_inv steal_step_inv)

end
