(* ===== verification/Steal_Props.thy ===== *)
theory Steal_Props
  imports Steal_Protocol "HOL-Library.Multiset"
begin

text \<open>
  What the protocol of \<open>Steal_Protocol\<close> promises: the body of each task of the frame runs once, on the owner or on
  a thief; the owner passes a task only when its body has ended and its results are merged; and from every
  reachable state the owner can finish the frame.
\<close>

section \<open>Progress\<close>

fun thief_rank :: "frame_thief_pc \<Rightarrow> nat" where
  "thief_rank TExec = 6"
| "thief_rank TBody = 5"
| "thief_rank TLock = 4"
| "thief_rank TMark = 3"
| "thief_rank TUnlock = 2"
| "thief_rank _ = 0"

fun comb_rank :: "combiner_pc \<Rightarrow> nat" where
  "comb_rank CIdle = 0"
| "comb_rank (CMark _) = 101"
| "comb_rank (CReserve _) = 100"
| "comb_rank (CReply _) = 10"

definition ended :: "steal_state \<Rightarrow> nat \<Rightarrow> bool" where
  "ended s i \<longleftrightarrow> is_term (tstate_of s i) \<or> is_merge (tstate_of s i)"

fun owner_rank :: "bool \<Rightarrow> frame_owner_pc \<Rightarrow> nat" where
  "owner_rank e (OExec _) = (if e then 5 else 30)"
| "owner_rank e (OBody _) = 3"
| "owner_rank e (OTry _) = 25"
| "owner_rank e (OState _) = 26"
| "owner_rank e (OWait _) = 20"
| "owner_rank e (OSignal _) = 18"
| "owner_rank e (OUnlock _ b) = (if b then 45 else 16)"
| "owner_rank e (OSuspend _) = 10"
| "owner_rank e (OMerge _) = 3"

definition task_load :: "steal_state \<Rightarrow> nat \<Rightarrow> nat" where
  "task_load s i = thief_rank (sp_thief s i) + (if is_signaled (sp_steal s i) then 0 else 60)"

definition steal_load :: "nat \<Rightarrow> steal_state \<Rightarrow> nat" where
  "steal_load n s = (\<Sum>i<n. task_load s i) + comb_rank (sp_comb s)
     + (n - pos_of s) * 50 + owner_rank (ended s (pos_of s)) (sp_owner s)"

lemma sum_change:
  fixes f g :: "nat \<Rightarrow> nat"
  assumes "i < n" "\<And>j. j \<noteq> i \<Longrightarrow> g j = f j"
  shows "(\<Sum>j<n. g j) + f i = (\<Sum>j<n. f j) + g i"
proof -
  have "(\<Sum>j\<in>{..<n} - {i}. g j) = (\<Sum>j\<in>{..<n} - {i}. f j)" using assms(2) by (intro sum.cong) auto
  then show ?thesis using assms(1) sum.remove [of "{..<n}" i f] sum.remove [of "{..<n}" i g] by simp
qed

lemma combiner_progress:
  assumes "steal_inv mrg n s" "sp_comb s \<noteq> CIdle"
  shows "\<exists>s'. combiner_step n s s' \<and> steal_load n s' < steal_load n s"
proof (cases "sp_comb s")
  case (CMark i)
  obtain ok st' where m: "kaapi_task_marksteal (tstate_of s i) = (ok, st')" by fastforce
  have st': "bit st' k \<longleftrightarrow> bit (tstate_of s i) k \<or> k = 1" for k using m marksteal_flags(2) by (metis snd_conv)
  let ?s' = "set_tstate i st' s\<lparr>sp_comb := if ok then CReserve i else CIdle\<rparr>"
  have "ended ?s' j = ended s j" for j by (simp add: ended_def st')
  moreover have "task_load ?s' = task_load s" by (simp add: task_load_def fun_eq_iff)
  ultimately have "steal_load n ?s' < steal_load n s" by (simp add: steal_load_def CMark)
  then show ?thesis using combiner_step.mark [OF CMark m] by blast
next
  case (CReserve i)
  let ?s' = "s\<lparr>sp_steal := (sp_steal s)(i := KAAPI_TASK_STATE_INIT), sp_comb := CReply i,
    sp_task := (sp_task s)(i := (sp_task s i)\<lparr>tk_reserved := True\<rparr>)\<rparr>"
  have i: "i < n" using steal_invD(1) [OF assms(1)] CReserve by (simp add: range_in_def)
  have "(\<Sum>j<n. task_load ?s' j) + task_load s i = (\<Sum>j<n. task_load s j) + task_load ?s' i"
    by (rule sum_change [OF i]) (simp add: task_load_def)
  moreover have "task_load ?s' i \<le> task_load s i + 60" by (simp add: task_load_def)
  moreover have "ended ?s' j = ended s j" for j by (simp add: ended_def)
  ultimately have "steal_load n ?s' < steal_load n s" by (simp add: steal_load_def CReserve)
  then show ?thesis using combiner_step.reserve [OF CReserve] by blast
next
  case (CReply i)
  let ?s' = "set_thief i TExec s\<lparr>sp_comb := CIdle\<rparr>"
  have i: "i < n" using steal_invD(1) [OF assms(1)] CReply by (simp add: range_in_def)
  have t: "sp_thief s i = TNone" using steal_invD(5) [OF assms(1), of i] CReply by (simp add: place_ok_def)
  have "(\<Sum>j<n. task_load ?s' j) + task_load s i = (\<Sum>j<n. task_load s j) + task_load ?s' i"
    by (rule sum_change [OF i]) (simp add: task_load_def)
  moreover have "task_load ?s' i = task_load s i + 6" by (simp add: task_load_def t)
  moreover have "ended ?s' j = ended s j" for j by (simp add: ended_def)
  ultimately have "steal_load n ?s' < steal_load n s" by (simp add: steal_load_def CReply)
  then show ?thesis using combiner_step.reply [OF CReply] by blast
qed (use assms(2) in simp)

lemma owner_rank_mono: "(e \<longrightarrow> e') \<Longrightarrow> owner_rank e' p \<le> owner_rank e p"
  by (cases p) auto

lemma thief_load:
  assumes "frame_thief_step mrg i s s'" "i < n"
  shows "steal_load n s' < steal_load n s"
proof -
  have c: "sp_comb s' = sp_comb s" "sp_owner s' = sp_owner s"
    "\<And>j. j \<noteq> i \<Longrightarrow> task_load s' j = task_load s j" using assms(1) by (cases; simp add: task_load_def)+
  have t: "task_load s' i < task_load s i"
    using assms(1)
  proof cases
    case (exec st')
    have "bit st' k \<longleftrightarrow> bit (sp_steal s i) k \<or> k = 0" for k using exec(3) markexec_flags(2) by (metis snd_conv)
    then show ?thesis using exec(1,2) by (simp add: task_load_def)
  qed (simp_all add: task_load_def)
  have "ended s j \<longrightarrow> ended s' j" for j
    using assms(1)
  proof cases
    case (lock st')
    have "bit st' k \<longleftrightarrow> bit (tstate_of s i) k \<or> k = 6" for k using lock(3) lock_flags(2) by (metis snd_conv)
    then show ?thesis using lock(1) by (auto simp: ended_def)
  qed (auto simp: ended_def)
  then have "owner_rank (ended s' (pos_of s)) (sp_owner s) \<le> owner_rank (ended s (pos_of s)) (sp_owner s)"
    by (intro owner_rank_mono) simp
  moreover have "(\<Sum>j<n. task_load s' j) + task_load s i = (\<Sum>j<n. task_load s j) + task_load s' i"
    using sum_change [OF assms(2)] c(3) by blast
  ultimately show ?thesis using t by (simp add: steal_load_def c)
qed

lemma thief_progress:
  assumes "steal_inv mrg n s" "sp_thief s i \<noteq> TNone" "sp_thief s i \<noteq> TDone"
    "sp_thief s i = TLock \<Longrightarrow> \<not> is_locked (tstate_of s i)"
  shows "\<exists>s'. frame_thief_step mrg i s s'"
proof (cases "sp_thief s i")
  case TExec
  have "fst (kaapi_task_markexec (sp_steal s i)) = 0"
    using steal_invD(5) [OF assms(1), of i] TExec by (auto simp: place_ok_def execution_state_0)
  then show ?thesis using frame_thief_step.exec [OF TExec] by (metis prod.collapse)
next
  case TLock
  then have "fst (kaapi_task_trylock (tstate_of s i))" using assms(4) by simp
  then show ?thesis using frame_thief_step.lock [OF TLock] by (metis (full_types) prod.collapse)
qed (use assms(2,3) frame_thief_step.body frame_thief_step.mark frame_thief_step.unlock in blast)+

lemma load_owner:
  assumes "task_load s' = task_load s" "sp_comb s' = sp_comb s"
    and "(n - pos_of s') * 50 + owner_rank (ended s' (pos_of s')) (sp_owner s') <
         (n - pos_of s) * 50 + owner_rank (ended s (pos_of s)) (sp_owner s)"
  shows "steal_load n s' < steal_load n s"
  using assms by (simp add: steal_load_def)

lemma next_pos: "i < n \<Longrightarrow> r \<le> 30 \<Longrightarrow> (n - Suc i) * 50 + r < (n - i) * 50 + k" for n i r k :: nat
  by (simp add: diff_mult_distrib)

lemma owner_progress:
  assumes "steal_inv mrg n s" "sp_comb s = CIdle" "pos_of s < n"
    and "owner_locks (sp_owner s) \<or> (\<forall>i. sp_thief s i = TNone \<or> sp_thief s i = TDone)"
  shows "\<exists>s'. owner_step n s s' \<and> steal_load n s' < steal_load n s"
proof -
  note pl = steal_invD(5) [OF assms(1), of "pos_of s", unfolded place_ok_def]
  note fl = steal_invD(3) [OF assms(1), of "pos_of s", unfolded flags_ok_def]
  have stl: "stolen s i \<longleftrightarrow> sp_thief s i \<noteq> TNone" for i using assms(2) by (simp add: stolen_def)
  have r30: "owner_rank e (OExec j) \<le> 30" for e j by simp
  show ?thesis
  proof (cases "sp_owner s")
    case (OExec i)
    obtain st st' where m: "kaapi_task_markexec (tstate_of s i) = (st, st')" by fastforce
    have st': "bit st' k \<longleftrightarrow> bit (tstate_of s i) k \<or> k = 0" for k using m markexec_flags(2) by (metis snd_conv)
    let ?s' = "set_tstate i st' s\<lparr>sp_owner := exec_branch i st\<rparr>"
    have i: "i < n" using assms(3) OExec by simp
    have tl: "task_load ?s' = task_load s" by (simp add: task_load_def fun_eq_iff)
    have ed: "ended ?s' j = ended s j" for j by (simp add: ended_def st')
    have en: "ended s i \<longleftrightarrow> thief_ended (sp_thief s i)" using fl OExec by (auto simp: ended_def)
    have "steal_load n ?s' < steal_load n s"
      using exec_branch_cases [OF steal_invD(3) [OF assms(1)] OExec m]
      by (elim disjE conjE; intro load_owner tl; simp add: ed OExec en next_pos [OF i])
    then show ?thesis using owner_step.exec [OF OExec i m] by blast
  next
    case (OBody i)
    let ?s' = "s\<lparr>sp_owner := OExec (Suc i), sp_ran := i # sp_ran s\<rparr>"
    have "steal_load n ?s' < steal_load n s"
      using assms(3) OBody next_pos [of i n "owner_rank (ended ?s' (Suc i)) (OExec (Suc i))"]
      by (intro load_owner) (simp_all add: task_load_def fun_eq_iff)
    then show ?thesis using owner_step.body [OF OBody] by blast
  next
    case (OTry i)
    have a: "\<forall>j. sp_thief s j = TNone \<or> sp_thief s j = TDone" using assms(4) OTry by simp
    then have "\<not> is_locked (tstate_of s i)"
      using steal_invD(4) [OF assms(1), of i] spec [OF a, of i] OTry by (cases "sp_thief s i") (auto simp: locks_ok_def)
    then obtain st' where m: "kaapi_task_trylock (tstate_of s i) = (True, st')" using lock_flags(1) by (metis prod.collapse)
    let ?s' = "set_tstate i st' s\<lparr>sp_owner := if True then OWait i else OState i\<rparr>"
    have "steal_load n ?s' < steal_load n s"
      using OTry by (intro load_owner) (simp_all add: task_load_def fun_eq_iff)
    then show ?thesis using owner_step.trylock [OF OTry m] by blast
  next
    case (OState i)
    have a: "\<forall>j. sp_thief s j = TNone \<or> sp_thief s j = TDone" using assms(4) OState by simp
    let ?p = "if tstate_of s i AND KAAPI_TASK_STATE_TERM \<noteq> 0 then OExec (Suc i)
      else if tstate_of s i AND KAAPI_TASK_STATE_MERGE \<noteq> 0 then OMerge i else OTry i"
    have "(n - owner_pos ?p) * 50 + owner_rank (ended s (owner_pos ?p)) ?p < (n - i) * 50 + 26"
      using assms(3) OState next_pos [of i n _ 26] by simp
    then have "steal_load n (s\<lparr>sp_owner := ?p\<rparr>) < steal_load n s"
      using OState by (intro load_owner) (simp_all add: task_load_def fun_eq_iff ended_def)
    then show ?thesis using owner_step.getstate [OF OState] by blast
  next
    case (OWait i)
    have "tk_reserved (sp_task s i)" using pl stl OWait by auto
    moreover have "steal_load n (s\<lparr>sp_owner := OSignal i\<rparr>) < steal_load n s"
      using OWait by (intro load_owner) (simp_all add: task_load_def fun_eq_iff ended_def)
    ultimately show ?thesis using owner_step.reserved [OF OWait] by blast
  next
    case (OSignal i)
    obtain old st' where m: "kaapi_task_orstate (sp_steal s i) KAAPI_TASK_STATE_SIGNALED = (old, st')" by fastforce
    have old: "old = sp_steal s i" using m by (simp add: kaapi_task_orstate_def)
    have st': "bit st' k \<longleftrightarrow> bit (sp_steal s i) k \<or> k = 5" for k using m orstate_flags(2) by (metis snd_conv)
    let ?s' = "s\<lparr>sp_steal := (sp_steal s)(i := st'), sp_owner := OUnlock i (old = KAAPI_TASK_STATE_EXEC)\<rparr>"
    have i: "i < n" using assms(3) OSignal by simp
    have c: "(\<Sum>j<n. task_load ?s' j) + task_load s i = (\<Sum>j<n. task_load s j) + task_load ?s' i"
      by (rule sum_change [OF i]) (simp add: task_load_def)
    have d: "task_load ?s' i + (if is_signaled (sp_steal s i) then 0 else 60) = task_load s i" by (simp add: task_load_def st')
    have x: "is_signaled (sp_steal s i) \<Longrightarrow> old \<noteq> KAAPI_TASK_STATE_EXEC" using old by auto
    have "steal_load n ?s' < steal_load n s"
    proof (cases "is_signaled (sp_steal s i)")
      case True
      then show ?thesis using c d x OSignal by (simp add: steal_load_def)
    next
      case False
      then show ?thesis
        using c d OSignal by (cases "old = KAAPI_TASK_STATE_EXEC") (simp_all add: steal_load_def)
    qed
    then show ?thesis using owner_step.signal [OF OSignal m] by blast
  next
    case (OUnlock i b)
    let ?s' = "set_tstate i (kaapi_task_unlock (tstate_of s i)) s\<lparr>sp_owner := if b then OExec i else OSuspend i\<rparr>"
    have "steal_load n ?s' < steal_load n s"
      using OUnlock by (intro load_owner) (simp_all add: task_load_def fun_eq_iff)
    then show ?thesis using owner_step.unlock [OF OUnlock] by blast
  next
    case (OSuspend i)
    have a: "sp_thief s i = TNone \<or> sp_thief s i = TDone" using assms(4) OSuspend by simp
    then have e: "ended s i" using pl fl stl OSuspend by (auto simp: ended_def)
    then have "kaapi_task_isready (tstate_of s i)" by (auto simp: ended_def isready_flags)
    moreover have "steal_load n (s\<lparr>sp_owner := OExec i\<rparr>) < steal_load n s"
      using OSuspend e by (intro load_owner) (simp_all add: task_load_def fun_eq_iff ended_def)
    ultimately show ?thesis using owner_step.resume [OF OSuspend] by blast
  next
    case (OMerge i)
    let ?s' = "s\<lparr>sp_owner := OExec (Suc i), sp_merged := i # sp_merged s\<rparr>"
    have "steal_load n ?s' < steal_load n s"
      using assms(3) OMerge next_pos [of i n "owner_rank (ended ?s' (Suc i)) (OExec (Suc i))"]
      by (intro load_owner) (simp_all add: task_load_def fun_eq_iff)
    then show ?thesis using owner_step.merge [OF OMerge] by blast
  qed
qed

lemma steal_progress:
  assumes "steal_inv mrg n s" "sp_owner s \<noteq> OExec n"
  shows "\<exists>s'. frame_steal_step mrg n s s' \<and> steal_load n s' < steal_load n s"
proof (cases "sp_comb s = CIdle")
  case False
  then show ?thesis using combiner_progress [OF assms(1)] frame_steal_step.by_combiner by blast
next
  case True
  have r: "pos_of s < n"
    using steal_invD(1) [OF assms(1)] assms(2) by (cases "sp_owner s") (auto simp: range_in_def le_less)
  show ?thesis
  proof (cases "owner_locks (sp_owner s) \<or> (\<forall>i. sp_thief s i = TNone \<or> sp_thief s i = TDone)")
    case c: True
    show ?thesis using owner_progress [OF assms(1) True r c] frame_steal_step.by_owner by blast
  next
    case False
    then obtain i where i: "sp_thief s i \<noteq> TNone" "sp_thief s i \<noteq> TDone" and nl: "\<not> owner_locks (sp_owner s)" by blast
    have "i < n" using steal_invD(1) [OF assms(1)] i by (simp add: range_in_def)
    moreover have "\<not> is_locked (tstate_of s i)" if "sp_thief s i = TLock"
      using steal_invD(4) [OF assms(1), of i] nl that by (simp add: locks_ok_def)
    ultimately show ?thesis
      using thief_progress [OF assms(1) i] thief_load frame_steal_step.by_thief by blast
  qed
qed

lemma steal_completes:
  "steal_inv mrg n s \<Longrightarrow> \<exists>s'. (frame_steal_step mrg n)\<^sup>*\<^sup>* s s' \<and> sp_owner s' = OExec n"
proof (induction "steal_load n s" arbitrary: s rule: less_induct)
  case less
  show ?case
  proof (cases "sp_owner s = OExec n")
    case False
    then obtain s1 where s: "frame_steal_step mrg n s s1" "steal_load n s1 < steal_load n s"
      using steal_progress [OF less.prems] by blast
    then show ?thesis
      using less.hyps [OF s(2) steal_step_inv [OF s(1) less.prems]] by (meson converse_rtranclp_into_rtranclp)
  qed blast
qed

section \<open>Properties\<close>

text \<open>Three tasks, of which the second needs a merge when it is stolen.\<close>

lemma three_tasks:
  obtains s where "steal_reachable (\<lambda>i. i = 1) 3 (\<lambda>_. 0) s" and "sp_owner s = OExec 3"
  using steal_completes [OF steal_start_inv [of "\<lambda>i. i = 1" 3 "\<lambda>_. 0"]] by (auto simp: steal_reachable_def)

lemma ran_in_frame:
  assumes "steal_reachable mrg n flags s"
  shows "distinct (sp_ran s)" "set (sp_ran s) \<subseteq> {..<n}"
proof -
  note i = steal_reachable_inv [OF assms]
  have "i < n" if "body_ended (sp_thief s i)" for i
    using steal_invD(1) [OF i] that by (cases "sp_thief s i") (auto simp: range_in_def)
  then show "distinct (sp_ran s)" "set (sp_ran s) \<subseteq> {..<n}"
    using steal_invD(1,2) [OF i] by (auto simp: lists_ok_def range_in_def)
qed

lemma passed_ran:
  assumes "steal_reachable mrg n flags s"
  shows "{..<pos_of s} \<subseteq> set (sp_ran s)" "distinct (sp_merged s)"
    "set (sp_merged s) = {i. i < pos_of s \<and> thief_ended (sp_thief s i) \<and> mrg i}"
proof -
  note i = steal_reachable_inv [OF assms]
  have e: "thief_ended p \<Longrightarrow> body_ended p" for p by (cases p) simp_all
  have m: "stolen s j \<and> j < pos_of s \<longleftrightarrow> thief_ended (sp_thief s j) \<and> j < pos_of s" for j
    using steal_invD(5) [OF i, of j] thief_ended_stolen [of s j] by (auto simp: place_ok_def)
  show "{..<pos_of s} \<subseteq> set (sp_ran s)" "distinct (sp_merged s)"
    "set (sp_merged s) = {i. i < pos_of s \<and> thief_ended (sp_thief s i) \<and> mrg i}"
    using steal_invD(2) [OF i] m e by (auto simp: lists_ok_def)
qed

text \<open>C11: In every reachable state, whatever the owner, the combiners and the thieves do, the body of each task of the
  frame has ended at most once, and the owner is past a task only when its body has ended, on the owner or on its
  thief; when a thief has run it and the task needs a merge, the owner has merged the results, once.\<close>

theorem stolen_or_executed_once:
  assumes "steal_reachable mrg n flags s"
  shows "distinct (sp_ran s) \<and> {..<pos_of s} \<subseteq> set (sp_ran s) \<and> set (sp_ran s) \<subseteq> {..<n}
    \<and> distinct (sp_merged s) \<and> set (sp_merged s) = {i. i < pos_of s \<and> thief_ended (sp_thief s i) \<and> mrg i}"
  using ran_in_frame [OF assms] passed_ran [OF assms] by blast

theorem stolen_or_executed_once_witness:
  "\<exists>s. steal_reachable (\<lambda>i. i = 1) 3 (\<lambda>_. 0) s \<and> sp_owner s = OExec 3 \<and> distinct (sp_ran s) \<and> set (sp_ran s) \<subseteq> {..<3}"
proof -
  obtain s where s: "steal_reachable (\<lambda>i. i = 1) 3 (\<lambda>_. 0) s" "sp_owner s = OExec 3" by (rule three_tasks)
  show ?thesis using s stolen_or_executed_once [OF s(1)] by (intro exI [of _ s]) simp
qed

text \<open>C7: When the owner is at the end of the frame, the body of each of its tasks has ended exactly once.\<close>

theorem frame_end_all_executed:
  assumes "steal_reachable mrg n flags s" and "sp_owner s = OExec n"
  shows "mset (sp_ran s) = mset [0..<n]"
proof -
  have "distinct (sp_ran s)" "set (sp_ran s) = {..<n}"
    using ran_in_frame [OF assms(1)] passed_ran(1) [OF assms(1)] assms(2) by auto
  then show ?thesis using set_eq_iff_mset_eq_distinct [of "sp_ran s" "[0..<n]"] by (simp add: lessThan_atLeast0)
qed

theorem frame_end_all_executed_witness:
  "\<exists>s. steal_reachable (\<lambda>i. i = 1) 3 (\<lambda>_. 0) s \<and> sp_owner s = OExec 3 \<and> mset (sp_ran s) = mset [0..<3]"
proof -
  obtain s where s: "steal_reachable (\<lambda>i. i = 1) 3 (\<lambda>_. 0) s" "sp_owner s = OExec 3" by (rule three_tasks)
  show ?thesis using s frame_end_all_executed [OF s] by (intro exI [of _ s]) simp
qed

text \<open>C12: From every reachable state some execution leads the owner to the end of the frame: it is never left
  waiting for a lock, for the pointer to the steal task, or for a thief.\<close>

theorem owner_can_complete:
  assumes "steal_reachable mrg n flags s"
  shows "\<exists>s'. (frame_steal_step mrg n)\<^sup>*\<^sup>* s s' \<and> sp_owner s' = OExec n"
  using steal_completes [OF steal_reachable_inv [OF assms]] .

theorem owner_can_complete_witness:
  "\<exists>s'. (frame_steal_step (\<lambda>i. i = 1) 3)\<^sup>*\<^sup>* (steal_start (\<lambda>_. 0)) s' \<and> sp_owner s' = OExec 3"
proof (rule owner_can_complete)
  show "steal_reachable (\<lambda>i. i = 1) 3 (\<lambda>_. 0) (steal_start (\<lambda>_. 0))" by (simp add: steal_reachable_def)
qed

section \<open>A late signal\<close>

text \<open>A trace: the state after each step of a list of steps.\<close>

lemma steps_trans: "(frame_steal_step mrg n)\<^sup>*\<^sup>* s s1 \<Longrightarrow> frame_steal_step mrg n s1 s2 \<Longrightarrow> (frame_steal_step mrg n)\<^sup>*\<^sup>* s s2"
  by (rule rtranclp.rtrancl_into_rtrancl)

text \<open>The owner can signal a thief that has already ended its steal task: \<^verbatim>\<open>__kaapi_try_preempt\<close> does not
  look at the state again once it has the lock, and writes into memory of the thief's stack which the thief has
  left.\<close>

theorem preempt_signals_ended_thief:
  "\<exists>s s'. steal_reachable (\<lambda>_. False) 1 (\<lambda>_. 0) s \<and> sp_thief s 0 = TDone \<and> owner_step 1 s s'
    \<and> sp_steal s 0 = KAAPI_TASK_STATE_EXEC \<and> is_signaled (sp_steal s' 0)"
proof -
  let ?R = "frame_steal_step (\<lambda>_. False) 1"
  let ?s0 = "steal_start (\<lambda>_. 0)"
  let ?s1 = "?s0\<lparr>sp_comb := CMark 0\<rparr>"
  have c: "?R ?s0 ?s1"
    by (intro frame_steal_step.by_combiner combiner_step.choose)
      (simp_all add: steal_start_def kaapi_task_isstealable_def KAAPI_TASK_UNSTEALABLE_MASK_def)
  let ?s2 = "set_tstate 0 2 ?s1\<lparr>sp_comb := if True then CReserve 0 else CIdle\<rparr>"
  have "?R ?s1 ?s2"
    by (intro frame_steal_step.by_combiner combiner_step.mark) (simp_all add: steal_start_def kaapi_task_marksteal_def state_defs)
  with c have "?R\<^sup>*\<^sup>* ?s0 ?s2" by simp
  moreover
  let ?s3 = "?s2\<lparr>sp_steal := (sp_steal ?s2)(0 := KAAPI_TASK_STATE_INIT), sp_comb := CReply 0,
      sp_task := (sp_task ?s2)(0 := (sp_task ?s2 0)\<lparr>tk_reserved := True\<rparr>)\<rparr>"
  have "?R ?s2 ?s3" by (intro frame_steal_step.by_combiner combiner_step.reserve) simp
  ultimately have "?R\<^sup>*\<^sup>* ?s0 ?s3" by (rule steps_trans)
  moreover
  let ?s4 = "set_thief 0 TExec ?s3\<lparr>sp_comb := CIdle\<rparr>"
  have "?R ?s3 ?s4" by (intro frame_steal_step.by_combiner combiner_step.reply) simp
  ultimately have "?R\<^sup>*\<^sup>* ?s0 ?s4" by (rule steps_trans)
  moreover
  let ?s5 = "set_thief 0 TBody ?s4\<lparr>sp_steal := (sp_steal ?s4)(0 := 1)\<rparr>"
  have "?R ?s4 ?s5"
    by (intro frame_steal_step.by_thief [of 0] frame_thief_step.exec) (simp_all add: kaapi_task_markexec_def state_defs)
  ultimately have "?R\<^sup>*\<^sup>* ?s0 ?s5" by (rule steps_trans)
  moreover
  let ?s6 = "set_thief 0 TLock ?s5\<lparr>sp_ran := 0 # sp_ran ?s5\<rparr>"
  have "?R ?s5 ?s6" by (intro frame_steal_step.by_thief [of 0] frame_thief_step.body) simp_all
  ultimately have "?R\<^sup>*\<^sup>* ?s0 ?s6" by (rule steps_trans)
  moreover
  let ?s7 = "set_tstate 0 3 ?s6\<lparr>sp_owner := exec_branch 0 2\<rparr>"
  have "?R ?s6 ?s7"
    by (intro frame_steal_step.by_owner owner_step.exec)
      (simp_all add: kaapi_task_markexec_def state_defs steal_start_def)
  ultimately have "?R\<^sup>*\<^sup>* ?s0 ?s7" by (rule steps_trans)
  moreover
  let ?s8 = "set_thief 0 TMark (set_tstate 0 0x43 ?s7)"
  have "?R ?s7 ?s8"
    by (intro frame_steal_step.by_thief [of 0] frame_thief_step.lock) (simp_all add: kaapi_task_trylock_def state_defs)
  ultimately have "?R\<^sup>*\<^sup>* ?s0 ?s8" by (rule steps_trans)
  moreover
  let ?s9 = "set_thief 0 TUnlock (set_tstate 0 (if False then kaapi_task_markaftersteal (tstate_of ?s8 0)
    else kaapi_task_markterm (tstate_of ?s8 0)) ?s8)"
  have "?R ?s8 ?s9" by (rule frame_steal_step.by_thief [of 0, OF _ frame_thief_step.mark]) simp_all
  ultimately have "?R\<^sup>*\<^sup>* ?s0 ?s9" by (rule steps_trans)
  moreover
  let ?s10 = "set_thief 0 TDone (set_tstate 0 (kaapi_task_unlock (tstate_of ?s9 0)) ?s9)"
  have "?R ?s9 ?s10" by (intro frame_steal_step.by_thief [of 0] frame_thief_step.unlock) simp_all
  ultimately have "?R\<^sup>*\<^sup>* ?s0 ?s10" by (rule steps_trans)
  moreover
  let ?s11 = "set_tstate 0 0x47 ?s10\<lparr>sp_owner := if True then OWait 0 else OState 0\<rparr>"
  have "?R ?s10 ?s11"
    by (intro frame_steal_step.by_owner owner_step.trylock)
      (simp_all add: kaapi_task_trylock_def kaapi_task_unlock_def kaapi_task_markterm_def state_defs exec_branch_def)
  ultimately have "?R\<^sup>*\<^sup>* ?s0 ?s11" by (rule steps_trans)
  moreover
  let ?s12 = "?s11\<lparr>sp_owner := OSignal 0\<rparr>"
  have "?R ?s11 ?s12" by (intro frame_steal_step.by_owner owner_step.reserved) simp_all
  ultimately have r: "?R\<^sup>*\<^sup>* ?s0 ?s12" by (rule steps_trans)
  have "owner_step 1 ?s12 (?s12\<lparr>sp_steal := (sp_steal ?s12)(0 := 0x21),
      sp_owner := OUnlock 0 ((1::uint8) = KAAPI_TASK_STATE_EXEC)\<rparr>)"
    by (intro owner_step.signal) (simp_all add: kaapi_task_orstate_def state_defs)
  moreover have "is_signaled (0x21 :: uint8)" by (simp add: bit_numeral_rec)
  ultimately show ?thesis
    using r by (intro exI [of _ ?s12] exI) (auto simp: steal_reachable_def state_defs)
qed

end
