(* ===== verification/Stack_Steal.thy ===== *)
theory Stack_Steal
  imports Dataflow Task_State Request_Iterator
begin

text \<open>
  How a combiner looks for tasks to steal in a stack (\<^verbatim>\<open>src/src/workstealing/kaapi_sched_stealstack.c\<close>,
  \<^verbatim>\<open>kaapi_sched_stealframe.c\<close>, \<^verbatim>\<open>kaapi_sched_stealtask.c\<close>, \<^verbatim>\<open>kaapi_sched_splittask.c\<close>,
  \<^verbatim>\<open>src/src/task/kaapi_task_computeready.c\<close>): it scans the tasks of a frame from the running one on, records the
  access modes in a hash table, and gives each task whose data is ready to the next request.  The functions
  here run without interference; the interleaving with the owner and the thieves is \<open>Steal_Protocol\<close>.
\<close>

section \<open>Access modes\<close>

definition KAAPI_ACCESS_MODE_CW :: access_mode where "KAAPI_ACCESS_MODE_CW = 8"
definition KAAPI_ACCESS_MODE_S :: access_mode where "KAAPI_ACCESS_MODE_S = 16"
definition KAAPI_ACCESS_MODE_P :: access_mode where "KAAPI_ACCESS_MODE_P = 64"

definition KAAPI_ACCESS_IS_CUMULWRITE :: "access_mode \<Rightarrow> bool" where
  "KAAPI_ACCESS_IS_CUMULWRITE m \<longleftrightarrow> m AND KAAPI_ACCESS_MODE_CW \<noteq> 0"

definition KAAPI_ACCESS_IS_STACK :: "access_mode \<Rightarrow> bool" where
  "KAAPI_ACCESS_IS_STACK m \<longleftrightarrow> m AND KAAPI_ACCESS_MODE_S \<noteq> 0"

definition KAAPI_ACCESS_IS_ONLYWRITE :: "access_mode \<Rightarrow> bool" where
  "KAAPI_ACCESS_IS_ONLYWRITE m \<longleftrightarrow> KAAPI_ACCESS_IS_WRITE m \<and> \<not> KAAPI_ACCESS_IS_READ m"

definition KAAPI_ACCESS_IS_CONCURRENT :: "access_mode \<Rightarrow> access_mode \<Rightarrow> bool" where
  "KAAPI_ACCESS_IS_CONCURRENT a b \<longleftrightarrow>
     a = b \<and> (b = KAAPI_ACCESS_MODE_R \<or> b = KAAPI_ACCESS_MODE_CW) \<or> (a OR b) AND KAAPI_ACCESS_MODE_P \<noteq> 0"

section \<open>Readiness\<close>

text \<open>\<^verbatim>\<open>last_mode\<close> is the first word of the value of an entry.\<close>

definition gd_last_mode :: "hash_heap \<Rightarrow> eptr \<Rightarrow> access_mode" where
  "gd_last_mode h gd = ucast (u_0 (hentry h gd))"

definition set_last_mode :: "eptr \<Rightarrow> access_mode \<Rightarrow> hash_heap \<Rightarrow> hash_heap" where
  "set_last_mode gd m h = upd_entry gd (\<lambda>e. e\<lparr>u_0 := ucast m\<rparr>) h"

text \<open>The loop of \<^verbatim>\<open>kaapi_task_computeready\<close> over the parameters from number \<open>i\<close> on.\<close>

fun computeready_params ::
  "nat \<Rightarrow> (access_mode \<times> uint64) list \<Rightarrow> nat \<times> uint32 \<times> uint32 \<times> hash_heap \<times> kaapi_hashmap \<Rightarrow>
   (nat \<times> uint32 \<times> uint32 \<times> hash_heap \<times> kaapi_hashmap) option" where
  "computeready_params i [] st = Some st"
| "computeready_params i ((mode, addr) # ps) (wc, war_param, cw_param, h, khm) =
     (let m = KAAPI_ACCESS_GET_MODE mode
      in if m = KAAPI_ACCESS_MODE_V then computeready_params (Suc i) ps (wc - 1, war_param, cw_param, h, khm)
         else do {
           (gd, h, khm) \<leftarrow> kaapi_hashmap_findinsert h khm addr;
           let lm = gd_last_mode h gd;
           let ready = (KAAPI_ACCESS_IS_ONLYWRITE m \<or> lm = KAAPI_ACCESS_MODE_VOID \<or> KAAPI_ACCESS_IS_STACK m
                        \<or> KAAPI_ACCESS_IS_CONCURRENT m lm);
           let copy = (KAAPI_ACCESS_IS_ONLYWRITE m \<and> lm \<noteq> KAAPI_ACCESS_MODE_VOID
                       \<or> KAAPI_ACCESS_IS_CUMULWRITE m \<and> KAAPI_ACCESS_IS_CONCURRENT m lm \<or> KAAPI_ACCESS_IS_STACK m);
           computeready_params (Suc i) ps
             (if ready then wc - 1 else wc,
              if ready \<and> copy then war_param OR push_bit i 1 else war_param,
              if ready \<and> KAAPI_ACCESS_IS_CUMULWRITE m then cw_param OR push_bit i 1 else cw_param,
              if lm = KAAPI_ACCESS_MODE_VOID then set_last_mode gd m h else h, khm) })"

definition kaapi_task_computeready ::
  "(access_mode \<times> uint64) list \<Rightarrow> uint32 \<Rightarrow> uint32 \<Rightarrow> hash_heap \<Rightarrow> kaapi_hashmap \<Rightarrow>
   (nat \<times> uint32 \<times> uint32 \<times> hash_heap \<times> kaapi_hashmap) option" where
  "kaapi_task_computeready params war_param cw_param h khm =
     computeready_params 0 params (length params, war_param, cw_param, h, khm)"

section \<open>Stealing a task\<close>

text \<open>A task of a stack: its state, the format registered for its body, and its parameters.  The table of a scan is
  its heap and its map; no table means that the tasks are known to be ready.\<close>

record stack_task =
  stk_cell :: task_cell
  stk_fmt :: "nat option"
  stk_params :: "(access_mode \<times> uint64) list"

type_synonym scan_table = "(hash_heap \<times> kaapi_hashmap) option"

record kaapi_tasksteal_arg =
  origin_task :: nat
  origin_fmt :: nat
  war_param :: uint32
  cw_param :: uint32

definition upd_state :: "(uint8 \<Rightarrow> uint8) \<Rightarrow> stack_task \<Rightarrow> stack_task" where
  "upd_state f task = task\<lparr>stk_cell := (stk_cell task)\<lparr>tk_state := f (tk_state (stk_cell task))\<rparr>\<rparr>"

text \<open>The results: the return code, the task, the request that gets a steal task with its arguments, the table and the
  requests left.  \<open>None\<close>: the null request is dereferenced.\<close>

definition kaapi_sched_steal_task ::
  "scan_table \<Rightarrow> nat option \<Rightarrow> nat \<Rightarrow> stack_task \<Rightarrow> request_range \<Rightarrow>
   (errno \<times> stack_task \<times> (nat \<times> kaapi_tasksteal_arg) option \<times> scan_table \<times> request_range) option" where
  "kaapi_sched_steal_task tab task_fmt i task lri =
     (case task_fmt of
        None \<Rightarrow> Some (ENOENT, task, None, tab, lri)
      | Some fmt \<Rightarrow> do {
          (wc, war, cw, tab) \<leftarrow>
            (case tab of
               None \<Rightarrow> Some (0, 0, 0, None)
             | Some (h, khm) \<Rightarrow>
                 map_option (\<lambda>(wc, war, cw, h, khm). (wc, war, cw, Some (h, khm)))
                   (kaapi_task_computeready (stk_params task) 0 0 h khm));
          if wc \<noteq> 0 then Some (EACCES, task, None, tab, lri)
          else if \<not> kaapi_task_isstealable (stk_cell task) then Some (EPERM, task, None, tab, lri)
          else if \<not> fst (kaapi_task_marksteal (tk_state (stk_cell task)))
               then Some (EBUSY, upd_state (\<lambda>s. snd (kaapi_task_marksteal s)) task, None, tab, lri)
          else (case kaapi_listrequest_iterator_get lri of
                  None \<Rightarrow> None
                | Some request \<Rightarrow>
                    let task = upd_state (\<lambda>s. snd (kaapi_task_marksteal s)) task;
                        task = task\<lparr>stk_cell := (stk_cell task)\<lparr>tk_reserved := True\<rparr>\<rparr>
                    in Some (OK, task,
                             Some (request, \<lparr>origin_task = i, origin_fmt = fmt, war_param = war, cw_param = cw\<rparr>),
                             tab, lri_next256 lri)) })"

text \<open>The splitter of a format, which answers some of the requests itself.\<close>

type_synonym splitters = "nat \<Rightarrow> (nat \<Rightarrow> request_range \<Rightarrow> errno \<times> request_range) option"

definition kaapi_sched_splittask ::
  "splitters \<Rightarrow> nat \<Rightarrow> nat \<Rightarrow> stack_task \<Rightarrow> request_range \<Rightarrow> errno \<times> stack_task \<times> request_range" where
  "kaapi_sched_splittask get_splitter fmt i task lri =
     (if tk_state (stk_cell task) = KAAPI_TASK_STATE_INIT \<or> tk_state (stk_cell task) = KAAPI_TASK_STATE_EXEC
      then (case get_splitter fmt of
              None \<Rightarrow> (EPERM, task, lri)
            | Some splitter \<Rightarrow>
                if kaapi_task_is_splittable (stk_cell task)
                then (case splitter i lri of
                        (err, lri) \<Rightarrow> (OK, if err = ECHILD then upd_state kaapi_task_markterm task else task, lri))
                else (EPERM, task, lri))
      else (OK, task, lri))"

definition kaapi_sched_steal_or_split_task ::
  "splitters \<Rightarrow> scan_table \<Rightarrow> nat \<Rightarrow> nat \<Rightarrow> stack_task \<Rightarrow> request_range \<Rightarrow>
   (errno \<times> stack_task \<times> (nat \<times> kaapi_tasksteal_arg) option \<times> scan_table \<times> request_range) option" where
  "kaapi_sched_steal_or_split_task get_splitter tab fmt i task lri =
     do { (err, task, th, tab, lri) \<leftarrow> kaapi_sched_steal_task tab (Some fmt) i task lri;
          if (err = EPERM \<or> err = EBUSY) \<and> kaapi_task_is_splittable (stk_cell task)
          then (case kaapi_sched_splittask get_splitter fmt i task lri of
                  (err, task, lri) \<Rightarrow> Some (err, task, th, tab, lri))
          else Some (err, task, th, tab, lri) }"

section \<open>Scanning a frame and a stack\<close>

text \<open>The tasks of the frame from \<^verbatim>\<open>pc\<close> to \<^verbatim>\<open>sp\<close>, the first one numbered \<open>i\<close>; the results are the tasks, the steal
  tasks with their requests, the table and the requests left.\<close>

fun stealframe_loop ::
  "splitters \<Rightarrow> nat \<Rightarrow> stack_task list \<Rightarrow> scan_table \<Rightarrow> request_range \<Rightarrow>
   (stack_task list \<times> (nat \<times> kaapi_tasksteal_arg) list \<times> scan_table \<times> request_range) option" where
  "stealframe_loop get_splitter i [] tab lri = Some ([], [], tab, lri)"
| "stealframe_loop get_splitter i (task # tasks) tab lri =
     (if lri_empty256 lri then Some (task # tasks, [], tab, lri)
      else do {
        (task, th, tab, lri) \<leftarrow>
          (case stk_fmt task of
             None \<Rightarrow> Some (task, None, tab, lri)
           | Some fmt \<Rightarrow> map_option snd (kaapi_sched_steal_or_split_task get_splitter tab fmt i task lri));
        (tasks, ths, tab, lri) \<leftarrow> stealframe_loop get_splitter (Suc i) tasks tab lri;
        Some (task # tasks, (case th of None \<Rightarrow> ths | Some x \<Rightarrow> x # ths), tab, lri) })"

definition kaapi_sched_stealframe ::
  "splitters \<Rightarrow> stack_task list \<Rightarrow> hash_heap \<Rightarrow> kaapi_hashmap \<Rightarrow> request_range \<Rightarrow>
   (stack_task list \<times> (nat \<times> kaapi_tasksteal_arg) list \<times> scan_table \<times> request_range) option" where
  "kaapi_sched_stealframe get_splitter tasks h khm lri =
     stealframe_loop get_splitter 0 tasks (Some (kaapi_hashmap_clear h khm)) lri"

section \<open>What a scan promises\<close>

text \<open>A table as a function from addresses to modes; \<open>VOID\<close> stands for an address without an entry.\<close>

type_synonym modes = "uint64 \<Rightarrow> access_mode"

definition tab_modes :: "hash_heap \<Rightarrow> kaapi_hashmap \<Rightarrow> modes" where
  "tab_modes h khm a =
     (case kaapi_hashmap_find h khm a of Some (Some gd) \<Rightarrow> gd_last_mode h gd | _ \<Rightarrow> KAAPI_ACCESS_MODE_VOID)"

definition note_access :: "access_mode \<times> uint64 \<Rightarrow> modes \<Rightarrow> modes" where
  "note_access p M =
     (if KAAPI_ACCESS_GET_MODE (fst p) = KAAPI_ACCESS_MODE_V \<or> M (snd p) \<noteq> KAAPI_ACCESS_MODE_VOID then M
      else M(snd p := KAAPI_ACCESS_GET_MODE (fst p)))"

definition param_ready :: "modes \<Rightarrow> access_mode \<times> uint64 \<Rightarrow> bool" where
  "param_ready M p \<longleftrightarrow> (let m = KAAPI_ACCESS_GET_MODE (fst p); lm = M (snd p) in
     m = KAAPI_ACCESS_MODE_V \<or> KAAPI_ACCESS_IS_ONLYWRITE m \<or> lm = KAAPI_ACCESS_MODE_VOID
     \<or> KAAPI_ACCESS_IS_STACK m \<or> KAAPI_ACCESS_IS_CONCURRENT m lm)"

text \<open>The parameters that the thief gets a copy of, and those it accumulates into.\<close>

definition param_war :: "modes \<Rightarrow> access_mode \<times> uint64 \<Rightarrow> bool" where
  "param_war M p \<longleftrightarrow> (let m = KAAPI_ACCESS_GET_MODE (fst p); lm = M (snd p) in
     m \<noteq> KAAPI_ACCESS_MODE_V \<and> param_ready M p \<and>
     (KAAPI_ACCESS_IS_ONLYWRITE m \<and> lm \<noteq> KAAPI_ACCESS_MODE_VOID
      \<or> KAAPI_ACCESS_IS_CUMULWRITE m \<and> KAAPI_ACCESS_IS_CONCURRENT m lm \<or> KAAPI_ACCESS_IS_STACK m))"

definition param_cw :: "modes \<Rightarrow> access_mode \<times> uint64 \<Rightarrow> bool" where
  "param_cw M p \<longleftrightarrow> KAAPI_ACCESS_GET_MODE (fst p) \<noteq> KAAPI_ACCESS_MODE_V \<and> param_ready M p
     \<and> KAAPI_ACCESS_IS_CUMULWRITE (KAAPI_ACCESS_GET_MODE (fst p))"

fun unready :: "(access_mode \<times> uint64) list \<Rightarrow> modes \<Rightarrow> nat" where
  "unready [] M = 0"
| "unready (p # ps) M = (if param_ready M p then 0 else 1) + unready ps (note_access p M)"

fun param_bits :: "(modes \<Rightarrow> access_mode \<times> uint64 \<Rightarrow> bool) \<Rightarrow> nat \<Rightarrow> (access_mode \<times> uint64) list \<Rightarrow> modes \<Rightarrow> nat set" where
  "param_bits P i [] M = {}"
| "param_bits P i (p # ps) M = (if P M p then {i} else {}) \<union> param_bits P (Suc i) ps (note_access p M)"

lemma ucast_mode [simp]: "ucast (ucast (m :: access_mode) :: uint64) = m"
  by (rule bit_eqI) (auto simp: bit_ucast_iff dest: bit_imp_le_length)

lemma set_last_mode_spec:
  assumes "hashmap_inv h khm" "kaapi_hashmap_find h khm a = Some (Some gd)"
  shows "hashmap_inv (set_last_mode gd m h) khm" "tab_modes (set_last_mode gd m h) khm = (tab_modes h khm)(a := m)"
proof -
  have i: "hm.tab_inv h khm" and l: "hm.lookup h khm a = Some (Some gd)"
    using assms by (simp_all add: hashmap_inv_def hashmap_lookup)
  note w = hm.value_write [OF i l refl, of "ucast m", folded set_last_mode_def]
  show "hashmap_inv (set_last_mode gd m h) khm" using w(1) by (simp add: hashmap_inv_def)
  have k: "he_key (hentry h gd) = a" using hm.lookup_key [OF i l] by simp
  have "p \<noteq> gd" if "hm.lookup h khm b = Some (Some p)" "b \<noteq> a" for p b using hm.lookup_key [OF i that(1)] that(2) k by auto
  then show "tab_modes (set_last_mode gd m h) khm = (tab_modes h khm)(a := m)"
    using l by (auto simp: tab_modes_def fun_eq_iff hashmap_lookup w(2,3) gd_last_mode_def split: option.splits)
qed

lemma findinsert_mode:
  assumes "hashmap_inv h khm"
  obtains gd h' khm' where "kaapi_hashmap_findinsert h khm a = Some (gd, h', khm')" and "hashmap_inv h' khm'"
    and "kaapi_hashmap_find h' khm' a = Some (Some gd)" and "tab_modes h' khm' = tab_modes h khm"
    and "gd_last_mode h' gd = tab_modes h khm a"
proof -
  have i: "hm.tab_inv h khm" using assms by (simp add: hashmap_inv_def)
  obtain gd h' khm' where f: "hm.findinsert h khm a = Some (gd, h', khm')" "hm.tab_inv h' khm'"
    and l: "\<forall>k'. hm.lookup h' khm' k' = (if k' = a then Some (Some gd) else hm.lookup h khm k')"
    and e: "\<forall>q. allocated h q \<longrightarrow> hentry h' q = hentry h q"
    and n: "hm.lookup h khm a = Some None \<longrightarrow> \<not> allocated h gd \<and> u_0 (hentry h' gd) = 0 \<and> u_1 (hentry h' gd) = 0"
    and o: "hm.lookup h khm a \<noteq> Some None \<longrightarrow> hm.lookup h khm a = Some (Some gd) \<and> h' = h \<and> khm' = khm"
    using hm.findinsert_spec [OF i, of a] by metis
  have g: "gd_last_mode h' gd = tab_modes h khm a"
    using n o by (cases "hm.lookup h khm a = Some None")
      (auto simp: tab_modes_def hashmap_lookup gd_last_mode_def KAAPI_ACCESS_MODE_VOID_def)
  have "tab_modes h' khm' b = tab_modes h khm b" for b
  proof (cases "b = a")
    case True
    then show ?thesis using l g by (simp add: tab_modes_def hashmap_lookup)
  next
    case False
    have "hentry h' p = hentry h p" if "hm.lookup h khm b = Some (Some p)" for p
      using hm.lookup_key [OF i that] e by blast
    then show ?thesis using l False by (auto simp: tab_modes_def hashmap_lookup gd_last_mode_def split: option.splits)
  qed
  then show ?thesis using that f l g by (simp add: hashmap_findinsert hashmap_inv_def hashmap_lookup fun_eq_iff)
qed

lemma bit_or_shl: "bit ((w :: uint32) OR 2 ^ i) k \<longleftrightarrow> bit w k \<or> k = i \<and> i < 32"
  by (simp add: bit_or_iff bit_exp_iff possible_bit_def) (auto dest: bit_imp_le_length)

lemma computeready_params_spec:
  assumes "hashmap_inv h khm" "length ps \<le> wc"
  shows "\<exists>war' cw' h' khm'. computeready_params i ps (wc, war, cw, h, khm) =
      Some (wc - length ps + unready ps (tab_modes h khm), war', cw', h', khm')
    \<and> hashmap_inv h' khm' \<and> tab_modes h' khm' = fold note_access ps (tab_modes h khm)
    \<and> (\<forall>k < 32. bit war' k \<longleftrightarrow> bit war k \<or> k \<in> param_bits param_war i ps (tab_modes h khm))
    \<and> (\<forall>k < 32. bit cw' k \<longleftrightarrow> bit cw k \<or> k \<in> param_bits param_cw i ps (tab_modes h khm))"
  using assms
proof (induction ps arbitrary: i wc war cw h khm)
  case (Cons p ps)
  obtain mode addr where p: "p = (mode, addr)" by (cases p)
  let ?m = "KAAPI_ACCESS_GET_MODE mode"
  let ?M = "tab_modes h khm"
  show ?case
  proof (cases "?m = KAAPI_ACCESS_MODE_V")
    case True
    then have r: "param_ready ?M p" "note_access p ?M = ?M" "\<not> param_war ?M p" "\<not> param_cw ?M p"
      by (simp_all add: p param_ready_def note_access_def param_war_def param_cw_def)
    have l: "length ps \<le> wc - 1" using Cons.prems(2) by simp
    have w: "wc - 1 - length ps = wc - length (p # ps)" by simp
    show ?thesis using Cons.IH [OF Cons.prems(1) l, of "Suc i" war cw] True r w by (simp add: p)
  next
    case False
    obtain gd h1 khm1 where f: "kaapi_hashmap_findinsert h khm addr = Some (gd, h1, khm1)" "hashmap_inv h1 khm1"
      "kaapi_hashmap_find h1 khm1 addr = Some (Some gd)" "tab_modes h1 khm1 = ?M" "gd_last_mode h1 gd = ?M addr"
      using findinsert_mode [OF Cons.prems(1)] .
    define h2 where "h2 = (if ?M addr = KAAPI_ACCESS_MODE_VOID then set_last_mode gd ?m h1 else h1)"
    have h2: "hashmap_inv h2 khm1" "tab_modes h2 khm1 = note_access p ?M"
      using set_last_mode_spec [OF f(2,3)] f(2,4) False by (simp_all add: h2_def note_access_def p)
    define rd where "rd = param_ready ?M p"
    have rd: "KAAPI_ACCESS_IS_ONLYWRITE ?m \<or> ?M addr = KAAPI_ACCESS_MODE_VOID \<or> KAAPI_ACCESS_IS_STACK ?m
      \<or> KAAPI_ACCESS_IS_CONCURRENT ?m (?M addr) \<longleftrightarrow> rd" using False by (simp add: rd_def param_ready_def p Let_def)
    let ?copy = "KAAPI_ACCESS_IS_ONLYWRITE ?m \<and> ?M addr \<noteq> KAAPI_ACCESS_MODE_VOID
      \<or> KAAPI_ACCESS_IS_CUMULWRITE ?m \<and> KAAPI_ACCESS_IS_CONCURRENT ?m (?M addr) \<or> KAAPI_ACCESS_IS_STACK ?m"
    have cp: "rd \<and> ?copy \<longleftrightarrow> param_war ?M p" using False by (simp add: param_war_def p rd_def Let_def)
    have cc: "rd \<and> KAAPI_ACCESS_IS_CUMULWRITE ?m \<longleftrightarrow> param_cw ?M p" using False by (simp add: param_cw_def p rd_def)
    define wc1 where "wc1 = (if rd then wc - 1 else wc)"
    define war1 where "war1 = (if param_war ?M p then war OR push_bit i 1 else war)"
    define cw1 where "cw1 = (if param_cw ?M p then cw OR push_bit i 1 else cw)"
    have e: "computeready_params i (p # ps) (wc, war, cw, h, khm) = computeready_params (Suc i) ps (wc1, war1, cw1, h2, khm1)"
      using False by (simp only: p computeready_params.simps Let_def if_False f(1,5) rd cp cc h2_def wc1_def war1_def cw1_def
          bind.bind_lunit prod.case)
    have l: "length ps \<le> wc1" using Cons.prems(2) by (auto simp: wc1_def)
    have w: "wc1 - length ps = wc - length (p # ps) + (if param_ready ?M p then 0 else 1)"
      using Cons.prems(2) by (auto simp: wc1_def rd_def)
    have b: "bit war1 k \<longleftrightarrow> bit war k \<or> k = i \<and> param_war ?M p" "bit cw1 k \<longleftrightarrow> bit cw k \<or> k = i \<and> param_cw ?M p"
      if "k < 32" for k
      using that by (auto simp: war1_def cw1_def bit_or_shl)
    show ?thesis unfolding e using Cons.IH [OF h2(1) l, of "Suc i" war1 cw1] w b by (auto simp: h2(2))
  qed
qed simp

end
