(* ===== verification/Steal_Scan.thy ===== *)
theory Steal_Scan
  imports Stack_Steal
begin

text \<open>
  What the scan of \<open>Stack_Steal\<close> hands out: the readiness test as a function on access histories, the tasks
  of a frame that the thieves receive, and how far the readiness test keeps the order of the accesses.
\<close>

section \<open>The requests of a range\<close>

definition requests :: "request_range \<Rightarrow> nat list" where
  "requests lri = sorted_list_of_set (lri_pending bits256 lri)"

abbreviation range_inv :: "request_range \<Rightarrow> bool" where
  "range_inv \<equiv> lri_inv bits256"

lemma pending_finite: "finite (lri_pending bits256 lri)"
  by (simp add: lri_pending_def bv256.finite_bits)

lemma requests_empty: "lri_empty256 lri \<longleftrightarrow> requests lri = []"
  by (simp add: lri_empty256_def bv256.lri_empty requests_def pending_finite)

lemma requests_next:
  assumes "range_inv lri" "requests lri = r # rs"
  shows "kaapi_listrequest_iterator_get lri = Some r" "requests (lri_next256 lri) = rs" "range_inv (lri_next256 lri)"
proof -
  let ?B = "bits256 (lri_bitmap lri)"
  define c where "c = nat (lri_idcurr lri)"
  have f: "finite ?B" by (rule bv256.finite_bits)
  have i: "lri_idcurr lri \<noteq> - 1" using assms by (auto simp: lri_inv_def lri_pending_def requests_def)
  have c: "\<forall>n \<in> ?B. c < n" "c \<notin> ?B" using assms(1) i by (auto simp: lri_inv_def c_def)
  have "requests lri = sorted_list_of_set (insert c ?B)" using i by (simp add: requests_def lri_pending_def c_def)
  moreover have "Min (insert c ?B) = c" using c(1) f by (auto intro!: Min_eqI simp: less_imp_le)
  ultimately have r: "r = c" "rs = sorted_list_of_set ?B"
    using assms(2) c(2) sorted_list_of_set_nonempty [of "insert c ?B"] f by simp_all
  show "kaapi_listrequest_iterator_get lri = Some r"
    using i r(1) by (simp add: kaapi_listrequest_iterator_get_def request_ptr_def c_def)
  show "requests (lri_next256 lri) = rs" by (simp add: requests_def lri_next256_def bv256.lri_next_pending r(2))
  show "range_inv (lri_next256 lri)" by (simp add: lri_next256_def bv256.lri_next_inv)
qed

section \<open>Readiness\<close>

text \<open>The histories before the task number \<open>k\<close>; tasks without a format leave no trace.\<close>

definition task_note :: "stack_task \<Rightarrow> modes \<Rightarrow> modes" where
  "task_note t M = (if stk_fmt t = None then M else fold note_access (stk_params t) M)"

definition ready_task :: "modes \<Rightarrow> stack_task \<Rightarrow> bool" where
  "ready_task M t \<longleftrightarrow> stk_fmt t \<noteq> None \<and> unready (stk_params t) M = 0"

definition no_modes :: modes where "no_modes a = KAAPI_ACCESS_MODE_VOID"

definition history :: "stack_task list \<Rightarrow> nat \<Rightarrow> modes" where
  "history tasks k = fold task_note (take k tasks) no_modes"

definition stealable_at :: "stack_task list \<Rightarrow> nat \<Rightarrow> bool" where
  "stealable_at tasks k \<longleftrightarrow> ready_task (history tasks k) (tasks ! k) \<and> kaapi_task_isstealable (stk_cell (tasks ! k))"

lemma computeready_spec:
  assumes "hashmap_inv h khm"
  obtains war cw h' khm' where
    "kaapi_task_computeready ps 0 0 h khm = Some (unready ps (tab_modes h khm), war, cw, h', khm')"
    "hashmap_inv h' khm'" "tab_modes h' khm' = fold note_access ps (tab_modes h khm)"
    "\<forall>k < 32. bit war k \<longleftrightarrow> k \<in> param_bits param_war 0 ps (tab_modes h khm)"
    "\<forall>k < 32. bit cw k \<longleftrightarrow> k \<in> param_bits param_cw 0 ps (tab_modes h khm)"
  using computeready_params_spec [OF assms order.refl, of 0 ps 0 0] that
  by (auto simp: kaapi_task_computeready_def)

section \<open>Stealing one task\<close>

definition stolen_state :: "stack_task \<Rightarrow> stack_task" where
  "stolen_state t = t\<lparr>stk_cell := (stk_cell t)\<lparr>tk_state := KAAPI_TASK_STATE_STEAL, tk_reserved := True\<rparr>\<rparr>"

lemma upd_state_split: "kaapi_task_is_splittable (stk_cell (upd_state f t)) = kaapi_task_is_splittable (stk_cell t)"
  by (simp add: upd_state_def kaapi_task_is_splittable_def)

text \<open>A task that cannot be split: it is given to the first request when it is ready and stealable, and is left as it
  is otherwise.\<close>

lemma steal_or_split_spec:
  assumes "hashmap_inv h khm" "range_inv lri" "requests lri = r # rs" "\<not> kaapi_task_is_splittable (stk_cell t)"
  obtains err h' khm' arg where "hashmap_inv h' khm'"
    "tab_modes h' khm' = fold note_access (stk_params t) (tab_modes h khm)"
    "kaapi_sched_steal_or_split_task sp (Some (h, khm)) f i t lri =
       (if unready (stk_params t) (tab_modes h khm) = 0 \<and> kaapi_task_isstealable (stk_cell t)
        then Some (OK, stolen_state t, Some (r, arg), Some (h', khm'), lri_next256 lri)
        else Some (err, t, None, Some (h', khm'), lri))"
    "origin_task arg = i" "origin_fmt arg = f"
    "\<forall>k < 32. bit (war_param arg) k \<longleftrightarrow> k \<in> param_bits param_war 0 (stk_params t) (tab_modes h khm)"
    "\<forall>k < 32. bit (cw_param arg) k \<longleftrightarrow> k \<in> param_bits param_cw 0 (stk_params t) (tab_modes h khm)"
proof -
  obtain war cw h' khm' where c:
    "kaapi_task_computeready (stk_params t) 0 0 h khm = Some (unready (stk_params t) (tab_modes h khm), war, cw, h', khm')"
    "hashmap_inv h' khm'" "tab_modes h' khm' = fold note_access (stk_params t) (tab_modes h khm)"
    "\<forall>k < 32. bit war k \<longleftrightarrow> k \<in> param_bits param_war 0 (stk_params t) (tab_modes h khm)"
    "\<forall>k < 32. bit cw k \<longleftrightarrow> k \<in> param_bits param_cw 0 (stk_params t) (tab_modes h khm)"
    using computeready_spec [OF assms(1)] .
  let ?w = "unready (stk_params t) (tab_modes h khm)"
  let ?err = "if ?w \<noteq> 0 then EACCES else EPERM"
  let ?arg = "\<lparr>origin_task = i, origin_fmt = f, war_param = war, cw_param = cw\<rparr>"
  have "kaapi_sched_steal_or_split_task sp (Some (h, khm)) f i t lri =
       (if ?w = 0 \<and> kaapi_task_isstealable (stk_cell t)
        then Some (OK, stolen_state t, Some (r, ?arg), Some (h', khm'), lri_next256 lri)
        else Some (?err, t, None, Some (h', khm'), lri))"
  proof (cases "?w = 0 \<and> kaapi_task_isstealable (stk_cell t)")
    case True
    then have s: "tk_state (stk_cell t) = 0" by (simp add: kaapi_task_isstealable_def KAAPI_TASK_STATE_INIT_def)
    then show ?thesis
      using True requests_next(1) [OF assms(2,3)]
      by (simp add: kaapi_sched_steal_or_split_task_def kaapi_sched_steal_task_def c(1) upd_state_def stolen_state_def
          kaapi_task_marksteal_def)
  next
    case False
    then show ?thesis
      using assms(4) by (auto simp: kaapi_sched_steal_or_split_task_def kaapi_sched_steal_task_def c(1))
  qed
  then show ?thesis using that [OF c(2,3), where arg = ?arg] c(4,5) by simp
qed

section \<open>Scanning a frame\<close>

text \<open>The tasks from number \<open>i\<close> on that are handed out, when there are requests enough.\<close>

fun stealable_from :: "nat \<Rightarrow> stack_task list \<Rightarrow> modes \<Rightarrow> nat list" where
  "stealable_from i [] M = []"
| "stealable_from i (t # ts) M =
     (if ready_task M t \<and> kaapi_task_isstealable (stk_cell t) then [i] else []) @ stealable_from (Suc i) ts (task_note t M)"

lemma stealable_from_filter:
  "stealable_from i ts (fold task_note pre no_modes) =
     map (\<lambda>k. k + i - length pre) (filter (stealable_at (pre @ ts)) [length pre ..< length pre + length ts])"
proof (induction ts arbitrary: i pre)
  case (Cons t ts)
  have s: "stealable_at (pre @ t # ts) (length pre) \<longleftrightarrow>
    ready_task (fold task_note pre no_modes) t \<and> kaapi_task_isstealable (stk_cell t)"
    by (simp add: stealable_at_def history_def)
  have u: "[length pre..<length pre + length (t # ts)] = length pre # [length (pre @ [t])..<length (pre @ [t]) + length ts]"
    by (simp add: upt_conv_Cons del: upt_Suc)
  have m: "map (\<lambda>k. k + Suc i - length (pre @ [t])) xs = map (\<lambda>k. k + i - length pre) xs" for xs by simp
  show ?case using Cons.IH [of "Suc i" "pre @ [t]"] s unfolding u by (simp del: upt_Suc)
qed simp

definition stolen_tasks :: "stack_task list \<Rightarrow> nat list" where
  "stolen_tasks tasks = filter (stealable_at tasks) [0..<length tasks]"

lemma stealable_from_0: "stealable_from 0 tasks no_modes = stolen_tasks tasks"
  using stealable_from_filter [of 0 tasks "[]"] by (simp add: stolen_tasks_def)

lemma stealable_from_ge: "k \<in> set (stealable_from i ts M) \<Longrightarrow> i \<le> k"
  by (induction i ts M rule: stealable_from.induct) (force split: if_splits)+

lemma stealframe_loop_spec:
  assumes "hashmap_inv h khm" "range_inv lri" "\<forall>t \<in> set ts. \<not> kaapi_task_is_splittable (stk_cell t)"
  shows "\<exists>ts' ths tab lri'. stealframe_loop sp i ts (Some (h, khm)) lri = Some (ts', ths, tab, lri')
    \<and> map (\<lambda>(r, a). (r, origin_task a)) ths = zip (requests lri) (stealable_from i ts (tab_modes h khm))
    \<and> requests lri' = drop (length (stealable_from i ts (tab_modes h khm))) (requests lri)
    \<and> length ts' = length ts
    \<and> (\<forall>j < length ts. ts' ! j =
        (if i + j \<in> set (take (length (requests lri)) (stealable_from i ts (tab_modes h khm)))
         then stolen_state (ts ! j) else ts ! j))"
  using assms
proof (induction ts arbitrary: i h khm lri)
  case (Cons t ts)
  let ?M = "tab_modes h khm"
  show ?case
  proof (cases "requests lri")
    case Nil
    then show ?thesis by (simp add: requests_empty)
  next
    case (Cons r rs)
    note rq = Cons
    then have ne: "\<not> lri_empty256 lri" by (simp add: requests_empty)
    have sp: "\<not> kaapi_task_is_splittable (stk_cell t)" "\<forall>t \<in> set ts. \<not> kaapi_task_is_splittable (stk_cell t)"
      using Cons.prems(3) by simp_all
    let ?s = "ready_task ?M t \<and> kaapi_task_isstealable (stk_cell t)"
    have "\<exists>th tab. hashmap_inv (fst tab) (snd tab) \<and> tab_modes (fst tab) (snd tab) = task_note t ?M
        \<and> (case stk_fmt t of None \<Rightarrow> Some (t, None, Some (h, khm), lri)
           | Some fmt \<Rightarrow> map_option snd (kaapi_sched_steal_or_split_task sp (Some (h, khm)) fmt i t lri)) =
          Some (if ?s then stolen_state t else t, if ?s then Some th else None, Some tab,
                if ?s then lri_next256 lri else lri)
        \<and> fst th = r \<and> origin_task (snd th) = i"
    proof (cases "stk_fmt t")
      case None
      have "origin_task \<lparr>origin_task = i, origin_fmt = 0, war_param = 0, cw_param = 0\<rparr> = i" by simp
      then show ?thesis using None Cons.prems(1) by (intro exI [of _ "(r, \<lparr>origin_task = i, origin_fmt = 0, war_param = 0, cw_param = 0\<rparr>)"] exI [of _ "(h, khm)"])
          (simp add: task_note_def ready_task_def)
    next
      case (Some f)
      obtain err h' khm' arg where s: "hashmap_inv h' khm'" "tab_modes h' khm' = fold note_access (stk_params t) ?M"
        "kaapi_sched_steal_or_split_task sp (Some (h, khm)) f i t lri =
           (if unready (stk_params t) ?M = 0 \<and> kaapi_task_isstealable (stk_cell t)
            then Some (OK, stolen_state t, Some (r, arg), Some (h', khm'), lri_next256 lri)
            else Some (err, t, None, Some (h', khm'), lri))"
        "origin_task arg = i"
        using steal_or_split_spec [OF Cons.prems(1,2) rq sp(1), where sp = sp and f = f and i = i] by metis
      show ?thesis using s Some
        by (intro exI [of _ "(r, arg)"] exI [of _ "(h', khm')"]) (simp add: task_note_def ready_task_def)
    qed
    then obtain th tab where e: "hashmap_inv (fst tab) (snd tab)" "tab_modes (fst tab) (snd tab) = task_note t ?M"
      "(case stk_fmt t of None \<Rightarrow> Some (t, None, Some (h, khm), lri)
        | Some fmt \<Rightarrow> map_option snd (kaapi_sched_steal_or_split_task sp (Some (h, khm)) fmt i t lri)) =
       Some (if ?s then stolen_state t else t, if ?s then Some th else None, Some tab, if ?s then lri_next256 lri else lri)"
      "fst th = r" "origin_task (snd th) = i" by blast
    define lri1 where "lri1 = (if ?s then lri_next256 lri else lri)"
    have l1: "range_inv lri1" "requests lri1 = (if ?s then rs else r # rs)"
      using requests_next [OF Cons.prems(2) rq] Cons.prems(2) rq by (simp_all add: lri1_def)
    obtain ts' ths tab' lri' where i: "stealframe_loop sp (Suc i) ts (Some tab) lri1 = Some (ts', ths, tab', lri')"
      "map (\<lambda>(r, a). (r, origin_task a)) ths = zip (requests lri1) (stealable_from (Suc i) ts (task_note t ?M))"
      "requests lri' = drop (length (stealable_from (Suc i) ts (task_note t ?M))) (requests lri1)"
      "length ts' = length ts"
      "\<forall>j < length ts. ts' ! j = (if Suc i + j \<in> set (take (length (requests lri1)) (stealable_from (Suc i) ts (task_note t ?M)))
         then stolen_state (ts ! j) else ts ! j)"
      using Cons.IH [OF e(1) l1(1) sp(2), of "Suc i"] e(2) by auto
    have z: "i \<notin> set (take n (stealable_from (Suc i) ts M))" for n M
      using stealable_from_ge [of i "Suc i" ts M] by (auto dest: in_set_takeD)
    have "stealframe_loop sp i (t # ts) (Some (h, khm)) lri =
      Some ((if ?s then stolen_state t else t) # ts', (if ?s then [th] else []) @ ths, tab', lri')"
      using ne e(3) i(1) by (simp add: lri1_def)
    moreover have "((if ?s then stolen_state t else t) # ts') ! j =
        (if i + j \<in> set (take (length (requests lri)) (stealable_from i (t # ts) ?M))
         then stolen_state ((t # ts) ! j) else (t # ts) ! j)" if "j < length (t # ts)" for j
      using that i(5) z l1(2) rq by (cases j) auto
    ultimately show ?thesis
      using i(2-4) l1(2) rq e(4,5) by (cases th) auto
  qed
qed simp

section \<open>What the history keeps\<close>

definition leaves_mode :: "uint64 \<Rightarrow> access_mode \<times> uint64 \<Rightarrow> bool" where
  "leaves_mode x p \<longleftrightarrow> snd p = x \<and> shared p \<and> param_mode p \<noteq> KAAPI_ACCESS_MODE_VOID"

definition frame_accesses :: "stack_task list \<Rightarrow> (access_mode \<times> uint64) list" where
  "frame_accesses tasks = concat (map stk_params (filter (\<lambda>t. stk_fmt t \<noteq> None) tasks))"

lemma fold_task_note: "fold task_note tasks M = fold note_access (frame_accesses tasks) M"
  by (induction tasks arbitrary: M) (auto simp: frame_accesses_def task_note_def)

lemma note_access_keeps: "M x \<noteq> KAAPI_ACCESS_MODE_VOID \<Longrightarrow> fold note_access ps M x = M x"
proof (induction ps arbitrary: M)
  case (Cons p ps)
  have "note_access p M x = M x" using Cons.prems by (auto simp: note_access_def)
  with Cons show ?case by simp
qed simp

lemma note_access_first:
  assumes "M x = KAAPI_ACCESS_MODE_VOID"
  shows "fold note_access ps M x =
    (case find (leaves_mode x) ps of None \<Rightarrow> KAAPI_ACCESS_MODE_VOID | Some p \<Rightarrow> param_mode p)"
  using assms
proof (induction ps arbitrary: M)
  case (Cons p ps)
  show ?case
  proof (cases "leaves_mode x p")
    case True
    then have "note_access p M x = param_mode p" using Cons.prems by (simp add: note_access_def leaves_mode_def param_mode_def shared_def)
    then show ?thesis using True note_access_keeps [of "note_access p M" x ps] by (simp add: leaves_mode_def)
  next
    case False
    then have "note_access p M x = KAAPI_ACCESS_MODE_VOID"
      using Cons.prems by (auto simp: note_access_def leaves_mode_def param_mode_def shared_def)
    then show ?thesis using Cons.IH [of "note_access p M"] False by simp
  qed
qed simp

lemma unready_zero:
  "unready ps M = 0 \<Longrightarrow> p \<in> set ps \<Longrightarrow> \<exists>qs. set qs \<subseteq> set ps \<and> param_ready (fold note_access qs M) p"
proof (induction ps arbitrary: M)
  case (Cons q ps)
  show ?case
  proof (cases "p = q")
    case True
    then show ?thesis using Cons.prems(1) by (intro exI [of _ "[]"]) (simp split: if_splits)
  next
    case False
    then obtain qs where "set qs \<subseteq> set ps" "param_ready (fold note_access qs (note_access q M)) p"
      using Cons.IH [of "note_access q M"] Cons.prems by (auto split: if_splits)
    then show ?thesis by (intro exI [of _ "q # qs"]) auto
  qed
qed simp

text \<open>The masked modes never carry the bit of the postponed mode, so the second case of
  \<^verbatim>\<open>KAAPI_ACCESS_IS_CONCURRENT\<close> does not apply in the readiness test.\<close>

lemma get_mode_not_postponed:
  "(KAAPI_ACCESS_GET_MODE a OR KAAPI_ACCESS_GET_MODE b) AND KAAPI_ACCESS_MODE_P = 0"
proof -
  have "KAAPI_ACCESS_GET_MODE c AND KAAPI_ACCESS_MODE_P = c AND (0x1F AND 0x40)" for c :: access_mode
    unfolding KAAPI_ACCESS_GET_MODE_def KAAPI_ACCESS_MODE_P_def by (rule and.assoc)
  then show ?thesis by (simp add: bit.conj_disj_distrib2)
qed

lemma concurrent_modes:
  "KAAPI_ACCESS_IS_CONCURRENT (param_mode p) (param_mode q) \<longleftrightarrow>
     param_mode p = param_mode q \<and> (param_mode q = KAAPI_ACCESS_MODE_R \<or> param_mode q = KAAPI_ACCESS_MODE_CW)"
  using get_mode_not_postponed [of "fst p" "fst q"] by (simp add: KAAPI_ACCESS_IS_CONCURRENT_def param_mode_def)

lemma stealable_reader:
  assumes "stealable_at tasks k" "p \<in> set (stk_params (tasks ! k))" "shared p"
    "KAAPI_ACCESS_IS_READ (param_mode p)" "\<not> KAAPI_ACCESS_IS_STACK (param_mode p)"
    "find (leaves_mode (snd p)) (frame_accesses (take k tasks)) = Some q"
  shows "param_mode p = KAAPI_ACCESS_MODE_R \<and> param_mode q = KAAPI_ACCESS_MODE_R"
proof -
  let ?M = "history tasks k"
  have q: "leaves_mode (snd p) q" using assms(6) by (auto simp: find_Some_iff)
  have M: "?M (snd p) = param_mode q"
    using note_access_first [of no_modes "snd p" "frame_accesses (take k tasks)"] assms(6)
    by (simp add: history_def fold_task_note no_modes_def)
  obtain qs where "param_ready (fold note_access qs ?M) p"
    using unready_zero [of "stk_params (tasks ! k)" ?M p] assms(1,2) by (auto simp: stealable_at_def ready_task_def)
  moreover have "fold note_access qs ?M (snd p) = param_mode q"
    using note_access_keeps [of ?M "snd p" qs] M q by (simp add: leaves_mode_def)
  ultimately have "KAAPI_ACCESS_IS_CONCURRENT (param_mode p) (param_mode q)"
    using assms(3-5) q
    by (auto simp: param_ready_def Let_def shared_def param_mode_def [symmetric] KAAPI_ACCESS_IS_ONLYWRITE_def leaves_mode_def)
  then show ?thesis using assms(4)
    by (auto simp: concurrent_modes KAAPI_ACCESS_IS_READ_def KAAPI_ACCESS_MODE_R_def KAAPI_ACCESS_MODE_CW_def)
qed

section \<open>A whole frame\<close>

lemma clear_empty:
  assumes "hashmap_inv h khm" "kaapi_hashmap_clear h khm = (h1, khm1)"
  shows "hashmap_inv h1 khm1" "tab_modes h1 khm1 = no_modes"
  using hashmap_init_and_clear_empty [of None h khm, OF _ prod.collapse [symmetric] assms]
  by (auto simp: tab_modes_def no_modes_def)

lemma stealframe_spec:
  assumes "hashmap_inv h khm" "range_inv lri" "\<forall>t \<in> set tasks. \<not> kaapi_task_is_splittable (stk_cell t)"
  shows "\<exists>tasks' ths tab lri'. kaapi_sched_stealframe sp tasks h khm lri = Some (tasks', ths, tab, lri')
    \<and> map (\<lambda>(r, a). (r, origin_task a)) ths = zip (requests lri) (stolen_tasks tasks)
    \<and> requests lri' = drop (length (stolen_tasks tasks)) (requests lri)
    \<and> tasks' = map (\<lambda>k. if k \<in> set (take (length (requests lri)) (stolen_tasks tasks))
                         then stolen_state (tasks ! k) else tasks ! k) [0..<length tasks]"
proof -
  obtain h1 khm1 where c: "kaapi_hashmap_clear h khm = (h1, khm1)" by fastforce
  let ?new = "\<lambda>k. if k \<in> set (take (length (requests lri)) (stolen_tasks tasks)) then stolen_state (tasks ! k) else tasks ! k"
  obtain tasks' ths tab lri' where s: "stealframe_loop sp 0 tasks (Some (h1, khm1)) lri = Some (tasks', ths, tab, lri')"
    "map (\<lambda>(r, a). (r, origin_task a)) ths = zip (requests lri) (stolen_tasks tasks)"
    "requests lri' = drop (length (stolen_tasks tasks)) (requests lri)"
    "length tasks' = length tasks" "\<forall>j < length tasks. tasks' ! j = ?new (0 + j)"
    using stealframe_loop_spec [OF clear_empty(1) [OF assms(1) c] assms(2,3), of sp 0]
    unfolding clear_empty(2) [OF assms(1) c] stealable_from_0 add_0 by metis
  have "tasks' = map ?new [0..<length tasks]" by (rule nth_equalityI) (use s(4,5) in simp_all)
  with s(1-3) show ?thesis unfolding kaapi_sched_stealframe_def c by blast
qed

section \<open>Properties\<close>

text \<open>C22: On every parameter list, \<^verbatim>\<open>kaapi_task_computeready\<close> returns the number of parameters that are not
  ready, sets the bits of the parameters to copy and to accumulate, and leaves in the table, for each address, the
  mode of the first access recorded.\<close>

theorem readiness_is_function_of_history:
  assumes "hashmap_inv h khm"
  shows "\<exists>war cw h' khm'. kaapi_task_computeready ps 0 0 h khm = Some (unready ps (tab_modes h khm), war, cw, h', khm')
    \<and> hashmap_inv h' khm' \<and> tab_modes h' khm' = fold note_access ps (tab_modes h khm)
    \<and> (\<forall>k < 32. bit war k \<longleftrightarrow> k \<in> param_bits param_war 0 ps (tab_modes h khm))
    \<and> (\<forall>k < 32. bit cw k \<longleftrightarrow> k \<in> param_bits param_cw 0 ps (tab_modes h khm))"
  using computeready_spec [OF assms, of ps] by metis

text \<open>C17: In a frame without splittable tasks, \<^verbatim>\<open>kaapi_sched_stealframe\<close> returns and gives the first tasks, in
  program order, that are ready and stealable to the requests in increasing order, one each, until the tasks or the
  requests run out; these tasks are marked stolen, and the others are left as they are.\<close>

theorem scan_hands_out_first_ready_tasks:
  assumes "hashmap_inv h khm" "range_inv lri" "\<forall>t \<in> set tasks. \<not> kaapi_task_is_splittable (stk_cell t)"
  shows "\<exists>tasks' ths tab lri'. kaapi_sched_stealframe sp tasks h khm lri = Some (tasks', ths, tab, lri')
    \<and> map (\<lambda>(r, a). (r, origin_task a)) ths = zip (requests lri) (filter (stealable_at tasks) [0..<length tasks])
    \<and> requests lri' = drop (length (stolen_tasks tasks)) (requests lri)
    \<and> tasks' = map (\<lambda>k. if k \<in> set (take (length (requests lri)) (stolen_tasks tasks))
                         then stolen_state (tasks ! k) else tasks ! k) [0..<length tasks]"
  using stealframe_spec [OF assms, of sp] unfolding stolen_tasks_def .

text \<open>C18: In a frame without splittable tasks, a task handed out by the scan whose parameter reads a datum (with an access
  that is not of mode \<open>STACK\<close>) reads what the tasks before it in the frame leave there as long as the first access to the
  datum is a write: when an earlier task of the frame accesses the datum, both the first such access and the access of the
  task are of mode \<^verbatim>\<open>R\<close>.\<close>

theorem stolen_reader_has_no_first_writer:
  assumes "(r, a) \<in> set ths" "kaapi_sched_stealframe sp tasks h khm lri = Some (tasks', ths, tab, lri')"
    and "hashmap_inv h khm" "range_inv lri" "\<forall>t \<in> set tasks. \<not> kaapi_task_is_splittable (stk_cell t)"
    and "p \<in> set (stk_params (tasks ! origin_task a))" "shared p"
    and "KAAPI_ACCESS_IS_READ (param_mode p)" "\<not> KAAPI_ACCESS_IS_STACK (param_mode p)"
    and "find (leaves_mode (snd p)) (frame_accesses (take (origin_task a) tasks)) = Some q"
  shows "param_mode p = KAAPI_ACCESS_MODE_R \<and> param_mode q = KAAPI_ACCESS_MODE_R"
proof -
  have "(r, origin_task a) \<in> set (map (\<lambda>(r, a). (r, origin_task a)) ths)" using assms(1) by force
  also have "\<dots> = set (zip (requests lri) (stolen_tasks tasks))"
    using stealframe_spec [OF assms(3-5), of sp] assms(2) by (auto dest: arg_cong [where f = set])
  finally have "stealable_at tasks (origin_task a)" by (auto simp: stolen_tasks_def dest: set_zip_rightD)
  then show ?thesis using stealable_reader assms(6-10) by blast
qed

section \<open>A read that overtakes a write\<close>

definition scan_task :: "uint8 \<Rightarrow> access_mode \<Rightarrow> stack_task" where
  "scan_task s m = \<lparr>stk_cell = \<lparr>tk_state = s, tk_flag = 0, tk_reserved = False\<rparr>, stk_fmt = Some 1, stk_params = [(m, 4096)]\<rparr>"

text \<open>A running task reads a datum, the next one reads and writes it, the third one reads it.\<close>

definition read_update_read :: "stack_task list" where
  "read_update_read = [scan_task KAAPI_TASK_STATE_EXEC KAAPI_ACCESS_MODE_R,
     scan_task KAAPI_TASK_STATE_INIT (KAAPI_ACCESS_MODE_R OR KAAPI_ACCESS_MODE_W),
     scan_task KAAPI_TASK_STATE_INIT KAAPI_ACCESS_MODE_R]"

definition one_request :: request_range where
  "one_request = \<lparr>lri_bitmap = kaapi_bitmap_value_clear_256 \<lparr>vproc256_0 = 0, vproc256_1 = 0, vproc256_2 = 0, vproc256_3 = 0\<rparr>,
     lri_idcurr = 3\<rparr>"

lemma one_request_spec: "range_inv one_request" "requests one_request = [3]"
  by (simp_all add: one_request_def lri_inv_def requests_def lri_pending_def value256_simple(2))

lemmas scan_eval = scan_task_def history_def task_note_def note_access_def ready_task_def param_ready_def no_modes_def
  KAAPI_ACCESS_GET_MODE_def KAAPI_ACCESS_MODE_R_def KAAPI_ACCESS_MODE_W_def KAAPI_ACCESS_MODE_V_def
  KAAPI_ACCESS_MODE_VOID_def KAAPI_ACCESS_MODE_CW_def KAAPI_ACCESS_MODE_S_def KAAPI_ACCESS_MODE_P_def
  KAAPI_ACCESS_IS_ONLYWRITE_def KAAPI_ACCESS_IS_READ_def KAAPI_ACCESS_IS_WRITE_def KAAPI_ACCESS_IS_STACK_def
  KAAPI_ACCESS_IS_CONCURRENT_def kaapi_task_isstealable_def KAAPI_TASK_STATE_INIT_def KAAPI_TASK_STATE_EXEC_def
  KAAPI_TASK_UNSTEALABLE_MASK_def

lemma read_update_read_stolen: "stolen_tasks read_update_read = [2]"
  by (simp add: stolen_tasks_def stealable_at_def read_update_read_def upt_rec scan_eval)

lemma read_update_read_not_split: "\<forall>t \<in> set read_update_read. \<not> kaapi_task_is_splittable (stk_cell t)"
  by (simp add: read_update_read_def scan_task_def kaapi_task_is_splittable_def)

text \<open>C19: The table keeps only the mode of the first access to a datum: when that access is a read, a task that
  reads the datum is handed out although a task before it that writes the datum has not run.\<close>

theorem reader_overtakes_pending_writer:
  "\<exists>tasks' ths tab lri'. kaapi_sched_stealframe (\<lambda>_. None) read_update_read sample_heap sample_map one_request =
       Some (tasks', ths, tab, lri')
     \<and> map (\<lambda>(r, a). (r, origin_task a)) ths = [(3, 2)]
     \<and> KAAPI_ACCESS_IS_WRITE (param_mode (hd (stk_params (read_update_read ! 1))))
     \<and> snd (hd (stk_params (read_update_read ! 1))) = snd (hd (stk_params (read_update_read ! 2)))
     \<and> tk_state (stk_cell (tasks' ! 1)) = KAAPI_TASK_STATE_INIT"
proof -
  have "KAAPI_ACCESS_IS_WRITE (param_mode (hd (stk_params (read_update_read ! 1))))"
    "snd (hd (stk_params (read_update_read ! 1))) = snd (hd (stk_params (read_update_read ! 2)))"
    "tk_state (stk_cell (read_update_read ! 1)) = KAAPI_TASK_STATE_INIT" "length read_update_read = 3"
    by (simp_all add: read_update_read_def scan_eval param_mode_def)
  then show ?thesis
    using stealframe_spec [OF sample_inv(1) one_request_spec(1) read_update_read_not_split, of "\<lambda>_. None"]
    by (auto simp: read_update_read_stolen one_request_spec(2))
qed

section \<open>Witnesses\<close>

theorem readiness_is_function_of_history_witness:
  "\<exists>war cw h' khm'. kaapi_task_computeready [(KAAPI_ACCESS_MODE_R, 4096), (KAAPI_ACCESS_MODE_W, 4096)] 0 0 sample_heap sample_map =
     Some (unready [(KAAPI_ACCESS_MODE_R, 4096), (KAAPI_ACCESS_MODE_W, 4096)] (tab_modes sample_heap sample_map), war, cw, h', khm')"
  using readiness_is_function_of_history [OF sample_inv(1), of "[(KAAPI_ACCESS_MODE_R, 4096), (KAAPI_ACCESS_MODE_W, 4096)]"]
  by blast

theorem scan_hands_out_first_ready_tasks_witness:
  "\<exists>tasks' ths tab lri'. kaapi_sched_stealframe (\<lambda>_. None) read_update_read sample_heap sample_map one_request =
       Some (tasks', ths, tab, lri')
     \<and> map (\<lambda>(r, a). (r, origin_task a)) ths = zip [3] (stolen_tasks read_update_read)"
  using scan_hands_out_first_ready_tasks [OF sample_inv(1) one_request_spec(1) read_update_read_not_split, of "\<lambda>_. None"]
  unfolding one_request_spec(2) stolen_tasks_def by blast

theorem stolen_reader_has_no_first_writer_witness:
  "\<exists>tasks' ths tab lri' a. kaapi_sched_stealframe (\<lambda>_. None) read_update_read sample_heap sample_map one_request =
       Some (tasks', ths, tab, lri')
     \<and> (3, a) \<in> set ths \<and> param_mode (hd (stk_params (read_update_read ! origin_task a))) = KAAPI_ACCESS_MODE_R"
proof -
  obtain tasks' ths tab lri' where s: "kaapi_sched_stealframe (\<lambda>_. None) read_update_read sample_heap sample_map one_request =
      Some (tasks', ths, tab, lri')" "map (\<lambda>(r, a). (r, origin_task a)) ths = [(3, 2)]"
    using stealframe_spec [OF sample_inv(1) one_request_spec(1) read_update_read_not_split, of "\<lambda>_. None"]
    by (auto simp: read_update_read_stolen one_request_spec(2))
  then obtain a where a: "ths = [(3, a)]" "origin_task a = 2" by (auto simp: map_eq_Cons_conv)
  let ?p = "(KAAPI_ACCESS_MODE_R, 4096)"
  have "?p \<in> set (stk_params (read_update_read ! origin_task a))" "shared ?p" "KAAPI_ACCESS_IS_READ (param_mode ?p)"
    "\<not> KAAPI_ACCESS_IS_STACK (param_mode ?p)" "hd (stk_params (read_update_read ! origin_task a)) = ?p"
    "find (leaves_mode (snd ?p)) (frame_accesses (take (origin_task a) read_update_read)) = Some ?p"
    by (simp_all add: a(2) read_update_read_def scan_eval param_mode_def shared_def leaves_mode_def frame_accesses_def)
  then have "param_mode (hd (stk_params (read_update_read ! origin_task a))) = KAAPI_ACCESS_MODE_R"
    using stolen_reader_has_no_first_writer [OF _ s(1) sample_inv(1) one_request_spec(1) read_update_read_not_split,
        of 3 a ?p ?p] a(1) by simp
  with s(1) a(1) show ?thesis by auto
qed

end
