(* ===== verification/Steal_Emit.thy ===== *)
theory Steal_Emit
  imports Kaapi_Prelude
begin

text \<open>
  How idle processors emit steal requests (\<^verbatim>\<open>kaapi_sched_flat_emitsteal\<close> of
  \<^verbatim>\<open>src/src/machine/mt/kaapi_mt_sched_emitsteal.c\<close>, built with aggregation): a thief posts its request in the
  bitmap of a victim and tries to lock the victim; the one that gets the lock captures all the requests posted so
  far and answers them, the others watch the status of their own request.  The processors interleave at each access
  to a bitmap word, to a status, to the pointer of a request and to a lock.  A bitmap is the set of its bits
  (\<open>Bitmap256\<close>), and an iterator the set of its pending requests (\<open>Request_Iterator\<close>); \<^verbatim>\<open>kaapi_sched_stealprocessor\<close>
  decides which captured requests get a task, in an order that is left open.
\<close>

section \<open>Requests\<close>

datatype req_status = S_POSTED | S_NOK | S_OK | S_ERROR

definition kaapi_request_status_test :: "req_status \<Rightarrow> bool" where
  "kaapi_request_status_test s \<longleftrightarrow> s \<noteq> S_POSTED"

text \<open>The program counter of a processor, with its victim \<open>v\<close>: posting, locking, testing its status after a failed
  \<^verbatim>\<open>trylock\<close>, capturing word \<open>k\<close> of the bitmap, serving the captured requests, writing the status of request \<open>r\<close>,
  releasing the lock, testing its own status, waiting for its own reply, returned.\<close>

datatype emit_pc =
    EIdle | EPost nat | ELock nat | ETest nat | ECapture nat nat | EServe nat | EReply nat nat req_status
  | EUnlock nat | ECheck nat | EWait nat | EDone req_status

text \<open>The status is a local variable of the emitting call, \<open>em_ptr r\<close> says that the field \<^verbatim>\<open>status\<close> of request \<open>r\<close>
  points to it; \<open>em_lri\<close> is the iterator of a combiner.  The ghost field \<open>em_replies\<close> counts the replies to the
  current emission of a processor.\<close>

record emit_state =
  em_pc :: "nat \<Rightarrow> emit_pc"
  em_status :: "nat \<Rightarrow> req_status"
  em_ptr :: "nat \<Rightarrow> bool"
  em_posted :: "nat \<Rightarrow> nat set"
  em_lock :: "nat \<Rightarrow> nat option"
  em_lri :: "nat \<Rightarrow> nat set"
  em_replies :: "nat \<Rightarrow> nat"

definition set_epc :: "nat \<Rightarrow> emit_pc \<Rightarrow> emit_state \<Rightarrow> emit_state" where
  "set_epc t p s = s\<lparr>em_pc := (em_pc s)(t := p)\<rparr>"

text \<open>Word \<open>k\<close> of the bitmap holds the bits from \<open>64 * k\<close> on.\<close>

definition bitmap_word :: "nat \<Rightarrow> nat set" where
  "bitmap_word k = {r. r div 64 = k}"

section \<open>Steps\<close>

text \<open>The request is filled and its status initialised, then its bit is set.\<close>

definition kaapi_request_post :: "nat \<Rightarrow> emit_state \<Rightarrow> emit_state" where
  "kaapi_request_post t s = s\<lparr>em_status := (em_status s)(t := S_POSTED), em_ptr := (em_ptr s)(t := True),
     em_replies := (em_replies s)(t := 0)\<rparr>"

inductive emit_step :: "nat \<Rightarrow> nat \<Rightarrow> emit_state \<Rightarrow> emit_state \<Rightarrow> bool" for n t s where
  few: "em_pc s t = EIdle \<Longrightarrow> n < 2 \<Longrightarrow> emit_step n t s (set_epc t EIdle s)"
| select: "em_pc s t = EIdle \<Longrightarrow> 2 \<le> n \<Longrightarrow> v < n \<Longrightarrow>
    emit_step n t s (set_epc t (EPost v) (kaapi_request_post t s))"
| post: "em_pc s t = EPost v \<Longrightarrow>
    emit_step n t s (set_epc t (ELock v) (s\<lparr>em_posted := (em_posted s)(v := insert t (em_posted s v))\<rparr>))"
| lock: "em_pc s t = ELock v \<Longrightarrow> em_lock s v = None \<Longrightarrow>
    emit_step n t s (set_epc t (ECapture v 0) (s\<lparr>em_lock := (em_lock s)(v := Some t), em_lri := (em_lri s)(t := {})\<rparr>))"
| busy: "em_pc s t = ELock v \<Longrightarrow> em_lock s v \<noteq> None \<Longrightarrow> emit_step n t s (set_epc t (ETest v) s)"
| test: "em_pc s t = ETest v \<Longrightarrow>
    emit_step n t s (set_epc t (if kaapi_request_status_test (em_status s t) then EDone (em_status s t) else ELock v) s)"
| capture: "em_pc s t = ECapture v k \<Longrightarrow> k < 4 \<Longrightarrow>
    emit_step n t s (set_epc t (ECapture v (Suc k))
      (s\<lparr>em_lri := (em_lri s)(t := em_lri s t \<union> em_posted s v \<inter> bitmap_word k),
         em_posted := (em_posted s)(v := em_posted s v - bitmap_word k)\<rparr>))"
| captured: "em_pc s t = ECapture v 4 \<Longrightarrow> emit_step n t s (set_epc t (EServe v) s)"
| serve: "em_pc s t = EServe v \<Longrightarrow> r \<in> em_lri s t \<Longrightarrow> x = S_OK \<or> x = S_NOK \<Longrightarrow>
    emit_step n t s (set_epc t (EReply v r x)
      (s\<lparr>em_ptr := (em_ptr s)(r := False), em_lri := (em_lri s)(t := em_lri s t - {r})\<rparr>))"
| reply: "em_pc s t = EReply v r x \<Longrightarrow>
    emit_step n t s (set_epc t (EServe v)
      (s\<lparr>em_status := (em_status s)(r := x), em_replies := (em_replies s)(r := em_replies s r + 1)\<rparr>))"
| served: "em_pc s t = EServe v \<Longrightarrow> em_lri s t = {} \<Longrightarrow> emit_step n t s (set_epc t (EUnlock v) s)"
| unlock: "em_pc s t = EUnlock v \<Longrightarrow>
    emit_step n t s (set_epc t (ECheck v) (s\<lparr>em_lock := (em_lock s)(v := None)\<rparr>))"
| check: "em_pc s t = ECheck v \<or> em_pc s t = EWait v \<Longrightarrow>
    emit_step n t s (set_epc t (if kaapi_request_status_test (em_status s t) then EDone (em_status s t) else EWait v) s)"
| cancel: "em_pc s t = EWait v \<Longrightarrow>
    emit_step n t s (set_epc t (EDone S_NOK) (s\<lparr>em_posted := (em_posted s)(v := em_posted s v - {t})\<rparr>))"
| next_emit: "em_pc s t = EDone x \<Longrightarrow> emit_step n t s (set_epc t EIdle s)"

inductive emit_system :: "nat \<Rightarrow> emit_state \<Rightarrow> emit_state \<Rightarrow> bool" for n where
  "t < n \<Longrightarrow> emit_step n t s s' \<Longrightarrow> emit_system n s s'"

definition emit_start :: "(nat \<Rightarrow> req_status) \<Rightarrow> emit_state" where
  "emit_start old = \<lparr>em_pc = (\<lambda>_. EIdle), em_status = old, em_ptr = (\<lambda>_. False), em_posted = (\<lambda>_. {}),
     em_lock = (\<lambda>_. None), em_lri = (\<lambda>_. {}), em_replies = (\<lambda>_. 0)\<rparr>"

definition emit_reachable :: "nat \<Rightarrow> emit_state \<Rightarrow> bool" where
  "emit_reachable n s \<longleftrightarrow> (\<exists>old. (emit_system n)\<^sup>*\<^sup>* (emit_start old) s)"

section \<open>The invariant\<close>

text \<open>The victim a processor holds the lock of, the victim whose requests it is capturing or answering, and the
  victim its own request is at.\<close>

fun holds :: "emit_pc \<Rightarrow> nat option" where
  "holds (ECapture v _) = Some v"
| "holds (EServe v) = Some v"
| "holds (EReply v _ _) = Some v"
| "holds (EUnlock v) = Some v"
| "holds _ = None"

fun victim_of :: "emit_pc \<Rightarrow> nat option" where
  "victim_of (ELock v) = Some v"
| "victim_of (ETest v) = Some v"
| "victim_of (ECapture v _) = Some v"
| "victim_of (EServe v) = Some v"
| "victim_of (EReply v _ _) = Some v"
| "victim_of (EUnlock v) = Some v"
| "victim_of (ECheck v) = Some v"
| "victim_of (EWait v) = Some v"
| "victim_of _ = None"

fun replying :: "emit_pc \<Rightarrow> nat option" where
  "replying (EReply _ r _) = Some r"
| "replying _ = None"

text \<open>The words of the bitmap of its victim that a combiner has captured.\<close>

fun words_done :: "emit_pc \<Rightarrow> nat" where
  "words_done (ECapture _ k) = k"
| "words_done (EServe _) = 4"
| "words_done (EReply _ _ _) = 4"
| "words_done (EUnlock _) = 4"
| "words_done _ = 0"

text \<open>Where the request of a processor is: not posted, in the bitmap of a victim, in the iterator of a combiner, between
  the two writes of a reply, answered.\<close>

datatype req_place = Nowhere | AtVictim nat | AtCombiner nat | InReply nat | Answered

fun place_ok :: "emit_state \<Rightarrow> nat \<Rightarrow> req_place \<Rightarrow> bool" where
  "place_ok s r Nowhere \<longleftrightarrow> victim_of (em_pc s r) = None \<and> (\<forall>x. em_pc s r \<noteq> EDone x)
     \<and> (em_pc s r = EIdle \<or> em_status s r = S_POSTED \<and> em_ptr s r \<and> em_replies s r = 0)"
| "place_ok s r (AtVictim v) \<longleftrightarrow> victim_of (em_pc s r) = Some v
     \<and> em_status s r = S_POSTED \<and> em_ptr s r \<and> em_replies s r = 0"
| "place_ok s r (AtCombiner u) \<longleftrightarrow> holds (em_pc s u) = victim_of (em_pc s r) \<and> victim_of (em_pc s r) \<noteq> None
     \<and> (\<forall>v. em_pc s u \<noteq> EUnlock v) \<and> em_status s r = S_POSTED \<and> em_ptr s r \<and> em_replies s r = 0"
| "place_ok s r (InReply u) \<longleftrightarrow> (\<exists>v x. em_pc s u = EReply v r x \<and> victim_of (em_pc s r) = Some v)
     \<and> em_status s r = S_POSTED \<and> em_replies s r = 0"
| "place_ok s r Answered \<longleftrightarrow> em_status s r \<noteq> S_POSTED \<and> em_replies s r = 1 \<and> (\<forall>v. em_pc s r \<noteq> EPost v)"

fun pc_ok :: "(nat \<Rightarrow> req_place) \<Rightarrow> emit_state \<Rightarrow> nat \<Rightarrow> emit_pc \<Rightarrow> bool" where
  "pc_ok pl s t (ECapture v k) \<longleftrightarrow> k \<le> 4 \<and> (pl t = AtVictim v \<longrightarrow> k \<le> t div 64)"
| "pc_ok pl s t (EServe v) \<longleftrightarrow> pl t \<noteq> AtVictim v"
| "pc_ok pl s t (EReply v r x) \<longleftrightarrow> pl r = InReply t \<and> x \<noteq> S_POSTED \<and> pl t \<noteq> AtVictim v"
| "pc_ok pl s t (EUnlock v) \<longleftrightarrow> pl t = Answered"
| "pc_ok pl s t (ECheck v) \<longleftrightarrow> pl t = Answered"
| "pc_ok pl s t (EWait v) \<longleftrightarrow> False"
| "pc_ok pl s t (EDone x) \<longleftrightarrow> pl t = Answered \<and> em_status s t = x"
| "pc_ok pl s t _ \<longleftrightarrow> True"

definition emit_placed :: "nat \<Rightarrow> (nat \<Rightarrow> req_place) \<Rightarrow> emit_state \<Rightarrow> bool" where
  "emit_placed n pl s \<longleftrightarrow> (\<forall>v. em_posted s v = {r. pl r = AtVictim v}) \<and> (\<forall>u. em_lri s u = {r. pl r = AtCombiner u})
     \<and> (\<forall>v t. em_lock s v = Some t \<longleftrightarrow> holds (em_pc s t) = Some v)
     \<and> (\<forall>r. place_ok s r (pl r)) \<and> (\<forall>t. pc_ok pl s t (em_pc s t)) \<and> (\<forall>t \<ge> n. em_pc s t = EIdle)"

definition emit_inv :: "nat \<Rightarrow> emit_state \<Rightarrow> bool" where
  "emit_inv n s \<longleftrightarrow> (\<exists>pl. emit_placed n pl s)"

lemma emit_start_inv: "emit_inv n (emit_start old)"
  by (auto simp: emit_inv_def emit_placed_def emit_start_def intro!: exI [of _ "\<lambda>_. Nowhere"])

lemma set_epc_sel [simp]:
  "em_pc (set_epc t p s) = (em_pc s)(t := p)" "em_status (set_epc t p s) = em_status s"
  "em_ptr (set_epc t p s) = em_ptr s" "em_posted (set_epc t p s) = em_posted s" "em_lock (set_epc t p s) = em_lock s"
  "em_lri (set_epc t p s) = em_lri s" "em_replies (set_epc t p s) = em_replies s"
  by (simp_all add: set_epc_def)

lemma emit_placedD:
  assumes "emit_placed n pl s"
  shows "em_posted s v = {r. pl r = AtVictim v}" "em_lri s u = {r. pl r = AtCombiner u}"
    "em_lock s v = Some t \<longleftrightarrow> holds (em_pc s t) = Some v" "place_ok s r (pl r)" "pc_ok pl s t (em_pc s t)"
    "n \<le> t \<Longrightarrow> em_pc s t = EIdle"
  using assms by (simp_all add: emit_placed_def)

lemma emit_placedI:
  assumes "\<And>v. em_posted s v = {r. pl r = AtVictim v}" "\<And>u. em_lri s u = {r. pl r = AtCombiner u}"
    "\<And>v t. em_lock s v = Some t \<longleftrightarrow> holds (em_pc s t) = Some v" "\<And>r. place_ok s r (pl r)" "\<And>t. pc_ok pl s t (em_pc s t)"
    "\<And>t. n \<le> t \<Longrightarrow> em_pc s t = EIdle"
  shows "emit_inv n s"
  using assms unfolding emit_inv_def emit_placed_def by blast

text \<open>A step that leaves the place of a request and the counters of others alone.\<close>

lemma place_ok_frame:
  assumes "place_ok s r p" "em_status s' r = em_status s r" "em_ptr s' r = em_ptr s r" "em_replies s' r = em_replies s r"
    "em_pc s' = (em_pc s)(t := q)" "r \<noteq> t" "p \<noteq> AtCombiner t" "p \<noteq> InReply t"
  shows "place_ok s' r p"
  using assms by (cases p) auto

lemma pc_ok_frame:
  assumes "pc_ok pl s u p" "\<And>v. pl' u = AtVictim v \<Longrightarrow> pl u = AtVictim v" "pl u = Answered \<Longrightarrow> pl' u = Answered"
    "\<And>v r x. p = EReply v r x \<Longrightarrow> pl' r = pl r" "\<And>x. p = EDone x \<Longrightarrow> em_status s' u = em_status s u"
  shows "pc_ok pl' s' u p"
  using assms by (cases p) auto

lemma step_post:
  assumes i: "emit_placed n pl s" and t: "t < n" and p: "em_pc s t = EPost v"
  shows "emit_inv n (set_epc t (ELock v) (s\<lparr>em_posted := (em_posted s)(v := insert t (em_posted s v))\<rparr>))" (is "emit_inv n ?s'")
proof (rule emit_placedI [where pl = "pl(t := AtVictim v)"])
  note D = emit_placedD [OF i]
  have pt: "pl t = Nowhere" using D(4) [of t] p by (cases "pl t") auto
  show "em_posted ?s' w = {r. (pl(t := AtVictim v)) r = AtVictim w}" for w using D(1) pt by auto
  show "em_lri ?s' u = {r. (pl(t := AtVictim v)) r = AtCombiner u}" for u using D(2) pt by auto
  show "em_lock ?s' w = Some u \<longleftrightarrow> holds (em_pc ?s' u) = Some w" for w u using D(3) p by auto
  show "place_ok ?s' r ((pl(t := AtVictim v)) r)" for r
  proof (cases "r = t")
    case True
    then show ?thesis using D(4) [of t] pt p by simp
  next
    case False
    have "pl r \<noteq> AtCombiner t" "pl r \<noteq> InReply t" using D(4) [of r] p by (cases "pl r"; auto)+
    then show ?thesis using place_ok_frame [OF D(4) [of r], of ?s' t "ELock v"] False by simp
  qed
  show "pc_ok (pl(t := AtVictim v)) ?s' u (em_pc ?s' u)" for u
  proof (cases "u = t")
    case False
    have "r \<noteq> t" if "em_pc s u = EReply w r x" for w r x using D(5) [of u] that pt by auto
    then have "pc_ok (pl(t := AtVictim v)) ?s' u (em_pc s u)"
      using False pt by (intro pc_ok_frame [OF D(5) [of u]]) (auto split: if_splits)
    then show ?thesis using False by simp
  qed simp
  show "n \<le> u \<Longrightarrow> em_pc ?s' u = EIdle" for u using D(6) t by simp
qed

text \<open>A step that only moves the program counter of \<open>t\<close>, and takes or releases a lock.\<close>

lemma step_pc:
  assumes i: "emit_placed n pl s" and t: "t < n"
    and s': "em_pc s' = (em_pc s)(t := q)" "em_status s' = em_status s" "em_ptr s' = em_ptr s" "em_posted s' = em_posted s"
      "em_lri s' = em_lri s" "em_replies s' = em_replies s"
    and l: "\<And>v u. em_lock s' v = Some u \<longleftrightarrow> holds (em_pc s' u) = Some v"
    and c: "\<And>r. pl r = AtCombiner t \<Longrightarrow> holds q = holds (em_pc s t) \<and> (\<forall>v. q \<noteq> EUnlock v)" "\<And>v r x. em_pc s t \<noteq> EReply v r x"
    and q: "place_ok s' t (pl t)" "pc_ok pl s' t q"
  shows "emit_inv n s'"
proof (rule emit_placedI)
  note D = emit_placedD [OF i]
  show "em_posted s' v = {r. pl r = AtVictim v}" "em_lri s' u = {r. pl r = AtCombiner u}" for v u using D(1,2) s' by simp_all
  show "em_lock s' v = Some u \<longleftrightarrow> holds (em_pc s' u) = Some v" for v u by (rule l)
  show "place_ok s' r (pl r)" for r
  proof (cases "r = t")
    case False
    have "pl r \<noteq> InReply t" using D(4) [of r] c(2) by auto
    then show ?thesis
      using place_ok_frame [OF D(4) [of r], of s' t q] D(4) [of r] c(1) [of r] s' False by (cases "pl r = AtCombiner t") auto
  qed (use q(1) in simp)
  show "pc_ok pl s' u (em_pc s' u)" for u
    using q(2) s'(1) pc_ok_frame [OF D(5) [of u], of pl s'] s'(2) by (cases "u = t") auto
  show "n \<le> u \<Longrightarrow> em_pc s' u = EIdle" for u using D(6) t s'(1) by simp
qed

lemma step_select:
  assumes i: "emit_placed n pl s" and t: "t < n" and p: "em_pc s t = EIdle"
  shows "emit_inv n (set_epc t (EPost v) (kaapi_request_post t s))" (is "emit_inv n ?s'")
proof (rule emit_placedI [where pl = "pl(t := Nowhere)"])
  note D = emit_placedD [OF i]
  have pt: "pl t = Nowhere \<or> pl t = Answered" using D(4) [of t] p by (cases "pl t") auto
  have nc: "pl r \<noteq> AtCombiner t" "pl r \<noteq> InReply t" for r using D(4) [of r] p by (cases "pl r"; auto)+
  show "em_posted ?s' w = {r. (pl(t := Nowhere)) r = AtVictim w}" for w using D(1) pt by (auto simp: kaapi_request_post_def)
  show "em_lri ?s' u = {r. (pl(t := Nowhere)) r = AtCombiner u}" for u using D(2) pt by (auto simp: kaapi_request_post_def)
  show "em_lock ?s' w = Some u \<longleftrightarrow> holds (em_pc ?s' u) = Some w" for w u using D(3) p by (auto simp: kaapi_request_post_def)
  show "place_ok ?s' r ((pl(t := Nowhere)) r)" for r
    using place_ok_frame [OF D(4) [of r], of ?s' t "EPost v"] nc [of r] by (cases "r = t") (simp_all add: kaapi_request_post_def)
  show "pc_ok (pl(t := Nowhere)) ?s' u (em_pc ?s' u)" for u
  proof (cases "u = t")
    case False
    have "r \<noteq> t" if "em_pc s u = EReply w r x" for w r x using D(5) [of u] that pt by auto
    then have "pc_ok (pl(t := Nowhere)) ?s' u (em_pc s u)"
      using False pt by (intro pc_ok_frame [OF D(5) [of u]]) (auto simp: kaapi_request_post_def)
    then show ?thesis using False by (simp add: kaapi_request_post_def)
  qed (simp add: kaapi_request_post_def)
  show "n \<le> u \<Longrightarrow> em_pc ?s' u = EIdle" for u using D(6) t by (simp add: kaapi_request_post_def)
qed

lemma step_capture:
  assumes i: "emit_placed n pl s" and t: "t < n" and p: "em_pc s t = ECapture v k" and k: "k < 4"
  shows "emit_inv n (set_epc t (ECapture v (Suc k))
      (s\<lparr>em_lri := (em_lri s)(t := em_lri s t \<union> em_posted s v \<inter> bitmap_word k),
         em_posted := (em_posted s)(v := em_posted s v - bitmap_word k)\<rparr>))" (is "emit_inv n ?s'")
proof -
  let ?pl = "\<lambda>r. if pl r = AtVictim v \<and> r div 64 = k then AtCombiner t else pl r"
  note D = emit_placedD [OF i]
  show ?thesis
  proof (rule emit_placedI [where pl = ?pl])
    show "em_posted ?s' w = {r. ?pl r = AtVictim w}" for w using D(1) by (auto simp: bitmap_word_def)
    show "em_lri ?s' u = {r. ?pl r = AtCombiner u}" for u using D(1,2) by (auto simp: bitmap_word_def)
    show "em_lock ?s' w = Some u \<longleftrightarrow> holds (em_pc ?s' u) = Some w" for w u using D(3) p by auto
    show "place_ok ?s' r (?pl r)" for r
      using D(4) [of r] p by (cases "pl r"; cases "r = t") auto
    show "pc_ok ?pl ?s' u (em_pc ?s' u)" for u
    proof (cases "u = t")
      case True
      then show ?thesis using D(5) [of t] p k by auto
    next
      case False
      have "pl r = InReply u" if "em_pc s u = EReply w r x" for w r x using D(5) [of u] that by auto
      then have "pc_ok ?pl ?s' u (em_pc s u)"
        by (intro pc_ok_frame [OF D(5) [of u]]) (auto split: if_splits)
      then show ?thesis using False by simp
    qed
    show "n \<le> u \<Longrightarrow> em_pc ?s' u = EIdle" for u using D(6) t by simp
  qed
qed

lemma step_serve:
  assumes i: "emit_placed n pl s" and t: "t < n" and p: "em_pc s t = EServe v" and r: "r \<in> em_lri s t" and x: "x \<noteq> S_POSTED"
  shows "emit_inv n (set_epc t (EReply v r x)
      (s\<lparr>em_ptr := (em_ptr s)(r := False), em_lri := (em_lri s)(t := em_lri s t - {r})\<rparr>))" (is "emit_inv n ?s'")
proof (rule emit_placedI [where pl = "pl(r := InReply t)"])
  note D = emit_placedD [OF i]
  have pr: "pl r = AtCombiner t" using D(2) r by auto
  show "em_posted ?s' w = {q. (pl(r := InReply t)) q = AtVictim w}" for w using D(1) pr by auto
  show "em_lri ?s' u = {q. (pl(r := InReply t)) q = AtCombiner u}" for u using D(2) pr by auto
  show "em_lock ?s' w = Some u \<longleftrightarrow> holds (em_pc ?s' u) = Some w" for w u using D(3) p by auto
  show "place_ok ?s' q ((pl(r := InReply t)) q)" for q
  proof (cases "q = r")
    case True
    then show ?thesis using D(4) [of r] pr p by (cases "r = t") auto
  next
    case False
    then show ?thesis using D(4) [of q] p by (cases "pl q"; cases "q = t") auto
  qed
  show "pc_ok (pl(r := InReply t)) ?s' u (em_pc ?s' u)" for u
  proof (cases "u = t")
    case True
    then show ?thesis using D(5) [of t] p x by auto
  next
    case False
    have "q \<noteq> r" if "em_pc s u = EReply w q y" for w q y using D(5) [of u] that pr False by auto
    then have "pc_ok (pl(r := InReply t)) ?s' u (em_pc s u)"
      using pr by (intro pc_ok_frame [OF D(5) [of u]]) (auto split: if_splits)
    then show ?thesis using False by simp
  qed
  show "n \<le> u \<Longrightarrow> em_pc ?s' u = EIdle" for u using D(6) t by simp
qed

lemma step_reply:
  assumes i: "emit_placed n pl s" and t: "t < n" and p: "em_pc s t = EReply v r x"
  shows "emit_inv n (set_epc t (EServe v)
      (s\<lparr>em_status := (em_status s)(r := x), em_replies := (em_replies s)(r := em_replies s r + 1)\<rparr>))" (is "emit_inv n ?s'")
proof (rule emit_placedI [where pl = "pl(r := Answered)"])
  note D = emit_placedD [OF i]
  have pr: "pl r = InReply t" "x \<noteq> S_POSTED" "pl t \<noteq> AtVictim v" using D(5) [of t] p by auto
  show "em_posted ?s' w = {q. (pl(r := Answered)) q = AtVictim w}" for w using D(1) pr by auto
  show "em_lri ?s' u = {q. (pl(r := Answered)) q = AtCombiner u}" for u using D(2) pr by auto
  show "em_lock ?s' w = Some u \<longleftrightarrow> holds (em_pc ?s' u) = Some w" for w u using D(3) p by auto
  show "place_ok ?s' q ((pl(r := Answered)) q)" for q
  proof (cases "q = r")
    case True
    then show ?thesis using D(4) [of r] pr p by (cases "r = t") auto
  next
    case False
    then show ?thesis using D(4) [of q] p by (cases "pl q"; cases "q = t") auto
  qed
  show "pc_ok (pl(r := Answered)) ?s' u (em_pc ?s' u)" for u
  proof (cases "u = t")
    case True
    then show ?thesis using pr by auto
  next
    case False
    have "q \<noteq> r" if "em_pc s u = EReply w q y" for w q y using D(5) [of u] that pr False by auto
    moreover have "u \<noteq> r" if "em_pc s u = EDone y" for y using D(5) [of u] that pr by auto
    ultimately have "pc_ok (pl(r := Answered)) ?s' u (em_pc s u)"
      by (intro pc_ok_frame [OF D(5) [of u]]) (auto split: if_splits)
    then show ?thesis using False by simp
  qed
  show "n \<le> u \<Longrightarrow> em_pc ?s' u = EIdle" for u using D(6) t by simp
qed

text \<open>A combiner that has no request left has been answered itself.\<close>

lemma own_request_answered:
  assumes i: "emit_placed n pl s" and p: "em_pc s t = EServe v" and e: "em_lri s t = {}"
  shows "pl t = Answered"
proof -
  note D = emit_placedD [OF i]
  have one: "u = t" if "holds (em_pc s u) = Some v" for u using D(3) [of v u] D(3) [of v t] that p by auto
  show ?thesis
  proof (cases "pl t")
    case (InReply u)
    then obtain x where "em_pc s u = EReply v t x" using D(4) [of t] p by auto
    with one [of u] p show ?thesis by simp
  qed (use D(4) [of t] D(5) [of t] D(2) [of t] e p one in auto)
qed

lemma place_ok_self:
  assumes "place_ok s t p" "em_status s' t = em_status s t" "em_ptr s' t = em_ptr s t" "em_replies s' t = em_replies s t"
    "em_pc s' = (em_pc s)(t := q)" "victim_of q = victim_of (em_pc s t)" "victim_of q \<noteq> None"
    "p = AtCombiner t \<Longrightarrow> holds q = holds (em_pc s t) \<and> (\<forall>v. q \<noteq> EUnlock v)" "\<And>v r x. em_pc s t \<noteq> EReply v r x"
  shows "place_ok s' t p"
proof -
  have "p \<noteq> InReply t" using assms(1,9) by (metis place_ok.simps(4))
  moreover have "q \<noteq> EPost v" "q \<noteq> EDone x" for v x using assms(7) by auto
  ultimately show ?thesis using assms by (cases p) auto
qed

lemma emit_step_inv:
  assumes "emit_step n t s s'" and "t < n" and "n \<le> 256" and "emit_inv n s"
  shows "emit_inv n s'"
proof -
  obtain pl where i: "emit_placed n pl s" using assms(4) by (auto simp: emit_inv_def)
  note D = emit_placedD [OF i]
  note pc = step_pc [OF i assms(2)]
  note self = place_ok_self [OF D(4) [of t]]
  have at: "place_ok s t (pl t)" "pc_ok pl s t (em_pc s t)" by (rule D)+
  have nc: "pl r = AtCombiner t \<Longrightarrow> holds (em_pc s t) \<noteq> None" for r using D(4) [of r] by auto
  have ans: "pl t = Answered" if "em_status s t \<noteq> S_POSTED" "victim_of (em_pc s t) \<noteq> None"
    using D(4) [of t] that by (cases "pl t") auto
  show ?thesis
    using assms(1)
  proof cases
    case few
    then have "s' = s" by (simp add: set_epc_def fun_upd_idem)
    then show ?thesis using assms(4) by simp
  next
    case (select v)
    then show ?thesis using step_select [OF i assms(2)] by simp
  next
    case (post v)
    then show ?thesis using step_post [OF i assms(2)] by simp
  next
    case (lock v)
    have n: "pl r \<noteq> AtCombiner t" for r using nc [of r] lock by auto
    then have e: "em_lri s t = {}" using D(2) by auto
    have l: "em_lock s' w = Some u \<longleftrightarrow> holds (em_pc s' u) = Some w" for w u
      using lock D(3) [of w u] D(3) [of v u] by auto
    show ?thesis
    proof (rule pc [where s' = s' and q = "ECapture v 0"])
      show "place_ok s' t (pl t)" using lock n by (intro self [where q = "ECapture v 0"]) simp_all
    qed (use lock n e l in \<open>simp_all add: fun_upd_idem\<close>)
  next
    case (busy v)
    have n: "pl r \<noteq> AtCombiner t" for r using nc [of r] busy by auto
    show ?thesis
    proof (rule pc [where s' = s' and q = "ETest v"])
      show "place_ok s' t (pl t)" using busy n by (intro self [where q = "ETest v"]) simp_all
    qed (use busy n D(3) in simp_all)
  next
    case (test v)
    have n: "pl r \<noteq> AtCombiner t" for r using nc [of r] test by auto
    let ?q = "if kaapi_request_status_test (em_status s t) then EDone (em_status s t) else ELock v"
    show ?thesis
    proof (rule pc [where s' = s' and q = ?q])
      show "place_ok s' t (pl t)"
      proof (cases "em_status s t = S_POSTED")
        case True
        then show ?thesis using test n by (intro self [where q = "ELock v"]) (simp_all add: kaapi_request_status_test_def)
      next
        case False
        then show ?thesis using test ans at(1) by (simp add: kaapi_request_status_test_def)
      qed
      show "pc_ok pl s' t ?q" using test ans by (simp add: kaapi_request_status_test_def)
      show "em_lock s' w = Some u \<longleftrightarrow> holds (em_pc s' u) = Some w" for w u using test D(3) [of w u] by auto
    qed (use test n in simp_all)
  next
    case (capture v k)
    then show ?thesis using step_capture [OF i assms(2)] by simp
  next
    case (captured v)
    have w: "t div 64 < 4" using assms(2,3) by simp
    show ?thesis
    proof (rule pc [where s' = s' and q = "EServe v"])
      show "place_ok s' t (pl t)" using captured by (intro self [where q = "EServe v"]) simp_all
      show "pc_ok pl s' t (EServe v)" using at(2) captured w by auto
      show "em_lock s' w = Some u \<longleftrightarrow> holds (em_pc s' u) = Some w" for w u using captured D(3) [of w u] by auto
    qed (use captured in simp_all)
  next
    case (serve v r x)
    then show ?thesis using step_serve [OF i assms(2)] by auto
  next
    case (reply v r x)
    then show ?thesis using step_reply [OF i assms(2)] by simp
  next
    case (served v)
    have a: "pl t = Answered" using own_request_answered [OF i] served by simp
    have n: "pl r \<noteq> AtCombiner t" for r using D(2) [of t] served by auto
    show ?thesis
    proof (rule pc [where s' = s' and q = "EUnlock v"])
      show "place_ok s' t (pl t)" using served at(1) a by simp
      show "em_lock s' w = Some u \<longleftrightarrow> holds (em_pc s' u) = Some w" for w u using served D(3) [of w u] by auto
    qed (use served n a in simp_all)
  next
    case (unlock v)
    have n: "pl r \<noteq> AtCombiner t" for r using D(4) [of r] unlock by (cases "pl r") auto
    show ?thesis
    proof (rule pc [where s' = s' and q = "ECheck v"])
      show "place_ok s' t (pl t)" using unlock at by simp
      show "em_lock s' w = Some u \<longleftrightarrow> holds (em_pc s' u) = Some w" for w u
        using unlock D(3) [of w u] D(3) [of v u] D(3) [of v t] by auto
    qed (use unlock n at in simp_all)
  next
    case (check v)
    have c: "em_pc s t = ECheck v" using check at(2) by auto
    have n: "pl r \<noteq> AtCombiner t" for r using nc [of r] c by auto
    have a: "pl t = Answered" "kaapi_request_status_test (em_status s t)" using at c by (auto simp: kaapi_request_status_test_def)
    show ?thesis
    proof (rule pc [where s' = s' and q = "EDone (em_status s t)"])
      show "place_ok s' t (pl t)" using check a at(1) by simp
      show "em_lock s' w = Some u \<longleftrightarrow> holds (em_pc s' u) = Some w" for w u using check a c D(3) [of w u] by auto
    qed (use check n a c in simp_all)
  next
    case (cancel v)
    then show ?thesis using at by simp
  next
    case (next_emit x)
    have n: "pl r \<noteq> AtCombiner t" for r using nc [of r] next_emit by auto
    show ?thesis
    proof (rule pc [where s' = s' and q = EIdle])
      show "place_ok s' t (pl t)" using next_emit at by simp
      show "em_lock s' w = Some u \<longleftrightarrow> holds (em_pc s' u) = Some w" for w u using next_emit D(3) [of w u] by auto
    qed (use next_emit n in simp_all)
  qed
qed

end
