(* ===== verification/Emit_Props.thy ===== *)
theory Emit_Props
  imports Steal_Emit
begin

text \<open>
  What the emission of steal requests of \<open>Steal_Emit\<close> promises: every request is answered exactly once and by the
  combiner that holds the lock of its victim, a thief that was a combiner finds its own answer when it releases the
  lock, and from every reachable state all emissions can return.
\<close>

section \<open>Reachable states\<close>

lemma emit_reachable_inv:
  assumes "emit_reachable n s" and "n \<le> 256"
  shows "emit_inv n s"
proof -
  have "emit_inv n s" if "(emit_system n)\<^sup>*\<^sup>* (emit_start old) s" for old
    using that
  proof (induction rule: rtranclp_induct)
    case base
    show ?case by (rule emit_start_inv)
  next
    case (step y z)
    then show ?case using emit_step_inv [OF _ _ assms(2)] by (auto elim: emit_system.cases)
  qed
  then show ?thesis using assms(1) by (auto simp: emit_reachable_def)
qed

section \<open>Progress\<close>

fun emit_rank :: "emit_pc \<Rightarrow> nat" where
  "emit_rank (EPost _) = 20"
| "emit_rank (ELock _) = 12"
| "emit_rank (ETest _) = 13"
| "emit_rank (ECapture _ k) = 10 - k"
| "emit_rank (EServe _) = 4"
| "emit_rank (EReply _ _ _) = 4"
| "emit_rank (EUnlock _) = 3"
| "emit_rank (ECheck _) = 2"
| "emit_rank _ = 0"

definition request_rank :: "emit_state \<Rightarrow> nat \<Rightarrow> nat" where
  "request_rank s r = (if \<exists>v. r \<in> em_posted s v then 4 else if \<exists>u. r \<in> em_lri s u then 3
     else if \<exists>u. replying (em_pc s u) = Some r then 2 else 0)"

definition emit_load :: "nat \<Rightarrow> emit_state \<Rightarrow> nat" where
  "emit_load n s = (\<Sum>t<n. emit_rank (em_pc s t) + request_rank s t)"

definition returned :: "emit_pc \<Rightarrow> bool" where
  "returned p \<longleftrightarrow> p = EIdle \<or> (\<exists>x. p = EDone x)"

lemma emit_load_less:
  assumes "t < n" "em_pc s' = (em_pc s)(t := q)" "\<And>r. r \<noteq> t \<Longrightarrow> request_rank s' r \<le> request_rank s r"
    "emit_rank q + request_rank s' t < emit_rank (em_pc s t) + request_rank s t"
  shows "emit_load n s' < emit_load n s"
  unfolding emit_load_def
proof (rule sum_strict_mono_ex1)
  show "\<forall>r\<in>{..<n}. emit_rank (em_pc s' r) + request_rank s' r \<le> emit_rank (em_pc s r) + request_rank s r"
    using assms(2,3,4) by (auto simp: less_imp_le)
  show "\<exists>r\<in>{..<n}. emit_rank (em_pc s' r) + request_rank s' r < emit_rank (em_pc s r) + request_rank s r"
    using assms(1,2,4) by (intro bexI [of _ t]) auto
qed simp

text \<open>A step that moves no request decreases the load when it decreases the rank of the program counter.\<close>

lemma emit_load_pc:
  assumes "t < n" "em_pc s' = (em_pc s)(t := q)" "em_posted s' = em_posted s" "em_lri s' = em_lri s"
    "replying q = None" "replying (em_pc s t) = None" "emit_rank q < emit_rank (em_pc s t)"
  shows "emit_load n s' < emit_load n s"
proof -
  have "replying (em_pc s' u) = replying (em_pc s u)" for u using assms(2,5,6) by simp
  then have "request_rank s' r = request_rank s r" for r using assms(3,4) by (simp add: request_rank_def)
  then show ?thesis using assms(7) by (intro emit_load_less [OF assms(1,2)]) simp_all
qed

lemma emit_combiner_progress:
  assumes i: "emit_placed n pl s" and t: "t < n" and h: "holds (em_pc s t) \<noteq> None"
  shows "\<exists>s'. emit_step n t s s' \<and> emit_load n s' < emit_load n s"
proof -
  note D = emit_placedD [OF i]
  from h consider (cap) v k where "em_pc s t = ECapture v k" | (serve) v where "em_pc s t = EServe v"
    | (reply) v r x where "em_pc s t = EReply v r x" | (unlock) v where "em_pc s t = EUnlock v"
    by (cases "em_pc s t") auto
  then show ?thesis
  proof cases
    case (cap v k)
    show ?thesis
    proof (cases "k < 4")
      case True
      let ?s' = "set_epc t (ECapture v (Suc k)) (s\<lparr>em_lri := (em_lri s)(t := em_lri s t \<union> em_posted s v \<inter> bitmap_word k),
         em_posted := (em_posted s)(v := em_posted s v - bitmap_word k)\<rparr>)"
      have "replying (em_pc ?s' u) = replying (em_pc s u)" for u using cap by simp
      moreover have "r \<in> em_posted s v \<Longrightarrow> \<exists>w. r \<in> em_posted s w" for r v by blast
      ultimately have "request_rank ?s' r \<le> request_rank s r" for r by (auto simp: request_rank_def split: if_splits)
      moreover have "emit_rank (ECapture v (Suc k)) < emit_rank (em_pc s t)" using cap True by simp
      ultimately have "emit_load n ?s' < emit_load n s"
        by (intro emit_load_less [OF t, where q = "ECapture v (Suc k)"] add_less_le_mono) simp_all
      then show ?thesis using emit_step.capture [of s t v k n] cap True by auto
    next
      case False
      then have k: "k = 4" using D(5) [of t] cap by simp
      have "emit_load n (set_epc t (EServe v) s) < emit_load n s"
        using cap k by (intro emit_load_pc [OF t, where q = "EServe v"]) simp_all
      then show ?thesis using emit_step.captured [of s t v n] cap k by auto
    qed
  next
    case (serve v)
    show ?thesis
    proof (cases "em_lri s t = {}")
      case True
      have "emit_load n (set_epc t (EUnlock v) s) < emit_load n s"
        using serve by (intro emit_load_pc [OF t, where q = "EUnlock v"]) simp_all
      then show ?thesis using emit_step.served [of s t v n] serve True by auto
    next
      case False
      then obtain r where r: "r \<in> em_lri s t" by blast
      let ?s' = "set_epc t (EReply v r S_NOK) (s\<lparr>em_ptr := (em_ptr s)(r := False), em_lri := (em_lri s)(t := em_lri s t - {r})\<rparr>)"
      have pr: "pl r = AtCombiner t" using D(2) [of t] r by auto
      have n: "replying (em_pc s t) = None" using serve by simp
      have "em_posted ?s' w = em_posted s w" for w by simp
      moreover have "q \<noteq> r \<Longrightarrow> q \<in> em_lri ?s' u \<longleftrightarrow> q \<in> em_lri s u" "r \<notin> em_lri ?s' u" "r \<notin> em_posted s u" for u q
        using D(1,2) pr by auto
      moreover have "q \<noteq> r \<Longrightarrow> replying (em_pc ?s' u) = Some q \<longleftrightarrow> replying (em_pc s u) = Some q" for u q using n by auto
      ultimately have "q \<noteq> r \<Longrightarrow> request_rank ?s' q = request_rank s q" "request_rank ?s' r \<le> 2" "request_rank s r = 3" for q
        using r by (auto simp: request_rank_def)
      moreover then have "request_rank ?s' q \<le> request_rank s q" for q by (cases "q = r") auto
      moreover have "r < n" using D(4) [of r] D(6) [of r] pr by (cases "r < n") auto
      ultimately have "emit_load n ?s' < emit_load n s"
        unfolding emit_load_def using serve
        by (intro sum_strict_mono_ex1) (auto intro!: bexI [of _ r])
      then show ?thesis using emit_step.serve [of s t v r S_NOK n] serve r by auto
    qed
  next
    case (reply v r x)
    let ?s' = "set_epc t (EServe v) (s\<lparr>em_status := (em_status s)(r := x), em_replies := (em_replies s)(r := em_replies s r + 1)\<rparr>)"
    have pr: "pl r = InReply t" using D(5) [of t] reply by simp
    have one: "u = t" if "replying (em_pc s u) = Some r" for u
      using that D(5) [of u] pr by (cases "em_pc s u") auto
    have "q \<noteq> r \<Longrightarrow> replying (em_pc ?s' u) = Some q \<longleftrightarrow> replying (em_pc s u) = Some q" "replying (em_pc ?s' u) \<noteq> Some r" for u q
      using reply one by auto
    moreover have "r \<notin> em_posted s u" "r \<notin> em_lri s u" for u using D(1,2) pr by auto
    moreover have "replying (em_pc s t) = Some r" using reply by simp
    ultimately have "q \<noteq> r \<Longrightarrow> request_rank ?s' q = request_rank s q" "request_rank ?s' r = 0" "request_rank s r = 2" for q
      by (auto simp: request_rank_def)
    moreover then have "request_rank ?s' q \<le> request_rank s q" for q by (cases "q = r") auto
    moreover have "r < n" using D(4) [of r] D(6) [of r] pr by (cases "r < n") auto
    ultimately have "emit_load n ?s' < emit_load n s"
      unfolding emit_load_def using reply by (intro sum_strict_mono_ex1) (auto intro!: bexI [of _ r])
    then show ?thesis using emit_step.reply [of s t v r x n] reply by auto
  next
    case (unlock v)
    have "emit_load n (set_epc t (ECheck v) (s\<lparr>em_lock := (em_lock s)(v := None)\<rparr>)) < emit_load n s"
      using unlock by (intro emit_load_pc [OF t, where q = "ECheck v"]) simp_all
    then show ?thesis using emit_step.unlock [of s t v n] unlock by auto
  qed
qed

lemma emit_progress:
  assumes "emit_inv n s" and "t < n" and "\<not> returned (em_pc s t)"
  shows "\<exists>s'. emit_system n s s' \<and> emit_load n s' < emit_load n s"
proof -
  obtain pl where i: "emit_placed n pl s" using assms(1) by (auto simp: emit_inv_def)
  note D = emit_placedD [OF i]
  show ?thesis
  proof (cases "\<exists>u. holds (em_pc s u) \<noteq> None")
    case True
    then obtain u where u: "holds (em_pc s u) \<noteq> None" by blast
    have "u < n" using D(6) [of u] u by (cases "u < n") auto
    then show ?thesis using emit_combiner_progress [OF i _ u] by (auto intro: emit_system.intros)
  next
    case False
    have free: "em_lock s v = None" for v using D(3) [of v] False by (cases "em_lock s v") force+
    have hn: "holds (em_pc s t) = None" using False by blast
    have "\<exists>s'. emit_step n t s s' \<and> emit_load n s' < emit_load n s"
    proof (cases "em_pc s t")
      case (EPost v)
      let ?s' = "set_epc t (ELock v) (s\<lparr>em_posted := (em_posted s)(v := insert t (em_posted s v))\<rparr>)"
      have "replying (em_pc ?s' u) = replying (em_pc s u)" for u using EPost by simp
      then have "r \<noteq> t \<Longrightarrow> request_rank ?s' r = request_rank s r" "request_rank ?s' t \<le> 4" for r
        by (auto simp: request_rank_def)
      then have "emit_load n ?s' < emit_load n s" using EPost by (intro emit_load_less [OF assms(2), where q = "ELock v"]) auto
      then show ?thesis using emit_step.post [of s t v n] EPost by auto
    next
      case (ELock v)
      have "pl r \<noteq> AtCombiner t" for r using D(4) [of r] ELock by (cases "pl r") auto
      then have "em_lri s t = {}" using D(2) by auto
      then have "emit_load n (set_epc t (ECapture v 0) (s\<lparr>em_lock := (em_lock s)(v := Some t), em_lri := (em_lri s)(t := {})\<rparr>)) < emit_load n s"
        using ELock by (intro emit_load_pc [OF assms(2), where q = "ECapture v 0"]) (simp_all add: fun_upd_idem)
      then show ?thesis using emit_step.lock [of s t v n] ELock free by auto
    next
      case (ETest v)
      let ?q = "if kaapi_request_status_test (em_status s t) then EDone (em_status s t) else ELock v"
      have "emit_load n (set_epc t ?q s) < emit_load n s"
        using ETest by (intro emit_load_pc [OF assms(2), where q = ?q]) simp_all
      then show ?thesis using emit_step.test [of s t v n] ETest by blast
    next
      case (ECheck v)
      then have "em_status s t \<noteq> S_POSTED" using D(4) [of t] D(5) [of t] by simp
      moreover have "emit_load n (set_epc t (EDone (em_status s t)) s) < emit_load n s"
        using ECheck by (intro emit_load_pc [OF assms(2), where q = "EDone (em_status s t)"]) simp_all
      ultimately show ?thesis using emit_step.check [of s t v n] ECheck by (auto simp: kaapi_request_status_test_def)
    qed (use hn D(5) [of t] assms(3) in \<open>simp_all add: returned_def\<close>)
    then show ?thesis using assms(2) by (auto intro: emit_system.intros)
  qed
qed

lemma emissions_return:
  assumes "emit_inv n s" and "n \<le> 256"
  shows "\<exists>s'. (emit_system n)\<^sup>*\<^sup>* s s' \<and> emit_inv n s' \<and> (\<forall>t<n. returned (em_pc s' t))"
  using assms(1)
proof (induction "emit_load n s" arbitrary: s rule: less_induct)
  case less
  show ?case
  proof (cases "\<forall>t<n. returned (em_pc s t)")
    case False
    then obtain s1 where s1: "emit_system n s s1" "emit_load n s1 < emit_load n s"
      using emit_progress [OF less.prems] by blast
    have "emit_inv n s1" using s1(1) emit_step_inv [OF _ _ assms(2) less.prems] by (auto elim: emit_system.cases)
    then show ?thesis using less.hyps [OF s1(2)] s1(1) by (meson converse_rtranclp_into_rtranclp)
  qed (use less.prems in blast)
qed

section \<open>Properties\<close>

text \<open>C6: In every reachable state of at most 256 processors that emit steal requests, a request is answered at most
  once per emission; when an emission returns it has been answered exactly once, with the value returned, and its
  request is neither posted nor held by a combiner; a combiner only answers requests whose thief still waits at the
  same victim, through a pointer that is set.\<close>

theorem steal_request_answered_once:
  assumes "emit_reachable n s" and "n \<le> 256"
  shows "(em_pc s t = EDone x \<longrightarrow> em_replies s t = 1 \<and> em_status s t = x \<and> kaapi_request_status_test x
        \<and> (\<forall>v. t \<notin> em_posted s v) \<and> (\<forall>u. t \<notin> em_lri s u))
    \<and> (em_pc s u = EServe v \<and> r \<in> em_lri s u \<longrightarrow>
        em_ptr s r \<and> em_status s r = S_POSTED \<and> em_replies s r = 0 \<and> victim_of (em_pc s r) = Some v)
    \<and> (em_pc s u = EReply v r y \<longrightarrow>
        em_status s r = S_POSTED \<and> em_replies s r = 0 \<and> victim_of (em_pc s r) = Some v)"
proof -
  obtain pl where i: "emit_placed n pl s" using emit_reachable_inv [OF assms] by (auto simp: emit_inv_def)
  note D = emit_placedD [OF i]
  have "em_replies s t = 1 \<and> em_status s t = x \<and> kaapi_request_status_test x
        \<and> (\<forall>v. t \<notin> em_posted s v) \<and> (\<forall>u. t \<notin> em_lri s u)" if "em_pc s t = EDone x"
    using D(1,2) D(4) [of t] D(5) [of t] that by (auto simp: kaapi_request_status_test_def)
  moreover have "em_ptr s r \<and> em_status s r = S_POSTED \<and> em_replies s r = 0 \<and> victim_of (em_pc s r) = Some v"
    if "em_pc s u = EServe v" "r \<in> em_lri s u"
    using D(2) [of u] D(4) [of r] that by auto
  moreover have "em_status s r = S_POSTED \<and> em_replies s r = 0 \<and> victim_of (em_pc s r) = Some v"
    if "em_pc s u = EReply v r y"
    using D(4) [of r] D(5) [of u] that by auto
  ultimately show ?thesis by blast
qed

text \<open>C16: A thief that became the combiner of its victim has been answered when it releases the lock: the loop that
  waits for the reply, with its cancellation of the request at the end of the program, is never entered; and no two
  processors are combiners of the same victim.\<close>

theorem combiner_finds_own_reply:
  assumes "emit_reachable n s" and "n \<le> 256"
  shows "(em_pc s t = EUnlock v \<or> em_pc s t = ECheck v \<longrightarrow> kaapi_request_status_test (em_status s t))
    \<and> em_pc s t \<noteq> EWait v
    \<and> (holds (em_pc s t) = Some v \<and> holds (em_pc s u) = Some v \<longrightarrow> t = u)"
proof -
  obtain pl where i: "emit_placed n pl s" using emit_reachable_inv [OF assms] by (auto simp: emit_inv_def)
  note D = emit_placedD [OF i]
  show ?thesis
    using D(4) [of t] D(5) [of t] D(3) [of v t] D(3) [of v u] by (auto simp: kaapi_request_status_test_def)
qed

text \<open>C13: From every reachable state some execution lets all emissions return: no request is left without a combiner
  and no thief waits for ever.\<close>

theorem steal_emissions_can_return:
  assumes "emit_reachable n s" and "n \<le> 256"
  shows "\<exists>s'. (emit_system n)\<^sup>*\<^sup>* s s' \<and> (\<forall>t<n. returned (em_pc s' t))"
  using emissions_return [OF emit_reachable_inv [OF assms] assms(2)] by blast

section \<open>Witnesses\<close>

text \<open>Two processors: the first one has posted a request to the second one.\<close>

lemma one_posted:
  "\<exists>s. emit_reachable 2 s \<and> em_pc s 0 = ELock 1"
proof -
  let ?s0 = "emit_start (\<lambda>_. S_OK)"
  let ?s1 = "set_epc 0 (EPost 1) (kaapi_request_post 0 ?s0)"
  let ?s2 = "set_epc 0 (ELock 1) (?s1\<lparr>em_posted := (em_posted ?s1)(1 := insert 0 (em_posted ?s1 1))\<rparr>)"
  have "emit_step 2 0 ?s0 ?s1" by (rule emit_step.select) (simp_all add: emit_start_def)
  moreover have "emit_step 2 0 ?s1 ?s2" by (rule emit_step.post) simp
  ultimately have "(emit_system 2)\<^sup>*\<^sup>* ?s0 ?s2"
    by (meson emit_system.intros zero_less_numeral r_into_rtranclp rtranclp.rtrancl_into_rtrancl)
  then show ?thesis by (intro exI [of _ ?s2]) (auto simp: emit_reachable_def)
qed

text \<open>The first processor then runs until its emission returns.\<close>

lemma one_returned:
  obtains s where "emit_reachable 2 s" and "em_pc s 0 = EDone S_NOK"
proof -
  let ?E = "emit_system 2"
  have I: "?E\<^sup>*\<^sup>* a c" if "?E\<^sup>*\<^sup>* a b" "emit_step 2 0 b c" for a b c
    using that by (meson emit_system.intros zero_less_numeral rtranclp.rtrancl_into_rtrancl)
  define s0 where "s0 = emit_start (\<lambda>_. S_OK)"
  define s1 where "s1 = set_epc 0 (EPost 1) (kaapi_request_post 0 s0)"
  define s2 where "s2 = set_epc 0 (ELock 1) (s1\<lparr>em_posted := (em_posted s1)(1 := insert 0 (em_posted s1 1))\<rparr>)"
  define s3 where "s3 = set_epc 0 (ECapture 1 0) (s2\<lparr>em_lock := (em_lock s2)(1 := Some 0), em_lri := (em_lri s2)(0 := {})\<rparr>)"
  define cap where "cap k s = set_epc 0 (ECapture 1 (Suc k)) (s\<lparr>em_lri := (em_lri s)(0 := em_lri s 0 \<union> em_posted s 1 \<inter> bitmap_word k),
         em_posted := (em_posted s)(1 := em_posted s 1 - bitmap_word k)\<rparr>)" for k s
  define s4 where "s4 = set_epc 0 (EServe 1) (cap 3 (cap 2 (cap 1 (cap 0 s3))))"
  define s5 where "s5 = set_epc 0 (EReply 1 0 S_NOK) (s4\<lparr>em_ptr := (em_ptr s4)(0 := False), em_lri := (em_lri s4)(0 := em_lri s4 0 - {0})\<rparr>)"
  define s6 where "s6 = set_epc 0 (EServe 1) (s5\<lparr>em_status := (em_status s5)(0 := S_NOK), em_replies := (em_replies s5)(0 := em_replies s5 0 + 1)\<rparr>)"
  define s7 where "s7 = set_epc 0 (ECheck 1) ((set_epc 0 (EUnlock 1) s6)\<lparr>em_lock := (em_lock s6)(1 := None)\<rparr>)"
  define s8 where "s8 = set_epc 0 (if kaapi_request_status_test (em_status s7 0) then EDone (em_status s7 0) else EWait 1) s7"
  have s1: "em_pc s1 0 = EPost 1" "em_posted s1 = (\<lambda>_. {})" "em_lock s1 = (\<lambda>_. None)" "em_lri s1 = (\<lambda>_. {})"
    by (simp_all add: s1_def s0_def kaapi_request_post_def emit_start_def)
  have c: "em_pc (cap k s) 0 = ECapture 1 (Suc k)" "em_lri (cap k s) 0 = em_lri s 0 \<union> em_posted s 1 \<inter> bitmap_word k"
    "em_posted (cap k s) 1 = em_posted s 1 - bitmap_word k" for k s by (simp_all add: cap_def)
  have s3: "em_pc s3 0 = ECapture 1 0" "em_lri s3 0 = {}" "em_posted s3 1 = {0}" by (simp_all add: s3_def s2_def s1)
  have l4: "em_lri s4 0 = {0}" by (simp add: s4_def c s3 del: One_nat_def) (auto simp: bitmap_word_def)
  have l6: "em_lri s6 0 = {}" by (simp add: s6_def s5_def l4)
  have "?E\<^sup>*\<^sup>* s0 s1"
    by (rule I [OF rtranclp.rtrancl_refl]) (unfold s1_def, rule emit_step.select, simp_all add: s0_def emit_start_def)
  then have "?E\<^sup>*\<^sup>* s0 s2" by (rule I) (unfold s2_def, rule emit_step.post, rule s1)
  then have "?E\<^sup>*\<^sup>* s0 s3" by (rule I) (unfold s3_def, rule emit_step.lock, simp_all add: s2_def s1)
  then have "?E\<^sup>*\<^sup>* s0 (cap 0 s3)" by (rule I) (unfold cap_def, rule emit_step.capture, simp_all add: s3)
  then have "?E\<^sup>*\<^sup>* s0 (cap 1 (cap 0 s3))"
    by (rule I) (unfold cap_def [of 1], rule emit_step.capture, simp_all add: c)
  then have "?E\<^sup>*\<^sup>* s0 (cap 2 (cap 1 (cap 0 s3)))"
    by (rule I) (unfold cap_def [of 2], rule emit_step.capture, simp_all add: c)
  then have "?E\<^sup>*\<^sup>* s0 (cap 3 (cap 2 (cap 1 (cap 0 s3))))"
    by (rule I) (unfold cap_def [of 3], rule emit_step.capture, simp_all add: c)
  then have "?E\<^sup>*\<^sup>* s0 s4" by (rule I) (unfold s4_def, rule emit_step.captured, simp add: c)
  then have "?E\<^sup>*\<^sup>* s0 s5" by (rule I) (unfold s5_def, rule emit_step.serve, simp_all add: l4, simp add: s4_def)
  then have "?E\<^sup>*\<^sup>* s0 s6" by (rule I) (unfold s6_def, rule emit_step.reply, simp add: s5_def)
  then have "?E\<^sup>*\<^sup>* s0 (set_epc 0 (EUnlock 1) s6)" by (rule I) (rule emit_step.served, simp_all add: l6, simp add: s6_def)
  then have "?E\<^sup>*\<^sup>* s0 s7" by (rule I) (unfold s7_def, use emit_step.unlock [of "set_epc 0 (EUnlock 1) s6" 0 1 2] in simp)
  then have "?E\<^sup>*\<^sup>* s0 s8" by (rule I) (unfold s8_def, rule emit_step.check, simp add: s7_def)
  moreover have "em_pc s8 0 = EDone S_NOK" by (simp add: s8_def s7_def s6_def kaapi_request_status_test_def)
  ultimately show ?thesis using that by (auto simp: emit_reachable_def s0_def)
qed

theorem steal_request_answered_once_witness:
  "\<exists>s. emit_reachable 2 s \<and> em_pc s 0 = EDone S_NOK \<and> em_replies s 0 = 1"
proof -
  obtain s where s: "emit_reachable 2 s" "em_pc s 0 = EDone S_NOK" by (rule one_returned)
  show ?thesis using s steal_request_answered_once [OF s(1), of 0 S_NOK] by (intro exI [of _ s]) simp
qed

theorem combiner_finds_own_reply_witness:
  "\<exists>s. emit_reachable 2 s \<and> em_pc s 0 = EDone S_NOK \<and> em_pc s 1 \<noteq> EWait 0"
proof -
  obtain s where s: "emit_reachable 2 s" "em_pc s 0 = EDone S_NOK" by (rule one_returned)
  show ?thesis using s combiner_finds_own_reply [OF s(1), of 1 0] by (intro exI [of _ s]) simp
qed

theorem steal_emissions_can_return_witness:
  "\<exists>s s'. emit_reachable 2 s \<and> em_pc s 0 = ELock 1 \<and> (emit_system 2)\<^sup>*\<^sup>* s s' \<and> (\<forall>t<2. returned (em_pc s' t))"
proof -
  obtain s where s: "emit_reachable 2 s" "em_pc s 0 = ELock 1" using one_posted by blast
  show ?thesis using s steal_emissions_can_return [OF s(1)] by fastforce
qed

end
