(* ===== verification/Exec_Frame.thy ===== *)
theory Exec_Frame
  imports Task_State
begin

text \<open>
  The execution of the tasks of a stack by its owner: \<^verbatim>\<open>kaapi_stack_execframe\<close>
  (\<^verbatim>\<open>src/src/thread/kaapi_thread_execframe.c\<close>, with the pop of frames compiled by default) and the
  synchronisation \<^verbatim>\<open>kaapi_sched_sync_\<close> (\<^verbatim>\<open>src/src/workstealing/kaapi_sched_sync.c\<close>) on a frame without a task
  list, with the stack operations they use (\<^verbatim>\<open>kaapi.h\<close>, \<^verbatim>\<open>kaapi_task.h\<close>, \<^verbatim>\<open>kaapi_impl.h\<close>).  The stack of tasks
  grows down in memory; here a task is named by its distance from the bottom of the stack, so that a push
  increments \<^verbatim>\<open>sp\<close>.  A task is known by its number and by the tasks its body pushes.  What the thieves do is given
  by \<open>env\<close>: the state that the \<open>k\<close>-th \<^verbatim>\<open>kaapi_task_markexec\<close> of the run returns, and the value of the
  \<^verbatim>\<open>__kaapi_try_preempt\<close> that follows (\<open>Steal_Protocol\<close> models both with their interleaving).
\<close>

section \<open>Frames and tasks\<close>

datatype stask = STask (st_id: nat) (st_pushes: "stask list")

datatype action = Ran nat | Merged nat

record kaapi_frame =
  f_pc :: nat
  f_sp :: nat
  f_data :: nat

record kaapi_stack =
  ks_sfp :: nat
  ks_esfp :: nat
  ks_frame :: "nat \<Rightarrow> kaapi_frame"
  ks_task :: nat
  ks_data :: nat
  ks_thieffp :: nat
  ks_mem :: "nat \<Rightarrow> stask"
  ks_now :: nat
  ks_log :: "action list"

definition upd_frame :: "nat \<Rightarrow> (kaapi_frame \<Rightarrow> kaapi_frame) \<Rightarrow> kaapi_stack \<Rightarrow> kaapi_stack" where
  "upd_frame i f s = s\<lparr>ks_frame := (ks_frame s)(i := f (ks_frame s i))\<rparr>"

definition kaapi_frame_isempty :: "kaapi_frame \<Rightarrow> bool" where
  "kaapi_frame_isempty f \<longleftrightarrow> f_sp f \<le> f_pc f"

definition kaapi_stack_init :: "nat \<Rightarrow> nat \<Rightarrow> nat \<Rightarrow> kaapi_stack \<Rightarrow> kaapi_stack" where
  "kaapi_stack_init stackframe stacktask stackdata s =
     (upd_frame stackframe (\<lambda>f. f\<lparr>f_sp := stacktask, f_pc := stacktask, f_data := stackdata\<rparr>) s)
       \<lparr>ks_sfp := stackframe, ks_esfp := stackframe, ks_thieffp := 0, ks_task := stacktask, ks_data := stackdata\<rparr>"

text \<open>The frame 0 is \<^verbatim>\<open>stackframe\<close>.\<close>

definition kaapi_stack_reset :: "kaapi_stack \<Rightarrow> kaapi_stack" where
  "kaapi_stack_reset s =
     (upd_frame 0 (\<lambda>f. f\<lparr>f_sp := ks_task s, f_pc := ks_task s, f_data := ks_data s\<rparr>) s)\<lparr>ks_sfp := 0, ks_esfp := 0\<rparr>"

definition kaapi_stack_clear :: "kaapi_stack \<Rightarrow> kaapi_stack" where
  "kaapi_stack_clear s = (kaapi_stack_reset s)\<lparr>ks_thieffp := 0\<rparr>"

definition kaapi_push_frame :: "kaapi_stack \<Rightarrow> kaapi_stack" where
  "kaapi_push_frame s =
     (let fp = ks_sfp s; f = ks_frame s fp
      in (upd_frame (Suc fp) (\<lambda>g. g\<lparr>f_pc := f_sp f, f_sp := f_sp f, f_data := f_data f\<rparr>) s)\<lparr>ks_sfp := Suc fp\<rparr>)"

definition kaapi_pop_frame :: "kaapi_stack \<Rightarrow> kaapi_stack" where
  "kaapi_pop_frame s = s\<lparr>ks_sfp := ks_sfp s - 1\<rparr>"

text \<open>Pushing tasks on the frame \<open>fp\<close>: the task is written at \<^verbatim>\<open>kaapi_thread_toptask\<close>, then
  \<^verbatim>\<open>kaapi_thread_pushtask\<close> moves the top.\<close>

definition kaapi_thread_toptask :: "nat \<Rightarrow> kaapi_stack \<Rightarrow> nat" where
  "kaapi_thread_toptask fp s = f_sp (ks_frame s fp)"

definition kaapi_thread_pushtask :: "nat \<Rightarrow> kaapi_stack \<Rightarrow> kaapi_stack" where
  "kaapi_thread_pushtask fp s = upd_frame fp (\<lambda>f. f\<lparr>f_sp := Suc (f_sp f)\<rparr>) s"

definition push_one :: "nat \<Rightarrow> stask \<Rightarrow> kaapi_stack \<Rightarrow> kaapi_stack" where
  "push_one fp t s =
     kaapi_thread_pushtask fp (s\<lparr>ks_mem := (ks_mem s)(kaapi_thread_toptask fp s := t)\<rparr>)"

definition log_action :: "action \<Rightarrow> kaapi_stack \<Rightarrow> kaapi_stack" where
  "log_action a s = s\<lparr>ks_log := ks_log s @ [a]\<rparr>"

definition run_body :: "nat \<Rightarrow> stask \<Rightarrow> kaapi_stack \<Rightarrow> kaapi_stack" where
  "run_body fp t s = fold (push_one fp) (st_pushes t) (log_action (Ran (st_id t)) s)"

section \<open>The execution loop\<close>

text \<open>The places of the code: the label \<^verbatim>\<open>push_frame\<close>, the head of the loop over the tasks, the loop that pops
  frames (\<open>b\<close>: at least one was popped), the end.\<close>

datatype exec_label = LPush nat | LTask nat nat nat | LPop nat bool | LRet errno

definition set_fpc :: "nat \<Rightarrow> nat \<Rightarrow> kaapi_stack \<Rightarrow> kaapi_stack" where
  "set_fpc fp pc s = upd_frame fp (\<lambda>f. f\<lparr>f_pc := pc\<rparr>) s"

definition push_label :: "nat \<Rightarrow> kaapi_stack \<Rightarrow> kaapi_stack \<times> exec_label" where
  "push_label fp s =
     (let f = ks_frame s fp
      in ((upd_frame (Suc fp) (\<lambda>g. g\<lparr>f_pc := f_sp f, f_sp := f_sp f, f_data := f_data f\<rparr>) s)\<lparr>ks_sfp := Suc fp\<rparr>,
          LTask (Suc fp) (f_pc f) (f_sp f)))"

text \<open>After a task: its new tasks, if it has pushed any, then the next task.\<close>

definition after_task :: "nat \<Rightarrow> nat \<Rightarrow> nat \<Rightarrow> kaapi_stack \<Rightarrow> kaapi_stack \<times> exec_label" where
  "after_task fp pc sp s =
     (set_fpc (fp - 1) pc s, if sp < f_sp (ks_frame s fp) then LPush fp else LTask fp (Suc pc) sp)"

text \<open>What becomes of a task that \<^verbatim>\<open>kaapi_task_markexec\<close> did not give to the owner.\<close>

datatype outcome = Skip | Merge | Block | Redo

definition steal_outcome :: "uint8 \<Rightarrow> errno \<Rightarrow> outcome" where
  "steal_outcome state retval =
     (if state AND KAAPI_TASK_STATE_TERM \<noteq> 0 then Skip
      else if state AND KAAPI_TASK_STATE_MERGE \<noteq> 0 then Merge
      else if state AND KAAPI_TASK_STATE_STEAL \<noteq> 0
      then (if retval = EWOULDBLOCK then Block else if retval = EINTR then Redo
            else if retval = ENOEXEC then Merge else Skip)
      else Skip)"

definition exec_task :: "(nat \<Rightarrow> uint8 \<times> errno) \<Rightarrow> nat \<Rightarrow> nat \<Rightarrow> nat \<Rightarrow> kaapi_stack \<Rightarrow> kaapi_stack \<times> exec_label" where
  "exec_task env fp pc sp s =
     (case env (ks_now s) of
        (state, retval) \<Rightarrow>
          let s = s\<lparr>ks_now := Suc (ks_now s)\<rparr>; task = ks_mem s pc
          in if state = 0 then after_task fp pc sp (run_body fp task s)
             else if steal_outcome state retval = Block
             then ((set_fpc (fp - 1) pc s)\<lparr>ks_sfp := fp - 1\<rparr>, LRet EWOULDBLOCK)
             else if steal_outcome state retval = Redo then (s, LTask fp pc sp)
             else (let s = (if steal_outcome state retval = Merge then log_action (Merged (st_id task)) s else s)
                   in if state AND KAAPI_TASK_STATE_SIGNALED \<noteq> 0 then (s, LTask fp (Suc pc) sp)
                      else after_task fp pc sp s))"

definition task_label :: "(nat \<Rightarrow> uint8 \<times> errno) \<Rightarrow> nat \<Rightarrow> nat \<Rightarrow> nat \<Rightarrow> kaapi_stack \<Rightarrow> kaapi_stack \<times> exec_label" where
  "task_label env fp pc sp s =
     (if pc \<noteq> sp then exec_task env fp pc sp s else (set_fpc (fp - 1) pc s, LPop (fp - 1) False))"

definition pop_label :: "nat \<Rightarrow> nat \<Rightarrow> bool \<Rightarrow> kaapi_stack \<Rightarrow> kaapi_stack \<times> exec_label" where
  "pop_label eframe fp b s =
     (if eframe < fp
      then (let fp = fp - 1; pc = Suc (f_pc (ks_frame s fp)); s = set_fpc fp pc s
            in if pc < f_sp (ks_frame s fp) then (s\<lparr>ks_sfp := fp\<rparr>, LPush fp) else (s, LPop fp True))
      else ((if b then upd_frame fp (\<lambda>f. f\<lparr>f_sp := f_pc f\<rparr>) s else s)\<lparr>ks_sfp := fp\<rparr>, LRet OK))"

fun exec_label_step :: "(nat \<Rightarrow> uint8 \<times> errno) \<Rightarrow> nat \<Rightarrow> exec_label \<Rightarrow> kaapi_stack \<Rightarrow> kaapi_stack \<times> exec_label" where
  "exec_label_step env eframe (LPush fp) s = push_label fp s"
| "exec_label_step env eframe (LTask fp pc sp) s = task_label env fp pc sp s"
| "exec_label_step env eframe (LPop fp b) s = pop_label eframe fp b s"
| "exec_label_step env eframe (LRet e) s = (s, LRet e)"

text \<open>\<open>None\<close>: the loop does not end within \<open>fuel\<close> steps.\<close>

fun exec_from :: "nat \<Rightarrow> (nat \<Rightarrow> uint8 \<times> errno) \<Rightarrow> nat \<Rightarrow> exec_label \<Rightarrow> kaapi_stack \<Rightarrow> (errno \<times> kaapi_stack) option" where
  "exec_from fuel env eframe (LRet e) s = Some (e, s)"
| "exec_from 0 env eframe l s = None"
| "exec_from (Suc fuel) env eframe l s = (case exec_label_step env eframe l s of (s, l) \<Rightarrow> exec_from fuel env eframe l s)"

definition kaapi_stack_execframe :: "nat \<Rightarrow> (nat \<Rightarrow> uint8 \<times> errno) \<Rightarrow> kaapi_stack \<Rightarrow> (errno \<times> kaapi_stack) option" where
  "kaapi_stack_execframe fuel env s = exec_from fuel env (ks_esfp s) (LPush (ks_sfp s)) s"

text \<open>\<^verbatim>\<open>kaapi_sched_suspend\<close> returns when the stolen task has ended; the loop of \<^verbatim>\<open>redo\<close> is bounded by \<open>n\<close>.\<close>

fun sync_redo :: "nat \<Rightarrow> nat \<Rightarrow> (nat \<Rightarrow> uint8 \<times> errno) \<Rightarrow> kaapi_stack \<Rightarrow> (errno \<times> kaapi_stack) option" where
  "sync_redo 0 fuel env s = None"
| "sync_redo (Suc n) fuel env s =
     (case kaapi_stack_execframe fuel env s of
        None \<Rightarrow> None
      | Some (err, s) \<Rightarrow> if err = EWOULDBLOCK then sync_redo n fuel env s else Some (err, s))"

definition kaapi_sched_sync :: "nat \<Rightarrow> nat \<Rightarrow> (nat \<Rightarrow> uint8 \<times> errno) \<Rightarrow> kaapi_stack \<Rightarrow> (errno \<times> kaapi_stack) option" where
  "kaapi_sched_sync n fuel env s =
     (if kaapi_frame_isempty (ks_frame s (ks_sfp s)) then Some (OK, s)
      else (let savepc = f_pc (ks_frame s (ks_sfp s)); save_esfp = ks_esfp s
            in map_option (\<lambda>(err, s).
                 if err \<noteq> OK then (err, s)
                 else (err, (upd_frame (ks_sfp s) (\<lambda>f. f\<lparr>f_sp := savepc, f_pc := savepc\<rparr>) s)\<lparr>ks_esfp := save_esfp\<rparr>))
               (sync_redo n fuel env (s\<lparr>ks_esfp := ks_sfp s\<rparr>))))"

section \<open>The abstract execution\<close>

text \<open>A list of tasks to do: a task that runs puts the tasks it pushes in front.  The results: the time, the actions,
  the tasks left, the return code.\<close>

function run_tasks :: "(nat \<Rightarrow> uint8 \<times> errno) \<Rightarrow> nat \<Rightarrow> stask list \<Rightarrow> nat \<times> action list \<times> stask list \<times> errno" where
  "run_tasks env n [] = (n, [], [], OK)"
| "run_tasks env n (t # ts) =
     (if fst (env n) = 0
      then (case run_tasks env (Suc n) (st_pushes t @ ts) of (m, l, r, e) \<Rightarrow> (m, Ran (st_id t) # l, r, e))
      else case steal_outcome (fst (env n)) (snd (env n)) of
        Skip \<Rightarrow> run_tasks env (Suc n) ts
      | Merge \<Rightarrow> (case run_tasks env (Suc n) ts of (m, l, r, e) \<Rightarrow> (m, Merged (st_id t) # l, r, e))
      | Block \<Rightarrow> (Suc n, [], t # ts, EWOULDBLOCK)
      | Redo \<Rightarrow> (Suc n, [], t # ts, EINTR))"
  by pat_completeness auto
termination
proof (relation "measure (\<lambda>(env, n, ts). size_list size ts)")
  fix env :: "nat \<Rightarrow> uint8 \<times> errno" and n t ts
  show "((env, Suc n, st_pushes t @ ts), env, n, t # ts) \<in> measure (\<lambda>(env, n, ts). size_list size ts)"
    by (cases t) (simp add: size_list_append)
qed auto

text \<open>Depth first: a task, then the tasks it pushes with what they push, then its next sibling.\<close>

fun preorder_task :: "stask \<Rightarrow> nat list" where
  "preorder_task (STask i cs) = i # concat (map preorder_task cs)"

definition preorder :: "stask list \<Rightarrow> nat list" where
  "preorder ts = concat (map preorder_task ts)"

section \<open>Stacks that represent a list of tasks\<close>

definition seg :: "kaapi_stack \<Rightarrow> nat \<Rightarrow> nat \<Rightarrow> stask list" where
  "seg s a b = map (ks_mem s) [a..<b]"

text \<open>The tasks left in the frames from \<open>e\<close> on below frame \<open>fp\<close>: those after the task whose children are running.\<close>

fun lower :: "kaapi_stack \<Rightarrow> nat \<Rightarrow> nat \<Rightarrow> stask list" where
  "lower s e 0 = []"
| "lower s e (Suc j) = (if e \<le> j then seg s (Suc (f_pc (ks_frame s j))) (f_sp (ks_frame s j)) @ lower s e j else [])"

definition chain_ok :: "kaapi_stack \<Rightarrow> nat \<Rightarrow> nat \<Rightarrow> nat \<Rightarrow> bool" where
  "chain_ok s e fp lim \<longleftrightarrow>
     (\<forall>j. e \<le> j \<and> j < fp \<longrightarrow> f_pc (ks_frame s j) < f_sp (ks_frame s j)
        \<and> f_sp (ks_frame s j) \<le> (if Suc j = fp then lim else f_pc (ks_frame s (Suc j))))"

definition at_push :: "kaapi_stack \<Rightarrow> nat \<Rightarrow> nat \<Rightarrow> stask list \<Rightarrow> bool" where
  "at_push s e fp ts \<longleftrightarrow> e \<le> fp \<and> f_pc (ks_frame s fp) \<le> f_sp (ks_frame s fp) \<and> chain_ok s e fp (f_pc (ks_frame s fp))
     \<and> ts = seg s (f_pc (ks_frame s fp)) (f_sp (ks_frame s fp)) @ lower s e fp"

definition at_task :: "kaapi_stack \<Rightarrow> nat \<Rightarrow> nat \<Rightarrow> nat \<Rightarrow> nat \<Rightarrow> stask list \<Rightarrow> bool" where
  "at_task s e fp pc sp ts \<longleftrightarrow> (\<exists>g. fp = Suc g \<and> e \<le> g \<and> pc \<le> sp \<and> f_sp (ks_frame s g) = sp
     \<and> f_sp (ks_frame s fp) = sp \<and> f_pc (ks_frame s fp) = sp \<and> chain_ok s e g pc
     \<and> ts = seg s pc sp @ lower s e g)"

definition at_pop :: "kaapi_stack \<Rightarrow> nat \<Rightarrow> nat \<Rightarrow> stask list \<Rightarrow> bool" where
  "at_pop s e fp ts \<longleftrightarrow> e \<le> fp \<and> f_pc (ks_frame s fp) = f_sp (ks_frame s fp)
     \<and> chain_ok s e fp (f_pc (ks_frame s fp)) \<and> ts = lower s e fp"

lemma frame_sel [simp]:
  "ks_frame (upd_frame i f s) = (ks_frame s)(i := f (ks_frame s i))" "ks_mem (upd_frame i f s) = ks_mem s"
  "ks_log (upd_frame i f s) = ks_log s" "ks_now (upd_frame i f s) = ks_now s" "ks_sfp (upd_frame i f s) = ks_sfp s"
  "ks_esfp (upd_frame i f s) = ks_esfp s"
  "ks_frame (log_action a s) = ks_frame s" "ks_mem (log_action a s) = ks_mem s" "ks_log (log_action a s) = ks_log s @ [a]"
  "ks_now (log_action a s) = ks_now s" "ks_sfp (log_action a s) = ks_sfp s" "ks_esfp (log_action a s) = ks_esfp s"
  by (simp_all add: upd_frame_def log_action_def)

lemma lower_cong:
  "(\<And>j. e \<le> j \<Longrightarrow> j < fp \<Longrightarrow> ks_frame s' j = ks_frame s j) \<Longrightarrow>
   (\<And>j k. e \<le> j \<Longrightarrow> j < fp \<Longrightarrow> k < f_sp (ks_frame s j) \<Longrightarrow> ks_mem s' k = ks_mem s k) \<Longrightarrow> lower s' e fp = lower s e fp"
  by (induction fp) (auto simp: seg_def)

lemma chain_sp_le:
  assumes "chain_ok s e fp lim" "e \<le> j" "j < fp"
  shows "f_sp (ks_frame s j) \<le> lim"
  using assms(2,3)
proof (induction "fp - j" arbitrary: j rule: less_induct)
  case less
  have j: "f_sp (ks_frame s j) \<le> (if Suc j = fp then lim else f_pc (ks_frame s (Suc j)))"
    using assms(1) less.prems by (simp add: chain_ok_def)
  show ?case
  proof (cases "Suc j = fp")
    case False
    then have "f_pc (ks_frame s (Suc j)) < f_sp (ks_frame s (Suc j))" "f_sp (ks_frame s (Suc j)) \<le> lim"
      using assms(1) less.prems less.hyps [of "Suc j"] by (auto simp: chain_ok_def)
    then show ?thesis using j False by simp
  qed (use j in simp)
qed

lemma chain_cong:
  "chain_ok s e fp lim \<Longrightarrow> (\<And>j. e \<le> j \<Longrightarrow> j < fp \<Longrightarrow> ks_frame s' j = ks_frame s j) \<Longrightarrow> lim \<le> lim' \<Longrightarrow> chain_ok s' e fp lim'"
  by (fastforce simp: chain_ok_def)

text \<open>What a body leaves: its tasks on top of the frame, everything below unchanged.\<close>

lemma push_fold:
  "ks_frame (fold (push_one fp) cs s) =
     (ks_frame s)(fp := (ks_frame s fp)\<lparr>f_sp := f_sp (ks_frame s fp) + length cs\<rparr>)
   \<and> (\<forall>k. ks_mem (fold (push_one fp) cs s) k =
        (if f_sp (ks_frame s fp) \<le> k \<and> k < f_sp (ks_frame s fp) + length cs then cs ! (k - f_sp (ks_frame s fp)) else ks_mem s k))
   \<and> ks_log (fold (push_one fp) cs s) = ks_log s \<and> ks_now (fold (push_one fp) cs s) = ks_now s
   \<and> ks_sfp (fold (push_one fp) cs s) = ks_sfp s \<and> ks_esfp (fold (push_one fp) cs s) = ks_esfp s"
proof (induction cs arbitrary: s)
  case (Cons c cs)
  let ?s = "push_one fp c s"
  have s: "ks_frame ?s = (ks_frame s)(fp := (ks_frame s fp)\<lparr>f_sp := Suc (f_sp (ks_frame s fp))\<rparr>)"
    "ks_mem ?s = (ks_mem s)(f_sp (ks_frame s fp) := c)" "ks_log ?s = ks_log s" "ks_now ?s = ks_now s"
    "ks_sfp ?s = ks_sfp s" "ks_esfp ?s = ks_esfp s"
    by (simp_all add: push_one_def kaapi_thread_pushtask_def kaapi_thread_toptask_def)
  show ?case using Cons.IH [of ?s] by (auto simp: s nth_Cons' fun_eq_iff)
qed auto

lemma run_body_sel:
  "ks_frame (run_body fp t s) = (ks_frame s)(fp := (ks_frame s fp)\<lparr>f_sp := f_sp (ks_frame s fp) + length (st_pushes t)\<rparr>)"
  "k < f_sp (ks_frame s fp) \<Longrightarrow> ks_mem (run_body fp t s) k = ks_mem s k"
  "seg (run_body fp t s) (f_sp (ks_frame s fp)) (f_sp (ks_frame s fp) + length (st_pushes t)) = st_pushes t"
  "ks_log (run_body fp t s) = ks_log s @ [Ran (st_id t)]" "ks_now (run_body fp t s) = ks_now s"
  "ks_sfp (run_body fp t s) = ks_sfp s" "ks_esfp (run_body fp t s) = ks_esfp s"
  using push_fold [of fp "st_pushes t" "log_action (Ran (st_id t)) s"]
  by (auto simp: run_body_def seg_def intro!: nth_equalityI)

section \<open>Steps on such stacks\<close>

text \<open>A step keeps the log and the time, and \<^verbatim>\<open>esfp\<close>, unless it says otherwise.\<close>

definition quiet :: "kaapi_stack \<Rightarrow> kaapi_stack \<Rightarrow> bool" where
  "quiet s s' \<longleftrightarrow> ks_log s' = ks_log s \<and> ks_now s' = ks_now s \<and> ks_esfp s' = ks_esfp s"

lemma quiet_simps [simp]: "quiet s s" "quiet s (set_fpc g pc s)" "quiet s (upd_frame i f s)" "quiet s (s\<lparr>ks_sfp := n\<rparr>)"
  by (simp_all add: quiet_def set_fpc_def)

lemma push_label_spec:
  assumes "at_push s e fp ts"
  obtains s' pc sp where "push_label fp s = (s', LTask (Suc fp) pc sp)" "at_task s' e (Suc fp) pc sp ts" "quiet s s'"
    "pc = f_pc (ks_frame s fp)" "sp = f_sp (ks_frame s fp)"
proof -
  let ?pc = "f_pc (ks_frame s fp)" and ?sp = "f_sp (ks_frame s fp)"
  let ?s = "(upd_frame (Suc fp) (\<lambda>g. g\<lparr>f_pc := ?sp, f_sp := ?sp, f_data := f_data (ks_frame s fp)\<rparr>) s)\<lparr>ks_sfp := Suc fp\<rparr>"
  have f: "ks_frame ?s j = ks_frame s j" if "j \<noteq> Suc fp" for j using that by simp
  have "lower ?s e fp = lower s e fp" by (rule lower_cong) simp_all
  moreover have "chain_ok ?s e fp ?pc" using assms by (auto simp: at_push_def intro: chain_cong)
  ultimately have "at_task ?s e (Suc fp) ?pc ?sp ts" using assms by (simp add: at_task_def at_push_def seg_def)
  then show ?thesis using that [of ?s ?pc ?sp] by (simp add: push_label_def Let_def quiet_def)
qed

lemma after_task_spec:
  assumes "fp = Suc g" "e \<le> g" "pc < sp" "f_sp (ks_frame s g) = sp" "f_pc (ks_frame s fp) = sp"
    "f_sp (ks_frame s fp) = sp + length cs" "seg s sp (sp + length cs) = cs" "chain_ok s e g pc"
  shows "\<exists>s' l. after_task fp pc sp s = (s', l) \<and> quiet s s'
    \<and> (if cs = [] then l = LTask fp (Suc pc) sp \<and> at_task s' e fp (Suc pc) sp (seg s (Suc pc) sp @ lower s e g)
       else l = LPush fp \<and> at_push s' e fp (cs @ seg s (Suc pc) sp @ lower s e g))"
proof -
  let ?s = "set_fpc g pc s"
  have l: "lower ?s e g = lower s e g" by (rule lower_cong) (simp_all add: set_fpc_def)
  have m: "seg ?s a b = seg s a b" for a b by (simp add: seg_def set_fpc_def)
  have c: "chain_ok ?s e g (Suc pc)" by (rule chain_cong [OF assms(8)]) (simp_all add: set_fpc_def)
  have c': "chain_ok ?s e fp sp"
    unfolding chain_ok_def
  proof (intro allI impI)
    fix j
    assume j: "e \<le> j \<and> j < fp"
    show "f_pc (ks_frame ?s j) < f_sp (ks_frame ?s j)
        \<and> f_sp (ks_frame ?s j) \<le> (if Suc j = fp then sp else f_pc (ks_frame ?s (Suc j)))"
    proof (cases "j = g")
      case True
      then show ?thesis using assms(1,3,4) by (simp add: set_fpc_def)
    next
      case False
      then have "j < g" using j assms(1) by simp
      then show ?thesis using assms(1,8) j by (auto simp: chain_ok_def set_fpc_def)
    qed
  qed
  show ?thesis
  proof (cases "cs = []")
    case True
    then have "at_task ?s e fp (Suc pc) sp (seg s (Suc pc) sp @ lower s e g)"
      using assms c l m by (simp add: at_task_def set_fpc_def)
    then show ?thesis using True assms(1,6) by (simp add: after_task_def)
  next
    case False
    then have "at_push ?s e fp (cs @ seg s (Suc pc) sp @ lower s e g)"
      using assms c' l m by (simp add: at_push_def set_fpc_def)
    then show ?thesis using False assms(1,6) by (simp add: after_task_def)
  qed
qed

section \<open>Runs\<close>

definition leads :: "(nat \<Rightarrow> uint8 \<times> errno) \<Rightarrow> nat \<Rightarrow> exec_label \<Rightarrow> kaapi_stack \<Rightarrow> errno \<times> kaapi_stack \<Rightarrow> bool" where
  "leads env e l s r \<longleftrightarrow> (\<exists>k. exec_from k env e l s = Some r)"

lemma leads_step: "exec_label_step env e l s = (s', l') \<Longrightarrow> leads env e l' s' r \<Longrightarrow> leads env e l s r"
proof -
  assume a: "exec_label_step env e l s = (s', l')" and "leads env e l' s' r"
  then obtain k where "exec_from k env e l' s' = Some r" by (auto simp: leads_def)
  then have "exec_from (Suc k) env e l s = Some r" using a by (cases l) auto
  then show ?thesis by (auto simp: leads_def)
qed

lemma leads_ret [simp]: "leads env e (LRet err) s r \<longleftrightarrow> r = (err, s)"
  by (auto simp: leads_def)

lemma exec_from_mono: "exec_from k env e l s = Some r \<Longrightarrow> k \<le> k' \<Longrightarrow> exec_from k' env e l s = Some r"
proof (induction k arbitrary: l s k')
  case 0
  then show ?case by (cases l; cases k') auto
next
  case (Suc k)
  then obtain j where "k' = Suc j" "k \<le> j" by (cases k') auto
  then show ?case using Suc by (cases l) (auto split: prod.splits)
qed

text \<open>What one call does on a list of tasks, from time \<open>n\<close> to time \<open>m\<close>: the actions, the tasks left, the return code.
  A task that its thief gives back is tried again.\<close>

inductive acts :: "(nat \<Rightarrow> uint8 \<times> errno) \<Rightarrow> nat \<Rightarrow> stask list \<Rightarrow> action list \<Rightarrow> nat \<Rightarrow> stask list \<Rightarrow> errno \<Rightarrow> bool" for env where
  finished: "acts env n [] [] n [] OK"
| ran: "env n = (0, rv) \<Longrightarrow> acts env (Suc n) (st_pushes t @ ts) l m r e \<Longrightarrow> acts env n (t # ts) (Ran (st_id t) # l) m r e"
| skipped: "env n = (st, rv) \<Longrightarrow> st \<noteq> 0 \<Longrightarrow> steal_outcome st rv = Skip \<Longrightarrow> acts env (Suc n) ts l m r e \<Longrightarrow>
    acts env n (t # ts) l m r e"
| merged: "env n = (st, rv) \<Longrightarrow> st \<noteq> 0 \<Longrightarrow> steal_outcome st rv = Merge \<Longrightarrow> acts env (Suc n) ts l m r e \<Longrightarrow>
    acts env n (t # ts) (Merged (st_id t) # l) m r e"
| blocked: "env n = (st, rv) \<Longrightarrow> st \<noteq> 0 \<Longrightarrow> steal_outcome st rv = Block \<Longrightarrow>
    acts env n (t # ts) [] (Suc n) (t # ts) EWOULDBLOCK"
| redone: "env n = (st, rv) \<Longrightarrow> st \<noteq> 0 \<Longrightarrow> steal_outcome st rv = Redo \<Longrightarrow> acts env (Suc n) (t # ts) l m r e \<Longrightarrow>
    acts env n (t # ts) l m r e"

lemma redo_EINTR: "steal_outcome st rv = Redo \<Longrightarrow> rv = EINTR"
  by (auto simp: steal_outcome_def split: if_splits)

lemma acts_run_tasks:
  "acts env n ts l m r e \<Longrightarrow> (\<And>k. snd (env k) \<noteq> EINTR) \<Longrightarrow> run_tasks env n ts = (m, l, r, e)"
proof (induction rule: acts.induct)
  case (redone n st rv t ts l m r e)
  then show ?case using redo_EINTR by (metis snd_conv)
qed simp_all

text \<open>What the code leaves when it is at a list of tasks.\<close>

definition result_ok :: "(nat \<Rightarrow> uint8 \<times> errno) \<Rightarrow> nat \<Rightarrow> stask list \<Rightarrow> kaapi_stack \<Rightarrow> errno \<times> kaapi_stack \<Rightarrow> bool" where
  "result_ok env e ts s r \<longleftrightarrow>
     (case r of (err, s') \<Rightarrow> \<exists>l rest. acts env (ks_now s) ts l (ks_now s') rest err
        \<and> ks_log s' = ks_log s @ l \<and> ks_esfp s' = ks_esfp s
        \<and> (err = OK \<and> ks_sfp s' = e \<and> f_pc (ks_frame s' e) = f_sp (ks_frame s' e)
           \<or> err = EWOULDBLOCK \<and> at_push s' e (ks_sfp s') rest))"

lemma result_ok_quiet: "quiet s s1 \<Longrightarrow> result_ok env e ts s1 r \<Longrightarrow> result_ok env e ts s r"
  by (simp add: result_ok_def quiet_def)

definition returns_ok :: "(nat \<Rightarrow> uint8 \<times> errno) \<Rightarrow> nat \<Rightarrow> exec_label \<Rightarrow> stask list \<Rightarrow> kaapi_stack \<Rightarrow> bool" where
  "returns_ok env e l ts s \<longleftrightarrow> (\<exists>r. leads env e l s r \<and> result_ok env e ts s r)"

lemma returns_step:
  "exec_label_step env e l s = (s', l') \<Longrightarrow> quiet s s' \<Longrightarrow> returns_ok env e l' ts s' \<Longrightarrow> returns_ok env e l ts s"
  unfolding returns_ok_def using leads_step result_ok_quiet by blast

lemma pop_spec:
  assumes "at_pop s e fp ts"
  shows "returns_ok env e (LPop fp b) [] s \<and> ts = []
    \<or> (\<exists>s' fp'. at_push s' e fp' ts \<and> quiet s s' \<and> f_pc (ks_frame s' fp') < f_sp (ks_frame s' fp')
        \<and> (\<forall>ts'. returns_ok env e (LPush fp') ts' s' \<longrightarrow> returns_ok env e (LPop fp b) ts' s))"
  using assms
proof (induction fp arbitrary: s b)
  case 0
  let ?s = "(if b then upd_frame 0 (\<lambda>f. f\<lparr>f_sp := f_pc f\<rparr>) s else s)\<lparr>ks_sfp := 0\<rparr>"
  have e: "e = 0" "f_pc (ks_frame s 0) = f_sp (ks_frame s 0)" "ts = []" using 0 by (simp_all add: at_pop_def)
  have "exec_label_step env e (LPop 0 b) s = (?s, LRet OK)" by (simp add: pop_label_def)
  moreover have "returns_ok env e (LRet OK) [] ?s" using e by (auto simp: returns_ok_def result_ok_def intro: acts.finished)
  moreover have "quiet s ?s" by (simp add: quiet_def)
  ultimately have "returns_ok env e (LPop 0 b) [] s" using returns_step by blast
  then show ?case using e(3) by blast
next
  case (Suc g)
  show ?case
  proof (cases "e < Suc g")
    case False
    then have e: "e = Suc g" "f_pc (ks_frame s e) = f_sp (ks_frame s e)" "ts = []" using Suc.prems by (auto simp: at_pop_def)
    let ?s = "(if b then upd_frame e (\<lambda>f. f\<lparr>f_sp := f_pc f\<rparr>) s else s)\<lparr>ks_sfp := e\<rparr>"
    have "exec_label_step env e (LPop (Suc g) b) s = (?s, LRet OK)" using e(1) by (simp add: pop_label_def)
    moreover have "returns_ok env e (LRet OK) [] ?s" using e by (auto simp: returns_ok_def result_ok_def intro: acts.finished)
    moreover have "quiet s ?s" by (simp add: quiet_def)
    ultimately have "returns_ok env e (LPop (Suc g) b) [] s" using returns_step by blast
    then show ?thesis using e(3) by blast
  next
    case True
    let ?pc = "Suc (f_pc (ks_frame s g))" and ?sp = "f_sp (ks_frame s g)"
    let ?s = "set_fpc g ?pc s"
    have lt: "f_pc (ks_frame s g) < ?sp" and c: "chain_ok s e g ?pc" and ts: "ts = seg s ?pc ?sp @ lower s e g"
      using Suc.prems True by (auto simp: at_pop_def chain_ok_def)
    have l: "lower ?s e g = lower s e g" by (rule lower_cong) (simp_all add: set_fpc_def)
    have m: "seg ?s a b = seg s a b" for a b by (simp add: seg_def set_fpc_def)
    have c': "chain_ok ?s e g ?pc" by (rule chain_cong [OF c]) (simp_all add: set_fpc_def)
    show ?thesis
    proof (cases "?pc < ?sp")
      case True
      have "at_push (?s\<lparr>ks_sfp := g\<rparr>) e g ts"
      proof -
        have "lower (?s\<lparr>ks_sfp := g\<rparr>) e g = lower s e g" by (rule lower_cong) (simp_all add: set_fpc_def)
        moreover have "chain_ok (?s\<lparr>ks_sfp := g\<rparr>) e g ?pc" by (rule chain_cong [OF c]) (simp_all add: set_fpc_def)
        ultimately show ?thesis using True \<open>e < Suc g\<close> ts by (simp add: at_push_def set_fpc_def seg_def)
      qed
      moreover have "exec_label_step env e (LPop (Suc g) b) s = (?s\<lparr>ks_sfp := g\<rparr>, LPush g)"
        using True \<open>e < Suc g\<close> by (simp add: pop_label_def Let_def set_fpc_def)
      moreover have "quiet s (?s\<lparr>ks_sfp := g\<rparr>)" by (simp add: quiet_def set_fpc_def)
      ultimately show ?thesis using returns_step True by (intro disjI2 exI [of _ "?s\<lparr>ks_sfp := g\<rparr>"] exI [of _ g]) (auto simp: set_fpc_def)
    next
      case False
      then have p: "?pc = ?sp" using lt by simp
      then have "at_pop ?s e g ts" using \<open>e < Suc g\<close> c' l m ts by (simp add: at_pop_def seg_def set_fpc_def)
      note ih = Suc.IH [OF this, of True]
      have st: "exec_label_step env e (LPop (Suc g) b) s = (?s, LPop g True)"
        using False \<open>e < Suc g\<close> by (simp add: pop_label_def Let_def set_fpc_def)
      have q: "returns_ok env e (LPop g True) ts' ?s \<Longrightarrow> returns_ok env e (LPop (Suc g) b) ts' s" for ts'
        using returns_step [OF st] by simp
      have "quiet ?s s' \<Longrightarrow> quiet s s'" for s' by (simp add: quiet_def set_fpc_def)
      then show ?thesis using ih q by blast
    qed
  qed
qed

lemma result_cons:
  assumes "returns_ok env e l ts' s'" "exec_label_step env e l0 s = (s', l)"
    and a: "\<And>lg m r c. acts env (ks_now s') ts' lg m r c \<Longrightarrow> acts env (ks_now s) ts (a @ lg) m r c"
    and "ks_log s' = ks_log s @ a" "ks_esfp s' = ks_esfp s"
  shows "returns_ok env e l0 ts s"
proof -
  obtain err s1 where r: "leads env e l s' (err, s1)" "result_ok env e ts' s' (err, s1)"
    using assms(1) by (auto simp: returns_ok_def)
  then obtain lg rest where x: "acts env (ks_now s') ts' lg (ks_now s1) rest err" "ks_log s1 = ks_log s' @ lg"
    "ks_esfp s1 = ks_esfp s'" "err = OK \<and> ks_sfp s1 = e \<and> f_pc (ks_frame s1 e) = f_sp (ks_frame s1 e)
      \<or> err = EWOULDBLOCK \<and> at_push s1 e (ks_sfp s1) rest" by (auto simp: result_ok_def)
  have "result_ok env e ts s (err, s1)"
    unfolding result_ok_def prod.case
    using a [OF x(1)] x(2-4) assms(4,5) by (intro exI [of _ "a @ lg"] exI [of _ rest]) simp
  then show ?thesis using leads_step [OF assms(2) r(1)] unfolding returns_ok_def by blast
qed

lemma at_push_returns:
  assumes "at_push s e fp ts"
    and "\<And>s' fp' pc sp. at_task s' e fp' pc sp ts \<Longrightarrow> ks_now s' = ks_now s \<Longrightarrow> pc = f_pc (ks_frame s fp) \<Longrightarrow>
      sp = f_sp (ks_frame s fp) \<Longrightarrow> returns_ok env e (LTask fp' pc sp) ts s'"
  shows "returns_ok env e (LPush fp) ts s"
proof -
  obtain s' pc sp where p: "push_label fp s = (s', LTask (Suc fp) pc sp)" "at_task s' e (Suc fp) pc sp ts" "quiet s s'"
    "pc = f_pc (ks_frame s fp)" "sp = f_sp (ks_frame s fp)" using push_label_spec [OF assms(1)] .
  show ?thesis using returns_step [of env e "LPush fp" s s' "LTask (Suc fp) pc sp" ts] p assms(2) by (simp add: quiet_def)
qed

text \<open>The execution gets on: the tasks left become fewer, or the time passes after which no thief gives a task back.\<close>

definition weight :: "nat \<Rightarrow> stask list \<Rightarrow> nat \<Rightarrow> nat" where
  "weight N ts n = size_list size ts * Suc N + (N - n)"

lemma weight_less:
  assumes "size_list size ts' < size_list size ts"
  shows "weight N ts' n' < weight N ts n"
proof -
  have "size_list size ts' * Suc N + Suc N \<le> size_list size ts * Suc N"
    using mult_le_mono1 [OF Suc_leI [OF assms], of "Suc N"] by simp
  moreover have "N - n' < Suc N" by simp
  ultimately show ?thesis unfolding weight_def by linarith
qed

lemma consume:
  assumes "at_task s e fp pc sp ts" "pc < sp" and noE: "\<And>n. N \<le> n \<Longrightarrow> snd (env n) \<noteq> EINTR"
    and IH: "\<And>s' fp' pc' sp' ts'. weight N ts' (ks_now s') < weight N ts (ks_now s) \<Longrightarrow> at_task s' e fp' pc' sp' ts' \<Longrightarrow>
      returns_ok env e (LTask fp' pc' sp') ts' s'"
  shows "returns_ok env e (LTask fp pc sp) ts s"
proof -
  obtain g where g: "fp = Suc g" "e \<le> g" "f_sp (ks_frame s g) = sp" "f_sp (ks_frame s fp) = sp" "f_pc (ks_frame s fp) = sp"
    "chain_ok s e g pc" "ts = seg s pc sp @ lower s e g" using assms(1) by (auto simp: at_task_def)
  define t where "t = ks_mem s pc"
  define ts1 where "ts1 = seg s (Suc pc) sp @ lower s e g"
  have ts: "ts = t # ts1" using g(7) assms(2) by (simp add: t_def ts1_def seg_def upt_conv_Cons)
  obtain st rv where ev: "env (ks_now s) = (st, rv)" by fastforce
  define s1 where "s1 = s\<lparr>ks_now := Suc (ks_now s)\<rparr>"
  have step: "exec_label_step env e (LTask fp pc sp) s = exec_task env fp pc sp s" using assms(2) by (simp add: task_label_def)
  have next_ok: "returns_ok env e l (cs @ ts1) s3"
    if "size_list size (cs @ ts1) < size_list size ts"
      "if cs = [] then l = LTask fp (Suc pc) sp \<and> at_task s3 e fp (Suc pc) sp ts1 else l = LPush fp \<and> at_push s3 e fp (cs @ ts1)"
    for cs l s3
  proof (cases "cs = []")
    case True
    then show ?thesis using that(2) IH [OF weight_less [OF that(1)]] by simp
  next
    case False
    then have "at_push s3 e fp (cs @ ts1)" "l = LPush fp" using that(2) by simp_all
    then show ?thesis using at_push_returns [of s3 e fp "cs @ ts1" env] IH [OF weight_less [OF that(1)]] by blast
  qed
  show ?thesis
  proof (cases "st = 0")
    case True
    define s2 where "s2 = run_body fp t s1"
    let ?cs = "st_pushes t"
    have f1: "ks_frame s1 = ks_frame s" "ks_mem s1 = ks_mem s" by (simp_all add: s1_def)
    note rb = run_body_sel [where fp = fp and t = t and s = s1, folded s2_def, unfolded f1 g(4)]
    have fr: "ks_frame s2 j = ks_frame s j" if "j \<noteq> fp" for j using that by (simp add: rb(1))
    have lw: "lower s2 e g = lower s e g"
    proof (rule lower_cong)
      fix j k
      assume "e \<le> j" "j < g" "k < f_sp (ks_frame s j)"
      then have "k < sp" using chain_sp_le [OF g(6), of j] assms(2) by simp
      then show "ks_mem s2 k = ks_mem s k" using rb(2) by simp
    qed (use fr g(1) in simp)
    have sg: "seg s2 (Suc pc) sp = seg s (Suc pc) sp" using rb(2) by (simp add: seg_def)
    have ch: "chain_ok s2 e g pc" by (rule chain_cong [OF g(6)]) (use fr g(1) in simp_all)
    have "f_sp (ks_frame s2 g) = sp" "f_pc (ks_frame s2 fp) = sp" "f_sp (ks_frame s2 fp) = sp + length ?cs"
      using g(1,3,5) fr [of g] rb(1) by simp_all
    from after_task_spec [OF g(1,2) assms(2) this rb(3) ch, unfolded lw sg, folded ts1_def]
    obtain s3 l where a: "after_task fp pc sp s2 = (s3, l)" "quiet s2 s3"
      "if ?cs = [] then l = LTask fp (Suc pc) sp \<and> at_task s3 e fp (Suc pc) sp ts1
       else l = LPush fp \<and> at_push s3 e fp (?cs @ ts1)" by blast
    have sz: "size_list size (?cs @ ts1) < size_list size ts" by (cases t) (simp add: ts size_list_append)
    have e1: "exec_task env fp pc sp s = (s3, l)" using ev True a(1) by (simp add: exec_task_def s2_def s1_def t_def)
    show ?thesis
    proof (rule result_cons [OF next_ok [OF sz a(3)]])
      show "exec_label_step env e (LTask fp pc sp) s = (s3, l)" using step e1 by simp
      have "ks_now s3 = Suc (ks_now s)" using a(2) rb(5) by (simp add: quiet_def s1_def)
      then show "acts env (ks_now s) ts ([Ran (st_id t)] @ lg) m r c" if "acts env (ks_now s3) (?cs @ ts1) lg m r c" for lg m r c
        using acts.ran [where env = env, OF ev [unfolded True]] that by (simp add: ts)
      show "ks_log s3 = ks_log s @ [Ran (st_id t)]" "ks_esfp s3 = ks_esfp s" using a(2) rb(4,7) by (simp_all add: quiet_def s1_def)
    qed
  next
    case False
    let ?o = "steal_outcome st rv"
    consider (redo) "?o = Redo" | (block) "?o = Block" | (go) "?o = Skip \<or> ?o = Merge" by (cases ?o) auto
    then show ?thesis
    proof cases
      case redo
      have x: "exec_label_step env e (LTask fp pc sp) s = (s1, LTask fp pc sp)"
        using step ev False redo by (simp add: exec_task_def s1_def)
      have "ks_now s < N" using redo_EINTR [OF redo] noE [of "ks_now s"] ev by fastforce
      then have w: "weight N ts (ks_now s1) < weight N ts (ks_now s)" by (simp add: weight_def s1_def)
      have "lower s1 e g = lower s e g" by (rule lower_cong) (simp_all add: s1_def)
      moreover have "chain_ok s1 e g pc" by (rule chain_cong [OF g(6)]) (simp_all add: s1_def)
      ultimately have "at_task s1 e fp pc sp ts" using g assms(2) by (simp add: at_task_def s1_def seg_def)
      from IH [OF w this] show ?thesis
      proof (rule result_cons [where a = "[]", OF _ x])
        show "acts env (ks_now s) ts ([] @ lg) m r c" if "acts env (ks_now s1) ts lg m r c" for lg m r c
          using acts.redone [where env = env, OF ev False redo] that by (simp add: ts s1_def)
      qed (simp_all add: s1_def)
    next
      case block
      note True = block
      let ?s = "(set_fpc g pc s1)\<lparr>ks_sfp := g\<rparr>"
      have "lower ?s e g = lower s e g" by (rule lower_cong) (simp_all add: set_fpc_def s1_def)
      moreover have "chain_ok ?s e g pc" by (rule chain_cong [OF g(6)]) (simp_all add: set_fpc_def s1_def)
      ultimately have p: "at_push ?s e g ts" using g assms(2) by (simp add: at_push_def set_fpc_def s1_def seg_def)
      have x: "exec_label_step env e (LTask fp pc sp) s = (?s, LRet EWOULDBLOCK)"
        using step ev False True g(1) by (simp add: exec_task_def s1_def)
      have "result_ok env e ts s (EWOULDBLOCK, ?s)"
        using p acts.blocked [where env = env, OF ev False True, of t ts1]
        by (auto simp: result_ok_def ts set_fpc_def s1_def)
      then show ?thesis using leads_step [OF x, of "(EWOULDBLOCK, ?s)"] unfolding returns_ok_def by auto
    next
      case go
      then have nb: "?o \<noteq> Block" "?o \<noteq> Redo" by auto
      define a where "a = (if ?o = Merge then [Merged (st_id t)] else [])"
      define s2 where "s2 = (if ?o = Merge then log_action (Merged (st_id t)) s1 else s1)"
      have f2: "ks_frame s2 = ks_frame s" "ks_mem s2 = ks_mem s" "ks_log s2 = ks_log s @ a" "ks_now s2 = Suc (ks_now s)"
        "ks_esfp s2 = ks_esfp s" by (simp_all add: s2_def s1_def a_def)
      have lw: "lower s2 e g = lower s e g" and sg: "seg s2 x y = seg s x y" for x y
        by (rule lower_cong) (simp_all add: f2 seg_def)
      have c2: "chain_ok s2 e g lim" if "pc \<le> lim" for lim by (rule chain_cong [OF g(6)]) (simp_all add: f2 that)
      have ex: "exec_task env fp pc sp s =
          (if st AND KAAPI_TASK_STATE_SIGNALED \<noteq> 0 then (s2, LTask fp (Suc pc) sp) else after_task fp pc sp s2)"
        using ev False nb by (simp add: exec_task_def s2_def s1_def t_def Let_def)
      have "f_sp (ks_frame s2 g) = sp" "f_pc (ks_frame s2 fp) = sp" "f_sp (ks_frame s2 fp) = sp + length ([] :: stask list)"
        "seg s2 sp (sp + length ([] :: stask list)) = []" using g(3-5) by (simp_all add: f2 seg_def)
      from after_task_spec [OF g(1,2) assms(2) this c2 [OF order.refl], unfolded lw sg, folded ts1_def]
      obtain s4 where s4: "after_task fp pc sp s2 = (s4, LTask fp (Suc pc) sp)" "quiet s2 s4" "at_task s4 e fp (Suc pc) sp ts1"
        by auto
      have "at_task s2 e fp (Suc pc) sp ts1"
        using g(1-5) assms(2) c2 [of "Suc pc"] by (simp add: at_task_def f2 ts1_def lw sg)
      then have "\<exists>s3. exec_task env fp pc sp s = (s3, LTask fp (Suc pc) sp) \<and> quiet s2 s3 \<and> at_task s3 e fp (Suc pc) sp ts1"
        using ex s4 by (cases "st AND KAAPI_TASK_STATE_SIGNALED = 0") auto
      then obtain s3 where x: "exec_task env fp pc sp s = (s3, LTask fp (Suc pc) sp)" "quiet s2 s3"
        "at_task s3 e fp (Suc pc) sp ts1" by blast
      have r: "returns_ok env e (LTask fp (Suc pc) sp) ts1 s3" using next_ok [of "[]"] x(3) by (simp add: ts)
      show ?thesis
      proof (rule result_cons [OF r])
        show "exec_label_step env e (LTask fp pc sp) s = (s3, LTask fp (Suc pc) sp)" using step x(1) by simp
        have "ks_now s3 = Suc (ks_now s)" using x(2) f2(4) by (simp add: quiet_def)
        then show "acts env (ks_now s) ts (a @ lg) m r c" if "acts env (ks_now s3) ts1 lg m r c" for lg m r c
          using that go acts.skipped [where env = env, OF ev False] acts.merged [where env = env, OF ev False]
          by (auto simp: ts a_def)
        show "ks_log s3 = ks_log s @ a" "ks_esfp s3 = ks_esfp s" using x(2) f2 by (simp_all add: quiet_def)
      qed
    qed
  qed
qed

lemma tasks_return:
  assumes "at_task s e fp pc sp ts" and noE: "\<And>n. N \<le> n \<Longrightarrow> snd (env n) \<noteq> EINTR"
  shows "returns_ok env e (LTask fp pc sp) ts s"
  using assms(1)
proof (induction "weight N ts (ks_now s)" arbitrary: s fp pc sp ts rule: less_induct)
  case less
  show ?case
  proof (cases "pc < sp")
    case True
    show ?thesis by (rule consume [where N = N, OF less.prems True]) (use noE less.hyps in blast)+
  next
    case False
    then obtain g where g: "fp = Suc g" "e \<le> g" "pc = sp" "f_sp (ks_frame s g) = sp" "chain_ok s e g pc" "ts = lower s e g"
      using less.prems by (auto simp: at_task_def seg_def)
    let ?s = "set_fpc g pc s"
    have "lower ?s e g = lower s e g" by (rule lower_cong) (simp_all add: set_fpc_def)
    moreover have "chain_ok ?s e g pc" by (rule chain_cong [OF g(5)]) (simp_all add: set_fpc_def)
    ultimately have p: "at_pop ?s e g ts" using g by (simp add: at_pop_def set_fpc_def)
    have st: "exec_label_step env e (LTask fp pc sp) s = (?s, LPop g False)" using g by (simp add: task_label_def)
    have "returns_ok env e (LPop g False) ts ?s"
      using pop_spec [OF p, of env False]
    proof (elim disjE conjE exE)
      fix s' fp'
      assume a: "at_push s' e fp' ts" "f_pc (ks_frame s' fp') < f_sp (ks_frame s' fp')"
        "\<forall>ts'. returns_ok env e (LPush fp') ts' s' \<longrightarrow> returns_ok env e (LPop g False) ts' ?s" "quiet ?s s'"
      have n: "ks_now s' = ks_now s" using a(4) by (simp add: quiet_def set_fpc_def)
      have "returns_ok env e (LPush fp') ts s'"
      proof (rule at_push_returns [OF a(1)])
        fix s'' fp'' pc' sp'
        assume x: "at_task s'' e fp'' pc' sp' ts" "ks_now s'' = ks_now s'" "pc' = f_pc (ks_frame s' fp')" "sp' = f_sp (ks_frame s' fp')"
        show "returns_ok env e (LTask fp'' pc' sp') ts s''"
          by (rule consume [where N = N, OF x(1)]) (use a(2) x n noE less.hyps in auto)
      qed
      then show ?thesis using a(3) by blast
    qed simp
    then show ?thesis using returns_step [OF st] by simp
  qed
qed

lemma execframe_returns:
  assumes "at_push s (ks_esfp s) (ks_sfp s) ts" "\<And>n. N \<le> n \<Longrightarrow> snd (env n) \<noteq> EINTR"
  shows "\<exists>fuel r. kaapi_stack_execframe fuel env s = Some r \<and> result_ok env (ks_esfp s) ts s r"
  using at_push_returns [OF assms(1), of env] tasks_return [OF _ assms(2), where N = N]
  by (auto simp: returns_ok_def leads_def kaapi_stack_execframe_def)

end
