(* ===== verification/Exec_Props.thy ===== *)
theory Exec_Props
  imports Exec_Frame "HOL-Library.Sublist"
begin

text \<open>
  What the execution of a stack of \<open>Exec_Frame\<close> promises: without thieves the tasks run in the order of the
  sequential program; with thieves the code does what the list of tasks left says, and can go on after a suspension;
  the synchronisation returns with the frame emptied.
\<close>

section \<open>The order of the actions\<close>

fun act_id :: "action \<Rightarrow> nat" where
  "act_id (Ran i) = i"
| "act_id (Merged i) = i"

lemma preorder_Cons: "preorder (t # ts) = st_id t # preorder (st_pushes t @ ts)"
  by (cases t) (simp add: preorder_def)

lemma preorder_skip: "subseq (preorder ts) (preorder (st_pushes t @ ts))"
  by (simp add: preorder_def list_emb_append2)

lemma run_tasks_alone:
  "(\<And>k. fst (env k) = 0) \<Longrightarrow> \<exists>m. run_tasks env n ts = (m, map Ran (preorder ts), [], OK)"
proof (induction env n ts rule: run_tasks.induct)
  case (2 env n t ts)
  then obtain m where "run_tasks env (Suc n) (st_pushes t @ ts) = (m, map Ran (preorder (st_pushes t @ ts)), [], OK)" by blast
  then show ?case using "2.prems" by (simp add: preorder_Cons)
qed (simp add: preorder_def)

text \<open>How a run ends.\<close>

lemma acts_end:
  "acts env n ts l m rest code \<Longrightarrow>
   code = OK \<and> rest = [] \<and> n \<le> m \<or> code = EWOULDBLOCK \<and> n < m \<and> snd (env (m - 1)) = EWOULDBLOCK"
  by (induction rule: acts.induct) (auto simp: steal_outcome_def split: if_splits)

section \<open>Runs over suspensions\<close>

text \<open>All the actions on a list of tasks, from time \<open>n\<close> to time \<open>m\<close>: a task that another processor has not finished
  is tried again, and so is one that its thief gives back.\<close>

inductive plays :: "(nat \<Rightarrow> uint8 \<times> errno) \<Rightarrow> nat \<Rightarrow> stask list \<Rightarrow> action list \<Rightarrow> nat \<Rightarrow> bool" for env where
  finished: "plays env n [] [] n"
| ran: "env n = (0, rv) \<Longrightarrow> plays env (Suc n) (st_pushes t @ ts) l m \<Longrightarrow> plays env n (t # ts) (Ran (st_id t) # l) m"
| skipped: "env n = (st, rv) \<Longrightarrow> st \<noteq> 0 \<Longrightarrow> steal_outcome st rv = Skip \<Longrightarrow> plays env (Suc n) ts l m \<Longrightarrow> plays env n (t # ts) l m"
| merged: "env n = (st, rv) \<Longrightarrow> st \<noteq> 0 \<Longrightarrow> steal_outcome st rv = Merge \<Longrightarrow> plays env (Suc n) ts l m \<Longrightarrow>
    plays env n (t # ts) (Merged (st_id t) # l) m"
| blocked: "env n = (st, rv) \<Longrightarrow> st \<noteq> 0 \<Longrightarrow> steal_outcome st rv = Block \<Longrightarrow> plays env (Suc n) (t # ts) l m \<Longrightarrow>
    plays env n (t # ts) l m"
| redone: "env n = (st, rv) \<Longrightarrow> st \<noteq> 0 \<Longrightarrow> steal_outcome st rv = Redo \<Longrightarrow> plays env (Suc n) (t # ts) l m \<Longrightarrow>
    plays env n (t # ts) l m"

lemma acts_plays:
  "acts env n ts l m rest code \<Longrightarrow> (code = OK \<longrightarrow> plays env n ts l m)
    \<and> (code = EWOULDBLOCK \<longrightarrow> plays env m rest l' m' \<longrightarrow> plays env n ts (l @ l') m')"
  by (induction rule: acts.induct) (auto intro: plays.intros)

lemma plays_order: "plays env n ts l m \<Longrightarrow> subseq (map act_id l) (preorder ts)"
proof (induction rule: plays.induct)
  case (skipped n st rv ts l m t)
  then have "subseq (map act_id l) (preorder (st_pushes t @ ts))" using preorder_skip subseq_order.trans by blast
  then show ?case by (simp add: preorder_Cons list_emb_Cons)
next
  case (merged n st rv ts l m t)
  then have "subseq (map act_id l) (preorder (st_pushes t @ ts))" using preorder_skip subseq_order.trans by blast
  then show ?case by (simp add: preorder_Cons)
qed (simp_all add: preorder_Cons)

section \<open>The synchronisation\<close>

lemma sync_redo_mono: "sync_redo k fuel env s = Some r \<Longrightarrow> fuel \<le> fuel' \<Longrightarrow> sync_redo k fuel' env s = Some r"
proof (induction k arbitrary: s)
  case (Suc k)
  then obtain err s1 where e: "kaapi_stack_execframe fuel env s = Some (err, s1)" by (auto split: option.splits)
  then have "kaapi_stack_execframe fuel' env s = Some (err, s1)"
    using exec_from_mono Suc.prems(2) unfolding kaapi_stack_execframe_def by blast
  then show ?case using Suc e by (auto split: if_splits)
qed simp

lemma sync_redo_returns:
  assumes "at_push s (ks_esfp s) (ks_sfp s) ts" and B: "\<And>k. N \<le> k \<Longrightarrow> snd (env k) \<notin> {EWOULDBLOCK, EINTR}"
  shows "\<exists>k fuel s' l. sync_redo k fuel env s = Some (OK, s') \<and> ks_log s' = ks_log s @ l
    \<and> plays env (ks_now s) ts l (ks_now s') \<and> ks_sfp s' = ks_esfp s \<and> ks_esfp s' = ks_esfp s"
  using assms(1)
proof (induction "N - ks_now s" arbitrary: s ts rule: less_induct)
  case less
  obtain fuel r where e: "kaapi_stack_execframe fuel env s = Some r" "result_ok env (ks_esfp s) ts s r"
    using execframe_returns [where env = env and N = N, OF less.prems] B by blast
  obtain code s1 where r: "r = (code, s1)" by fastforce
  obtain l rest where t: "acts env (ks_now s) ts l (ks_now s1) rest code"
    and s1: "ks_log s1 = ks_log s @ l" "ks_esfp s1 = ks_esfp s"
    "code = OK \<and> ks_sfp s1 = ks_esfp s \<or> code = EWOULDBLOCK \<and> at_push s1 (ks_esfp s) (ks_sfp s1) rest"
    using e(2) by (auto simp: result_ok_def r)
  show ?case
  proof (cases "code = OK")
    case True
    then have "plays env (ks_now s) ts l (ks_now s1)" using acts_plays [OF t] by blast
    moreover have "sync_redo 1 fuel env s = Some (OK, s1)" using e(1) r True by simp
    ultimately show ?thesis using s1 True by (intro exI [of _ 1] exI [of _ fuel] exI [of _ s1] exI [of _ l]) auto
  next
    case False
    then have c: "code = EWOULDBLOCK" "at_push s1 (ks_esfp s1) (ks_sfp s1) rest" using s1(2,3) by auto
    have "ks_now s < ks_now s1" "snd (env (ks_now s1 - 1)) = EWOULDBLOCK" using acts_end [OF t] c(1) by auto
    then have "N - ks_now s1 < N - ks_now s" using B [of "ks_now s1 - 1"] by (cases "N \<le> ks_now s1 - 1") auto
    then obtain k fuel2 s2 l2 where i: "sync_redo k fuel2 env s1 = Some (OK, s2)" "ks_log s2 = ks_log s1 @ l2"
      "plays env (ks_now s1) rest l2 (ks_now s2)" "ks_sfp s2 = ks_esfp s1" "ks_esfp s2 = ks_esfp s1"
      using less.hyps [OF _ c(2)] by blast
    let ?f = "max fuel fuel2"
    have "kaapi_stack_execframe ?f env s = Some (EWOULDBLOCK, s1)"
      using e(1) r c(1) exec_from_mono [of fuel env "ks_esfp s" "LPush (ks_sfp s)" s r ?f] by (simp add: kaapi_stack_execframe_def)
    then have "sync_redo (Suc k) ?f env s = Some (OK, s2)" using sync_redo_mono [OF i(1), of ?f] by simp
    moreover have "plays env (ks_now s) ts (l @ l2) (ks_now s2)" using acts_plays [OF t] c(1) i(3) by blast
    ultimately show ?thesis using i s1 by (intro exI [of _ "Suc k"] exI [of _ ?f] exI [of _ s2] exI [of _ "l @ l2"]) auto
  qed
qed

lemma lower_self: "lower s e e = []"
  by (cases e) simp_all

lemma at_push_frame:
  "f_pc (ks_frame s fp) \<le> f_sp (ks_frame s fp) \<Longrightarrow>
   at_push s fp fp (seg s (f_pc (ks_frame s fp)) (f_sp (ks_frame s fp)))"
  by (simp add: at_push_def lower_self chain_ok_def)

section \<open>Properties\<close>

text \<open>C5: Without thieves, \<^verbatim>\<open>kaapi_stack_execframe\<close> on a frame returns 0 and has run the tasks of the frame, and all the
  tasks that these push, each once and in the order of the sequential program: a task, then what it pushes, then the
  next one; the frame is left empty.\<close>

theorem stack_runs_in_program_order:
  assumes "f_pc (ks_frame s (ks_sfp s)) \<le> f_sp (ks_frame s (ks_sfp s))" and "ks_esfp s = ks_sfp s"
  shows "\<exists>fuel s'. (\<forall>k \<ge> fuel. kaapi_stack_execframe k (\<lambda>_. (0, OK)) s = Some (OK, s'))
    \<and> ks_log s' = ks_log s @
        map Ran (preorder (seg s (f_pc (ks_frame s (ks_sfp s))) (f_sp (ks_frame s (ks_sfp s)))))
    \<and> ks_sfp s' = ks_sfp s \<and> kaapi_frame_isempty (ks_frame s' (ks_sfp s))"
proof -
  let ?env = "\<lambda>_ :: nat. (0 :: uint8, OK)"
  let ?ts = "seg s (f_pc (ks_frame s (ks_sfp s))) (f_sp (ks_frame s (ks_sfp s)))"
  obtain fuel r where e: "kaapi_stack_execframe fuel ?env s = Some r" "result_ok ?env (ks_esfp s) ?ts s r"
    using execframe_returns [of s ?ts 0 ?env] at_push_frame [OF assms(1)] assms(2) by auto
  obtain err s' where r: "r = (err, s')" by fastforce
  obtain m where "run_tasks ?env (ks_now s) ?ts = (m, map Ran (preorder ?ts), [], OK)"
    using run_tasks_alone [of ?env] by auto
  moreover obtain l rest where x: "acts ?env (ks_now s) ?ts l (ks_now s') rest err" "ks_log s' = ks_log s @ l"
    "err = OK \<longrightarrow> ks_sfp s' = ks_esfp s \<and> f_pc (ks_frame s' (ks_esfp s)) = f_sp (ks_frame s' (ks_esfp s))"
    using e(2) by (auto simp: result_ok_def r)
  ultimately have "err = OK" "ks_log s' = ks_log s @ map Ran (preorder ?ts)" "ks_sfp s' = ks_sfp s"
    "kaapi_frame_isempty (ks_frame s' (ks_sfp s))"
    using acts_run_tasks [OF x(1)] assms(2) by (auto simp: kaapi_frame_isempty_def)
  moreover have "\<forall>k \<ge> fuel. kaapi_stack_execframe k ?env s = Some r"
    using e(1) exec_from_mono unfolding kaapi_stack_execframe_def by blast
  ultimately show ?thesis using r by blast
qed

text \<open>C14: Whatever the thieves do, short of a preemption that gives a task back, \<^verbatim>\<open>kaapi_stack_execframe\<close> on a stack that
  represents a list of tasks refines the execution of this list: it returns with the same code after the same
  actions, and when a stolen task stops it, the stack it leaves represents the tasks that remain, so that the next
  call goes on with them.\<close>

theorem execframe_refines_task_list:
  assumes "at_push s (ks_esfp s) (ks_sfp s) ts" and "\<And>k. snd (env k) \<noteq> EINTR"
    and "run_tasks env (ks_now s) ts = (m, l, rest, code)"
  shows "\<exists>fuel s'. (\<forall>k \<ge> fuel. kaapi_stack_execframe k env s = Some (code, s'))
    \<and> ks_log s' = ks_log s @ l \<and> ks_now s' = m
    \<and> (code = OK \<and> ks_sfp s' = ks_esfp s \<and> kaapi_frame_isempty (ks_frame s' (ks_esfp s))
       \<or> code = EWOULDBLOCK \<and> at_push s' (ks_esfp s') (ks_sfp s') rest)"
proof -
  obtain fuel r where e: "kaapi_stack_execframe fuel env s = Some r" "result_ok env (ks_esfp s) ts s r"
    using execframe_returns [where env = env and N = 0, OF assms(1,2)] by blast
  obtain err s' where r: "r = (err, s')" by fastforce
  obtain l' rest' where x: "acts env (ks_now s) ts l' (ks_now s') rest' err" "ks_log s' = ks_log s @ l'"
    "err = OK \<and> ks_sfp s' = ks_esfp s \<and> f_pc (ks_frame s' (ks_esfp s)) = f_sp (ks_frame s' (ks_esfp s))
      \<or> err = EWOULDBLOCK \<and> at_push s' (ks_esfp s') (ks_sfp s') rest'"
    using e(2) by (auto simp: result_ok_def r)
  have ra: "l' = l" "ks_now s' = m" "rest' = rest" "err = code"
    using acts_run_tasks [where env = env, OF x(1) assms(2)] assms(3) by simp_all
  have "\<forall>k \<ge> fuel. kaapi_stack_execframe k env s = Some r"
    using e(1) exec_from_mono unfolding kaapi_stack_execframe_def by blast
  moreover have "err = code" "ks_log s' = ks_log s @ l" "ks_now s' = m"
    "code = OK \<and> ks_sfp s' = ks_esfp s \<and> kaapi_frame_isempty (ks_frame s' (ks_esfp s))
       \<or> code = EWOULDBLOCK \<and> at_push s' (ks_esfp s') (ks_sfp s') rest"
    using x ra by (auto simp: kaapi_frame_isempty_def)
  ultimately show ?thesis using r by blast
qed

text \<open>C15: When from some time on no stolen task has to be waited for or is given back by its thief, \<^verbatim>\<open>kaapi_sched_sync_\<close>
  on a frame with tasks returns 0, whatever happened before: it has run or merged the tasks in the order of the
  program, waiting for the stolen ones and trying again those that were given back, and leaves the frame with its
  tasks popped and \<^verbatim>\<open>esfp\<close> as it was.\<close>

theorem sync_returns_with_empty_frame:
  assumes "f_pc (ks_frame s (ks_sfp s)) < f_sp (ks_frame s (ks_sfp s))"
    and "\<And>k. N \<le> k \<Longrightarrow> snd (env k) \<notin> {EWOULDBLOCK, EINTR}"
  shows "\<exists>n fuel s' l. kaapi_sched_sync n fuel env s = Some (OK, s')
    \<and> ks_log s' = ks_log s @ l
    \<and> plays env (ks_now s) (seg s (f_pc (ks_frame s (ks_sfp s))) (f_sp (ks_frame s (ks_sfp s)))) l (ks_now s')
    \<and> subseq (map act_id l) (preorder (seg s (f_pc (ks_frame s (ks_sfp s))) (f_sp (ks_frame s (ks_sfp s)))))
    \<and> ks_sfp s' = ks_sfp s \<and> ks_esfp s' = ks_esfp s
    \<and> f_sp (ks_frame s' (ks_sfp s)) = f_pc (ks_frame s (ks_sfp s))
    \<and> f_pc (ks_frame s' (ks_sfp s)) = f_pc (ks_frame s (ks_sfp s))"
proof -
  let ?f = "ks_frame s (ks_sfp s)"
  let ?ts = "seg s (f_pc ?f) (f_sp ?f)"
  let ?s = "s\<lparr>ks_esfp := ks_sfp s\<rparr>"
  have "at_push ?s (ks_esfp ?s) (ks_sfp ?s) ?ts"
    using at_push_frame [of ?s "ks_sfp s"] assms(1) by (simp add: seg_def)
  from sync_redo_returns [where env = env and N = N, OF this assms(2)]
  obtain n fuel s1 l where i: "sync_redo n fuel env ?s = Some (OK, s1)" "ks_log s1 = ks_log s @ l"
    "plays env (ks_now s) ?ts l (ks_now s1)" "ks_sfp s1 = ks_sfp s" by auto
  let ?s' = "(upd_frame (ks_sfp s1) (\<lambda>f. f\<lparr>f_sp := f_pc ?f, f_pc := f_pc ?f\<rparr>) s1)\<lparr>ks_esfp := ks_esfp s\<rparr>"
  have "kaapi_sched_sync n fuel env s = Some (OK, ?s')"
    using assms(1) i(1) by (simp add: kaapi_sched_sync_def kaapi_frame_isempty_def Let_def)
  then show ?thesis
    using i plays_order [OF i(3)] by (intro exI [of _ n] exI [of _ fuel] exI [of _ ?s'] exI [of _ l]) simp
qed

section \<open>Witnesses\<close>

text \<open>A frame with two tasks; the first one pushes two tasks, of which the second pushes another one.\<close>

definition sample_tree :: stask where
  "sample_tree = STask 1 [STask 2 [], STask 3 [STask 4 []]]"

definition sample_stack :: kaapi_stack where
  "sample_stack = \<lparr>ks_sfp = 0, ks_esfp = 0, ks_frame = (\<lambda>_. \<lparr>f_pc = 0, f_sp = 2, f_data = 0\<rparr>), ks_task = 0, ks_data = 0,
     ks_thieffp = 0, ks_mem = (\<lambda>_. STask 5 [])(0 := sample_tree), ks_now = 0, ks_log = []\<rparr>"

lemma sample_stack_simps [simp]:
  "f_pc (ks_frame sample_stack j) = 0" "f_sp (ks_frame sample_stack j) = 2" "ks_sfp sample_stack = 0" "ks_esfp sample_stack = 0"
  "ks_now sample_stack = 0" "ks_log sample_stack = []" "seg sample_stack 0 2 = [sample_tree, STask 5 []]"
  by (simp_all add: sample_stack_def seg_def upt_rec)

theorem stack_runs_in_program_order_witness:
  "\<exists>fuel s'. (\<forall>k \<ge> fuel. kaapi_stack_execframe k (\<lambda>_. (0, OK)) sample_stack = Some (OK, s'))
     \<and> ks_log s' = map Ran [1, 2, 3, 4, 5]"
  using stack_runs_in_program_order [of sample_stack] by (auto simp: preorder_def sample_tree_def)

text \<open>A thief has the first task when the owner reaches it, and has ended it when the owner tries again.\<close>

definition one_wait :: "nat \<Rightarrow> uint8 \<times> errno" where
  "one_wait n = (if n = 0 then (KAAPI_TASK_STATE_STEAL, EWOULDBLOCK)
     else if n = 1 then (KAAPI_TASK_STATE_EXEC OR KAAPI_TASK_STATE_STEAL OR KAAPI_TASK_STATE_TERM, OK) else (0, OK))"

theorem execframe_refines_task_list_witness:
  "\<exists>fuel s'. (\<forall>k \<ge> fuel. kaapi_stack_execframe k one_wait sample_stack = Some (EWOULDBLOCK, s'))
     \<and> at_push s' (ks_esfp s') (ks_sfp s') [sample_tree, STask 5 []]"
proof -
  have p: "at_push sample_stack (ks_esfp sample_stack) (ks_sfp sample_stack) [sample_tree, STask 5 []]"
    using at_push_frame [of sample_stack 0] by simp
  have e: "snd (one_wait k) \<noteq> EINTR" for k by (simp add: one_wait_def)
  have "run_tasks one_wait (ks_now sample_stack) [sample_tree, STask 5 []] = (1, [], [sample_tree, STask 5 []], EWOULDBLOCK)"
    by (simp add: one_wait_def steal_outcome_def state_defs)
  from execframe_refines_task_list [OF p e this] show ?thesis by auto
qed

text \<open>The thief of the first task has not begun it when the owner reaches it and gives it back; then another thief
  has it, and has ended it when the owner tries for the third time.\<close>

definition given_back :: "nat \<Rightarrow> uint8 \<times> errno" where
  "given_back n = (if n = 0 then (KAAPI_TASK_STATE_STEAL, EINTR)
     else if n = 1 then (KAAPI_TASK_STATE_STEAL, EWOULDBLOCK)
     else if n = 2 then (KAAPI_TASK_STATE_EXEC OR KAAPI_TASK_STATE_STEAL OR KAAPI_TASK_STATE_TERM, OK) else (0, OK))"

theorem sync_returns_with_empty_frame_witness:
  "\<exists>n fuel s' l. kaapi_sched_sync n fuel given_back sample_stack = Some (OK, s') \<and> subseq (map act_id l) [1, 2, 3, 4, 5]
     \<and> ks_log s' = l \<and> f_sp (ks_frame s' 0) = 0"
proof -
  have e: "2 \<le> k \<Longrightarrow> snd (given_back k) \<notin> {EWOULDBLOCK, EINTR}" for k by (auto simp: given_back_def)
  show ?thesis
    using sync_returns_with_empty_frame [of sample_stack 2 given_back, OF _ e] by (fastforce simp: preorder_def sample_tree_def)
qed

end
