(* ===== verification/Steal_Copy.thy ===== *)
theory Steal_Copy
  imports Stack_Steal Steal_Protocol
begin

text \<open>
  The data of a stolen task: the thief runs the body of the task on copies of the parameters that the readiness test
  marked (\<^verbatim>\<open>kaapi_tasksteal_body\<close>), then publishes the copies in the arguments of the stolen task
  (\<^verbatim>\<open>kaapi_taskwrite_body\<close>, both in \<^verbatim>\<open>src/src/task/kaapi_task_steal_body.c\<close>), and the owner of the task merges them
  into the original data (\<^verbatim>\<open>kaapi_aftersteal_body\<close>, \<^verbatim>\<open>src/src/task/kaapi_task_aftersteal.c\<close>).  The content of a datum
  through its view is one value; the functions of a format and the body of the task are arguments.
\<close>

section \<open>Data, formats and arguments\<close>

definition KAAPI_ACCESS_MODE_IP :: access_mode where "KAAPI_ACCESS_MODE_IP = 128"

text \<open>The cells of the data by address, the addresses that \<^verbatim>\<open>malloc\<close> has returned and those that have been freed.\<close>

record 'v data_heap =
  dh_cell :: "nat \<Rightarrow> 'v"
  dh_next :: nat
  dh_malloc :: "nat list"
  dh_freed :: "nat list"

text \<open>A parameter of a format: its mode, its constructor, copy constructor and assignment (the value it stores for
  the old value of the destination and the source), the neutral element and the operation of its reduction.  \<open>None\<close>
  is a null function pointer.\<close>

record 'v param_format =
  pf_mode :: access_mode
  pf_cstor :: "'v option"
  pf_cstorcopy :: "'v \<Rightarrow> 'v"
  pf_assign :: "('v \<Rightarrow> 'v \<Rightarrow> 'v) option"
  pf_neutral :: 'v
  pf_reduce :: "'v \<Rightarrow> 'v \<Rightarrow> 'v"

text \<open>An argument of a task: a value, or an access with its pointers \<^verbatim>\<open>data\<close> and \<^verbatim>\<open>version\<close> and the size of its view; 0 is the
  null pointer.\<close>

record 'v task_arg =
  ta_value :: 'v
  ta_data :: nat
  ta_version :: nat
  ta_size :: nat

definition set_cell :: "nat \<Rightarrow> 'v \<Rightarrow> 'v data_heap \<Rightarrow> 'v data_heap" where
  "set_cell p v h = h\<lparr>dh_cell := (dh_cell h)(p := v)\<rparr>"

text \<open>\<^verbatim>\<open>kaapi_thread_pushdata\<close> on the stack of the thief, and \<^verbatim>\<open>malloc\<close>.\<close>

definition pushdata :: "'v data_heap \<Rightarrow> nat \<times> 'v data_heap" where
  "pushdata h = (dh_next h, h\<lparr>dh_next := Suc (dh_next h)\<rparr>)"

definition heap_alloc :: "'v data_heap \<Rightarrow> nat \<times> 'v data_heap" where
  "heap_alloc h = (dh_next h, h\<lparr>dh_next := Suc (dh_next h), dh_malloc := dh_next h # dh_malloc h\<rparr>)"

definition construct :: "'v param_format \<Rightarrow> nat \<Rightarrow> 'v data_heap \<Rightarrow> 'v data_heap" where
  "construct pf p h = (case pf_cstor pf of None \<Rightarrow> h | Some v \<Rightarrow> set_cell p v h)"

abbreviation mode_of :: "'v param_format \<Rightarrow> access_mode" where
  "mode_of pf \<equiv> KAAPI_ACCESS_GET_MODE (pf_mode pf)"

abbreviation in_place :: "'v param_format \<Rightarrow> bool" where
  "in_place pf \<equiv> pf_mode pf AND KAAPI_ACCESS_MODE_IP \<noteq> 0"

text \<open>The accesses whose result goes to a copy.\<close>

definition copied_mode :: "'v param_format \<Rightarrow> bool" where
  "copied_mode pf \<longleftrightarrow> KAAPI_ACCESS_IS_ONLYWRITE (mode_of pf)
     \<or> KAAPI_ACCESS_IS_CUMULWRITE (mode_of pf) \<and> \<not> in_place pf"

section \<open>The thief\<close>

text \<open>One parameter of the loop of \<^verbatim>\<open>kaapi_tasksteal_body\<close>: the argument of the copy and the data.  \<open>None\<close>: a null assignment
  function is called.\<close>

definition steal_param ::
  "nat \<Rightarrow> uint32 \<Rightarrow> uint32 \<Rightarrow> 'v param_format \<Rightarrow> 'v task_arg \<Rightarrow> 'v data_heap \<Rightarrow> ('v task_arg \<times> 'v data_heap) option" where
  "steal_param i war cw pf arg h =
     (if mode_of pf = KAAPI_ACCESS_MODE_V then Some (arg\<lparr>ta_value := pf_cstorcopy pf (ta_value arg)\<rparr>, h)
      else if KAAPI_ACCESS_IS_STACK (mode_of pf)
      then (case (if ta_size arg < 1024 then pushdata h else heap_alloc h) of
              (p, h) \<Rightarrow> let h = construct pf p h
                in (case pf_assign pf of
                      None \<Rightarrow> None
                    | Some f \<Rightarrow> Some (arg\<lparr>ta_data := p, ta_version := 0\<rparr>,
                                      set_cell p (f (dh_cell h p) (dh_cell h (ta_data arg))) h)))
      else if copied_mode pf \<and> (war AND push_bit i 1 \<noteq> 0 \<or> cw AND push_bit i 1 \<noteq> 0)
      then (case heap_alloc h of
              (p, h) \<Rightarrow> let h = construct pf p h;
                            h = (if cw AND push_bit i 1 \<noteq> 0 then set_cell p (pf_neutral pf) h else h)
                        in Some (arg\<lparr>ta_data := p, ta_version := 0\<rparr>, h))
      else Some (arg, h))"

fun steal_params ::
  "nat \<Rightarrow> uint32 \<Rightarrow> uint32 \<Rightarrow> ('v param_format \<times> 'v task_arg) list \<Rightarrow> 'v data_heap \<Rightarrow> ('v task_arg list \<times> 'v data_heap) option" where
  "steal_params i war cw [] h = Some ([], h)"
| "steal_params i war cw ((pf, arg) # ps) h =
     do { (arg, h) \<leftarrow> steal_param i war cw pf arg h;
          (args, h) \<leftarrow> steal_params (Suc i) war cw ps h;
          Some (arg # args, h) }"

text \<open>The result: the copy of the arguments, unless the body ran on the original ones, and the data.\<close>

definition kaapi_tasksteal_body ::
  "('v task_arg list \<Rightarrow> 'v data_heap \<Rightarrow> 'v data_heap) \<Rightarrow> uint32 \<Rightarrow> uint32 \<Rightarrow> 'v param_format list \<Rightarrow> 'v task_arg list \<Rightarrow>
   'v data_heap \<Rightarrow> ('v task_arg list option \<times> 'v data_heap) option" where
  "kaapi_tasksteal_body body war cw pfs args h =
     (if war = 0 \<and> cw = 0 then Some (None, body args h)
      else map_option (\<lambda>(copy_args, h). (Some copy_args, body copy_args h))
             (steal_params 0 war cw (zip pfs args) h))"

text \<open>The loop of \<^verbatim>\<open>kaapi_taskwrite_body\<close>: the arguments of the stolen task, and \<^verbatim>\<open>war_param\<close> without the bits of stack data.\<close>

fun write_params ::
  "nat \<Rightarrow> ('v param_format \<times> 'v task_arg) list \<Rightarrow> 'v task_arg list \<Rightarrow> uint32 \<Rightarrow> 'v task_arg list \<times> uint32" where
  "write_params i ((pf, arg) # ps) (copy # copies) war =
     (let (arg, war) =
            (if mode_of pf = KAAPI_ACCESS_MODE_V then (arg, war)
             else if copied_mode pf then (arg\<lparr>ta_version := ta_data copy\<rparr>, war)
             else if KAAPI_ACCESS_IS_STACK (mode_of pf) then (arg, war AND NOT (push_bit i 1))
             else (arg, war));
          (args, war) = write_params (Suc i) ps copies war
      in (arg # args, war))"
| "write_params i ps copies war = (map snd ps, war)"

definition kaapi_taskwrite_body ::
  "uint32 \<Rightarrow> uint32 \<Rightarrow> 'v param_format list \<Rightarrow> 'v task_arg list option \<Rightarrow> 'v task_arg list \<Rightarrow> uint8 \<Rightarrow> 'v task_arg list \<times> uint8" where
  "kaapi_taskwrite_body war cw pfs copy_args args state =
     (let (args, war) =
            (case copy_args of None \<Rightarrow> (args, war) | Some copies \<Rightarrow> write_params 0 (zip pfs args) copies war)
      in (args, if war = 0 \<and> cw = 0 then kaapi_task_markterm state else kaapi_task_markaftersteal state))"

section \<open>The owner\<close>

definition aftersteal_param :: "'v param_format \<times> 'v task_arg \<Rightarrow> 'v data_heap \<Rightarrow> 'v data_heap" where
  "aftersteal_param pa h =
     (let pf = fst pa; arg = snd pa; m = mode_of pf; data = ta_data arg; version = ta_version arg
      in if m \<noteq> KAAPI_ACCESS_MODE_V \<and> (KAAPI_ACCESS_IS_ONLYWRITE m \<or> KAAPI_ACCESS_IS_CUMULWRITE m) \<and> data \<noteq> version
         then (let h = (if \<not> KAAPI_ACCESS_IS_CUMULWRITE m
                        then (case pf_assign pf of
                                None \<Rightarrow> set_cell data (dh_cell h version) h
                              | Some f \<Rightarrow> set_cell data (f (dh_cell h data) (dh_cell h version)) h)
                        else if \<not> in_place pf
                        then set_cell data (pf_reduce pf (dh_cell h data) (dh_cell h version)) h
                        else h)
               in if \<not> in_place pf then h\<lparr>dh_freed := version # dh_freed h\<rparr> else h)
         else h)"

definition kaapi_aftersteal_body :: "'v param_format list \<Rightarrow> 'v task_arg list \<Rightarrow> 'v data_heap \<Rightarrow> 'v data_heap" where
  "kaapi_aftersteal_body pfs args h = fold aftersteal_param (zip pfs args) h"

text \<open>The life of a stolen task: the thief runs and publishes it, then the owner reaches it and merges its results when its
  state says so.\<close>

definition stolen_task_run ::
  "('v task_arg list \<Rightarrow> 'v data_heap \<Rightarrow> 'v data_heap) \<Rightarrow> uint32 \<Rightarrow> uint32 \<Rightarrow> 'v param_format list \<Rightarrow> 'v task_arg list \<Rightarrow>
   'v data_heap \<Rightarrow> 'v data_heap option" where
  "stolen_task_run body war cw pfs args h =
     do { (copies, h) \<leftarrow> kaapi_tasksteal_body body war cw pfs args h;
          let (args, state) = kaapi_taskwrite_body war cw pfs copies args KAAPI_TASK_STATE_STEAL;
          Some (if exec_branch 0 (fst (kaapi_task_markexec state)) = OMerge 0
                then kaapi_aftersteal_body pfs args h else h) }"

section \<open>Bodies\<close>

text \<open>A body that keeps to its declared modes: from the values and the data of the accesses with a read mode it computes the
  results of the written parameters and the contributions to the accumulated ones.\<close>

definition input_of :: "'v data_heap \<Rightarrow> 'v param_format \<Rightarrow> 'v task_arg \<Rightarrow> 'v option" where
  "input_of h pf arg = (if mode_of pf = KAAPI_ACCESS_MODE_V then Some (ta_value arg)
     else if KAAPI_ACCESS_IS_READ (mode_of pf) then Some (dh_cell h (ta_data arg)) else None)"

definition output_of :: "'v param_format \<Rightarrow> 'v \<Rightarrow> 'v list \<Rightarrow> 'v \<Rightarrow> 'v" where
  "output_of pf v vs old =
     (if mode_of pf = KAAPI_ACCESS_MODE_V then old
      else if KAAPI_ACCESS_IS_CUMULWRITE (mode_of pf) then foldl (pf_reduce pf) old vs
      else if KAAPI_ACCESS_IS_WRITE (mode_of pf) then v
      else old)"

fun outputs :: "(nat \<Rightarrow> 'v) \<Rightarrow> (nat \<Rightarrow> 'v list) \<Rightarrow> nat \<Rightarrow> ('v param_format \<times> 'v task_arg) list \<Rightarrow> 'v data_heap \<Rightarrow> 'v data_heap" where
  "outputs w a i [] h = h"
| "outputs w a i ((pf, arg) # ps) h =
     outputs w a (Suc i) ps (set_cell (ta_data arg) (output_of pf (w i) (a i) (dh_cell h (ta_data arg))) h)"

definition body_of ::
  "('v option list \<Rightarrow> nat \<Rightarrow> 'v) \<Rightarrow> ('v option list \<Rightarrow> nat \<Rightarrow> 'v list) \<Rightarrow> 'v param_format list \<Rightarrow>
   'v task_arg list \<Rightarrow> 'v data_heap \<Rightarrow> 'v data_heap" where
  "body_of W A pfs args h =
     (let inputs = map (\<lambda>(pf, arg). input_of h pf arg) (zip pfs args) in outputs (W inputs) (A inputs) 0 (zip pfs args) h)"

section \<open>Modes\<close>

text \<open>The modes of the interface, \<^verbatim>\<open>V\<close>, \<^verbatim>\<open>R\<close>, \<^verbatim>\<open>W\<close>, \<^verbatim>\<open>RW\<close>, \<^verbatim>\<open>CW\<close> and \<^verbatim>\<open>STACK\<close>, with or without the bits that
  \<^verbatim>\<open>KAAPI_ACCESS_GET_MODE\<close> removes; \<^verbatim>\<open>IP\<close> is for \<^verbatim>\<open>CW\<close> only.\<close>

definition declared_mode :: "'v param_format \<Rightarrow> bool" where
  "declared_mode pf \<longleftrightarrow> mode_of pf \<in> {1, 2, 4, 6, 8, 22} \<and> (in_place pf \<longrightarrow> mode_of pf = 8)"

text \<open>What the runtime relies on in a format: copies and assignments copy, stack data has an assignment, and the
  reduction is associative with its neutral element on both sides.\<close>

definition lawful :: "'v param_format \<Rightarrow> bool" where
  "lawful pf \<longleftrightarrow> (\<forall>v. pf_cstorcopy pf v = v) \<and> (\<forall>f d s. pf_assign pf = Some f \<longrightarrow> f d s = s)
     \<and> (KAAPI_ACCESS_IS_STACK (mode_of pf) \<longrightarrow> pf_assign pf \<noteq> None)
     \<and> (KAAPI_ACCESS_IS_CUMULWRITE (mode_of pf) \<longrightarrow>
          (\<forall>x y z. pf_reduce pf x (pf_reduce pf y z) = pf_reduce pf (pf_reduce pf x y) z)
          \<and> (\<forall>x. pf_reduce pf x (pf_neutral pf) = x))"

abbreviation is_value :: "'v param_format \<Rightarrow> bool" where
  "is_value pf \<equiv> mode_of pf = KAAPI_ACCESS_MODE_V"

abbreviation is_stackp :: "'v param_format \<Rightarrow> bool" where
  "is_stackp pf \<equiv> KAAPI_ACCESS_IS_STACK (mode_of pf)"

lemmas mode_defs = KAAPI_ACCESS_MODE_V_def KAAPI_ACCESS_MODE_R_def KAAPI_ACCESS_MODE_W_def KAAPI_ACCESS_MODE_CW_def
  KAAPI_ACCESS_MODE_S_def KAAPI_ACCESS_IS_READ_def KAAPI_ACCESS_IS_WRITE_def KAAPI_ACCESS_IS_CUMULWRITE_def
  KAAPI_ACCESS_IS_STACK_def KAAPI_ACCESS_IS_ONLYWRITE_def

lemma declared_value: "declared_mode pf \<Longrightarrow> is_value pf \<Longrightarrow> \<not> copied_mode pf \<and> \<not> is_stackp pf"
  by (auto simp: declared_mode_def copied_mode_def mode_defs)

lemma declared_copied: "declared_mode pf \<Longrightarrow> copied_mode pf \<Longrightarrow>
    \<not> is_value pf \<and> \<not> is_stackp pf \<and> \<not> KAAPI_ACCESS_IS_READ (mode_of pf)"
  by (auto simp: declared_mode_def copied_mode_def mode_defs)

lemma declared_stack: "declared_mode pf \<Longrightarrow> is_stackp pf \<Longrightarrow>
    \<not> is_value pf \<and> \<not> copied_mode pf \<and> \<not> KAAPI_ACCESS_IS_ONLYWRITE (mode_of pf) \<and> \<not> KAAPI_ACCESS_IS_CUMULWRITE (mode_of pf)
    \<and> KAAPI_ACCESS_IS_READ (mode_of pf)"
  by (auto simp: declared_mode_def copied_mode_def mode_defs)

lemma declared_onlywrite: "declared_mode pf \<Longrightarrow> KAAPI_ACCESS_IS_ONLYWRITE (mode_of pf) \<Longrightarrow>
    \<not> KAAPI_ACCESS_IS_CUMULWRITE (mode_of pf) \<and> KAAPI_ACCESS_IS_WRITE (mode_of pf)"
  by (auto simp: declared_mode_def mode_defs)

lemma mask_bit: "w AND 2 ^ i = 0 \<longleftrightarrow> \<not> bit w i" for w :: uint32
  using and_shl1_nonzero [of w i] by blast

section \<open>The copies\<close>

definition marked :: "nat \<Rightarrow> uint32 \<Rightarrow> uint32 \<Rightarrow> 'v param_format \<Rightarrow> bool" where
  "marked i war cw pf \<longleftrightarrow> \<not> is_value pf \<and> (is_stackp pf \<or> copied_mode pf \<and> (bit war i \<or> bit cw i))"

text \<open>The copies of parameters other than stack data, in the order of their allocation.\<close>

fun heap_copies :: "nat \<Rightarrow> uint32 \<Rightarrow> uint32 \<Rightarrow> ('v param_format \<times> 'v task_arg) list \<Rightarrow> 'v task_arg list \<Rightarrow> nat list" where
  "heap_copies i war cw ((pf, arg) # ps) (c # cs) =
     (if marked i war cw pf \<and> \<not> is_stackp pf then [ta_data c] else []) @ heap_copies (Suc i) war cw ps cs"
| "heap_copies i war cw ps cs = []"

definition copy_ok :: "nat \<Rightarrow> uint32 \<Rightarrow> uint32 \<Rightarrow> 'v data_heap \<Rightarrow> 'v data_heap \<Rightarrow> 'v param_format \<times> 'v task_arg \<Rightarrow> 'v task_arg \<Rightarrow> bool" where
  "copy_ok i war cw h h' pa c \<longleftrightarrow>
     (if marked i war cw (fst pa)
      then dh_next h \<le> ta_data c \<and> ta_data c < dh_next h'
        \<and> (is_stackp (fst pa) \<longrightarrow> dh_cell h' (ta_data c) = dh_cell h (ta_data (snd pa)))
        \<and> (\<not> is_stackp (fst pa) \<and> bit cw i \<longrightarrow> dh_cell h' (ta_data c) = pf_neutral (fst pa))
      else c = snd pa)"

definition good_param :: "'v data_heap \<Rightarrow> 'v param_format \<times> 'v task_arg \<Rightarrow> bool" where
  "good_param h pa \<longleftrightarrow> lawful (fst pa) \<and> declared_mode (fst pa)
     \<and> (\<not> is_value (fst pa) \<longrightarrow> ta_data (snd pa) < dh_next h)
     \<and> (is_stackp (fst pa) \<longrightarrow> ta_size (snd pa) < 1024)"

definition grown :: "'v data_heap \<Rightarrow> 'v data_heap \<Rightarrow> bool" where
  "grown h h' \<longleftrightarrow> dh_next h \<le> dh_next h' \<and> (\<forall>p < dh_next h. dh_cell h' p = dh_cell h p) \<and> dh_freed h' = dh_freed h"

lemma grown_trans: "grown h h1 \<Longrightarrow> grown h1 h2 \<Longrightarrow> grown h h2"
  by (auto simp: grown_def)

lemma construct_sel [simp]:
  "dh_next (construct pf p h) = dh_next h" "dh_malloc (construct pf p h) = dh_malloc h" "dh_freed (construct pf p h) = dh_freed h"
  "q \<noteq> p \<Longrightarrow> dh_cell (construct pf p h) q = dh_cell h q"
  by (auto simp: construct_def set_cell_def split: option.split)

lemma set_cell_sel [simp]:
  "dh_next (set_cell p v h) = dh_next h" "dh_malloc (set_cell p v h) = dh_malloc h" "dh_freed (set_cell p v h) = dh_freed h"
  "dh_cell (set_cell p v h) q = (if q = p then v else dh_cell h q)"
  by (auto simp: set_cell_def)

lemma steal_param_spec:
  assumes "good_param h (pf, arg)"
  obtains c h' where "steal_param i war cw pf arg h = Some (c, h')" "grown h h'" "copy_ok i war cw h h' (pf, arg) c"
    "dh_malloc h' = (if marked i war cw pf \<and> \<not> is_stackp pf then [ta_data c] else []) @ dh_malloc h"
proof -
  have l: "lawful pf" "declared_mode pf" using assms by (simp_all add: good_param_def)
  consider "is_value pf" | "\<not> is_value pf" "is_stackp pf" | "\<not> is_value pf" "\<not> is_stackp pf" "marked i war cw pf"
    | "\<not> is_value pf" "\<not> is_stackp pf" "\<not> marked i war cw pf" by blast
  then show ?thesis
  proof cases
    case 1
    then show ?thesis using l that [of arg h] by (simp add: steal_param_def lawful_def grown_def copy_ok_def marked_def)
  next
    case 2
    obtain f where f: "pf_assign pf = Some f" using l(1) 2 by (auto simp: lawful_def)
    then have fs: "f d s = s" for d s using l(1) by (simp add: lawful_def)
    have s: "ta_size arg < 1024" "ta_data arg < dh_next h" using assms 2 by (simp_all add: good_param_def)
    show ?thesis
      using 2 s that [of "arg\<lparr>ta_data := dh_next h, ta_version := 0\<rparr>"
          "set_cell (dh_next h) (dh_cell h (ta_data arg)) (construct pf (dh_next h) (snd (pushdata h)))"]
      by (simp add: steal_param_def pushdata_def f fs grown_def copy_ok_def marked_def)
  next
    case 3
    then have m: "copied_mode pf \<and> (bit war i \<or> bit cw i)" by (simp add: marked_def)
    let ?h = "construct pf (dh_next h) (snd (heap_alloc h))"
    show ?thesis
      using 3 m that [of "arg\<lparr>ta_data := dh_next h, ta_version := 0\<rparr>" "set_cell (dh_next h) (pf_neutral pf) ?h"]
        that [of "arg\<lparr>ta_data := dh_next h, ta_version := 0\<rparr>" ?h]
      by (cases "bit cw i") (simp_all add: steal_param_def heap_alloc_def mask_bit grown_def copy_ok_def Let_def)
  next
    case 4
    then show ?thesis using that [of arg h]
      by (auto simp: steal_param_def mask_bit grown_def copy_ok_def marked_def)
  qed
qed

lemma copy_ok_later:
  "copy_ok i war cw h h1 pa c \<Longrightarrow> grown h1 h2 \<Longrightarrow> copy_ok i war cw h h2 pa c"
  by (auto simp: copy_ok_def grown_def)

lemma copy_ok_earlier:
  assumes "copy_ok i war cw h1 h2 pa c" "grown h h1" "good_param h pa"
  shows "copy_ok i war cw h h2 pa c"
  using assms declared_stack by (auto simp: copy_ok_def grown_def good_param_def marked_def)

lemma good_param_later: "good_param h pa \<Longrightarrow> grown h h' \<Longrightarrow> good_param h' pa"
  by (auto simp: good_param_def grown_def)

lemma steal_params_spec:
  assumes "\<forall>pa \<in> set ps. good_param h pa"
  shows "\<exists>cs h'. steal_params i war cw ps h = Some (cs, h') \<and> length cs = length ps \<and> grown h h'
    \<and> (\<forall>k < length ps. copy_ok (i + k) war cw h h' (ps ! k) (cs ! k))
    \<and> (\<forall>k l. k < l \<longrightarrow> l < length ps \<longrightarrow> marked (i + k) war cw (fst (ps ! k)) \<longrightarrow> marked (i + l) war cw (fst (ps ! l)) \<longrightarrow>
         ta_data (cs ! k) < ta_data (cs ! l))
    \<and> dh_malloc h' = rev (heap_copies i war cw ps cs) @ dh_malloc h"
  using assms
proof (induction ps arbitrary: i h)
  case Nil
  then show ?case by (simp add: grown_def)
next
  case (Cons pa ps)
  obtain pf arg where pa: "pa = (pf, arg)" by (cases pa)
  obtain c h1 where s: "steal_param i war cw pf arg h = Some (c, h1)" "grown h h1" "copy_ok i war cw h h1 (pf, arg) c"
    "dh_malloc h1 = (if marked i war cw pf \<and> \<not> is_stackp pf then [ta_data c] else []) @ dh_malloc h"
    using steal_param_spec Cons.prems pa by (metis list.set_intros(1))
  have g: "\<forall>pa \<in> set ps. good_param h1 pa" using Cons.prems good_param_later [OF _ s(2)] by simp
  obtain cs h2 where r: "steal_params (Suc i) war cw ps h1 = Some (cs, h2)" "length cs = length ps" "grown h1 h2"
    "\<forall>k < length ps. copy_ok (Suc i + k) war cw h1 h2 (ps ! k) (cs ! k)"
    "\<forall>k l. k < l \<longrightarrow> l < length ps \<longrightarrow> marked (Suc i + k) war cw (fst (ps ! k)) \<longrightarrow> marked (Suc i + l) war cw (fst (ps ! l)) \<longrightarrow>
         ta_data (cs ! k) < ta_data (cs ! l)"
    "dh_malloc h2 = rev (heap_copies (Suc i) war cw ps cs) @ dh_malloc h1"
    using Cons.IH [OF g, of "Suc i"] by auto
  have a: "copy_ok (i + k) war cw h h2 ((pa # ps) ! k) ((c # cs) ! k)" if "k < Suc (length ps)" for k
  proof (cases k)
    case 0
    then show ?thesis using copy_ok_later [OF s(3) r(3)] by (simp add: pa)
  next
    case (Suc j)
    then have "copy_ok (Suc i + j) war cw h1 h2 (ps ! j) (cs ! j)" "good_param h (ps ! j)"
      using r(4) that Cons.prems by auto
    then show ?thesis using copy_ok_earlier [OF _ s(2)] Suc by simp
  qed
  have d: "ta_data ((c # cs) ! k) < ta_data ((c # cs) ! l)"
    if kl: "k < l" "l < Suc (length ps)" "marked (i + k) war cw (fst ((pa # ps) ! k))" "marked (i + l) war cw (fst ((pa # ps) ! l))" for k l
  proof -
    obtain m where l: "l = Suc m" using kl(1) by (cases l) auto
    then have "copy_ok (Suc i + m) war cw h1 h2 (ps ! m) (cs ! m)" using r(4) that by auto
    then have m: "dh_next h1 \<le> ta_data (cs ! m)" using that(4) l by (simp add: copy_ok_def)
    show ?thesis
    proof (cases k)
      case 0
      then have "ta_data c < dh_next h1" using s(3) that(3) pa by (simp add: copy_ok_def)
      then show ?thesis using m 0 l by simp
    next
      case (Suc j)
      then show ?thesis using r(5) that l by simp
    qed
  qed
  show ?case using s(1,4) r(1,2,6) a d grown_trans [OF s(2) r(3)] by (simp add: pa)
qed

section \<open>Bodies and merges, cell by cell\<close>

definition writes :: "'v param_format \<Rightarrow> bool" where
  "writes pf \<longleftrightarrow> \<not> is_value pf \<and> (KAAPI_ACCESS_IS_WRITE (mode_of pf) \<or> KAAPI_ACCESS_IS_CUMULWRITE (mode_of pf))"

lemma output_keeps: "\<not> writes pf \<Longrightarrow> output_of pf v vs old = old"
  by (auto simp: writes_def output_of_def)

lemma outputs_sel [simp]:
  "dh_next (outputs w a i ps h) = dh_next h" "dh_malloc (outputs w a i ps h) = dh_malloc h"
  "dh_freed (outputs w a i ps h) = dh_freed h"
  by (induction w a i ps h rule: outputs.induct) simp_all

lemma outputs_other:
  assumes "\<forall>pa \<in> set ps. writes (fst pa) \<longrightarrow> ta_data (snd pa) \<noteq> p"
  shows "dh_cell (outputs w a i ps h) p = dh_cell h p"
  using assms by (induction w a i ps h rule: outputs.induct) (auto simp: output_keeps)

lemma outputs_at:
  assumes "\<forall>k < length ps. \<forall>l < length ps. k \<noteq> l \<longrightarrow> writes (fst (ps ! k)) \<longrightarrow> writes (fst (ps ! l)) \<longrightarrow>
      ta_data (snd (ps ! k)) \<noteq> ta_data (snd (ps ! l))"
    and "k < length ps" "writes (fst (ps ! k))"
  shows "dh_cell (outputs w a i ps h) (ta_data (snd (ps ! k))) =
    output_of (fst (ps ! k)) (w (i + k)) (a (i + k)) (dh_cell h (ta_data (snd (ps ! k))))"
  using assms
proof (induction ps arbitrary: i k h)
  case (Cons pa ps)
  obtain pf arg where pa: "pa = (pf, arg)" by (cases pa)
  let ?h = "set_cell (ta_data arg) (output_of pf (w i) (a i) (dh_cell h (ta_data arg))) h"
  have d: "\<forall>k < length ps. \<forall>l < length ps. k \<noteq> l \<longrightarrow> writes (fst (ps ! k)) \<longrightarrow> writes (fst (ps ! l)) \<longrightarrow>
      ta_data (snd (ps ! k)) \<noteq> ta_data (snd (ps ! l))"
  proof (intro allI impI)
    fix k l assume "k < length ps" "l < length ps" "k \<noteq> l" "writes (fst (ps ! k))" "writes (fst (ps ! l))"
    then show "ta_data (snd (ps ! k)) \<noteq> ta_data (snd (ps ! l))"
      using Cons.prems(1) [rule_format, of "Suc k" "Suc l"] by simp
  qed
  show ?case
  proof (cases k)
    case 0
    have "\<forall>pb \<in> set ps. writes (fst pb) \<longrightarrow> ta_data (snd pb) \<noteq> ta_data arg"
    proof (intro ballI impI)
      fix pb assume "pb \<in> set ps" "writes (fst pb)"
      then obtain l where "l < length ps" "pb = ps ! l" by (auto simp: in_set_conv_nth)
      then show "ta_data (snd pb) \<noteq> ta_data arg"
        using Cons.prems(1) [rule_format, of 0 "Suc l"] Cons.prems(3) \<open>writes (fst pb)\<close> 0 pa by simp
    qed
    then show ?thesis using 0 by (simp add: pa outputs_other)
  next
    case (Suc j)
    have j: "j < length ps" "writes (fst (ps ! j))" using Cons.prems(2,3) Suc by simp_all
    have "dh_cell ?h (ta_data (snd (ps ! j))) = dh_cell h (ta_data (snd (ps ! j)))"
      using Cons.prems(1) [rule_format, of 0 "Suc j"] j pa by (cases "writes pf") (auto simp: output_keeps)
    then show ?thesis using Cons.IH [OF d j, of "Suc i" ?h] Suc by (simp add: pa)
  qed
qed simp

definition merges :: "'v param_format \<times> 'v task_arg \<Rightarrow> bool" where
  "merges pa \<longleftrightarrow> copied_mode (fst pa) \<and> ta_data (snd pa) \<noteq> ta_version (snd pa)"

definition merged :: "'v param_format \<Rightarrow> 'v \<Rightarrow> 'v \<Rightarrow> 'v" where
  "merged pf d s = (if KAAPI_ACCESS_IS_CUMULWRITE (mode_of pf) then pf_reduce pf d s else s)"

lemma aftersteal_param_eq:
  assumes "lawful (fst pa)" "declared_mode (fst pa)"
  shows "aftersteal_param pa h =
    (if merges pa
     then (set_cell (ta_data (snd pa)) (merged (fst pa) (dh_cell h (ta_data (snd pa))) (dh_cell h (ta_version (snd pa)))) h)
            \<lparr>dh_freed := ta_version (snd pa) # dh_freed h\<rparr>
     else h)"
proof -
  obtain pf arg where pa: "pa = (pf, arg)" by (cases pa)
  have ip: "in_place pf \<Longrightarrow> mode_of pf = 8" using assms(2) by (simp add: declared_mode_def pa)
  show ?thesis
  proof (cases "copied_mode pf")
    case True
    have i: "\<not> in_place pf"
    proof
      assume "in_place pf"
      then show False using True ip by (simp add: copied_mode_def mode_defs)
    qed
    have n: "\<not> is_value pf" "KAAPI_ACCESS_IS_ONLYWRITE (mode_of pf) \<or> KAAPI_ACCESS_IS_CUMULWRITE (mode_of pf)"
      using declared_copied [of pf] True assms(2) pa by (auto simp: copied_mode_def)
    note n = n i
    show ?thesis
    proof (cases "pf_assign pf")
      case None
      then show ?thesis using True n by (simp add: aftersteal_param_def pa merges_def merged_def Let_def)
    next
      case (Some f)
      then have "f d s = s" for d s using assms(1) by (simp add: lawful_def pa)
      then show ?thesis using True n Some by (simp add: aftersteal_param_def pa merges_def merged_def Let_def)
    qed
  next
    case False
    then show ?thesis by (auto simp: aftersteal_param_def pa merges_def copied_mode_def Let_def)
  qed
qed

lemma aftersteal_sel:
  assumes "\<forall>pa \<in> set ps. lawful (fst pa) \<and> declared_mode (fst pa)"
  shows "dh_malloc (fold aftersteal_param ps h) = dh_malloc h \<and>
    dh_freed (fold aftersteal_param ps h) = rev (map (\<lambda>pa. ta_version (snd pa)) (filter merges ps)) @ dh_freed h"
  using assms by (induction ps arbitrary: h) (simp_all add: aftersteal_param_eq)

lemma aftersteal_other:
  assumes "\<forall>pa \<in> set ps. lawful (fst pa) \<and> declared_mode (fst pa)" "\<forall>pa \<in> set ps. merges pa \<longrightarrow> ta_data (snd pa) \<noteq> p"
  shows "dh_cell (fold aftersteal_param ps h) p = dh_cell h p"
  using assms by (induction ps arbitrary: h) (auto simp: aftersteal_param_eq)

lemma aftersteal_at:
  assumes "\<forall>pa \<in> set ps. lawful (fst pa) \<and> declared_mode (fst pa)"
    and "\<forall>k < length ps. \<forall>l < length ps. k \<noteq> l \<longrightarrow> merges (ps ! k) \<longrightarrow> merges (ps ! l) \<longrightarrow>
      ta_data (snd (ps ! k)) \<noteq> ta_data (snd (ps ! l))"
    and "\<forall>pa \<in> set ps. \<forall>pb \<in> set ps. merges pa \<longrightarrow> merges pb \<longrightarrow> ta_version (snd pa) \<noteq> ta_data (snd pb)"
    and "k < length ps" "merges (ps ! k)"
  shows "dh_cell (fold aftersteal_param ps h) (ta_data (snd (ps ! k))) =
    merged (fst (ps ! k)) (dh_cell h (ta_data (snd (ps ! k)))) (dh_cell h (ta_version (snd (ps ! k))))"
  using assms
proof (induction ps arbitrary: k h)
  case (Cons pa ps)
  have g: "\<forall>pa \<in> set ps. lawful (fst pa) \<and> declared_mode (fst pa)" "lawful (fst pa)" "declared_mode (fst pa)"
    using Cons.prems(1) by simp_all
  have d: "\<forall>k < length ps. \<forall>l < length ps. k \<noteq> l \<longrightarrow> merges (ps ! k) \<longrightarrow> merges (ps ! l) \<longrightarrow>
      ta_data (snd (ps ! k)) \<noteq> ta_data (snd (ps ! l))"
  proof (intro allI impI)
    fix k l assume "k < length ps" "l < length ps" "k \<noteq> l" "merges (ps ! k)" "merges (ps ! l)"
    then show "ta_data (snd (ps ! k)) \<noteq> ta_data (snd (ps ! l))"
      using Cons.prems(2) [rule_format, of "Suc k" "Suc l"] by simp
  qed
  have v: "\<forall>pa \<in> set ps. \<forall>pb \<in> set ps. merges pa \<longrightarrow> merges pb \<longrightarrow> ta_version (snd pa) \<noteq> ta_data (snd pb)"
    using Cons.prems(3) by simp
  show ?case
  proof (cases k)
    case 0
    have "\<forall>pb \<in> set ps. merges pb \<longrightarrow> ta_data (snd pb) \<noteq> ta_data (snd pa)"
    proof (intro ballI impI)
      fix pb assume "pb \<in> set ps" "merges pb"
      then obtain l where "l < length ps" "pb = ps ! l" by (auto simp: in_set_conv_nth)
      then show "ta_data (snd pb) \<noteq> ta_data (snd pa)"
        using Cons.prems(2) [rule_format, of 0 "Suc l"] Cons.prems(5) \<open>merges pb\<close> 0 by simp
    qed
    then show ?thesis using 0 Cons.prems(5) by (simp add: aftersteal_other [OF g(1)] aftersteal_param_eq [OF g(2,3)])
  next
    case (Suc j)
    have j: "j < length ps" "merges (ps ! j)" using Cons.prems(4,5) Suc by simp_all
    have "dh_cell (aftersteal_param pa h) (ta_data (snd (ps ! j))) = dh_cell h (ta_data (snd (ps ! j)))"
      using Cons.prems(2) [rule_format, of 0 "Suc j"] j by (auto simp: aftersteal_param_eq [OF g(2,3)])
    moreover have "dh_cell (aftersteal_param pa h) (ta_version (snd (ps ! j))) = dh_cell h (ta_version (snd (ps ! j)))"
      using Cons.prems(3) j by (auto simp: aftersteal_param_eq [OF g(2,3)])
    ultimately show ?thesis using Cons.IH [OF g(1) d v j, of "aftersteal_param pa h"] Suc by simp
  qed
qed simp

lemma write_params_spec:
  assumes "length cs = length ps"
  shows "fst (write_params i ps cs war) =
      map2 (\<lambda>pa c. if \<not> is_value (fst pa) \<and> copied_mode (fst pa) then (snd pa)\<lparr>ta_version := ta_data c\<rparr> else snd pa) ps cs
    \<and> (bit (snd (write_params i ps cs war)) j \<longleftrightarrow> bit war j \<and>
         (\<forall>k < length ps. j = i + k \<longrightarrow> is_value (fst (ps ! k)) \<or> copied_mode (fst (ps ! k)) \<or> \<not> is_stackp (fst (ps ! k))))"
  using assms
proof (induction i ps cs war rule: write_params.induct)
  case (1 i pf arg ps copy copies war)
  have b: "bit (war AND NOT (2 ^ i)) j \<longleftrightarrow> bit war j \<and> j \<noteq> i" for war :: uint32
    by (auto simp: bit_and_iff bit_not_iff bit_exp_iff dest: bit_imp_possible_bit)
  have a: "(\<forall>k < Suc (length ps). P k) \<longleftrightarrow> P 0 \<and> (\<forall>k < length ps. P (Suc k))" for P
    by (auto simp: less_Suc_eq_0_disj)
  show ?case using 1
    by (auto simp: Let_def split_def b a)
qed simp_all

end
