(* ===== verification/Copy_Props.thy ===== *)
theory Copy_Props
  imports Steal_Copy Steal_Scan
begin

text \<open>
  What the copies of \<open>Steal_Copy\<close> promise: a task that is ready by the test of \<open>Stack_Steal\<close>, run by a thief on copies and
  merged by the owner, leaves the data as a direct call of its body does, and each copy is freed once.
\<close>

section \<open>Running a task on a thief and running it directly\<close>

text \<open>The copy holds what the merge adds to the original.\<close>

lemma merged_output:
  assumes "lawful pf" "declared_mode pf" "copied_mode pf" "KAAPI_ACCESS_IS_CUMULWRITE (mode_of pf) \<Longrightarrow> s = pf_neutral pf"
  shows "merged pf d (output_of pf v vs s) = output_of pf v vs d"
proof (cases "KAAPI_ACCESS_IS_CUMULWRITE (mode_of pf)")
  case True
  then have l: "\<And>x y z. pf_reduce pf x (pf_reduce pf y z) = pf_reduce pf (pf_reduce pf x y) z"
    "\<And>x. pf_reduce pf x (pf_neutral pf) = x" using assms(1) by (simp_all add: lawful_def)
  have "pf_reduce pf d (foldl (pf_reduce pf) e vs) = foldl (pf_reduce pf) (pf_reduce pf d e) vs" for e
    by (induction vs arbitrary: e) (simp_all add: l(1))
  moreover have "\<not> is_value pf" using declared_copied assms(2,3) by blast
  ultimately show ?thesis using True assms(4) by (simp add: merged_def output_of_def l(2))
next
  case False
  then have "KAAPI_ACCESS_IS_WRITE (mode_of pf)" "\<not> is_value pf"
    using assms(2,3) declared_copied declared_onlywrite by (auto simp: copied_mode_def)
  then show ?thesis using False by (simp add: merged_def output_of_def)
qed

lemma written_copied_or_kept: "declared_mode pf \<Longrightarrow> copied_mode pf \<Longrightarrow> writes pf"
  using declared_copied by (auto simp: copied_mode_def writes_def KAAPI_ACCESS_IS_ONLYWRITE_def)

lemma input_copy:
  assumes "good_param h pa" "copy_ok i war cw h h' pa c" "grown h h'"
  shows "input_of h' (fst pa) c = input_of h (fst pa) (snd pa)"
proof (cases "marked i war cw (fst pa)")
  case True
  then show ?thesis
    using assms declared_copied declared_stack
    by (auto simp: marked_def copy_ok_def good_param_def input_of_def)
next
  case False
  then show ?thesis using assms by (auto simp: copy_ok_def good_param_def input_of_def grown_def)
qed

text \<open>What the readiness test guarantees of the masks: an accumulated parameter that is copied gets the neutral element.\<close>

definition masks_ok :: "uint32 \<Rightarrow> uint32 \<Rightarrow> 'v param_format list \<Rightarrow> bool" where
  "masks_ok war cw pfs \<longleftrightarrow>
     (\<forall>k < length pfs. KAAPI_ACCESS_IS_CUMULWRITE (mode_of (pfs ! k)) \<longrightarrow> bit war k \<longrightarrow> bit cw k)
     \<and> (\<forall>k. bit war k \<or> bit cw k \<longrightarrow> k < length pfs)"

definition no_alias :: "('v param_format \<times> 'v task_arg) list \<Rightarrow> bool" where
  "no_alias ps \<longleftrightarrow> (\<forall>k < length ps. \<forall>l < length ps. k \<noteq> l \<longrightarrow> writes (fst (ps ! k)) \<longrightarrow> writes (fst (ps ! l)) \<longrightarrow>
      ta_data (snd (ps ! k)) \<noteq> ta_data (snd (ps ! l)))"

text \<open>The arguments of the stolen task once the copies are published.\<close>

definition published :: "('v param_format \<times> 'v task_arg) list \<Rightarrow> 'v task_arg list \<Rightarrow> ('v param_format \<times> 'v task_arg) list" where
  "published ps cs = map2 (\<lambda>pa c. (fst pa, if \<not> is_value (fst pa) \<and> copied_mode (fst pa)
     then (snd pa)\<lparr>ta_version := ta_data c\<rparr> else snd pa)) ps cs"

lemma published_nth:
  assumes "length cs = length ps" "k < length ps"
  shows "fst (published ps cs ! k) = fst (ps ! k)" "ta_data (snd (published ps cs ! k)) = ta_data (snd (ps ! k))"
    "declared_mode (fst (ps ! k)) \<Longrightarrow> copied_mode (fst (ps ! k)) \<Longrightarrow> ta_version (snd (published ps cs ! k)) = ta_data (cs ! k)"
  using assms declared_copied by (auto simp: published_def)

lemma published_merges:
  assumes "length cs = length ps" "k < length ps" "good_param h (ps ! k)" "copy_ok i war cw h h' (ps ! k) (cs ! k)"
  shows "merges (published ps cs ! k) \<longleftrightarrow> marked i war cw (fst (ps ! k)) \<and> \<not> is_stackp (fst (ps ! k))"
proof (cases "copied_mode (fst (ps ! k))")
  case True
  then have c: "\<not> is_value (fst (ps ! k))" "\<not> is_stackp (fst (ps ! k))" "ta_version (snd (published ps cs ! k)) = ta_data (cs ! k)"
    using declared_copied assms(1-3) published_nth(3) by (auto simp: good_param_def)
  then have "ta_data (snd (ps ! k)) < dh_next h" using assms(3) by (simp add: good_param_def)
  then show ?thesis using True c assms(4) published_nth [OF assms(1,2)]
    by (cases "marked i war cw (fst (ps ! k))") (auto simp: merges_def copy_ok_def)
next
  case False
  then show ?thesis using published_nth [OF assms(1,2)] by (auto simp: merges_def marked_def)
qed

lemma freed_copies:
  assumes "length cs = length ps" "\<forall>k < length ps. good_param h (ps ! k) \<and> copy_ok (i + k) war cw h h' (ps ! k) (cs ! k)"
  shows "map (\<lambda>pa. ta_version (snd pa)) (filter merges (published ps cs)) = heap_copies i war cw ps cs"
  using assms
proof (induction cs ps arbitrary: i rule: list_induct2)
  case Nil
  then show ?case by (simp add: published_def)
next
  case (Cons c cs pa ps)
  obtain pf arg where pa: "pa = (pf, arg)" by (cases pa)
  have t: "map (\<lambda>pa. ta_version (snd pa)) (filter merges (published ps cs)) = heap_copies (Suc i) war cw ps cs"
    using Cons.IH [of "Suc i"] Cons.prems by fastforce
  have z: "good_param h (pf, arg)" "copy_ok i war cw h h' (pf, arg) c" using Cons.prems pa by fastforce+
  let ?r = "published [(pf, arg)] [c] ! 0"
  have p: "published ((pf, arg) # ps) (c # cs) = ?r # published ps cs" by (simp add: published_def pa)
  have m: "merges ?r \<longleftrightarrow> marked i war cw pf \<and> \<not> is_stackp pf"
    using published_merges [of "[c]" "[(pf, arg)]" 0 h i war cw h'] z by simp
  have "merges ?r \<Longrightarrow> ta_version (snd ?r) = ta_data c"
    using m published_nth(3) [of "[c]" "[(pf, arg)]" 0] z(1) by (auto simp: marked_def good_param_def)
  then show ?case using m t by (auto simp: p pa)
qed

lemma heap_copies_distinct:
  assumes "length cs = length ps"
    "\<forall>k l. k < l \<longrightarrow> l < length ps \<longrightarrow> marked (i + k) war cw (fst (ps ! k)) \<longrightarrow> marked (i + l) war cw (fst (ps ! l)) \<longrightarrow>
         ta_data (cs ! k) < ta_data (cs ! l)"
  shows "distinct (heap_copies i war cw ps cs) \<and>
    set (heap_copies i war cw ps cs) \<subseteq> {ta_data (cs ! k) |k. k < length ps \<and> marked (i + k) war cw (fst (ps ! k))}"
  using assms
proof (induction cs ps arbitrary: i rule: list_induct2)
  case (Cons c cs pa ps)
  obtain pf arg where pa: "pa = (pf, arg)" by (cases pa)
  have "\<forall>k l. k < l \<longrightarrow> l < length ps \<longrightarrow> marked (Suc i + k) war cw (fst (ps ! k)) \<longrightarrow> marked (Suc i + l) war cw (fst (ps ! l)) \<longrightarrow>
         ta_data (cs ! k) < ta_data (cs ! l)"
  proof (intro allI impI)
    fix k l assume "k < l" "l < length ps" "marked (Suc i + k) war cw (fst (ps ! k))" "marked (Suc i + l) war cw (fst (ps ! l))"
    then show "ta_data (cs ! k) < ta_data (cs ! l)" using Cons.prems [rule_format, of "Suc k" "Suc l"] by simp
  qed
  note t = Cons.IH [OF this]
  have c: "ta_data c < ta_data (cs ! k)" if "marked i war cw pf" "k < length ps" "marked (Suc (i + k)) war cw (fst (ps ! k))" for k
    using Cons.prems [rule_format, of 0 "Suc k"] that pa by simp
  have s: "set (heap_copies (Suc i) war cw ps cs) \<subseteq>
      {ta_data ((c # cs) ! k) |k. k < Suc (length ps) \<and> marked (i + k) war cw (fst ((pa # ps) ! k))}"
  proof
    fix x assume "x \<in> set (heap_copies (Suc i) war cw ps cs)"
    then obtain k where "x = ta_data (cs ! k)" "k < length ps" "marked (Suc i + k) war cw (fst (ps ! k))" using t by blast
    then show "x \<in> {ta_data ((c # cs) ! k) |k. k < Suc (length ps) \<and> marked (i + k) war cw (fst ((pa # ps) ! k))}"
      by (intro CollectI exI [of _ "Suc k"]) simp
  qed
  have "ta_data c \<notin> set (heap_copies (Suc i) war cw ps cs)" if "marked i war cw pf" using t c [OF that] by fastforce
  moreover have "marked i war cw pf \<Longrightarrow>
      ta_data c \<in> {ta_data ((c # cs) ! k) |k. k < Suc (length ps) \<and> marked (i + k) war cw (fst ((pa # ps) ! k))}"
    by (intro CollectI exI [of _ 0]) (simp add: pa)
  ultimately show ?case using t s by (auto simp: pa)
qed simp

lemma merge_nothing:
  "\<forall>pa \<in> set ps. lawful (fst pa) \<and> declared_mode (fst pa) \<and> \<not> merges pa \<Longrightarrow> fold aftersteal_param ps h = h"
  by (induction ps) (simp_all add: aftersteal_param_eq)

lemma zip_fst_nth: "length cs = length ps \<Longrightarrow> k < length ps \<Longrightarrow> zip (map fst ps) cs ! k = (fst (ps ! k), cs ! k)"
  by simp

lemma output_value: "writes pf \<Longrightarrow> \<not> is_value pf" by (simp add: writes_def)

lemma stolen_cells:
  fixes ps :: "('v param_format \<times> 'v task_arg) list"
  assumes good: "\<forall>pa \<in> set ps. good_param h pa" and noalias: "no_alias ps" and masks: "masks_ok war cw (map fst ps)"
    and len: "length cs = length ps" and grown: "grown h h1"
    and copies: "\<forall>k < length ps. copy_ok k war cw h h1 (ps ! k) (cs ! k)"
    and order: "\<forall>k l. k < l \<longrightarrow> l < length ps \<longrightarrow> marked k war cw (fst (ps ! k)) \<longrightarrow> marked l war cw (fst (ps ! l)) \<longrightarrow>
         ta_data (cs ! k) < ta_data (cs ! l)"
    and p: "p < dh_next h" "\<forall>pa \<in> set ps. is_stackp (fst pa) \<longrightarrow> ta_data (snd pa) \<noteq> p"
  shows "dh_cell (fold aftersteal_param (published ps cs) (outputs w a 0 (zip (map fst ps) cs) h1)) p =
    dh_cell (outputs w a 0 ps h) p"
proof -
  let ?qs = "zip (map fst ps) cs" and ?rs = "published ps cs"
  let ?m = "\<lambda>k. marked k war cw (fst (ps ! k))"
  define h2 where "h2 = outputs w a 0 ?qs h1"
  have q: "?qs ! k = (fst (ps ! k), cs ! k)" if "k < length ps" for k using zip_fst_nth len that by blast
  have ql: "length ?qs = length ps" "length ?rs = length ps" using len by (simp_all add: published_def)
  have g: "good_param h (ps ! k)" "lawful (fst (ps ! k))" "declared_mode (fst (ps ! k))" if "k < length ps" for k
    using good that by (auto simp: good_param_def)
  have dat: "ta_data (snd (ps ! k)) < dh_next h" if "k < length ps" "writes (fst (ps ! k))" for k
    using g(1) [OF that(1)] output_value [OF that(2)] by (simp add: good_param_def)
  have new: "dh_next h \<le> ta_data (cs ! k)" if "k < length ps" "?m k" for k
    using copies that by (simp add: copy_ok_def)
  have old: "cs ! k = snd (ps ! k)" if "k < length ps" "\<not> ?m k" for k
    using copies that by (simp add: copy_ok_def)
  have al: "ta_data (snd (ps ! k)) \<noteq> ta_data (snd (ps ! l))"
    if "k < length ps" "l < length ps" "k \<noteq> l" "writes (fst (ps ! k))" "writes (fst (ps ! l))" for k l
    using noalias that by (simp add: no_alias_def)
  have qal: "ta_data (cs ! k) \<noteq> ta_data (cs ! l)"
    if "k < length ps" "l < length ps" "k \<noteq> l" "writes (fst (ps ! k))" "writes (fst (ps ! l))" for k l
    using that al [OF that] old [of k] old [of l] new [of k] new [of l] dat [of k] dat [of l]
      order [rule_format, of k l] order [rule_format, of l k]
    by (cases "?m k"; cases "?m l"; cases "k < l") auto
  have r: "fst (?rs ! k) = fst (ps ! k)" "ta_data (snd (?rs ! k)) = ta_data (snd (ps ! k))"
    "merges (?rs ! k) \<longleftrightarrow> ?m k \<and> \<not> is_stackp (fst (ps ! k))" if "k < length ps" for k
    using published_nth(1,2) [OF len that] published_merges [OF len that g(1) [OF that], of k war cw h1] copies that by simp_all
  have rw: "writes (fst (ps ! k))" "ta_version (snd (?rs ! k)) = ta_data (cs ! k)" "copied_mode (fst (ps ! k))"
    if "k < length ps" "merges (?rs ! k)" for k
  proof -
    show c: "copied_mode (fst (ps ! k))" using r(1) [OF that(1)] that(2) by (simp add: merges_def)
    show "writes (fst (ps ! k))" using c g(3) [OF that(1)] written_copied_or_kept by blast
    show "ta_version (snd (?rs ! k)) = ta_data (cs ! k)" using published_nth(3) [OF len that(1) g(3) [OF that(1)] c] .
  qed
  have rg: "\<forall>pa \<in> set ?rs. lawful (fst pa) \<and> declared_mode (fst pa)"
    using g(2,3) r(1) ql(2) by (metis in_set_conv_nth)
  have base: "dh_cell h1 p = dh_cell h p" using grown p(1) by (simp add: grown_def)
  have h2_other: "dh_cell h2 p = dh_cell h p" if "\<forall>k < length ps. writes (fst (ps ! k)) \<longrightarrow> ta_data (cs ! k) \<noteq> p"
  proof -
    have "\<forall>pa \<in> set ?qs. writes (fst pa) \<longrightarrow> ta_data (snd pa) \<noteq> p" using that q ql(1) by (metis fst_conv snd_conv in_set_conv_nth)
    then show ?thesis unfolding h2_def using base by (simp add: outputs_other)
  qed
  have h3_other: "dh_cell (fold aftersteal_param ?rs h2) p = dh_cell h2 p"
    if "\<forall>k < length ps. merges (?rs ! k) \<longrightarrow> ta_data (snd (ps ! k)) \<noteq> p"
    using that r(2) ql(2) by (intro aftersteal_other [OF rg] ballI impI) (metis in_set_conv_nth)
  have h2_at: "dh_cell h2 (ta_data (cs ! k)) = output_of (fst (ps ! k)) (w k) (a k) (dh_cell h1 (ta_data (cs ! k)))"
    if "k < length ps" "writes (fst (ps ! k))" for k
    using outputs_at [of ?qs k w a 0 h1] that q qal ql by (simp add: h2_def)
  show ?thesis unfolding h2_def [symmetric]
  proof (cases "\<exists>k < length ps. writes (fst (ps ! k)) \<and> ta_data (snd (ps ! k)) = p")
    case True
    then obtain k where k: "k < length ps" "writes (fst (ps ! k))" "ta_data (snd (ps ! k)) = p" by blast
    have ns: "\<not> is_stackp (fst (ps ! k))" using p(2) k by auto
    have d: "dh_cell (outputs w a 0 ps h) p = output_of (fst (ps ! k)) (w k) (a k) (dh_cell h p)"
      using outputs_at [of ps k w a 0 h] k al by simp
    show "dh_cell (fold aftersteal_param ?rs h2) p = dh_cell (outputs w a 0 ps h) p"
    proof (cases "?m k")
      case True
      then have m: "merges (?rs ! k)" using r(3) [OF k(1)] ns by simp
      have c: "p \<noteq> ta_data (cs ! l)" if "l < length ps" "writes (fst (ps ! l))" for l
        using new [OF that(1)] old [OF that(1)] p(1) al [OF k(1) that(1)] k that True by (cases "?m l"; cases "l = k") auto
      have "dh_cell h2 p = dh_cell h p" using c by (intro h2_other) auto
      moreover have "dh_cell (fold aftersteal_param ?rs h2) (ta_data (snd (?rs ! k))) =
        merged (fst (?rs ! k)) (dh_cell h2 (ta_data (snd (?rs ! k)))) (dh_cell h2 (ta_version (snd (?rs ! k))))"
      proof (rule aftersteal_at [OF rg])
        show "\<forall>k < length ?rs. \<forall>l < length ?rs. k \<noteq> l \<longrightarrow> merges (?rs ! k) \<longrightarrow> merges (?rs ! l) \<longrightarrow>
            ta_data (snd (?rs ! k)) \<noteq> ta_data (snd (?rs ! l))"
          using r(2) rw(1) al ql(2) by simp
        show "\<forall>pa \<in> set ?rs. \<forall>pb \<in> set ?rs. merges pa \<longrightarrow> merges pb \<longrightarrow> ta_version (snd pa) \<noteq> ta_data (snd pb)"
        proof (intro ballI impI)
          fix pa pb assume "pa \<in> set ?rs" "pb \<in> set ?rs" "merges pa" "merges pb"
          then obtain i j where ij: "i < length ps" "pa = ?rs ! i" "merges (?rs ! i)" "j < length ps" "pb = ?rs ! j" "merges (?rs ! j)"
            using ql(2) by (metis in_set_conv_nth)
          then show "ta_version (snd pa) \<noteq> ta_data (snd pb)"
            using new [OF ij(1)] r(3) [OF ij(1)] rw(2) [OF ij(1,3)] r(2) [OF ij(4)] dat [OF ij(4) rw(1) [OF ij(4,6)]] by auto
        qed
      qed (use k ql m in auto)
      moreover have "dh_cell h2 (ta_data (cs ! k)) = output_of (fst (ps ! k)) (w k) (a k) (dh_cell h1 (ta_data (cs ! k)))"
        using h2_at k by blast
      moreover have "dh_cell h1 (ta_data (cs ! k)) = pf_neutral (fst (ps ! k))" if "KAAPI_ACCESS_IS_CUMULWRITE (mode_of (fst (ps ! k)))"
      proof -
        have "bit cw k" using True masks that k(1) ns by (auto simp: marked_def masks_ok_def)
        then show ?thesis using copies k(1) True ns by (simp add: copy_ok_def)
      qed
      ultimately show ?thesis
        using r(1,2) [OF k(1)] rw(2) [OF k(1) m] d k(3) merged_output [OF g(2,3) [OF k(1)] rw(3) [OF k(1) m]] by simp
    next
      case False
      have "dh_cell (fold aftersteal_param ?rs h2) p = dh_cell h2 p"
        using r(3) rw(1) al [OF k(1)] k False by (intro h3_other) metis
      then show ?thesis using h2_at [OF k(1,2)] old [OF k(1) False] k(3) base d by simp
    qed
  next
    case False
    have "p \<noteq> ta_data (cs ! l)" if "l < length ps" "writes (fst (ps ! l))" for l
      using new [OF that(1)] old [OF that(1)] p(1) False that by (cases "?m l") auto
    then have "dh_cell h2 p = dh_cell h p" by (intro h2_other) auto
    moreover have "dh_cell (fold aftersteal_param ?rs h2) p = dh_cell h2 p" using rw(1) False by (intro h3_other) blast
    moreover have "dh_cell (outputs w a 0 ps h) p = dh_cell h p"
      using False by (intro outputs_other ballI impI) (metis in_set_conv_nth)
    ultimately show "dh_cell (fold aftersteal_param ?rs h2) p = dh_cell (outputs w a 0 ps h) p" by simp
  qed
qed

text \<open>The data a task may not leave to its successors: what its stack parameters refer to.\<close>

definition stack_data :: "'v param_format list \<Rightarrow> 'v task_arg list \<Rightarrow> nat set" where
  "stack_data pfs args = {ta_data arg |pf arg. (pf, arg) \<in> set (zip pfs args) \<and> is_stackp pf}"

lemma owner_after:
  "exec_branch 0 (fst (kaapi_task_markexec (kaapi_task_markterm KAAPI_TASK_STATE_STEAL))) \<noteq> OMerge 0"
  "exec_branch 0 (fst (kaapi_task_markexec (kaapi_task_markaftersteal KAAPI_TASK_STATE_STEAL))) = OMerge 0"
  by (simp_all add: exec_branch_def kaapi_task_markexec_def kaapi_task_markterm_def kaapi_task_markaftersteal_def state_defs)

lemma run_without_copies:
  "stolen_task_run body 0 0 pfs args h = Some (body args h)"
  by (simp add: stolen_task_run_def kaapi_tasksteal_body_def kaapi_taskwrite_body_def owner_after)

lemma stolen_run_merges:
  assumes "war \<noteq> 0 \<or> cw \<noteq> 0" "length args = length pfs" "\<forall>pa \<in> set (zip pfs args). good_param h pa"
    and m: "masks_ok war cw pfs"
    and s: "steal_params 0 war cw (zip pfs args) h = Some (cs, h1)" "length cs = length pfs"
    "\<forall>k < length pfs. copy_ok k war cw h h1 (zip pfs args ! k) (cs ! k)"
  shows "stolen_task_run body war cw pfs args h =
    Some (fold aftersteal_param (published (zip pfs args) cs) (body cs h1))"
proof -
  let ?ps = "zip pfs args"
  have l: "length cs = length ?ps" "length ?ps = length pfs" using s(2) assms(2) by simp_all
  obtain as w where w: "write_params 0 ?ps cs war = (as, w)" by fastforce
  have as: "zip pfs as = published ?ps cs"
  proof (rule nth_equalityI)
    have a: "as = map2 (\<lambda>pa c. if \<not> is_value (fst pa) \<and> copied_mode (fst pa)
        then (snd pa)\<lparr>ta_version := ta_data c\<rparr> else snd pa) ?ps cs"
      using conjunct1 [OF write_params_spec [OF l(1)], of 0 war] w by simp
    show "length (zip pfs as) = length (published ?ps cs)" using l by (simp add: a published_def)
    show "zip pfs as ! k = published ?ps cs ! k" if "k < length (zip pfs as)" for k
      using that l assms(2) by (simp add: a published_def)
  qed
  have g: "good_param h (?ps ! k)" if "k < length pfs" for k using assms(3) that l(2) nth_mem by metis
  have pl: "length (published ?ps cs) = length pfs" using l by (simp add: published_def)
  have none: "fold aftersteal_param (published ?ps cs) h' = h'" if z: "w = 0" "cw = 0" for h'
  proof (rule merge_nothing, intro ballI)
    fix pa assume "pa \<in> set (published ?ps cs)"
    then obtain k where k: "k < length pfs" "pa = published ?ps cs ! k"
      using pl by (auto simp: in_set_conv_nth)
    have f: "fst pa = fst (?ps ! k)" using published_nth(1) [OF l(1)] k l(2) by simp
    have "\<not> (marked k war cw (fst (?ps ! k)) \<and> \<not> is_stackp (fst (?ps ! k)))"
    proof
      assume a: "marked k war cw (fst (?ps ! k)) \<and> \<not> is_stackp (fst (?ps ! k))"
      then have "bit war k" "\<not> is_stackp (fst (?ps ! k))" using z by (auto simp: marked_def)
      then have "bit (snd (write_params 0 ?ps cs war)) k"
        using write_params_spec [OF l(1), of 0 war k] by auto
      then show False using z w by simp
    qed
    moreover have "k < length ?ps" using k(1) l(2) by simp
    note published_merges [OF l(1) this g [OF k(1)] s(3) [rule_format, OF k(1)]]
    ultimately have "\<not> merges pa" using k(2) by simp
    then show "lawful (fst pa) \<and> declared_mode (fst pa) \<and> \<not> merges pa" using g [OF k(1)] f by (simp add: good_param_def)
  qed
  show ?thesis
    using assms(1) s(1) w none as by (auto simp: stolen_task_run_def kaapi_tasksteal_body_def kaapi_taskwrite_body_def
        owner_after kaapi_aftersteal_body_def)
qed

lemma stolen_run_spec:
  fixes pfs :: "'v param_format list"
  assumes len: "length args = length pfs" and good: "\<forall>pa \<in> set (zip pfs args). good_param h pa"
    and na: "no_alias (zip pfs args)" and masks: "masks_ok war cw pfs"
  shows "\<exists>h' news. stolen_task_run (body_of W A pfs) war cw pfs args h = Some h'
    \<and> (\<forall>p < dh_next h. p \<notin> stack_data pfs args \<longrightarrow> dh_cell h' p = dh_cell (body_of W A pfs args h) p)
    \<and> dh_malloc h' = news @ dh_malloc h \<and> dh_freed h' = news @ dh_freed h \<and> distinct news"
proof (cases "war = 0 \<and> cw = 0")
  case True
  then show ?thesis by (simp add: run_without_copies body_of_def Let_def)
next
  case False
  let ?ps = "zip pfs args"
  have l: "length ?ps = length pfs" "map fst ?ps = pfs" using len by simp_all
  obtain cs h1 where s: "steal_params 0 war cw ?ps h = Some (cs, h1)" "length cs = length ?ps" "grown h h1"
    "\<forall>k < length ?ps. copy_ok k war cw h h1 (?ps ! k) (cs ! k)"
    "\<forall>k l. k < l \<longrightarrow> l < length ?ps \<longrightarrow> marked k war cw (fst (?ps ! k)) \<longrightarrow> marked l war cw (fst (?ps ! l)) \<longrightarrow>
         ta_data (cs ! k) < ta_data (cs ! l)"
    "dh_malloc h1 = rev (heap_copies 0 war cw ?ps cs) @ dh_malloc h"
    using steal_params_spec [OF good, of 0 war cw] by (simp only: add_0) blast
  have g: "good_param h (?ps ! k)" if "k < length ?ps" for k using good that nth_mem by blast
  have pub: "length (published ?ps cs) = length ?ps" using s(2) by (simp add: published_def)
  have inputs: "map (\<lambda>(pf, arg). input_of h1 pf arg) (zip pfs cs) = map (\<lambda>(pf, arg). input_of h pf arg) ?ps"
  proof (rule nth_equalityI)
    fix k assume "k < length (map (\<lambda>(pf, arg). input_of h1 pf arg) (zip pfs cs))"
    then have k: "k < length ?ps" using s(2) len by simp
    have "input_of h1 (fst (?ps ! k)) (cs ! k) = input_of h (fst (?ps ! k)) (snd (?ps ! k))"
      using input_copy [OF g [OF k] _ s(3)] s(4) k by blast
    then show "map (\<lambda>(pf, arg). input_of h1 pf arg) (zip pfs cs) ! k = map (\<lambda>(pf, arg). input_of h pf arg) ?ps ! k"
      using k s(2) len by simp
  qed (use s(2) l in simp)
  define inp where "inp = map (\<lambda>(pf, arg). input_of h pf arg) ?ps"
  have b: "body_of W A pfs cs h1 = outputs (W inp) (A inp) 0 (zip pfs cs) h1"
    "body_of W A pfs args h = outputs (W inp) (A inp) 0 ?ps h" by (simp_all add: body_of_def inputs inp_def Let_def)
  have r: "stolen_task_run (body_of W A pfs) war cw pfs args h = Some (fold aftersteal_param (published ?ps cs) (body_of W A pfs cs h1))"
    using stolen_run_merges [OF _ len good masks s(1)] False s(2,4) l(1) by auto
  have cells: "dh_cell (fold aftersteal_param (published ?ps cs) (body_of W A pfs cs h1)) p = dh_cell (body_of W A pfs args h) p"
    if "p < dh_next h" "p \<notin> stack_data pfs args" for p
  proof -
    have "\<forall>pa \<in> set ?ps. is_stackp (fst pa) \<longrightarrow> ta_data (snd pa) \<noteq> p"
      using that(2) by (fastforce simp: stack_data_def)
    then show ?thesis
      using stolen_cells [OF good na _ s(2,3,4,5) that(1), of "W inp" "A inp"] masks by (simp only: b l(2) not_False_eq_True)
  qed
  have rg: "\<forall>pa \<in> set (published ?ps cs). lawful (fst pa) \<and> declared_mode (fst pa)"
    using g published_nth(1) [OF s(2)] pub by (metis good_param_def in_set_conv_nth)
  have fr: "map (\<lambda>pa. ta_version (snd pa)) (filter merges (published ?ps cs)) = heap_copies 0 war cw ?ps cs"
    using freed_copies [OF s(2), of h 0 war cw h1] g s(4) by simp
  have d: "distinct (heap_copies 0 war cw ?ps cs)" using heap_copies_distinct [OF s(2), of 0 war cw] s(5) by simp
  have f1: "dh_freed (body_of W A pfs cs h1) = dh_freed h" "dh_malloc (body_of W A pfs cs h1) = dh_malloc h1"
    using s(3) by (simp_all add: b grown_def)
  show ?thesis
  proof (intro exI conjI allI impI)
    show "stolen_task_run (body_of W A pfs) war cw pfs args h = Some (fold aftersteal_param (published ?ps cs) (body_of W A pfs cs h1))"
      by (rule r)
    show "dh_malloc (fold aftersteal_param (published ?ps cs) (body_of W A pfs cs h1)) = rev (heap_copies 0 war cw ?ps cs) @ dh_malloc h"
      using aftersteal_sel [OF rg] f1 s(6) by simp
    show "dh_freed (fold aftersteal_param (published ?ps cs) (body_of W A pfs cs h1)) = rev (heap_copies 0 war cw ?ps cs) @ dh_freed h"
      using aftersteal_sel [OF rg] f1 fr by simp
  qed (use cells d in auto)
qed

section \<open>From the readiness test to the merge\<close>

lemma param_bits_range: "k \<in> param_bits P i ps M \<Longrightarrow> i \<le> k \<and> k < i + length ps"
  by (induction P i ps M rule: param_bits.induct) (auto split: if_splits)

lemma war_of_accumulation:
  "k \<in> param_bits param_war i ps M \<Longrightarrow> KAAPI_ACCESS_IS_CUMULWRITE (KAAPI_ACCESS_GET_MODE (fst (ps ! (k - i)))) \<Longrightarrow>
    k \<in> param_bits param_cw i ps M"
proof (induction ps arbitrary: i M)
  case (Cons p ps)
  show ?case
  proof (cases "k = i")
    case True
    then have "param_war M p" using Cons.prems(1) param_bits_range [of i param_war "Suc i" ps "note_access p M"]
      by (auto split: if_splits)
    then show ?thesis using True Cons.prems(2) by (simp add: param_war_def param_cw_def Let_def)
  next
    case False
    then have k: "k \<in> param_bits param_war (Suc i) ps (note_access p M)" using Cons.prems(1) by (auto split: if_splits)
    then have "k - i = Suc (k - Suc i)" using param_bits_range [OF k] by arith
    then show ?thesis using Cons.IH [OF k] Cons.prems(2) by simp
  qed
qed simp

abbreviation params_of :: "'v param_format list \<Rightarrow> 'v task_arg list \<Rightarrow> (access_mode \<times> uint64) list" where
  "params_of pfs args \<equiv> map2 (\<lambda>pf arg. (pf_mode pf, of_nat (ta_data arg))) pfs args"

lemma computeready_masks:
  assumes "hashmap_inv hh khm" "length args = length pfs" "length pfs \<le> 32"
    "kaapi_task_computeready (params_of pfs args) 0 0 hh khm = Some (wc, war, cw, hh', khm')"
  shows "masks_ok war cw pfs"
proof -
  let ?ps = "params_of pfs args"
  let ?M = "tab_modes hh khm"
  have b: "\<forall>k < 32. bit war k \<longleftrightarrow> k \<in> param_bits param_war 0 ?ps ?M" "\<forall>k < 32. bit cw k \<longleftrightarrow> k \<in> param_bits param_cw 0 ?ps ?M"
    using computeready_spec [OF assms(1), of ?ps] assms(4) by auto
  have l: "length ?ps = length pfs" using assms(2) by simp
  have k32: "bit w k \<Longrightarrow> k < 32" for w :: uint32 and k by (auto dest: bit_imp_le_length)
  have m: "fst (?ps ! k) = pf_mode (pfs ! k)" if "k < length pfs" for k using that assms(2) by simp
  show ?thesis unfolding masks_ok_def
  proof (intro conjI allI impI)
    fix k assume k: "k < length pfs" "KAAPI_ACCESS_IS_CUMULWRITE (mode_of (pfs ! k))" "bit war k"
    then have "k \<in> param_bits param_cw 0 ?ps ?M" using war_of_accumulation [of k 0 ?ps ?M] b(1) k32 [OF k(3)] k(2,3) m [OF k(1)] by simp
    then show "bit cw k" using b(2) k32 [OF k(3)] by blast
  next
    fix k assume "bit war k \<or> bit cw k"
    then have "k \<in> param_bits param_war 0 ?ps ?M \<or> k \<in> param_bits param_cw 0 ?ps ?M" using b k32 by blast
    then show "k < length pfs" using param_bits_range [of k _ 0 ?ps ?M] l by (metis add_0)
  qed
qed

text \<open>C9: A task of at most 32 parameters that the readiness test of a scan accepts, run by a thief on copies of its marked
  parameters and then merged by the owner, leaves the same data as a direct call of its body, except the stack data, which
  the thief has copies of, and each copy that is allocated is freed exactly once.  The conditions: stack data is smaller
  than 1024 bytes, no two parameters write the same datum, the parameters have the lawful formats and modes of
  \<open>good_param\<close> (copies and assignments copy, stack data has an assignment, the reduction is associative with the neutral element), and
  the body keeps to the declared modes (\<open>body_of\<close>).\<close>

theorem stolen_task_equals_direct_call:
  fixes pfs :: "'v param_format list"
  assumes "hashmap_inv hh khm" and "length args = length pfs" and "length pfs \<le> 32"
    and "kaapi_task_computeready (params_of pfs args) 0 0 hh khm = Some (0, war, cw, hh', khm')"
    and "\<forall>pa \<in> set (zip pfs args). good_param h pa" and "no_alias (zip pfs args)"
  shows "\<exists>h' news. stolen_task_run (body_of W A pfs) war cw pfs args h = Some h'
    \<and> (\<forall>p < dh_next h. p \<notin> stack_data pfs args \<longrightarrow> dh_cell h' p = dh_cell (body_of W A pfs args h) p)
    \<and> dh_malloc h' = news @ dh_malloc h \<and> dh_freed h' = news @ dh_freed h \<and> distinct news"
  by (rule stolen_run_spec [OF assms(2,5,6) computeready_masks [OF assms(1-4)]])

text \<open>Stack data of 1024 bytes or more is copied to the heap, and the copy is never freed.\<close>

definition plain_param :: "access_mode \<Rightarrow> nat param_format" where
  "plain_param m = \<lparr>pf_mode = m, pf_cstor = None, pf_cstorcopy = (\<lambda>v. v), pf_assign = Some (\<lambda>d s. s), pf_neutral = 0,
     pf_reduce = (+)\<rparr>"

definition plain_arg :: "nat \<Rightarrow> nat \<Rightarrow> nat task_arg" where
  "plain_arg p n = \<lparr>ta_value = 0, ta_data = p, ta_version = 0, ta_size = n\<rparr>"

definition plain_heap :: "nat data_heap" where
  "plain_heap = \<lparr>dh_cell = (\<lambda>p. 10 * p), dh_next = 9, dh_malloc = [], dh_freed = []\<rparr>"

lemma large_stack_data_leaks:
  "map_option (\<lambda>h. (dh_malloc h, dh_freed h))
     (stolen_task_run (\<lambda>args h. h) 1 0 [plain_param 0x56] [plain_arg 8 1024] plain_heap) = Some ([9], [])"
  by (simp add: stolen_task_run_def kaapi_tasksteal_body_def steal_param_def plain_param_def plain_arg_def plain_heap_def
      KAAPI_ACCESS_GET_MODE_def mode_defs heap_alloc_def construct_def set_cell_def kaapi_taskwrite_body_def
      copied_mode_def owner_after KAAPI_ACCESS_MODE_IP_def)

text \<open>The thief calls the assignment of stack data without the test for null that the owner makes.\<close>

lemma null_assignment_traps:
  "is_stackp pf \<Longrightarrow> \<not> is_value pf \<Longrightarrow> pf_assign pf = None \<Longrightarrow> steal_param i war cw pf arg h = None"
  by (simp add: steal_param_def Let_def split: prod.split)

text \<open>A task that reads and writes the same datum through two parameters: its result goes through a copy.\<close>

definition twice_params :: "nat param_format list" where
  "twice_params = [plain_param KAAPI_ACCESS_MODE_R, plain_param KAAPI_ACCESS_MODE_W]"

definition twice_args :: "nat task_arg list" where
  "twice_args = [plain_arg 8 4, plain_arg 8 4]"

definition twice_body :: "nat option list \<Rightarrow> nat \<Rightarrow> nat" where
  "twice_body inputs i = 2 * the (hd inputs)"

theorem stolen_task_equals_direct_call_witness:
  "\<exists>war cw h'. stolen_task_run (body_of twice_body (\<lambda>_ _. []) twice_params) war cw twice_params twice_args plain_heap = Some h'
     \<and> dh_cell h' 8 = 160"
proof -
  obtain hh khm where c: "kaapi_hashmap_clear sample_heap sample_map = (hh, khm)" by fastforce
  note e = clear_empty [OF sample_inv(1) c]
  let ?ps = "params_of twice_params twice_args"
  have u: "unready ?ps no_modes = 0"
    by (simp add: twice_params_def twice_args_def plain_param_def plain_arg_def param_ready_def note_access_def no_modes_def
        KAAPI_ACCESS_GET_MODE_def mode_defs KAAPI_ACCESS_MODE_VOID_def)
  obtain war cw hh' khm' where r: "kaapi_task_computeready ?ps 0 0 hh khm = Some (0, war, cw, hh', khm')"
    using computeready_spec [OF e(1), of ?ps] unfolding e(2) u by metis
  have g: "\<forall>pa \<in> set (zip twice_params twice_args). good_param plain_heap pa"
    by (simp add: twice_params_def twice_args_def plain_param_def plain_arg_def plain_heap_def good_param_def lawful_def
        declared_mode_def KAAPI_ACCESS_GET_MODE_def mode_defs KAAPI_ACCESS_MODE_IP_def)
  have n: "no_alias (zip twice_params twice_args)"
    by (simp add: no_alias_def twice_params_def twice_args_def plain_param_def plain_arg_def writes_def less_Suc_eq
        KAAPI_ACCESS_GET_MODE_def mode_defs)
  have l: "length twice_args = length twice_params" "length twice_params \<le> 32" by (simp_all add: twice_params_def twice_args_def)
  obtain h' where h: "stolen_task_run (body_of twice_body (\<lambda>_ _. []) twice_params) war cw twice_params twice_args plain_heap = Some h'"
    "\<forall>p < dh_next plain_heap. p \<notin> stack_data twice_params twice_args \<longrightarrow>
       dh_cell h' p = dh_cell (body_of twice_body (\<lambda>_ _. []) twice_params twice_args plain_heap) p"
    using stolen_task_equals_direct_call [OF e(1) l r g n, of twice_body "\<lambda>_ _. []"] by blast
  have "8 < dh_next plain_heap" "8 \<notin> stack_data twice_params twice_args"
    by (auto simp: plain_heap_def stack_data_def twice_params_def twice_args_def plain_param_def
        KAAPI_ACCESS_GET_MODE_def mode_defs)
  then have "dh_cell h' 8 = dh_cell (body_of twice_body (\<lambda>_ _. []) twice_params twice_args plain_heap) 8" using h(2) by blast
  also have "\<dots> = 160"
    by (simp add: body_of_def twice_body_def twice_params_def twice_args_def plain_param_def plain_arg_def plain_heap_def
        input_of_def output_of_def set_cell_def KAAPI_ACCESS_GET_MODE_def mode_defs Let_def)
  finally show ?thesis using h(1) by blast
qed

end
