(* ===== verification/Select_Victim.thy ===== *)
theory Select_Victim
  imports Kaapi_Prelude "HOL-Library.Monad_Syntax"
begin

text \<open>
  The selection of the victim of a steal (\<^verbatim>\<open>src/src/workstealing/kaapi_sched_select_*.c\<close>): seven functions, one of which
  \<^verbatim>\<open>KAAPI_WSSELECT\<close> chooses at start (\<^verbatim>\<open>src/src/misc/kaapi_init.c\<close>).  A thief calls its function for a victim, and again with
  the outcome of the steal.  \<^verbatim>\<open>rand_r\<close> is a function from a seed to a number and the next seed.  The processors and the levels of
  the topology do not change during a call.  \<open>None\<close> is a loop without end, a division by zero, or the use of
  a level outside the hierarchy of the processor.
\<close>

section \<open>Processors and levels\<close>

datatype kaapi_selecvictim_flag =
  KAAPI_SELECT_VICTIM | KAAPI_STEAL_SUCCESS | KAAPI_STEAL_FAILED | KAAPI_STEAL_ERROR

record kaapi_onelevel =
  lv_kids :: "nat list"
  lv_notself :: "nat list"

text \<open>\<open>se_proc i\<close>: the pointer \<^verbatim>\<open>kaapi_all_kprocessors[i]\<close> is not null; \<open>se_rand\<close> is the result of \<^verbatim>\<open>rand()\<close>; \<open>se_levels\<close> the
  field \<^verbatim>\<open>hlevel\<close> of the thief.\<close>

record select_env =
  se_count :: nat
  se_proc :: "nat \<Rightarrow> bool"
  se_rand_r :: "uint32 \<Rightarrow> nat \<times> uint32"
  se_rand :: nat
  se_workload :: "nat \<Rightarrow> nat"
  se_levels :: "kaapi_onelevel list"

type_synonym 's selection = "(errno \<times> nat option \<times> 's) option"

definition get_level :: "select_env \<Rightarrow> int \<Rightarrow> kaapi_onelevel option" where
  "get_level env d = (if 0 \<le> d \<and> d < int (length (se_levels env)) then Some (se_levels env ! nat d) else None)"

text \<open>An entry of a table of identifiers at the position \<open>r % n\<close> of its \<open>n\<close> entries.\<close>

definition entry_at :: "nat list \<Rightarrow> nat \<Rightarrow> nat option" where
  "entry_at ids r = (if ids = [] then None else Some (ids ! (r mod length ids)))"

text \<open>The loops \<^verbatim>\<open>redo_select\<close>: draw a number, choose an identifier, start again when there is no such processor.\<close>

partial_function (option) redo_pick :: "select_env \<Rightarrow> (nat \<Rightarrow> nat option) \<Rightarrow> uint32 \<Rightarrow> (nat \<times> uint32) option" where
  "redo_pick env pick seed =
     (case se_rand_r env seed of
        (r, seed) \<Rightarrow> (case pick r of
                       None \<Rightarrow> None
                     | Some v \<Rightarrow> if se_proc env v then Some (v, seed) else redo_pick env pick seed))"

section \<open>Flat selections\<close>

text \<open>The first word of \<^verbatim>\<open>fnc_selecarg\<close>, whose low half is the seed.\<close>

definition set_low :: "uint64 \<Rightarrow> uint32 \<Rightarrow> uint64" where
  "set_low a s = push_bit 32 (drop_bit 32 a) OR ucast s"

definition kaapi_sched_select_victim_rand :: "select_env \<Rightarrow> uint64 \<Rightarrow> kaapi_selecvictim_flag \<Rightarrow> uint64 selection" where
  "kaapi_sched_select_victim_rand env a flag =
     (if flag = KAAPI_SELECT_VICTIM
      then (let a = if a = 0 then of_nat (se_rand env) else a
            in if se_count env \<le> 1 then Some (EINVAL, None, a)
               else map_option (\<lambda>(v, s). (OK, Some v, set_low a s))
                      (redo_pick env (\<lambda>r. Some (r mod se_count env)) (ucast a)))
      else Some (OK, None, a))"

text \<open>The first selection takes processor 0 without a test of its pointer; the seed is the field \<^verbatim>\<open>seed\<close> of the processor.\<close>

definition kaapi_sched_select_victim_rand_first0 ::
  "select_env \<Rightarrow> uint64 \<times> uint32 \<Rightarrow> kaapi_selecvictim_flag \<Rightarrow> (uint64 \<times> uint32) selection" where
  "kaapi_sched_select_victim_rand_first0 env st flag =
     (case st of (a, seed) \<Rightarrow>
        if flag \<noteq> KAAPI_SELECT_VICTIM then Some (OK, None, (a, seed))
        else if a = 0 then Some (OK, if se_proc env 0 then Some 0 else None, (1, seed))
        else if se_count env \<le> 1 then Some (EINVAL, None, (a, seed))
        else map_option (\<lambda>(v, s). (OK, Some v, (a, s)))
               (redo_pick env
                  (\<lambda>r. let v = r mod (2 * se_count env) in Some (if v \<ge> se_count env then 0 else v)) seed))"

partial_function (option) redo_workload :: "select_env \<Rightarrow> nat \<Rightarrow> bool \<Rightarrow> uint32 \<Rightarrow> (nat \<times> uint32) option" where
  "redo_workload env ntries do_zero seed =
     (case (if do_zero then (0, seed) else se_rand_r env seed) of
        (r, seed) \<Rightarrow>
          let v = r mod se_count env
          in if \<not> se_proc env v then redo_workload env ntries False seed
             else if ntries < se_count env * 2 \<and> se_workload env v = 0 then redo_workload env (Suc ntries) False seed
             else Some (v, seed))"

definition kaapi_sched_select_victim_workload_rand ::
  "select_env \<Rightarrow> uint64 \<Rightarrow> kaapi_selecvictim_flag \<Rightarrow> uint64 selection" where
  "kaapi_sched_select_victim_workload_rand env a flag =
     (if flag = KAAPI_SELECT_VICTIM
      then (let a = if a = 0 then of_nat (se_rand env) else a
            in if se_count env \<le> 1 then Some (EINVAL, None, a)
               else map_option (\<lambda>(v, s). (OK, Some v, set_low a s)) (redo_workload env 0 True (ucast a)))
      else Some (OK, None, a))"

record kaapi_aff_arg =
  af_lastvictim :: uint32
  af_nextvictim :: uint32
  af_seed :: uint64

text \<open>This loop draws nothing: it looks at the same processor again.\<close>

partial_function (option) redo_aff :: "select_env \<Rightarrow> nat \<Rightarrow> nat option" where
  "redo_aff env v = (if se_proc env v then Some v else redo_aff env v)"

definition aff_draw :: "select_env \<Rightarrow> kaapi_aff_arg \<Rightarrow> kaapi_aff_arg" where
  "aff_draw env arg =
     (case se_rand_r env (ucast (af_seed arg)) of
        (r, s) \<Rightarrow> arg\<lparr>af_nextvictim := of_nat r, af_lastvictim := of_nat r, af_seed := set_low (af_seed arg) s\<rparr>)"

definition kaapi_sched_select_victim_aff :: "select_env \<Rightarrow> kaapi_aff_arg \<Rightarrow> kaapi_selecvictim_flag \<Rightarrow> kaapi_aff_arg selection" where
  "kaapi_sched_select_victim_aff env arg flag =
     (if flag = KAAPI_STEAL_FAILED then Some (OK, None, aff_draw env arg)
      else if flag = KAAPI_STEAL_SUCCESS then Some (OK, None, arg\<lparr>af_lastvictim := af_nextvictim arg\<rparr>)
      else (let arg = if af_seed arg = 0 then aff_draw env (arg\<lparr>af_seed := of_nat (se_rand env)\<rparr>) else arg
            in if se_count env = 0 then None
               else map_option (\<lambda>v. (OK, Some v, arg)) (redo_aff env (unat (af_nextvictim arg) mod se_count env))))"

section \<open>Selections over the topology\<close>

record kaapi_hier_arg =
  hi_nfailed :: "16 word"
  hi_depth :: "16 word"
  hi_depth_min :: "16 word"
  hi_index :: uint32
  hi_seed :: uint32

text \<open>The level where the hierarchy starts: the first one, from \<open>d\<close> on, that does not have exactly one processor; \<open>- 1\<close> when the
  search passes the hierarchy.\<close>

function first_shared :: "select_env \<Rightarrow> nat \<Rightarrow> int option" where
  "first_shared env d =
     (case get_level env (int d) of
        None \<Rightarrow> None
      | Some level \<Rightarrow> if length (lv_kids level) = 1
                      then (if d + 1 > length (se_levels env) then Some (- 1) else first_shared env (d + 1))
                      else Some (int d))"
  by auto
termination by (relation "measure (\<lambda>(env, d). length (se_levels env) - d)") (auto simp: get_level_def split: if_splits)

text \<open>The flat selection on the bytes of the structure, when \<^verbatim>\<open>depth_min\<close> is \<open>- 1\<close>.\<close>

definition hier_flat :: "select_env \<Rightarrow> kaapi_hier_arg \<Rightarrow> kaapi_selecvictim_flag \<Rightarrow> kaapi_hier_arg selection" where
  "hier_flat env arg flag =
     map_option (\<lambda>(err, v, a). (err, v, arg\<lparr>hi_nfailed := ucast a, hi_depth := ucast (drop_bit 16 a)\<rparr>))
       (kaapi_sched_select_victim_rand env
          (ucast (hi_nfailed arg) OR push_bit 16 (ucast (hi_depth arg)) OR push_bit 32 (ucast (hi_depth_min arg))) flag)"

definition hier_failed :: "select_env \<Rightarrow> kaapi_hier_arg \<Rightarrow> kaapi_hier_arg option" where
  "hier_failed env arg =
     do { level \<leftarrow> get_level env (sint (hi_depth arg));
          let arg = arg\<lparr>hi_index := hi_index arg + 1\<rparr>;
          if unat (hi_index arg) \<ge> length (lv_kids level) div 2 \<and> sint (hi_depth arg) \<le> 1 + sint (hi_depth_min arg)
             \<or> unat (hi_index arg) \<ge> 2 \<and> sint (hi_depth arg) > 1 + sint (hi_depth_min arg)
          then (let depth = hi_depth arg + 1
                in Some (arg\<lparr>hi_index := 0,
                             hi_depth := if sint depth = int (length (se_levels env)) then hi_depth_min arg else depth\<rparr>))
          else Some arg }"

definition hier_start :: "select_env \<Rightarrow> kaapi_hier_arg \<Rightarrow> kaapi_hier_arg option" where
  "hier_start env arg =
     (if hi_depth_min arg = 0
      then map_option (\<lambda>d. if d = - 1 then arg\<lparr>hi_seed := of_nat (se_rand env), hi_depth_min := - 1\<rparr>
                            else arg\<lparr>hi_seed := of_nat (se_rand env), hi_depth_min := of_int d, hi_depth := of_int d\<rparr>)
             (first_shared env 0)
      else Some arg)"

definition kaapi_sched_select_victim_hierarchy ::
  "select_env \<Rightarrow> uint64 \<times> kaapi_hier_arg \<Rightarrow> kaapi_selecvictim_flag \<Rightarrow> (uint64 \<times> kaapi_hier_arg) selection" where
  "kaapi_sched_select_victim_hierarchy env st flag =
     (case st of (a, arg) \<Rightarrow>
        if se_levels env = []
        then map_option (\<lambda>(err, v, a). (err, v, (a, arg))) (kaapi_sched_select_victim_rand env a flag)
        else if flag = KAAPI_STEAL_FAILED then map_option (\<lambda>arg. (OK, None, (a, arg))) (hier_failed env arg)
        else if flag = KAAPI_STEAL_SUCCESS then Some (OK, None, (a, arg\<lparr>hi_depth := hi_depth_min arg, hi_index := 0\<rparr>))
        else do { arg \<leftarrow> (if hi_depth_min arg = - 1 then Some arg else hier_start env arg);
                  if hi_depth_min arg = - 1
                  then map_option (\<lambda>(err, v, arg). (err, v, (a, arg))) (hier_flat env arg flag)
                  else do { level \<leftarrow> get_level env (sint (hi_depth arg));
                            (v, s) \<leftarrow> redo_pick env (entry_at (lv_kids level)) (hi_seed arg);
                            Some (OK, Some v, (a, arg\<lparr>hi_seed := s\<rparr>)) } })"

record kaapi_hwsn_arg =
  hw_init :: int
  hw_policy :: int
  hw_nfailed :: int
  hw_seed :: uint32

definition kaapi_sched_select_victim_hwsn ::
  "select_env \<Rightarrow> uint64 \<times> kaapi_hwsn_arg \<Rightarrow> kaapi_selecvictim_flag \<Rightarrow> (uint64 \<times> kaapi_hwsn_arg) selection" where
  "kaapi_sched_select_victim_hwsn env st flag =
     (case st of (a, arg) \<Rightarrow>
        if se_levels env = [] \<or> hw_init arg = - 1
        then map_option (\<lambda>(err, v, a). (err, v, (a, arg))) (kaapi_sched_select_victim_rand env a flag)
        else if flag = KAAPI_STEAL_FAILED
        then (let arg = arg\<lparr>hw_nfailed := hw_nfailed arg + 1\<rparr>
              in Some (OK, None, (a, if hw_nfailed arg > 3 then arg\<lparr>hw_policy := 2\<rparr> else arg)))
        else if flag = KAAPI_STEAL_SUCCESS then Some (OK, None, (a, arg\<lparr>hw_policy := 1, hw_nfailed := 0\<rparr>))
        else (let arg = if hw_init arg = 0
                        then arg\<lparr>hw_init := 1, hw_policy := 2, hw_nfailed := 0, hw_seed := of_nat (se_rand env)\<rparr> else arg
              in if se_count env \<le> 1 then Some (EINVAL, None, (a, arg))
                 else map_option (\<lambda>(v, s). (OK, Some v, (a, arg\<lparr>hw_seed := s\<rparr>)))
                        (redo_pick env
                           (\<lambda>r. if hw_policy arg = 1 then entry_at (lv_notself (se_levels env ! 0)) r
                                else Some (r mod se_count env)) (hw_seed arg))))"

record kaapi_pws_arg =
  pw_level :: int
  pw_seed :: uint32

text \<open>\<^verbatim>\<open>r < 0.8*count\<close> in floating point is \<open>5 * r < 4 * count\<close> for the numbers that a count of processors can be.\<close>

definition pws_pick :: "kaapi_onelevel \<Rightarrow> nat \<Rightarrow> nat option" where
  "pws_pick level r =
     (let count = length (lv_kids level) + length (lv_notself level)
      in if count = 0 then None
         else (let r = r mod count
               in if 5 * r < 4 * count then entry_at (lv_kids level) r else entry_at (lv_notself level) r))"

definition kaapi_sched_select_victim_pws ::
  "select_env \<Rightarrow> uint64 \<times> kaapi_pws_arg \<Rightarrow> kaapi_selecvictim_flag \<Rightarrow> (uint64 \<times> kaapi_pws_arg) selection" where
  "kaapi_sched_select_victim_pws env st flag =
     (case st of (a, arg) \<Rightarrow>
        if se_levels env = []
        then map_option (\<lambda>(err, v, a). (err, v, (a, arg))) (kaapi_sched_select_victim_rand env a flag)
        else if flag = KAAPI_STEAL_FAILED
        then Some (OK, None, (a, if pw_level arg < 2 then arg\<lparr>pw_level := pw_level arg + 1\<rparr> else arg))
        else if flag = KAAPI_STEAL_SUCCESS then Some (OK, None, (a, arg\<lparr>pw_level := 0\<rparr>))
        else (let arg = if pw_seed arg = 0 then arg\<lparr>pw_level := 2, pw_seed := of_nat (se_rand env)\<rparr> else arg
              in do { level \<leftarrow> get_level env (pw_level arg);
                      (v, s) \<leftarrow> redo_pick env (pws_pick level) (pw_seed arg);
                      Some (OK, Some v, (a, arg\<lparr>pw_seed := s\<rparr>)) }))"

section \<open>The selection of a processor\<close>

text \<open>The selections by their names in \<^verbatim>\<open>KAAPI_WSSELECT\<close>, and the state of all of them: \<^verbatim>\<open>fnc_selecarg\<close> holds the part of the one
  in use.\<close>

datatype selector = SelRand | SelWorkload | SelFirst0 | SelHierarchical | SelHws | SelPws | SelAff

definition wsselect :: "string option \<Rightarrow> selector option" where
  "wsselect name =
     (case name of
        None \<Rightarrow> Some SelRand
      | Some s \<Rightarrow> map_of [(''rand'', SelRand), (''workload'', SelWorkload), (''first0'', SelFirst0),
                          (''hierarchical'', SelHierarchical), (''hws'', SelHws), (''pws'', SelPws), (''aff'', SelAff)] s)"

record select_args =
  sa_word :: uint64
  sa_seed :: uint32
  sa_hier :: kaapi_hier_arg
  sa_hwsn :: kaapi_hwsn_arg
  sa_pws :: kaapi_pws_arg
  sa_aff :: kaapi_aff_arg

definition fnc_select :: "selector \<Rightarrow> select_env \<Rightarrow> select_args \<Rightarrow> kaapi_selecvictim_flag \<Rightarrow> select_args selection" where
  "fnc_select sel env st flag =
     (case sel of
        SelRand \<Rightarrow> map_option (\<lambda>(err, v, a). (err, v, st\<lparr>sa_word := a\<rparr>)) (kaapi_sched_select_victim_rand env (sa_word st) flag)
      | SelWorkload \<Rightarrow> map_option (\<lambda>(err, v, a). (err, v, st\<lparr>sa_word := a\<rparr>))
          (kaapi_sched_select_victim_workload_rand env (sa_word st) flag)
      | SelFirst0 \<Rightarrow> map_option (\<lambda>(err, v, a, s). (err, v, st\<lparr>sa_word := a, sa_seed := s\<rparr>))
          (kaapi_sched_select_victim_rand_first0 env (sa_word st, sa_seed st) flag)
      | SelHierarchical \<Rightarrow> map_option (\<lambda>(err, v, a, g). (err, v, st\<lparr>sa_word := a, sa_hier := g\<rparr>))
          (kaapi_sched_select_victim_hierarchy env (sa_word st, sa_hier st) flag)
      | SelHws \<Rightarrow> map_option (\<lambda>(err, v, a, g). (err, v, st\<lparr>sa_word := a, sa_hwsn := g\<rparr>))
          (kaapi_sched_select_victim_hwsn env (sa_word st, sa_hwsn st) flag)
      | SelPws \<Rightarrow> map_option (\<lambda>(err, v, a, g). (err, v, st\<lparr>sa_word := a, sa_pws := g\<rparr>))
          (kaapi_sched_select_victim_pws env (sa_word st, sa_pws st) flag)
      | SelAff \<Rightarrow> map_option (\<lambda>(err, v, g). (err, v, st\<lparr>sa_aff := g\<rparr>)) (kaapi_sched_select_victim_aff env (sa_aff st) flag))"

end
