(* ===== verification/Select_Props.thy ===== *)
theory Select_Props
  imports Select_Victim
begin

text \<open>
  Which processors the selections of \<open>Select_Victim\<close> give: registered ones; from which levels of the topology the hierarchical
  selection takes them; and where the selections run forever or trap.
\<close>

section \<open>Which processor is selected, and when\<close>

lemma redo_pick_chosen: "redo_pick env pick seed = Some y \<Longrightarrow> se_proc env (fst y) \<and> (\<exists>r. pick r = Some (fst y))"
  by (erule redo_pick.raw_induct [rotated, of _ _ _ _ "\<lambda>env pick seed y. se_proc env (fst y) \<and> (\<exists>r. pick r = Some (fst y))"])
    (auto split: prod.splits option.splits if_splits)

lemma redo_pick_registered: "redo_pick env pick seed = Some (v, s) \<Longrightarrow> se_proc env v"
  using redo_pick_chosen by fastforce

lemma redo_workload_registered: "redo_workload env n z seed = Some (v, s) \<Longrightarrow> se_proc env v"
proof -
  have "redo_workload env n z seed = Some y \<Longrightarrow> se_proc env (fst y)" for y
    by (erule redo_workload.raw_induct [rotated, of _ _ _ _ _ "\<lambda>env n z seed y. se_proc env (fst y)"])
      (auto simp: Let_def split: prod.splits if_splits)
  then show "redo_workload env n z seed = Some (v, s) \<Longrightarrow> se_proc env v" by fastforce
qed

lemma redo_aff_registered: "redo_aff env k = Some v \<Longrightarrow> v = k \<and> se_proc env k"
  by (erule redo_aff.raw_induct [rotated, of _ _ _ "\<lambda>env k v. v = k \<and> se_proc env k"]) (auto split: if_splits)

lemma redo_aff_stuck: "redo_aff env k = None \<longleftrightarrow> \<not> se_proc env k"
proof (cases "se_proc env k")
  case False
  then show ?thesis using redo_aff_registered [of env k] by (cases "redo_aff env k") auto
qed (subst redo_aff.simps, simp)

text \<open>The numbers that a seed gives.\<close>

fun draw :: "select_env \<Rightarrow> nat \<Rightarrow> uint32 \<Rightarrow> nat" where
  "draw env 0 seed = fst (se_rand_r env seed)"
| "draw env (Suc n) seed = draw env n (snd (se_rand_r env seed))"

lemma redo_pick_returns:
  "redo_pick env pick seed \<noteq> None \<longleftrightarrow>
     (\<exists>n v. pick (draw env n seed) = Some v \<and> se_proc env v \<and> (\<forall>m < n. pick (draw env m seed) \<noteq> None))"
proof
  assume "redo_pick env pick seed \<noteq> None"
  then obtain y where "redo_pick env pick seed = Some y" by blast
  then show "\<exists>n v. pick (draw env n seed) = Some v \<and> se_proc env v \<and> (\<forall>m < n. pick (draw env m seed) \<noteq> None)"
  proof (rule redo_pick.raw_induct [rotated, of _ _ _ _
      "\<lambda>env pick seed y. \<exists>n v. pick (draw env n seed) = Some v \<and> se_proc env v \<and> (\<forall>m < n. pick (draw env m seed) \<noteq> None)"])
    fix f env pick seed y
    assume 1: "\<And>env pick seed y. f env pick seed = Some y \<Longrightarrow>
        \<exists>n v. pick (draw env n seed) = Some v \<and> se_proc env v \<and> (\<forall>m < n. pick (draw env m seed) \<noteq> None)"
      "(case se_rand_r env seed of (r, seed) \<Rightarrow> case pick r of None \<Rightarrow> None
          | Some v \<Rightarrow> if se_proc env v then Some (v, seed) else f env pick seed) = Some y"
    obtain r s where r: "se_rand_r env seed = (r, s)" by fastforce
    obtain v where v: "pick r = Some v" using 1(2) r by (auto split: option.splits)
    show "\<exists>n v. pick (draw env n seed) = Some v \<and> se_proc env v \<and> (\<forall>m < n. pick (draw env m seed) \<noteq> None)"
    proof (cases "se_proc env v")
      case True
      then show ?thesis using r v by (intro exI [of _ 0] exI [of _ v]) simp
    next
      case False
      then have "f env pick s = Some y" using 1(2) r v by simp
      from 1(1) [OF this] obtain n w where n: "pick (draw env n s) = Some w" "se_proc env w"
        "\<forall>m < n. pick (draw env m s) \<noteq> None" by blast
      have "pick (draw env m seed) \<noteq> None" if "m < Suc n" for m using that n(3) r v by (cases m) simp_all
      then show ?thesis using n r by (intro exI [of _ "Suc n"] exI [of _ w]) simp
    qed
  qed
next
  assume "\<exists>n v. pick (draw env n seed) = Some v \<and> se_proc env v \<and> (\<forall>m < n. pick (draw env m seed) \<noteq> None)"
  then obtain n v where "pick (draw env n seed) = Some v" "se_proc env v" "\<forall>m < n. pick (draw env m seed) \<noteq> None" by blast
  then show "redo_pick env pick seed \<noteq> None"
  proof (induction n arbitrary: seed)
    case 0
    then show ?case by (subst redo_pick.simps) (auto split: prod.split)
  next
    case (Suc n)
    obtain r s where r: "se_rand_r env seed = (r, s)" by fastforce
    have "redo_pick env pick s \<noteq> None"
    proof (rule Suc.IH)
      show "pick (draw env n s) = Some v" "se_proc env v" using Suc.prems r by simp_all
      show "\<forall>m < n. pick (draw env m s) \<noteq> None" using Suc.prems(3) r by (metis Suc_less_eq draw.simps(2) snd_conv)
    qed
    moreover have "pick r \<noteq> None" using Suc.prems(3) r by (metis draw.simps(1) fst_conv zero_less_Suc)
    ultimately show ?case using r by (subst redo_pick.simps) (auto split: option.split)
  qed
qed

definition env_ok :: "select_env \<Rightarrow> bool" where
  "env_ok env \<longleftrightarrow> (\<forall>i. se_proc env i \<longrightarrow> i < se_count env)"

lemma rand_registered:
  "kaapi_sched_select_victim_rand env a flag = Some (OK, v, a') \<Longrightarrow> flag = KAAPI_SELECT_VICTIM \<Longrightarrow> \<exists>k. v = Some k \<and> se_proc env k"
  by (auto simp: kaapi_sched_select_victim_rand_def Let_def dest!: redo_pick_registered split: if_splits)

lemma hierarchy_registered:
  assumes "kaapi_sched_select_victim_hierarchy env (a, arg) KAAPI_SELECT_VICTIM = Some (OK, v, st)"
  shows "\<exists>k. v = Some k \<and> se_proc env k"
proof (cases "se_levels env = []")
  case True
  then show ?thesis using assms rand_registered by (auto simp: kaapi_sched_select_victim_hierarchy_def)
next
  case False
  then obtain arg' where a: "(if hi_depth_min arg = - 1 then Some arg else hier_start env arg) = Some arg'"
    "(if hi_depth_min arg' = - 1 then map_option (\<lambda>(err, v, arg). (err, v, (a, arg))) (hier_flat env arg' KAAPI_SELECT_VICTIM)
      else do { level \<leftarrow> get_level env (sint (hi_depth arg'));
                (v, s) \<leftarrow> redo_pick env (entry_at (lv_kids level)) (hi_seed arg');
                Some (OK, Some v, (a, arg'\<lparr>hi_seed := s\<rparr>)) }) = Some (OK, v, st)"
    using assms by (auto simp: kaapi_sched_select_victim_hierarchy_def bind_eq_Some_conv)
  show ?thesis
  proof (cases "hi_depth_min arg' = - 1")
    case True
    then show ?thesis using a(2) rand_registered by (auto simp: hier_flat_def)
  next
    case False
    then show ?thesis using a(2) redo_pick_registered by (auto simp: bind_eq_Some_conv)
  qed
qed

lemma select_registered:
  assumes "fnc_select sel env st KAAPI_SELECT_VICTIM = Some (OK, v, st')" "sel = SelFirst0 \<Longrightarrow> se_proc env 0"
  shows "\<exists>k. v = Some k \<and> se_proc env k"
proof (cases sel)
  case SelRand
  then show ?thesis using assms(1) rand_registered by (auto simp: fnc_select_def)
next
  case SelWorkload
  then show ?thesis using assms(1)
    by (auto simp: fnc_select_def kaapi_sched_select_victim_workload_rand_def Let_def dest!: redo_workload_registered split: if_splits)
next
  case SelFirst0
  then show ?thesis using assms
    by (auto simp: fnc_select_def kaapi_sched_select_victim_rand_first0_def dest!: redo_pick_registered split: if_splits)
next
  case SelHierarchical
  then show ?thesis using assms(1) hierarchy_registered by (auto simp: fnc_select_def)
next
  case SelHws
  then show ?thesis using assms(1) rand_registered
    by (auto simp: fnc_select_def kaapi_sched_select_victim_hwsn_def Let_def dest!: redo_pick_registered split: if_splits)
next
  case SelPws
  then show ?thesis using assms(1) rand_registered
    by (auto simp: fnc_select_def kaapi_sched_select_victim_pws_def Let_def bind_eq_Some_conv dest!: redo_pick_registered split: if_splits)
next
  case SelAff
  then show ?thesis using assms(1)
    by (auto simp: fnc_select_def kaapi_sched_select_victim_aff_def Let_def dest!: redo_aff_registered split: if_splits)
qed

lemma selected_victim_is_registered:
  assumes "fnc_select sel env st KAAPI_SELECT_VICTIM = Some (OK, v, st')" "sel = SelFirst0 \<Longrightarrow> se_proc env 0" "env_ok env"
  shows "\<exists>k < se_count env. v = Some k \<and> se_proc env k"
  using select_registered [OF assms(1,2)] assms(3) by (auto simp: env_ok_def)

text \<open>The default selection returns when its random numbers hit a registered processor, and runs forever otherwise.\<close>

lemma rand_selection_returns_iff:
  assumes "1 < se_count env"
  shows "kaapi_sched_select_victim_rand env a KAAPI_SELECT_VICTIM \<noteq> None \<longleftrightarrow>
    (\<exists>n. se_proc env (draw env n (ucast (if a = 0 then of_nat (se_rand env) else a)) mod se_count env))"
  using assms redo_pick_returns [of env "\<lambda>r. Some (r mod se_count env)" "ucast (if a = 0 then of_nat (se_rand env) else a)"]
  by (simp add: kaapi_sched_select_victim_rand_def Let_def)

section \<open>The hierarchical selection\<close>

text \<open>The victims of a thief whose steals have the given outcomes.\<close>

fun hier_run :: "select_env \<Rightarrow> uint64 \<times> kaapi_hier_arg \<Rightarrow> bool list \<Rightarrow> nat list option" where
  "hier_run env st [] = Some []"
| "hier_run env st (ok # oks) =
     do { (err, v, st) \<leftarrow> kaapi_sched_select_victim_hierarchy env st KAAPI_SELECT_VICTIM;
          (err, w, st) \<leftarrow> kaapi_sched_select_victim_hierarchy env st (if ok then KAAPI_STEAL_SUCCESS else KAAPI_STEAL_FAILED);
          vs \<leftarrow> hier_run env st oks;
          Some (the v # vs) }"

definition level_ok :: "select_env \<Rightarrow> kaapi_onelevel \<Rightarrow> bool" where
  "level_ok env level \<longleftrightarrow> lv_kids level \<noteq> [] \<and> length (lv_kids level) < 2 ^ 31 \<and> (\<forall>k \<in> set (lv_kids level). se_proc env k)"

definition levels_ok :: "select_env \<Rightarrow> bool" where
  "levels_ok env \<longleftrightarrow> length (se_levels env) \<le> 8 \<and> (\<forall>level \<in> set (se_levels env). level_ok env level)"

lemma pick_level:
  assumes "level_ok env level"
  obtains v s where "redo_pick env (entry_at (lv_kids level)) seed = Some (v, s)" "v \<in> set (lv_kids level)"
proof -
  obtain r s where r: "se_rand_r env seed = (r, s)" by fastforce
  let ?v = "lv_kids level ! (r mod length (lv_kids level))"
  have v: "?v \<in> set (lv_kids level)" using assms by (auto simp: level_ok_def intro!: nth_mem)
  have "redo_pick env (entry_at (lv_kids level)) seed = Some (?v, s)"
    using assms r v by (subst redo_pick.simps) (simp add: entry_at_def level_ok_def)
  then show ?thesis using that v by blast
qed

lemma get_level_nth: "d < length (se_levels env) \<Longrightarrow> get_level env (int d) = Some (se_levels env ! d)"
  by (simp add: get_level_def)

lemma sint_small16: "n < 2 ^ 15 \<Longrightarrow> sint (of_nat n :: 16 word) = int n"
  by (simp add: signed_of_nat signed_take_bit_int_eq_self_iff signed_take_bit_int_eq_self)

lemma level_depth [simp]: "levels_ok env \<Longrightarrow> d \<le> length (se_levels env) \<Longrightarrow> sint (of_nat d :: 16 word) = int d"
  by (rule sint_small16) (simp add: levels_ok_def)

text \<open>The structure of a thief that is at level \<open>d\<close> of a hierarchy that starts at level \<open>m\<close>.\<close>

definition at_level :: "nat \<Rightarrow> nat \<Rightarrow> nat \<Rightarrow> kaapi_hier_arg \<Rightarrow> bool" where
  "at_level m d i arg \<longleftrightarrow> hi_depth_min arg = of_nat m \<and> hi_depth arg = of_nat d \<and> hi_index arg = of_nat i"

definition threshold :: "select_env \<Rightarrow> nat \<Rightarrow> nat \<Rightarrow> nat" where
  "threshold env m d = (if d \<le> m + 1 then length (lv_kids (se_levels env ! d)) div 2 else 2)"

lemma failed_step:
  assumes "levels_ok env" "m \<le> d" "d < length (se_levels env)" "at_level m d i arg" "Suc i < 2 ^ 31"
  obtains arg' where "hier_failed env arg = Some arg'" "Suc i < threshold env m d \<Longrightarrow> at_level m d (Suc i) arg'"
    "threshold env m d \<le> Suc i \<Longrightarrow> Suc d < length (se_levels env) \<Longrightarrow> at_level m (Suc d) 0 arg'"
proof -
  let ?s = "\<lambda>d. sint (of_nat d :: 16 word)"
  have s: "?s d = int d" "?s m = int m" "?s (Suc d) = int (Suc d)"
    using assms(2,3) level_depth [OF assms(1)] by (simp_all del: of_nat_Suc)
  have i: "unat (hi_index arg + 1) = Suc i"
  proof -
    have "hi_index arg + 1 = of_nat (Suc i)" using assms(4) by (simp add: at_level_def)
    then show ?thesis using assms(5) by (simp add: unat_of_nat del: of_nat_Suc)
  qed
  have d1: "hi_depth arg + 1 = of_nat (Suc d)" using assms(4) by (simp add: at_level_def)
  have cond: "(unat (hi_index arg + 1) \<ge> length (lv_kids (se_levels env ! d)) div 2 \<and> int d \<le> 1 + int m
             \<or> unat (hi_index arg + 1) \<ge> 2 \<and> int d > 1 + int m) \<longleftrightarrow> threshold env m d \<le> Suc i"
    by (auto simp: i threshold_def)
  show ?thesis
  proof (cases "threshold env m d \<le> Suc i")
    case True
    then show ?thesis
      using that assms(3,4) s cond d1 by (auto simp: hier_failed_def at_level_def get_level_nth Let_def simp del: of_nat_Suc)
  next
    case False
    then show ?thesis
      using that assms(3,4) s cond by (auto simp: hier_failed_def at_level_def get_level_nth Let_def add.commute)
  qed
qed

lemma level_at: "levels_ok env \<Longrightarrow> d < length (se_levels env) \<Longrightarrow> level_ok env (se_levels env ! d)"
  by (simp add: levels_ok_def)

lemma small_depth:
  assumes "0 < m" "m \<le> 8"
  shows "(of_nat m :: 16 word) \<noteq> 0" "(of_nat m :: 16 word) \<noteq> - 1"
proof -
  have u: "sint (of_nat m :: 16 word) = int m" using assms(2) by (intro sint_small16) simp
  show "(of_nat m :: 16 word) \<noteq> 0" "(of_nat m :: 16 word) \<noteq> - 1" using u assms(1) by auto
qed

lemma select_at_level:
  assumes "levels_ok env" "0 < m" "m \<le> d" "d < length (se_levels env)" "at_level m d i arg"
  obtains v s where "kaapi_sched_select_victim_hierarchy env (a, arg) KAAPI_SELECT_VICTIM = Some (OK, Some v, (a, arg\<lparr>hi_seed := s\<rparr>))"
    "v \<in> set (lv_kids (se_levels env ! d))" "at_level m d i (arg\<lparr>hi_seed := s\<rparr>)"
proof -
  have m: "hi_depth_min arg \<noteq> 0" "hi_depth_min arg \<noteq> - 1" "se_levels env \<noteq> []"
    using small_depth [of m] assms by (auto simp: at_level_def levels_ok_def)
  have g: "get_level env (sint (hi_depth arg)) = Some (se_levels env ! d)"
    using assms(1,4,5) by (simp add: at_level_def get_level_nth)
  obtain v s where v: "redo_pick env (entry_at (lv_kids (se_levels env ! d))) (hi_seed arg) = Some (v, s)"
    "v \<in> set (lv_kids (se_levels env ! d))" using pick_level [OF level_at [OF assms(1,4)]] by metis
  show ?thesis
    using that [of v s] v m g assms(5) by (simp add: kaapi_sched_select_victim_hierarchy_def hier_start_def at_level_def)
qed

lemma round_failed:
  assumes "levels_ok env" "0 < m" "m \<le> d" "d < length (se_levels env)" "at_level m d i arg" "Suc i < 2 ^ 31"
  obtains v arg' where "v \<in> set (lv_kids (se_levels env ! d))"
    "\<And>oks. hier_run env (a, arg) (False # oks) = map_option (\<lambda>vs. v # vs) (hier_run env (a, arg') oks)"
    "Suc i < threshold env m d \<Longrightarrow> at_level m d (Suc i) arg'"
    "threshold env m d \<le> Suc i \<Longrightarrow> Suc d < length (se_levels env) \<Longrightarrow> at_level m (Suc d) 0 arg'"
proof -
  obtain v s where v: "kaapi_sched_select_victim_hierarchy env (a, arg) KAAPI_SELECT_VICTIM = Some (OK, Some v, (a, arg\<lparr>hi_seed := s\<rparr>))"
    "v \<in> set (lv_kids (se_levels env ! d))" "at_level m d i (arg\<lparr>hi_seed := s\<rparr>)"
    using select_at_level [OF assms(1-5)] by metis
  obtain arg' where f: "hier_failed env (arg\<lparr>hi_seed := s\<rparr>) = Some arg'" "Suc i < threshold env m d \<Longrightarrow> at_level m d (Suc i) arg'"
    "threshold env m d \<le> Suc i \<Longrightarrow> Suc d < length (se_levels env) \<Longrightarrow> at_level m (Suc d) 0 arg'"
    using failed_step [OF assms(1,3,4) v(3) assms(6)] by metis
  have "se_levels env \<noteq> []" using assms(4) by auto
  then have "kaapi_sched_select_victim_hierarchy env (a, arg\<lparr>hi_seed := s\<rparr>) KAAPI_STEAL_FAILED = Some (OK, None, (a, arg'))"
    by (simp add: kaapi_sched_select_victim_hierarchy_def f(1))
  then have "hier_run env (a, arg) (False # oks) = map_option (\<lambda>vs. v # vs) (hier_run env (a, arg') oks)" for oks
    using v(1) by (cases "hier_run env (a, arg') oks") simp_all
  then show ?thesis using that v(2) f(2,3) by blast
qed

definition fails_to :: "select_env \<Rightarrow> nat \<Rightarrow> nat \<Rightarrow> uint64 \<Rightarrow> kaapi_hier_arg \<Rightarrow> nat \<Rightarrow> kaapi_hier_arg \<Rightarrow> bool" where
  "fails_to env m d a arg n arg' \<longleftrightarrow> at_level m d 0 arg'
     \<and> (\<exists>vs0. length vs0 = n \<and> (\<forall>oks. hier_run env (a, arg) (replicate n False @ oks) =
          map_option (\<lambda>vs. vs0 @ vs) (hier_run env (a, arg') oks)))"

lemma fails_Suc:
  assumes "\<And>oks. hier_run env (a, arg) (False # oks) = map_option (\<lambda>vs. v # vs) (hier_run env (a, arg1) oks)"
    "fails_to env m d a arg1 n arg'"
  shows "fails_to env m d a arg (Suc n) arg'"
proof -
  obtain vs0 where v: "length vs0 = n" "\<forall>oks. hier_run env (a, arg1) (replicate n False @ oks) =
      map_option (\<lambda>vs. vs0 @ vs) (hier_run env (a, arg') oks)" using assms(2) by (auto simp: fails_to_def)
  have "hier_run env (a, arg) (replicate (Suc n) False @ oks) = map_option (\<lambda>vs. (v # vs0) @ vs) (hier_run env (a, arg') oks)" for oks
    using assms(1) [of "replicate n False @ oks"] v(2) by (simp add: option.map_comp o_def del: hier_run.simps)
  then show ?thesis using assms(2) v(1) unfolding fails_to_def by (metis length_Cons)
qed

lemma fails_none: "at_level m d 0 arg \<Longrightarrow> fails_to env m d a arg 0 arg"
proof -
  have "map_option ((@) []) t = t" for t :: "nat list option" by (cases t) simp_all
  then show "at_level m d 0 arg \<Longrightarrow> fails_to env m d a arg 0 arg"
    unfolding fails_to_def by (intro conjI exI [of _ "[]"]) simp_all
qed

lemma next_level:
  assumes "levels_ok env" "0 < m" "m \<le> d" "Suc d < length (se_levels env)" "at_level m d i arg" "Suc i < 2 ^ 31"
  shows "\<exists>n arg'. fails_to env m (Suc d) a arg n arg'"
  using assms(5,6)
proof (induction "threshold env m d - i" arbitrary: i arg rule: less_induct)
  case less
  have d: "d < length (se_levels env)" using assms(4) by simp
  obtain v arg1 where r: "\<And>oks. hier_run env (a, arg) (False # oks) = map_option (\<lambda>vs. v # vs) (hier_run env (a, arg1) oks)"
    "Suc i < threshold env m d \<Longrightarrow> at_level m d (Suc i) arg1"
    "threshold env m d \<le> Suc i \<Longrightarrow> Suc d < length (se_levels env) \<Longrightarrow> at_level m (Suc d) 0 arg1"
    using round_failed [OF assms(1-3) d less.prems] by metis
  show ?case
  proof (cases "threshold env m d \<le> Suc i")
    case True
    then show ?thesis using fails_Suc [OF r(1) fails_none [OF r(3) [OF _ assms(4)]]] by blast
  next
    case False
    have "level_ok env (se_levels env ! d)" using level_at [OF assms(1) d] .
    then have "threshold env m d < 2 ^ 31" by (auto simp: threshold_def level_ok_def)
    then have "Suc (Suc i) < 2 ^ 31" using False by simp
    moreover have "threshold env m d - Suc i < threshold env m d - i" using False by simp
    ultimately obtain n arg' where "fails_to env m (Suc d) a arg1 n arg'"
      using less.hyps [OF _ r(2)] False by force
    then show ?thesis using fails_Suc [OF r(1)] by blast
  qed
qed

lemma fails_trans:
  assumes "fails_to env m d a arg n arg1" "fails_to env m d' a arg1 k arg2"
  shows "fails_to env m d' a arg (n + k) arg2"
proof -
  obtain v0 where v0: "length v0 = n" "\<forall>oks. hier_run env (a, arg) (replicate n False @ oks) =
      map_option (\<lambda>vs. v0 @ vs) (hier_run env (a, arg1) oks)" using assms(1) by (auto simp: fails_to_def)
  obtain v1 where v1: "length v1 = k" "\<forall>oks. hier_run env (a, arg1) (replicate k False @ oks) =
      map_option (\<lambda>vs. v1 @ vs) (hier_run env (a, arg2) oks)" using assms(2) by (auto simp: fails_to_def)
  have "hier_run env (a, arg) (replicate (n + k) False @ oks) = map_option (\<lambda>vs. (v0 @ v1) @ vs) (hier_run env (a, arg2) oks)" for oks
    using v0(2) v1(2) by (simp add: replicate_add option.map_comp o_def)
  then show ?thesis using assms(2) v0(1) v1(1) unfolding fails_to_def by (metis length_append)
qed

lemma reach_level:
  assumes "levels_ok env" "0 < m" "m \<le> d" "d < length (se_levels env)" "at_level m m 0 arg"
  shows "\<exists>n arg'. fails_to env m d a arg n arg'"
  using assms(3,4)
proof (induction d rule: dec_induct)
  case base
  then show ?case using fails_none [OF assms(5)] by blast
next
  case (step d)
  then obtain n arg1 where n: "fails_to env m d a arg n arg1" by auto
  then have "at_level m d 0 arg1" by (simp add: fails_to_def)
  then obtain k arg2 where "fails_to env m (Suc d) a arg1 k arg2"
    using next_level [OF assms(1,2) step.hyps(1) step.prems] by fastforce
  then show ?case using fails_trans [OF n] by blast
qed

lemma first_shared_eq:
  assumes "m < length (se_levels env)" "\<forall>j < m. length (lv_kids (se_levels env ! j)) = 1" "length (lv_kids (se_levels env ! m)) \<noteq> 1"
    "d \<le> m"
  shows "first_shared env d = Some (int m)"
  using assms(4)
proof (induction d rule: inc_induct)
  case base
  then show ?case using assms(1,3) by (subst first_shared.simps) (simp add: get_level_nth)
next
  case (step d)
  then have "d < length (se_levels env)" "length (lv_kids (se_levels env ! d)) = 1" using assms(1,2) by auto
  then show ?case using step.IH by (subst first_shared.simps) (simp add: get_level_nth)
qed

lemma started:
  assumes "first_shared env 0 = Some (int m)" "hi_depth_min arg = 0" "m \<noteq> 0" "m \<le> 8" "se_levels env \<noteq> []"
  shows "hier_run env (a, arg) (ok # oks) =
    hier_run env (a, arg\<lparr>hi_seed := of_nat (se_rand env), hi_depth_min := of_nat m, hi_depth := of_nat m\<rparr>) (ok # oks)"
  using assms small_depth [of m] by (simp add: kaapi_sched_select_victim_hierarchy_def hier_start_def)

text \<open>C21: When the first levels have one processor only, a thief whose steals keep failing selects victims from every level from
  the first shared one to the whole machine, whatever the random numbers.\<close>

theorem hierarchy_reaches_every_level:
  assumes "levels_ok env" and "0 < m" "m \<le> d" "d < length (se_levels env)"
    and "\<forall>j < m. length (lv_kids (se_levels env ! j)) = 1" "length (lv_kids (se_levels env ! m)) \<noteq> 1"
    and "hi_depth_min arg = 0" "hi_index arg = 0"
  shows "\<exists>n vs. hier_run env (a, arg) (replicate (Suc n) False) = Some vs \<and> vs ! n \<in> set (lv_kids (se_levels env ! d))"
proof -
  let ?arg = "arg\<lparr>hi_seed := of_nat (se_rand env), hi_depth_min := of_nat m, hi_depth := of_nat m\<rparr>"
  have m: "m < length (se_levels env)" "m \<le> 8" "se_levels env \<noteq> []" using assms(1,3,4) by (auto simp: levels_ok_def)
  have s: "hier_run env (a, arg) (replicate (Suc n) False) = hier_run env (a, ?arg) (replicate (Suc n) False)" for n
    using started [OF first_shared_eq [OF m(1) assms(5,6)] assms(7)] assms(2) m(2,3) by (simp del: hier_run.simps)
  have "at_level m m 0 ?arg" using assms(8) by (simp add: at_level_def)
  then obtain n arg' where n: "fails_to env m d a ?arg n arg'" using reach_level [OF assms(1-4)] by blast
  then obtain vs0 where v: "length vs0 = n" "at_level m d 0 arg'" "\<forall>oks. hier_run env (a, ?arg) (replicate n False @ oks) =
      map_option (\<lambda>vs. vs0 @ vs) (hier_run env (a, arg') oks)" by (auto simp: fails_to_def)
  have one: "Suc 0 < 2 ^ 31" by simp
  obtain v arg2 where "v \<in> set (lv_kids (se_levels env ! d))"
    "\<And>oks. hier_run env (a, arg') (False # oks) = map_option (\<lambda>vs. v # vs) (hier_run env (a, arg2) oks)"
    using round_failed [OF assms(1-4) v(2) one, of a] by metis
  note w = this
  have e: "replicate (Suc n) False = replicate n False @ [False]" by (simp add: replicate_append_same)
  have "hier_run env (a, ?arg) (replicate (Suc n) False) = Some (vs0 @ [v])"
    unfolding e v(3) [rule_format] w(2) by simp
  then show ?thesis using s w(1) v(1) by (metis nth_append_length)
qed

lemma first_level_round:
  assumes "levels_ok env" "se_levels env = level # levels" "length (lv_kids level) \<noteq> 1" "hi_depth_min arg = 0"
  obtains v arg' where "v \<in> set (lv_kids level)" "hi_depth_min arg' = 0"
    "\<And>oks. hier_run env (a, arg) (ok # oks) = map_option (\<lambda>vs. v # vs) (hier_run env (a, arg') oks)"
proof -
  have f: "first_shared env 0 = Some 0" using first_shared_eq [of 0 env 0] assms(2,3) by simp
  have g: "get_level env 0 = Some level" using get_level_nth [of 0 env] assms(2) by simp
  have "level_ok env level" using assms(1,2) by (simp add: levels_ok_def)
  then obtain v s where v: "redo_pick env (entry_at (lv_kids level)) (of_nat (se_rand env)) = Some (v, s)" "v \<in> set (lv_kids level)"
    using pick_level by metis
  let ?arg = "arg\<lparr>hi_seed := s, hi_depth_min := 0, hi_depth := 0\<rparr>"
  have sel: "kaapi_sched_select_victim_hierarchy env (a, arg) KAAPI_SELECT_VICTIM = Some (OK, Some v, (a, ?arg))"
    using assms(2,4) f g v(1) by (simp add: kaapi_sched_select_victim_hierarchy_def hier_start_def)
  have "\<exists>arg'. hier_failed env ?arg = Some arg' \<and> hi_depth_min arg' = 0"
    using g by (simp add: hier_failed_def Let_def)
  then obtain arg' where f1: "hier_failed env ?arg = Some arg'" "hi_depth_min arg' = 0" by blast
  show ?thesis
  proof (cases ok)
    case True
    have "kaapi_sched_select_victim_hierarchy env (a, ?arg) KAAPI_STEAL_SUCCESS = Some (OK, None, (a, ?arg\<lparr>hi_index := 0\<rparr>))"
      using assms(2) by (simp add: kaapi_sched_select_victim_hierarchy_def)
    then have "hier_run env (a, arg) (ok # oks) = map_option (\<lambda>vs. v # vs) (hier_run env (a, ?arg\<lparr>hi_index := 0\<rparr>) oks)" for oks
      using sel True by (cases "hier_run env (a, ?arg\<lparr>hi_index := 0\<rparr>) oks") simp_all
    then show ?thesis using that [of v "?arg\<lparr>hi_index := 0\<rparr>"] v(2) by simp
  next
    case False
    have "kaapi_sched_select_victim_hierarchy env (a, ?arg) KAAPI_STEAL_FAILED = Some (OK, None, (a, arg'))"
      using assms(2) f1 by (simp add: kaapi_sched_select_victim_hierarchy_def)
    then have "hier_run env (a, arg) (ok # oks) = map_option (\<lambda>vs. v # vs) (hier_run env (a, arg') oks)" for oks
      using sel False by (cases "hier_run env (a, arg') oks") simp_all
    then show ?thesis using that [of v arg'] v(2) f1(2) by simp
  qed
qed

text \<open>C20: When the first level has not exactly one processor (on most machines two or more share a cache), the hierarchical
  selection only ever chooses victims of that level, however many steals fail: the test \<^verbatim>\<open>depth_min == 0\<close>, which
  stands for an unset structure, also holds when 0 is the level found, so each selection starts again from it.\<close>

theorem hierarchy_stays_on_first_level:
  assumes "levels_ok env" "se_levels env = level # levels" "length (lv_kids level) \<noteq> 1" "hi_depth_min arg = 0"
  shows "\<exists>vs. hier_run env (a, arg) oks = Some vs \<and> length vs = length oks \<and> set vs \<subseteq> set (lv_kids level)"
  using assms(4)
proof (induction oks arbitrary: arg)
  case (Cons ok oks)
  obtain v arg' where "v \<in> set (lv_kids level)" "hi_depth_min arg' = 0"
    "\<And>oks. hier_run env (a, arg) (ok # oks) = map_option (\<lambda>vs. v # vs) (hier_run env (a, arg') oks)"
    using first_level_round [OF assms(1-3) Cons.prems] by metis
  then show ?case using Cons.IH [of arg'] by auto
qed simp

section \<open>Traps\<close>

lemma aff_waits_for_missing_processor:
  assumes "af_seed arg \<noteq> 0" "0 < se_count env" "\<not> se_proc env (unat (af_nextvictim arg) mod se_count env)"
  shows "kaapi_sched_select_victim_aff env arg KAAPI_SELECT_VICTIM = None"
  using assms redo_aff_stuck by (simp add: kaapi_sched_select_victim_aff_def)

lemma pws_needs_three_levels:
  assumes "se_levels env \<noteq> []" "length (se_levels env) \<le> 2" "pw_seed arg = 0"
  shows "kaapi_sched_select_victim_pws env (a, arg) KAAPI_SELECT_VICTIM = None"
  using assms by (simp add: kaapi_sched_select_victim_pws_def get_level_def)

lemma hws_traps_after_success_on_one_level:
  assumes "se_levels env = [level]" "lv_notself level = []" "hw_init arg = 1" "1 < se_count env"
    and "kaapi_sched_select_victim_hwsn env (a, arg) KAAPI_STEAL_SUCCESS = Some (err, v, st)"
  shows "kaapi_sched_select_victim_hwsn env st KAAPI_SELECT_VICTIM = None"
proof -
  have n: "redo_pick env (entry_at []) seed = None" for seed
    using redo_pick_chosen [of env "entry_at []" seed] by (cases "redo_pick env (entry_at []) seed") (auto simp: entry_at_def)
  have "st = (a, arg\<lparr>hw_policy := 1, hw_nfailed := 0\<rparr>)"
    using assms by (simp add: kaapi_sched_select_victim_hwsn_def)
  then show ?thesis using assms(1-4) n by (simp add: kaapi_sched_select_victim_hwsn_def)
qed

section \<open>Witnesses\<close>

definition three_levels :: select_env where
  "three_levels = \<lparr>se_count = 4, se_proc = (\<lambda>i. i < 4), se_rand_r = (\<lambda>s. (unat s, s * 1103515245 + 12345)), se_rand = 42,
     se_workload = (\<lambda>_. 0),
     se_levels = [\<lparr>lv_kids = [0], lv_notself = [1]\<rparr>, \<lparr>lv_kids = [0, 1], lv_notself = [2, 3]\<rparr>,
                  \<lparr>lv_kids = [0, 1, 2, 3], lv_notself = []\<rparr>]\<rparr>"

definition hier_zero :: kaapi_hier_arg where
  "hier_zero = \<lparr>hi_nfailed = 0, hi_depth = 0, hi_depth_min = 0, hi_index = 0, hi_seed = 0\<rparr>"

lemma three_levels_ok: "levels_ok three_levels"
  by (simp add: levels_ok_def level_ok_def three_levels_def)

theorem hierarchy_reaches_every_level_witness:
  "\<exists>n vs. hier_run three_levels (0, hier_zero) (replicate (Suc n) False) = Some vs \<and> vs ! n \<in> {0, 1, 2, 3}"
  using hierarchy_reaches_every_level [OF three_levels_ok, of 1 2 hier_zero 0]
  by (simp add: three_levels_def hier_zero_def)

theorem hierarchy_stays_on_first_level_witness:
  "\<exists>vs. hier_run (three_levels\<lparr>se_levels := tl (se_levels three_levels)\<rparr>) (0, hier_zero) [False, False, False] = Some vs \<and> set vs \<subseteq> {0, 1}"
proof -
  have "levels_ok (three_levels\<lparr>se_levels := tl (se_levels three_levels)\<rparr>)"
    by (simp add: levels_ok_def level_ok_def three_levels_def)
  from hierarchy_stays_on_first_level [OF this, of "\<lparr>lv_kids = [0, 1], lv_notself = [2, 3]\<rparr>" "[\<lparr>lv_kids = [0, 1, 2, 3], lv_notself = []\<rparr>]"
      hier_zero 0 "[False, False, False]"]
  show ?thesis by (auto simp: three_levels_def hier_zero_def simp del: hier_run.simps)
qed

end
