(* ===== verification/Spec2Isabelle.thy ===== *)
theory Spec2Isabelle
  imports Bitmap_Props Request_Iterator Cpuset The_Protocol Spinlock Static_Task Foreach_Runs Steal_Props Steal_Scan Emit_Props Exec_Props Copy_Props Select_Props
begin

text \<open>
  A verification development of the XKaapi runtime, the C library under \<^verbatim>\<open>src/\<close> of the repository
  that schedules tasks with data flow dependencies by work stealing.

  \<^bold>\<open>The program.\<close>  A program creates tasks in frames of a stack; the modes of the tasks' parameters give their
  dependencies.  The owner of a stack runs its tasks in order.  Idle processors post requests in a shared bitmap of a
  victim; the processor that takes the lock of the victim (the combiner) serves all posted requests in one go, with
  tasks of the stack whose data is ready, or with parts of a task that can be split.  Loops are intervals of indices that a
  worker pops from the front and combiners split from the back.  A frame can also be turned into a graph of task
  descriptors, with a hash table from addresses to versions of data; a descriptor becomes ready when the counters of its
  predecessors are complete, and waits in a queue by priority until a thread takes it.

  \<^bold>\<open>The theories.\<close>  Shared structures:
  \<^item> \<open>Kaapi_Prelude\<close>: word types, error codes, words as sets of bits (\<^verbatim>\<open>ffs\<close>, \<^verbatim>\<open>popcount\<close>), the collections the
    component proofs share.
  \<^item> \<open>Bitmap_Spec\<close>, \<open>Bitmap_Word\<close>, \<open>Bitmap128\<close>, \<open>Bitmap192\<close>, \<open>Bitmap256\<close>, \<open>Bitmap_Props\<close>: \<^verbatim>\<open>machine/mt/kaapi_mt_bitmap.h\<close>.  The
    contract of a bitmap as locales over the set of its bits; the five widths, each plain and atomic, interpret
    what holds of them; the operations that break the contract have lemmas of their own.  The atomic
    \<^verbatim>\<open>first1_and_zero\<close> takes the interference of the other threads as an argument.
  \<^item> \<open>Request_Iterator\<close>: the iterator over posted requests in \<^verbatim>\<open>machine/mt/kaapi_mt_machine.h\<close>, on any bitmap of the
    contract.
  \<^item> \<open>Cpuset\<close>: \<^verbatim>\<open>kaapi_cpuset.h\<close>, \<^verbatim>\<open>misc/kaapi_cpuset2str.c\<close>, \<^verbatim>\<open>misc/kaapi_cpuset_firstone.c\<close>.
  \<^item> \<open>Workqueue\<close>: the interval queue of \<^verbatim>\<open>kaapi.h\<close> and \<^verbatim>\<open>misc/kaapi_wq_*.c\<close>, called by one thread at a time, on
    64-bit words; signed and unsigned queues interpret one contract.
  \<^item> \<open>The_Protocol\<close>: the same queue with an owner and thieves that interleave, as step relations on a memory with store
    buffers; every memory access and fence of pop, slowpop, push and steal is a step.
  \<^item> \<open>Spinlock\<close>: the lock of \<^verbatim>\<open>kaapi_atomic.h\<close>, sequential and as steps of any number of threads.
  \<^item> \<open>Hashmap\<close>: \<^verbatim>\<open>kaapi_hashmap.h\<close> and \<^verbatim>\<open>misc/kaapi_hash*.c\<close> on a heap of blocs of entries.  Search and release are
    partial functions, so that a search that would run forever is \<open>None\<close>; the invariant makes them total.

  Frames as graphs:
  \<^item> \<open>Dataflow\<close>: \<^verbatim>\<open>kaapi_tasklist.h\<close>, \<^verbatim>\<open>thread/kaapi_thread_checkdeps.c\<close>, \<^verbatim>\<open>kaapi_thread_computeready_access.c\<close>,
    \<^verbatim>\<open>kaapi_version_addaccess.c\<close>, \<^verbatim>\<open>kaapi_version_find.c\<close>: how a task gets its descriptor and links, over the
    contract of a table of versions.
  \<^item> \<open>Critical_Path\<close>: \<^verbatim>\<open>tasklist/kaapi_tasklist_criticalpath.c\<close>, the depth first search that dates the
    descriptors.
  \<^item> \<open>Computereadylist\<close>: the drivers \<^verbatim>\<open>kaapi_thread_computereadylist\<close> and \<^verbatim>\<open>kaapi_sched_computereadylist\<close>, on
    the hash table of \<open>Hashmap\<close>, which interprets the table of versions.
  \<^item> \<open>Ready_Tasklist\<close>: \<^verbatim>\<open>tasklist/kaapi_readytasklist*\<close>, the doubly linked queues of ready descriptors by
    priority, and the four policies of a steal, which interpret the locale \<open>steal_policy\<close>.
  \<^item> \<open>Ready_Pools\<close>: the queues of a running frame and the push by affinity (\<^verbatim>\<open>affinity/kaapi_affinity_push.c\<close>), behind the
    locales \<open>ready_pool\<close>, \<open>cpu_ready_pool\<close> and \<open>local_ready_pool\<close>.
  \<^item> \<open>Tasklist_Exec\<close>, \<open>Tasklist_Exec_Inv\<close>: \<^verbatim>\<open>thread/kaapi_thread_execframe_tasklist.c\<close> and the steals of descriptors, as steps
    of any number of threads; the phases of a descriptor and the invariant of the counters.
  \<^item> \<open>Static_Task\<close>: \<^verbatim>\<open>static/kaapi_stsched_tasksetstatic.c\<close>, which composes the graph of a frame with its execution.

  Parallel loops (\<^verbatim>\<open>src/api/kaapic/kaapic_work.c\<close>):
  \<^item> \<open>Foreach\<close>: the attributes, the distribution of the slices and the local work of a loop; \<open>Foreach_Step\<close>: its
    threads and combiners as a step relation; \<open>Foreach_Inv\<close>, \<open>Foreach_Worker\<close>, \<open>Foreach_Split\<close>: the invariant, and that
    the steps of the workers and of the splitters keep it; \<open>Foreach_Live\<close>: a potential that some step always lowers;
    \<open>Foreach_Props\<close>: a loop from its start to its return; \<open>Foreach_Runs\<close>: runs outside these configurations.
    The reset of a queue is its two stores and the publication that follows, the size of a queue its two reads, and the locks
    that the code takes are guards; an operation on the map of slices is one step (one word up to 64 threads).  The
    properties are for loops that thread 0 starts on the threads below some \<open>m\<close>, the default.

  Stacks of tasks and their thieves:
  \<^item> \<open>Task_State\<close>: the state byte of a task (\<^verbatim>\<open>kaapi_task.h\<close>).
  \<^item> \<open>Steal_Protocol\<close>, \<open>Steal_Props\<close>: the owner of a frame (the loop of \<^verbatim>\<open>thread/kaapi_thread_execframe.c\<close> and its
    preemption), the combiners (\<^verbatim>\<open>workstealing/kaapi_sched_stealtask.c\<close>) and the thieves (\<^verbatim>\<open>task/kaapi_task_steal_body.c\<close>)
    as steps on the states of the tasks.
  \<^item> \<open>Stack_Steal\<close>, \<open>Steal_Scan\<close>: the readiness test \<^verbatim>\<open>task/kaapi_task_computeready.c\<close> over the hash table of \<open>Hashmap\<close> and the scan
    of a frame for stealable tasks (\<^verbatim>\<open>workstealing/kaapi_sched_stealframe.c\<close>); what a scan hands out.
  \<^item> \<open>Steal_Copy\<close>, \<open>Copy_Props\<close>: the data of a stolen task (\<^verbatim>\<open>task/kaapi_task_steal_body.c\<close>, \<^verbatim>\<open>task/kaapi_task_aftersteal.c\<close>), from
    the copies of the thief to the merge by the owner.
  \<^item> \<open>Steal_Emit\<close>, \<open>Emit_Props\<close>: the emission of steal requests (\<^verbatim>\<open>machine/mt/kaapi_mt_sched_emitsteal.c\<close>), for any number
    of processors that interleave.
  \<^item> \<open>Exec_Frame\<close>, \<open>Exec_Props\<close>: the execution of the frames of a stack, \<^verbatim>\<open>kaapi_stack_execframe\<close>, and the
    synchronisation \<^verbatim>\<open>kaapi_sched_sync\<close>; what the thieves do meanwhile is an argument: at a stolen task they may be done, have to be
    waited for, or give it back (\<^verbatim>\<open>EINTR\<close>).  A body is the fixed list of the tasks it pushes, so one that synchronises itself is
    outside the model.
  \<^item> \<open>Select_Victim\<close>, \<open>Select_Props\<close>: the selections of a victim (\<^verbatim>\<open>workstealing/kaapi_sched_select_*.c\<close>), over any pseudo-random
    generator.

  \<^bold>\<open>State and memory.\<close>  A C structure is a record, a pointer into a pool of structures a number in allocation order, with 0 or
  \<open>None\<close> for the null pointer; machine words keep their width where the code can wrap.  A function that updates a structure
  returns it; a failed \<^verbatim>\<open>kaapi_assert\<close>, a division by zero, a null dereference and a loop without end are \<open>None\<close>.  Allocation succeeds.
  Assertions that exist in debug builds only are not branches; where the code needs them they are hypotheses.  What interleaves
  is a step relation whose steps are the accesses to shared memory; only \<open>The_Protocol\<close> has store buffers, the other relations
  have a sequentially consistent memory.

  \<^bold>\<open>Fuel.\<close>  The loop over a bitmap has the number of its bits as fuel, and the service of the requests of a combiner 257, one more
  than the number of requests a bitmap can hold; the properties show that this is enough.  The recursion of
  the critical path has as much stack as there are descriptors, one more than the greatest rank.  The loops of
  \<^verbatim>\<open>kaapi_stack_execframe\<close> and \<^verbatim>\<open>kaapi_sched_sync\<close> may wait for a thief forever, and take fuel for that reason: the
  properties state that some fuel, and every larger one, gives the result.

  \<^bold>\<open>What the lemmas show.\<close>  For each data structure an invariant, that each operation keeps it, and what each operation
  does to the set, interval, list or finite map it stands for.  For each concurrent part (the interval queue, the spin lock,
  the execution of task lists, parallel loops, the owner of a frame and its thieves, the emission of steal requests) an inductive
  invariant over all reachable states, from which safety follows, and the absence of blocked states.  For the graph of a frame that its
  links are the last-writer relation of the program order, that its counters are the in-degrees, that it has no cycle, and which
  descriptors are ready at the start; for its execution that every task runs once and after its predecessors.  For a stack
  that its tasks run once, in the order of the sequential program when there are no thieves.  Several properties state where the code departs
  from its comments or its contract.

  \<^bold>\<open>What is not modelled.\<close>  The queue of suspended threads and the idle loop, which wait on the machine.  Formats are reduced to the modes and addresses
  of the parameters, and a splitter is an argument.  The steal contexts of adaptive tasks appear only as the counter of thieves in
  parallel loops.  The registration of data in address spaces, the GPU back end, traces, topology discovery, and the OpenMP, Quark,
  C++ and Fortran interfaces are outside the development: input and output, calls of libraries, or other languages.
\<close>

end
